(* ===== verification/Prelude.thy ===== *)
theory Prelude
  imports Main "HOL-Library.Word"
begin

text \<open>
  What every component of the development shares: the machine integer types, the error
  type and the sequencing operator of the model, the bit-field accessors that stand for
  the C bit-fields of the kernel structures, and the list segments that its doubly linked
  queues are read through.

  A C function that may dereference a bad pointer, index outside an array or call
  \<open>panic\<close> returns a value of \<open>kerror + 'a\<close>: \<open>Inl\<close> is the failure, \<open>Inr\<close> the result.
\<close>

unbundle bit_operations_syntax

type_synonym u8 = "8 word"
type_synonym u16 = "16 word"
type_synonym u32 = "32 word"
type_synonym u64 = "64 word"

named_theorems access_simps \<open>heap reads and writes\<close>
named_theorems layout_simps \<open>bit-field layouts\<close>

subsection \<open>Failures and sequencing\<close>

datatype kerror =
    BadPtr u64            \<comment> \<open>dereference of an address that holds no object of the type\<close>
  | OutOfBounds nat       \<comment> \<open>array index outside the array\<close>
  | Panic string          \<comment> \<open>the kernel called panic, which never returns\<close>

definition bind_ok :: "'e + 'a \<Rightarrow> ('a \<Rightarrow> 'e + 'b) \<Rightarrow> 'e + 'b" where
  "bind_ok m f = (case m of Inl e \<Rightarrow> Inl e | Inr x \<Rightarrow> f x)"

lemma bind_ok_simps [simp]:
  "bind_ok (Inl e) f = Inl e"
  "bind_ok (Inr x) f = f x"
  by (simp_all add: bind_ok_def)

lemma bind_ok_Inr_iff: "bind_ok m f = Inr y \<longleftrightarrow> (\<exists>x. m = Inr x \<and> f x = Inr y)"
  by (cases m) auto

lemma bind_ok_InrE:
  assumes "bind_ok m f = Inr y"
  obtains x where "m = Inr x" and "f x = Inr y"
  using assms by (auto simp: bind_ok_Inr_iff)

lemma bind_ok_assoc: "bind_ok (bind_ok m f) g = bind_ok m (\<lambda>x. bind_ok (f x) g)"
  by (cases m) simp_all

lemma bind_ok_split: "P (bind_ok m f) \<longleftrightarrow> (\<forall>e. m = Inl e \<longrightarrow> P (Inl e)) \<and> (\<forall>x. m = Inr x \<longrightarrow> P (f x))"
  by (cases m) simp_all

lemma bind_ok_split_asm:
  "P (bind_ok m f) \<longleftrightarrow> \<not> ((\<exists>e. m = Inl e \<and> \<not> P (Inl e)) \<or> (\<exists>x. m = Inr x \<and> \<not> P (f x)))"
  by (cases m) simp_all

lemmas bind_ok_splits = bind_ok_split bind_ok_split_asm

subsection \<open>Bit-fields\<close>

text \<open>
  A bit-field \<open>u64 f : n\<close> that starts at bit \<open>lo\<close> of its word is read by \<open>get_bits lo\<close> and
  written by \<open>put_bits lo\<close>; the width \<open>n\<close> is the length of the field's word type, so that
  a value stored into it loses its high bits as it does in C. Fields are allocated from the
  least significant bit, as gcc does on x86-64.
\<close>

definition get_bits :: "nat \<Rightarrow> 'a::len word \<Rightarrow> 'b::len word" where
  "get_bits lo w = ucast (drop_bit lo w)"

definition put_bits :: "nat \<Rightarrow> 'b::len word \<Rightarrow> 'a::len word" where
  "put_bits lo v = push_bit lo (ucast v)"

lemma get_put_same [layout_simps]:
  fixes v :: "'b::len word"
  assumes "lo + LENGTH('b) \<le> LENGTH('a::len)"
  shows "get_bits lo (put_bits lo v :: 'a word) = v"
  using assms by (intro bit_word_eqI) (auto simp: get_bits_def put_bits_def bit_simps)

lemma get_put_other [layout_simps]:
  fixes v :: "'c::len word"
  assumes "lo' + LENGTH('c) \<le> lo \<or> lo + LENGTH('b::len) \<le> lo'"
  shows "(get_bits lo (put_bits lo' v :: 'a::len word) :: 'b word) = 0"
  using assms
  by (intro bit_word_eqI)
    (auto simp: get_bits_def put_bits_def bit_simps dest: bit_imp_le_length)

lemma get_bits_or [layout_simps]:
  "get_bits lo (a OR b) = get_bits lo a OR get_bits lo b"
  by (intro bit_word_eqI) (auto simp: get_bits_def bit_simps)

lemma bit_put_bits [bit_simps]:
  "bit (put_bits lo (v :: 'b::len word) :: 'a::len word) n
    \<longleftrightarrow> lo \<le> n \<and> n < LENGTH('a) \<and> bit v (n - lo)"
  by (auto simp: put_bits_def bit_simps dest: bit_imp_le_length)

lemma bit_get_bits [bit_simps]:
  "bit (get_bits lo (w :: 'a::len word) :: 'b::len word) n \<longleftrightarrow> n < LENGTH('b) \<and> bit w (lo + n)"
  by (auto simp: get_bits_def bit_simps)

text \<open>Storing a value into a narrower field and reading it back keeps its low bits.\<close>

lemma ucast_down_up:
  fixes w :: "'a::len word"
  assumes "LENGTH('b::len) \<le> LENGTH('a)"
  shows "(ucast (ucast w :: 'b word) :: 'a word) = take_bit LENGTH('b) w"
  using assms by (intro bit_word_eqI) (auto simp: bit_simps)

lemma ucast_down_up_id:
  fixes w :: "'a::len word"
  assumes "LENGTH('b::len) < LENGTH('a)" and "w < 2 ^ LENGTH('b)"
  shows "(ucast (ucast w :: 'b word) :: 'a word) = w"
proof -
  have "unat (2 ^ LENGTH('b) :: 'a word) = 2 ^ LENGTH('b)"
    using assms(1) by transfer (simp add: nat_take_bit_eq take_bit_nat_eq_self)
  with assms(2) have "unat w < 2 ^ LENGTH('b)" by (simp add: word_less_nat_alt)
  then have "unat (take_bit LENGTH('b) w) = unat w"
    by (simp add: unsigned_take_bit_eq take_bit_nat_eq_self)
  with assms(1) show ?thesis by (simp add: ucast_down_up word_unat_eq_iff)
qed

lemma ucast_up_eq_0 [simp]:
  fixes w :: "'b::len word"
  assumes "LENGTH('b) \<le> LENGTH('a::len)"
  shows "(ucast w :: 'a word) = 0 \<longleftrightarrow> w = 0"
proof
  assume eq: "(ucast w :: 'a word) = 0"
  show "w = 0"
  proof (rule bit_word_eqI)
    fix n assume "n < LENGTH('b)"
    then show "bit w n \<longleftrightarrow> bit (0 :: 'b word) n"
      using arg_cong [OF eq, of "\<lambda>v. bit v n"] assms by (simp add: bit_simps)
  qed
qed simp

subsection \<open>Doubly linked segments\<close>

text \<open>
  \<open>dseg nx pv p h xs e n\<close>: following \<open>nx\<close> from \<open>h\<close> visits exactly the nodes \<open>xs\<close> and leaves at
  \<open>n\<close>; each node's \<open>pv\<close> names the node before it, the first one's names \<open>p\<close>; \<open>e\<close> is the last
  node, or \<open>p\<close> when there is none. Address 0 is the null pointer and is never a node.
\<close>

primrec dseg :: "(u64 \<Rightarrow> u64) \<Rightarrow> (u64 \<Rightarrow> u64) \<Rightarrow> u64 \<Rightarrow> u64 \<Rightarrow> u64 list \<Rightarrow> u64 \<Rightarrow> u64 \<Rightarrow> bool" where
  "dseg nx pv p h [] e n \<longleftrightarrow> h = n \<and> e = p"
| "dseg nx pv p h (x # xs) e n \<longleftrightarrow> h = x \<and> x \<noteq> 0 \<and> pv x = p \<and> dseg nx pv x (nx x) xs e n"

lemma dseg_append:
  "dseg nx pv p h (xs @ ys) e n \<longleftrightarrow> (\<exists>m l. dseg nx pv p h xs l m \<and> dseg nx pv l m ys e n)"
  by (induction xs arbitrary: p h) auto

lemma dseg_frame:
  "(\<And>x. x \<in> set xs \<Longrightarrow> nx' x = nx x \<and> pv' x = pv x) \<Longrightarrow>
    dseg nx' pv' p h xs e n = dseg nx pv p h xs e n"
  by (induction xs arbitrary: p h) auto

lemma dseg_not_null: "dseg nx pv p h xs e n \<Longrightarrow> 0 \<notin> set xs"
  by (induction xs arbitrary: p h) auto

lemma dseg_head_null: "dseg nx pv p h xs e 0 \<Longrightarrow> h = 0 \<longleftrightarrow> xs = []"
  by (cases xs) auto

lemma dseg_head: "dseg nx pv p h xs e n \<Longrightarrow> xs \<noteq> [] \<Longrightarrow> h = hd xs"
  by (cases xs) auto

lemma dseg_last: "dseg nx pv p h xs e n \<Longrightarrow> xs \<noteq> [] \<Longrightarrow> e = last xs"
  by (induction xs arbitrary: p h) (auto split: if_splits)

lemma dseg_last_mem: "dseg nx pv p h xs e n \<Longrightarrow> xs \<noteq> [] \<Longrightarrow> e \<in> set xs"
  by (auto dest: dseg_last)

lemma dseg_end_null: "dseg nx pv 0 h xs e n \<Longrightarrow> e = 0 \<longleftrightarrow> xs = []"
  using dseg_last_mem [of nx pv 0 h xs e n] dseg_not_null [of nx pv 0 h xs e n]
  by (cases "xs = []") auto

lemma dseg_links:
  "dseg nx pv p h (as @ x # bs) e n \<Longrightarrow>
    pv x = (if as = [] then p else last as) \<and> nx x = (if bs = [] then n else hd bs)"
  by (cases bs) (auto simp: dseg_append dest: dseg_last)

lemma dseg_unique:
  "dseg nx pv p h xs e 0 \<Longrightarrow> dseg nx pv p h ys e' 0 \<Longrightarrow> xs = ys"
proof (induction xs arbitrary: p h ys)
  case Nil
  then show ?case by (cases ys) auto
next
  case (Cons x xs)
  then show ?case by (cases ys) auto
qed

subsection \<open>Updating a doubly linked list\<close>

text \<open>The three pointer surgeries of the kernel's queues, on the link functions alone: insert in
  front, append behind, and unlink a node. Scheduler and endpoint queues share them.\<close>

lemma dseg_push:
  assumes "dseg nx pv 0 h xs e 0" and "t \<notin> set xs" and "t \<noteq> 0" and "distinct xs"
  shows "dseg (nx(t := h)) ((if h = 0 then pv else pv(h := t))(t := 0)) 0 t (t # xs)
           (if h = 0 then t else e) 0"
proof (cases xs)
  case Nil
  with assms show ?thesis by simp
next
  case (Cons y ys)
  with assms have "dseg (nx(t := h)) ((pv(h := t))(t := 0)) y (nx y) ys e 0
      \<longleftrightarrow> dseg nx pv y (nx y) ys e 0"
    by (intro dseg_frame) auto
  with Cons assms show ?thesis by auto
qed

lemma dseg_snoc:
  assumes "dseg nx pv 0 h xs e 0" and "t \<notin> set xs" and "t \<noteq> 0" and "distinct xs"
  shows "dseg ((if h = 0 then nx else nx(e := t))(t := 0)) (pv(t := e)) 0
           (if h = 0 then t else h) (xs @ [t]) t 0"
proof (cases xs rule: rev_cases)
  case Nil
  with assms show ?thesis by simp
next
  case (snoc ys y)
  with assms obtain m where seg: "dseg nx pv 0 h ys m y" "e = y" "y \<noteq> 0" "pv y = m"
    by (auto simp: dseg_append)
  from snoc assms have "dseg ((nx(e := t))(t := 0)) (pv(t := e)) 0 h ys m y
      \<longleftrightarrow> dseg nx pv 0 h ys m y"
    using seg by (intro dseg_frame) auto
  with snoc assms seg show ?thesis
    using dseg_head_null [OF assms(1)] by (auto simp: dseg_append)
qed

lemma dseg_unlink:
  assumes seg: "dseg nx pv 0 h (as @ t # bs) e 0" and dist: "distinct (as @ t # bs)"
  shows "dseg (if pv t = 0 then nx else nx(pv t := nx t))
              (if nx t = 0 then pv else pv(nx t := pv t)) 0
           (if pv t = 0 then nx t else h) (as @ bs) (if nx t = 0 then pv t else e) 0"
    (is "dseg ?nx ?pv 0 ?h _ ?e 0")
proof -
  from seg obtain l where l: "dseg nx pv 0 h as l t" "pv t = l"
      "dseg nx pv t (nx t) bs e 0" and t: "t \<noteq> 0"
    by (auto simp: dseg_append)
  have as_null: "l = 0 \<longleftrightarrow> as = []"
    using l dseg_end_null by blast
  have bs_null: "nx t = 0 \<longleftrightarrow> bs = []"
    using l dseg_head_null by blast
  have last_as: "as \<noteq> [] \<Longrightarrow> l = last as"
    using l by (auto dest: dseg_last)
  have hd_bs: "bs \<noteq> [] \<Longrightarrow> nx t = hd bs"
    using l by (auto dest: dseg_head)
  have front: "dseg ?nx ?pv 0 ?h as l (nx t)"
  proof (cases as rule: rev_cases)
    case Nil
    with l as_null show ?thesis by simp
  next
    case (snoc cs c)
    with l obtain m where m: "dseg nx pv 0 h cs m c" "c \<noteq> 0" "pv c = m" "l = c"
      by (auto simp: dseg_append)
    have "dseg ?nx ?pv 0 h cs m c \<longleftrightarrow> dseg nx pv 0 h cs m c"
      using snoc m l dist hd_bs bs_null by (intro dseg_frame) (auto simp: hd_in_set)
    moreover have "nx t \<noteq> 0 \<Longrightarrow> nx t \<noteq> c"
      using hd_bs bs_null dist snoc by (auto dest: hd_in_set)
    ultimately show ?thesis
      using snoc m l by (auto simp: dseg_append)
  qed
  have rear: "dseg ?nx ?pv l (nx t) bs ?e 0"
  proof (cases bs)
    case Nil
    with bs_null l show ?thesis by simp
  next
    case (Cons b cs)
    with l have b: "nx t = b" "b \<noteq> 0" "dseg nx pv b (nx b) cs e 0" by auto
    have "l \<noteq> 0 \<Longrightarrow> l \<notin> set (b # cs)"
      using last_as as_null dist Cons by (auto dest: last_in_set)
    then have "dseg ?nx ?pv b (nx b) cs e 0 \<longleftrightarrow> dseg nx pv b (nx b) cs e 0"
      using Cons b l dist by (intro dseg_frame) auto
    with Cons b l \<open>l \<noteq> 0 \<Longrightarrow> l \<notin> set (b # cs)\<close> show ?thesis by auto
  qed
  from front rear show ?thesis unfolding dseg_append by blast
qed

text \<open>Insert a node behind an inner one, as the mapping database does.\<close>

lemma dseg_insert_after:
  assumes seg: "dseg nx pv 0 h (as @ x # bs) e 0" and dist: "distinct (as @ x # bs)"
    and d: "d \<notin> set (as @ x # bs)" "d \<noteq> 0"
  shows "dseg (nx(d := nx x, x := d)) ((if nx x = 0 then pv else pv(nx x := d))(d := x)) 0 h
    (as @ x # d # bs) (if bs = [] then d else e) 0"
    (is "dseg ?nx ?pv 0 h _ _ 0")
proof -
  obtain l where l: "dseg nx pv 0 h as l x" "pv x = l" "x \<noteq> 0" "dseg nx pv x (nx x) bs e 0"
    using seg by (auto simp: dseg_append)
  have null: "nx x = 0 \<longleftrightarrow> bs = []" using l(4) by (rule dseg_head_null)
  have hd: "bs \<noteq> [] \<Longrightarrow> nx x = hd bs" using l(4) by (auto dest: dseg_head)
  have front: "dseg ?nx ?pv 0 h as l x"
  proof (subst dseg_frame)
    fix y assume y: "y \<in> set as"
    then have "nx x \<noteq> 0 \<Longrightarrow> y \<noteq> nx x" using null hd dist hd_in_set by fastforce
    with y dist d show "?nx y = nx y \<and> ?pv y = pv y" by auto
  qed (rule l(1))
  have "dseg ?nx ?pv d (nx x) bs (if bs = [] then d else e) 0"
  proof (cases bs)
    case Nil
    with null show ?thesis by simp
  next
    case (Cons b cs)
    with l have b: "nx x = b" "b \<noteq> 0" "dseg nx pv b (nx b) cs e 0" by auto
    have "dseg ?nx ?pv b (nx b) cs e 0 \<longleftrightarrow> dseg nx pv b (nx b) cs e 0"
      using Cons b dist d by (intro dseg_frame) auto
    with Cons b dist d show ?thesis by auto
  qed
  with front l d dist null hd show ?thesis
    by (auto simp: dseg_append hd_in_set intro!: exI [of _ x] exI [of _ l])
qed

subsection \<open>Running an operation over a list\<close>

primrec fold_ok :: "('a \<Rightarrow> 's \<Rightarrow> 'e + 's) \<Rightarrow> 'a list \<Rightarrow> 's \<Rightarrow> 'e + 's" where
  "fold_ok f [] s = Inr s"
| "fold_ok f (x # xs) s = bind_ok (f x s) (fold_ok f xs)"

lemma fold_ok_append: "fold_ok f (xs @ ys) s = bind_ok (fold_ok f xs s) (fold_ok f ys)"
  by (induction xs arbitrary: s) (auto simp: bind_ok_def split: sum.split)

subsection \<open>Unsigned arithmetic\<close>

lemma unat_minus_1: "0 < unat (w :: 'a::len word) \<Longrightarrow> unat (w - 1) = unat w - 1"
  by (simp add: unat_sub word_le_nat_alt Suc_leI unat_gt_0)

lemma unat_plus_1_le: "unat (w + 1 :: 'a::len word) \<le> unat w + 1"
  by (cases "1 + w = 0") (simp_all add: unatSuc add.commute)

lemma unat_diff: "b \<le> e \<Longrightarrow> unat (e - b :: 'a::len word) = unat e - unat b"
  by (simp add: unat_sub word_le_nat_alt)

lemma unat_max_word: "unat (max a b :: 'a::len word) = max (unat a) (unat b)"
  by (simp add: max_def word_le_nat_alt)

lemma unat_min_word: "unat (min a b :: 'a::len word) = min (unat a) (unat b)"
  by (simp add: min_def word_le_nat_alt)

end
