(* ===== verification/Layout.thy ===== *)
theory Layout
  imports Prelude
begin

text \<open>
  The kernel's data types, from \<open>include/object/structures.h\<close>, \<open>include/api/types.h\<close>,
  \<open>include/api/failures.h\<close> and the libc-side \<open>constants.h\<close> and \<open>shared_types.h\<close>.

  A capability is a \<open>Cap\<close>, three words in memory, that the code reinterprets as an
  \<open>EndpointCap\<close>, \<open>CNodeCap\<close>, ... by pointer casts; so \<open>Cap\<close> is modelled by its words and
  every other capability is a record of its bit-fields with a function each way. Structures
  that are only used at their own type are records of their fields, each at its width.
\<close>

subsection \<open>Constants\<close>

definition Os_MsgMaxLength :: nat where "Os_MsgMaxLength = 120"
definition Os_MsgMaxExtraCaps :: nat where "Os_MsgMaxExtraCaps = 3"
definition OsSlotBits :: nat where "OsSlotBits = 5"
definition OsTCBBits :: nat where "OsTCBBits = 11"
definition OsEndpointBits :: nat where "OsEndpointBits = 4"
definition OsNotificationBits :: nat where "OsNotificationBits = 5"
definition wordBits :: nat where "wordBits = 64"

lemmas os_constants [simp] =
  Os_MsgMaxLength_def Os_MsgMaxExtraCaps_def OsSlotBits_def OsTCBBits_def OsEndpointBits_def
  OsNotificationBits_def wordBits_def

definition TCB_SIZE_BITS :: nat where "TCB_SIZE_BITS = OsTCBBits - 1"
definition TCB_OFFSET :: u64 where "TCB_OFFSET = push_bit TCB_SIZE_BITS 1"

text \<open>The kernel runs in the top 2GB: \<open>include/kernel/memlayout.h\<close>, \<open>include/kernel/mmu.h\<close>.\<close>

definition KERNBASE :: u64 where "KERNBASE = 0xFFFFFFFF80000000"
definition PGSIZE :: u64 where "PGSIZE = 4096"

definition v2p :: "u64 \<Rightarrow> u64" where "v2p a = a - KERNBASE"
definition p2v :: "u64 \<Rightarrow> u64" where "p2v a = a + KERNBASE"

lemma kernel_upper_bits:
  assumes "KERNBASE \<le> p" and "31 \<le> n" and "n < 64"
  shows "bit p n"
proof -
  have "(2 ^ 33 - 1) * 2 ^ 31 \<le> unat p"
    using assms(1) by (simp add: KERNBASE_def word_le_nat_alt)
  then have "(2 ^ 33 - 1) \<le> unat p div 2 ^ 31" by simp
  moreover have "unat p div 2 ^ 31 < 2 ^ 33"
    using unsigned_less [of p, where ?'a = nat] by (simp add: less_mult_imp_div_less)
  ultimately have "unat (drop_bit 31 p) = 2 ^ 33 - 1"
    unfolding unat_drop_bit_eq unfolding drop_bit_eq_div by linarith
  then have "unat (drop_bit 31 p) = unat (mask 33 :: u64)" by (simp add: mask_eq_exp_minus_1)
  then have "drop_bit 31 p = mask 33" by (simp only: word_unat_eq_iff)
  then have "bit (drop_bit 31 p) (n - 31) \<longleftrightarrow> bit (mask 33 :: u64) (n - 31)" by (rule arg_cong)
  then show ?thesis using assms(2,3) by (simp only: bit_simps) auto
qed

lemma p2v_v2p [simp]: "p2v (v2p a) = a" and v2p_p2v [simp]: "v2p (p2v a) = a"
  by (simp_all add: p2v_def v2p_def)

text \<open>\<open>TCB_PTR_CTE_PTR(p, i)\<close>: the TCB address with its low 11 bits cleared, plus \<open>i\<close> slots of
  \<open>sizeof(Cte)\<close> = 40 bytes (a 24 byte \<open>Cap\<close> and a 16 byte \<open>MdbNode\<close>).\<close>

definition sizeof_Cte :: u64 where "sizeof_Cte = 40"

definition TCB_PTR_CTE_PTR :: "u64 \<Rightarrow> nat \<Rightarrow> u64" where
  "TCB_PTR_CTE_PTR p i = (p AND NOT (mask OsTCBBits)) + of_nat i * sizeof_Cte"

datatype TcbCNodeIndex = tcbCTable | tcbVTable | tcbReply | tcbCaller | tcbBuffer

fun cnode_index :: "TcbCNodeIndex \<Rightarrow> nat" where
  "cnode_index tcbCTable = 0"
| "cnode_index tcbVTable = 1"
| "cnode_index tcbReply = 2"
| "cnode_index tcbCaller = 3"
| "cnode_index tcbBuffer = 4"

subsection \<open>Enumerations\<close>

datatype ThreadStateType =
    ThreadState_Inactive | ThreadState_Running | ThreadState_Restart
  | ThreadState_BlockedOnReceive | ThreadState_BlockedOnSend | ThreadState_BlockedOnReply
  | ThreadState_BlockedOnNotification | ThreadState_IdleThreadState

datatype EndpointState = EPState_Idle | EPState_Send | EPState_Recv

datatype NotificationState = NtfnState_Idle | NtfnState_Waiting | NtfnState_Active

datatype OsFaultType = NullFault | CapFault | UnkownSyscall | UserException | VMFault

datatype LookupFaultType = invalidRoot | missingCapability | depthMismatch | guardMismatch

datatype CapTag =
    cap_null_cap | cap_untyped_cap | cap_endpoint_cap | cap_notification_cap | cap_reply_cap
  | cap_cnode_cap | cap_thread_cap | cap_small_frame_cap | cap_frame_cap | cap_asid_pool_cap
  | cap_page_table_cap | cap_page_directory_cap | cap_asid_control_cap | cap_irq_control_cap
  | cap_irq_handler_cap | cap_zombie_cap | cap_domain_cap

fun cap_tag :: "CapTag \<Rightarrow> nat" where
  "cap_tag cap_null_cap = 0"
| "cap_tag cap_untyped_cap = 2"
| "cap_tag cap_endpoint_cap = 4"
| "cap_tag cap_notification_cap = 6"
| "cap_tag cap_reply_cap = 8"
| "cap_tag cap_cnode_cap = 10"
| "cap_tag cap_thread_cap = 12"
| "cap_tag cap_small_frame_cap = 1"
| "cap_tag cap_frame_cap = 3"
| "cap_tag cap_asid_pool_cap = 5"
| "cap_tag cap_page_table_cap = 7"
| "cap_tag cap_page_directory_cap = 9"
| "cap_tag cap_asid_control_cap = 11"
| "cap_tag cap_irq_control_cap = 14"
| "cap_tag cap_irq_handler_cap = 30"
| "cap_tag cap_zombie_cap = 46"
| "cap_tag cap_domain_cap = 62"

text \<open>Storing a tag into a 5-bit \<open>capType\<close> field keeps its low bits.\<close>

definition tag_field :: "CapTag \<Rightarrow> 5 word" where
  "tag_field t = of_nat (cap_tag t)"

text \<open>An \<open>Exception\<close> is a 64-bit integer, so that an uninitialised status can be any value.\<close>

type_synonym Exception = u64

definition EXCEPTION_NONE :: Exception where "EXCEPTION_NONE = 0"
definition EXCEPTION_FAULT :: Exception where "EXCEPTION_FAULT = 1"
definition EXCEPTION_LOOKUP_FAULT :: Exception where "EXCEPTION_LOOKUP_FAULT = 2"
definition EXCEPTION_SYSCALL_ERROR :: Exception where "EXCEPTION_SYSCALL_ERROR = 3"
definition EXCEPTION_PREEMPTED :: Exception where "EXCEPTION_PREEMPTED = 4"

lemmas exception_defs =
  EXCEPTION_NONE_def EXCEPTION_FAULT_def EXCEPTION_LOOKUP_FAULT_def EXCEPTION_SYSCALL_ERROR_def
  EXCEPTION_PREEMPTED_def

datatype OsError =
    OsNoError | OsInvalidArgument | OsInvalidCapability | OsIllegalOperation | OsRangeError
  | OsAlignmentError | OsFailedLookup | OsTruncatedMessage | OsDeleteFirst | OsRevokeFirst
  | OsNotEnoughMemory

record SyscallError =
  rangeErrorMin :: u64
  rangeErrorMax :: u64
  failedLookupWasSource :: bool
  seType :: OsError

record LookupFault =
  lfType :: LookupFaultType
  lufType :: LookupFaultType
  bitsRemaining :: u64

subsection \<open>Capabilities\<close>

record Cap =
  cap_w0 :: u64
  cap_w1 :: u64
  cap_w2 :: u64

definition Cap_capEPBadge :: "Cap \<Rightarrow> u64" where "Cap_capEPBadge c = cap_w0 c"
definition Cap_capEPPtr :: "Cap \<Rightarrow> 48 word" where "Cap_capEPPtr c = get_bits 0 (cap_w1 c)"
definition Cap_capType :: "Cap \<Rightarrow> 5 word" where "Cap_capType c = get_bits 48 (cap_w1 c)"

text \<open>\<open>cap.capType = t\<close> on a \<open>Cap\<close>.\<close>

definition Cap_set_capType :: "5 word \<Rightarrow> Cap \<Rightarrow> Cap" where
  "Cap_set_capType t c =
     c\<lparr>cap_w1 := (cap_w1 c AND NOT (put_bits 48 (- 1 :: 5 word))) OR put_bits 48 t\<rparr>"

record EndpointCap =
  capEPBadge :: u64
  ep_capType :: "5 word"
  capCanGrantReply :: "1 word"
  capCanGrant :: "1 word"
  capCanReceive :: "1 word"
  capCanSend :: "1 word"
  ep_pad :: "7 word"
  capEPPtr :: "48 word"

definition EndpointCap_of_Cap :: "Cap \<Rightarrow> EndpointCap" where
  "EndpointCap_of_Cap c =
     \<lparr>capEPBadge = cap_w0 c, ep_capType = get_bits 0 (cap_w1 c),
      capCanGrantReply = get_bits 5 (cap_w1 c), capCanGrant = get_bits 6 (cap_w1 c),
      capCanReceive = get_bits 7 (cap_w1 c), capCanSend = get_bits 8 (cap_w1 c),
      ep_pad = get_bits 9 (cap_w1 c), capEPPtr = get_bits 16 (cap_w1 c)\<rparr>"

text \<open>The typed capabilities are two words; \<open>*(Cap * )&x\<close> copies a third word from behind
  them, whose value \<open>w2\<close> nothing determines.\<close>

definition Cap_of_EndpointCap :: "u64 \<Rightarrow> EndpointCap \<Rightarrow> Cap" where
  "Cap_of_EndpointCap w2 e =
     \<lparr>cap_w0 = capEPBadge e,
      cap_w1 = put_bits 0 (ep_capType e) OR put_bits 5 (capCanGrantReply e)
        OR put_bits 6 (capCanGrant e) OR put_bits 7 (capCanReceive e)
        OR put_bits 8 (capCanSend e) OR put_bits 9 (ep_pad e) OR put_bits 16 (capEPPtr e),
      cap_w2 = w2\<rparr>"

record UntypedCap =
  capFreeIndex :: "48 word"
  ut_pad0 :: "9 word"
  capIsDevice :: "1 word"
  capBlockSize :: "6 word"
  ut_capType :: "5 word"
  ut_pad1 :: "11 word"
  capPtr :: "48 word"

definition UntypedCap_of_Cap :: "Cap \<Rightarrow> UntypedCap" where
  "UntypedCap_of_Cap c =
     \<lparr>capFreeIndex = get_bits 0 (cap_w0 c), ut_pad0 = get_bits 48 (cap_w0 c),
      capIsDevice = get_bits 57 (cap_w0 c), capBlockSize = get_bits 58 (cap_w0 c),
      ut_capType = get_bits 0 (cap_w1 c), ut_pad1 = get_bits 5 (cap_w1 c),
      capPtr = get_bits 16 (cap_w1 c)\<rparr>"

definition Cap_of_UntypedCap :: "u64 \<Rightarrow> UntypedCap \<Rightarrow> Cap" where
  "Cap_of_UntypedCap w2 u =
     \<lparr>cap_w0 = put_bits 0 (capFreeIndex u) OR put_bits 48 (ut_pad0 u)
        OR put_bits 57 (capIsDevice u) OR put_bits 58 (capBlockSize u),
      cap_w1 = put_bits 0 (ut_capType u) OR put_bits 5 (ut_pad1 u) OR put_bits 16 (capPtr u),
      cap_w2 = w2\<rparr>"

record NotificationCap =
  capNtfnBadge :: u64
  ntfn_capType :: "5 word"
  capNtfnCanReceive :: "1 word"
  capNtfnCanSend :: "1 word"
  ntfn_pad :: "9 word"
  capNtfnPtr :: "48 word"

definition NotificationCap_of_Cap :: "Cap \<Rightarrow> NotificationCap" where
  "NotificationCap_of_Cap c =
     \<lparr>capNtfnBadge = cap_w0 c, ntfn_capType = get_bits 0 (cap_w1 c),
      capNtfnCanReceive = get_bits 5 (cap_w1 c), capNtfnCanSend = get_bits 6 (cap_w1 c),
      ntfn_pad = get_bits 7 (cap_w1 c), capNtfnPtr = get_bits 16 (cap_w1 c)\<rparr>"

definition Cap_of_NotificationCap :: "u64 \<Rightarrow> NotificationCap \<Rightarrow> Cap" where
  "Cap_of_NotificationCap w2 n =
     \<lparr>cap_w0 = capNtfnBadge n,
      cap_w1 = put_bits 0 (ntfn_capType n) OR put_bits 5 (capNtfnCanReceive n)
        OR put_bits 6 (capNtfnCanSend n) OR put_bits 7 (ntfn_pad n)
        OR put_bits 16 (capNtfnPtr n),
      cap_w2 = w2\<rparr>"

record CNodeCap =
  capCNodeGuard :: u64
  cnode_capType :: "5 word"
  capCNodeGuardSize :: "6 word"
  capCNodeRadix :: "6 word"
  capCNodePtr :: "47 word"

definition CNodeCap_of_Cap :: "Cap \<Rightarrow> CNodeCap" where
  "CNodeCap_of_Cap c =
     \<lparr>capCNodeGuard = cap_w0 c, cnode_capType = get_bits 0 (cap_w1 c),
      capCNodeGuardSize = get_bits 5 (cap_w1 c), capCNodeRadix = get_bits 11 (cap_w1 c),
      capCNodePtr = get_bits 17 (cap_w1 c)\<rparr>"

definition Cap_of_CNodeCap :: "u64 \<Rightarrow> CNodeCap \<Rightarrow> Cap" where
  "Cap_of_CNodeCap w2 n =
     \<lparr>cap_w0 = capCNodeGuard n,
      cap_w1 = put_bits 0 (cnode_capType n) OR put_bits 5 (capCNodeGuardSize n)
        OR put_bits 11 (capCNodeRadix n) OR put_bits 17 (capCNodePtr n),
      cap_w2 = w2\<rparr>"

lemmas cap_view_defs =
  Cap_capEPBadge_def Cap_capEPPtr_def Cap_capType_def
  EndpointCap_of_Cap_def Cap_of_EndpointCap_def UntypedCap_of_Cap_def Cap_of_UntypedCap_def
  NotificationCap_of_Cap_def Cap_of_NotificationCap_def CNodeCap_of_Cap_def Cap_of_CNodeCap_def

lemma EndpointCap_roundtrip [simp]: "EndpointCap_of_Cap (Cap_of_EndpointCap w2 e) = e"
  by (simp add: cap_view_defs layout_simps)

lemma UntypedCap_roundtrip [simp]: "UntypedCap_of_Cap (Cap_of_UntypedCap w2 u) = u"
  by (simp add: cap_view_defs layout_simps)

lemma NotificationCap_roundtrip [simp]:
  "NotificationCap_of_Cap (Cap_of_NotificationCap w2 n) = n"
  by (simp add: cap_view_defs layout_simps)

lemma CNodeCap_roundtrip [simp]: "CNodeCap_of_Cap (Cap_of_CNodeCap w2 n) = n"
  by (simp add: cap_view_defs layout_simps)

text \<open>Conversely a \<open>Cap\<close> read as a typed capability and written back keeps its words.\<close>

lemma bit_put_get:
  fixes w :: "'a::len word"
  assumes "lo + LENGTH('b::len) \<le> LENGTH('a)"
  shows "bit (put_bits lo (get_bits lo w :: 'b word) :: 'a word) n
    \<longleftrightarrow> lo \<le> n \<and> n < lo + LENGTH('b) \<and> bit w n"
  using assms by (auto simp: bit_simps)

lemma Cap_of_EndpointCap_inverse: "Cap_of_EndpointCap (cap_w2 c) (EndpointCap_of_Cap c) = c"
proof (rule Cap.equality)
  show "cap_w1 (Cap_of_EndpointCap (cap_w2 c) (EndpointCap_of_Cap c)) = cap_w1 c"
  proof (rule bit_word_eqI)
    fix n assume n: "n < LENGTH(64)"
    show "bit (cap_w1 (Cap_of_EndpointCap (cap_w2 c) (EndpointCap_of_Cap c))) n
        \<longleftrightarrow> bit (cap_w1 c) n"
    proof (cases "bit (cap_w1 c) n")
      case True
      with n show ?thesis
        by (simp add: cap_view_defs bit_or_iff bit_put_get) arith
    qed (simp add: cap_view_defs bit_or_iff bit_put_get)
  qed
qed (simp_all add: cap_view_defs)

subsection \<open>Message info\<close>

record OsMessageInfo =
  mi_label :: "52 word"
  capsUnwrapped :: "3 word"
  extraCaps :: "2 word"
  mi_length :: "7 word"

definition messageinfo_from_u64_raw :: "u64 \<Rightarrow> OsMessageInfo" where
  "messageinfo_from_u64_raw w =
     \<lparr>mi_label = get_bits 0 w, capsUnwrapped = get_bits 52 w, extraCaps = get_bits 55 w,
      mi_length = get_bits 57 w\<rparr>"

definition messageinfo_from_u64 :: "u64 \<Rightarrow> OsMessageInfo" where
  "messageinfo_from_u64 w =
     (let mi = messageinfo_from_u64_raw w; len = unat (mi_length mi)
      in if Os_MsgMaxLength < len then mi\<lparr>mi_length := of_nat Os_MsgMaxLength\<rparr> else mi)"

definition u64_from_messageinfo :: "OsMessageInfo \<Rightarrow> u64" where
  "u64_from_messageinfo mi =
     put_bits 0 (mi_label mi) OR put_bits 52 (capsUnwrapped mi) OR put_bits 55 (extraCaps mi)
       OR put_bits 57 (mi_length mi)"

lemma messageinfo_raw_roundtrip [simp]:
  "messageinfo_from_u64_raw (u64_from_messageinfo mi) = mi"
  by (simp add: messageinfo_from_u64_raw_def u64_from_messageinfo_def layout_simps)

lemma messageinfo_length_bound: "unat (mi_length (messageinfo_from_u64 w)) \<le> Os_MsgMaxLength"
  by (auto simp: messageinfo_from_u64_def Let_def)

lemma messageinfo_from_u64_short:
  "unat (mi_length mi) \<le> Os_MsgMaxLength \<Longrightarrow> messageinfo_from_u64 (u64_from_messageinfo mi) = mi"
  by (simp add: messageinfo_from_u64_def Let_def)

record CapTransfer =
  ctReceiveRoot :: u64
  ctReceiveIndex :: u64
  ctReceiveDepth :: u64

subsection \<open>Slots, endpoints, notifications\<close>

record MdbNode =
  mdbNext :: "46 word"
  mdbRevocable :: "1 word"
  mdbFirstBadged :: "1 word"
  mdbPrev :: u64

record Cte =
  cte_cap :: Cap
  cteMdbNode :: MdbNode

record Endpoint =
  epQueueHead :: u64
  epQueueTail :: "48 word"
  ep_state :: EndpointState

record Notification =
  ntfnBoundTCB :: "48 word"
  ntfnMsgIdentifier :: u64
  ntfnQueueHead :: "48 word"
  ntfnQueueTail :: "48 word"
  ntfn_state :: NotificationState

record TcbQueue =
  q_head :: u64
  q_end :: u64

subsection \<open>Threads\<close>

record ThreadState =
  blockingIPCBadge :: u64
  blockingIPCCanGrant :: bool
  blockingIPCCangrantreply :: bool
  blockingIPCIscall :: bool
  tcbQueued :: bool
  blockingObject :: "44 word"
  tsType :: ThreadStateType

record OsFault =
  faultNum :: u64
  osFaultType :: OsFaultType

record Trapframe =
  tf_rax :: u64
  tf_rbx :: u64
  tf_rcx :: u64
  tf_rdx :: u64
  tf_rbp :: u64
  tf_rsi :: u64
  tf_rdi :: u64
  tf_r8 :: u64
  tf_r9 :: u64
  tf_r10 :: u64
  tf_r11 :: u64
  tf_r12 :: u64
  tf_r13 :: u64
  tf_r14 :: u64
  tf_r15 :: u64
  tf_trapno :: u64
  tf_err :: u64
  tf_rip :: u64
  tf_cs :: u64
  tf_eflags :: u64
  tf_rsp :: u64
  tf_ds :: u64

text \<open>\<open>registers\<close> is \<open>tcbArch.tcbContext.registers\<close>, an array of \<open>N_CONTEXT_REGISTERS\<close> words;
  pointers to other structures are addresses.\<close>

definition N_CONTEXT_REGISTERS :: nat where "N_CONTEXT_REGISTERS = 20"

record Tcb =
  registers :: "u64 list"
  tcbState :: ThreadState
  tcbBoundNotification :: u64
  tcbFault :: OsFault
  tcbLookupFailure :: LookupFault
  tcb_tf :: u64
  tcb_context :: u64
  tcb_size :: u64
  tcb_pml4 :: u64
  kStack :: u64
  tcbPriority :: u64
  tcbTimeSlice :: u64
  tcbFaultHandler :: u64
  tcbIPCBuffer :: u64
  tcbSchedNext :: u64
  tcbSchedPrev :: u64
  tcbEPNext :: u64
  tcbEPPrev :: u64

abbreviation set_tsType :: "ThreadStateType \<Rightarrow> Tcb \<Rightarrow> Tcb" where
  "set_tsType ts t \<equiv> t\<lparr>tcbState := (tcbState t)\<lparr>tsType := ts\<rparr>\<rparr>"

abbreviation set_tcbQueued :: "bool \<Rightarrow> Tcb \<Rightarrow> Tcb" where
  "set_tcbQueued b t \<equiv> t\<lparr>tcbState := (tcbState t)\<lparr>tcbQueued := b\<rparr>\<rparr>"

end
