(* ===== verification/KState.thy ===== *)
theory KState
  imports Layout
begin

text \<open>
  The kernel's state: one heap per C structure, indexed by address, and the global variables
  of \<open>thread.c\<close>, \<open>tcb.c\<close>, \<open>vm.c\<close> and \<open>src/model/statedata.c\<close>, and the two pieces of
  hardware state a thread switch writes. An address that holds no object of
  the type is \<open>None\<close>; reading or writing a field through it is \<open>BadPtr\<close>. The heaps of
  different types do not overlap, as the objects of the kernel do not.
\<close>

record kstate =
  tcb_heap :: "u64 \<rightharpoonup> Tcb"
  ep_heap :: "u64 \<rightharpoonup> Endpoint"
  ntfn_heap :: "u64 \<rightharpoonup> Notification"
  cte_heap :: "u64 \<rightharpoonup> Cte"
  tf_heap :: "u64 \<rightharpoonup> Trapframe"
  word_heap :: "u64 \<rightharpoonup> u64"   \<comment> \<open>IPC buffers, by the byte address of each word\<close>
  ksReadyQueues :: TcbQueue
  ksCurThread :: u64
  oldThread :: u64
  ksSchedulerAction :: u64
  excaprefs :: "u64 list"             \<comment> \<open>currentExtraCaps.excaprefs\<close>
  currentSyscallError :: SyscallError
  currentLookupFault :: LookupFault
  kernPml4 :: u64
  hw_cr3 :: u64                       \<comment> \<open>the page table register, written by lcr3\<close>
  hw_tss :: "nat \<Rightarrow> u32"              \<comment> \<open>the task state segment, as 32-bit words\<close>

definition SchedulerAction_ResumeCurrentThread :: u64 where
  "SchedulerAction_ResumeCurrentThread = 0"

definition SchedulerAction_ChooseNewThread :: u64 where
  "SchedulerAction_ChooseNewThread = 1"

lemmas sched_action_defs =
  SchedulerAction_ResumeCurrentThread_def SchedulerAction_ChooseNewThread_def

subsection \<open>Reading and writing objects\<close>

definition read_at :: "(u64 \<rightharpoonup> 'o) \<Rightarrow> u64 \<Rightarrow> kerror + 'o" where
  "read_at h p = (case h p of None \<Rightarrow> Inl (BadPtr p) | Some x \<Rightarrow> Inr x)"

definition get_tcb :: "kstate \<Rightarrow> u64 \<Rightarrow> kerror + Tcb" where
  "get_tcb s p = read_at (tcb_heap s) p"

definition get_ep :: "kstate \<Rightarrow> u64 \<Rightarrow> kerror + Endpoint" where
  "get_ep s p = read_at (ep_heap s) p"

definition get_ntfn :: "kstate \<Rightarrow> u64 \<Rightarrow> kerror + Notification" where
  "get_ntfn s p = read_at (ntfn_heap s) p"

definition get_cte :: "kstate \<Rightarrow> u64 \<Rightarrow> kerror + Cte" where
  "get_cte s p = read_at (cte_heap s) p"

definition get_tf :: "kstate \<Rightarrow> u64 \<Rightarrow> kerror + Trapframe" where
  "get_tf s p = read_at (tf_heap s) p"

definition get_word :: "kstate \<Rightarrow> u64 \<Rightarrow> kerror + u64" where
  "get_word s p = read_at (word_heap s) p"

definition mod_tcb :: "u64 \<Rightarrow> (Tcb \<Rightarrow> Tcb) \<Rightarrow> kstate \<Rightarrow> kerror + kstate" where
  "mod_tcb p f s =
     bind_ok (get_tcb s p) (\<lambda>x. Inr (s\<lparr>tcb_heap := (tcb_heap s)(p \<mapsto> f x)\<rparr>))"

definition mod_ep :: "u64 \<Rightarrow> (Endpoint \<Rightarrow> Endpoint) \<Rightarrow> kstate \<Rightarrow> kerror + kstate" where
  "mod_ep p f s = bind_ok (get_ep s p) (\<lambda>x. Inr (s\<lparr>ep_heap := (ep_heap s)(p \<mapsto> f x)\<rparr>))"

definition mod_ntfn :: "u64 \<Rightarrow> (Notification \<Rightarrow> Notification) \<Rightarrow> kstate \<Rightarrow> kerror + kstate" where
  "mod_ntfn p f s =
     bind_ok (get_ntfn s p) (\<lambda>x. Inr (s\<lparr>ntfn_heap := (ntfn_heap s)(p \<mapsto> f x)\<rparr>))"

definition mod_cte :: "u64 \<Rightarrow> (Cte \<Rightarrow> Cte) \<Rightarrow> kstate \<Rightarrow> kerror + kstate" where
  "mod_cte p f s = bind_ok (get_cte s p) (\<lambda>x. Inr (s\<lparr>cte_heap := (cte_heap s)(p \<mapsto> f x)\<rparr>))"

definition mod_tf :: "u64 \<Rightarrow> (Trapframe \<Rightarrow> Trapframe) \<Rightarrow> kstate \<Rightarrow> kerror + kstate" where
  "mod_tf p f s = bind_ok (get_tf s p) (\<lambda>x. Inr (s\<lparr>tf_heap := (tf_heap s)(p \<mapsto> f x)\<rparr>))"

definition mod_word :: "u64 \<Rightarrow> (u64 \<Rightarrow> u64) \<Rightarrow> kstate \<Rightarrow> kerror + kstate" where
  "mod_word p f s =
     bind_ok (get_word s p) (\<lambda>x. Inr (s\<lparr>word_heap := (word_heap s)(p \<mapsto> f x)\<rparr>))"

lemma read_at_Inr_iff: "read_at h p = Inr x \<longleftrightarrow> h p = Some x"
  by (auto simp: read_at_def split: option.splits)

lemma read_at_Some [simp]: "h p = Some x \<Longrightarrow> read_at h p = Inr x"
  by (simp add: read_at_def)

lemma read_at_None [simp]: "h p = None \<Longrightarrow> read_at h p = Inl (BadPtr p)"
  by (simp add: read_at_def)

lemmas get_defs [access_simps] =
  get_tcb_def get_ep_def get_ntfn_def get_cte_def get_tf_def get_word_def

lemmas mod_defs [access_simps] =
  mod_tcb_def mod_ep_def mod_ntfn_def mod_cte_def mod_tf_def mod_word_def

subsection \<open>The contract of a typed heap\<close>

text \<open>
  Each pair of a getter and an updater is a heap of objects: an update succeeds exactly
  where the object exists, changes that object only, and fails with the address otherwise.
\<close>

locale typed_heap =
  fixes getobj :: "'s \<Rightarrow> u64 \<Rightarrow> kerror + 'o"
    and modobj :: "u64 \<Rightarrow> ('o \<Rightarrow> 'o) \<Rightarrow> 's \<Rightarrow> kerror + 's"
  assumes get_fault: "getobj s p = Inl e \<Longrightarrow> e = BadPtr p"
    and mod_fault: "getobj s p = Inl e \<Longrightarrow> modobj p f s = Inl e"
    and mod_total: "getobj s p = Inr x \<Longrightarrow> \<exists>s'. modobj p f s = Inr s'"
    and get_mod_same: "modobj p f s = Inr s' \<Longrightarrow> getobj s p = Inr x \<Longrightarrow> getobj s' p = Inr (f x)"
    and get_mod_other: "modobj p f s = Inr s' \<Longrightarrow> q \<noteq> p \<Longrightarrow> getobj s' q = getobj s q"
begin

lemma mod_ok_iff: "(\<exists>s'. modobj p f s = Inr s') \<longleftrightarrow> (\<exists>x. getobj s p = Inr x)"
proof
  assume "\<exists>s'. modobj p f s = Inr s'"
  then show "\<exists>x. getobj s p = Inr x"
    by (cases "getobj s p") (auto dest: mod_fault [of _ _ _ f])
next
  assume "\<exists>x. getobj s p = Inr x"
  then show "\<exists>s'. modobj p f s = Inr s'" by (auto dest: mod_total [of _ _ _ f])
qed

lemma mod_Inl: "modobj p f s = Inl e \<longleftrightarrow> getobj s p = Inl e"
  using mod_total [of s p _ f] mod_fault [of s p _ f]
  by (cases "getobj s p") (auto, (metis sum.distinct(1))?)

lemma get_mod:
  assumes "modobj p f s = Inr s'"
  shows "getobj s' q = (if q = p then map_sum id f (getobj s p) else getobj s q)"
proof -
  obtain x where "getobj s p = Inr x" using assms mod_ok_iff by blast
  with assms show ?thesis by (auto simp: get_mod_same get_mod_other)
qed

text \<open>No update creates or destroys an object.\<close>

lemma mod_domain:
  "modobj p f s = Inr s' \<Longrightarrow> (\<exists>x. getobj s' q = Inr x) \<longleftrightarrow> (\<exists>x. getobj s q = Inr x)"
  using mod_ok_iff [of p f s] by (auto simp: get_mod split: if_splits)

lemma mod_twice_get:
  assumes "modobj p f s = Inr s1" "modobj p g s1 = Inr s2" "getobj s p = Inr x"
  shows "getobj s2 p = Inr (g (f x))"
  using assms get_mod_same by metis

end

interpretation tcbs: typed_heap get_tcb mod_tcb
  by unfold_locales (auto simp: access_simps read_at_def split: option.splits)

interpretation eps: typed_heap get_ep mod_ep
  by unfold_locales (auto simp: access_simps read_at_def split: option.splits)

interpretation ntfns: typed_heap get_ntfn mod_ntfn
  by unfold_locales (auto simp: access_simps read_at_def split: option.splits)

interpretation ctes: typed_heap get_cte mod_cte
  by unfold_locales (auto simp: access_simps read_at_def split: option.splits)

interpretation tfs: typed_heap get_tf mod_tf
  by unfold_locales (auto simp: access_simps read_at_def split: option.splits)

interpretation words: typed_heap get_word mod_word
  by unfold_locales (auto simp: access_simps read_at_def split: option.splits)

lemma get_tcb_Inr: "get_tcb s p = Inr x \<longleftrightarrow> tcb_heap s p = Some x"
  by (simp add: get_tcb_def read_at_Inr_iff)

lemma mod_tcb_Some:
  "tcb_heap s p = Some x \<Longrightarrow> mod_tcb p f s = Inr (s\<lparr>tcb_heap := (tcb_heap s)(p \<mapsto> f x)\<rparr>)"
  by (simp add: access_simps)

lemma mod_ep_Some:
  "ep_heap s p = Some x \<Longrightarrow> mod_ep p f s = Inr (s\<lparr>ep_heap := (ep_heap s)(p \<mapsto> f x)\<rparr>)"
  by (simp add: access_simps)

lemma mod_ntfn_Some:
  "ntfn_heap s p = Some x \<Longrightarrow> mod_ntfn p f s = Inr (s\<lparr>ntfn_heap := (ntfn_heap s)(p \<mapsto> f x)\<rparr>)"
  by (simp add: access_simps)

subsection \<open>Registers\<close>

text \<open>\<open>set_register\<close> and \<open>get_register\<close> of \<open>include/machine/registerset.h\<close> index an array of
  \<open>N_CONTEXT_REGISTERS\<close> words.\<close>

definition badgeRegister :: nat where "badgeRegister = 0"
definition msgInfoRegister :: nat where "msgInfoRegister = 1"

definition set_register :: "u64 \<Rightarrow> nat \<Rightarrow> u64 \<Rightarrow> kstate \<Rightarrow> kerror + kstate" where
  "set_register thread reg w s =
     bind_ok (get_tcb s thread) (\<lambda>t.
       if reg < length (registers t)
       then mod_tcb thread (\<lambda>t. t\<lparr>registers := (registers t)[reg := w]\<rparr>) s
       else Inl (OutOfBounds reg))"

definition get_register :: "kstate \<Rightarrow> u64 \<Rightarrow> nat \<Rightarrow> kerror + u64" where
  "get_register s thread reg =
     bind_ok (get_tcb s thread) (\<lambda>t.
       if reg < length (registers t) then Inr (registers t ! reg) else Inl (OutOfBounds reg))"

lemma get_set_register:
  assumes "set_register t r w s = Inr s'"
  shows "get_register s' t r = Inr w"
  using assms
  by (cases "tcb_heap s t") (auto simp: set_register_def get_register_def access_simps
      split: if_splits)

subsection \<open>Queue links\<close>

text \<open>The four link fields as functions of the address, for reading queues off the heap.\<close>

definition link :: "(Tcb \<Rightarrow> u64) \<Rightarrow> (u64 \<rightharpoonup> Tcb) \<Rightarrow> u64 \<Rightarrow> u64" where
  "link fld h p = (case h p of None \<Rightarrow> 0 | Some t \<Rightarrow> fld t)"

lemma link_Some [simp]: "h p = Some t \<Longrightarrow> link fld h p = fld t"
  by (simp add: link_def)

lemma link_upd [simp]: "link fld (h(p \<mapsto> t)) = (link fld h)(p := fld t)"
  by (auto simp: link_def)

text \<open>Writing another field of an object does not move the links.\<close>

lemma link_same:
  "h p = Some t \<Longrightarrow> fld t' = fld t \<Longrightarrow> (link fld h)(p := fld t') = link fld h"
  by (auto simp: link_def)

end
