(* ===== verification/TcbQueues.thy ===== *)
theory TcbQueues
  imports KState
begin

text \<open>
  \<open>src/object/tcb.c\<close>: the ready queue (a doubly linked list through \<open>tcbSchedNext\<close> and
  \<open>tcbSchedPrev\<close>, with a \<open>tcbQueued\<close> flag per thread) and the queue of an endpoint or
  notification (through \<open>tcbEPNext\<close> and \<open>tcbEPPrev\<close>). Each operation is the C function; the
  lemmas show that it is the list operation of its name on the threads the links run through.
\<close>

subsection \<open>The ready queue\<close>

definition tcb_sched_enqueue :: "u64 \<Rightarrow> kstate \<Rightarrow> kerror + kstate" where
  "tcb_sched_enqueue tcb s =
     bind_ok (get_tcb s tcb) (\<lambda>t.
     if tcbQueued (tcbState t) then Inr s else
     let queue = ksReadyQueues s in
     bind_ok
       (if q_head queue = 0 then Inr (queue\<lparr>q_end := tcb\<rparr>, s)
        else bind_ok (mod_tcb (q_head queue) (\<lambda>h. h\<lparr>tcbSchedPrev := tcb\<rparr>) s)
               (\<lambda>s. Inr (queue, s))) (\<lambda>(queue, s).
     bind_ok (mod_tcb tcb (\<lambda>t. t\<lparr>tcbSchedPrev := 0\<rparr>) s) (\<lambda>s.
     bind_ok (mod_tcb tcb (\<lambda>t. t\<lparr>tcbSchedNext := q_head queue\<rparr>) s) (\<lambda>s.
     let queue = queue\<lparr>q_head := tcb\<rparr>; s = s\<lparr>ksReadyQueues := queue\<rparr> in
     mod_tcb tcb (set_tcbQueued True) s))))"

definition tcb_sched_append :: "u64 \<Rightarrow> kstate \<Rightarrow> kerror + kstate" where
  "tcb_sched_append tcb s =
     bind_ok (get_tcb s tcb) (\<lambda>t.
     if tcbQueued (tcbState t) then Inr s else
     let queue = ksReadyQueues s in
     bind_ok
       (if q_head queue = 0 then Inr (queue\<lparr>q_head := tcb\<rparr>, s)
        else bind_ok (mod_tcb (q_end queue) (\<lambda>e. e\<lparr>tcbSchedNext := tcb\<rparr>) s)
               (\<lambda>s. Inr (queue, s))) (\<lambda>(queue, s).
     bind_ok (mod_tcb tcb (\<lambda>t. t\<lparr>tcbSchedPrev := q_end queue\<rparr>) s) (\<lambda>s.
     bind_ok (mod_tcb tcb (\<lambda>t. t\<lparr>tcbSchedNext := 0\<rparr>) s) (\<lambda>s.
     let queue = queue\<lparr>q_end := tcb\<rparr>; s = s\<lparr>ksReadyQueues := queue\<rparr> in
     mod_tcb tcb (set_tcbQueued True) s))))"

definition tcb_sched_dequeue :: "u64 \<Rightarrow> kstate \<Rightarrow> kerror + kstate" where
  "tcb_sched_dequeue tcb s =
     bind_ok (get_tcb s tcb) (\<lambda>t.
     if \<not> tcbQueued (tcbState t) then Inr s else
     let queue = ksReadyQueues s in
     bind_ok
       (if tcbSchedPrev t \<noteq> 0
        then bind_ok (mod_tcb (tcbSchedPrev t) (\<lambda>p. p\<lparr>tcbSchedNext := tcbSchedNext t\<rparr>) s)
               (\<lambda>s. Inr (queue, s))
        else Inr (queue\<lparr>q_head := tcbSchedNext t\<rparr>, s)) (\<lambda>(queue, s).
     bind_ok (get_tcb s tcb) (\<lambda>t.
     bind_ok
       (if tcbSchedNext t \<noteq> 0
        then bind_ok (mod_tcb (tcbSchedNext t) (\<lambda>n. n\<lparr>tcbSchedPrev := tcbSchedPrev t\<rparr>) s)
               (\<lambda>s. Inr (queue, s))
        else Inr (queue\<lparr>q_end := tcbSchedPrev t\<rparr>, s)) (\<lambda>(queue, s).
     let s = s\<lparr>ksReadyQueues := queue\<rparr> in
     mod_tcb tcb (set_tcbQueued False) s))))"

text \<open>\<open>ready_rep s xs\<close>: the ready queue of \<open>s\<close> holds the threads \<open>xs\<close>, head first, and the
  \<open>tcbQueued\<close> flag of every thread says whether it is one of them.\<close>

definition ready_rep :: "kstate \<Rightarrow> u64 list \<Rightarrow> bool" where
  "ready_rep s xs \<longleftrightarrow>
     dseg (link tcbSchedNext (tcb_heap s)) (link tcbSchedPrev (tcb_heap s)) 0
       (q_head (ksReadyQueues s)) xs (q_end (ksReadyQueues s)) 0
     \<and> distinct xs \<and> set xs \<subseteq> dom (tcb_heap s)
     \<and> (\<forall>t x. tcb_heap s t = Some x \<longrightarrow> (tcbQueued (tcbState x) \<longleftrightarrow> t \<in> set xs))"

text \<open>A thread pointer the queue can hold: a TCB, and not the null pointer.\<close>

definition is_tcb :: "kstate \<Rightarrow> u64 \<Rightarrow> bool" where
  "is_tcb s t \<longleftrightarrow> t \<noteq> 0 \<and> tcb_heap s t \<noteq> None"

lemma ready_repD:
  assumes "ready_rep s xs"
  shows "dseg (link tcbSchedNext (tcb_heap s)) (link tcbSchedPrev (tcb_heap s)) 0
           (q_head (ksReadyQueues s)) xs (q_end (ksReadyQueues s)) 0"
    and "distinct xs" and "set xs \<subseteq> dom (tcb_heap s)"
    and "tcb_heap s t = Some x \<Longrightarrow> tcbQueued (tcbState x) \<longleftrightarrow> t \<in> set xs"
  using assms by (auto simp: ready_rep_def)

lemma ready_rep_unique: "ready_rep s xs \<Longrightarrow> ready_rep s ys \<Longrightarrow> xs = ys"
  by (auto simp: ready_rep_def dest: dseg_unique)

lemma ready_rep_is_tcb: "ready_rep s xs \<Longrightarrow> t \<in> set xs \<Longrightarrow> is_tcb s t"
  by (auto simp: is_tcb_def ready_rep_def dest: dseg_not_null)

text \<open>A thread's queue flag and links after its own fields were written last.\<close>

lemma ready_repI:
  assumes "dseg (link tcbSchedNext h) (link tcbSchedPrev h) 0 (q_head q) xs (q_end q) 0"
    and "distinct xs" and "set xs \<subseteq> dom h"
    and "\<And>t x. h t = Some x \<Longrightarrow> tcbQueued (tcbState x) \<longleftrightarrow> t \<in> set xs"
  shows "ready_rep (s\<lparr>tcb_heap := h, ksReadyQueues := q\<rparr>) xs"
  using assms by (simp add: ready_rep_def)

lemma enqueue_new:
  assumes rep: "ready_rep s xs" and t: "is_tcb s t" "t \<notin> set xs"
  shows "\<exists>s'. tcb_sched_enqueue t s = Inr s' \<and> ready_rep s' (t # xs)"
proof -
  let ?q = "ksReadyQueues s"
  obtain x where x: "tcb_heap s t = Some x" "\<not> tcbQueued (tcbState x)"
    using t rep by (auto simp: is_tcb_def dest: ready_repD(4))
  note seg = ready_repD(1) [OF rep]
  have push: "dseg ((link tcbSchedNext (tcb_heap s))(t := q_head ?q))
      ((if q_head ?q = 0 then link tcbSchedPrev (tcb_heap s)
        else (link tcbSchedPrev (tcb_heap s))(q_head ?q := t))(t := 0)) 0 t (t # xs)
      (if q_head ?q = 0 then t else q_end ?q) 0"
    using dseg_push [OF seg t(2)] t ready_repD(2) [OF rep] by (simp add: is_tcb_def)
  show ?thesis
  proof (cases "q_head ?q = 0")
    case True
    let ?s = "s\<lparr>tcb_heap := (tcb_heap s)(t \<mapsto>
        set_tcbQueued True (x\<lparr>tcbSchedPrev := 0, tcbSchedNext := 0\<rparr>)),
      ksReadyQueues := \<lparr>q_head = t, q_end = t\<rparr>\<rparr>"
    have "tcb_sched_enqueue t s = Inr ?s"
      using True x by (simp add: tcb_sched_enqueue_def mod_tcb_Some get_tcb_def Let_def)
    moreover have "ready_rep ?s (t # xs)"
      using True seg dseg_head_null [OF seg] push rep t(2)
      by (intro ready_repI) (auto simp: ready_rep_def split: if_splits)
    ultimately show ?thesis by blast
  next
    case False
    then have hd: "q_head ?q \<in> set xs" "q_head ?q \<noteq> t"
      using seg t dseg_head dseg_head_null hd_in_set by metis+
    then obtain y where y: "tcb_heap s (q_head ?q) = Some y"
      using ready_repD(3) [OF rep] by blast
    let ?s = "s\<lparr>tcb_heap := (tcb_heap s)(q_head ?q \<mapsto> y\<lparr>tcbSchedPrev := t\<rparr>, t \<mapsto>
        set_tcbQueued True (x\<lparr>tcbSchedPrev := 0, tcbSchedNext := q_head ?q\<rparr>)),
      ksReadyQueues := ?q\<lparr>q_head := t\<rparr>\<rparr>"
    have "tcb_sched_enqueue t s = Inr ?s"
      using False x y hd by (simp add: tcb_sched_enqueue_def mod_tcb_Some get_tcb_def Let_def)
    moreover have "ready_rep ?s (t # xs)"
      using False y hd push rep t(2)
      by (intro ready_repI)
        (auto simp: ready_rep_def link_same [of "tcb_heap s" _ y tcbSchedNext] split: if_splits)
    ultimately show ?thesis by blast
  qed
qed

lemma append_new:
  assumes rep: "ready_rep s xs" and t: "is_tcb s t" "t \<notin> set xs"
  shows "\<exists>s'. tcb_sched_append t s = Inr s' \<and> ready_rep s' (xs @ [t])"
proof -
  let ?q = "ksReadyQueues s"
  obtain x where x: "tcb_heap s t = Some x" "\<not> tcbQueued (tcbState x)"
    using t rep by (auto simp: is_tcb_def dest: ready_repD(4))
  note seg = ready_repD(1) [OF rep]
  have snoc: "dseg ((if q_head ?q = 0 then link tcbSchedNext (tcb_heap s)
        else (link tcbSchedNext (tcb_heap s))(q_end ?q := t))(t := 0))
      ((link tcbSchedPrev (tcb_heap s))(t := q_end ?q)) 0
      (if q_head ?q = 0 then t else q_head ?q) (xs @ [t]) t 0"
    using dseg_snoc [OF seg t(2)] t ready_repD(2) [OF rep] by (simp add: is_tcb_def)
  show ?thesis
  proof (cases "q_head ?q = 0")
    case True
    let ?s = "s\<lparr>tcb_heap := (tcb_heap s)(t \<mapsto>
        set_tcbQueued True (x\<lparr>tcbSchedPrev := q_end ?q, tcbSchedNext := 0\<rparr>)),
      ksReadyQueues := \<lparr>q_head = t, q_end = t\<rparr>\<rparr>"
    have "tcb_sched_append t s = Inr ?s"
      using True x by (simp add: tcb_sched_append_def mod_tcb_Some get_tcb_def Let_def)
    moreover have "ready_rep ?s (xs @ [t])"
      using True seg dseg_head_null [OF seg] snoc rep t(2)
      by (intro ready_repI) (auto simp: ready_rep_def split: if_splits)
    ultimately show ?thesis by blast
  next
    case False
    then have e: "q_end ?q \<in> set xs" "q_end ?q \<noteq> t"
      using seg t dseg_last_mem dseg_head_null by metis+
    then obtain y where y: "tcb_heap s (q_end ?q) = Some y"
      using ready_repD(3) [OF rep] by blast
    let ?s = "s\<lparr>tcb_heap := (tcb_heap s)(q_end ?q \<mapsto> y\<lparr>tcbSchedNext := t\<rparr>, t \<mapsto>
        set_tcbQueued True (x\<lparr>tcbSchedPrev := q_end ?q, tcbSchedNext := 0\<rparr>)),
      ksReadyQueues := ?q\<lparr>q_end := t\<rparr>\<rparr>"
    have "tcb_sched_append t s = Inr ?s"
      using False x y e by (simp add: tcb_sched_append_def mod_tcb_Some get_tcb_def Let_def)
    moreover have "ready_rep ?s (xs @ [t])"
      using False y e snoc rep t(2)
      by (intro ready_repI)
        (auto simp: ready_rep_def link_same [of "tcb_heap s" _ y tcbSchedPrev] split: if_splits)
    ultimately show ?thesis by blast
  qed
qed

lemma queued_noop:
  assumes rep: "ready_rep s xs" and t: "t \<in> set xs"
  shows "tcb_sched_enqueue t s = Inr s" and "tcb_sched_append t s = Inr s"
proof -
  obtain x where x: "tcb_heap s t = Some x" using ready_repD(3) [OF rep] t by blast
  then have "tcbQueued (tcbState x)" using ready_repD(4) [OF rep] t by blast
  with x show "tcb_sched_enqueue t s = Inr s" and "tcb_sched_append t s = Inr s"
    by (simp_all add: tcb_sched_enqueue_def tcb_sched_append_def get_tcb_def)
qed

lemma unqueued_dequeue_noop:
  assumes rep: "ready_rep s xs" and t: "is_tcb s t" "t \<notin> set xs"
  shows "tcb_sched_dequeue t s = Inr s"
proof -
  obtain x where x: "tcb_heap s t = Some x" using t by (auto simp: is_tcb_def)
  then have "\<not> tcbQueued (tcbState x)" using ready_repD(4) [OF rep] t by blast
  with x show ?thesis by (simp add: tcb_sched_dequeue_def get_tcb_def)
qed

text \<open>Unlinking: the three heap writes of \<open>tcb_sched_dequeue\<close>, whichever of its branches run.\<close>

lemma dequeue_result:
  assumes x: "tcb_heap s t = Some x" "tcbQueued (tcbState x)"
    and p: "tcbSchedPrev x \<noteq> 0 \<longrightarrow> tcb_heap s (tcbSchedPrev x) = Some y \<and> t \<noteq> tcbSchedPrev x"
    and n: "tcbSchedNext x \<noteq> 0 \<longrightarrow> tcb_heap s (tcbSchedNext x) = Some z \<and> t \<noteq> tcbSchedNext x"
    and pn: "tcbSchedPrev x = 0 \<or> tcbSchedNext x \<noteq> tcbSchedPrev x"
  shows "tcb_sched_dequeue t s = Inr (s\<lparr>tcb_heap :=
      (let h = tcb_heap s;
           h = (if tcbSchedPrev x = 0 then h
                else h(tcbSchedPrev x \<mapsto> y\<lparr>tcbSchedNext := tcbSchedNext x\<rparr>));
           h = (if tcbSchedNext x = 0 then h
                else h(tcbSchedNext x \<mapsto> z\<lparr>tcbSchedPrev := tcbSchedPrev x\<rparr>))
       in h(t \<mapsto> set_tcbQueued False x)),
      ksReadyQueues :=
        (ksReadyQueues s)\<lparr>
          q_head := (if tcbSchedPrev x = 0 then tcbSchedNext x else q_head (ksReadyQueues s)),
          q_end := (if tcbSchedNext x = 0 then tcbSchedPrev x else q_end (ksReadyQueues s))\<rparr>\<rparr>)"
proof (cases "tcbSchedPrev x = 0"; cases "tcbSchedNext x = 0")
  assume "tcbSchedPrev x = 0" and "tcbSchedNext x = 0"
  with x show ?thesis
    by (simp add: tcb_sched_dequeue_def mod_tcb_Some get_tcb_def Let_def)
next
  assume "tcbSchedPrev x = 0" and "tcbSchedNext x \<noteq> 0"
  with x n show ?thesis
    by (simp add: tcb_sched_dequeue_def mod_tcb_Some get_tcb_def Let_def)
next
  assume "tcbSchedPrev x \<noteq> 0" and "tcbSchedNext x = 0"
  with x p show ?thesis
    by (simp add: tcb_sched_dequeue_def mod_tcb_Some get_tcb_def Let_def)
next
  assume "tcbSchedPrev x \<noteq> 0" and "tcbSchedNext x \<noteq> 0"
  with x p n pn show ?thesis
    by (simp add: tcb_sched_dequeue_def mod_tcb_Some get_tcb_def Let_def)
qed

lemma dequeue_split:
  assumes rep: "ready_rep s (as @ t # bs)"
  shows "\<exists>s'. tcb_sched_dequeue t s = Inr s' \<and> ready_rep s' (as @ bs)"
proof -
  let ?q = "ksReadyQueues s"
  note seg = ready_repD(1) [OF rep] and dist = ready_repD(2) [OF rep]
  obtain x where x: "tcb_heap s t = Some x" using ready_repD(3) [OF rep] by auto
  then have queued: "tcbQueued (tcbState x)" using ready_repD(4) [OF rep] by auto
  have prev: "tcbSchedPrev x = (if as = [] then 0 else last as)"
    and nxt: "tcbSchedNext x = (if bs = [] then 0 else hd bs)"
    using dseg_links [OF seg] x by simp_all
  have null: "0 \<notin> set (as @ t # bs)" using seg by (rule dseg_not_null)
  have mem: "tcbSchedPrev x \<noteq> 0 \<Longrightarrow> tcbSchedPrev x \<in> set as"
      "tcbSchedNext x \<noteq> 0 \<Longrightarrow> tcbSchedNext x \<in> set bs"
    using prev nxt by (auto split: if_splits)
  have apart: "t \<noteq> tcbSchedPrev x" "t \<noteq> tcbSchedNext x"
      "tcbSchedPrev x = 0 \<or> tcbSchedNext x \<noteq> tcbSchedPrev x"
    using mem dist null by (auto split: if_splits)
  define y where "y = the (tcb_heap s (tcbSchedPrev x))"
  define z where "z = the (tcb_heap s (tcbSchedNext x))"
  have y: "tcbSchedPrev x \<noteq> 0 \<Longrightarrow> tcb_heap s (tcbSchedPrev x) = Some y"
    and z: "tcbSchedNext x \<noteq> 0 \<Longrightarrow> tcb_heap s (tcbSchedNext x) = Some z"
    using mem ready_repD(3) [OF rep] unfolding y_def z_def by force+
  note res = dequeue_result [OF x queued, of y z]
  let ?h = "let h = tcb_heap s;
           h = (if tcbSchedPrev x = 0 then h
                else h(tcbSchedPrev x \<mapsto> y\<lparr>tcbSchedNext := tcbSchedNext x\<rparr>));
           h = (if tcbSchedNext x = 0 then h
                else h(tcbSchedNext x \<mapsto> z\<lparr>tcbSchedPrev := tcbSchedPrev x\<rparr>))
       in h(t \<mapsto> set_tcbQueued False x)"
  have nx: "link tcbSchedNext ?h = (if tcbSchedPrev x = 0 then link tcbSchedNext (tcb_heap s)
      else (link tcbSchedNext (tcb_heap s))(tcbSchedPrev x := tcbSchedNext x))"
    using x y z apart by (auto simp: Let_def fun_eq_iff)
  have pv: "link tcbSchedPrev ?h = (if tcbSchedNext x = 0 then link tcbSchedPrev (tcb_heap s)
      else (link tcbSchedPrev (tcb_heap s))(tcbSchedNext x := tcbSchedPrev x))"
    using x y z apart by (auto simp: Let_def fun_eq_iff)
  have flags: "tcbQueued (tcbState w) \<longleftrightarrow> u \<in> set (as @ bs)" if "?h u = Some w" for u w
    using that x y z dist ready_repD(4) [OF rep]
    by (auto simp: Let_def fun_upd_apply split: if_splits)
  have "ready_rep (s\<lparr>tcb_heap := ?h, ksReadyQueues := ?q\<lparr>
      q_head := (if tcbSchedPrev x = 0 then tcbSchedNext x else q_head ?q),
      q_end := (if tcbSchedNext x = 0 then tcbSchedPrev x else q_end ?q)\<rparr>\<rparr>) (as @ bs)"
  proof (rule ready_repI)
    show "dseg (link tcbSchedNext ?h) (link tcbSchedPrev ?h) 0
        (q_head (?q\<lparr>q_head := (if tcbSchedPrev x = 0 then tcbSchedNext x else q_head ?q),
          q_end := (if tcbSchedNext x = 0 then tcbSchedPrev x else q_end ?q)\<rparr>)) (as @ bs)
        (q_end (?q\<lparr>q_head := (if tcbSchedPrev x = 0 then tcbSchedNext x else q_head ?q),
          q_end := (if tcbSchedNext x = 0 then tcbSchedPrev x else q_end ?q)\<rparr>)) 0"
      unfolding nx pv using dseg_unlink [OF seg dist, unfolded link_Some [of "tcb_heap s", OF x]] by simp
    show "distinct (as @ bs)" using dist by auto
    show "set (as @ bs) \<subseteq> dom ?h"
      using ready_repD(3) [OF rep] by (auto simp: Let_def)
  qed (rule flags)
  with res y z apart show ?thesis by auto
qed

lemma dequeue_mem:
  assumes rep: "ready_rep s xs" and t: "t \<in> set xs"
  shows "\<exists>s'. tcb_sched_dequeue t s = Inr s' \<and> ready_rep s' (remove1 t xs)"
proof -
  obtain as bs where "xs = as @ t # bs" using t split_list by fastforce
  moreover then have "t \<notin> set as" using ready_repD(2) [OF rep] by auto
  ultimately show ?thesis using dequeue_split [of s as t bs] rep by (simp add: remove1_append)
qed

subsection \<open>No queue operation creates or destroys a TCB\<close>

lemma is_tcb_get: "is_tcb s t \<longleftrightarrow> t \<noteq> 0 \<and> (\<exists>x. get_tcb s t = Inr x)"
  by (auto simp: is_tcb_def get_tcb_Inr)

lemma is_tcb_mod: "mod_tcb p f s = Inr s' \<Longrightarrow> is_tcb s' t = is_tcb s t"
  by (simp add: is_tcb_get tcbs.mod_domain)

lemma is_tcb_ready [simp]: "is_tcb (s\<lparr>ksReadyQueues := q\<rparr>) t = is_tcb s t"
  by (simp add: is_tcb_def)

lemma is_tcb_enqueue: "tcb_sched_enqueue p s = Inr s' \<Longrightarrow> is_tcb s' t = is_tcb s t"
  by (auto simp: tcb_sched_enqueue_def bind_ok_Inr_iff Let_def split: if_splits dest!: is_tcb_mod)

lemma is_tcb_append: "tcb_sched_append p s = Inr s' \<Longrightarrow> is_tcb s' t = is_tcb s t"
  by (auto simp: tcb_sched_append_def bind_ok_Inr_iff Let_def split: if_splits dest!: is_tcb_mod)

lemma is_tcb_dequeue: "tcb_sched_dequeue p s = Inr s' \<Longrightarrow> is_tcb s' t = is_tcb s t"
  by (auto simp: tcb_sched_dequeue_def bind_ok_Inr_iff Let_def split: if_splits dest!: is_tcb_mod)

subsection \<open>The contract of the ready queue\<close>

text \<open>What the scheduler relies on: the three operations act as list operations on the threads
  \<open>rep\<close> reads off the state, a thread is on the queue at most once, and no operation fails on
  a valid thread.\<close>

datatype sched_op = Enqueue u64 | Append u64 | Dequeue u64

fun sched_spec :: "sched_op \<Rightarrow> u64 list \<Rightarrow> u64 list" where
  "sched_spec (Enqueue t) xs = (if t \<in> set xs then xs else t # xs)"
| "sched_spec (Append t) xs = (if t \<in> set xs then xs else xs @ [t])"
| "sched_spec (Dequeue t) xs = remove1 t xs"

fun sched_thread :: "sched_op \<Rightarrow> u64" where
  "sched_thread (Enqueue t) = t"
| "sched_thread (Append t) = t"
| "sched_thread (Dequeue t) = t"

fun sched_apply :: "(u64 \<Rightarrow> 's \<Rightarrow> 'e + 's) \<Rightarrow> (u64 \<Rightarrow> 's \<Rightarrow> 'e + 's) \<Rightarrow> (u64 \<Rightarrow> 's \<Rightarrow> 'e + 's) \<Rightarrow>
    sched_op \<Rightarrow> 's \<Rightarrow> 'e + 's" where
  "sched_apply enq app deq (Enqueue t) s = enq t s"
| "sched_apply enq app deq (Append t) s = app t s"
| "sched_apply enq app deq (Dequeue t) s = deq t s"

locale ready_queue =
  fixes enq app deq :: "u64 \<Rightarrow> 's \<Rightarrow> 'e + 's"
    and rep :: "'s \<Rightarrow> u64 list \<Rightarrow> bool"
    and valid :: "'s \<Rightarrow> u64 \<Rightarrow> bool"
  assumes rep_unique: "rep s xs \<Longrightarrow> rep s ys \<Longrightarrow> xs = ys"
    and rep_distinct: "rep s xs \<Longrightarrow> distinct xs"
    and rep_valid: "rep s xs \<Longrightarrow> t \<in> set xs \<Longrightarrow> valid s t"
    and enq_new: "rep s xs \<Longrightarrow> valid s t \<Longrightarrow> t \<notin> set xs \<Longrightarrow> \<exists>s'. enq t s = Inr s' \<and> rep s' (t # xs)"
    and enq_old: "rep s xs \<Longrightarrow> t \<in> set xs \<Longrightarrow> enq t s = Inr s"
    and app_new: "rep s xs \<Longrightarrow> valid s t \<Longrightarrow> t \<notin> set xs \<Longrightarrow> \<exists>s'. app t s = Inr s' \<and> rep s' (xs @ [t])"
    and app_old: "rep s xs \<Longrightarrow> t \<in> set xs \<Longrightarrow> app t s = Inr s"
    and deq_new: "rep s xs \<Longrightarrow> valid s t \<Longrightarrow> t \<notin> set xs \<Longrightarrow> deq t s = Inr s"
    and deq_old: "rep s xs \<Longrightarrow> t \<in> set xs \<Longrightarrow> \<exists>s'. deq t s = Inr s' \<and> rep s' (remove1 t xs)"
    and valid_enq: "enq u s = Inr s' \<Longrightarrow> valid s' t = valid s t"
    and valid_app: "app u s = Inr s' \<Longrightarrow> valid s' t = valid s t"
    and valid_deq: "deq u s = Inr s' \<Longrightarrow> valid s' t = valid s t"
begin

lemma apply_valid:
  "sched_apply enq app deq c s = Inr s' \<Longrightarrow> valid s' t = valid s t"
  by (cases c) (auto dest: valid_enq valid_app valid_deq)

lemma apply_spec:
  assumes "rep s xs" and "valid s (sched_thread c)"
  shows "\<exists>s'. sched_apply enq app deq c s = Inr s' \<and> rep s' (sched_spec c xs)"
proof (cases c)
  case (Enqueue t)
  with assms show ?thesis using enq_new enq_old by (cases "t \<in> set xs") fastforce+
next
  case (Append t)
  with assms show ?thesis using app_new app_old by (cases "t \<in> set xs") fastforce+
next
  case (Dequeue t)
  with assms show ?thesis
    using deq_new deq_old by (cases "t \<in> set xs") (fastforce simp: remove1_idem)+
qed

text \<open>Any sequence of operations on valid threads runs to the end and does what the list
  operations do.\<close>

lemma run_spec:
  assumes "rep s xs" and "\<forall>c\<in>set cs. valid s (sched_thread c)"
  shows "\<exists>s'. fold_ok (sched_apply enq app deq) cs s = Inr s' \<and> rep s' (fold sched_spec cs xs)"
  using assms
proof (induction cs arbitrary: s xs)
  case Nil
  then show ?case by simp
next
  case (Cons c cs)
  have "\<exists>s1. sched_apply enq app deq c s = Inr s1 \<and> rep s1 (sched_spec c xs)"
    using Cons.prems by (intro apply_spec) auto
  then obtain s1 where s1: "sched_apply enq app deq c s = Inr s1" "rep s1 (sched_spec c xs)"
    by blast
  moreover have "\<forall>d\<in>set cs. valid s1 (sched_thread d)"
    using Cons.prems(2) apply_valid [OF s1(1)] by simp
  ultimately have "\<exists>s'. fold_ok (sched_apply enq app deq) cs s1 = Inr s'
      \<and> rep s' (fold sched_spec cs (sched_spec c xs))"
    by (intro Cons.IH)
  with s1 show ?case by simp
qed

text \<open>First in, first out: appended threads leave from the head in the order they came.\<close>

lemma fifo:
  assumes "rep s []" and "distinct ts" and "\<forall>t\<in>set ts. valid s t"
  shows "\<exists>s'. fold_ok app ts s = Inr s' \<and> rep s' ts"
proof -
  have "\<exists>s'. fold_ok app ts s = Inr s' \<and> rep s' (xs @ ts)"
    if "rep s xs" "distinct (xs @ ts)" "\<forall>t\<in>set ts. valid s t" for xs
    using that
  proof (induction ts arbitrary: s xs)
    case Nil
    then show ?case by simp
  next
    case (Cons t ts)
    have "\<exists>s1. app t s = Inr s1 \<and> rep s1 (xs @ [t])"
      using Cons.prems by (intro app_new) auto
    then obtain s1 where s1: "app t s = Inr s1" "rep s1 (xs @ [t])" by blast
    have "\<forall>u\<in>set ts. valid s1 u" using Cons.prems(3) valid_app [OF s1(1)] by auto
    then have "\<exists>s'. fold_ok app ts s1 = Inr s' \<and> rep s' ((xs @ [t]) @ ts)"
      using Cons.prems(2) by (intro Cons.IH [OF s1(2)]) auto
    with s1 show ?case by simp
  qed
  from this [of "[]"] assms show ?thesis by simp
qed

lemma deq_then_absent:
  assumes "rep s xs" and "valid s t"
  obtains s' where "deq t s = Inr s'" and "rep s' (remove1 t xs)" and "t \<notin> set (remove1 t xs)"
proof (cases "t \<in> set xs")
  case True
  with assms that show ?thesis using deq_old [of s xs t] rep_distinct [of s xs] by auto
next
  case False
  with assms that show ?thesis using deq_new [of s xs t] by (simp add: remove1_idem)
qed

end

interpretation rq: ready_queue tcb_sched_enqueue tcb_sched_append tcb_sched_dequeue
    ready_rep is_tcb
proof unfold_locales
  show "ready_rep s xs \<Longrightarrow> distinct xs" for s xs by (rule ready_repD(2))
qed (auto simp: is_tcb_enqueue is_tcb_append is_tcb_dequeue
      intro: ready_rep_unique ready_rep_is_tcb enqueue_new append_new dequeue_mem
        queued_noop unqueued_dequeue_noop)

end
