(* ===== verification/EpQueues.thy ===== *)
theory EpQueues
  imports TcbQueues
begin

text \<open>
  The queue of threads blocked on an endpoint or a notification: \<open>tcb_ep_append\<close> and
  \<open>tcb_ep_dequeue\<close> of \<open>src/object/tcb.c\<close>, and the functions that read and write the queue
  fields of an \<open>Endpoint\<close> (\<open>include/object/endpoint.h\<close>) and of a \<open>Notification\<close>
  (\<open>src/object/notification.c\<close>).
\<close>

subsection \<open>Operations\<close>

text \<open>
  \<open>tcb_ep_append\<close> updates its local copy of the queue but has no return statement: the caller
  receives whatever value is in the return registers. That value is the parameter \<open>ret\<close>; the
  queue the function computed is \<open>ep_appended tcb queue\<close>.
\<close>

definition ep_appended :: "u64 \<Rightarrow> TcbQueue \<Rightarrow> TcbQueue" where
  "ep_appended tcb queue =
     (if q_head queue = 0 then queue\<lparr>q_head := tcb\<rparr> else queue)\<lparr>q_end := tcb\<rparr>"

definition tcb_ep_append ::
    "TcbQueue \<Rightarrow> u64 \<Rightarrow> TcbQueue \<Rightarrow> kstate \<Rightarrow> kerror + TcbQueue \<times> kstate" where
  "tcb_ep_append ret tcb queue s =
     bind_ok
       (if q_head queue = 0 then Inr (queue\<lparr>q_head := tcb\<rparr>, s)
        else bind_ok (mod_tcb (q_end queue) (\<lambda>e. e\<lparr>tcbEPNext := tcb\<rparr>) s)
               (\<lambda>s. Inr (queue, s))) (\<lambda>(queue, s).
     bind_ok (mod_tcb tcb (\<lambda>t. t\<lparr>tcbEPPrev := q_end queue\<rparr>) s) (\<lambda>s.
     bind_ok (mod_tcb tcb (\<lambda>t. t\<lparr>tcbEPNext := 0\<rparr>) s) (\<lambda>s.
     Inr (ret, s))))"

definition tcb_ep_dequeue ::
    "u64 \<Rightarrow> TcbQueue \<Rightarrow> kstate \<Rightarrow> kerror + TcbQueue \<times> kstate" where
  "tcb_ep_dequeue tcb queue s =
     bind_ok (get_tcb s tcb) (\<lambda>t.
     bind_ok
       (if tcbEPPrev t \<noteq> 0
        then bind_ok (mod_tcb (tcbEPPrev t) (\<lambda>p. p\<lparr>tcbEPNext := tcbEPNext t\<rparr>) s)
               (\<lambda>s. Inr (queue, s))
        else Inr (queue\<lparr>q_head := tcbEPNext t\<rparr>, s)) (\<lambda>(queue, s).
     bind_ok (get_tcb s tcb) (\<lambda>t.
     bind_ok
       (if tcbEPNext t \<noteq> 0
        then bind_ok (mod_tcb (tcbEPNext t) (\<lambda>n. n\<lparr>tcbEPPrev := tcbEPPrev t\<rparr>) s)
               (\<lambda>s. Inr (queue, s))
        else Inr (queue\<lparr>q_end := tcbEPPrev t\<rparr>, s)) (\<lambda>(queue, s).
     Inr (queue, s)))))"

definition epptr_get_queue :: "Endpoint \<Rightarrow> TcbQueue" where
  "epptr_get_queue ep = \<lparr>q_head = epQueueHead ep, q_end = ucast (epQueueTail ep)\<rparr>"

definition epptr_set_queue :: "TcbQueue \<Rightarrow> Endpoint \<Rightarrow> Endpoint" where
  "epptr_set_queue queue ep =
     ep\<lparr>epQueueHead := q_head queue, epQueueTail := ucast (q_end queue)\<rparr>"

text \<open>\<open>ntfn_ptr_get_queue\<close> assigns \<open>head\<close> twice and never \<open>end\<close>, which keeps the value \<open>u\<close> of an
  uninitialised variable.\<close>

definition ntfn_ptr_get_queue :: "u64 \<Rightarrow> Notification \<Rightarrow> TcbQueue" where
  "ntfn_ptr_get_queue u ntfn =
     (let q = \<lparr>q_head = ucast (ntfnQueueHead ntfn), q_end = u\<rparr>
      in q\<lparr>q_head := ucast (ntfnQueueTail ntfn)\<rparr>)"

definition ntfn_ptr_set_queue :: "TcbQueue \<Rightarrow> Notification \<Rightarrow> Notification" where
  "ntfn_ptr_set_queue queue ntfn =
     ntfn\<lparr>ntfnQueueHead := ucast (q_head queue), ntfnQueueTail := ucast (q_end queue)\<rparr>"

subsection \<open>What the links represent\<close>

definition ep_links :: "kstate \<Rightarrow> u64 \<Rightarrow> u64 list \<Rightarrow> u64 \<Rightarrow> bool" where
  "ep_links s h xs e \<longleftrightarrow>
     dseg (link tcbEPNext (tcb_heap s)) (link tcbEPPrev (tcb_heap s)) 0 h xs e 0
     \<and> distinct xs \<and> set xs \<subseteq> dom (tcb_heap s)"

text \<open>The queue operations touch the two link fields only: erasing them makes the states equal.\<close>

definition erase_links :: "Tcb \<Rightarrow> Tcb" where
  "erase_links t = t\<lparr>tcbEPNext := 0, tcbEPPrev := 0\<rparr>"

definition same_but_links :: "kstate \<Rightarrow> kstate \<Rightarrow> bool" where
  "same_but_links s s' \<longleftrightarrow>
     s' = s\<lparr>tcb_heap := tcb_heap s'\<rparr>
     \<and> (\<forall>p. map_option erase_links (tcb_heap s' p) = map_option erase_links (tcb_heap s p))"

lemma same_but_links_refl [simp]: "same_but_links s s"
  by (simp add: same_but_links_def)

lemma same_but_links_at:
  "same_but_links s s' \<Longrightarrow>
    map_option erase_links (tcb_heap s' p) = map_option erase_links (tcb_heap s p)"
  unfolding same_but_links_def by blast

lemma erase_links_sel [simp]:
  "tcbState (erase_links t) = tcbState t" "tcbSchedNext (erase_links t) = tcbSchedNext t"
  "tcbSchedPrev (erase_links t) = tcbSchedPrev t" "registers (erase_links t) = registers t"
  "tcbBoundNotification (erase_links t) = tcbBoundNotification t"
  "tcbIPCBuffer (erase_links t) = tcbIPCBuffer t" "tcbFault (erase_links t) = tcbFault t"
  "tcb_tf (erase_links t) = tcb_tf t"
  by (simp_all add: erase_links_def)

lemma erase_links_upd [simp]:
  "erase_links (t\<lparr>tcbEPNext := n\<rparr>) = erase_links t"
  "erase_links (t\<lparr>tcbEPPrev := p\<rparr>) = erase_links t"
  by (simp_all add: erase_links_def)

text \<open>A field the operations do not touch reads the same before and after.\<close>

lemma same_but_links_field:
  assumes "same_but_links s s'" and "tcb_heap s p = Some t" and "\<And>x. f (erase_links x) = f x"
  shows "\<exists>t'. tcb_heap s' p = Some t' \<and> f t' = f t"
proof -
  have eq: "map_option erase_links (tcb_heap s' p) = Some (erase_links t)"
    by (simp add: same_but_links_at [OF assms(1)] assms(2))
  from eq obtain t' where t': "tcb_heap s' p = Some t'" "erase_links t' = erase_links t"
    by (cases "tcb_heap s' p") simp_all
  have "f t' = f (erase_links t')" by (rule assms(3) [symmetric])
  also have "\<dots> = f t" unfolding t'(2) by (rule assms(3))
  finally show ?thesis using t'(1) by blast
qed

lemma same_but_links_rest:
  assumes "same_but_links s s'"
  shows "ksReadyQueues s' = ksReadyQueues s" "ep_heap s' = ep_heap s" "ntfn_heap s' = ntfn_heap s"
    "cte_heap s' = cte_heap s" "tf_heap s' = tf_heap s" "word_heap s' = word_heap s"
    "ksCurThread s' = ksCurThread s" "ksSchedulerAction s' = ksSchedulerAction s"
    "excaprefs s' = excaprefs s" "oldThread s' = oldThread s"
proof -
  from assms have "s' = s\<lparr>tcb_heap := tcb_heap s'\<rparr>" unfolding same_but_links_def by blast
  then obtain h where h: "s' = s\<lparr>tcb_heap := h\<rparr>" by blast
  show "ksReadyQueues s' = ksReadyQueues s" "ep_heap s' = ep_heap s" "ntfn_heap s' = ntfn_heap s"
    "cte_heap s' = cte_heap s" "tf_heap s' = tf_heap s" "word_heap s' = word_heap s"
    "ksCurThread s' = ksCurThread s" "ksSchedulerAction s' = ksSchedulerAction s"
    "excaprefs s' = excaprefs s" "oldThread s' = oldThread s"
    by (simp_all add: h)
qed

lemma same_but_links_dom:
  assumes "same_but_links s s'"
  shows "dom (tcb_heap s') = dom (tcb_heap s)"
proof (rule set_eqI)
  fix p
  show "p \<in> dom (tcb_heap s') \<longleftrightarrow> p \<in> dom (tcb_heap s)"
    using same_but_links_at [OF assms, of p]
    by (cases "tcb_heap s p"; cases "tcb_heap s' p") auto
qed

lemma same_but_links_link:
  assumes "same_but_links s s'" and "\<And>x. f (erase_links x) = f x"
  shows "link f (tcb_heap s') = link f (tcb_heap s)"
proof
  fix p
  have "map_option erase_links (tcb_heap s' p) = map_option erase_links (tcb_heap s p)"
    by (rule same_but_links_at [OF assms(1)])
  then show "link f (tcb_heap s') p = link f (tcb_heap s) p"
    unfolding link_def by (cases "tcb_heap s p"; cases "tcb_heap s' p") (auto, metis assms(2))
qed

text \<open>In particular the ready queue is untouched.\<close>

lemma same_but_links_ready:
  assumes "same_but_links s s'" and "ready_rep s xs"
  shows "ready_rep s' xs"
proof -
  have flags: "tcbQueued (tcbState x) \<longleftrightarrow> t \<in> set xs" if x: "tcb_heap s' t = Some x" for t x
  proof -
    have "t \<in> dom (tcb_heap s)" using x same_but_links_dom [OF assms(1)] by auto
    then obtain y where y: "tcb_heap s t = Some y" by auto
    then have "tcbState x = tcbState y"
      using same_but_links_field [OF assms(1) y, of tcbState] x by simp
    with ready_repD(4) [OF assms(2) y] show ?thesis by simp
  qed
  from flags assms(2) show ?thesis
    by (simp add: ready_rep_def same_but_links_rest [OF assms(1)] same_but_links_dom [OF assms(1)]
        same_but_links_link [OF assms(1)])
qed

lemma ep_linksD:
  assumes "ep_links s h xs e"
  shows "dseg (link tcbEPNext (tcb_heap s)) (link tcbEPPrev (tcb_heap s)) 0 h xs e 0"
    and "distinct xs" and "set xs \<subseteq> dom (tcb_heap s)"
  using assms by (auto simp: ep_links_def)

lemma ep_links_head: "ep_links s h xs e \<Longrightarrow> h = (if xs = [] then 0 else hd xs)"
  by (auto simp: ep_links_def dest: dseg_head dseg_head_null)

lemma ep_links_last: "ep_links s h xs e \<Longrightarrow> e = (if xs = [] then 0 else last xs)"
  by (auto simp: ep_links_def dest: dseg_last dseg_end_null)

lemma ep_links_not_null: "ep_links s h xs e \<Longrightarrow> 0 \<notin> set xs"
  by (auto simp: ep_links_def dest: dseg_not_null)

lemma ep_links_unique: "ep_links s h xs e \<Longrightarrow> ep_links s h ys e' \<Longrightarrow> xs = ys"
  by (auto simp: ep_links_def dest: dseg_unique)

lemma same_but_linksI:
  assumes "\<And>p. map_option erase_links (h p) = map_option erase_links (tcb_heap s p)"
  shows "same_but_links s (s\<lparr>tcb_heap := h\<rparr>)"
  using assms by (simp add: same_but_links_def)

subsection \<open>Appending\<close>

text \<open>Whatever the caller receives back, the links of the appended thread and of the old last
  one are those of the longer queue.\<close>

lemma ep_append_links:
  assumes links: "ep_links s h xs e" and t: "is_tcb s t" "t \<notin> set xs"
  shows "\<exists>s'. tcb_ep_append ret t \<lparr>q_head = h, q_end = e\<rparr> s = Inr (ret, s')
    \<and> ep_links s' (if xs = [] then t else h) (xs @ [t]) t \<and> same_but_links s s'"
proof -
  obtain x where x: "tcb_heap s t = Some x" using t by (auto simp: is_tcb_def)
  note seg = ep_linksD(1) [OF links]
  have null: "h = 0 \<longleftrightarrow> xs = []" using seg by (rule dseg_head_null)
  have snoc: "dseg ((if h = 0 then link tcbEPNext (tcb_heap s)
        else (link tcbEPNext (tcb_heap s))(e := t))(t := 0))
      ((link tcbEPPrev (tcb_heap s))(t := e)) 0 (if h = 0 then t else h) (xs @ [t]) t 0"
    using dseg_snoc [OF seg t(2)] t ep_linksD(2) [OF links] by (simp add: is_tcb_def)
  show ?thesis
  proof (cases "xs = []")
    case True
    let ?s = "s\<lparr>tcb_heap := (tcb_heap s)(t \<mapsto> x\<lparr>tcbEPPrev := e, tcbEPNext := 0\<rparr>)\<rparr>"
    have "tcb_ep_append ret t \<lparr>q_head = h, q_end = e\<rparr> s = Inr (ret, ?s)"
      using True null x by (simp add: tcb_ep_append_def mod_tcb_Some)
    moreover have "ep_links ?s t (xs @ [t]) t"
      using True null snoc by (auto simp: ep_links_def)
    moreover have "same_but_links s ?s"
      by (rule same_but_linksI) (simp add: x)
    ultimately show ?thesis using True by auto
  next
    case False
    then have e: "e \<in> set xs" "t \<noteq> e" using seg t dseg_last_mem by metis+
    then obtain y where y: "tcb_heap s e = Some y" using ep_linksD(3) [OF links] by blast
    let ?s = "s\<lparr>tcb_heap := (tcb_heap s)(e \<mapsto> y\<lparr>tcbEPNext := t\<rparr>,
        t \<mapsto> x\<lparr>tcbEPPrev := e, tcbEPNext := 0\<rparr>)\<rparr>"
    have "tcb_ep_append ret t \<lparr>q_head = h, q_end = e\<rparr> s = Inr (ret, ?s)"
      using False null x y e by (simp add: tcb_ep_append_def mod_tcb_Some)
    moreover have "ep_links ?s h (xs @ [t]) t"
      using False null snoc y e ep_linksD(2,3) [OF links] t(2)
      by (auto simp: ep_links_def link_same [of "tcb_heap s" _ y tcbEPPrev])
    moreover have "same_but_links s ?s"
      by (rule same_but_linksI) (simp add: x y)
    ultimately show ?thesis using False by auto
  qed
qed

text \<open>Appending to a nonempty queue reads the last thread through \<open>queue.end\<close>; where that is not
  the address of a TCB the append faults.\<close>

lemma ep_append_bad_end:
  assumes "q_head queue \<noteq> 0" and "tcb_heap s (q_end queue) = None"
  shows "tcb_ep_append ret t queue s = Inl (BadPtr (q_end queue))"
  using assms by (simp add: tcb_ep_append_def access_simps)

subsection \<open>Dequeuing\<close>

text \<open>\<open>E\<close> is the tail the caller passes; it survives unless the last thread leaves, so a tail
  that was truncated to 48 bits does no harm here.\<close>

lemma ep_dequeue_result:
  assumes x: "tcb_heap s t = Some x"
    and p: "tcbEPPrev x \<noteq> 0 \<longrightarrow> tcb_heap s (tcbEPPrev x) = Some y \<and> t \<noteq> tcbEPPrev x"
    and n: "tcbEPNext x \<noteq> 0 \<longrightarrow> tcb_heap s (tcbEPNext x) = Some z \<and> t \<noteq> tcbEPNext x"
    and pn: "tcbEPPrev x = 0 \<or> tcbEPNext x \<noteq> tcbEPPrev x"
  shows "tcb_ep_dequeue t \<lparr>q_head = h, q_end = E\<rparr> s = Inr (
      \<lparr>q_head = (if tcbEPPrev x = 0 then tcbEPNext x else h),
       q_end = (if tcbEPNext x = 0 then tcbEPPrev x else E)\<rparr>,
      s\<lparr>tcb_heap :=
        (let h = tcb_heap s;
             h = (if tcbEPPrev x = 0 then h else h(tcbEPPrev x \<mapsto> y\<lparr>tcbEPNext := tcbEPNext x\<rparr>))
         in (if tcbEPNext x = 0 then h else h(tcbEPNext x \<mapsto> z\<lparr>tcbEPPrev := tcbEPPrev x\<rparr>)))\<rparr>)"
proof (cases "tcbEPPrev x = 0"; cases "tcbEPNext x = 0")
  assume "tcbEPPrev x = 0" and "tcbEPNext x = 0"
  with x show ?thesis by (simp add: tcb_ep_dequeue_def get_tcb_def)
next
  assume "tcbEPPrev x = 0" and "tcbEPNext x \<noteq> 0"
  with x n show ?thesis by (simp add: tcb_ep_dequeue_def mod_tcb_Some get_tcb_def)
next
  assume "tcbEPPrev x \<noteq> 0" and "tcbEPNext x = 0"
  with x p show ?thesis by (simp add: tcb_ep_dequeue_def mod_tcb_Some get_tcb_def)
next
  assume "tcbEPPrev x \<noteq> 0" and "tcbEPNext x \<noteq> 0"
  with x p n pn show ?thesis by (simp add: tcb_ep_dequeue_def mod_tcb_Some get_tcb_def)
qed

lemma ep_dequeue_links:
  assumes links: "ep_links s h (as @ t # bs) e"
  shows "\<exists>s' h' e'. tcb_ep_dequeue t \<lparr>q_head = h, q_end = E\<rparr> s
      = Inr (\<lparr>q_head = h', q_end = (if bs = [] then e' else E)\<rparr>, s')
    \<and> ep_links s' h' (as @ bs) e' \<and> (bs \<noteq> [] \<longrightarrow> e' = e) \<and> same_but_links s s'"
proof -
  note seg = ep_linksD(1) [OF links] and dist = ep_linksD(2) [OF links]
  obtain x where x: "tcb_heap s t = Some x" using ep_linksD(3) [OF links] by auto
  have prev: "tcbEPPrev x = (if as = [] then 0 else last as)"
    and nxt: "tcbEPNext x = (if bs = [] then 0 else hd bs)"
    using dseg_links [OF seg] x by simp_all
  have null: "0 \<notin> set (as @ t # bs)" using seg by (rule dseg_not_null)
  have mem: "tcbEPPrev x \<noteq> 0 \<Longrightarrow> tcbEPPrev x \<in> set as"
      "tcbEPNext x \<noteq> 0 \<Longrightarrow> tcbEPNext x \<in> set bs"
    using prev nxt by (auto split: if_splits)
  have apart: "t \<noteq> tcbEPPrev x" "t \<noteq> tcbEPNext x" "tcbEPPrev x = 0 \<or> tcbEPNext x \<noteq> tcbEPPrev x"
    using mem dist null by (auto split: if_splits)
  have bs_null: "tcbEPNext x = 0 \<longleftrightarrow> bs = []" using nxt null by (cases bs) auto
  define y where "y = the (tcb_heap s (tcbEPPrev x))"
  define z where "z = the (tcb_heap s (tcbEPNext x))"
  have y: "tcbEPPrev x \<noteq> 0 \<Longrightarrow> tcb_heap s (tcbEPPrev x) = Some y"
    and z: "tcbEPNext x \<noteq> 0 \<Longrightarrow> tcb_heap s (tcbEPNext x) = Some z"
    using mem ep_linksD(3) [OF links] unfolding y_def z_def by force+
  let ?h = "let h = tcb_heap s;
             h = (if tcbEPPrev x = 0 then h else h(tcbEPPrev x \<mapsto> y\<lparr>tcbEPNext := tcbEPNext x\<rparr>))
         in (if tcbEPNext x = 0 then h else h(tcbEPNext x \<mapsto> z\<lparr>tcbEPPrev := tcbEPPrev x\<rparr>))"
  let ?s = "s\<lparr>tcb_heap := ?h\<rparr>"
  let ?h' = "if tcbEPPrev x = 0 then tcbEPNext x else h"
  let ?e' = "if tcbEPNext x = 0 then tcbEPPrev x else e"
  have nx: "link tcbEPNext ?h = (if tcbEPPrev x = 0 then link tcbEPNext (tcb_heap s)
      else (link tcbEPNext (tcb_heap s))(tcbEPPrev x := tcbEPNext x))"
    using x y z apart by (auto simp: Let_def fun_eq_iff)
  have pv: "link tcbEPPrev ?h = (if tcbEPNext x = 0 then link tcbEPPrev (tcb_heap s)
      else (link tcbEPPrev (tcb_heap s))(tcbEPNext x := tcbEPPrev x))"
    using x y z apart by (auto simp: Let_def fun_eq_iff)
  have "dseg (link tcbEPNext ?h) (link tcbEPPrev ?h) 0 ?h' (as @ bs) ?e' 0"
    unfolding nx pv
    using dseg_unlink [OF seg dist, unfolded link_Some [of "tcb_heap s", OF x]] by simp
  then have "ep_links ?s ?h' (as @ bs) ?e'"
    using dist ep_linksD(3) [OF links] by (auto simp: ep_links_def Let_def)
  moreover have "same_but_links s ?s"
    using y z by (intro same_but_linksI) (auto simp: Let_def)
  moreover have "tcb_ep_dequeue t \<lparr>q_head = h, q_end = E\<rparr> s
      = Inr (\<lparr>q_head = ?h', q_end = (if bs = [] then ?e' else E)\<rparr>, ?s)"
    using ep_dequeue_result [OF x, of y z h E] y z apart bs_null by auto
  ultimately show ?thesis using bs_null by fastforce
qed

lemma ep_dequeue_null:
  "tcb_heap s 0 = None \<Longrightarrow> tcb_ep_dequeue 0 queue s = Inl (BadPtr 0)"
  by (simp add: tcb_ep_dequeue_def access_simps)

subsection \<open>The queue of an endpoint\<close>

text \<open>\<open>ep_rep s p xs\<close>: the endpoint at \<open>p\<close> queues the threads \<open>xs\<close>. Its head field is a whole
  pointer; its tail field holds the low 48 bits of the last thread's address.\<close>

definition ep_rep :: "kstate \<Rightarrow> u64 \<Rightarrow> u64 list \<Rightarrow> bool" where
  "ep_rep s p xs \<longleftrightarrow> (\<exists>ep e. ep_heap s p = Some ep \<and> ep_links s (epQueueHead ep) xs e
     \<and> epQueueTail ep = ucast e \<and> (ep_state ep = EPState_Idle \<longleftrightarrow> xs = []))"

lemma ep_rep_unique: "ep_rep s p xs \<Longrightarrow> ep_rep s p ys \<Longrightarrow> xs = ys"
  by (auto simp: ep_rep_def dest: ep_links_unique)

lemma ucast_down_up_down:
  "(ucast (ucast (ucast (e :: u64) :: 48 word) :: u64) :: 48 word) = ucast e"
  by (intro bit_word_eqI) (auto simp: bit_simps)

lemma get_set_queue:
  "epptr_get_queue (epptr_set_queue q ep) = q \<longleftrightarrow> q_end q AND mask 48 = q_end q"
proof -
  have "ucast (ucast (q_end q) :: 48 word) = q_end q AND mask 48"
    by (intro bit_word_eqI) (auto simp: bit_simps)
  then show ?thesis
    by (cases q) (simp add: epptr_get_queue_def epptr_set_queue_def)
qed

end
