(* ===== verification/Sched.thy ===== *)
theory Sched
  imports EpQueues
begin

text \<open>
  The scheduler of \<open>src/kernel/thread.c\<close>: thread states, the scheduler action, the choice of
  the next thread and the switch to it. The thread switch itself leaves the kernel's C code
  through \<open>swtch\<close> (assembly) and comes back when a thread calls \<open>sched\<close>; what the threads do
  in between is the parameter \<open>run\<close>.
\<close>

subsection \<open>Thread states\<close>

definition is_runnable :: "Tcb \<Rightarrow> bool" where
  "is_runnable t = (case tsType (tcbState t) of
     ThreadState_Running \<Rightarrow> True | ThreadState_Restart \<Rightarrow> True | _ \<Rightarrow> False)"

definition is_stopped :: "Tcb \<Rightarrow> bool" where
  "is_stopped t = (case tsType (tcbState t) of
     ThreadState_Inactive \<Rightarrow> True | ThreadState_BlockedOnReceive \<Rightarrow> True
   | ThreadState_BlockedOnSend \<Rightarrow> True | ThreadState_BlockedOnNotification \<Rightarrow> True
   | ThreadState_BlockedOnReply \<Rightarrow> True | _ \<Rightarrow> False)"

definition is_blocking :: "Tcb \<Rightarrow> bool" where
  "is_blocking t = (case tsType (tcbState t) of
     ThreadState_BlockedOnReceive \<Rightarrow> True | ThreadState_BlockedOnSend \<Rightarrow> True
   | ThreadState_BlockedOnNotification \<Rightarrow> True | ThreadState_BlockedOnReply \<Rightarrow> True
   | _ \<Rightarrow> False)"

subsection \<open>The scheduler action\<close>

definition reschedule_required :: "kstate \<Rightarrow> kerror + kstate" where
  "reschedule_required s =
     bind_ok
       (if ksSchedulerAction s \<noteq> SchedulerAction_ResumeCurrentThread
           \<and> ksSchedulerAction s \<noteq> SchedulerAction_ChooseNewThread
        then tcb_sched_enqueue (ksSchedulerAction s) s else Inr s) (\<lambda>s.
     Inr (s\<lparr>ksSchedulerAction := SchedulerAction_ChooseNewThread\<rparr>))"

definition possible_switch_to :: "u64 \<Rightarrow> kstate \<Rightarrow> kerror + kstate" where
  "possible_switch_to target s =
     (if ksSchedulerAction s \<noteq> SchedulerAction_ResumeCurrentThread
      then bind_ok (reschedule_required s) (\<lambda>s. tcb_sched_enqueue target s)
      else Inr (s\<lparr>ksSchedulerAction := target\<rparr>))"

definition schedule_tcb :: "u64 \<Rightarrow> kstate \<Rightarrow> kerror + kstate" where
  "schedule_tcb tptr s =
     (if tptr = ksCurThread s \<and> ksSchedulerAction s = SchedulerAction_ResumeCurrentThread
      then bind_ok (get_tcb s tptr) (\<lambda>t.
           if \<not> is_runnable t then reschedule_required s else Inr s)
      else Inr s)"

definition set_threadState :: "u64 \<Rightarrow> ThreadStateType \<Rightarrow> kstate \<Rightarrow> kerror + kstate" where
  "set_threadState tptr ts s =
     bind_ok (mod_tcb tptr (set_tsType ts) s) (\<lambda>s. schedule_tcb tptr s)"

subsection \<open>Switching\<close>

definition tss_set_rsp :: "nat \<Rightarrow> u64 \<Rightarrow> (nat \<Rightarrow> u32) \<Rightarrow> (nat \<Rightarrow> u32)" where
  "tss_set_rsp n rsp tss = tss(n * 2 + 1 := ucast rsp, n * 2 + 2 := ucast (drop_bit 32 rsp))"

definition user_switch_vm :: "u64 \<Rightarrow> kstate \<Rightarrow> kerror + kstate" where
  "user_switch_vm thread s =
     bind_ok (get_tcb s thread) (\<lambda>t.
     Inr (s\<lparr>hw_tss := tss_set_rsp 0 (kStack t + PGSIZE) (hw_tss s), hw_cr3 := v2p (tcb_pml4 t)\<rparr>))"

definition kernel_switch_vm :: "kstate \<Rightarrow> kstate" where
  "kernel_switch_vm s = s\<lparr>hw_cr3 := v2p (kernPml4 s)\<rparr>"

text \<open>\<open>switch_to_thread\<close> up to its \<open>swtch\<close>, and all of it; \<open>run\<close> is what happens until \<open>swtch\<close> returns.\<close>

definition switch_in :: "u64 \<Rightarrow> kstate \<Rightarrow> kerror + kstate" where
  "switch_in thread s =
     bind_ok (tcb_sched_dequeue thread s) (\<lambda>s.
     let s = s\<lparr>oldThread := ksCurThread s\<rparr>; s = s\<lparr>ksCurThread := thread\<rparr> in
     user_switch_vm thread s)"

definition switch_to_thread ::
    "(kstate \<Rightarrow> kerror + kstate) \<Rightarrow> u64 \<Rightarrow> kstate \<Rightarrow> kerror + kstate" where
  "switch_to_thread run thread s =
     bind_ok (switch_in thread s) (\<lambda>s.
     bind_ok (run s) (\<lambda>s. Inr (kernel_switch_vm s)))"

definition choose_thread :: "(kstate \<Rightarrow> kerror + kstate) \<Rightarrow> kstate \<Rightarrow> kerror + kstate" where
  "choose_thread run s =
     (let thread = q_head (ksReadyQueues s)
      in if thread = 0 then Inr s else switch_to_thread run thread s)"

definition schedule :: "(kstate \<Rightarrow> kerror + kstate) \<Rightarrow> kstate \<Rightarrow> kerror + kstate" where
  "schedule run s =
     bind_ok
       (if ksSchedulerAction s \<noteq> SchedulerAction_ResumeCurrentThread
        then (if ksSchedulerAction s = SchedulerAction_ChooseNewThread
              then choose_thread run s else choose_thread run s)
        else Inr s) (\<lambda>s.
     Inr (s\<lparr>ksSchedulerAction := SchedulerAction_ResumeCurrentThread\<rparr>))"

text \<open>One turn of the loop of \<open>main\<close>.\<close>

definition main_loop_body :: "(kstate \<Rightarrow> kerror + kstate) \<Rightarrow> kstate \<Rightarrow> kerror + kstate" where
  "main_loop_body run s =
     schedule run (s\<lparr>ksSchedulerAction := SchedulerAction_ChooseNewThread\<rparr>)"

subsection \<open>Threads waiting for the processor\<close>

text \<open>A scheduler action other than the two constants is a thread: a pointer to a TCB.\<close>

definition action_ok :: "kstate \<Rightarrow> bool" where
  "action_ok s \<longleftrightarrow> ksSchedulerAction s = SchedulerAction_ResumeCurrentThread
     \<or> ksSchedulerAction s = SchedulerAction_ChooseNewThread \<or> is_tcb s (ksSchedulerAction s)"

definition action_thread :: "kstate \<Rightarrow> u64 set" where
  "action_thread s =
     (if ksSchedulerAction s = SchedulerAction_ResumeCurrentThread
         \<or> ksSchedulerAction s = SchedulerAction_ChooseNewThread
      then {} else {ksSchedulerAction s})"

lemma ready_rep_action [simp]: "ready_rep (s\<lparr>ksSchedulerAction := a\<rparr>) xs = ready_rep s xs"
  by (simp add: ready_rep_def)

lemma is_tcb_action [simp]: "is_tcb (s\<lparr>ksSchedulerAction := a\<rparr>) t = is_tcb s t"
  by (simp add: is_tcb_def)

lemma is_tcb_enqueue_eq: "tcb_sched_enqueue p s = Inr s' \<Longrightarrow> is_tcb s' = is_tcb s"
  by (rule ext) (rule is_tcb_enqueue)

lemma enqueue_any:
  assumes "ready_rep s xs" and "is_tcb s t"
  shows "\<exists>s'. tcb_sched_enqueue t s = Inr s' \<and> ready_rep s' (List.insert t xs)
    \<and> is_tcb s' = is_tcb s"
proof (cases "t \<in> set xs")
  case True
  with assms show ?thesis by (simp add: rq.enq_old)
next
  case False
  with rq.enq_new [OF assms] obtain s' where "tcb_sched_enqueue t s = Inr s'" "ready_rep s' (t # xs)"
    by blast
  with False show ?thesis using is_tcb_enqueue_eq [of t s s'] by (simp add: List.insert_def)
qed

lemma reschedule_spec:
  assumes rep: "ready_rep s xs" and ok: "action_ok s"
  shows "\<exists>s' ys. reschedule_required s = Inr s' \<and> ready_rep s' ys
    \<and> set ys = set xs \<union> action_thread s
    \<and> ksSchedulerAction s' = SchedulerAction_ChooseNewThread \<and> is_tcb s' = is_tcb s"
proof (cases "action_thread s = {}")
  case True
  then have "reschedule_required s = Inr (s\<lparr>ksSchedulerAction := SchedulerAction_ChooseNewThread\<rparr>)"
    by (auto simp: reschedule_required_def action_thread_def split: if_splits)
  with True rep show ?thesis by (auto simp: fun_eq_iff)
next
  case False
  then have a: "action_thread s = {ksSchedulerAction s}" "is_tcb s (ksSchedulerAction s)"
    using ok by (auto simp: action_ok_def action_thread_def split: if_splits)
  obtain s' where s': "tcb_sched_enqueue (ksSchedulerAction s) s = Inr s'"
      "ready_rep s' (List.insert (ksSchedulerAction s) xs)" "is_tcb s' = is_tcb s"
    using enqueue_any [OF rep a(2)] by blast
  have "reschedule_required s = Inr (s'\<lparr>ksSchedulerAction := SchedulerAction_ChooseNewThread\<rparr>)"
    using False s'(1) by (simp add: reschedule_required_def action_thread_def split: if_splits)
  moreover have "ready_rep (s'\<lparr>ksSchedulerAction := SchedulerAction_ChooseNewThread\<rparr>)
      (List.insert (ksSchedulerAction s) xs)"
    using s'(2) by simp
  ultimately show ?thesis using a(1) s'(3) by (fastforce simp: fun_eq_iff)
qed

text \<open>No operation loses a waiting thread: after it, the threads on the queue or named by the
  action are those from before and the new one.\<close>

lemma possible_switch_spec:
  assumes rep: "ready_rep s xs" and ok: "action_ok s"
    and t: "is_tcb s t" "t \<noteq> SchedulerAction_ChooseNewThread"
  shows "\<exists>s' ys. possible_switch_to t s = Inr s' \<and> ready_rep s' ys
    \<and> set ys \<union> action_thread s' = insert t (set xs \<union> action_thread s)
    \<and> action_ok s' \<and> is_tcb s' = is_tcb s"
proof (cases "ksSchedulerAction s = SchedulerAction_ResumeCurrentThread")
  case True
  then have "possible_switch_to t s = Inr (s\<lparr>ksSchedulerAction := t\<rparr>)"
    by (simp add: possible_switch_to_def)
  moreover have "t \<noteq> SchedulerAction_ResumeCurrentThread"
    using t(1) by (simp add: is_tcb_def sched_action_defs)
  ultimately show ?thesis using True t rep
    by (intro exI [of _ "s\<lparr>ksSchedulerAction := t\<rparr>"] exI [of _ xs])
      (auto simp: action_thread_def action_ok_def fun_eq_iff)
next
  case False
  obtain s1 ys where s1: "reschedule_required s = Inr s1" "ready_rep s1 ys"
      "set ys = set xs \<union> action_thread s"
      "ksSchedulerAction s1 = SchedulerAction_ChooseNewThread" "is_tcb s1 = is_tcb s"
    using reschedule_spec [OF rep ok] by blast
  then have "is_tcb s1 t" using t(1) by simp
  then obtain s2 where s2: "tcb_sched_enqueue t s1 = Inr s2" "ready_rep s2 (List.insert t ys)"
      "is_tcb s2 = is_tcb s1"
    using enqueue_any [OF s1(2)] by blast
  have "ksSchedulerAction s2 = ksSchedulerAction s1"
    using s2(1) by (auto simp: tcb_sched_enqueue_def bind_ok_Inr_iff mod_tcb_def Let_def
        split: if_splits)
  then have "action_thread s2 = {}" "action_ok s2"
    using s1(4) by (simp_all add: action_thread_def action_ok_def)
  with False s1 s2 show ?thesis
    by (intro exI [of _ s2] exI [of _ "List.insert t ys"]) (auto simp: possible_switch_to_def)
qed

subsection \<open>A scheduling turn\<close>

text \<open>What the scheduler's operations may change: the scheduling links and flags of threads, the
  ready queue and the scheduler action.\<close>

definition erase_sched :: "Tcb \<Rightarrow> Tcb" where
  "erase_sched t = (set_tcbQueued False t)\<lparr>tcbSchedNext := 0, tcbSchedPrev := 0\<rparr>"

definition sched_frame :: "kstate \<Rightarrow> kstate \<Rightarrow> bool" where
  "sched_frame s s' \<longleftrightarrow>
     s' = s\<lparr>tcb_heap := tcb_heap s', ksReadyQueues := ksReadyQueues s',
            ksSchedulerAction := ksSchedulerAction s'\<rparr>
     \<and> (\<forall>p. map_option erase_sched (tcb_heap s' p) = map_option erase_sched (tcb_heap s p))"

lemma sched_frame_refl [simp, intro]: "sched_frame s s"
  by (simp add: sched_frame_def)

lemma sched_frame_glob [simp]:
  "sched_frame s (s'\<lparr>ksReadyQueues := q\<rparr>) = sched_frame s s'"
  "sched_frame s (s'\<lparr>ksSchedulerAction := a\<rparr>) = sched_frame s s'"
  "sched_frame (s\<lparr>ksReadyQueues := q\<rparr>) s' = sched_frame s s'"
  "sched_frame (s\<lparr>ksSchedulerAction := a\<rparr>) s' = sched_frame s s'"
  by (cases s, cases s', auto simp: sched_frame_def)+

lemma sched_frame_trans: "sched_frame s s1 \<Longrightarrow> sched_frame s1 s2 \<Longrightarrow> sched_frame s s2"
  by (cases s, cases s1, cases s2) (simp add: sched_frame_def)

lemma mod_tcb_frame:
  assumes "mod_tcb p f s = Inr s'" and "\<And>x. erase_sched (f x) = erase_sched x"
  shows "sched_frame s s'"
  using assms by (cases "tcb_heap s p") (auto simp: sched_frame_def access_simps)

lemma erase_sched_upd [simp]:
  "erase_sched (t\<lparr>tcbSchedNext := n\<rparr>) = erase_sched t"
  "erase_sched (t\<lparr>tcbSchedPrev := n\<rparr>) = erase_sched t"
  "erase_sched (set_tcbQueued b t) = erase_sched t"
  by (simp_all add: erase_sched_def)

lemma mod_sched_frame:
  "mod_tcb p (\<lambda>x. x\<lparr>tcbSchedNext := n\<rparr>) s = Inr s' \<Longrightarrow> sched_frame s s'"
  "mod_tcb p (\<lambda>x. x\<lparr>tcbSchedPrev := n\<rparr>) s = Inr s' \<Longrightarrow> sched_frame s s'"
  "mod_tcb p (set_tcbQueued b) s = Inr s' \<Longrightarrow> sched_frame s s'"
  by (erule mod_tcb_frame, simp)+

lemma sched_op_frame:
  "tcb_sched_enqueue t s = Inr s' \<Longrightarrow> sched_frame s s'"
  "tcb_sched_append t s = Inr s' \<Longrightarrow> sched_frame s s'"
  "tcb_sched_dequeue t s = Inr s' \<Longrightarrow> sched_frame s s'"
  by (auto simp: tcb_sched_enqueue_def tcb_sched_append_def tcb_sched_dequeue_def Let_def
      bind_ok_Inr_iff split: if_splits dest!: mod_sched_frame intro: sched_frame_trans)
    (meson sched_frame_trans)+

lemma sched_ops_frame:
  "reschedule_required s = Inr s' \<Longrightarrow> sched_frame s s'"
  "possible_switch_to t s = Inr s' \<Longrightarrow> sched_frame s s'"
  "schedule_tcb t s = Inr s' \<Longrightarrow> sched_frame s s'"
proof -
  show res: "reschedule_required s = Inr s' \<Longrightarrow> sched_frame s s'" for s s'
    by (auto simp: reschedule_required_def bind_ok_Inr_iff split: if_splits dest!: sched_op_frame)
  show "possible_switch_to t s = Inr s' \<Longrightarrow> sched_frame s s'"
    by (auto simp: possible_switch_to_def bind_ok_Inr_iff split: if_splits
        dest!: sched_op_frame(1) res intro: sched_frame_trans)
  show "schedule_tcb t s = Inr s' \<Longrightarrow> sched_frame s s'"
    by (auto simp: schedule_tcb_def bind_ok_Inr_iff split: if_splits dest!: res)
qed

lemma sched_op_action:
  "tcb_sched_enqueue t s = Inr s' \<Longrightarrow> ksSchedulerAction s' = ksSchedulerAction s"
  "tcb_sched_append t s = Inr s' \<Longrightarrow> ksSchedulerAction s' = ksSchedulerAction s"
  "tcb_sched_dequeue t s = Inr s' \<Longrightarrow> ksSchedulerAction s' = ksSchedulerAction s"
  by (auto simp: tcb_sched_enqueue_def tcb_sched_append_def tcb_sched_dequeue_def Let_def
      bind_ok_Inr_iff mod_tcb_def split: if_splits)

lemma sched_frame_rest:
  assumes "sched_frame s s'"
  shows "ep_heap s' = ep_heap s" "ntfn_heap s' = ntfn_heap s" "cte_heap s' = cte_heap s"
    "tf_heap s' = tf_heap s" "word_heap s' = word_heap s" "ksCurThread s' = ksCurThread s"
    "oldThread s' = oldThread s" "excaprefs s' = excaprefs s" "hw_tss s' = hw_tss s"
    "hw_cr3 s' = hw_cr3 s" "kernPml4 s' = kernPml4 s"
  using assms by (cases s, cases s', auto simp: sched_frame_def)+

text \<open>A field no scheduling operation touches reads the same before and after.\<close>

lemma sched_frame_field:
  assumes "sched_frame s s'" and "tcb_heap s p = Some t" and "\<And>x. f (erase_sched x) = f x"
  shows "\<exists>t'. tcb_heap s' p = Some t' \<and> f t' = f t"
proof -
  have eq: "map_option erase_sched (tcb_heap s' p) = Some (erase_sched t)"
    using assms(1,2) unfolding sched_frame_def by simp
  from eq obtain t' where t': "tcb_heap s' p = Some t'" "erase_sched t' = erase_sched t"
    by (cases "tcb_heap s' p") simp_all
  have "f t' = f (erase_sched t')" by (rule assms(3) [symmetric])
  also have "\<dots> = f t" unfolding t'(2) by (rule assms(3))
  finally show ?thesis using t'(1) by blast
qed

lemma erase_sched_sel [simp]:
  "tsType (tcbState (erase_sched t)) = tsType (tcbState t)"
  "tcbEPNext (erase_sched t) = tcbEPNext t" "tcbEPPrev (erase_sched t) = tcbEPPrev t"
  "registers (erase_sched t) = registers t" "tcb_pml4 (erase_sched t) = tcb_pml4 t"
  "kStack (erase_sched t) = kStack t" "tcb_tf (erase_sched t) = tcb_tf t"
  "tcbIPCBuffer (erase_sched t) = tcbIPCBuffer t" "tcbFault (erase_sched t) = tcbFault t"
  "tcbBoundNotification (erase_sched t) = tcbBoundNotification t"
  by (simp_all add: erase_sched_def)

lemma ready_rep_keeps [simp]:
  "ready_rep (s\<lparr>ksCurThread := t\<rparr>) xs = ready_rep s xs"
  "ready_rep (s\<lparr>oldThread := t\<rparr>) xs = ready_rep s xs"
  "ready_rep (s\<lparr>hw_cr3 := c\<rparr>) xs = ready_rep s xs"
  "ready_rep (s\<lparr>hw_tss := f\<rparr>) xs = ready_rep s xs"
  by (simp_all add: ready_rep_def)

lemma is_tcb_keeps [simp]:
  "is_tcb (s\<lparr>ksCurThread := a\<rparr>) t = is_tcb s t"
  "is_tcb (s\<lparr>oldThread := a\<rparr>) t = is_tcb s t"
  "is_tcb (s\<lparr>hw_cr3 := c\<rparr>) t = is_tcb s t"
  "is_tcb (s\<lparr>hw_tss := f\<rparr>) t = is_tcb s t"
  by (simp_all add: is_tcb_def)

lemma schedule_head:
  assumes rep: "ready_rep s (t # xs)" and x: "tcb_heap s t = Some x"
    and act: "ksSchedulerAction s \<noteq> SchedulerAction_ResumeCurrentThread"
  shows "\<exists>s1. ready_rep s1 xs \<and> ksCurThread s1 = t \<and> oldThread s1 = ksCurThread s
    \<and> hw_cr3 s1 = tcb_pml4 x - KERNBASE
    \<and> hw_tss s1 1 = ucast (kStack x + 4096) \<and> hw_tss s1 2 = ucast (drop_bit 32 (kStack x + 4096))
    \<and> kernPml4 s1 = kernPml4 s \<and> ksSchedulerAction s1 = ksSchedulerAction s
    \<and> is_tcb s1 = is_tcb s
    \<and> (\<forall>run. schedule run s = bind_ok (run s1) (\<lambda>s2. Inr (s2\<lparr>hw_cr3 := kernPml4 s2 - KERNBASE,
          ksSchedulerAction := SchedulerAction_ResumeCurrentThread\<rparr>)))"
proof -
  have t: "q_head (ksReadyQueues s) = t" "t \<noteq> 0"
    using ready_repD(1) [OF rep] by simp_all
  obtain s0 where s0: "tcb_sched_dequeue t s = Inr s0" "ready_rep s0 xs"
    using rq.deq_old [OF rep, of t] by auto
  note frame = sched_op_frame(3) [OF s0(1)]
  obtain y where y: "tcb_heap s0 t = Some y" "tcb_pml4 y = tcb_pml4 x" "kStack y = kStack x"
    using sched_frame_field [OF frame x, of "\<lambda>t. (tcb_pml4 t, kStack t)"] by auto
  let ?s1 = "s0\<lparr>oldThread := ksCurThread s0, ksCurThread := t,
    hw_tss := tss_set_rsp 0 (kStack x + PGSIZE) (hw_tss s0), hw_cr3 := tcb_pml4 x - KERNBASE\<rparr>"
  have "user_switch_vm t (s0\<lparr>oldThread := ksCurThread s0, ksCurThread := t\<rparr>) = Inr ?s1"
    using y by (simp add: user_switch_vm_def get_tcb_def v2p_def)
  then have "schedule run s = bind_ok (run ?s1) (\<lambda>s2. Inr (s2\<lparr>hw_cr3 := kernPml4 s2 - KERNBASE,
          ksSchedulerAction := SchedulerAction_ResumeCurrentThread\<rparr>))" for run
    using act t s0(1) by (simp add: schedule_def choose_thread_def switch_to_thread_def switch_in_def
        kernel_switch_vm_def v2p_def bind_ok_assoc Let_def)
  moreover have "is_tcb ?s1 = is_tcb s" using is_tcb_dequeue [OF s0(1)] by (simp add: fun_eq_iff)
  ultimately show ?thesis
    using s0(2) sched_frame_rest(6,11) [OF frame] sched_op_action(3) [OF s0(1)]
    by (intro exI [of _ ?s1]) (simp add: tss_set_rsp_def PGSIZE_def)
qed

lemma schedule_idle:
  assumes "ready_rep s []"
  shows "schedule run s = Inr (s\<lparr>ksSchedulerAction := SchedulerAction_ResumeCurrentThread\<rparr>)"
  using ready_repD(1) [OF assms] by (simp add: schedule_def choose_thread_def)

text \<open>\<open>turns run n s\<close>: \<open>n\<close> turns of the main loop, with the threads they ran.\<close>

primrec turns :: "(kstate \<Rightarrow> kerror + kstate) \<Rightarrow> nat \<Rightarrow> kstate \<Rightarrow> kerror + u64 list \<times> kstate" where
  "turns run 0 s = Inr ([], s)"
| "turns run (Suc n) s =
     (let next = q_head (ksReadyQueues s) in
      bind_ok (main_loop_body run s) (\<lambda>s.
      bind_ok (turns run n s) (\<lambda>(ts, s). Inr (if next = 0 then ts else next # ts, s))))"

end
