(* ===== verification/Fixtures.thy ===== *)
theory Fixtures
  imports KState
begin

text \<open>
  Concrete objects and states on which the witnesses of the properties evaluate the model: a
  thread with every field zero, and a state with no object at all to which objects are added.
\<close>

definition blank_tcb :: Tcb where
  "blank_tcb =
     \<lparr>registers = replicate N_CONTEXT_REGISTERS 0,
      tcbState = \<lparr>blockingIPCBadge = 0, blockingIPCCanGrant = False,
        blockingIPCCangrantreply = False, blockingIPCIscall = False, tcbQueued = False,
        blockingObject = 0, tsType = ThreadState_Inactive\<rparr>,
      tcbBoundNotification = 0, tcbFault = \<lparr>faultNum = 0, osFaultType = NullFault\<rparr>,
      tcbLookupFailure = \<lparr>lfType = invalidRoot, lufType = invalidRoot, bitsRemaining = 0\<rparr>,
      tcb_tf = 0, tcb_context = 0, tcb_size = 0, tcb_pml4 = 0, kStack = 0, tcbPriority = 0,
      tcbTimeSlice = 0, tcbFaultHandler = 0, tcbIPCBuffer = 0, tcbSchedNext = 0,
      tcbSchedPrev = 0, tcbEPNext = 0, tcbEPPrev = 0\<rparr>"

definition blank_state :: kstate where
  "blank_state =
     \<lparr>tcb_heap = Map.empty, ep_heap = Map.empty, ntfn_heap = Map.empty, cte_heap = Map.empty,
      tf_heap = Map.empty, word_heap = Map.empty, ksReadyQueues = \<lparr>q_head = 0, q_end = 0\<rparr>,
      ksCurThread = 0, oldThread = 0, ksSchedulerAction = SchedulerAction_ResumeCurrentThread,
      excaprefs = [0, 0, 0],
      currentSyscallError = \<lparr>rangeErrorMin = 0, rangeErrorMax = 0,
        failedLookupWasSource = False, seType = OsNoError\<rparr>,
      currentLookupFault = \<lparr>lfType = invalidRoot, lufType = invalidRoot, bitsRemaining = 0\<rparr>,
      kernPml4 = 0xFFFFFFFF80100000, hw_cr3 = 0, hw_tss = (\<lambda>_. 0)\<rparr>"

text \<open>\<open>threads_at ts\<close>: a thread at each address of \<open>ts\<close>, and nothing else.\<close>

definition threads_at :: "u64 list \<Rightarrow> kstate" where
  "threads_at ts =
     blank_state\<lparr>tcb_heap := (\<lambda>p. if p \<in> set ts then Some blank_tcb else None)\<rparr>"

definition blank_cte :: Cte where
  "blank_cte = \<lparr>cte_cap = \<lparr>cap_w0 = 0, cap_w1 = 0, cap_w2 = 0\<rparr>,
     cteMdbNode = \<lparr>mdbNext = 0, mdbRevocable = 0, mdbFirstBadged = 0, mdbPrev = 0\<rparr>\<rparr>"

definition slots_at :: "u64 list \<Rightarrow> kstate" where
  "slots_at ps =
     blank_state\<lparr>cte_heap := (\<lambda>p. if p \<in> set ps then Some blank_cte else None)\<rparr>"

lemmas fixture_defs = blank_tcb_def blank_state_def threads_at_def blank_cte_def slots_at_def

end
