(* ===== verification/ThreadProps.thy ===== *)
theory ThreadProps
  imports Sched Fixtures
begin

text \<open>
  Properties of the ready queue and the scheduler (\<open>src/object/tcb.c\<close>, \<open>src/kernel/thread.c\<close>).
\<close>

subsection \<open>The ready queue\<close>

text \<open>C1: The ready queue refines a list: from any state whose queue links represent the list
  \<open>xs\<close>, every sequence of enqueue (at the head), append (at the tail) and dequeue operations on
  thread control blocks runs to its end without a fault, and the links of the final state
  represent the list that the list operations compute. In particular the \<open>tcbQueued\<close> flags,
  the head and tail pointers and both link directions stay consistent.\<close>

theorem ready_queue_refines_list:
  assumes "ready_rep s xs" and "\<forall>c\<in>set cs. is_tcb s (sched_thread c)"
  shows "\<exists>s'. fold_ok (sched_apply tcb_sched_enqueue tcb_sched_append tcb_sched_dequeue) cs s
      = Inr s' \<and> ready_rep s' (fold sched_spec cs xs)"
  using assms by (rule rq.run_spec)

lemma ready_rep_threads_at: "ready_rep (threads_at ts) []"
  by (auto simp: ready_rep_def fixture_defs split: if_splits)

lemma is_tcb_threads_at: "is_tcb (threads_at ts) t \<longleftrightarrow> t \<in> set ts \<and> t \<noteq> 0"
  by (auto simp: is_tcb_def fixture_defs)

theorem ready_queue_refines_list_witness:
  "\<exists>s'. fold_ok (sched_apply tcb_sched_enqueue tcb_sched_append tcb_sched_dequeue)
      [Append 0x1000, Append 0x2000, Enqueue 0x3000, Dequeue 0x1000, Append 0x3000]
      (threads_at [0x1000, 0x2000, 0x3000]) = Inr s' \<and> ready_rep s' [0x3000, 0x2000]"
  using ready_queue_refines_list [OF ready_rep_threads_at, of "[Append 0x1000, Append 0x2000,
      Enqueue 0x3000, Dequeue 0x1000, Append 0x3000]" "[0x1000, 0x2000, 0x3000]"]
  by (simp add: is_tcb_threads_at)

lemma dequeue_all_rep:
  "ready_rep s (ts @ xs) \<Longrightarrow> \<exists>s'. fold_ok tcb_sched_dequeue ts s = Inr s' \<and> ready_rep s' xs"
proof (induction ts arbitrary: s)
  case Nil
  then show ?case by simp
next
  case (Cons t ts)
  then have "\<exists>s1. tcb_sched_dequeue t s = Inr s1 \<and> ready_rep s1 (ts @ xs)"
    using rq.deq_old [of s "t # ts @ xs" t] by simp
  then obtain s1 where "tcb_sched_dequeue t s = Inr s1" "ready_rep s1 (ts @ xs)" by blast
  with Cons.IH [of s1] show ?case by simp
qed

text \<open>First in, first out: appending any number of distinct threads to an empty ready queue and
  then dequeuing them in the same order succeeds, each thread is at the head when it is removed,
  and the queue is empty again.\<close>

theorem ready_queue_fifo:
  assumes "ready_rep s []" and "distinct ts" and "\<forall>t\<in>set ts. is_tcb s t"
    and "k \<le> length ts"
  shows "\<exists>s1 s2. fold_ok tcb_sched_append ts s = Inr s1
    \<and> fold_ok tcb_sched_dequeue (take k ts) s1 = Inr s2 \<and> ready_rep s2 (drop k ts)
    \<and> (k < length ts \<longrightarrow> q_head (ksReadyQueues s2) = ts ! k)
    \<and> (k = length ts \<longrightarrow> q_head (ksReadyQueues s2) = 0)"
proof -
  obtain s1 where s1: "fold_ok tcb_sched_append ts s = Inr s1" "ready_rep s1 ts"
    using rq.fifo [OF assms(1-3)] by blast
  have "ready_rep s1 (take k ts @ drop k ts)" using s1(2) by simp
  then obtain s2 where s2: "fold_ok tcb_sched_dequeue (take k ts) s1 = Inr s2"
      "ready_rep s2 (drop k ts)"
    using dequeue_all_rep by blast
  have "k < length ts \<Longrightarrow> q_head (ksReadyQueues s2) = ts ! k"
    using dseg_head [OF ready_repD(1) [OF s2(2)]] by (simp add: hd_drop_conv_nth)
  moreover have "k = length ts \<Longrightarrow> q_head (ksReadyQueues s2) = 0"
    using ready_repD(1) [OF s2(2)] by simp
  ultimately show ?thesis using s1(1) s2 by blast
qed

theorem ready_queue_fifo_witness:
  "\<exists>s1 s2. fold_ok tcb_sched_append [0x2000, 0x1000] (threads_at [0x1000, 0x2000]) = Inr s1
    \<and> fold_ok tcb_sched_dequeue [0x2000] s1 = Inr s2 \<and> ready_rep s2 [0x1000]
    \<and> q_head (ksReadyQueues s2) = 0x1000"
  using ready_queue_fifo [OF ready_rep_threads_at, of "[0x2000, 0x1000]" "[0x1000, 0x2000]" 1]
  by (simp add: is_tcb_threads_at)

subsection \<open>Scheduling\<close>

text \<open>Handing a woken thread to the scheduler never loses a thread: after
  \<open>possible_switch_to\<close> the threads that wait for the processor, on the ready queue or as the
  scheduler action, are exactly those that waited before and the new one.\<close>

theorem possible_switch_to_keeps_waiting:
  assumes "ready_rep s xs" and "action_ok s" and "is_tcb s t" and "t \<noteq> SchedulerAction_ChooseNewThread"
  shows "\<exists>s' ys. possible_switch_to t s = Inr s' \<and> ready_rep s' ys
    \<and> set ys \<union> action_thread s' = insert t (set xs \<union> action_thread s)
    \<and> action_ok s' \<and> is_tcb s' = is_tcb s"
  using assms by (rule possible_switch_spec)

theorem possible_switch_to_keeps_waiting_witness:
  "\<exists>s' ys. possible_switch_to 0x2000 ((threads_at [0x1000, 0x2000])\<lparr>ksSchedulerAction := 0x1000\<rparr>)
      = Inr s' \<and> ready_rep s' ys \<and> set ys \<union> action_thread s' = {0x1000, 0x2000}"
proof -
  let ?s = "(threads_at [0x1000, 0x2000])\<lparr>ksSchedulerAction := 0x1000\<rparr>"
  have hyps: "ready_rep ?s []" "action_ok ?s" "is_tcb ?s 0x2000"
    "0x2000 \<noteq> SchedulerAction_ChooseNewThread"
    by (simp_all add: ready_rep_threads_at is_tcb_threads_at action_ok_def
        SchedulerAction_ChooseNewThread_def)
  have "action_thread ?s = {0x1000}" by (simp add: action_thread_def sched_action_defs)
  with possible_switch_to_keeps_waiting [OF hyps] show ?thesis by (auto simp: insert_commute)
qed

text \<open>A scheduling turn with a nonempty ready queue runs its head: before the switch the thread
  has left the queue, it is the current thread and the previous one is remembered, the page table
  register holds the physical address of its page table, the task state segment the top of its
  kernel stack; when it comes back the kernel's own page table is loaded and the scheduler action
  is reset. Whatever the threads do in between (\<open>run\<close>), a fault in it is the result.\<close>

theorem schedule_runs_head:
  assumes "ready_rep s (t # xs)" and "tcb_heap s t = Some x"
    and "ksSchedulerAction s \<noteq> SchedulerAction_ResumeCurrentThread"
  shows "\<exists>s1. ready_rep s1 xs \<and> ksCurThread s1 = t \<and> oldThread s1 = ksCurThread s
    \<and> hw_cr3 s1 = tcb_pml4 x - KERNBASE
    \<and> hw_tss s1 1 = ucast (kStack x + 4096) \<and> hw_tss s1 2 = ucast (drop_bit 32 (kStack x + 4096))
    \<and> kernPml4 s1 = kernPml4 s \<and> ksSchedulerAction s1 = ksSchedulerAction s
    \<and> is_tcb s1 = is_tcb s
    \<and> (\<forall>run. schedule run s = bind_ok (run s1) (\<lambda>s2. Inr (s2\<lparr>hw_cr3 := kernPml4 s2 - KERNBASE,
          ksSchedulerAction := SchedulerAction_ResumeCurrentThread\<rparr>)))"
  using assms by (rule schedule_head)

theorem schedule_runs_head_witness:
  "\<exists>s0 s1. tcb_sched_append 0x1000 (threads_at [0x1000]) = Inr s0 \<and> ready_rep s1 []
    \<and> ksCurThread s1 = 0x1000 \<and> hw_cr3 s1 = 0x80000000
    \<and> schedule Inr (s0\<lparr>ksSchedulerAction := SchedulerAction_ChooseNewThread\<rparr>)
        = Inr (s1\<lparr>hw_cr3 := 0x100000, ksSchedulerAction := SchedulerAction_ResumeCurrentThread\<rparr>)"
proof -
  obtain s0 where s0: "tcb_sched_append 0x1000 (threads_at [0x1000]) = Inr s0" "ready_rep s0 [0x1000]"
    using append_new [OF ready_rep_threads_at, of "[0x1000]" "0x1000"]
    by (auto simp: is_tcb_threads_at)
  note frame = sched_op_frame(2) [OF s0(1)]
  obtain x where x: "tcb_heap s0 0x1000 = Some x" "tcb_pml4 x = 0"
    using sched_frame_field [OF frame, of "0x1000" blank_tcb tcb_pml4]
    by (auto simp: fixture_defs)
  have kern: "kernPml4 s0 = 0xFFFFFFFF80100000"
    using sched_frame_rest(11) [OF frame] by (simp add: fixture_defs)
  let ?s = "s0\<lparr>ksSchedulerAction := SchedulerAction_ChooseNewThread\<rparr>"
  obtain s1 where s1: "ready_rep s1 []" "ksCurThread s1 = 0x1000" "hw_cr3 s1 = 0 - KERNBASE"
      "kernPml4 s1 = kernPml4 s0"
      "\<forall>run. schedule run ?s = bind_ok (run s1) (\<lambda>s2. Inr (s2\<lparr>hw_cr3 := kernPml4 s2 - KERNBASE,
         ksSchedulerAction := SchedulerAction_ResumeCurrentThread\<rparr>))"
    using schedule_runs_head [of ?s "0x1000" "[]" x] s0(2) x
    by (auto simp: sched_action_defs)
  then show ?thesis using s0(1) kern by (intro exI [of _ s0] exI [of _ s1]) (simp add: KERNBASE_def)
qed


lemma turns_run_all:
  assumes "\<And>s ys. ready_rep s ys \<Longrightarrow> \<exists>s'. run s = Inr s' \<and> ready_rep s' ys"
  shows "ready_rep s xs \<Longrightarrow> \<exists>s'. turns run (length xs) s = Inr (xs, s') \<and> ready_rep s' []"
proof (induction xs arbitrary: s)
  case Nil
  then show ?case by simp
next
  case (Cons t xs)
  let ?s = "s\<lparr>ksSchedulerAction := SchedulerAction_ChooseNewThread\<rparr>"
  have t: "q_head (ksReadyQueues s) = t" "t \<noteq> 0" using ready_repD(1) [OF Cons.prems] by simp_all
  obtain x where x: "tcb_heap ?s t = Some x" using ready_repD(3) [OF Cons.prems] by auto
  obtain s1 where s1: "ready_rep s1 xs"
      "schedule run ?s = bind_ok (run s1) (\<lambda>s2. Inr (s2\<lparr>hw_cr3 := kernPml4 s2 - KERNBASE,
          ksSchedulerAction := SchedulerAction_ResumeCurrentThread\<rparr>))"
    using schedule_head [OF _ x, of xs] Cons.prems by (auto simp: sched_action_defs)
  obtain s2 where s2: "run s1 = Inr s2" "ready_rep s2 xs" using assms [OF s1(1)] by blast
  define s3 where "s3 = s2\<lparr>hw_cr3 := kernPml4 s2 - KERNBASE,
          ksSchedulerAction := SchedulerAction_ResumeCurrentThread\<rparr>"
  have "main_loop_body run s = Inr s3" "ready_rep s3 xs"
    using s1(2) s2 by (simp_all add: main_loop_body_def s3_def)
  with Cons.IH [of s3] t show ?case by auto
qed



lemma possible_switch_choose:
  assumes "ready_rep s xs" and "is_tcb s t"
    and "ksSchedulerAction s = SchedulerAction_ChooseNewThread"
  shows "\<exists>s'. possible_switch_to t s = Inr s' \<and> ready_rep s' (List.insert t xs)
    \<and> ksSchedulerAction s' = SchedulerAction_ChooseNewThread \<and> is_tcb s' = is_tcb s"
proof -
  have "s\<lparr>ksSchedulerAction := SchedulerAction_ChooseNewThread\<rparr> = s"
    using assms(3) by (cases s) simp
  then have "reschedule_required s = Inr s"
    unfolding reschedule_required_def by (simp add: assms(3))
  then have "possible_switch_to t s = tcb_sched_enqueue t s"
    using assms(3) by (simp add: possible_switch_to_def sched_action_defs)
  moreover obtain s' where s': "tcb_sched_enqueue t s = Inr s'" "ready_rep s' (List.insert t xs)"
      "is_tcb s' = is_tcb s"
    using enqueue_any [OF assms(1,2)] by blast
  moreover have "ksSchedulerAction s' = ksSchedulerAction s"
    using s'(1) by (rule sched_op_action(1))
  ultimately show ?thesis using assms(3) by simp
qed

lemma wake_all:
  "ready_rep s xs \<Longrightarrow> \<forall>u\<in>set us. is_tcb s u \<Longrightarrow>
    ksSchedulerAction s = SchedulerAction_ChooseNewThread \<Longrightarrow>
    \<exists>s'. fold_ok possible_switch_to us s = Inr s' \<and> ready_rep s' (fold List.insert us xs)"
proof (induction us arbitrary: s xs)
  case Nil
  then show ?case by simp
next
  case (Cons u us)
  obtain s1 where s1: "possible_switch_to u s = Inr s1" "ready_rep s1 (List.insert u xs)"
      "ksSchedulerAction s1 = SchedulerAction_ChooseNewThread" "is_tcb s1 = is_tcb s"
    using possible_switch_choose [OF Cons.prems(1) _ Cons.prems(3)] Cons.prems(2) by auto
  then have "\<forall>v\<in>set us. is_tcb s1 v" using Cons.prems(2) by simp
  from Cons.IH [OF s1(2) this s1(3)] s1(1) show ?case by simp
qed

text \<open>No thread woken during a turn of the main loop is lost: the turn sets the scheduler action
  to "choose a new thread", so each \<open>possible_switch_to\<close> that the running thread's system calls
  make puts its target on the ready queue, once, and the queue after the turn holds the threads
  that were waiting behind the head and every woken one. (The final reset of the scheduler action
  therefore drops nothing.)\<close>

theorem main_loop_keeps_woken:
  assumes rep: "ready_rep s (t # xs)" and us: "\<forall>u\<in>set us. is_tcb s u"
  shows "\<exists>s'. main_loop_body (fold_ok possible_switch_to us) s = Inr s'
    \<and> ready_rep s' (fold List.insert us xs)
    \<and> ksSchedulerAction s' = SchedulerAction_ResumeCurrentThread"
proof -
  let ?s = "s\<lparr>ksSchedulerAction := SchedulerAction_ChooseNewThread\<rparr>"
  obtain x where x: "tcb_heap ?s t = Some x" using ready_repD(3) [OF rep] by auto
  obtain s1 where s1: "ready_rep s1 xs" "ksSchedulerAction s1 = ksSchedulerAction ?s"
      "is_tcb s1 = is_tcb ?s"
      "\<forall>run. schedule run ?s = bind_ok (run s1) (\<lambda>s2. Inr (s2\<lparr>hw_cr3 := kernPml4 s2 - KERNBASE,
         ksSchedulerAction := SchedulerAction_ResumeCurrentThread\<rparr>))"
    using schedule_head [OF _ x, of xs] rep by (auto simp: sched_action_defs)
  have "\<forall>u\<in>set us. is_tcb s1 u" using us s1(3) by simp
  then obtain s2 where "fold_ok possible_switch_to us s1 = Inr s2" "ready_rep s2 (fold List.insert us xs)"
    using wake_all [OF s1(1)] s1(2) by auto
  with s1(4) show ?thesis by (simp add: main_loop_body_def)
qed

theorem main_loop_keeps_woken_witness:
  "\<exists>s s'. fold_ok tcb_sched_append [0x1000, 0x2000] (threads_at [0x1000, 0x2000, 0x3000]) = Inr s
    \<and> main_loop_body (fold_ok possible_switch_to [0x3000, 0x2000]) s = Inr s'
    \<and> ready_rep s' [0x3000, 0x2000]"
proof -
  let ?s0 = "threads_at [0x1000, 0x2000, 0x3000]"
  obtain s where s: "fold_ok tcb_sched_append [0x1000, 0x2000] ?s0 = Inr s"
      "ready_rep s [0x1000, 0x2000]"
    using rq.fifo [OF ready_rep_threads_at, of "[0x1000, 0x2000]" "[0x1000, 0x2000, 0x3000]"]
    by (auto simp: is_tcb_threads_at)
  have "is_tcb s = is_tcb ?s0"
    using s(1) by (auto simp: bind_ok_Inr_iff fun_eq_iff is_tcb_append)
  then have "\<forall>u\<in>set [0x3000, 0x2000]. is_tcb s u" by (simp add: is_tcb_threads_at)
  from main_loop_keeps_woken [OF s(2) this] s(1) show ?thesis by auto
qed

end
