(* ===== verification/CSpace.thy ===== *)
theory CSpace
  imports KState
begin

text \<open>
  Capability spaces: \<open>src/kernel/cspace.c\<close> (from a capability pointer to a slot and its
  capability) and \<open>src/object/cnode.c\<close> (writing slots). Several of the C functions return a
  structure with a field they did not set; the value of such a field is a parameter of the
  model (\<open>u\<close>, \<open>uc\<close>).
\<close>

subsection \<open>Lookup\<close>

record LookupCapRet =
  luc_status :: Exception
  luc_cap :: Cap

record LookupCapAndSlotRet =
  lucs_status :: Exception
  lucs_cap :: Cap
  lucs_slot :: u64

record LookupSlotRet =
  lus_status :: Exception
  lus_slot :: u64

record ResolveAddressBitsRet =
  rab_status :: Exception
  rab_slot :: u64
  rab_bitsRemaining :: u64

text \<open>\<open>lookup_slot\<close> sets \<open>ret.slot\<close> only; \<open>ret.status\<close> is \<open>u\<close>.\<close>

definition lookup_slot :: "Exception \<Rightarrow> u64 \<Rightarrow> u64 \<Rightarrow> kstate \<Rightarrow> kerror + LookupSlotRet" where
  "lookup_slot u thread capptr s =
     bind_ok (get_cte s (TCB_PTR_CTE_PTR thread (cnode_index tcbCTable))) (\<lambda>cte.
     let cnode = CNodeCap_of_Cap (cte_cap cte) in
     Inr \<lparr>lus_status = u,
          lus_slot = (ucast (push_bit 1 (capCNodePtr cnode)) OR 0xFFFF800000000000) + capptr\<rparr>)"

definition lookup_cap ::
    "Exception \<Rightarrow> Cap \<Rightarrow> u64 \<Rightarrow> u64 \<Rightarrow> kstate \<Rightarrow> kerror + LookupCapRet" where
  "lookup_cap u uc thread cPtr s =
     bind_ok (lookup_slot u thread cPtr s) (\<lambda>luRet.
     if lus_status luRet \<noteq> EXCEPTION_NONE
     then Inr \<lparr>luc_status = lus_status luRet,
               luc_cap = Cap_set_capType (tag_field cap_null_cap) uc\<rparr>
     else bind_ok (get_cte s (lus_slot luRet)) (\<lambda>slot.
          Inr \<lparr>luc_status = EXCEPTION_NONE, luc_cap = cte_cap slot\<rparr>))"

text \<open>On the error path \<open>ret.slot\<close> is not set either (\<open>us\<close>).\<close>

definition lookup_cap_and_slot ::
    "Exception \<Rightarrow> Cap \<Rightarrow> u64 \<Rightarrow> u64 \<Rightarrow> u64 \<Rightarrow> kstate \<Rightarrow> kerror + LookupCapAndSlotRet" where
  "lookup_cap_and_slot u uc us thread cPtr s =
     bind_ok (lookup_slot u thread cPtr s) (\<lambda>luRet.
     if lus_status luRet \<noteq> EXCEPTION_NONE
     then Inr \<lparr>lucs_status = lus_status luRet,
               lucs_cap = Cap_set_capType (tag_field cap_null_cap) uc, lucs_slot = us\<rparr>
     else bind_ok (get_cte s (lus_slot luRet)) (\<lambda>slot.
          Inr \<lparr>lucs_status = EXCEPTION_NONE, lucs_cap = cte_cap slot,
               lucs_slot = lus_slot luRet\<rparr>))"

text \<open>
  The body of \<open>resolve_address_bits\<close> after \<open>levelBits = 0\<close> is unreachable: the test
  \<open>levelBits == 0\<close> right behind it always returns. \<open>capCNodePtr\<close> is a 47-bit field, and gcc
  shifts it at that width; \<open>slot + offset\<close> is in units of \<open>sizeof(Cte)\<close>.
\<close>

definition resolve_address_bits ::
    "Exception \<Rightarrow> Cap \<Rightarrow> u64 \<Rightarrow> u64 \<Rightarrow> ResolveAddressBitsRet" where
  "resolve_address_bits u nodeCap cPtr nBits =
     (let ret = \<lparr>rab_status = u, rab_slot = 0, rab_bitsRemaining = nBits\<rparr> in
      if Cap_capType nodeCap \<noteq> tag_field cap_cnode_cap then ret else
      let cnodeCap = CNodeCap_of_Cap nodeCap;
          radixBits = ucast (capCNodeRadix cnodeCap);
          guardBits = ucast (capCNodeGuardSize cnodeCap);
          levelBits = radixBits + guardBits :: u64 in
      if levelBits > nBits then ret else
      let slot = ucast (push_bit 1 (capCNodePtr cnodeCap)) + cPtr * sizeof_Cte in
      \<lparr>rab_status = EXCEPTION_NONE, rab_slot = slot, rab_bitsRemaining = 0\<rparr>)"

definition lookup_slot_for_cnode_op ::
    "Exception \<Rightarrow> bool \<Rightarrow> Cap \<Rightarrow> u64 \<Rightarrow> u64 \<Rightarrow> kstate \<Rightarrow> LookupSlotRet \<times> kstate" where
  "lookup_slot_for_cnode_op u isSource root capptr depth s =
     (let fail = \<lparr>lus_status = EXCEPTION_SYSCALL_ERROR, lus_slot = 0\<rparr> in
      if Cap_capType root \<noteq> tag_field cap_cnode_cap then
        (fail, s\<lparr>currentSyscallError := (currentSyscallError s)\<lparr>
                   seType := OsFailedLookup, failedLookupWasSource := isSource\<rparr>,
                 currentLookupFault := (currentLookupFault s)\<lparr>lufType := invalidRoot\<rparr>\<rparr>)
      else if depth < 1 \<or> depth > of_nat wordBits then
        (fail, s\<lparr>currentSyscallError := (currentSyscallError s)\<lparr>
                   seType := OsRangeError, rangeErrorMin := 1,
                   rangeErrorMax := of_nat wordBits\<rparr>\<rparr>)
      else
      let resRet = resolve_address_bits u root capptr depth in
      if rab_status resRet \<noteq> EXCEPTION_NONE then
        (fail, s\<lparr>currentSyscallError := (currentSyscallError s)\<lparr>
                   seType := OsFailedLookup, failedLookupWasSource := isSource\<rparr>\<rparr>)
      else if rab_bitsRemaining resRet \<noteq> 0 then
        (fail, s\<lparr>currentSyscallError := (currentSyscallError s)\<lparr>
                   seType := OsFailedLookup, failedLookupWasSource := isSource\<rparr>,
                 currentLookupFault := (currentLookupFault s)\<lparr>
                   lfType := depthMismatch, bitsRemaining := rab_bitsRemaining resRet\<rparr>\<rparr>)
      else (\<lparr>lus_status = EXCEPTION_NONE, lus_slot = rab_slot resRet\<rparr>, s))"

definition lookup_target_slot ::
    "Exception \<Rightarrow> Cap \<Rightarrow> u64 \<Rightarrow> u64 \<Rightarrow> kstate \<Rightarrow> LookupSlotRet \<times> kstate" where
  "lookup_target_slot u root capptr depth s = lookup_slot_for_cnode_op u False root capptr depth s"

definition lookup_source_slot ::
    "Exception \<Rightarrow> Cap \<Rightarrow> u64 \<Rightarrow> u64 \<Rightarrow> kstate \<Rightarrow> LookupSlotRet \<times> kstate" where
  "lookup_source_slot u root capptr depth s = lookup_slot_for_cnode_op u True root capptr depth s"

definition lookup_pivot_slot ::
    "Exception \<Rightarrow> Cap \<Rightarrow> u64 \<Rightarrow> u64 \<Rightarrow> kstate \<Rightarrow> LookupSlotRet \<times> kstate" where
  "lookup_pivot_slot u root capptr depth s = lookup_slot_for_cnode_op u True root capptr depth s"

subsection \<open>Writing slots\<close>

definition cte_insert :: "Cap \<Rightarrow> u64 \<Rightarrow> u64 \<Rightarrow> kstate \<Rightarrow> kerror + kstate" where
  "cte_insert newCap srcSlot destSlot s =
     bind_ok (get_cte s srcSlot) (\<lambda>src.
     let srcMDB = cteMdbNode src;
         newMDB = srcMDB\<lparr>mdbPrev := srcSlot, mdbRevocable := 0, mdbFirstBadged := 0\<rparr> in
     bind_ok (mod_cte destSlot (\<lambda>d. d\<lparr>cte_cap := newCap\<rparr>) s) (\<lambda>s.
     bind_ok (mod_cte destSlot (\<lambda>d. d\<lparr>cteMdbNode := newMDB\<rparr>) s) (\<lambda>s.
     bind_ok (mod_cte srcSlot
       (\<lambda>c. c\<lparr>cteMdbNode := (cteMdbNode c)\<lparr>mdbNext := ucast destSlot\<rparr>\<rparr>) s) (\<lambda>s.
     if mdbNext newMDB \<noteq> 0
     then mod_cte (ucast (mdbNext newMDB))
            (\<lambda>c. c\<lparr>cteMdbNode := (cteMdbNode c)\<lparr>mdbPrev := destSlot\<rparr>\<rparr>) s
     else Inr s))))"

text \<open>The \<open>parent\<close> argument is unused: the derivation links are commented out in the source.\<close>

definition insert_new_cap :: "u64 \<Rightarrow> u64 \<Rightarrow> Cap \<Rightarrow> kstate \<Rightarrow> kerror + kstate" where
  "insert_new_cap parent slot cap s = mod_cte slot (\<lambda>c. c\<lparr>cte_cap := cap\<rparr>) s"

subsection \<open>The receive slot\<close>

text \<open>Words of an IPC buffer: \<open>buffer + i\<close> in C is \<open>8 * i\<close> bytes further.\<close>

definition word_addr :: "u64 \<Rightarrow> nat \<Rightarrow> u64" where
  "word_addr buf i = buf + 8 * of_nat i"

definition capTransfer_from_u64 :: "u64 \<Rightarrow> kstate \<Rightarrow> kerror + CapTransfer" where
  "capTransfer_from_u64 wptr s =
     bind_ok (get_word s (word_addr wptr 0)) (\<lambda>w0.
     bind_ok (get_word s (word_addr wptr 1)) (\<lambda>w1.
     bind_ok (get_word s (word_addr wptr 2)) (\<lambda>w2.
     Inr \<lparr>ctReceiveRoot = w0, ctReceiveIndex = w1, ctReceiveDepth = w2\<rparr>)))"

definition load_cap_transfer :: "u64 \<Rightarrow> kstate \<Rightarrow> kerror + CapTransfer" where
  "load_cap_transfer buffer s =
     capTransfer_from_u64 (word_addr buffer (Os_MsgMaxLength + Os_MsgMaxExtraCaps + 2)) s"

definition get_receive_slots ::
    "Exception \<Rightarrow> Cap \<Rightarrow> Exception \<Rightarrow> u64 \<Rightarrow> u64 \<Rightarrow> kstate \<Rightarrow> kerror + u64 \<times> kstate" where
  "get_receive_slots u uc u' thread buffer s =
     (if buffer = 0 then Inr (0, s) else
      bind_ok (load_cap_transfer buffer s) (\<lambda>ct.
      bind_ok (lookup_cap u uc thread (ctReceiveRoot ct) s) (\<lambda>lucRet.
      if luc_status lucRet \<noteq> EXCEPTION_NONE then Inr (0, s) else
      let cnode = luc_cap lucRet;
          (lusRet, s) = lookup_target_slot u' cnode (ctReceiveIndex ct) (ctReceiveDepth ct) s in
      if lus_status lusRet \<noteq> EXCEPTION_NONE then Inr (0, s) else
      bind_ok (get_cte s (lus_slot lusRet)) (\<lambda>slot.
      if Cap_capType (cte_cap slot) \<noteq> tag_field cap_null_cap then Inr (0, s)
      else Inr (lus_slot lusRet, s)))))"

subsection \<open>Lookup of a slot address\<close>

lemma lookup_slot_cte:
  assumes "cte_heap s (TCB_PTR_CTE_PTR t (cnode_index tcbCTable)) = Some c"
  shows "lookup_slot u t p s = Inr \<lparr>lus_status = u, lus_slot =
    (ucast (push_bit 1 (capCNodePtr (CNodeCap_of_Cap (cte_cap c)))) OR 0xFFFF800000000000) + p\<rparr>"
  using assms by (simp add: lookup_slot_def get_cte_def)

text \<open>A table address in the kernel half, shifted right by one, truncated to the 47-bit field and
  shifted back is the address again: its upper bits are the ones the code puts back.\<close>

lemma cnode_ptr_roundtrip:
  fixes base :: u64
  assumes "base AND 0xFFFF800000000000 = 0xFFFF800000000000" and "\<not> bit base 0"
  shows "ucast (push_bit 1 (ucast (drop_bit 1 base) :: 47 word)) OR 0xFFFF800000000000 = base"
proof (rule bit_word_eqI)
  fix n assume n: "n < LENGTH(64)"
  have mask: "bit (0xFFFF800000000000 :: u64) m \<longleftrightarrow> 47 \<le> m \<and> m < 64" for m
  proof -
    have "(0xFFFF800000000000 :: u64) = push_bit 47 (mask 17)"
      by (simp add: mask_eq_exp_minus_1)
    then show ?thesis by (simp only: bit_simps) auto
  qed
  have upper: "47 \<le> n \<Longrightarrow> bit base n"
    using n arg_cong [OF assms(1), of "\<lambda>w. bit w n"] by (simp only: bit_and_iff mask) auto
  have low: "bit (ucast (push_bit 1 (ucast (drop_bit 1 base) :: 47 word)) :: u64) n
      \<longleftrightarrow> 1 \<le> n \<and> n < 47 \<and> bit base n"
    by (simp only: bit_simps) auto
  show "bit (ucast (push_bit 1 (ucast (drop_bit 1 base) :: 47 word)) OR 0xFFFF800000000000 :: u64) n
      \<longleftrightarrow> bit base n"
    unfolding bit_or_iff low mask using n upper assms(2) by (cases "n = 0") auto
qed

subsection \<open>The mapping database\<close>

text \<open>The slots derived from one another form a doubly linked list through \<open>mdbNext\<close> (46 bits)
  and \<open>mdbPrev\<close>.\<close>

definition mdb_next :: "kstate \<Rightarrow> u64 \<Rightarrow> u64" where
  "mdb_next s p = (case cte_heap s p of None \<Rightarrow> 0 | Some c \<Rightarrow> ucast (mdbNext (cteMdbNode c)))"

definition mdb_prev :: "kstate \<Rightarrow> u64 \<Rightarrow> u64" where
  "mdb_prev s p = (case cte_heap s p of None \<Rightarrow> 0 | Some c \<Rightarrow> mdbPrev (cteMdbNode c))"

text \<open>\<open>mdb_rep s xs\<close>: the slots \<open>xs\<close>, at addresses a 46-bit field can hold, are one such list.\<close>

definition mdb_rep :: "kstate \<Rightarrow> u64 list \<Rightarrow> bool" where
  "mdb_rep s xs \<longleftrightarrow> (\<exists>h e. dseg (mdb_next s) (mdb_prev s) 0 h xs e 0) \<and> distinct xs
     \<and> set xs \<subseteq> dom (cte_heap s) \<and> (\<forall>x\<in>set xs. x < 2 ^ 46)"

lemma mdb_upd [simp]:
  "mdb_next (s\<lparr>cte_heap := h(p \<mapsto> c)\<rparr>)
    = (mdb_next (s\<lparr>cte_heap := h\<rparr>))(p := ucast (mdbNext (cteMdbNode c)))"
  "mdb_prev (s\<lparr>cte_heap := h(p \<mapsto> c)\<rparr>) = (mdb_prev (s\<lparr>cte_heap := h\<rparr>))(p := mdbPrev (cteMdbNode c))"
  by (auto simp: mdb_next_def mdb_prev_def)

lemma mdb_Some:
  "cte_heap s p = Some c \<Longrightarrow> mdb_next s p = ucast (mdbNext (cteMdbNode c))"
  "cte_heap s p = Some c \<Longrightarrow> mdb_prev s p = mdbPrev (cteMdbNode c)"
  by (simp_all add: mdb_next_def mdb_prev_def)

lemma mod_cte_Some:
  "cte_heap s p = Some x \<Longrightarrow> mod_cte p f s = Inr (s\<lparr>cte_heap := (cte_heap s)(p \<mapsto> f x)\<rparr>)"
  by (simp add: access_simps)

text \<open>The heap after \<open>cte_insert\<close>, whichever branch it takes.\<close>

lemma cte_insert_result:
  assumes c: "cte_heap s src = Some c" and d: "cte_heap s dest = Some d"
    and n: "mdb_next s src \<noteq> 0 \<longrightarrow> cte_heap s (mdb_next s src) = Some e"
    and ne: "src \<noteq> dest" "mdb_next s src \<noteq> dest" "mdb_next s src \<noteq> src"
  shows "cte_insert cap src dest s = Inr (s\<lparr>cte_heap :=
    (let h = (cte_heap s)(dest \<mapsto> d\<lparr>cte_cap := cap, cteMdbNode := (cteMdbNode c)\<lparr>mdbPrev := src,
                mdbRevocable := 0, mdbFirstBadged := 0\<rparr>\<rparr>,
              src \<mapsto> c\<lparr>cteMdbNode := (cteMdbNode c)\<lparr>mdbNext := ucast dest\<rparr>\<rparr>)
     in if mdb_next s src = 0 then h
        else h(mdb_next s src \<mapsto> e\<lparr>cteMdbNode := (cteMdbNode e)\<lparr>mdbPrev := dest\<rparr>\<rparr>))\<rparr>)"
proof (cases "mdb_next s src = 0")
  case True
  then have "mdbNext (cteMdbNode c) = 0"
    using c by (simp add: mdb_next_def)
  with True c d ne show ?thesis
    by (simp add: cte_insert_def mod_cte_Some get_cte_def Let_def)
next
  case False
  then have nz: "mdbNext (cteMdbNode c) \<noteq> 0"
    and next_c: "mdb_next s src = ucast (mdbNext (cteMdbNode c))"
    using c by (auto simp: mdb_next_def)
  with False c d n ne show ?thesis
    by (simp add: cte_insert_def mod_cte_Some get_cte_def Let_def)
qed

lemma mdb_repD:
  assumes "mdb_rep s xs"
  shows "\<exists>h e. dseg (mdb_next s) (mdb_prev s) 0 h xs e 0" and "distinct xs"
    and "set xs \<subseteq> dom (cte_heap s)" and "x \<in> set xs \<Longrightarrow> x < 2 ^ 46"
  using assms by (auto simp: mdb_rep_def)

text \<open>\<open>cte_insert\<close> puts the new slot right behind its source, with the capability it was given,
  and changes the capability of no other slot.\<close>

lemma cte_insert_spec:
  assumes rep: "mdb_rep s (as @ src # bs)"
    and d: "dest \<in> dom (cte_heap s)" "dest \<notin> set (as @ src # bs)" "dest \<noteq> 0" "dest < 2 ^ 46"
  shows "\<exists>s'. cte_insert cap src dest s = Inr s' \<and> mdb_rep s' (as @ src # dest # bs)
    \<and> (\<forall>p. map_option cte_cap (cte_heap s' p)
          = (if p = dest then Some cap else map_option cte_cap (cte_heap s p)))"
proof -
  let ?xs = "as @ src # bs" and ?n = "mdb_next s src"
  obtain h e where seg: "dseg (mdb_next s) (mdb_prev s) 0 h ?xs e 0"
    using mdb_repD(1) [OF rep] by blast
  note dist = mdb_repD(2) [OF rep] and dm = mdb_repD(3) [OF rep]
  obtain c where c: "cte_heap s src = Some c" using dm by auto
  obtain dd where dd: "cte_heap s dest = Some dd" using d by auto
  have nx: "?n = (if bs = [] then 0 else hd bs)" using dseg_links [OF seg] by simp
  have nin: "?n \<noteq> 0 \<Longrightarrow> ?n \<in> set bs" using nx by (auto split: if_splits)
  then have "?n \<noteq> 0 \<Longrightarrow> ?n \<in> dom (cte_heap s)" using dm by auto
  then obtain ee where ee: "?n \<noteq> 0 \<longrightarrow> cte_heap s ?n = Some ee" by blast
  have ne: "src \<noteq> dest" "?n \<noteq> dest" "?n \<noteq> src"
    using d dist nin dseg_not_null [OF seg] by auto
  let ?h1 = "(cte_heap s)(dest \<mapsto> dd\<lparr>cte_cap := cap, cteMdbNode := (cteMdbNode c)\<lparr>mdbPrev := src,
                mdbRevocable := 0, mdbFirstBadged := 0\<rparr>\<rparr>,
              src \<mapsto> c\<lparr>cteMdbNode := (cteMdbNode c)\<lparr>mdbNext := ucast dest\<rparr>\<rparr>)"
  let ?h = "if ?n = 0 then ?h1
        else ?h1(?n \<mapsto> ee\<lparr>cteMdbNode := (cteMdbNode ee)\<lparr>mdbPrev := dest\<rparr>\<rparr>)"
  let ?s = "s\<lparr>cte_heap := ?h\<rparr>"
  have run: "cte_insert cap src dest s = Inr ?s"
    using cte_insert_result [OF c dd ee ne] by simp
  have dest46: "ucast (ucast dest :: 46 word) = dest"
    using d(4) by (intro ucast_down_up_id) simp_all
  have nxt: "mdb_next ?s = (mdb_next s)(dest := ?n, src := dest)"
    using c dd ee ne dest46 by (auto simp: fun_eq_iff mdb_Some [OF c] mdb_next_def)
  have prv: "mdb_prev ?s = (if ?n = 0 then mdb_prev s else (mdb_prev s)(?n := dest))(dest := src)"
    using c dd ee ne by (auto simp: fun_eq_iff mdb_prev_def)
  have "mdb_rep ?s (as @ src # dest # bs)"
    unfolding mdb_rep_def nxt prv
  proof (intro conjI exI)
    show "dseg ((mdb_next s)(dest := ?n, src := dest))
        ((if ?n = 0 then mdb_prev s else (mdb_prev s)(?n := dest))(dest := src)) 0 h
        (as @ src # dest # bs) (if bs = [] then dest else e) 0"
      using dseg_insert_after [OF seg dist d(2,3)] .
  qed (use dist d dm mdb_repD(4) [OF rep] in auto)
  moreover have "map_option cte_cap (cte_heap ?s p)
      = (if p = dest then Some cap else map_option cte_cap (cte_heap s p))" for p
    using c dd ee ne by auto
  ultimately show ?thesis using run by blast
qed

text \<open>A slot in the kernel half of the address space does not survive the 46-bit field: the next
  insertion behind the same source goes through a truncated address.\<close>

lemma cte_insert_second_faults:
  assumes c: "cte_heap s src = Some c" "mdbNext (cteMdbNode c) = 0"
    and d: "cte_heap s d1 = Some x1" "cte_heap s d2 = Some x2"
    and ne: "src \<noteq> d1" "src \<noteq> d2" "d1 \<noteq> d2"
    and trunc: "take_bit 46 d1 \<noteq> 0" "cte_heap s (take_bit 46 d1) = None"
  shows "bind_ok (cte_insert cap1 src d1 s) (cte_insert cap2 src d2) = Inl (BadPtr (take_bit 46 d1))"
proof -
  have up: "ucast (ucast d1 :: 46 word) = take_bit 46 d1"
    using ucast_down_up [of d1, where 'b = 46] by simp
  then have nz: "(ucast d1 :: 46 word) \<noteq> 0" using trunc(1) by fastforce
  have "take_bit 46 d1 \<noteq> src" "take_bit 46 d1 \<noteq> d2" "take_bit 46 d1 \<noteq> d1"
    using trunc(2) c d by auto
  then show ?thesis using c d ne trunc nz up
    by (simp add: cte_insert_def access_simps Let_def)
qed

end
