(* ===== verification/Objects.thy ===== *)
theory Objects
  imports CSpace
begin

text \<open>
  Making kernel objects out of untyped memory: \<open>src/object/objecttype.c\<close> and
  \<open>src/object/untyped.c\<close>. A typed capability is built in an uninitialised local variable and
  copied out as three words; \<open>junk\<close> are the words the variable's stack slot held before.
\<close>

subsection \<open>Object types\<close>

definition osUntypedObject :: u64 where "osUntypedObject = 0"
definition osTCBObject :: u64 where "osTCBObject = 1"
definition osEndpointObject :: u64 where "osEndpointObject = 2"
definition osNotificationObject :: u64 where "osNotificationObject = 3"
definition osCapTableObject :: u64 where "osCapTableObject = 4"

lemmas object_types [simp] =
  osUntypedObject_def osTCBObject_def osEndpointObject_def osNotificationObject_def
  osCapTableObject_def

definition get_object_size :: "u64 \<Rightarrow> u64 \<Rightarrow> kerror + u64" where
  "get_object_size objectType userObjectSize =
     (if objectType = osTCBObject then Inr (of_nat OsTCBBits)
      else if objectType = osEndpointObject then Inr (of_nat OsEndpointBits)
      else if objectType = osNotificationObject then Inr (of_nat OsNotificationBits)
      else if objectType = osCapTableObject then Inr (of_nat OsSlotBits + userObjectSize)
      else if objectType = osUntypedObject then Inr userObjectSize
      else Inl (Panic ''invalid object type''))"

subsection \<open>Creating one object\<close>

text \<open>The capabilities of the four kinds of object. \<open>EP_REF\<close>, \<open>NTFN_REF\<close> and \<open>CTE_REF\<close> are casts;
  each pointer field keeps the low bits of the address.\<close>

definition new_endpoint_cap :: "Cap \<Rightarrow> u64 \<Rightarrow> Cap" where
  "new_endpoint_cap junk regionBase =
     (let endpointCap = (EndpointCap_of_Cap junk)
            \<lparr>capEPBadge := 0, capCanGrant := 1, capCanGrantReply := 1, capCanReceive := 1,
             capCanSend := 1, capEPPtr := ucast regionBase,
             ep_capType := tag_field cap_endpoint_cap\<rparr>
      in Cap_of_EndpointCap (cap_w2 junk) endpointCap)"

definition new_notification_cap :: "Cap \<Rightarrow> u64 \<Rightarrow> Cap" where
  "new_notification_cap junk regionBase =
     (let notificationCap = (NotificationCap_of_Cap junk)
            \<lparr>capNtfnCanReceive := 1, capNtfnCanSend := 1,
             ntfn_capType := tag_field cap_notification_cap, capNtfnPtr := ucast regionBase\<rparr>
      in Cap_of_NotificationCap (cap_w2 junk) notificationCap)"

definition new_cnode_cap :: "Cap \<Rightarrow> u64 \<Rightarrow> u64 \<Rightarrow> Cap" where
  "new_cnode_cap junk regionBase userSize =
     (let cnodeCap = (CNodeCap_of_Cap junk)
            \<lparr>capCNodeGuard := userSize, capCNodeGuardSize := 0, capCNodeRadix := 0,
             capCNodePtr := ucast regionBase\<rparr>
      in Cap_of_CNodeCap (cap_w2 junk) cnodeCap)"

definition new_untyped_cap :: "Cap \<Rightarrow> u64 \<Rightarrow> u64 \<Rightarrow> bool \<Rightarrow> Cap" where
  "new_untyped_cap junk regionBase userSize deviceMemory =
     (let untypedCap = (UntypedCap_of_Cap junk)
            \<lparr>capFreeIndex := 0, capIsDevice := of_bool deviceMemory,
             capBlockSize := ucast userSize, capPtr := ucast regionBase,
             ut_capType := tag_field cap_untyped_cap\<rparr>
      in Cap_of_UntypedCap (cap_w2 junk) untypedCap)"

text \<open>The \<open>osTCBObject\<close> case has no break: after resetting the time slice of the new TCB it goes on
  into the endpoint case.\<close>

definition create_object ::
    "Cap \<Rightarrow> u64 \<Rightarrow> u64 \<Rightarrow> u64 \<Rightarrow> bool \<Rightarrow> kstate \<Rightarrow> kerror + Cap \<times> kstate" where
  "create_object junk objectType regionBase userSize deviceMemory s =
     (if objectType = osTCBObject then
        bind_ok (mod_tcb (regionBase + TCB_OFFSET) (\<lambda>t. t\<lparr>tcbTimeSlice := 0\<rparr>) s) (\<lambda>s.
        Inr (new_endpoint_cap junk regionBase, s))
      else if objectType = osEndpointObject then Inr (new_endpoint_cap junk regionBase, s)
      else if objectType = osNotificationObject then Inr (new_notification_cap junk regionBase, s)
      else if objectType = osCapTableObject then Inr (new_cnode_cap junk regionBase userSize, s)
      else if objectType = osUntypedObject then
        Inr (new_untyped_cap junk regionBase userSize deviceMemory, s)
      else Inl (Panic ''createobjectdefault''))"

subsection \<open>Creating a batch\<close>

text \<open>\<open>&destCNode[i]\<close>, and the address of the \<open>i\<close>th object: the compiled shift takes the low six
  bits of its count.\<close>

definition slot_at :: "u64 \<Rightarrow> u64 \<Rightarrow> u64" where
  "slot_at destCNode i = destCNode + i * sizeof_Cte"

definition object_at :: "u64 \<Rightarrow> u64 \<Rightarrow> u64 \<Rightarrow> u64" where
  "object_at nextFreeArea objectSize i =
     nextFreeArea + push_bit (unat (take_bit 6 objectSize)) i"

definition create_new_objects ::
    "(nat \<Rightarrow> Cap) \<Rightarrow> u64 \<Rightarrow> u64 \<Rightarrow> u64 \<Rightarrow> u64 \<Rightarrow> u64 \<Rightarrow> u64 \<Rightarrow> u64 \<Rightarrow> bool \<Rightarrow> kstate
      \<Rightarrow> kerror + kstate" where
  "create_new_objects junk objectType parent destCNode destOffset destLength regionBase userSize
      deviceMemory s =
     bind_ok (get_object_size objectType userSize) (\<lambda>objectSize.
     let nextFreeArea = regionBase in
     fold_ok (\<lambda>i s.
       bind_ok (create_object (junk i) objectType (object_at nextFreeArea objectSize (of_nat i))
                  userSize deviceMemory s) (\<lambda>(cap, s).
       insert_new_cap parent (slot_at destCNode (destOffset + of_nat i)) cap s))
     [0..<unat destLength] s)"

definition invoke_untyped_retype ::
    "Cap \<Rightarrow> (nat \<Rightarrow> Cap) \<Rightarrow> u64 \<Rightarrow> bool \<Rightarrow> u64 \<Rightarrow> u64 \<Rightarrow> u64 \<Rightarrow> u64 \<Rightarrow> u64 \<Rightarrow> u64 \<Rightarrow> bool \<Rightarrow> kstate
      \<Rightarrow> kerror + Exception \<times> kstate" where
  "invoke_untyped_retype junk0 junk srcSlot reset retypeBase newType userSize destCNode destOffset
      destLength deviceMemory s =
     bind_ok (get_cte s srcSlot) (\<lambda>src.
     let untypedCap = UntypedCap_of_Cap (cte_cap src) in
     bind_ok (get_object_size newType userSize) (\<lambda>_.
     let untypedCap = untypedCap\<lparr>capFreeIndex := 0\<rparr> in
     bind_ok (mod_cte srcSlot (\<lambda>c. c\<lparr>cte_cap := Cap_of_UntypedCap (cap_w2 junk0) untypedCap\<rparr>) s) (\<lambda>s.
     bind_ok (create_new_objects junk newType srcSlot destCNode destOffset destLength retypeBase
                userSize deviceMemory s) (\<lambda>s.
     Inr (EXCEPTION_NONE, s)))))"

subsection \<open>What a batch does to the slots\<close>

text \<open>The capability an object type gives, for the types that touch no other object.\<close>

fun new_cap :: "u64 \<Rightarrow> Cap \<Rightarrow> u64 \<Rightarrow> u64 \<Rightarrow> bool \<Rightarrow> Cap" where
  "new_cap objectType junk regionBase userSize deviceMemory =
     (if objectType = osEndpointObject then new_endpoint_cap junk regionBase
      else if objectType = osNotificationObject then new_notification_cap junk regionBase
      else if objectType = osCapTableObject then new_cnode_cap junk regionBase userSize
      else new_untyped_cap junk regionBase userSize deviceMemory)"

definition plain_type :: "u64 \<Rightarrow> bool" where
  "plain_type t \<longleftrightarrow> t \<in> {osUntypedObject, osEndpointObject, osNotificationObject, osCapTableObject}"

lemma create_plain:
  "plain_type t \<Longrightarrow> create_object junk t base us dev s = Inr (new_cap t junk base us dev, s)"
  by (auto simp: plain_type_def create_object_def)

lemma size_plain: "plain_type t \<Longrightarrow> \<exists>b. get_object_size t us = Inr b"
  by (auto simp: plain_type_def get_object_size_def)

text \<open>Writing capabilities into a list of distinct existing slots.\<close>

lemma insert_caps:
  assumes "\<forall>i\<in>set is. slot i \<in> dom (cte_heap s)" and "inj_on slot (set is)" and "distinct is"
  shows "\<exists>h. fold_ok (\<lambda>i s. insert_new_cap parent (slot i) (cap i) s) is s = Inr (s\<lparr>cte_heap := h\<rparr>)
    \<and> (\<forall>i\<in>set is. h (slot i) = map_option (\<lambda>c. c\<lparr>cte_cap := cap i\<rparr>) (cte_heap s (slot i)))
    \<and> (\<forall>p. p \<notin> slot ` set is \<longrightarrow> h p = cte_heap s p)"
  using assms
proof (induction "is" arbitrary: s)
  case Nil
  then show ?case by (intro exI [of _ "cte_heap s"]) simp
next
  case (Cons i "is")
  obtain c where c: "cte_heap s (slot i) = Some c" using Cons.prems(1) by auto
  let ?s = "s\<lparr>cte_heap := (cte_heap s)(slot i \<mapsto> c\<lparr>cte_cap := cap i\<rparr>)\<rparr>"
  have step: "insert_new_cap parent (slot i) (cap i) s = Inr ?s"
    using c by (simp add: insert_new_cap_def mod_cte_Some)
  have other: "j \<in> set is \<Longrightarrow> slot j \<noteq> slot i" for j
    using Cons.prems(2,3) by (auto simp: inj_on_def)
  have "\<forall>j\<in>set is. slot j \<in> dom (cte_heap ?s)" using Cons.prems(1) by auto
  moreover have "inj_on slot (set is)" "distinct is" using Cons.prems(2,3) by auto
  ultimately obtain h where h: "fold_ok (\<lambda>i s. insert_new_cap parent (slot i) (cap i) s) is ?s
        = Inr (?s\<lparr>cte_heap := h\<rparr>)"
      "\<forall>j\<in>set is. h (slot j) = map_option (\<lambda>c. c\<lparr>cte_cap := cap j\<rparr>) (cte_heap ?s (slot j))"
      "\<forall>p. p \<notin> slot ` set is \<longrightarrow> h p = cte_heap ?s p"
    using Cons.IH [of ?s] by blast
  have "slot i \<notin> slot ` set is" using other by force
  then have "h (slot i) = Some (c\<lparr>cte_cap := cap i\<rparr>)" using h(3) by simp
  with h step c other show ?case by (intro exI [of _ h]) auto
qed

lemma slot_at_inj:
  assumes "n \<le> 2 ^ 58"
  shows "inj_on (\<lambda>i. slot_at base (off + of_nat i)) {0..<n}"
proof (rule inj_onI)
  fix i j assume ij: "i \<in> {0..<n}" "j \<in> {0..<n}"
    and eq: "slot_at base (off + of_nat i) = slot_at base (off + of_nat j)"
  from eq have "(of_nat (i * 40) :: u64) = of_nat (j * 40)"
    by (simp add: slot_at_def sizeof_Cte_def algebra_simps)
  moreover have "i * 40 < 2 ^ LENGTH(64)" "j * 40 < 2 ^ LENGTH(64)" using ij assms by simp_all
  ultimately have "i * 40 = j * 40"
    unfolding word_of_nat_eq_iff by (simp only: take_bit_nat_eq_self)
  then show "i = j" by simp
qed

lemma create_plain_batch:
  assumes "plain_type t" and size: "get_object_size t us = Inr bits"
    and slots: "\<forall>i<unat n. slot_at dest (off + of_nat i) \<in> dom (cte_heap s)" and "unat n \<le> 2 ^ 58"
  shows "\<exists>h. create_new_objects junk t parent dest off n base us dev s = Inr (s\<lparr>cte_heap := h\<rparr>)
    \<and> (\<forall>i<unat n. h (slot_at dest (off + of_nat i)) = map_option
          (\<lambda>c. c\<lparr>cte_cap := new_cap t (junk i) (object_at base bits (of_nat i)) us dev\<rparr>)
          (cte_heap s (slot_at dest (off + of_nat i))))
    \<and> (\<forall>p. p \<notin> (\<lambda>i. slot_at dest (off + of_nat i)) ` {0..<unat n} \<longrightarrow> h p = cte_heap s p)"
proof -
  have "create_new_objects junk t parent dest off n base us dev s
      = fold_ok (\<lambda>i s. insert_new_cap parent (slot_at dest (off + of_nat i))
          (new_cap t (junk i) (object_at base bits (of_nat i)) us dev) s) [0..<unat n] s"
    using size by (simp add: create_new_objects_def create_plain [OF assms(1)] del: new_cap.simps)
  moreover obtain h where "fold_ok (\<lambda>i s. insert_new_cap parent (slot_at dest (off + of_nat i))
          (new_cap t (junk i) (object_at base bits (of_nat i)) us dev) s) [0..<unat n] s
        = Inr (s\<lparr>cte_heap := h\<rparr>)"
      "\<forall>i\<in>set [0..<unat n]. h (slot_at dest (off + of_nat i)) = map_option
          (\<lambda>c. c\<lparr>cte_cap := new_cap t (junk i) (object_at base bits (of_nat i)) us dev\<rparr>)
          (cte_heap s (slot_at dest (off + of_nat i)))"
      "\<forall>p. p \<notin> (\<lambda>i. slot_at dest (off + of_nat i)) ` set [0..<unat n] \<longrightarrow> h p = cte_heap s p"
    using insert_caps [of "[0..<unat n]" "\<lambda>i. slot_at dest (off + of_nat i)" s parent
      "\<lambda>i. new_cap t (junk i) (object_at base bits (of_nat i)) us dev"]
      slots slot_at_inj [OF assms(4), of dest off] by (auto simp del: new_cap.simps)
  ultimately show ?thesis by (intro exI [of _ h]) (simp del: new_cap.simps)
qed

end
