(* ===== verification/SpaceProps.thy ===== *)
theory SpaceProps
  imports Objects Fixtures
begin

text \<open>
  Properties of capabilities, capability spaces and object creation (\<open>src/kernel/cspace.c\<close>,
  \<open>src/object/cnode.c\<close>, \<open>src/object/objecttype.c\<close>, \<open>src/object/untyped.c\<close>).
\<close>

lemma slots_at_heap [simp]: "cte_heap (slots_at ps) p = (if p \<in> set ps then Some blank_cte else None)"
  by (simp add: slots_at_def)

lemma slots_at_dom [simp]: "dom (cte_heap (slots_at ps)) = set ps"
  by (auto simp: slots_at_def split: if_splits)

subsection \<open>Capability layouts\<close>

text \<open>The typed views of a capability are faithful: an endpoint, untyped, notification or CNode
  capability stored into the three words of a \<open>Cap\<close> is read back field for field, and an
  endpoint view written back leaves every bit of the words as it was.\<close>

theorem cap_views_roundtrip:
  "EndpointCap_of_Cap (Cap_of_EndpointCap w2 e) = e
   \<and> UntypedCap_of_Cap (Cap_of_UntypedCap w2 u) = u
   \<and> NotificationCap_of_Cap (Cap_of_NotificationCap w2 n) = n
   \<and> CNodeCap_of_Cap (Cap_of_CNodeCap w2 c) = c
   \<and> Cap_of_EndpointCap (cap_w2 k) (EndpointCap_of_Cap k) = k"
  by (simp add: Cap_of_EndpointCap_inverse)

text \<open>Where the generic \<open>Cap\<close> has its \<open>capType\<close>, the typed capabilities have bits of their pointer.\<close>

lemma get_bits_put_shift:
  fixes v :: "'c::len word"
  assumes "a \<le> b" and "b + LENGTH('b::len) \<le> LENGTH('a::len)"
  shows "(get_bits b (put_bits a v :: 'a word) :: 'b word) = get_bits (b - a) v"
  using assms by (intro bit_word_eqI) (auto simp: bit_simps)

lemma generic_type_of_typed:
  "Cap_capType (Cap_of_EndpointCap w2 e) = get_bits 32 (capEPPtr e)"
  "Cap_capType (Cap_of_NotificationCap w2 n) = get_bits 32 (capNtfnPtr n)"
  "Cap_capType (Cap_of_UntypedCap w2 u) = get_bits 32 (capPtr u)"
  "Cap_capType (Cap_of_CNodeCap w2 c) = get_bits 31 (capCNodePtr c)"
  by (simp_all add: cap_view_defs layout_simps get_bits_put_shift)

lemma kernel_bits:
  assumes "KERNBASE \<le> p"
  shows "(get_bits 32 (ucast p :: 48 word) :: 5 word) = 31"
    and "(get_bits 31 (ucast p :: 47 word) :: 5 word) = 31"
proof -
  have eq31: "(31 :: 5 word) = mask 5" by (simp add: mask_eq_exp_minus_1)
  show "(get_bits 32 (ucast p :: 48 word) :: 5 word) = 31"
    unfolding eq31 using kernel_upper_bits [OF assms]
    by (intro bit_word_eqI) (auto simp: bit_simps)
  show "(get_bits 31 (ucast p :: 47 word) :: 5 word) = 31"
    unfolding eq31 using kernel_upper_bits [OF assms]
    by (intro bit_word_eqI) (auto simp: bit_simps)
qed

text \<open>The generic \<open>capType\<close> of a created object's capability is not its type. For any object in
  the kernel's address range, \<open>cap.capType\<close> of the \<open>Cap\<close> that \<open>create_object\<close> returns reads five
  bits of the object's address and is 31, whatever the object is, although the typed view holds
  the right tag; 31 is the tag of no capability type the kernel tests for.\<close>

theorem created_cap_generic_type:
  assumes "plain_type t" and "KERNBASE \<le> base"
    and "create_object junk t base us dev s = Inr (cap, s')"
  shows "Cap_capType cap = 31"
  using assms kernel_bits [OF assms(2)]
  by (auto simp: plain_type_def create_object_def new_endpoint_cap_def new_notification_cap_def
      new_cnode_cap_def new_untyped_cap_def Let_def generic_type_of_typed)

theorem created_cap_generic_type_witness:
  "\<exists>cap. create_object \<lparr>cap_w0 = 0, cap_w1 = 0, cap_w2 = 0\<rparr> osEndpointObject 0xFFFFFFFF80200000 0
      False blank_state = Inr (cap, blank_state) \<and> Cap_capType cap = 31
    \<and> ep_capType (EndpointCap_of_Cap cap) = tag_field cap_endpoint_cap"
  using created_cap_generic_type [of osEndpointObject "0xFFFFFFFF80200000"
      "\<lparr>cap_w0 = 0, cap_w1 = 0, cap_w2 = 0\<rparr>" 0 False blank_state]
  by (auto simp: plain_type_def KERNBASE_def create_object_def new_endpoint_cap_def Let_def)

subsection \<open>Lookup\<close>

text \<open>C39: Slot lookup for CNode operations decides correctly although \<open>resolve_address_bits\<close> leaves
  its status uninitialised on failure: whatever value that status has, the lookup succeeds exactly
  for a CNode root, a depth between 1 and 64 and a guard and radix that fit the depth, and then
  leaves the state alone; every other case returns a system call error with no slot, with the
  error kind and the depth range recorded, and the source flag for failed lookups.\<close>

theorem lookup_for_cnode_op_classified:
  fixes root :: Cap and depth :: u64
  defines "fits \<equiv> ucast (capCNodeRadix (CNodeCap_of_Cap root))
      + ucast (capCNodeGuardSize (CNodeCap_of_Cap root)) \<le> depth"
  shows "\<exists>r s'. lookup_slot_for_cnode_op u src root p depth s = (r, s') \<and>
    (if Cap_capType root = tag_field cap_cnode_cap \<and> 1 \<le> depth \<and> depth \<le> 64 \<and> fits
     then lus_status r = EXCEPTION_NONE \<and> s' = s
       \<and> lus_slot r = ucast (push_bit 1 (capCNodePtr (CNodeCap_of_Cap root))) + p * sizeof_Cte
     else lus_status r = EXCEPTION_SYSCALL_ERROR \<and> lus_slot r = 0
       \<and> (if Cap_capType root = tag_field cap_cnode_cap \<and> \<not> (1 \<le> depth \<and> depth \<le> 64)
          then seType (currentSyscallError s') = OsRangeError
            \<and> rangeErrorMin (currentSyscallError s') = 1
            \<and> rangeErrorMax (currentSyscallError s') = 64
          else seType (currentSyscallError s') = OsFailedLookup
            \<and> failedLookupWasSource (currentSyscallError s') = src))"
proof -
  have range: "depth < 1 \<or> depth > of_nat wordBits \<longleftrightarrow> \<not> (1 \<le> depth \<and> depth \<le> 64)"
    by (simp only: wordBits_def of_nat_numeral linorder_not_less [symmetric]) blast
  show ?thesis
    unfolding lookup_slot_for_cnode_op_def range fits_def
    by (simp add: resolve_address_bits_def exception_defs Let_def linorder_not_less) auto
qed

theorem lookup_for_cnode_op_classified_witness:
  "let node = \<lparr>cap_w0 = 0, cap_w1 = 0xA000000000000, cap_w2 = 0\<rparr>;
       good = lookup_slot_for_cnode_op 7 True node 1 64 blank_state;
       bad = lookup_slot_for_cnode_op 7 True node 1 65 blank_state
   in lus_slot (fst good) = 0xA00000028 \<and> snd good = blank_state
    \<and> lus_slot (fst bad) = 0 \<and> seType (currentSyscallError (snd bad)) = OsRangeError"
proof -
  let ?node = "\<lparr>cap_w0 = 0, cap_w1 = 0xA000000000000, cap_w2 = 0\<rparr>"
  have node: "Cap_capType ?node = tag_field cap_cnode_cap"
      "CNodeCap_of_Cap ?node = \<lparr>capCNodeGuard = 0, cnode_capType = 0, capCNodeGuardSize = 0,
         capCNodeRadix = 0, capCNodePtr = 0x500000000\<rparr>"
    by code_simp+
  show ?thesis
    using lookup_for_cnode_op_classified [of 7 True ?node 1 64 blank_state]
      lookup_for_cnode_op_classified [of 7 True ?node 1 65 blank_state]
    unfolding node by (auto simp: sizeof_Cte_def)
qed

text \<open>A CNode capability made for a kernel address cannot be used in a CNode operation: the root
  test reads the generic \<open>capType\<close>, which is 31 for it, so the lookup of any slot in it fails as a
  lookup in an invalid root.\<close>

theorem created_cnode_rejected:
  assumes "KERNBASE \<le> base"
  shows "lookup_slot_for_cnode_op u src (new_cnode_cap junk base us) p depth s =
    (\<lparr>lus_status = EXCEPTION_SYSCALL_ERROR, lus_slot = 0\<rparr>,
     s\<lparr>currentSyscallError := (currentSyscallError s)\<lparr>
         seType := OsFailedLookup, failedLookupWasSource := src\<rparr>,
       currentLookupFault := (currentLookupFault s)\<lparr>lufType := invalidRoot\<rparr>\<rparr>)"
proof -
  have "Cap_capType (new_cnode_cap junk base us) \<noteq> tag_field cap_cnode_cap"
    using kernel_bits(2) [OF assms]
    by (simp add: new_cnode_cap_def Let_def generic_type_of_typed tag_field_def)
  then show ?thesis by (simp add: lookup_slot_for_cnode_op_def)
qed

theorem created_cnode_rejected_witness:
  "lus_status (fst (lookup_slot_for_cnode_op EXCEPTION_NONE True
      (new_cnode_cap \<lparr>cap_w0 = 0, cap_w1 = 0, cap_w2 = 0\<rparr> 0xFFFFFFFF80300000 0) 0 64 blank_state))
    = EXCEPTION_SYSCALL_ERROR"
  by (subst created_cnode_rejected) (simp_all add: KERNBASE_def)

text \<open>The slot a thread's capability pointer names: when the root slot of the thread holds a CNode
  capability created for half the (even) address of a table in the upper half of the address
  space, as the boot code creates it, \<open>lookup_slot\<close> finds the byte at that offset of the table,
  so that \<open>lookup_cap\<close> with a clean status returns the capability of the slot there.\<close>

theorem lookup_cap_in_boot_cnode:
  assumes root: "cte_heap s (TCB_PTR_CTE_PTR t (cnode_index tcbCTable)) = Some c"
      "cte_cap c = new_cnode_cap junk (drop_bit 1 base) us"
    and base: "base AND 0xFFFF800000000000 = 0xFFFF800000000000" "\<not> bit base 0"
    and slot: "cte_heap s (base + p) = Some d"
  shows "lookup_slot u t p s = Inr \<lparr>lus_status = u, lus_slot = base + p\<rparr>
    \<and> lookup_cap EXCEPTION_NONE uc t p s = Inr \<lparr>luc_status = EXCEPTION_NONE, luc_cap = cte_cap d\<rparr>"
proof -
  have ptr: "capCNodePtr (CNodeCap_of_Cap (cte_cap c)) = ucast (drop_bit 1 base)"
    by (simp add: root(2) new_cnode_cap_def Let_def)
  have "lookup_slot u t p s = Inr \<lparr>lus_status = u, lus_slot = base + p\<rparr>" for u
    unfolding lookup_slot_cte [OF root(1)] ptr cnode_ptr_roundtrip [OF base] ..
  with slot show ?thesis by (simp add: lookup_cap_def get_cte_def)
qed

theorem lookup_cap_in_boot_cnode_witness:
  "let root = blank_cte\<lparr>cte_cap := new_cnode_cap \<lparr>cap_w0 = 0, cap_w1 = 0, cap_w2 = 0\<rparr>
                 (drop_bit 1 0xFFFFFFFF80300000) 0\<rparr>;
       s = blank_state\<lparr>cte_heap := [0xFFFFFFFF80200000 \<mapsto> root, 0xFFFFFFFF80300028 \<mapsto> blank_cte]\<rparr>
   in lookup_cap EXCEPTION_NONE (cte_cap blank_cte) 0xFFFFFFFF80200400 0x28 s
      = Inr \<lparr>luc_status = EXCEPTION_NONE, luc_cap = cte_cap blank_cte\<rparr>"
  using lookup_cap_in_boot_cnode [of _ "0xFFFFFFFF80200400" _ "\<lparr>cap_w0 = 0, cap_w1 = 0, cap_w2 = 0\<rparr>"
      "0xFFFFFFFF80300000" 0 "0x28" blank_cte EXCEPTION_NONE "cte_cap blank_cte"]
  by (simp add: Let_def TCB_PTR_CTE_PTR_def mask_eq_exp_minus_1)

text \<open>A slot that \<open>get_receive_slots\<close> hands out exists and is free by the kernel's test (its
  generic capability type is null), and no capability is written by the search.\<close>

theorem receive_slot_is_free:
  assumes "get_receive_slots u uc u' t buf s = Inr (slot, s')" and "slot \<noteq> 0"
  shows "\<exists>c. cte_heap s' slot = Some c \<and> Cap_capType (cte_cap c) = tag_field cap_null_cap
    \<and> cte_heap s' = cte_heap s"
proof -
  have same: "cte_heap (snd (lookup_slot_for_cnode_op u' src root p d s)) = cte_heap s" for src root p d
    by (simp add: lookup_slot_for_cnode_op_def Let_def)
  show ?thesis
    using assms
    by (auto simp: get_receive_slots_def bind_ok_Inr_iff lookup_target_slot_def get_cte_def
        read_at_Inr_iff Let_def split: if_splits prod.splits)
      (metis same snd_conv)+
qed

definition receive_state :: kstate where
  "receive_state =
     blank_state\<lparr>cte_heap :=
       [0xFFFFFFFF80200000 \<mapsto> blank_cte\<lparr>cte_cap := new_cnode_cap
            \<lparr>cap_w0 = 0, cap_w1 = 0, cap_w2 = 0\<rparr> (drop_bit 1 0xFFFFFFFF80300000) 0\<rparr>,
        0xFFFFFFFF80300000 \<mapsto> blank_cte\<lparr>cte_cap :=
            \<lparr>cap_w0 = 0, cap_w1 = 0xA000000000000, cap_w2 = 0\<rparr>\<rparr>,
        0xA00000028 \<mapsto> blank_cte],
      word_heap := [0x103E8 \<mapsto> 0, 0x103F0 \<mapsto> 1, 0x103F8 \<mapsto> 64]\<rparr>"

theorem receive_slot_is_free_witness:
  "let r = get_receive_slots EXCEPTION_NONE (cte_cap blank_cte) EXCEPTION_NONE 0xFFFFFFFF80200400
             0x10000 receive_state
   in r = Inr (0xA00000028, receive_state)
    \<and> (\<exists>c. cte_heap receive_state 0xA00000028 = Some c
         \<and> Cap_capType (cte_cap c) = tag_field cap_null_cap)"
proof -
  let ?node = "\<lparr>cap_w0 = 0, cap_w1 = 0xA000000000000, cap_w2 = 0\<rparr>"
  have "lookup_cap EXCEPTION_NONE (cte_cap blank_cte) 0xFFFFFFFF80200400 0 receive_state
      = Inr \<lparr>luc_status = EXCEPTION_NONE,
             luc_cap = ?node\<rparr>" by code_simp
  moreover have "load_cap_transfer 0x10000 receive_state
      = Inr \<lparr>ctReceiveRoot = 0, ctReceiveIndex = 1, ctReceiveDepth = 64\<rparr>" by code_simp
  moreover have node: "Cap_capType ?node = tag_field cap_cnode_cap"
      "CNodeCap_of_Cap ?node = \<lparr>capCNodeGuard = 0, cnode_capType = 0, capCNodeGuardSize = 0,
         capCNodeRadix = 0, capCNodePtr = 0x500000000\<rparr>"
    by code_simp+
  then have "lookup_target_slot EXCEPTION_NONE ?node 1 64 receive_state
      = (\<lparr>lus_status = EXCEPTION_NONE, lus_slot = 0xA00000028\<rparr>, receive_state)"
    by (simp add: lookup_target_slot_def lookup_slot_for_cnode_op_def resolve_address_bits_def
        sizeof_Cte_def Let_def)
  ultimately have r: "get_receive_slots EXCEPTION_NONE (cte_cap blank_cte) EXCEPTION_NONE
      0xFFFFFFFF80200400 0x10000 receive_state = Inr (0xA00000028, receive_state)"
    by (simp add: get_receive_slots_def get_cte_def receive_state_def blank_cte_def Cap_capType_def
        get_bits_def tag_field_def)
  from receive_slot_is_free [OF r] show ?thesis by (simp add: r)
qed

subsection \<open>Writing slots\<close>


lemma mdb_rep_slots_at:
  "p \<in> set ps \<Longrightarrow> p \<noteq> 0 \<Longrightarrow> p < 2 ^ 46 \<Longrightarrow> mdb_rep (slots_at ps) [p]"
  by (auto simp: mdb_rep_def mdb_next_def mdb_prev_def fixture_defs)


text \<open>Slots in the kernel's own address range break that list: the link field keeps only 46 bits of
  an address, so after one insertion behind a fresh source slot the second insertion behind the
  same source follows the truncated address and faults on it.\<close>

theorem cte_insert_truncated_link:
  assumes "cte_heap s src = Some c" and "mdbNext (cteMdbNode c) = 0"
    and "cte_heap s d1 = Some x1" and "cte_heap s d2 = Some x2"
    and "src \<noteq> d1" and "src \<noteq> d2" and "d1 \<noteq> d2"
    and "take_bit 46 d1 \<noteq> 0" and "cte_heap s (take_bit 46 d1) = None"
  shows "bind_ok (cte_insert cap1 src d1 s) (cte_insert cap2 src d2) = Inl (BadPtr (take_bit 46 d1))"
  using assms by (rule cte_insert_second_faults)

theorem cte_insert_truncated_link_witness:
  "bind_ok (cte_insert (cte_cap blank_cte) 0xFFFFFFFF80200000 0xFFFFFFFF80300000
      (slots_at [0xFFFFFFFF80200000, 0xFFFFFFFF80300000, 0xFFFFFFFF80300028]))
      (cte_insert (cte_cap blank_cte) 0xFFFFFFFF80200000 0xFFFFFFFF80300028)
    = Inl (BadPtr 0x3FFF80300000)"
proof -
  have trunc: "take_bit 46 (0xFFFFFFFF80300000 :: u64) = 0x3FFF80300000" by simp
  show ?thesis
    using cte_insert_truncated_link [of "slots_at [0xFFFFFFFF80200000, 0xFFFFFFFF80300000,
        0xFFFFFFFF80300028]" "0xFFFFFFFF80200000" blank_cte "0xFFFFFFFF80300000" blank_cte
        "0xFFFFFFFF80300028" blank_cte "cte_cap blank_cte" "cte_cap blank_cte"]
    unfolding trunc by (simp add: blank_cte_def)
qed

subsection \<open>Creating objects\<close>

text \<open>C28: A batch of new objects fills exactly its slots: for endpoints, notifications, capability
  tables and untyped memory, \<open>create_new_objects\<close> never fails when the destination slots exist;
  slot \<open>destOffset + i\<close> then holds the capability of the \<open>i\<close>th object, its list links unchanged,
  and every other slot and the rest of the state are as before.\<close>

theorem create_new_objects_fills_slots:
  assumes "plain_type t" and "get_object_size t us = Inr bits"
    and "\<forall>i<unat n. slot_at dest (off + of_nat i) \<in> dom (cte_heap s)" and "unat n \<le> 2 ^ 58"
  shows "\<exists>h. create_new_objects junk t parent dest off n base us dev s = Inr (s\<lparr>cte_heap := h\<rparr>)
    \<and> (\<forall>i<unat n. h (slot_at dest (off + of_nat i)) = map_option
          (\<lambda>c. c\<lparr>cte_cap := new_cap t (junk i) (object_at base bits (of_nat i)) us dev\<rparr>)
          (cte_heap s (slot_at dest (off + of_nat i))))
    \<and> (\<forall>p. p \<notin> (\<lambda>i. slot_at dest (off + of_nat i)) ` {0..<unat n} \<longrightarrow> h p = cte_heap s p)"
  using assms by (rule create_plain_batch)

theorem create_new_objects_fills_slots_witness:
  "\<exists>h. create_new_objects (\<lambda>_. cte_cap blank_cte) osEndpointObject 0 0x1000 1 2 0xFFFFFFFF80200000 0
      False (slots_at [0x1000, 0x1028, 0x1050]) = Inr ((slots_at [0x1000, 0x1028, 0x1050])\<lparr>cte_heap := h\<rparr>)
    \<and> h 0x1050 = Some (blank_cte\<lparr>cte_cap :=
        new_cap osEndpointObject (cte_cap blank_cte) 0xFFFFFFFF80200010 0 False\<rparr>)
    \<and> h 0x1000 = Some blank_cte"
proof -
  let ?s = "slots_at [0x1000, 0x1028, 0x1050]"
  have n2: "unat (2 :: u64) = 2" by simp
  have upto: "(\<forall>i<(2::nat). P i) \<longleftrightarrow> P 0 \<and> P 1" for P
    by (auto simp: numeral_2_eq_2 less_Suc_eq)
  have "\<forall>i<unat (2 :: u64). slot_at 0x1000 (1 + of_nat i) \<in> dom (cte_heap ?s)"
    unfolding n2 upto by (simp add: slot_at_def sizeof_Cte_def)
  then obtain h where h: "create_new_objects (\<lambda>_. cte_cap blank_cte) osEndpointObject 0 0x1000 1 2
        0xFFFFFFFF80200000 0 False ?s = Inr (?s\<lparr>cte_heap := h\<rparr>)"
      "\<forall>i<unat (2 :: u64). h (slot_at 0x1000 (1 + of_nat i)) = map_option
          (\<lambda>c. c\<lparr>cte_cap := new_cap osEndpointObject (cte_cap blank_cte)
             (object_at 0xFFFFFFFF80200000 4 (of_nat i)) 0 False\<rparr>)
          (cte_heap ?s (slot_at 0x1000 (1 + of_nat i)))"
      "\<forall>p. p \<notin> (\<lambda>i. slot_at 0x1000 (1 + of_nat i)) ` {0..<unat (2 :: u64)} \<longrightarrow> h p = cte_heap ?s p"
    using create_new_objects_fills_slots [of osEndpointObject 0 4 2 "0x1000" 1 ?s
        "\<lambda>_. cte_cap blank_cte" 0 "0xFFFFFFFF80200000" False]
    by (auto simp: plain_type_def get_object_size_def simp del: new_cap.simps)
  have "{0..<unat (2 :: u64)} = {0, 1}" unfolding n2 by auto
  with h(3) have "h 0x1000 = cte_heap ?s 0x1000" by (simp add: slot_at_def sizeof_Cte_def)
  with h(1) h(2) [unfolded n2 upto] show ?thesis
    by (intro exI [of _ h]) (simp add: slot_at_def sizeof_Cte_def object_at_def del: new_cap.simps)
qed

lemma object_at_address:
  fixes n :: u64
  assumes "unat bits < 64" and "unat base + unat n * 2 ^ unat bits \<le> 2 ^ 64" and "i < unat n"
  shows "unat (object_at base bits (of_nat i)) = unat base + i * 2 ^ unat bits"
proof -
  have "i * 2 ^ unat bits < unat n * 2 ^ unat bits" using assms(3) by simp
  with assms(2) have "unat base + i * 2 ^ unat bits < 2 ^ 64" by linarith
  then have bound: "unat base + i * 2 ^ unat bits < 2 ^ LENGTH(64)" by simp
  have take6: "unat (take_bit 6 bits) = unat bits"
    using assms(1) by (simp add: unsigned_take_bit_eq take_bit_nat_eq_self)
  have "object_at base bits (of_nat i) = of_nat (unat base + i * 2 ^ unat bits)"
    unfolding object_at_def take6 push_bit_eq_mult by simp
  then show ?thesis using bound by (simp only: unat_of_nat mod_less)
qed

text \<open>The objects of a batch do not overlap: when the batch fits below the end of the address
  space, the \<open>i\<close>th object starts at the base plus \<open>i\<close> object sizes without wrap-around, so every
  object lies in the region given and two different ones are at least an object size apart.\<close>

theorem batch_objects_disjoint:
  fixes n :: u64
  assumes "get_object_size t us = Inr bits" and "unat bits < 64"
    and "unat base + unat n * 2 ^ unat bits \<le> 2 ^ 64" and "i < unat n" and "j < unat n"
  defines "addr k \<equiv> unat (object_at base bits (of_nat k))"
  shows "unat base \<le> addr i \<and> addr i + 2 ^ unat bits \<le> unat base + unat n * 2 ^ unat bits
    \<and> (i \<noteq> j \<longrightarrow> {addr i..<addr i + 2 ^ unat bits} \<inter> {addr j..<addr j + 2 ^ unat bits} = {})"
proof -
  have addr: "addr i = unat base + i * 2 ^ unat bits" "addr j = unat base + j * 2 ^ unat bits"
    unfolding addr_def using object_at_address assms(2-5) by blast+
  have step: "a < b \<Longrightarrow> a * 2 ^ unat bits + 2 ^ unat bits \<le> b * 2 ^ unat bits" for a b :: nat
    using mult_le_mono1 [of "Suc a" b "2 ^ unat bits"] by simp
  have "i < j \<or> j < i \<or> i = j" by arith
  then show ?thesis
    using step [of i "unat n"] step [of i j] step [of j i] assms(4) unfolding addr by auto
qed

theorem batch_objects_disjoint_witness:
  "unat (object_at 0xFFFFFFFF80200000 4 1) + 16 \<le> unat (0xFFFFFFFF80200000 :: u64) + 32
   \<and> {unat (object_at 0xFFFFFFFF80200000 4 0)..<unat (object_at 0xFFFFFFFF80200000 4 0) + 16}
     \<inter> {unat (object_at 0xFFFFFFFF80200000 4 1)..<unat (object_at 0xFFFFFFFF80200000 4 1) + 16} = {}"
  using batch_objects_disjoint [of osEndpointObject 0 4 "0xFFFFFFFF80200000" 2 1 0]
  by (simp add: get_object_size_def Int_commute)

text \<open>A retype of untyped memory succeeds whenever its slots exist: it fills the destination slots
  with the new objects' capabilities, and its own bookkeeping is to set the free index of the
  untyped capability to zero and keep its pointer, size, device flag and list links. The free index
  does not record how much memory the objects took, so a later retype may hand it out again.\<close>

theorem retype_keeps_no_account:
  assumes t: "plain_type t" and size: "get_object_size t us = Inr bits"
    and src: "cte_heap s src = Some c"
    and slots: "\<forall>i<unat n. slot_at dest (off + of_nat i) \<in> dom (cte_heap s)" and n: "unat n \<le> 2 ^ 58"
    and apart: "src \<notin> (\<lambda>i. slot_at dest (off + of_nat i)) ` {0..<unat n}"
  shows "\<exists>h c'. invoke_untyped_retype junk0 junk src reset base t us dest off n dev s
      = Inr (EXCEPTION_NONE, s\<lparr>cte_heap := h\<rparr>)
    \<and> h src = Some c' \<and> cteMdbNode c' = cteMdbNode c
    \<and> UntypedCap_of_Cap (cte_cap c') = (UntypedCap_of_Cap (cte_cap c))\<lparr>capFreeIndex := 0\<rparr>
    \<and> (\<forall>i<unat n. \<exists>d. h (slot_at dest (off + of_nat i)) = Some d
          \<and> cte_cap d = new_cap t (junk i) (object_at base bits (of_nat i)) us dev)
    \<and> (\<forall>p. p \<noteq> src \<longrightarrow> p \<notin> (\<lambda>i. slot_at dest (off + of_nat i)) ` {0..<unat n} \<longrightarrow> h p = cte_heap s p)"
proof -
  let ?c = "c\<lparr>cte_cap := Cap_of_UntypedCap (cap_w2 junk0)
      ((UntypedCap_of_Cap (cte_cap c))\<lparr>capFreeIndex := 0\<rparr>)\<rparr>"
  let ?s = "s\<lparr>cte_heap := (cte_heap s)(src \<mapsto> ?c)\<rparr>"
  have "\<forall>i<unat n. slot_at dest (off + of_nat i) \<in> dom (cte_heap ?s)" using slots by auto
  then obtain h where h: "create_new_objects junk t src dest off n base us dev ?s
        = Inr (?s\<lparr>cte_heap := h\<rparr>)"
      "\<forall>i<unat n. h (slot_at dest (off + of_nat i)) = map_option
          (\<lambda>c. c\<lparr>cte_cap := new_cap t (junk i) (object_at base bits (of_nat i)) us dev\<rparr>)
          (cte_heap ?s (slot_at dest (off + of_nat i)))"
      "\<forall>p. p \<notin> (\<lambda>i. slot_at dest (off + of_nat i)) ` {0..<unat n} \<longrightarrow> h p = cte_heap ?s p"
    using create_plain_batch [OF t size _ n, of dest off ?s junk src base dev] by blast
  have "invoke_untyped_retype junk0 junk src reset base t us dest off n dev s
      = Inr (EXCEPTION_NONE, s\<lparr>cte_heap := h\<rparr>)"
    using src size h(1) by (simp add: invoke_untyped_retype_def get_cte_def mod_cte_Some Let_def)
  moreover have "\<exists>d. h (slot_at dest (off + of_nat i)) = Some d
      \<and> cte_cap d = new_cap t (junk i) (object_at base bits (of_nat i)) us dev" if i: "i < unat n" for i
  proof -
    obtain x where "cte_heap ?s (slot_at dest (off + of_nat i)) = Some x"
      using slots [rule_format, OF i] by (cases "slot_at dest (off + of_nat i) = src") auto
    with h(2) i show ?thesis by (simp del: new_cap.simps)
  qed
  ultimately show ?thesis
    using h(3) apart by (intro exI [of _ h] exI [of _ ?c]) (simp del: new_cap.simps)
qed

theorem retype_keeps_no_account_witness:
  "\<exists>h c'. invoke_untyped_retype (cte_cap blank_cte) (\<lambda>_. cte_cap blank_cte) 0x2000 False
      0xFFFFFFFF80200000 osNotificationObject 0 0x1000 0 1 False (slots_at [0x1000, 0x2000])
        = Inr (EXCEPTION_NONE, (slots_at [0x1000, 0x2000])\<lparr>cte_heap := h\<rparr>)
    \<and> h 0x2000 = Some c' \<and> capFreeIndex (UntypedCap_of_Cap (cte_cap c')) = 0"
  using retype_keeps_no_account [of osNotificationObject 0 5 "slots_at [0x1000, 0x2000]" "0x2000"
      blank_cte 1 "0x1000" 0 "cte_cap blank_cte" "\<lambda>_. cte_cap blank_cte" False
      "0xFFFFFFFF80200000" False]
  by (auto simp: plain_type_def get_object_size_def slot_at_def)

end
