(* ===== verification/MsgTransfer.thy ===== *)
theory MsgTransfer
  imports CSpace Sched
begin

text \<open>
  Message transfer between threads: \<open>src/object/tcb.c\<close> (extra capabilities, message registers)
  and \<open>src/kernel/thread.c\<close> (\<open>transfer_caps\<close>, \<open>do_normal_transfer\<close>, \<open>do_ipc_transfer\<close>),
  \<open>lookup_ipc_buffer\<close> of \<open>src/arch/x86/kernel/vspace.c\<close>.

  Several functions read variables they never set, or have no return statement. The values found
  there are the fields of an \<open>Uninit\<close> record, which every operation takes as a parameter.
\<close>

record Uninit =
  un_slot_status :: "nat \<Rightarrow> Exception"  \<comment> \<open>status of the ith lookup_slot result\<close>
  un_root_status :: Exception           \<comment> \<open>status of the receive root lookup\<close>
  un_root_cap :: Cap                    \<comment> \<open>capability of a failed receive root lookup\<close>
  un_target_status :: Exception         \<comment> \<open>status of resolve_address_bits\<close>
  un_derive :: "nat \<Rightarrow> Exception \<times> Cap" \<comment> \<open>dcRet in the ith turn of transfer_caps\<close>
  un_mrs :: u64                         \<comment> \<open>value returned by copyMRs\<close>
  un_queue :: TcbQueue                  \<comment> \<open>value returned by tcb_ep_append\<close>
  un_end :: u64                         \<comment> \<open>end of the queue of ntfn_ptr_get_queue\<close>

subsection \<open>Extra capabilities\<close>

definition get_extra_cptr :: "u64 \<Rightarrow> nat \<Rightarrow> kstate \<Rightarrow> kerror + u64" where
  "get_extra_cptr bufferPtr i s = get_word s (word_addr bufferPtr (Os_MsgMaxLength + 2 + i))"

definition set_extra_badge :: "u64 \<Rightarrow> u64 \<Rightarrow> nat \<Rightarrow> kstate \<Rightarrow> kerror + kstate" where
  "set_extra_badge bufferPtr badge i s =
     mod_word (word_addr bufferPtr (Os_MsgMaxLength + 2 + i)) (\<lambda>_. badge) s"

text \<open>\<open>currentExtraCaps.excaprefs[i] = p\<close>.\<close>

definition set_excapref :: "nat \<Rightarrow> u64 \<Rightarrow> kstate \<Rightarrow> kerror + kstate" where
  "set_excapref i p s =
     (if i < length (excaprefs s) then Inr (s\<lparr>excaprefs := (excaprefs s)[i := p]\<rparr>)
      else Inl (OutOfBounds i))"

text \<open>The loop from index \<open>i\<close> on, \<open>n\<close> turns left; it returns the status and the final index.\<close>

primrec extra_caps_loop ::
    "Uninit \<Rightarrow> u64 \<Rightarrow> u64 \<Rightarrow> nat \<Rightarrow> nat \<Rightarrow> kstate \<Rightarrow> kerror + Exception \<times> nat \<times> kstate" where
  "extra_caps_loop un thread bufferPtr 0 i s = Inr (EXCEPTION_NONE, i, s)"
| "extra_caps_loop un thread bufferPtr (Suc n) i s =
     bind_ok (get_extra_cptr bufferPtr i s) (\<lambda>cptr.
     bind_ok (lookup_slot (un_slot_status un i) thread cptr s) (\<lambda>luRet.
     if lus_status luRet \<noteq> EXCEPTION_NONE then Inr (lus_status luRet, i, s) else
     bind_ok (set_excapref i (lus_slot luRet) s) (\<lambda>s.
     extra_caps_loop un thread bufferPtr n (Suc i) s)))"

definition lookup_extra_caps ::
    "Uninit \<Rightarrow> u64 \<Rightarrow> u64 \<Rightarrow> OsMessageInfo \<Rightarrow> kstate \<Rightarrow> kerror + Exception \<times> kstate" where
  "lookup_extra_caps un thread bufferPtr info s =
     (if bufferPtr = 0
      then bind_ok (set_excapref 0 0 s) (\<lambda>s. Inr (EXCEPTION_NONE, s))
      else
        bind_ok (extra_caps_loop un thread bufferPtr (unat (extraCaps info)) 0 s) (\<lambda>(status, i, s).
        if status \<noteq> EXCEPTION_NONE then Inr (status, s) else
        bind_ok (if i < Os_MsgMaxExtraCaps then set_excapref i 0 s else Inr s) (\<lambda>s.
        Inr (EXCEPTION_NONE, s))))"

subsection \<open>Message registers\<close>

definition copy_word :: "u64 \<Rightarrow> u64 \<Rightarrow> nat \<Rightarrow> kstate \<Rightarrow> kerror + kstate" where
  "copy_word sendBuf recvBuf i s =
     bind_ok (get_word s (word_addr sendBuf i)) (\<lambda>w.
     mod_word (word_addr recvBuf i) (\<lambda>_. w) s)"

text \<open>\<open>copyMRs\<close> has no return statement.\<close>

definition copyMRs ::
    "Uninit \<Rightarrow> u64 \<Rightarrow> u64 \<Rightarrow> u64 \<Rightarrow> u64 \<Rightarrow> u64 \<Rightarrow> kstate \<Rightarrow> kerror + u64 \<times> kstate" where
  "copyMRs un sender sendBuf receiver recvBuf n s =
     bind_ok (fold_ok (copy_word sendBuf recvBuf) [0..<min (unat n) Os_MsgMaxLength] s) (\<lambda>s.
     Inr (un_mrs un, s))"

definition setup_caller_cap :: "u64 \<Rightarrow> u64 \<Rightarrow> bool \<Rightarrow> kstate \<Rightarrow> kstate" where
  "setup_caller_cap sender receiver canGrant s = s"

subsection \<open>Transferring capabilities\<close>

text \<open>The loop of \<open>transfer_caps\<close> from index \<open>i\<close> on, \<open>n = Os_MsgMaxExtraCaps - i\<close> turns left.
  \<open>DeriveCapRet dcRet\<close> is read without being set.\<close>

primrec transfer_caps_loop ::
    "Uninit \<Rightarrow> u64 \<Rightarrow> u64 \<Rightarrow> nat \<Rightarrow> nat \<Rightarrow> u64 \<Rightarrow> OsMessageInfo \<Rightarrow> kstate
      \<Rightarrow> kerror + OsMessageInfo \<times> nat \<times> kstate" where
  "transfer_caps_loop un endpoint receiveBuffer 0 i destSlot info s = Inr (info, i, s)"
| "transfer_caps_loop un endpoint receiveBuffer (Suc n) i destSlot info s =
     (if \<not> i < length (excaprefs s) then Inl (OutOfBounds i) else
      let slot = excaprefs s ! i in
      if slot = 0 then Inr (info, i, s) else
      bind_ok (get_cte s slot) (\<lambda>cte.
      let cap = cte_cap cte; endpointCap = EndpointCap_of_Cap cap in
      if ep_capType endpointCap = tag_field cap_endpoint_cap
          \<and> ucast (capEPPtr endpointCap) = endpoint
      then
        bind_ok (set_extra_badge receiveBuffer (Cap_capEPBadge cap) i s) (\<lambda>s.
        let info = info\<lparr>capsUnwrapped := capsUnwrapped info OR push_bit i 1\<rparr> in
        transfer_caps_loop un endpoint receiveBuffer n (Suc i) destSlot info s)
      else
        let (dcStatus, dcCap) = un_derive un i in
        if destSlot = 0 then Inr (info, i, s)
        else if dcStatus \<noteq> EXCEPTION_NONE then Inr (info, i, s)
        else if Cap_capType dcCap \<noteq> tag_field cap_null_cap then Inr (info, i, s)
        else
          bind_ok (cte_insert dcCap slot destSlot s) (\<lambda>s.
          transfer_caps_loop un endpoint receiveBuffer n (Suc i) 0 info s)))"

definition transfer_caps ::
    "Uninit \<Rightarrow> OsMessageInfo \<Rightarrow> u64 \<Rightarrow> u64 \<Rightarrow> u64 \<Rightarrow> kstate \<Rightarrow> kerror + OsMessageInfo \<times> kstate" where
  "transfer_caps un info endpoint receiver receiveBuffer s =
     (let info = info\<lparr>extraCaps := 0, capsUnwrapped := 0\<rparr> in
      if \<not> 0 < length (excaprefs s) then Inl (OutOfBounds 0)
      else if excaprefs s ! 0 = 0 \<or> receiveBuffer = 0 then Inr (info, s)
      else
        bind_ok (get_receive_slots (un_root_status un) (un_root_cap un) (un_target_status un)
                   receiver receiveBuffer s) (\<lambda>(destSlot, s).
        bind_ok (transfer_caps_loop un endpoint receiveBuffer Os_MsgMaxExtraCaps 0 destSlot info s)
          (\<lambda>(info, i, s). Inr (info\<lparr>extraCaps := of_nat i\<rparr>, s))))"

subsection \<open>Transferring a message\<close>

definition lookup_ipc_buffer :: "bool \<Rightarrow> u64 \<Rightarrow> kstate \<Rightarrow> kerror + u64" where
  "lookup_ipc_buffer isReceiver thread s =
     bind_ok (get_tcb s thread) (\<lambda>t. Inr (tcbIPCBuffer t))"

text \<open>\<open>sendBuffer + 1\<close> and \<open>receiveBuffer + 1\<close> step over the message tag.\<close>

definition do_normal_transfer ::
    "Uninit \<Rightarrow> u64 \<Rightarrow> u64 \<Rightarrow> u64 \<Rightarrow> u64 \<Rightarrow> bool \<Rightarrow> u64 \<Rightarrow> u64 \<Rightarrow> kstate \<Rightarrow> kerror + kstate" where
  "do_normal_transfer un sender sendBuffer endpoint badge canGrant receiver receiveBuffer s =
     bind_ok (get_tcb s sender) (\<lambda>st.
     bind_ok (get_tf s (tcb_tf st)) (\<lambda>tf.
     let tag = messageinfo_from_u64 (tf_rsi tf) in
     bind_ok
       (if canGrant = False then
          bind_ok (lookup_extra_caps un sender sendBuffer tag s) (\<lambda>(status, s).
          if status \<noteq> EXCEPTION_NONE then set_excapref 0 0 s else Inr s)
        else set_excapref 0 0 s) (\<lambda>s.
     bind_ok (copyMRs un sender (word_addr sendBuffer 1) receiver (word_addr receiveBuffer 1)
                (ucast (mi_length tag)) s) (\<lambda>(msgTransferred, s).
     bind_ok (transfer_caps un tag endpoint receiver receiveBuffer s) (\<lambda>(tag, s).
     let tag = tag\<lparr>mi_length := ucast msgTransferred\<rparr> in
     bind_ok (set_register receiver msgInfoRegister (u64_from_messageinfo tag) s) (\<lambda>s.
     set_register receiver badgeRegister badge s))))))"

definition do_fault_transfer :: "u64 \<Rightarrow> u64 \<Rightarrow> u64 \<Rightarrow> u64 \<Rightarrow> kstate \<Rightarrow> kstate" where
  "do_fault_transfer badge sender receiver receiverIPCBuffer s = s"

definition do_ipc_transfer ::
    "Uninit \<Rightarrow> u64 \<Rightarrow> u64 \<Rightarrow> u64 \<Rightarrow> bool \<Rightarrow> u64 \<Rightarrow> kstate \<Rightarrow> kerror + kstate" where
  "do_ipc_transfer un sender endpoint badge grant receiver s =
     bind_ok (lookup_ipc_buffer True receiver s) (\<lambda>receiveBuffer.
     bind_ok (get_tcb s sender) (\<lambda>st.
     if osFaultType (tcbFault st) = NullFault then
       bind_ok (lookup_ipc_buffer False sender s) (\<lambda>sendBuffer.
       do_normal_transfer un sender sendBuffer endpoint badge grant receiver receiveBuffer s)
     else Inr (do_fault_transfer badge sender receiver receiveBuffer s)))"

definition do_nbRecvFailed_transfer :: "u64 \<Rightarrow> kstate \<Rightarrow> kerror + kstate" where
  "do_nbRecvFailed_transfer thread s = set_register thread badgeRegister 0 s"

subsection \<open>What copying does\<close>

definition copied :: "u64 \<Rightarrow> u64 \<Rightarrow> nat \<Rightarrow> (u64 \<rightharpoonup> u64) \<Rightarrow> (u64 \<rightharpoonup> u64)" where
  "copied sendBuf recvBuf k h =
     fold (\<lambda>i h. h(word_addr recvBuf i := h (word_addr sendBuf i))) [0..<k] h"

text \<open>\<open>words_at buf k s\<close>: the buffer at \<open>buf\<close> has \<open>k\<close> words of memory.\<close>

definition words_at :: "u64 \<Rightarrow> nat \<Rightarrow> kstate \<Rightarrow> bool" where
  "words_at buf k s \<longleftrightarrow> (\<forall>i<k. word_heap s (word_addr buf i) \<noteq> None)"

lemma copy_words:
  assumes "words_at sb k s" and "words_at rb k s"
  shows "fold_ok (copy_word sb rb) [0..<k] s = Inr (s\<lparr>word_heap := copied sb rb k (word_heap s)\<rparr>)"
proof -
  have "fold_ok (copy_word sb rb) is s = Inr (s\<lparr>word_heap :=
      fold (\<lambda>i h. h(word_addr rb i := h (word_addr sb i))) is (word_heap s)\<rparr>)"
    if "\<forall>i\<in>set is. word_heap s (word_addr sb i) \<noteq> None \<and> word_heap s (word_addr rb i) \<noteq> None"
    for "is" and s :: kstate
    using that
  proof (induction "is" arbitrary: s)
    case Nil
    then show ?case by simp
  next
    case (Cons i "is")
    then obtain v w where vw: "word_heap s (word_addr sb i) = Some v" "word_heap s (word_addr rb i) = Some w"
      by auto
    let ?s = "s\<lparr>word_heap := (word_heap s)(word_addr rb i \<mapsto> v)\<rparr>"
    have "copy_word sb rb i s = Inr ?s"
      using vw by (simp add: copy_word_def access_simps)
    moreover have "\<forall>j\<in>set is. word_heap ?s (word_addr sb j) \<noteq> None \<and> word_heap ?s (word_addr rb j) \<noteq> None"
      using Cons.prems by simp
    ultimately show ?case using Cons.IH [of ?s] vw by (simp del: fun_upd_apply)
  qed
  from this [of "[0..<k]" s] assms show ?thesis by (simp add: copied_def words_at_def)
qed

lemma copied_Suc:
  "copied sb rb (Suc k) h = (copied sb rb k h)(word_addr rb k := copied sb rb k h (word_addr sb k))"
  by (simp add: copied_def)

text \<open>Into a buffer that does not overlap its source, the copy is exact.\<close>

lemma word_addr_inj: "i < 2 ^ 61 \<Longrightarrow> j < 2 ^ 61 \<Longrightarrow> word_addr b i = word_addr b j \<longleftrightarrow> i = j"
proof
  assume ij: "i < 2 ^ 61" "j < 2 ^ 61" and "word_addr b i = word_addr b j"
  then have "(of_nat (8 * i) :: u64) = of_nat (8 * j)" by (simp add: word_addr_def)
  moreover have "8 * i < 2 ^ LENGTH(64)" "8 * j < 2 ^ LENGTH(64)" using ij by simp_all
  ultimately have "8 * i = 8 * j"
    unfolding word_of_nat_eq_iff by (simp only: take_bit_nat_eq_self)
  then show "i = j" by simp
qed simp

lemma copied_disjoint:
  assumes "\<And>i j. i < k \<Longrightarrow> j < k \<Longrightarrow> word_addr rb i \<noteq> word_addr sb j" and "k \<le> 2 ^ 60"
  shows "i < k \<Longrightarrow> copied sb rb k h (word_addr rb i) = h (word_addr sb i)"
    and "(\<And>i. i < k \<Longrightarrow> p \<noteq> word_addr rb i) \<Longrightarrow> copied sb rb k h p = h p"
proof -
  have other: "copied sb rb k h p = h p" if "\<And>i. i < k \<Longrightarrow> p \<noteq> word_addr rb i" for p k
    using that by (induction k) (simp_all add: copied_Suc, simp add: copied_def)
  then show "(\<And>i. i < k \<Longrightarrow> p \<noteq> word_addr rb i) \<Longrightarrow> copied sb rb k h p = h p" by blast
  show "i < k \<Longrightarrow> copied sb rb k h (word_addr rb i) = h (word_addr sb i)"
    using assms
  proof (induction k)
    case 0
    then show ?case by simp
  next
    case (Suc k)
    have src: "copied sb rb k h (word_addr sb k) = h (word_addr sb k)"
      using Suc.prems(2) by (intro other) (metis less_Suc_eq)
    show ?case
    proof (cases "i = k")
      case True
      with src show ?thesis by (simp add: copied_Suc)
    next
      case False
      with Suc have "copied sb rb k h (word_addr rb i) = h (word_addr sb i)" by simp
      moreover have "word_addr rb i \<noteq> word_addr rb k"
        using False Suc.prems by (subst word_addr_inj) auto
      ultimately show ?thesis by (simp add: copied_Suc)
    qed
  qed
qed

subsection \<open>A transfer without capabilities\<close>

text \<open>What a fault-free sender's message is: the tag from its trap frame.\<close>

definition sender_tag :: "Trapframe \<Rightarrow> OsMessageInfo" where
  "sender_tag tf = messageinfo_from_u64 (tf_rsi tf)"

lemma sender_tag_length: "unat (mi_length (sender_tag tf)) \<le> 120"
  using messageinfo_length_bound [of "tf_rsi tf"] by (simp add: sender_tag_def)

lemma lookup_no_extra_caps:
  assumes "extraCaps tag = 0 \<or> buf = 0" and "excaprefs s \<noteq> []"
  shows "lookup_extra_caps un t buf tag s
    = Inr (EXCEPTION_NONE, s\<lparr>excaprefs := (excaprefs s)[0 := 0]\<rparr>)"
  using assms by (auto simp: lookup_extra_caps_def set_excapref_def)

definition transferred :: "Uninit \<Rightarrow> Tcb \<Rightarrow> Trapframe \<Rightarrow> u64 \<Rightarrow> u64 \<Rightarrow> Tcb \<Rightarrow> kstate \<Rightarrow> kstate" where
  "transferred un st tf badge receiver rt s =
     s\<lparr>excaprefs := (excaprefs s)[0 := 0],
       word_heap := copied (word_addr (tcbIPCBuffer st) 1) (word_addr (tcbIPCBuffer rt) 1)
         (unat (mi_length (sender_tag tf))) (word_heap s),
       tcb_heap := (tcb_heap s)(receiver \<mapsto> rt\<lparr>registers := (registers rt)
         [msgInfoRegister := u64_from_messageinfo ((sender_tag tf)
            \<lparr>extraCaps := 0, capsUnwrapped := 0, mi_length := ucast (un_mrs un)\<rparr>),
          badgeRegister := badge]\<rparr>)\<rparr>"

lemma ipc_transfer_plain:
  assumes st: "tcb_heap s sender = Some st" "osFaultType (tcbFault st) = NullFault"
    and tf: "tf_heap s (tcb_tf st) = Some tf"
    and rt: "tcb_heap s receiver = Some rt" "2 \<le> length (registers rt)"
    and ex: "excaprefs s \<noteq> []"
    and bufs: "words_at (word_addr (tcbIPCBuffer st) 1) (unat (mi_length (sender_tag tf))) s"
      "words_at (word_addr (tcbIPCBuffer rt) 1) (unat (mi_length (sender_tag tf))) s"
    and plain: "grant \<or> extraCaps (sender_tag tf) = 0 \<or> tcbIPCBuffer st = 0"
  shows "do_ipc_transfer un sender ep badge grant receiver s
    = Inr (transferred un st tf badge receiver rt s)"
proof -
  let ?s0 = "s\<lparr>excaprefs := (excaprefs s)[0 := 0]\<rparr>"
  let ?k = "unat (mi_length (sender_tag tf))"
  let ?s1 = "?s0\<lparr>word_heap := copied (word_addr (tcbIPCBuffer st) 1) (word_addr (tcbIPCBuffer rt) 1)
         ?k (word_heap s)\<rparr>"
  have caps: "(if grant = False then
          bind_ok (lookup_extra_caps un sender (tcbIPCBuffer st) (sender_tag tf) s) (\<lambda>(status, s).
          if status \<noteq> EXCEPTION_NONE then set_excapref 0 0 s else Inr s)
        else set_excapref 0 0 s) = Inr ?s0"
    using plain ex by (auto simp: lookup_no_extra_caps set_excapref_def)
  have "min (unat (ucast (mi_length (sender_tag tf)) :: u64)) Os_MsgMaxLength = ?k"
    using sender_tag_length [of tf] by (simp add: unsigned_ucast_eq take_bit_nat_eq_self)
  moreover have "words_at (word_addr (tcbIPCBuffer st) 1) ?k ?s0"
      "words_at (word_addr (tcbIPCBuffer rt) 1) ?k ?s0"
    using bufs by (simp_all add: words_at_def)
  ultimately have copy: "copyMRs un sender (word_addr (tcbIPCBuffer st) 1) receiver
      (word_addr (tcbIPCBuffer rt) 1) (ucast (mi_length (sender_tag tf))) ?s0 = Inr (un_mrs un, ?s1)"
    by (simp only: copyMRs_def copy_words) simp
  have "transfer_caps un (sender_tag tf) ep receiver (tcbIPCBuffer rt) ?s1
      = Inr ((sender_tag tf)\<lparr>extraCaps := 0, capsUnwrapped := 0\<rparr>, ?s1)"
    using ex by (simp add: transfer_caps_def Let_def)
  moreover have "registers rt \<noteq> []" using rt(2) by auto
  ultimately show ?thesis using caps copy st tf rt
    by (simp add: do_ipc_transfer_def do_normal_transfer_def lookup_ipc_buffer_def access_simps
        sender_tag_def [symmetric] set_register_def msgInfoRegister_def badgeRegister_def
        transferred_def Let_def)
qed

subsection \<open>A transfer with capabilities\<close>

text \<open>Caps by address, which is what a capability transfer may change.\<close>

definition cap_at :: "kstate \<Rightarrow> u64 \<Rightarrow> Cap option" where
  "cap_at s p = map_option cte_cap (cte_heap s p)"

lemma cap_at_mod: "mod_cte q f s = Inr s' \<Longrightarrow> p \<noteq> q \<Longrightarrow> cap_at s' p = cap_at s p"
  by (cases "cte_heap s q") (auto simp: access_simps cap_at_def)

lemma cap_at_mdb: "mod_cte q (\<lambda>c. c\<lparr>cteMdbNode := g c\<rparr>) s = Inr s' \<Longrightarrow> cap_at s' = cap_at s"
  by (cases "cte_heap s q") (auto simp: access_simps cap_at_def fun_eq_iff)

lemma cap_at_cte_insert:
  assumes "cte_insert cap src d s = Inr s'" and "p \<noteq> d"
  shows "cap_at s' p = cap_at s p"
  using assms
  by (auto simp: cte_insert_def bind_ok_Inr_iff Let_def cap_at_mod split: if_splits
      dest!: cap_at_mdb)

lemma cap_at_word: "mod_word q f s = Inr s' \<Longrightarrow> cap_at s' = cap_at s"
  by (cases "word_heap s q") (auto simp: access_simps cap_at_def fun_eq_iff)

lemma transfer_loop_caps:
  "transfer_caps_loop un ep buf n i d info s = Inr (info', i', s') \<Longrightarrow>
    (\<forall>p. p \<noteq> d \<longrightarrow> cap_at s' p = cap_at s p) \<and> (d = 0 \<longrightarrow> cap_at s' = cap_at s)
    \<and> i \<le> i' \<and> i' \<le> i + n \<and> mi_label info' = mi_label info \<and> mi_length info' = mi_length info"
proof (induction n arbitrary: i d info s)
  case 0
  then show ?case by simp
next
  case (Suc n)
  let ?slot = "excaprefs s ! i"
  show ?case
  proof (cases "?slot = 0")
    case True
    with Suc.prems show ?thesis by (simp split: if_splits)
  next
    case False
    with Suc.prems obtain c where len: "i < length (excaprefs s)" and c: "get_cte s ?slot = Inr c"
      by (auto simp: bind_ok_Inr_iff Let_def split: if_splits)
    show ?thesis
    proof (cases "ep_capType (EndpointCap_of_Cap (cte_cap c)) = tag_field cap_endpoint_cap
        \<and> ucast (capEPPtr (EndpointCap_of_Cap (cte_cap c))) = ep")
      case True
      with Suc.prems False len c obtain s1 where s1:
          "set_extra_badge buf (Cap_capEPBadge (cte_cap c)) i s = Inr s1"
          "transfer_caps_loop un ep buf n (Suc i) d
             (info\<lparr>capsUnwrapped := capsUnwrapped info OR push_bit i 1\<rparr>) s1 = Inr (info', i', s')"
        by (auto simp: bind_ok_Inr_iff Let_def)
      from Suc.IH [OF s1(2)] cap_at_word [OF s1(1) [unfolded set_extra_badge_def]]
      show ?thesis by auto
    next
      case other: False
      obtain st dc where un: "un_derive un i = (st, dc)" by (cases "un_derive un i")
      show ?thesis
      proof (cases "d = 0 \<or> st \<noteq> EXCEPTION_NONE \<or> Cap_capType dc \<noteq> tag_field cap_null_cap")
        case True
        with Suc.prems False len c other un show ?thesis by (auto simp: Let_def split: if_splits)
      next
        case go: False
        with Suc.prems False len c other un obtain s1 where s1: "cte_insert dc ?slot d s = Inr s1"
            "transfer_caps_loop un ep buf n (Suc i) 0 info s1 = Inr (info', i', s')"
          by (auto simp: bind_ok_Inr_iff Let_def)
        from Suc.IH [OF s1(2)] cap_at_cte_insert [OF s1(1)] go show ?thesis by auto
      qed
    qed
  qed
qed

lemma receive_slots_keep:
  assumes "get_receive_slots u uc u' t buf s = Inr (d, s1)"
  shows "cap_at s1 = cap_at s"
proof -
  have same: "cap_at (snd (lookup_slot_for_cnode_op u' src root p d s)) = cap_at s" for src root p d
    by (simp add: lookup_slot_for_cnode_op_def Let_def cap_at_def fun_eq_iff)
  show ?thesis using assms
    by (auto simp: get_receive_slots_def bind_ok_Inr_iff lookup_target_slot_def Let_def
        split: if_splits prod.splits) (metis same snd_conv)+
qed

lemma transfer_caps_caps:
  assumes "transfer_caps un info ep t buf s = Inr (info', s')"
  shows "\<exists>d. (\<forall>p. p \<noteq> d \<longrightarrow> cap_at s' p = cap_at s p)
    \<and> (cap_at s' d \<noteq> cap_at s d \<longrightarrow> d \<noteq> 0
        \<and> (\<exists>c. cap_at s d = Some c \<and> Cap_capType c = tag_field cap_null_cap))
    \<and> unat (extraCaps info') \<le> Os_MsgMaxExtraCaps
    \<and> mi_label info' = mi_label info \<and> mi_length info' = mi_length info"
proof (cases "excaprefs s ! 0 = 0 \<or> buf = 0")
  case True
  with assms show ?thesis by (auto simp: transfer_caps_def Let_def split: if_splits)
next
  case False
  let ?info = "info\<lparr>extraCaps := 0, capsUnwrapped := 0\<rparr>"
  obtain d s1 info1 i where r: "get_receive_slots (un_root_status un) (un_root_cap un)
        (un_target_status un) t buf s = Inr (d, s1)"
      "transfer_caps_loop un ep buf Os_MsgMaxExtraCaps 0 d ?info s1 = Inr (info1, i, s')"
      "info' = info1\<lparr>extraCaps := of_nat i\<rparr>"
    using assms False
    by (auto simp: transfer_caps_def bind_ok_Inr_iff Let_def split: if_splits)
  note keep = receive_slots_keep [OF r(1)] and loop = transfer_loop_caps [OF r(2)]
  have "unat (extraCaps info') \<le> Os_MsgMaxExtraCaps"
    using loop r(3) by (simp add: unat_of_nat)
  moreover have "\<exists>c. cap_at s d = Some c \<and> Cap_capType c = tag_field cap_null_cap" if "d \<noteq> 0"
  proof -
    have "\<exists>c. cte_heap s1 d = Some c \<and> Cap_capType (cte_cap c) = tag_field cap_null_cap"
      using r(1) that by (auto simp: get_receive_slots_def bind_ok_Inr_iff get_cte_def
          read_at_Inr_iff lookup_target_slot_def lookup_slot_for_cnode_op_def Let_def
          split: if_splits prod.splits)
    then have "\<exists>c. cap_at s1 d = Some c \<and> Cap_capType c = tag_field cap_null_cap"
      by (auto simp: cap_at_def)
    then show ?thesis by (simp add: keep)
  qed
  ultimately show ?thesis using loop r(3) keep by (intro exI [of _ d]) auto
qed

end
