(* ===== verification/EndpointIPC.thy ===== *)
theory EndpointIPC
  imports MsgTransfer
begin

text \<open>
  Synchronous message passing: \<open>send_ipc\<close>, \<open>receive_ipc\<close> and \<open>cancel_ipc\<close> of
  \<open>src/object/endpoint.c\<close>, and \<open>complete_signal\<close> of \<open>src/object/notification.c\<close>, which
  \<open>receive_ipc\<close> calls.
\<close>

subsection \<open>Operations\<close>

definition complete_signal :: "u64 \<Rightarrow> u64 \<Rightarrow> kstate \<Rightarrow> kerror + kstate" where
  "complete_signal ntfnPtr tcb s =
     bind_ok (get_ntfn s ntfnPtr) (\<lambda>n.
     if tcb \<noteq> 0 \<and> ntfn_state n = NtfnState_Active then
       let badge = ntfnMsgIdentifier n in
       bind_ok (set_register tcb badgeRegister badge s) (\<lambda>s.
       mod_ntfn ntfnPtr (\<lambda>n. n\<lparr>ntfn_state := NtfnState_Idle\<rparr>) s)
     else Inr s)"

definition block_on_send :: "u64 \<Rightarrow> u64 \<Rightarrow> bool \<Rightarrow> bool \<Rightarrow> bool \<Rightarrow> Tcb \<Rightarrow> Tcb" where
  "block_on_send epptr badge canGrant canGrantReply doCall t =
     t\<lparr>tcbState := (tcbState t)\<lparr>tsType := ThreadState_BlockedOnSend, blockingObject := ucast epptr,
        blockingIPCBadge := badge, blockingIPCCanGrant := canGrant,
        blockingIPCCangrantreply := canGrantReply, blockingIPCIscall := doCall\<rparr>\<rparr>"

text \<open>Taking a thread off an endpoint's queue, as \<open>send_ipc\<close>, \<open>receive_ipc\<close> (its head) and
  \<open>cancel_ipc\<close> do: dequeue, write the queue back, and become idle when it is empty.\<close>

definition ep_remove :: "u64 \<Rightarrow> u64 \<Rightarrow> kstate \<Rightarrow> kerror + kstate" where
  "ep_remove tcb epptr s =
     bind_ok (get_ep s epptr) (\<lambda>ep.
     let queue = epptr_get_queue ep in
     bind_ok (tcb_ep_dequeue tcb queue s) (\<lambda>(queue, s).
     bind_ok (mod_ep epptr (epptr_set_queue queue) s) (\<lambda>s.
     if q_head queue = 0 then mod_ep epptr (\<lambda>e. e\<lparr>ep_state := EPState_Idle\<rparr>) s else Inr s)))"

definition ep_take_head :: "u64 \<Rightarrow> kstate \<Rightarrow> kerror + u64 \<times> kstate" where
  "ep_take_head epptr s =
     bind_ok (get_ep s epptr) (\<lambda>ep.
     let dest = q_head (epptr_get_queue ep) in
     bind_ok (ep_remove dest epptr s) (\<lambda>s. Inr (dest, s)))"

definition send_ipc ::
    "Uninit \<Rightarrow> bool \<Rightarrow> bool \<Rightarrow> u64 \<Rightarrow> bool \<Rightarrow> bool \<Rightarrow> u64 \<Rightarrow> u64 \<Rightarrow> kstate \<Rightarrow> kerror + kstate" where
  "send_ipc un blocking doCall badge canGrant canGrantReply thread epptr s =
     bind_ok (get_ep s epptr) (\<lambda>ep.
     if ep_state ep = EPState_Idle \<or> ep_state ep = EPState_Send then
       if blocking then
         bind_ok (mod_tcb thread (block_on_send epptr badge canGrant canGrantReply doCall) s) (\<lambda>s.
         let queue = epptr_get_queue ep in
         bind_ok (tcb_ep_append (un_queue un) thread queue s) (\<lambda>(queue, s).
         bind_ok (mod_ep epptr (\<lambda>e. e\<lparr>ep_state := EPState_Send\<rparr>) s) (\<lambda>s.
         mod_ep epptr (epptr_set_queue queue) s)))
       else Inr s
     else
       bind_ok (ep_take_head epptr s) (\<lambda>(dest, s).
       bind_ok (do_ipc_transfer un thread epptr badge canGrant dest s) (\<lambda>s.
       bind_ok (get_tcb s dest) (\<lambda>d.
       let replyCanGrant = blockingIPCCanGrant (tcbState d) in
       bind_ok (mod_tcb dest (set_tsType ThreadState_Running) s) (\<lambda>s.
       bind_ok (possible_switch_to dest s) (\<lambda>s.
       if doCall then
         if canGrant \<or> canGrantReply then Inr (setup_caller_cap thread dest replyCanGrant s)
         else mod_tcb thread (set_tsType ThreadState_Running) s
       else Inr s))))))"

text \<open>\<open>EP_PTR(endpointCap.capEPPtr | 0xFFFF000000000000)\<close>.\<close>

definition cap_endpoint :: "Cap \<Rightarrow> u64" where
  "cap_endpoint cap = ucast (capEPPtr (EndpointCap_of_Cap cap)) OR 0xFFFF000000000000"

text \<open>The \<open>EPState_Idle\<close> and \<open>EPState_Recv\<close> case of \<open>receive_ipc\<close> has an empty branch for blocking
  and no break: it goes on into the \<open>EPState_Send\<close> case, so that the endpoint's state makes no
  difference.\<close>

definition receive_ipc :: "Uninit \<Rightarrow> u64 \<Rightarrow> Cap \<Rightarrow> bool \<Rightarrow> kstate \<Rightarrow> kerror + kstate" where
  "receive_ipc un thread cap isBlocking s =
     (let endpointCap = EndpointCap_of_Cap cap; epptr = cap_endpoint cap in
     bind_ok (get_tcb s thread) (\<lambda>t.
     let ntfnPtr = tcbBoundNotification t in
     bind_ok (if ntfnPtr \<noteq> 0
              then bind_ok (get_ntfn s ntfnPtr) (\<lambda>n. Inr (ntfn_state n = NtfnState_Active))
              else Inr False) (\<lambda>active.
     if active then complete_signal ntfnPtr thread s else
     bind_ok (ep_take_head epptr s) (\<lambda>(sender, s).
     bind_ok (get_tcb s sender) (\<lambda>t.
     let badge = blockingIPCBadge (tcbState t); canGrant = blockingIPCCanGrant (tcbState t);
         canGrantReply = blockingIPCCangrantreply (tcbState t) in
     bind_ok (do_ipc_transfer un sender epptr badge canGrant thread s) (\<lambda>s.
     bind_ok (get_tcb s sender) (\<lambda>t.
     let doCall = blockingIPCIscall (tcbState t) in
     if doCall then
       if canGrant \<or> canGrantReply
       then Inr (setup_caller_cap sender thread (capCanGrant endpointCap \<noteq> 0) s)
       else mod_tcb sender (set_tsType ThreadState_Inactive) s
     else
       bind_ok (mod_tcb sender (set_tsType ThreadState_Running) s) (\<lambda>s.
       possible_switch_to sender s))))))))"

text \<open>\<open>EP_PTR(state->blockingObject)\<close> widens the 44-bit field.\<close>

definition cancel_blocked :: "u64 \<Rightarrow> Tcb \<Rightarrow> kstate \<Rightarrow> kerror + kstate" where
  "cancel_blocked tptr t s =
     (let epptr = ucast (blockingObject (tcbState t)) in
      bind_ok (ep_remove tptr epptr s) (\<lambda>s.
      mod_tcb tptr (set_tsType ThreadState_Inactive) s))"

definition cancel_ipc :: "u64 \<Rightarrow> kstate \<Rightarrow> kerror + kstate" where
  "cancel_ipc tptr s =
     bind_ok (get_tcb s tptr) (\<lambda>t.
     case tsType (tcbState t) of
       ThreadState_BlockedOnSend \<Rightarrow> cancel_blocked tptr t s
     | ThreadState_BlockedOnReceive \<Rightarrow> cancel_blocked tptr t s
     | _ \<Rightarrow> Inr s)"

subsection \<open>Reading threads after a queue operation\<close>

lemma erase_links_idem [simp]: "erase_links (erase_links t) = erase_links t"
  by (simp add: erase_links_def)

text \<open>What a queue operation leaves of a thread: everything but its two queue links.\<close>

lemma same_but_links_tcb:
  assumes "same_but_links s s'" and "tcb_heap s p = Some t"
  shows "\<exists>n q. tcb_heap s' p = Some (t\<lparr>tcbEPNext := n, tcbEPPrev := q\<rparr>)"
proof -
  obtain t' where t': "tcb_heap s' p = Some t'" "erase_links t' = erase_links t"
    using same_but_links_field [OF assms, of erase_links] by auto
  have "t' = (erase_links t')\<lparr>tcbEPNext := tcbEPNext t', tcbEPPrev := tcbEPPrev t'\<rparr>"
    by (simp add: erase_links_def)
  then have "t' = t\<lparr>tcbEPNext := tcbEPNext t', tcbEPPrev := tcbEPPrev t'\<rparr>"
    unfolding t'(2) by (simp add: erase_links_def)
  with t'(1) show ?thesis by metis
qed

text \<open>An endpoint's queue depends on the endpoints and the queue links only.\<close>

lemma ep_links_cong:
  assumes "link tcbEPNext (tcb_heap s') = link tcbEPNext (tcb_heap s)"
    and "link tcbEPPrev (tcb_heap s') = link tcbEPPrev (tcb_heap s)"
    and "dom (tcb_heap s') = dom (tcb_heap s)"
  shows "ep_links s' h xs e = ep_links s h xs e"
  using assms by (simp add: ep_links_def)

lemma ep_rep_cong:
  assumes "link tcbEPNext (tcb_heap s') = link tcbEPNext (tcb_heap s)"
    and "link tcbEPPrev (tcb_heap s') = link tcbEPPrev (tcb_heap s)"
    and "dom (tcb_heap s') = dom (tcb_heap s)" and "ep_heap s' = ep_heap s"
  shows "ep_rep s' p xs = ep_rep s p xs"
  using assms by (simp add: ep_rep_def ep_links_cong [OF assms(1-3)])

lemma link_mod:
  assumes "tcb_heap s p = Some t" and "fld t' = fld t"
  shows "link fld ((tcb_heap s)(p \<mapsto> t')) = link fld (tcb_heap s)"
  using assms by (auto simp: link_def fun_eq_iff)

lemma sched_frame_links:
  assumes "sched_frame s s'"
  shows "link tcbEPNext (tcb_heap s') = link tcbEPNext (tcb_heap s)"
    and "link tcbEPPrev (tcb_heap s') = link tcbEPPrev (tcb_heap s)"
    and "dom (tcb_heap s') = dom (tcb_heap s)"
proof -
  have eq: "map_option erase_sched (tcb_heap s' p) = map_option erase_sched (tcb_heap s p)" for p
    using assms by (simp add: sched_frame_def)
  have fld: "link f (tcb_heap s') = link f (tcb_heap s)" if f: "\<And>x. f (erase_sched x) = f x" for f
  proof
    fix p
    show "link f (tcb_heap s') p = link f (tcb_heap s) p"
      using eq [of p] unfolding link_def
      by (cases "tcb_heap s p"; cases "tcb_heap s' p") (auto, metis f)
  qed
  show "link tcbEPNext (tcb_heap s') = link tcbEPNext (tcb_heap s)"
    and "link tcbEPPrev (tcb_heap s') = link tcbEPPrev (tcb_heap s)" by (simp_all add: fld)
  show "dom (tcb_heap s') = dom (tcb_heap s)"
  proof (rule set_eqI)
    fix p show "p \<in> dom (tcb_heap s') \<longleftrightarrow> p \<in> dom (tcb_heap s)"
      using eq [of p] by (cases "tcb_heap s p"; cases "tcb_heap s' p") auto
  qed
qed

subsection \<open>Taking a thread off the queue\<close>

lemma ep_remove_spec:
  assumes rep: "ep_rep s p (as @ t # bs)"
  shows "\<exists>s'. ep_remove t p s = Inr s' \<and> ep_rep s' p (as @ bs)
    \<and> same_but_links s (s'\<lparr>ep_heap := ep_heap s\<rparr>)
    \<and> (\<forall>q. q \<noteq> p \<longrightarrow> ep_heap s' q = ep_heap s q)
    \<and> (\<exists>ep ep'. ep_heap s p = Some ep \<and> ep_heap s' p = Some ep'
        \<and> ep_state ep' = (if as @ bs = [] then EPState_Idle else ep_state ep))"
proof -
  obtain ep e where ep: "ep_heap s p = Some ep" "ep_links s (epQueueHead ep) (as @ t # bs) e"
      "epQueueTail ep = ucast e" "ep_state ep \<noteq> EPState_Idle"
    using rep by (auto simp: ep_rep_def)
  obtain s1 h' e' where s1: "tcb_ep_dequeue t (epptr_get_queue ep) s
        = Inr (\<lparr>q_head = h', q_end = (if bs = [] then e' else ucast (epQueueTail ep))\<rparr>, s1)"
      "ep_links s1 h' (as @ bs) e'" "bs \<noteq> [] \<longrightarrow> e' = e" "same_but_links s s1"
    using ep_dequeue_links [OF ep(2), of "ucast (epQueueTail ep)"]
    unfolding epptr_get_queue_def by metis
  have eps: "ep_heap s1 = ep_heap s" using same_but_links_rest(2) [OF s1(4)] .
  have null: "h' = 0 \<longleftrightarrow> as @ bs = []"
    using ep_linksD(1) [OF s1(2)] by (rule dseg_head_null)
  let ?q = "\<lparr>q_head = h', q_end = (if bs = [] then e' else ucast (epQueueTail ep))\<rparr>"
  let ?ep = "if as @ bs = [] then (epptr_set_queue ?q ep)\<lparr>ep_state := EPState_Idle\<rparr>
    else epptr_set_queue ?q ep"
  let ?s = "s1\<lparr>ep_heap := (ep_heap s1)(p \<mapsto> ?ep)\<rparr>"
  have "ep_remove t p s = Inr ?s"
    using ep(1) s1(1) eps null
    by (cases "as @ bs = []") (auto simp: ep_remove_def get_ep_def mod_ep_Some Let_def)
  moreover have "ep_rep ?s p (as @ bs)"
    unfolding ep_rep_def
  proof (intro exI conjI)
    show "ep_heap ?s p = Some ?ep" by simp
    show "ep_links ?s (epQueueHead ?ep) (as @ bs) e'"
      using s1(2) by (cases "as @ bs = []") (auto simp: ep_links_def epptr_set_queue_def)
    show "epQueueTail ?ep = ucast e'"
      using ep(3) s1(3) by (cases "bs = []") (auto simp: epptr_set_queue_def ucast_down_up_down)
    show "ep_state ?ep = EPState_Idle \<longleftrightarrow> as @ bs = []"
      using ep(4) by (cases "as @ bs = []") (auto simp: epptr_set_queue_def)
  qed
  moreover have "same_but_links s (?s\<lparr>ep_heap := ep_heap s\<rparr>)"
    using s1(4) by (simp add: eps [symmetric])
  moreover have "\<forall>q. q \<noteq> p \<longrightarrow> ep_heap ?s q = ep_heap s q" using eps by simp
  moreover have "ep_heap ?s p = Some ?ep
      \<and> ep_state ?ep = (if as @ bs = [] then EPState_Idle else ep_state ep)"
    by (cases "as @ bs = []") (auto simp: epptr_set_queue_def)
  ultimately show ?thesis using ep(1) by blast
qed

subsection \<open>What the scheduler's view does not depend on\<close>

lemma ready_rep_other [simp]:
  "ready_rep (s\<lparr>ep_heap := e\<rparr>) xs = ready_rep s xs"
  "ready_rep (s\<lparr>ntfn_heap := n\<rparr>) xs = ready_rep s xs"
  "ready_rep (s\<lparr>word_heap := w\<rparr>) xs = ready_rep s xs"
  "ready_rep (s\<lparr>excaprefs := x\<rparr>) xs = ready_rep s xs"
  by (simp_all add: ready_rep_def)

lemma is_tcb_other [simp]:
  "is_tcb (s\<lparr>ep_heap := e\<rparr>) t = is_tcb s t"
  "is_tcb (s\<lparr>ntfn_heap := n\<rparr>) t = is_tcb s t"
  "is_tcb (s\<lparr>word_heap := w\<rparr>) t = is_tcb s t"
  "is_tcb (s\<lparr>excaprefs := x\<rparr>) t = is_tcb s t"
  by (simp_all add: is_tcb_def)

lemma is_tcb_heap_upd: "is_tcb (s\<lparr>tcb_heap := (tcb_heap s)(p \<mapsto> t)\<rparr>) q \<longleftrightarrow> q \<noteq> 0 \<and> (q = p \<or> is_tcb s q)"
  by (auto simp: is_tcb_def)

lemma ready_rep_upd:
  assumes "ready_rep s xs" and "tcb_heap s p = Some t" and "tcbSchedNext t' = tcbSchedNext t"
    and "tcbSchedPrev t' = tcbSchedPrev t" and "tcbQueued (tcbState t') = tcbQueued (tcbState t)"
  shows "ready_rep (s\<lparr>tcb_heap := (tcb_heap s)(p \<mapsto> t')\<rparr>) xs"
  using assms unfolding ready_rep_def
  by (auto simp: link_mod [of s p t] simp del: link_upd split: if_splits)

lemma action_ok_cong:
  "ksSchedulerAction s' = ksSchedulerAction s \<Longrightarrow> dom (tcb_heap s') = dom (tcb_heap s) \<Longrightarrow>
    action_ok s' = action_ok s"
  by (auto simp: action_ok_def is_tcb_def set_eq_iff domIff)

lemma action_thread_cong:
  "ksSchedulerAction s' = ksSchedulerAction s \<Longrightarrow> action_thread s' = action_thread s"
  by (simp add: action_thread_def)

subsection \<open>Receiving\<close>

text \<open>The conditions under which a message without capabilities can be copied from \<open>sd\<close> to \<open>t\<close>.\<close>

definition can_transfer :: "kstate \<Rightarrow> Tcb \<Rightarrow> Trapframe \<Rightarrow> bool \<Rightarrow> Tcb \<Rightarrow> bool" where
  "can_transfer s st tf grant rt \<longleftrightarrow>
     osFaultType (tcbFault st) = NullFault \<and> tf_heap s (tcb_tf st) = Some tf
     \<and> 2 \<le> length (registers rt) \<and> excaprefs s \<noteq> []
     \<and> words_at (word_addr (tcbIPCBuffer st) 1) (unat (mi_length (sender_tag tf))) s
     \<and> words_at (word_addr (tcbIPCBuffer rt) 1) (unat (mi_length (sender_tag tf))) s
     \<and> (grant \<or> extraCaps (sender_tag tf) = 0 \<or> tcbIPCBuffer st = 0)"

text \<open>The two registers and the buffer a receiver ends up with.\<close>

definition message_regs :: "Uninit \<Rightarrow> Trapframe \<Rightarrow> u64 \<Rightarrow> Tcb \<Rightarrow> u64 list" where
  "message_regs un tf badge rt = (registers rt)
     [msgInfoRegister := u64_from_messageinfo ((sender_tag tf)
        \<lparr>extraCaps := 0, capsUnwrapped := 0, mi_length := ucast (un_mrs un)\<rparr>),
      badgeRegister := badge]"

definition message_words :: "Tcb \<Rightarrow> Trapframe \<Rightarrow> Tcb \<Rightarrow> (u64 \<rightharpoonup> u64) \<Rightarrow> (u64 \<rightharpoonup> u64)" where
  "message_words st tf rt h = copied (word_addr (tcbIPCBuffer st) 1) (word_addr (tcbIPCBuffer rt) 1)
     (unat (mi_length (sender_tag tf))) h"

lemma transferred_alt:
  "transferred un st tf badge t rt s =
     s\<lparr>excaprefs := (excaprefs s)[0 := 0], word_heap := message_words st tf rt (word_heap s),
       tcb_heap := (tcb_heap s)(t \<mapsto> rt\<lparr>registers := message_regs un tf badge rt\<rparr>)\<rparr>"
  by (simp add: transferred_def message_words_def message_regs_def)

lemma can_transfer_run:
  assumes "can_transfer s st tf grant rt" and "tcb_heap s sd = Some st" and "tcb_heap s t = Some rt"
  shows "do_ipc_transfer un sd ep badge grant t s = Inr (transferred un st tf badge t rt s)"
  using assms by (intro ipc_transfer_plain) (auto simp: can_transfer_def)

lemma can_transfer_cong:
  assumes "tcbFault st' = tcbFault st" "tcb_tf st' = tcb_tf st" "tcbIPCBuffer st' = tcbIPCBuffer st"
    and "length (registers rt') = length (registers rt)" "tcbIPCBuffer rt' = tcbIPCBuffer rt"
    and "tf_heap s' = tf_heap s" "excaprefs s' = excaprefs s" "word_heap s' = word_heap s"
  shows "can_transfer s' st' tf g rt' = can_transfer s st tf g rt"
  using assms by (simp add: can_transfer_def words_at_def)

definition ntfn_quiet :: "kstate \<Rightarrow> Tcb \<Rightarrow> bool" where
  "ntfn_quiet s t \<longleftrightarrow> tcbBoundNotification t = 0
     \<or> (\<exists>n. ntfn_heap s (tcbBoundNotification t) = Some n \<and> ntfn_state n \<noteq> NtfnState_Active)"

text \<open>The common end of a rendezvous: the message is moved and the other thread woken.\<close>

lemma transfer_and_wake:
  assumes t: "tcb_heap s t = Some rt" and sd: "tcb_heap s sd = Some st" and ne: "t \<noteq> sd"
    and can: "can_transfer s st tf grant rt"
    and w: "w = t \<or> w = sd" "w \<noteq> 0" "w \<noteq> SchedulerAction_ChooseNewThread"
    and rep: "ready_rep s xs" and ok: "action_ok s"
  shows "\<exists>s2 s3 s' ys. do_ipc_transfer un sd ep badge grant t s = Inr s2
    \<and> tcb_heap s2 sd = Some st
    \<and> tcb_heap s2 t = Some (rt\<lparr>registers := message_regs un tf badge rt\<rparr>)
    \<and> mod_tcb w (set_tsType ThreadState_Running) s2 = Inr s3
    \<and> possible_switch_to w s3 = Inr s'
    \<and> (\<forall>p q. ep_rep s' p q = ep_rep s p q) \<and> ep_heap s' = ep_heap s
    \<and> word_heap s' = message_words st tf rt (word_heap s)
    \<and> (\<exists>r. tcb_heap s' t = Some r \<and> registers r = message_regs un tf badge rt)
    \<and> (\<exists>x. tcb_heap s' w = Some x \<and> tsType (tcbState x) = ThreadState_Running)
    \<and> ready_rep s' ys \<and> set ys \<union> action_thread s' = insert w (set xs \<union> action_thread s)"
proof -
  define rt2 where "rt2 = rt\<lparr>registers := message_regs un tf badge rt\<rparr>"
  define s2 where "s2 = transferred un st tf badge t rt s"
  have run: "do_ipc_transfer un sd ep badge grant t s = Inr s2"
    unfolding s2_def by (rule can_transfer_run [OF can sd t])
  have h2: "tcb_heap s2 = (tcb_heap s)(t \<mapsto> rt2)" by (simp add: s2_def rt2_def transferred_alt)
  obtain wt where wt: "tcb_heap s2 w = Some wt" using w(1) sd ne h2 by auto
  define s3 where "s3 = s2\<lparr>tcb_heap := (tcb_heap s2)(w \<mapsto> set_tsType ThreadState_Running wt)\<rparr>"
  have m3: "mod_tcb w (set_tsType ThreadState_Running) s2 = Inr s3"
    using wt by (simp add: mod_tcb_Some s3_def)
  have rep2: "ready_rep s2 xs"
    unfolding s2_def transferred_alt using ready_rep_upd [OF rep t, of rt2]
    by (simp add: ready_rep_def rt2_def)
  have rep3: "ready_rep s3 xs"
    unfolding s3_def by (rule ready_rep_upd [OF rep2 wt]) simp_all
  have dom3: "dom (tcb_heap s3) = dom (tcb_heap s)" using t sd w(1) h2 by (auto simp: s3_def)
  have act3: "ksSchedulerAction s3 = ksSchedulerAction s"
    by (simp add: s3_def s2_def transferred_def)
  have tcb3: "is_tcb s3 w" using w(2) by (simp add: s3_def is_tcb_def)
  have ok3: "action_ok s3" using ok action_ok_cong [OF act3 dom3] by simp
  obtain s' ys where s': "possible_switch_to w s3 = Inr s'" "ready_rep s' ys"
      "set ys \<union> action_thread s' = insert w (set xs \<union> action_thread s3)"
    using possible_switch_spec [OF rep3 ok3 tcb3 w(3)] by blast
  note frame = sched_ops_frame(2) [OF s'(1)]
  have lk2: "link f (tcb_heap s2) = link f (tcb_heap s)" if "f rt2 = f rt" for f
    unfolding h2 by (rule link_mod [OF t that])
  have lk3: "link f (tcb_heap s3) = link f (tcb_heap s2)"
    if "\<And>x. f (set_tsType ThreadState_Running x) = f x" for f
    unfolding s3_def using link_mod [where fld = f, OF wt that] by simp
  have eps: "ep_heap s' = ep_heap s"
    by (simp add: sched_frame_rest [OF frame] s3_def s2_def transferred_def)
  have ep: "ep_rep s' p q = ep_rep s p q" for p q
    using dom3 eps sched_frame_links [OF frame]
    by (intro ep_rep_cong) (simp_all add: lk2 lk3 rt2_def)
  have words: "word_heap s' = message_words st tf rt (word_heap s)"
    by (simp add: sched_frame_rest [OF frame] s3_def s2_def transferred_alt)
  have "tcb_heap s3 t = Some (if w = t then set_tsType ThreadState_Running wt else rt2)"
    using h2 by (simp add: s3_def)
  moreover have "registers (if w = t then set_tsType ThreadState_Running wt else rt2)
      = message_regs un tf badge rt"
    using wt h2 by (auto simp: rt2_def)
  ultimately have regs: "\<exists>r. tcb_heap s' t = Some r \<and> registers r = message_regs un tf badge rt"
    using sched_frame_field [OF frame, of t _ registers] by fastforce
  have "tcb_heap s3 w = Some (set_tsType ThreadState_Running wt)" by (simp add: s3_def)
  then have run_w: "\<exists>x. tcb_heap s' w = Some x \<and> tsType (tcbState x) = ThreadState_Running"
    using sched_frame_field [OF frame, of w _ "\<lambda>x. tsType (tcbState x)"] by fastforce
  have sd2: "tcb_heap s2 sd = Some st" "tcb_heap s2 t = Some rt2" using sd ne h2 by simp_all
  show ?thesis
    using run sd2 m3 s' ep eps words regs run_w action_thread_cong [OF act3] unfolding rt2_def
    by blast
qed

lemma receive_first_sender:
  assumes rep: "ep_rep s (cap_endpoint cap) (sd # rest)"
    and t: "tcb_heap s t = Some rt" "ntfn_quiet s rt" "t \<noteq> sd"
    and sd: "tcb_heap s sd = Some st" "\<not> blockingIPCIscall (tcbState st)"
      "sd \<noteq> SchedulerAction_ChooseNewThread"
    and can: "can_transfer s st tf (blockingIPCCanGrant (tcbState st)) rt"
    and ready: "ready_rep s xs" "action_ok s"
  shows "\<exists>s' ys. receive_ipc un t cap isBlocking s = Inr s' \<and> ep_rep s' (cap_endpoint cap) rest
    \<and> word_heap s' = message_words st tf rt (word_heap s)
    \<and> (\<exists>r. tcb_heap s' t = Some r
        \<and> registers r = message_regs un tf (blockingIPCBadge (tcbState st)) rt)
    \<and> (\<exists>x. tcb_heap s' sd = Some x \<and> tsType (tcbState x) = ThreadState_Running)
    \<and> ready_rep s' ys \<and> set ys \<union> action_thread s' = insert sd (set xs \<union> action_thread s)"
proof -
  let ?p = "cap_endpoint cap"
  obtain ep where ep: "ep_heap s ?p = Some ep" "epQueueHead ep = sd"
    using rep by (auto simp: ep_rep_def ep_links_def)
  have "sd \<noteq> 0" using rep by (auto simp: ep_rep_def ep_links_def)
  obtain s1 where s1: "ep_remove sd ?p s = Inr s1" "ep_rep s1 ?p rest"
      "same_but_links s (s1\<lparr>ep_heap := ep_heap s\<rparr>)"
    using ep_remove_spec [of s ?p "[]" sd rest] rep by auto
  obtain n q where t1: "tcb_heap s1 t = Some (rt\<lparr>tcbEPNext := n, tcbEPPrev := q\<rparr>)"
    using same_but_links_tcb [OF s1(3) t(1)] by auto
  obtain n' q' where sd1: "tcb_heap s1 sd = Some (st\<lparr>tcbEPNext := n', tcbEPPrev := q'\<rparr>)"
    using same_but_links_tcb [OF s1(3) sd(1)] by auto
  let ?rt = "rt\<lparr>tcbEPNext := n, tcbEPPrev := q\<rparr>" and ?st = "st\<lparr>tcbEPNext := n', tcbEPPrev := q'\<rparr>"
  note rest = same_but_links_rest [OF s1(3), simplified]
  have can1: "can_transfer s1 ?st tf (blockingIPCCanGrant (tcbState st)) ?rt"
    using can by (subst can_transfer_cong [of _ st _ rt _ s]) (simp_all add: rest)
  have rep1: "ready_rep s1 xs" using same_but_links_ready [OF s1(3) ready(1)] by simp
  have ok1: "action_ok s1"
    using ready(2) action_ok_cong [of s1 s] same_but_links_dom [OF s1(3)] rest by simp
  obtain s2 s3 s' ys where w:
      "do_ipc_transfer un sd ?p (blockingIPCBadge (tcbState st)) (blockingIPCCanGrant (tcbState st)) t s1
        = Inr s2" "tcb_heap s2 sd = Some ?st"
      "mod_tcb sd (set_tsType ThreadState_Running) s2 = Inr s3" "possible_switch_to sd s3 = Inr s'"
      "\<forall>p q. ep_rep s' p q = ep_rep s1 p q" "word_heap s' = message_words ?st tf ?rt (word_heap s1)"
      "\<exists>r. tcb_heap s' t = Some r
        \<and> registers r = message_regs un tf (blockingIPCBadge (tcbState st)) ?rt"
      "\<exists>x. tcb_heap s' sd = Some x \<and> tsType (tcbState x) = ThreadState_Running"
      "ready_rep s' ys" "set ys \<union> action_thread s' = insert sd (set xs \<union> action_thread s1)"
    using transfer_and_wake [OF t1 sd1 t(3) can1 _ \<open>sd \<noteq> 0\<close> sd(3) rep1 ok1,
        of un ?p "blockingIPCBadge (tcbState st)"] by blast
  have quiet: "(if tcbBoundNotification rt \<noteq> 0
      then bind_ok (get_ntfn s (tcbBoundNotification rt)) (\<lambda>n. Inr (ntfn_state n = NtfnState_Active))
      else Inr False) = Inr False"
    using t(2) by (auto simp: ntfn_quiet_def get_ntfn_def)
  have "ep_take_head ?p s = Inr (sd, s1)"
    using ep s1(1) by (simp add: ep_take_head_def get_ep_def epptr_get_queue_def)
  then have "receive_ipc un t cap isBlocking s = Inr s'"
    using t(1) sd1 sd(2) w(1-4)
    by (simp add: receive_ipc_def get_tcb_def quiet Let_def)
  with w(5-) s1(2) rest action_thread_cong [of s1 s] show ?thesis
    by (intro exI [of _ s'] exI [of _ ys]) (simp add: message_words_def message_regs_def)
qed

text \<open>On an endpoint with no waiting thread the null head is dequeued.\<close>

lemma receive_idle_faults:
  assumes "ep_rep s (cap_endpoint cap) []" and "tcb_heap s t = Some rt" and "ntfn_quiet s rt"
    and "tcb_heap s 0 = None"
  shows "receive_ipc un t cap isBlocking s = Inl (BadPtr 0)"
proof -
  obtain ep where "ep_heap s (cap_endpoint cap) = Some ep" "epQueueHead ep = 0"
    using assms(1) by (auto simp: ep_rep_def ep_links_def)
  then have "ep_take_head (cap_endpoint cap) s = Inl (BadPtr 0)"
    using ep_dequeue_null [OF assms(4)]
    by (simp add: ep_take_head_def ep_remove_def get_ep_def epptr_get_queue_def Let_def)
  moreover have "(if tcbBoundNotification rt \<noteq> 0
      then bind_ok (get_ntfn s (tcbBoundNotification rt)) (\<lambda>n. Inr (ntfn_state n = NtfnState_Active))
      else Inr False) = Inr False"
    using assms(3) by (auto simp: ntfn_quiet_def get_ntfn_def)
  ultimately show ?thesis using assms(2) by (simp add: receive_ipc_def get_tcb_def)
qed

subsection \<open>Blocking in a send\<close>

text \<open>What \<open>tcb_ep_append\<close> computes is what its caller gets, as the code means: the value it returns
  is the queue it built.\<close>

definition append_returns :: "Uninit \<Rightarrow> u64 \<Rightarrow> kstate \<Rightarrow> u64 \<Rightarrow> bool" where
  "append_returns un thread s p \<longleftrightarrow>
     (\<exists>ep. ep_heap s p = Some ep \<and> un_queue un = ep_appended thread (epptr_get_queue ep))"

lemma send_blocks_frame:
  assumes rep: "ep_rep s p xs" and st: "ep_heap s p = Some ep" "ep_state ep \<noteq> EPState_Recv"
    and t: "tcb_heap s t = Some x" "t \<noteq> 0" "t \<notin> set xs"
    and ret: "append_returns un t s p" and small: "xs = [] \<or> last xs < 2 ^ 48"
  shows "\<exists>s' y. send_ipc un True doCall badge canGrant canGrantReply t p s = Inr s'
    \<and> ep_rep s' p (xs @ [t]) \<and> ep_heap s' p = Some (y\<lparr>ep_state := EPState_Send\<rparr>)
    \<and> (\<exists>n q. tcb_heap s' t = Some ((block_on_send p badge canGrant canGrantReply doCall x)
          \<lparr>tcbEPNext := n, tcbEPPrev := q\<rparr>))
    \<and> ksReadyQueues s' = ksReadyQueues s \<and> ksSchedulerAction s' = ksSchedulerAction s
    \<and> word_heap s' = word_heap s
    \<and> same_but_links (s\<lparr>tcb_heap := (tcb_heap s)(t \<mapsto> block_on_send p badge canGrant canGrantReply doCall x)\<rparr>)
        (s'\<lparr>ep_heap := ep_heap s\<rparr>)"
proof -
  let ?x = "block_on_send p badge canGrant canGrantReply doCall x"
  let ?s0 = "s\<lparr>tcb_heap := (tcb_heap s)(t \<mapsto> ?x)\<rparr>"
  obtain e where e: "ep_links s (epQueueHead ep) xs e" "epQueueTail ep = ucast e"
    using rep st(1) by (auto simp: ep_rep_def)
  have "link tcbEPNext (tcb_heap ?s0) = link tcbEPNext (tcb_heap s)"
    "link tcbEPPrev (tcb_heap ?s0) = link tcbEPPrev (tcb_heap s)"
    using link_mod [OF t(1)] by (simp_all add: block_on_send_def del: link_upd)
  then have e0: "ep_links ?s0 (epQueueHead ep) xs e"
    using e(1) t(1) by (subst ep_links_cong [of _ s]) auto
  have tail: "ucast (epQueueTail ep) = e"
  proof (cases "xs = []")
    case True
    with e ep_links_last [OF e(1)] show ?thesis by simp
  next
    case False
    with small ep_links_last [OF e(1)] have "e < 2 ^ 48" by simp
    then show ?thesis unfolding e(2) by (intro ucast_down_up_id) simp_all
  qed
  have q: "epptr_get_queue ep = \<lparr>q_head = epQueueHead ep, q_end = e\<rparr>"
    by (simp add: epptr_get_queue_def tail)
  have is_t: "is_tcb ?s0 t" using t(2) by (simp add: is_tcb_def)
  obtain s1 where s1: "tcb_ep_append (un_queue un) t (epptr_get_queue ep) ?s0 = Inr (un_queue un, s1)"
      "ep_links s1 (if xs = [] then t else epQueueHead ep) (xs @ [t]) t" "same_but_links ?s0 s1"
    using ep_append_links [OF e0 is_t t(3), of "un_queue un"] q by auto
  have null: "epQueueHead ep = 0 \<longleftrightarrow> xs = []"
    using ep_linksD(1) [OF e(1)] by (rule dseg_head_null)
  have uq: "un_queue un = \<lparr>q_head = (if xs = [] then t else epQueueHead ep), q_end = t\<rparr>"
    using ret st(1) null by (auto simp: append_returns_def ep_appended_def q)
  note rest = same_but_links_rest [OF s1(3), simplified]
  let ?ep = "epptr_set_queue (un_queue un) (ep\<lparr>ep_state := EPState_Send\<rparr>)"
  let ?s = "s1\<lparr>ep_heap := (ep_heap s1)(p \<mapsto> ?ep)\<rparr>"
  have "send_ipc un True doCall badge canGrant canGrantReply t p s = Inr ?s"
    using st t(1) s1(1) rest
    by (cases "ep_state ep") (simp_all add: send_ipc_def get_ep_def mod_tcb_Some mod_ep_Some Let_def)
  moreover have "ep_rep ?s p (xs @ [t])"
    using s1(2) by (auto simp: ep_rep_def ep_links_def epptr_set_queue_def uq)
  moreover have "?ep = ?ep\<lparr>ep_state := EPState_Send\<rparr>" by (simp add: epptr_set_queue_def)
  moreover have "\<exists>n q. tcb_heap ?s t = Some (?x\<lparr>tcbEPNext := n, tcbEPPrev := q\<rparr>)"
    using same_but_links_tcb [OF s1(3), of t ?x] by simp
  moreover have "same_but_links (s\<lparr>tcb_heap := (tcb_heap s)(t \<mapsto> ?x)\<rparr>) (?s\<lparr>ep_heap := ep_heap s\<rparr>)"
    using s1(3) by (simp add: rest(2) [symmetric])
  ultimately show ?thesis using rest
    by (intro exI [of _ ?s] exI [of _ ?ep]) (auto simp: epptr_set_queue_def)
qed

lemma send_blocks_spec:
  assumes rep: "ep_rep s p xs" and st: "ep_heap s p = Some ep" "ep_state ep \<noteq> EPState_Recv"
    and t: "tcb_heap s t = Some x" "t \<noteq> 0" "t \<notin> set xs"
    and ret: "append_returns un t s p" and small: "xs = [] \<or> last xs < 2 ^ 48"
  shows "\<exists>s' y. send_ipc un True doCall badge canGrant canGrantReply t p s = Inr s'
    \<and> ep_rep s' p (xs @ [t]) \<and> ep_heap s' p = Some (y\<lparr>ep_state := EPState_Send\<rparr>)
    \<and> (\<exists>n q. tcb_heap s' t = Some ((block_on_send p badge canGrant canGrantReply doCall x)
          \<lparr>tcbEPNext := n, tcbEPPrev := q\<rparr>))
    \<and> ksReadyQueues s' = ksReadyQueues s \<and> ksSchedulerAction s' = ksSchedulerAction s
    \<and> word_heap s' = word_heap s"
  using send_blocks_frame [OF assms] by blast

end
