(* ===== verification/Notif.thy ===== *)
theory Notif
  imports EndpointIPC
begin

text \<open>
  Notifications: \<open>src/object/notification.c\<close>. Of the queue that \<open>ntfn_ptr_get_queue\<close> returns only
  the head is set, to the tail field; its end is \<open>un_end\<close>.
\<close>

subsection \<open>Operations\<close>

definition ntfn_set_active :: "u64 \<Rightarrow> u64 \<Rightarrow> kstate \<Rightarrow> kerror + kstate" where
  "ntfn_set_active ntfnPtr badge s =
     bind_ok (mod_ntfn ntfnPtr (\<lambda>n. n\<lparr>ntfn_state := NtfnState_Active\<rparr>) s) (\<lambda>s.
     mod_ntfn ntfnPtr (\<lambda>n. n\<lparr>ntfnMsgIdentifier := badge\<rparr>) s)"

text \<open>The \<open>NtfnState_Waiting\<close> case of \<open>send_signal\<close>.\<close>

definition signal_waiting :: "Uninit \<Rightarrow> u64 \<Rightarrow> u64 \<Rightarrow> kstate \<Rightarrow> kerror + kstate" where
  "signal_waiting un ntfnPtr badge s =
     bind_ok (get_ntfn s ntfnPtr) (\<lambda>n.
     let ntfnQueue = ntfn_ptr_get_queue (un_end un) n; dest = q_head ntfnQueue in
     bind_ok (tcb_ep_dequeue dest ntfnQueue s) (\<lambda>(ntfnQueue, s).
     bind_ok (mod_ntfn ntfnPtr (ntfn_ptr_set_queue ntfnQueue) s) (\<lambda>s.
     bind_ok (if q_head ntfnQueue = 0
              then mod_ntfn ntfnPtr (\<lambda>n. n\<lparr>ntfn_state := NtfnState_Idle\<rparr>) s else Inr s) (\<lambda>s.
     bind_ok (mod_tcb dest (set_tsType ThreadState_Running) s) (\<lambda>s.
     bind_ok (set_register dest badgeRegister badge s) (\<lambda>s.
     possible_switch_to dest s))))))"

text \<open>The \<open>NtfnState_Idle\<close> case has no break and goes on into the waiting case.\<close>

definition send_signal :: "Uninit \<Rightarrow> u64 \<Rightarrow> u64 \<Rightarrow> kstate \<Rightarrow> kerror + kstate" where
  "send_signal un ntfnPtr badge s =
     bind_ok (get_ntfn s ntfnPtr) (\<lambda>n.
     case ntfn_state n of
       NtfnState_Idle \<Rightarrow>
         let tcb = ucast (ntfnBoundTCB n) in
         bind_ok
           (if tcb \<noteq> 0 then
              bind_ok (get_tcb s tcb) (\<lambda>t.
              if tsType (tcbState t) = ThreadState_BlockedOnReceive then
                bind_ok (cancel_ipc tcb s) (\<lambda>s.
                bind_ok (mod_tcb tcb (set_tsType ThreadState_Running) s) (\<lambda>s.
                bind_ok (set_register tcb badgeRegister badge s) (\<lambda>s.
                possible_switch_to tcb s)))
              else Inr s)
            else ntfn_set_active ntfnPtr badge s) (\<lambda>s.
         signal_waiting un ntfnPtr badge s)
     | NtfnState_Waiting \<Rightarrow> signal_waiting un ntfnPtr badge s
     | NtfnState_Active \<Rightarrow>
         let badge2 = ntfnMsgIdentifier n OR badge in
         mod_ntfn ntfnPtr (\<lambda>n. n\<lparr>ntfnMsgIdentifier := badge2\<rparr>) s)"

definition receive_signal :: "Uninit \<Rightarrow> u64 \<Rightarrow> Cap \<Rightarrow> bool \<Rightarrow> kstate \<Rightarrow> kerror + kstate" where
  "receive_signal un thread cap isBlocking s =
     (let notificationCap = NotificationCap_of_Cap cap;
          ntfnPtr = ucast (capNtfnPtr notificationCap) in
     bind_ok (get_ntfn s ntfnPtr) (\<lambda>n.
     if ntfn_state n = NtfnState_Idle \<or> ntfn_state n = NtfnState_Waiting then
       if isBlocking then
         bind_ok (mod_tcb thread (\<lambda>t. t\<lparr>tcbState := (tcbState t)
           \<lparr>tsType := ThreadState_BlockedOnNotification, blockingObject := ucast ntfnPtr\<rparr>\<rparr>) s) (\<lambda>s.
         bind_ok (schedule_tcb thread s) (\<lambda>s.
         bind_ok (get_ntfn s ntfnPtr) (\<lambda>n.
         bind_ok (tcb_ep_append (un_queue un) thread (ntfn_ptr_get_queue (un_end un) n) s)
           (\<lambda>(ntfnQueue, s).
         bind_ok (mod_ntfn ntfnPtr (\<lambda>n. n\<lparr>ntfn_state := NtfnState_Waiting\<rparr>) s) (\<lambda>s.
         mod_ntfn ntfnPtr (ntfn_ptr_set_queue ntfnQueue) s)))))
       else Inr s
     else set_register thread badgeRegister (ntfnMsgIdentifier n) s))"

text \<open>The loop of \<open>cancel_allSignals\<close> follows \<open>tcbEPNext\<close>, which nothing bounds: it is run with
  fuel, and \<open>None\<close> is a loop that has not ended.\<close>

fun cancel_signals_loop :: "nat \<Rightarrow> u64 \<Rightarrow> kstate \<Rightarrow> (kerror + kstate) option" where
  "cancel_signals_loop fuel thread s =
     (if thread = 0 then Some (Inr s) else
      case fuel of 0 \<Rightarrow> None
      | Suc fuel \<Rightarrow>
        (case bind_ok (mod_tcb thread (set_tsType ThreadState_Restart) s) (\<lambda>s.
              bind_ok (tcb_sched_enqueue thread s) (\<lambda>s.
              bind_ok (get_tcb s thread) (\<lambda>t. Inr (tcbEPNext t, s))))
         of Inl e \<Rightarrow> Some (Inl e)
          | Inr (thread, s) \<Rightarrow> cancel_signals_loop fuel thread s))"

declare cancel_signals_loop.simps [simp del]

definition cancel_allSignals :: "nat \<Rightarrow> u64 \<Rightarrow> kstate \<Rightarrow> (kerror + kstate) option" where
  "cancel_allSignals fuel ntfnPtr s =
     (case get_ntfn s ntfnPtr of
       Inl e \<Rightarrow> Some (Inl e)
     | Inr n \<Rightarrow>
       if ntfn_state n = NtfnState_Waiting then
         let thread = ucast (ntfnQueueHead n) in
         case mod_ntfn ntfnPtr (\<lambda>n. n\<lparr>ntfn_state := NtfnState_Idle, ntfnQueueHead := 0,
                                       ntfnQueueTail := 0\<rparr>) s of
           Inl e \<Rightarrow> Some (Inl e)
         | Inr s \<Rightarrow>
           map_option (\<lambda>r. bind_ok r reschedule_required) (cancel_signals_loop fuel thread s)
       else Some (Inr s))"

definition cancel_signal :: "Uninit \<Rightarrow> u64 \<Rightarrow> u64 \<Rightarrow> kstate \<Rightarrow> kerror + kstate" where
  "cancel_signal un threadPtr ntfnPtr s =
     bind_ok (get_ntfn s ntfnPtr) (\<lambda>n.
     bind_ok (tcb_ep_dequeue threadPtr (ntfn_ptr_get_queue (un_end un) n) s) (\<lambda>(ntfnQueue, s).
     bind_ok (mod_ntfn ntfnPtr (ntfn_ptr_set_queue ntfnQueue) s) (\<lambda>s.
     bind_ok (if q_head ntfnQueue = 0
              then mod_ntfn ntfnPtr (\<lambda>n. n\<lparr>ntfn_state := NtfnState_Idle\<rparr>) s else Inr s) (\<lambda>s.
     set_threadState threadPtr ThreadState_Inactive s))))"

definition do_unbind_notification :: "u64 \<Rightarrow> u64 \<Rightarrow> kstate \<Rightarrow> kerror + kstate" where
  "do_unbind_notification ntfnPtr tcbptr s =
     bind_ok (mod_ntfn ntfnPtr (\<lambda>n. n\<lparr>ntfnBoundTCB := 0\<rparr>) s) (\<lambda>s.
     mod_tcb tcbptr (\<lambda>t. t\<lparr>tcbBoundNotification := 0\<rparr>) s)"

definition unbind_maybe_notification :: "u64 \<Rightarrow> kstate \<Rightarrow> kerror + kstate" where
  "unbind_maybe_notification ntfnPtr s =
     bind_ok (get_ntfn s ntfnPtr) (\<lambda>n.
     let boundTCB = ucast (ntfnBoundTCB n) in
     if boundTCB \<noteq> 0 then do_unbind_notification ntfnPtr boundTCB s else Inr s)"

definition unbind_notification :: "u64 \<Rightarrow> kstate \<Rightarrow> kerror + kstate" where
  "unbind_notification tcb s =
     bind_ok (get_tcb s tcb) (\<lambda>t.
     let ntfnPtr = tcbBoundNotification t in
     if ntfnPtr \<noteq> 0 then do_unbind_notification ntfnPtr tcb s else Inr s)"

definition bind_notification :: "u64 \<Rightarrow> u64 \<Rightarrow> kstate \<Rightarrow> kerror + kstate" where
  "bind_notification tcb ntfnPtr s =
     bind_ok (mod_ntfn ntfnPtr (\<lambda>n. n\<lparr>ntfnBoundTCB := ucast tcb\<rparr>) s) (\<lambda>s.
     mod_tcb tcb (\<lambda>t. t\<lparr>tcbBoundNotification := ntfnPtr\<rparr>) s)"

subsection \<open>Merging signals\<close>

lemma active_signal:
  assumes "ntfn_heap s p = Some n" and "ntfn_state n = NtfnState_Active"
  shows "send_signal un p b s = Inr (s\<lparr>ntfn_heap := (ntfn_heap s)(p \<mapsto>
    n\<lparr>ntfnMsgIdentifier := ntfnMsgIdentifier n OR b\<rparr>)\<rparr>)"
  using assms by (simp add: send_signal_def get_ntfn_def mod_ntfn_Some Let_def)

lemma active_signals:
  assumes "ntfn_heap s p = Some n" and "ntfn_state n = NtfnState_Active"
  shows "fold_ok (send_signal un p) bs s = Inr (s\<lparr>ntfn_heap := (ntfn_heap s)(p \<mapsto>
    n\<lparr>ntfnMsgIdentifier := fold (\<lambda>b a. a OR b) bs (ntfnMsgIdentifier n)\<rparr>)\<rparr>)"
  using assms
proof (induction bs arbitrary: s n)
  case Nil
  then have "(ntfn_heap s)(p \<mapsto> n) = ntfn_heap s" by (simp add: fun_upd_idem)
  then show ?case by simp
next
  case (Cons b bs)
  let ?n = "n\<lparr>ntfnMsgIdentifier := ntfnMsgIdentifier n OR b\<rparr>"
  let ?s = "s\<lparr>ntfn_heap := (ntfn_heap s)(p \<mapsto> ?n)\<rparr>"
  have "fold_ok (send_signal un p) bs ?s = Inr (?s\<lparr>ntfn_heap := (ntfn_heap ?s)(p \<mapsto>
      ?n\<lparr>ntfnMsgIdentifier := fold (\<lambda>b a. a OR b) bs (ntfnMsgIdentifier ?n)\<rparr>)\<rparr>)"
    using Cons.prems by (intro Cons.IH) simp_all
  then show ?case using active_signal [OF Cons.prems] by (simp del: fun_upd_apply)
qed

lemma complete_active:
  assumes "ntfn_heap s p = Some n" and "ntfn_state n = NtfnState_Active"
    and "tcb_heap s t = Some x" and "t \<noteq> 0" and "registers x \<noteq> []"
  shows "complete_signal p t s = Inr (s\<lparr>tcb_heap := (tcb_heap s)(t \<mapsto>
      x\<lparr>registers := (registers x)[badgeRegister := ntfnMsgIdentifier n]\<rparr>),
    ntfn_heap := (ntfn_heap s)(p \<mapsto> n\<lparr>ntfn_state := NtfnState_Idle\<rparr>)\<rparr>)"
  using assms
  by (simp add: complete_signal_def set_register_def access_simps badgeRegister_def Let_def)

subsection \<open>Cancelling every waiting thread\<close>

lemma cancel_step:
  assumes t: "tcb_heap s t = Some x" "t \<noteq> 0" and rep: "ready_rep s rs"
  shows "\<exists>s'. bind_ok (mod_tcb t (set_tsType ThreadState_Restart) s) (\<lambda>s.
              bind_ok (tcb_sched_enqueue t s) (\<lambda>s.
              bind_ok (get_tcb s t) (\<lambda>t. Inr (tcbEPNext t, s)))) = Inr (tcbEPNext x, s')
    \<and> ready_rep s' (List.insert t rs)
    \<and> sched_frame (s\<lparr>tcb_heap := (tcb_heap s)(t \<mapsto> set_tsType ThreadState_Restart x)\<rparr>) s'
    \<and> ksSchedulerAction s' = ksSchedulerAction s"
proof -
  let ?s1 = "s\<lparr>tcb_heap := (tcb_heap s)(t \<mapsto> set_tsType ThreadState_Restart x)\<rparr>"
  have "ready_rep ?s1 rs" by (rule ready_rep_upd [OF rep t(1)]) simp_all
  moreover have "is_tcb ?s1 t" using t(2) by (simp add: is_tcb_def)
  ultimately obtain s' where s': "tcb_sched_enqueue t ?s1 = Inr s'" "ready_rep s' (List.insert t rs)"
    using enqueue_any by blast
  note frame = sched_op_frame(1) [OF s'(1)]
  have "tcb_heap ?s1 t = Some (set_tsType ThreadState_Restart x)" by simp
  then obtain y where "tcb_heap s' t = Some y" "tcbEPNext y = tcbEPNext x"
    using sched_frame_field [OF frame, of t _ tcbEPNext] by fastforce
  then show ?thesis
    using t(1) s' frame sched_op_action(1) [OF s'(1)]
    by (intro exI [of _ s']) (simp add: mod_tcb_Some get_tcb_def)
qed

lemma cancel_loop:
  "dseg (link tcbEPNext (tcb_heap s)) pv p h xs e 0 \<Longrightarrow> distinct xs \<Longrightarrow> set xs \<subseteq> dom (tcb_heap s) \<Longrightarrow>
    ready_rep s rs \<Longrightarrow> length xs \<le> fuel \<Longrightarrow>
    \<exists>s'. cancel_signals_loop fuel h s = Some (Inr s') \<and> ready_rep s' (fold List.insert xs rs)
      \<and> (\<forall>t x. tcb_heap s t = Some x \<longrightarrow> (\<exists>y. tcb_heap s' t = Some y
          \<and> tsType (tcbState y) = (if t \<in> set xs then ThreadState_Restart else tsType (tcbState x))))
      \<and> ntfn_heap s' = ntfn_heap s \<and> ksSchedulerAction s' = ksSchedulerAction s
      \<and> dom (tcb_heap s') = dom (tcb_heap s)"
proof (induction xs arbitrary: s p h rs fuel)
  case Nil
  then show ?case by (simp add: cancel_signals_loop.simps)
next
  case (Cons t xs)
  obtain fuel' where fuel: "fuel = Suc fuel'" using Cons.prems(5) by (cases fuel) auto
  have t: "h = t" "t \<noteq> 0" using Cons.prems(1) by simp_all
  obtain x where x: "tcb_heap s t = Some x" using Cons.prems(3) by auto
  let ?s1 = "s\<lparr>tcb_heap := (tcb_heap s)(t \<mapsto> set_tsType ThreadState_Restart x)\<rparr>"
  obtain s2 where s2: "bind_ok (mod_tcb t (set_tsType ThreadState_Restart) s) (\<lambda>s.
              bind_ok (tcb_sched_enqueue t s) (\<lambda>s.
              bind_ok (get_tcb s t) (\<lambda>t. Inr (tcbEPNext t, s)))) = Inr (tcbEPNext x, s2)"
      "ready_rep s2 (List.insert t rs)" "sched_frame ?s1 s2"
      "ksSchedulerAction s2 = ksSchedulerAction s"
    using cancel_step [OF x t(2) Cons.prems(4)] by blast
  have lk: "link tcbEPNext (tcb_heap s2) = link tcbEPNext (tcb_heap s)"
    using sched_frame_links(1) [OF s2(3)] link_mod [of s t x tcbEPNext "set_tsType ThreadState_Restart x"] x
    by (simp del: link_upd)
  have dm: "dom (tcb_heap s2) = dom (tcb_heap s)"
    using sched_frame_links(3) [OF s2(3)] x by auto
  have "dseg (link tcbEPNext (tcb_heap s2)) pv t (tcbEPNext x) xs e 0"
    using Cons.prems(1) x by (simp add: lk t)
  then obtain s3 where s3: "cancel_signals_loop fuel' (tcbEPNext x) s2 = Some (Inr s3)"
      "ready_rep s3 (fold List.insert xs (List.insert t rs))"
      "\<forall>u y. tcb_heap s2 u = Some y \<longrightarrow> (\<exists>z. tcb_heap s3 u = Some z
          \<and> tsType (tcbState z) = (if u \<in> set xs then ThreadState_Restart else tsType (tcbState y)))"
      "ntfn_heap s3 = ntfn_heap s2" "ksSchedulerAction s3 = ksSchedulerAction s2"
      "dom (tcb_heap s3) = dom (tcb_heap s2)"
    using Cons.IH [where s = s2 and p = t and h = "tcbEPNext x" and fuel = fuel', OF _ _ _ s2(2)]
      Cons.prems(2,3,5) fuel dm by auto
  have "\<exists>z. tcb_heap s3 u = Some z
      \<and> tsType (tcbState z) = (if u \<in> set (t # xs) then ThreadState_Restart else tsType (tcbState y))"
    if u: "tcb_heap s u = Some y" for u y
  proof -
    let ?y = "if u = t then set_tsType ThreadState_Restart x else y"
    have "tcb_heap ?s1 u = Some ?y" using u by simp
    then obtain w where w: "tcb_heap s2 u = Some w" "tsType (tcbState w) = tsType (tcbState ?y)"
      using sched_frame_field [OF s2(3), of u ?y "\<lambda>t. tsType (tcbState t)"] by fastforce
    from s3(3) [rule_format, OF w(1)] w(2) show ?thesis by auto
  qed
  moreover have "cancel_signals_loop fuel h s = Some (Inr s3)"
    using s2(1) s3(1) t fuel by (subst cancel_signals_loop.simps) simp
  ultimately show ?case
    using s3 s2(4) dm sched_frame_rest(2) [OF s2(3)] by (intro exI [of _ s3]) auto
qed

lemma cancel_all_spec:
  assumes n: "ntfn_heap s p = Some n" "ntfn_state n = NtfnState_Waiting"
    and links: "ep_links s (ucast (ntfnQueueHead n)) xs e"
    and rep: "ready_rep s rs" and ok: "action_ok s" and fuel: "length xs \<le> fuel"
  shows "\<exists>s' ys. cancel_allSignals fuel p s = Some (Inr s') \<and> ready_rep s' ys
    \<and> set ys = set xs \<union> set rs \<union> action_thread s
    \<and> ksSchedulerAction s' = SchedulerAction_ChooseNewThread
    \<and> (\<forall>t\<in>set xs. \<exists>y. tcb_heap s' t = Some y \<and> tsType (tcbState y) = ThreadState_Restart)
    \<and> ntfn_heap s' p = Some (n\<lparr>ntfn_state := NtfnState_Idle, ntfnQueueHead := 0, ntfnQueueTail := 0\<rparr>)"
proof -
  let ?n = "n\<lparr>ntfn_state := NtfnState_Idle, ntfnQueueHead := 0, ntfnQueueTail := 0\<rparr>"
  let ?s1 = "s\<lparr>ntfn_heap := (ntfn_heap s)(p \<mapsto> ?n)\<rparr>"
  note l = ep_linksD [OF links]
  have seg: "dseg (link tcbEPNext (tcb_heap ?s1)) (link tcbEPPrev (tcb_heap s)) 0
      (ucast (ntfnQueueHead n)) xs e 0" and dm: "set xs \<subseteq> dom (tcb_heap ?s1)"
    and rp: "ready_rep ?s1 rs"
    using l(1,3) rep by simp_all
  then obtain s2 where s2: "cancel_signals_loop fuel (ucast (ntfnQueueHead n)) ?s1 = Some (Inr s2)"
      "ready_rep s2 (fold List.insert xs rs)"
      "\<forall>t x. tcb_heap ?s1 t = Some x \<longrightarrow> (\<exists>y. tcb_heap s2 t = Some y
          \<and> tsType (tcbState y) = (if t \<in> set xs then ThreadState_Restart else tsType (tcbState x)))"
      "ntfn_heap s2 = ntfn_heap ?s1" "ksSchedulerAction s2 = ksSchedulerAction ?s1"
      "dom (tcb_heap s2) = dom (tcb_heap ?s1)"
    using cancel_loop [OF seg l(2) dm rp fuel] by blast
  have ok2: "action_ok s2" using ok action_ok_cong [of s2 s] s2(5,6) by simp
  obtain s3 ys where s3: "reschedule_required s2 = Inr s3" "ready_rep s3 ys"
      "set ys = set (fold List.insert xs rs) \<union> action_thread s2"
      "ksSchedulerAction s3 = SchedulerAction_ChooseNewThread"
    using reschedule_spec [OF s2(2) ok2] by blast
  note frame = sched_ops_frame(1) [OF s3(1)]
  have ins: "set (fold List.insert xs rs) = set xs \<union> set rs" for xs rs :: "u64 list"
    by (induction xs arbitrary: rs) auto
  have "action_thread s2 = action_thread s" using s2(5) by (intro action_thread_cong) simp
  moreover have "cancel_allSignals fuel p s = Some (Inr s3)"
    using n s2(1) s3(1) by (simp add: cancel_allSignals_def get_ntfn_def mod_ntfn_Some Let_def)
  moreover have "\<exists>y. tcb_heap s3 t = Some y \<and> tsType (tcbState y) = ThreadState_Restart"
    if t: "t \<in> set xs" for t
  proof -
    obtain x where x: "tcb_heap ?s1 t = Some x" using l(3) t by auto
    obtain y where y: "tcb_heap s2 t = Some y" "tsType (tcbState y) = ThreadState_Restart"
      using s2(3) [rule_format, OF x] t by auto
    show ?thesis
      using sched_frame_field [OF frame y(1), of "\<lambda>t. tsType (tcbState t)"] y(2) by auto
  qed
  moreover have "ntfn_heap s3 p = Some ?n" using sched_frame_rest(2) [OF frame] s2(4) by simp
  ultimately show ?thesis using s3(2-4) ins by blast
qed

end
