(* ===== verification/Frames.thy ===== *)
theory Frames
  imports Notif
begin

text \<open>
  What every kernel operation leaves alone, proved once for all operations by rules that follow
  the shape of their definitions: \<open>ok_post m P\<close> says that \<open>P\<close> holds of the result of \<open>m\<close> when it
  has one.
\<close>

named_theorems kf \<open>rules for \<open>ok_post\<close>\<close>

definition ok_post :: "'e + 'a \<Rightarrow> ('a \<Rightarrow> bool) \<Rightarrow> bool" where
  "ok_post m P \<longleftrightarrow> (\<forall>x. m = Inr x \<longrightarrow> P x)"

lemma ok_postD: "ok_post m P \<Longrightarrow> m = Inr x \<Longrightarrow> P x"
  by (simp add: ok_post_def)

lemma ok_post_bind:
  "ok_post m Q \<Longrightarrow> (\<And>x. Q x \<Longrightarrow> ok_post (f x) P) \<Longrightarrow> ok_post (bind_ok m f) P"
  by (cases m) (auto simp: ok_post_def)

lemma ok_post_Inl: "ok_post (Inl e) P"
  by (simp add: ok_post_def)

lemma ok_post_if:
  "(b \<Longrightarrow> ok_post m P) \<Longrightarrow> (\<not> b \<Longrightarrow> ok_post n P) \<Longrightarrow> ok_post (if b then m else n) P"
  by simp

lemma ok_post_any: "ok_post m (\<lambda>_. True)"
  by (simp add: ok_post_def)

text \<open>What a thread keeps for good: its trap frame, kernel stack, address space, saved context and buffer.\<close>

definition owned :: "Tcb \<Rightarrow> u64 \<times> u64 \<times> u64 \<times> u64 \<times> u64" where
  "owned t = (tcb_tf t, kStack t, tcb_pml4 t, tcb_context t, tcbIPCBuffer t)"

text \<open>\<open>kframe s s'\<close>: no object is created or destroyed, every thread keeps what it owns, no thread is
  switched to, no endpoint begins to wait for senders, and a pending choice of a new thread stays pending.\<close>

definition kframe :: "kstate \<Rightarrow> kstate \<Rightarrow> bool" where
  "kframe s s' \<longleftrightarrow>
     dom (tcb_heap s') = dom (tcb_heap s) \<and> dom (ep_heap s') = dom (ep_heap s)
     \<and> dom (ntfn_heap s') = dom (ntfn_heap s) \<and> dom (cte_heap s') = dom (cte_heap s)
     \<and> dom (word_heap s') = dom (word_heap s) \<and> tf_heap s' = tf_heap s
     \<and> (\<forall>p. map_option owned (tcb_heap s' p) = map_option owned (tcb_heap s p))
     \<and> ksCurThread s' = ksCurThread s \<and> oldThread s' = oldThread s \<and> hw_tss s' = hw_tss s
     \<and> hw_cr3 s' = hw_cr3 s \<and> length (excaprefs s') = length (excaprefs s)
     \<and> (\<forall>p ep'. ep_heap s' p = Some ep' \<and> ep_state ep' = EPState_Recv
          \<longrightarrow> (\<exists>ep. ep_heap s p = Some ep \<and> ep_state ep = EPState_Recv))
     \<and> (ksSchedulerAction s = SchedulerAction_ChooseNewThread
          \<longrightarrow> ksSchedulerAction s' = SchedulerAction_ChooseNewThread)"

lemma kframe_refl [simp]: "kframe s s"
  by (simp add: kframe_def)

lemma kframe_trans: "kframe s s1 \<Longrightarrow> kframe s1 s2 \<Longrightarrow> kframe s s2"
  unfolding kframe_def by metis

lemma kframe_owned:
  "kframe s s' \<Longrightarrow> tcb_heap s t = Some x \<Longrightarrow> \<exists>y. tcb_heap s' t = Some y \<and> owned y = owned x"
  unfolding kframe_def by (metis map_option_eq_Some option.simps(9))

lemma kframe_tf: "kframe s s' \<Longrightarrow> link tcb_tf (tcb_heap s') = link tcb_tf (tcb_heap s)"
proof
  fix p assume "kframe s s'"
  then have "map_option owned (tcb_heap s' p) = map_option owned (tcb_heap s p)" by (simp add: kframe_def)
  then show "link tcb_tf (tcb_heap s') p = link tcb_tf (tcb_heap s) p"
    by (auto simp: link_def owned_def split: option.splits)
qed

lemma kframe_glob [simp]:
  "kframe s (s'\<lparr>ksReadyQueues := q\<rparr>) = kframe s s'"
  "kframe s (s'\<lparr>currentSyscallError := e\<rparr>) = kframe s s'"
  "kframe s (s'\<lparr>currentLookupFault := f\<rparr>) = kframe s s'"
  by (simp_all add: kframe_def)

lemma kframe_choose:
  "kframe s s' \<Longrightarrow> kframe s (s'\<lparr>ksSchedulerAction := SchedulerAction_ChooseNewThread\<rparr>)"
  by (simp add: kframe_def)

lemma kframe_action:
  "kframe s s' \<Longrightarrow> ksSchedulerAction s' \<noteq> SchedulerAction_ChooseNewThread \<Longrightarrow>
    kframe s (s'\<lparr>ksSchedulerAction := a\<rparr>)"
  by (auto simp: kframe_def)

subsection \<open>Rules\<close>

lemma kf_bind2:
  "ok_post m (\<lambda>(a, s). kframe s0 s) \<Longrightarrow> (\<And>a s. kframe s0 s \<Longrightarrow> ok_post (f a s) P) \<Longrightarrow>
    ok_post (bind_ok m (\<lambda>(a, s). f a s)) P"
  by (cases m) (auto simp: ok_post_def)

lemma kf_bind3:
  "ok_post m (\<lambda>(a, b, s). kframe s0 s) \<Longrightarrow> (\<And>a b s. kframe s0 s \<Longrightarrow> ok_post (f a b s) P) \<Longrightarrow>
    ok_post (bind_ok m (\<lambda>(a, b, s). f a b s)) P"
  by (cases m) (auto simp: ok_post_def)

lemma kf_bind1:
  "ok_post m (kframe s0) \<Longrightarrow> (\<And>s. kframe s0 s \<Longrightarrow> ok_post (f s) P) \<Longrightarrow> ok_post (bind_ok m f) P"
  by (rule ok_post_bind)

lemma kf_read:
  "(\<And>x. ok_post (f x) P) \<Longrightarrow> ok_post (bind_ok (get_tcb s p) f) P"
  "(\<And>y. ok_post (g y) P) \<Longrightarrow> ok_post (bind_ok (get_ep s p) g) P"
  "(\<And>z. ok_post (h z) P) \<Longrightarrow> ok_post (bind_ok (get_ntfn s p) h) P"
  "(\<And>c. ok_post (k c) P) \<Longrightarrow> ok_post (bind_ok (get_cte s p) k) P"
  "(\<And>c. ok_post (l c) P) \<Longrightarrow> ok_post (bind_ok (get_word s p) l) P"
  "(\<And>c. ok_post (m c) P) \<Longrightarrow> ok_post (bind_ok (get_tf s p) m) P"
  by (auto intro: ok_post_bind [OF ok_post_any])

lemma kf_Inr:
  "kframe s0 s \<Longrightarrow> ok_post (Inr s) (kframe s0)"
  "kframe s0 s \<Longrightarrow> ok_post (Inr (a, s)) (\<lambda>(a, s). kframe s0 s)"
  "kframe s0 s \<Longrightarrow> ok_post (Inr (a, b, s)) (\<lambda>(a, b, s). kframe s0 s)"
  by (simp_all add: ok_post_def)

lemma owned_updates [simp, kf]:
  "owned (tcbState_update f t) = owned t" "owned (block_on_send p b g r d t) = owned t"
  "owned (t\<lparr>tcbBoundNotification := n\<rparr>) = owned t" "owned (t\<lparr>registers := rs\<rparr>) = owned t"
  "owned (t\<lparr>tcbSchedNext := a\<rparr>) = owned t" "owned (t\<lparr>tcbSchedPrev := a\<rparr>) = owned t"
  "owned (t\<lparr>tcbEPNext := a\<rparr>) = owned t" "owned (t\<lparr>tcbEPPrev := a\<rparr>) = owned t"
  by (simp_all add: block_on_send_def owned_def)

lemma kf_mod_tcb [kf]:
  assumes "kframe s0 s" and "\<And>t. owned (f t) = owned t"
  shows "ok_post (mod_tcb p f s) (kframe s0)"
proof (cases "tcb_heap s p")
  case (Some t)
  then have "map_option owned (((tcb_heap s)(p \<mapsto> f t)) q) = map_option owned (tcb_heap s q)" for q
    using assms(2) by simp
  moreover have "dom ((tcb_heap s)(p \<mapsto> f t)) = dom (tcb_heap s)" using Some by auto
  ultimately show ?thesis
    using assms(1) Some by (simp add: ok_post_def mod_tcb_Some kframe_def)
qed (simp add: ok_post_def mod_tcb_def get_tcb_def)

lemma kf_mod [kf]:
  assumes "kframe s0 s"
  shows "ok_post (mod_ntfn p g s) (kframe s0)"
    "ok_post (mod_cte p h s) (kframe s0)" "ok_post (mod_word p w s) (kframe s0)"
  using assms
  by (auto simp: ok_post_def access_simps read_at_def kframe_def split: option.splits)

lemma kf_mod_ep [kf]:
  assumes "kframe s0 s" and "\<And>e. ep_state (f e) = EPState_Recv \<Longrightarrow> ep_state e = EPState_Recv"
  shows "ok_post (mod_ep p f s) (kframe s0)"
  using assms
  by (auto simp: ok_post_def access_simps read_at_def kframe_def split: option.splits if_splits)

lemmas kf_rules = kf_Inr ok_post_Inl kf_bind3 kf_bind2 kf_read kf_bind1 ok_post_if

lemma kf_enqueue [kf]: "kframe s0 s \<Longrightarrow> ok_post (tcb_sched_enqueue t s) (kframe s0)"
  unfolding tcb_sched_enqueue_def Let_def
  by (rule kf_rules kf | assumption | simp)+

lemma kf_ep_append [kf]:
  "kframe s0 s \<Longrightarrow> ok_post (tcb_ep_append r t q s) (\<lambda>(q, s). kframe s0 s)"
  unfolding tcb_ep_append_def Let_def
  by (rule kf_rules kf | assumption | simp)+

lemma kf_ep_dequeue [kf]:
  "kframe s0 s \<Longrightarrow> ok_post (tcb_ep_dequeue t q s) (\<lambda>(q, s). kframe s0 s)"
  unfolding tcb_ep_dequeue_def Let_def
  by (rule kf_rules kf | assumption | simp)+

lemma kf_reschedule [kf]: "kframe s0 s \<Longrightarrow> ok_post (reschedule_required s) (kframe s0)"
  unfolding reschedule_required_def by (rule kf_rules kf kframe_choose | assumption | simp)+

lemma kf_possible_switch [kf]: "kframe s0 s \<Longrightarrow> ok_post (possible_switch_to t s) (kframe s0)"
  unfolding possible_switch_to_def
  by (rule kf_rules kf kframe_action | assumption | simp add: sched_action_defs)+

lemma kf_sched [kf]:
  "kframe s0 s \<Longrightarrow> ok_post (tcb_sched_append t s) (kframe s0)"
  "kframe s0 s \<Longrightarrow> ok_post (tcb_sched_dequeue t s) (kframe s0)"
  "kframe s0 s \<Longrightarrow> ok_post (schedule_tcb t s) (kframe s0)"
  unfolding tcb_sched_append_def tcb_sched_dequeue_def schedule_tcb_def Let_def
  by (rule kf_rules kf | assumption | simp)+

lemma kf_set_threadState [kf]: "kframe s0 s \<Longrightarrow> ok_post (set_threadState t ts s) (kframe s0)"
  unfolding set_threadState_def by (rule kf_rules kf | assumption | simp)+

lemma kf_set_register [kf]: "kframe s0 s \<Longrightarrow> ok_post (set_register t r w s) (kframe s0)"
  unfolding set_register_def by (rule kf_rules kf | assumption | simp)+

subsection \<open>Transfers\<close>

lemma kf_read_more:
  "(\<And>x. ok_post (f x) P) \<Longrightarrow> ok_post (bind_ok (lookup_ipc_buffer b t s) f) P"
  "(\<And>x. ok_post (g x) P) \<Longrightarrow> ok_post (bind_ok (get_extra_cptr b' i s) g) P"
  "(\<And>x. ok_post (h x) P) \<Longrightarrow> ok_post (bind_ok (lookup_slot u t c s) h) P"
  "(\<And>x. ok_post (k x) P) \<Longrightarrow> ok_post (bind_ok (lookup_cap u uc t c s) k) P"
  "(\<And>x. ok_post (l x) P) \<Longrightarrow> ok_post (bind_ok (load_cap_transfer b' s) l) P"
  by (auto intro: ok_post_bind [OF ok_post_any])

lemma kf_excapref [kf]: "kframe s0 s \<Longrightarrow> ok_post (set_excapref i p s) (kframe s0)"
  by (simp add: set_excapref_def ok_post_def kframe_def)

lemma kf_extra_badge [kf]: "kframe s0 s \<Longrightarrow> ok_post (set_extra_badge b w i s) (kframe s0)"
  unfolding set_extra_badge_def by (rule kf_rules kf | assumption | simp)+

lemma kf_extra_loop [kf]:
  "kframe s0 s \<Longrightarrow> ok_post (extra_caps_loop un t b n i s) (\<lambda>(a, b, s). kframe s0 s)"
proof (induction n arbitrary: i s)
  case 0
  then show ?case by (simp add: ok_post_def)
next
  case (Suc n)
  show ?case
    unfolding extra_caps_loop.simps
    by (rule kf_read_more kf_rules kf Suc | assumption)+
qed

lemma kf_lookup_extra [kf]:
  "kframe s0 s \<Longrightarrow> ok_post (lookup_extra_caps un t b info s) (\<lambda>(a, s). kframe s0 s)"
  unfolding lookup_extra_caps_def by (rule kf_read_more kf_rules kf | assumption | simp)+

lemma kf_copy_word [kf]: "kframe s0 s \<Longrightarrow> ok_post (copy_word a b i s) (kframe s0)"
  unfolding copy_word_def by (rule kf_rules kf | assumption)+

lemma kf_fold:
  "(\<And>x s. kframe s0 s \<Longrightarrow> ok_post (f x s) (kframe s0)) \<Longrightarrow> kframe s0 s \<Longrightarrow>
    ok_post (fold_ok f xs s) (kframe s0)"
proof (induction xs arbitrary: s)
  case Nil
  then show ?case by (simp add: ok_post_def)
next
  case (Cons x xs)
  show ?case unfolding fold_ok.simps by (rule kf_bind1 Cons | assumption)+
qed

lemma kf_copyMRs [kf]: "kframe s0 s \<Longrightarrow> ok_post (copyMRs un a b c d n s) (\<lambda>(a, s). kframe s0 s)"
  unfolding copyMRs_def by (rule kf_rules kf kf_fold | assumption)+

lemma kf_cte_insert [kf]: "kframe s0 s \<Longrightarrow> ok_post (cte_insert c a b s) (kframe s0)"
  unfolding cte_insert_def Let_def by (rule kf_rules kf | assumption)+

lemma kf_transfer_loop [kf]:
  "kframe s0 s \<Longrightarrow> ok_post (transfer_caps_loop un ep b n i d info s) (\<lambda>(a, b, s). kframe s0 s)"
proof (induction n arbitrary: i d info s)
  case 0
  then show ?case by (simp add: ok_post_def)
next
  case (Suc n)
  obtain st dc where un: "un_derive un i = (st, dc)" by fastforce
  show ?case
    unfolding transfer_caps_loop.simps Let_def un prod.case
    by (rule kf_rules kf Suc | assumption)+
qed

lemma kf_target:
  "kframe s0 s \<Longrightarrow> (\<And>r s'. kframe s0 s' \<Longrightarrow> ok_post (f r s') P) \<Longrightarrow>
    ok_post (case lookup_target_slot u root p d s of (r, s') \<Rightarrow> f r s') P"
proof -
  assume "kframe s0 s" and f: "\<And>r s'. kframe s0 s' \<Longrightarrow> ok_post (f r s') P"
  then have "kframe s0 (snd (lookup_target_slot u root p d s))"
    by (simp add: lookup_target_slot_def lookup_slot_for_cnode_op_def Let_def)
  with f show ?thesis by (simp add: split_beta)
qed

lemma kf_receive_slots [kf]:
  "kframe s0 s \<Longrightarrow> ok_post (get_receive_slots u uc u' t b s) (\<lambda>(a, s). kframe s0 s)"
  unfolding get_receive_slots_def Let_def
  by (rule kf_target kf_read_more kf_rules kf | assumption)+

lemma kf_transfer_caps [kf]:
  "kframe s0 s \<Longrightarrow> ok_post (transfer_caps un info ep t b s) (\<lambda>(a, s). kframe s0 s)"
  unfolding transfer_caps_def Let_def by (rule kf_rules kf | assumption)+

lemma kf_normal_transfer [kf]:
  "kframe s0 s \<Longrightarrow> ok_post (do_normal_transfer un a b ep w g t r s) (kframe s0)"
  unfolding do_normal_transfer_def Let_def by (rule kf_rules kf | assumption)+

lemma kf_ipc_transfer [kf]:
  "kframe s0 s \<Longrightarrow> ok_post (do_ipc_transfer un a ep w g t s) (kframe s0)"
  unfolding do_ipc_transfer_def do_fault_transfer_def
  by (rule kf_read_more kf_rules kf | assumption)+

subsection \<open>Endpoints and notifications\<close>

lemma epptr_set_state [simp]: "ep_state (epptr_set_queue q e) = ep_state e"
  by (simp add: epptr_set_queue_def)

lemma kf_ep_remove [kf]: "kframe s0 s \<Longrightarrow> ok_post (ep_remove t p s) (kframe s0)"
  unfolding ep_remove_def Let_def by (rule kf_rules kf | assumption | simp)+

lemma kf_ep_take_head [kf]: "kframe s0 s \<Longrightarrow> ok_post (ep_take_head p s) (\<lambda>(a, s). kframe s0 s)"
  unfolding ep_take_head_def Let_def by (rule kf_rules kf | assumption)+

lemma kf_complete [kf]: "kframe s0 s \<Longrightarrow> ok_post (complete_signal p t s) (kframe s0)"
  unfolding complete_signal_def Let_def by (rule kf_rules kf | assumption)+

lemma kf_send_ipc [kf]: "kframe s0 s \<Longrightarrow> ok_post (send_ipc un b d w g r t p s) (kframe s0)"
  unfolding send_ipc_def setup_caller_cap_def Let_def
  by (rule kf_rules kf | assumption | simp)+

lemma kf_receive_ipc [kf]: "kframe s0 s \<Longrightarrow> ok_post (receive_ipc un t cap b s) (kframe s0)"
  unfolding receive_ipc_def setup_caller_cap_def Let_def
  by (rule kf_rules kf ok_post_bind [OF ok_post_any] | assumption)+

lemma kf_cancel_ipc [kf]: "kframe s0 s \<Longrightarrow> ok_post (cancel_ipc t s) (kframe s0)"
  unfolding cancel_ipc_def cancel_blocked_def Let_def
  by (auto intro!: kf_rules kf split: ThreadStateType.split)

lemma kf_ntfn_active [kf]: "kframe s0 s \<Longrightarrow> ok_post (ntfn_set_active p w s) (kframe s0)"
  unfolding ntfn_set_active_def by (rule kf_rules kf | assumption)+

lemma kf_signal_waiting [kf]: "kframe s0 s \<Longrightarrow> ok_post (signal_waiting un p w s) (kframe s0)"
  unfolding signal_waiting_def Let_def by (rule kf_rules kf | assumption)+

lemma kf_send_signal [kf]: "kframe s0 s \<Longrightarrow> ok_post (send_signal un p w s) (kframe s0)"
  unfolding send_signal_def Let_def
  by (auto intro!: kf_rules kf split: NotificationState.split)

lemma kf_receive_signal [kf]: "kframe s0 s \<Longrightarrow> ok_post (receive_signal un t cap b s) (kframe s0)"
  unfolding receive_signal_def Let_def by (rule kf_rules kf | assumption)+

lemma kf_cancel_signal [kf]: "kframe s0 s \<Longrightarrow> ok_post (cancel_signal un t p s) (kframe s0)"
  unfolding cancel_signal_def by (rule kf_rules kf | assumption)+

lemma kf_unbind [kf]: "kframe s0 s \<Longrightarrow> ok_post (do_unbind_notification p t s) (kframe s0)"
  unfolding do_unbind_notification_def by (rule kf_rules kf | assumption)+

lemma kf_binding [kf]:
  "kframe s0 s \<Longrightarrow> ok_post (unbind_maybe_notification p s) (kframe s0)"
  "kframe s0 s \<Longrightarrow> ok_post (unbind_notification t s) (kframe s0)"
  "kframe s0 s \<Longrightarrow> ok_post (bind_notification t p s) (kframe s0)"
  unfolding unbind_maybe_notification_def unbind_notification_def bind_notification_def Let_def
  by (rule kf_rules kf | assumption)+

lemma kf_cancel_loop:
  "kframe s0 s \<Longrightarrow> cancel_signals_loop fuel h s = Some (Inr s') \<Longrightarrow> kframe s0 s'"
proof (induction fuel arbitrary: h s)
  case 0
  then show ?case by (subst (asm) cancel_signals_loop.simps) (simp split: if_splits)
next
  case (Suc fuel)
  show ?case
  proof (cases "h = 0")
    case True
    with Suc.prems show ?thesis by (subst (asm) cancel_signals_loop.simps) simp
  next
    case False
    let ?step = "bind_ok (mod_tcb h (set_tsType ThreadState_Restart) s) (\<lambda>s.
              bind_ok (tcb_sched_enqueue h s) (\<lambda>s.
              bind_ok (get_tcb s h) (\<lambda>t. Inr (tcbEPNext t, s))))"
    have "ok_post ?step (\<lambda>(a, s). kframe s0 s)"
      by (rule kf_rules kf Suc.prems | assumption)+
    moreover obtain h' s1 where s1: "?step = Inr (h', s1)"
        "cancel_signals_loop fuel h' s1 = Some (Inr s')"
      using Suc.prems(2) False
      by (subst (asm) cancel_signals_loop.simps) (auto split: sum.splits)
    ultimately have "kframe s0 s1" by (auto dest: ok_postD)
    from Suc.IH [OF this s1(2)] show ?thesis .
  qed
qed

lemma kf_cancel_all:
  assumes "kframe s0 s" and "cancel_allSignals fuel p s = Some (Inr s')"
  shows "kframe s0 s'"
proof (cases "ntfn_heap s p")
  case None
  with assms show ?thesis by (simp add: cancel_allSignals_def get_ntfn_def)
next
  case (Some n)
  show ?thesis
  proof (cases "ntfn_state n = NtfnState_Waiting")
    case False
    with Some assms show ?thesis by (simp add: cancel_allSignals_def get_ntfn_def)
  next
    case True
    let ?s = "s\<lparr>ntfn_heap := (ntfn_heap s)(p \<mapsto>
      n\<lparr>ntfn_state := NtfnState_Idle, ntfnQueueHead := 0, ntfnQueueTail := 0\<rparr>)\<rparr>"
    obtain s1 where s1: "cancel_signals_loop fuel (ucast (ntfnQueueHead n)) ?s = Some (Inr s1)"
        "reschedule_required s1 = Inr s'"
      using assms(2) True Some
      by (auto simp: cancel_allSignals_def get_ntfn_def mod_ntfn_Some Let_def bind_ok_Inr_iff)
    have "kframe s0 ?s" using assms(1) Some by (auto simp: kframe_def)
    then have "kframe s0 s1" using s1(1) by (rule kf_cancel_loop)
    from ok_postD [OF kf_reschedule [OF this] s1(2)] show ?thesis .
  qed
qed

subsection \<open>The kernel's communication as a state machine\<close>

text \<open>A step is any operation of the component, with any arguments and any values in the variables
  the code does not set, that returns.\<close>

inductive ipc_step :: "kstate \<Rightarrow> kstate \<Rightarrow> bool" where
  step_send: "send_ipc un b d w g r t p s = Inr s' \<Longrightarrow> ipc_step s s'"
| step_receive: "receive_ipc un t cap b s = Inr s' \<Longrightarrow> ipc_step s s'"
| step_cancel: "cancel_ipc t s = Inr s' \<Longrightarrow> ipc_step s s'"
| step_signal: "send_signal un p w s = Inr s' \<Longrightarrow> ipc_step s s'"
| step_wait: "receive_signal un t cap b s = Inr s' \<Longrightarrow> ipc_step s s'"
| step_cancel_all: "cancel_allSignals fuel p s = Some (Inr s') \<Longrightarrow> ipc_step s s'"
| step_cancel_signal: "cancel_signal un t p s = Inr s' \<Longrightarrow> ipc_step s s'"
| step_bind: "bind_notification t p s = Inr s' \<Longrightarrow> ipc_step s s'"
| step_unbind: "unbind_notification t s = Inr s' \<Longrightarrow> ipc_step s s'"
| step_unbind_maybe: "unbind_maybe_notification p s = Inr s' \<Longrightarrow> ipc_step s s'"
| step_wake: "possible_switch_to t s = Inr s' \<Longrightarrow> ipc_step s s'"
| step_set_state: "set_threadState t ts s = Inr s' \<Longrightarrow> ipc_step s s'"

inductive_cases ipc_stepE: "ipc_step s s'"

lemma ipc_step_frame: "ipc_step s s' \<Longrightarrow> kframe s s'"
  by (induction rule: ipc_step.induct)
    (erule kf_cancel_all [OF kframe_refl] | (rule ok_postD, rule kf, rule kframe_refl, assumption))+

lemma ipc_steps_frame: "ipc_step\<^sup>*\<^sup>* s s' \<Longrightarrow> kframe s s'"
  by (induction rule: rtranclp_induct) (auto intro: ipc_step_frame kframe_trans)

definition no_receiver :: "kstate \<Rightarrow> bool" where
  "no_receiver s \<longleftrightarrow> (\<forall>p ep. ep_heap s p = Some ep \<longrightarrow> ep_state ep \<noteq> EPState_Recv)"

lemma no_receiver_frame: "kframe s s' \<Longrightarrow> no_receiver s \<Longrightarrow> no_receiver s'"
  unfolding kframe_def no_receiver_def by blast

text \<open>Without a receiver a send moves no message: it blocks or does nothing.\<close>

lemma same_but_links_trans:
  "same_but_links s s1 \<Longrightarrow> same_but_links s1 s2 \<Longrightarrow> same_but_links s s2"
  by (cases s, cases s1, cases s2) (simp add: same_but_links_def)

lemma mod_link_same:
  "mod_tcb p (\<lambda>x. x\<lparr>tcbEPNext := n\<rparr>) s = Inr s' \<Longrightarrow> same_but_links s s'"
  "mod_tcb p (\<lambda>x. x\<lparr>tcbEPPrev := n\<rparr>) s = Inr s' \<Longrightarrow> same_but_links s s'"
  by (cases "tcb_heap s p"; auto simp: access_simps same_but_links_def)+

lemma ep_append_same:
  assumes "tcb_ep_append r t q s = Inr (q', s')"
  shows "same_but_links s s'"
proof -
  have tail: "same_but_links s1 s'"
    if "bind_ok (mod_tcb t (\<lambda>x. x\<lparr>tcbEPPrev := a\<rparr>) s1) (\<lambda>s.
      bind_ok (mod_tcb t (\<lambda>x. x\<lparr>tcbEPNext := 0\<rparr>) s) (\<lambda>s. Inr (r, s))) = Inr (q', s')" for s1 a
    using that by (auto simp: bind_ok_Inr_iff intro: same_but_links_trans mod_link_same)
  show ?thesis
  proof (cases "q_head q = 0")
    case True
    with assms show ?thesis by (intro tail) (simp add: tcb_ep_append_def)
  next
    case False
    with assms obtain s1 where s1: "mod_tcb (q_end q) (\<lambda>x. x\<lparr>tcbEPNext := t\<rparr>) s = Inr s1"
        "same_but_links s1 s'"
      by (auto simp: tcb_ep_append_def bind_ok_Inr_iff
          intro: same_but_links_trans mod_link_same)
    from same_but_links_trans [OF mod_link_same(1) [OF s1(1)] s1(2)] show ?thesis .
  qed
qed

lemma send_without_receiver:
  assumes "no_receiver s" and "send_ipc un b d w g r t p s = Inr s'"
  shows "word_heap s' = word_heap s \<and> (\<not> b \<longrightarrow> s' = s)
    \<and> (b \<longrightarrow> (\<exists>x. tcb_heap s' t = Some x \<and> tsType (tcbState x) = ThreadState_BlockedOnSend
        \<and> blockingIPCBadge (tcbState x) = w))"
proof (cases b)
  case False
  with assms show ?thesis
    by (auto simp: send_ipc_def bind_ok_Inr_iff no_receiver_def get_ep_def read_at_Inr_iff
        split: if_splits)
      (metis EndpointState.exhaust)+
next
  case True
  obtain ep where ep: "ep_heap s p = Some ep" "ep_state ep \<noteq> EPState_Recv"
    using assms by (auto simp: send_ipc_def bind_ok_Inr_iff no_receiver_def get_ep_def read_at_Inr_iff)
  then have "ep_state ep = EPState_Idle \<or> ep_state ep = EPState_Send" by (cases "ep_state ep") auto
  then obtain s1 s2 q s3 where s: "mod_tcb t (block_on_send p w g r d) s = Inr s1"
      "tcb_ep_append (un_queue un) t (epptr_get_queue ep) s1 = Inr (q, s2)"
      "mod_ep p (\<lambda>e. e\<lparr>ep_state := EPState_Send\<rparr>) s2 = Inr s3"
      "mod_ep p (epptr_set_queue q) s3 = Inr s'"
    using assms(2) True ep
    by (auto simp: send_ipc_def bind_ok_Inr_iff get_ep_def Let_def)
  have tcb: "tcb_heap s' = tcb_heap s2" "word_heap s' = word_heap s2"
    using s(3,4) by (auto simp: mod_ep_def bind_ok_Inr_iff)
  obtain x where x: "tcb_heap s t = Some x" "s1 = s\<lparr>tcb_heap := (tcb_heap s)(t \<mapsto> block_on_send p w g r d x)\<rparr>"
    using s(1) by (cases "tcb_heap s t") (auto simp: access_simps)
  note same = ep_append_same [OF s(2)]
  obtain y where "tcb_heap s2 t = Some y" "tcbState y = tcbState (block_on_send p w g r d x)"
    using same_but_links_field [OF same, of t "block_on_send p w g r d x" tcbState] x by auto
  with tcb True same_but_links_rest(6) [OF same] x show ?thesis
    by (simp add: block_on_send_def)
qed

end
