(* ===== verification/IpcProps.thy ===== *)
theory IpcProps
  imports Frames Objects Fixtures
begin

text \<open>
  Properties of endpoints, message transfer and notifications (\<open>src/object/endpoint.c\<close>,
  \<open>src/object/notification.c\<close>, \<open>src/kernel/thread.c\<close>, \<open>src/object/tcb.c\<close>).
\<close>

subsection \<open>A concrete system\<close>

text \<open>A sender at 0x1000, blocked on the endpoint at 0xFFFFFFFF80300000 with badge 7 and a message of
  two words, and a receiver at 0x2000.\<close>

definition blank_tf :: Trapframe where
  "blank_tf = \<lparr>tf_rax = 0, tf_rbx = 0, tf_rcx = 0, tf_rdx = 0, tf_rbp = 0, tf_rsi = 0, tf_rdi = 0,
     tf_r8 = 0, tf_r9 = 0, tf_r10 = 0, tf_r11 = 0, tf_r12 = 0, tf_r13 = 0, tf_r14 = 0, tf_r15 = 0,
     tf_trapno = 0, tf_err = 0, tf_rip = 0, tf_cs = 0, tf_eflags = 0, tf_rsp = 0, tf_ds = 0\<rparr>"

definition msg_tf :: Trapframe where "msg_tf = blank_tf\<lparr>tf_rsi := 0x0400000000000000\<rparr>"

definition ep_sender :: Tcb where
  "ep_sender = blank_tcb\<lparr>tcb_tf := 0x5000, tcbIPCBuffer := 0x10000,
     tcbState := (tcbState blank_tcb)\<lparr>tsType := ThreadState_BlockedOnSend,
       blockingIPCBadge := 7, blockingIPCCanGrant := True\<rparr>\<rparr>"

definition ep_receiver :: Tcb where "ep_receiver = blank_tcb\<lparr>tcbIPCBuffer := 0x20000\<rparr>"

definition ep_state1 :: kstate where
  "ep_state1 = blank_state\<lparr>
     tcb_heap := [0x1000 \<mapsto> ep_sender, 0x2000 \<mapsto> ep_receiver], tf_heap := [0x5000 \<mapsto> msg_tf],
     word_heap := [0x10008 \<mapsto> 11, 0x10010 \<mapsto> 22, 0x20008 \<mapsto> 0, 0x20010 \<mapsto> 0],
     ep_heap := [0xFFFFFFFF80300000 \<mapsto>
       \<lparr>epQueueHead = 0x1000, epQueueTail = 0x1000, ep_state = EPState_Send\<rparr>]\<rparr>"

definition ep_cap :: Cap where
  "ep_cap = new_endpoint_cap \<lparr>cap_w0 = 0, cap_w1 = 0, cap_w2 = 0\<rparr> 0xFFFFFFFF80300000"

definition un0 :: Uninit where
  "un0 = \<lparr>un_slot_status = (\<lambda>_. 0), un_root_status = 0, un_root_cap = ep_cap,
     un_target_status = 0, un_derive = (\<lambda>_. (0, ep_cap)), un_mrs = 2,
     un_queue = \<lparr>q_head = 0x1000, q_end = 0x1000\<rparr>, un_end = 0\<rparr>"

lemma ep_cap_endpoint [simp]: "cap_endpoint ep_cap = 0xFFFFFFFF80300000"
  unfolding ep_cap_def by code_simp

lemma ep_state1_heaps [simp]:
  "tcb_heap ep_state1 = [0x1000 \<mapsto> ep_sender, 0x2000 \<mapsto> ep_receiver]"
  "tf_heap ep_state1 = [0x5000 \<mapsto> msg_tf]"
  "ep_heap ep_state1 = [0xFFFFFFFF80300000 \<mapsto>
       \<lparr>epQueueHead = 0x1000, epQueueTail = 0x1000, ep_state = EPState_Send\<rparr>]"
  "word_heap ep_state1 = [0x10008 \<mapsto> 11, 0x10010 \<mapsto> 22, 0x20008 \<mapsto> 0, 0x20010 \<mapsto> 0]"
  "excaprefs ep_state1 = [0, 0, 0]"
  "ksSchedulerAction ep_state1 = SchedulerAction_ResumeCurrentThread"
  by (simp_all add: ep_state1_def blank_state_def)

lemma ep_tcb_fields [simp]:
  "tcb_tf ep_sender = 0x5000" "tcbIPCBuffer ep_sender = 0x10000" "tcbIPCBuffer ep_receiver = 0x20000"
  "osFaultType (tcbFault ep_sender) = NullFault" "length (registers ep_receiver) = 20"
  "blockingIPCCanGrant (tcbState ep_sender)" "\<not> blockingIPCIscall (tcbState ep_sender)"
  "blockingIPCBadge (tcbState ep_sender) = 7" "tcbBoundNotification ep_receiver = 0"
  "tcbEPNext ep_sender = 0" "tcbEPPrev ep_sender = 0"
  "\<not> tcbQueued (tcbState ep_sender)" "\<not> tcbQueued (tcbState ep_receiver)"
  by (simp_all add: ep_sender_def ep_receiver_def blank_tcb_def N_CONTEXT_REGISTERS_def)

lemma msg_tf_tag: "sender_tag msg_tf = \<lparr>mi_label = 0, capsUnwrapped = 0, extraCaps = 0, mi_length = 2\<rparr>"
  unfolding sender_tag_def msg_tf_def blank_tf_def by code_simp

lemma msg_len: "unat (mi_length (sender_tag msg_tf)) = 2"
  by (simp add: msg_tf_tag)

lemma less_two: "i < (2::nat) \<longleftrightarrow> i = 0 \<or> i = 1"
  by auto

lemma upt_two: "[0..<2] = [0, 1 :: nat]"
  by (simp add: numeral_2_eq_2)

lemma ep_state1_rep: "ep_rep ep_state1 0xFFFFFFFF80300000 [0x1000]"
  by (auto simp: ep_rep_def ep_links_def)

lemma ep_state1_ready: "ready_rep ep_state1 []" "action_ok ep_state1" "action_thread ep_state1 = {}"
  by (auto simp: ready_rep_def action_ok_def action_thread_def ep_state1_def blank_state_def
      split: if_splits)

lemma ep_state1_can: "can_transfer ep_state1 ep_sender msg_tf True ep_receiver"
  by (auto simp: can_transfer_def msg_len words_at_def word_addr_def less_two)

subsection \<open>Endpoints\<close>

text \<open>C7: Receiving takes the first waiting sender. When the endpoint's queue is \<open>sd # rest\<close>, no
  signal is pending for the receiver and the message carries no capability to move, \<open>receive_ipc\<close>
  succeeds: the endpoint's queue becomes \<open>rest\<close>, the words of the sender's buffer are copied into
  the receiver's, the receiver's registers hold the sender's badge and message tag, the sender is
  running again, and the threads waiting for the processor are those from before and the sender.\<close>

theorem receive_takes_first_sender:
  assumes "ep_rep s (cap_endpoint cap) (sd # rest)"
    and "tcb_heap s t = Some rt" and "ntfn_quiet s rt" and "t \<noteq> sd"
    and "tcb_heap s sd = Some st" and "\<not> blockingIPCIscall (tcbState st)"
    and "sd \<noteq> SchedulerAction_ChooseNewThread"
    and "can_transfer s st tf (blockingIPCCanGrant (tcbState st)) rt"
    and "ready_rep s xs" and "action_ok s"
  shows "\<exists>s' ys. receive_ipc un t cap isBlocking s = Inr s' \<and> ep_rep s' (cap_endpoint cap) rest
    \<and> word_heap s' = message_words st tf rt (word_heap s)
    \<and> (\<exists>r. tcb_heap s' t = Some r
        \<and> registers r = message_regs un tf (blockingIPCBadge (tcbState st)) rt)
    \<and> (\<exists>x. tcb_heap s' sd = Some x \<and> tsType (tcbState x) = ThreadState_Running)
    \<and> ready_rep s' ys \<and> set ys \<union> action_thread s' = insert sd (set xs \<union> action_thread s)"
  using assms by (rule receive_first_sender)

theorem receive_takes_first_sender_witness:
  "\<exists>s' ys. receive_ipc un0 0x2000 ep_cap True ep_state1 = Inr s'
    \<and> ep_rep s' 0xFFFFFFFF80300000 [] \<and> word_heap s' 0x20008 = Some 11 \<and> word_heap s' 0x20010 = Some 22
    \<and> (\<exists>r. tcb_heap s' 0x2000 = Some r \<and> registers r ! 0 = 7)
    \<and> set ys \<union> action_thread s' = {0x1000}"
proof -
  have quiet: "ntfn_quiet ep_state1 ep_receiver" by (simp add: ntfn_quiet_def)
  obtain s' ys r where s': "receive_ipc un0 0x2000 ep_cap True ep_state1 = Inr s'"
      "ep_rep s' (cap_endpoint ep_cap) []"
      "word_heap s' = message_words ep_sender msg_tf ep_receiver (word_heap ep_state1)"
      "tcb_heap s' 0x2000 = Some r" "registers r = message_regs un0 msg_tf 7 ep_receiver"
      "set ys \<union> action_thread s' = insert 0x1000 (set [] \<union> action_thread ep_state1)"
    using receive_takes_first_sender [of ep_state1 ep_cap "0x1000" "[]" "0x2000" ep_receiver ep_sender
        msg_tf "[]" un0 True] ep_state1_rep quiet ep_state1_ready(1,2) ep_state1_can
    by (auto simp: SchedulerAction_ChooseNewThread_def)
  have "word_heap s' 0x20008 = Some 11" "word_heap s' 0x20010 = Some 22"
    by (simp_all add: s'(3) message_words_def copied_def msg_len upt_two word_addr_def)
  moreover have "registers r ! 0 = 7"
    unfolding s'(5) by (simp add: message_regs_def msgInfoRegister_def badgeRegister_def)
  ultimately show ?thesis using s' ep_state1_ready(3) by auto
qed

text \<open>A message arrives unchanged. For buffers that do not overlap, a transfer without capabilities
  leaves in each of the receiver's message words the word the sender had there, changes no other
  word of memory, and sets the receiver's badge register to the sender's badge and its message
  register to a tag with the sender's label and no capabilities; no other register, thread,
  endpoint or capability changes.\<close>

theorem message_arrives:
  assumes can: "can_transfer s st tf grant rt"
    and at: "tcb_heap s sd = Some st" "tcb_heap s t = Some rt"
    and apart: "\<And>i j. i < unat (mi_length (sender_tag tf)) \<Longrightarrow> j < unat (mi_length (sender_tag tf)) \<Longrightarrow>
      word_addr (word_addr (tcbIPCBuffer rt) 1) i \<noteq> word_addr (word_addr (tcbIPCBuffer st) 1) j"
  shows "\<exists>s' r. do_ipc_transfer un sd ep badge grant t s = Inr s'
    \<and> (\<forall>i<unat (mi_length (sender_tag tf)). word_heap s' (word_addr (word_addr (tcbIPCBuffer rt) 1) i)
          = word_heap s (word_addr (word_addr (tcbIPCBuffer st) 1) i))
    \<and> (\<forall>p. (\<forall>i<unat (mi_length (sender_tag tf)). p \<noteq> word_addr (word_addr (tcbIPCBuffer rt) 1) i) \<longrightarrow>
          word_heap s' p = word_heap s p)
    \<and> tcb_heap s' = (tcb_heap s)(t \<mapsto> r)
    \<and> get_register s' t badgeRegister = Inr badge
    \<and> (\<exists>w. get_register s' t msgInfoRegister = Inr w
        \<and> mi_label (messageinfo_from_u64_raw w) = mi_label (sender_tag tf)
        \<and> extraCaps (messageinfo_from_u64_raw w) = 0)
    \<and> (\<forall>k. 2 \<le> k \<longrightarrow> k < length (registers rt) \<longrightarrow> get_register s' t k = get_register s t k)
    \<and> ep_heap s' = ep_heap s \<and> cte_heap s' = cte_heap s \<and> ntfn_heap s' = ntfn_heap s"
proof -
  let ?k = "unat (mi_length (sender_tag tf))"
  let ?s = "transferred un st tf badge t rt s"
  have run: "do_ipc_transfer un sd ep badge grant t s = Inr ?s" by (rule can_transfer_run [OF can at])
  have len: "2 \<le> length (registers rt)" using can by (simp add: can_transfer_def)
  have k: "?k \<le> 2 ^ 60" using sender_tag_length [of tf] by simp
  note copy = copied_disjoint [OF apart k]
  have regs: "tcb_heap ?s = (tcb_heap s)(t \<mapsto> rt\<lparr>registers := message_regs un tf badge rt\<rparr>)"
    by (simp add: transferred_alt)
  have r: "get_register ?s t j = (if j < length (registers rt) then Inr (message_regs un tf badge rt ! j)
      else Inl (OutOfBounds j))" for j
    by (simp add: get_register_def get_tcb_def regs message_regs_def)
  have "get_register ?s t badgeRegister = Inr badge"
    using len unfolding r by (auto simp: message_regs_def badgeRegister_def)
  moreover have "get_register ?s t msgInfoRegister = Inr (u64_from_messageinfo ((sender_tag tf)
      \<lparr>extraCaps := 0, capsUnwrapped := 0, mi_length := ucast (un_mrs un)\<rparr>))"
    using len unfolding r by (auto simp: message_regs_def badgeRegister_def msgInfoRegister_def)
  moreover have "\<forall>k. 2 \<le> k \<longrightarrow> k < length (registers rt) \<longrightarrow> get_register ?s t k = get_register s t k"
    unfolding r using at(2)
    by (auto simp: message_regs_def badgeRegister_def msgInfoRegister_def get_register_def get_tcb_def)
  ultimately show ?thesis
    using run regs copy
    by (intro exI [of _ ?s] exI [of _ "rt\<lparr>registers := message_regs un tf badge rt\<rparr>"])
      (simp add: transferred_def)
qed

theorem message_arrives_witness:
  "\<exists>s'. do_ipc_transfer un0 0x1000 0xFFFFFFFF80300000 7 True 0x2000 ep_state1 = Inr s'
    \<and> get_register s' 0x2000 badgeRegister = Inr 7 \<and> ep_heap s' = ep_heap ep_state1"
proof -
  have apart: "word_addr (word_addr (tcbIPCBuffer ep_receiver) 1) i
      \<noteq> word_addr (word_addr (tcbIPCBuffer ep_sender) 1) j"
    if "i < unat (mi_length (sender_tag msg_tf))" "j < unat (mi_length (sender_tag msg_tf))" for i j
    using that by (auto simp: msg_len word_addr_def less_two)
  show ?thesis
    using message_arrives [OF ep_state1_can _ _ apart, of "0x1000" "0x2000" un0 "0xFFFFFFFF80300000" 7]
    by auto
qed

text \<open>Receiving on an endpoint nobody waits on crashes instead of blocking: the idle case falls
  through into the case that takes a sender, which dereferences the null head of the queue,
  whether or not the caller asked to block.\<close>

theorem receive_on_idle_endpoint_faults:
  assumes "ep_rep s (cap_endpoint cap) []" and "tcb_heap s t = Some rt" and "ntfn_quiet s rt"
    and "tcb_heap s 0 = None"
  shows "receive_ipc un t cap isBlocking s = Inl (BadPtr 0)"
  using assms by (rule receive_idle_faults)

theorem receive_on_idle_endpoint_faults_witness:
  "receive_ipc un0 0x2000 ep_cap True (ep_state1\<lparr>ep_heap := [0xFFFFFFFF80300000 \<mapsto>
       \<lparr>epQueueHead = 0, epQueueTail = 0, ep_state = EPState_Idle\<rparr>]\<rparr>) = Inl (BadPtr 0)"
  by (rule receive_on_idle_endpoint_faults [where rt = ep_receiver])
    (auto simp: ep_rep_def ep_links_def ntfn_quiet_def)

text \<open>A blocking send queues the sender behind those already waiting: with the queue that
  \<open>tcb_ep_append\<close> computes as its result, a thread that is not on the endpoint's queue \<open>xs\<close>
  becomes its last element, marked as blocked on a send with its badge and rights, and the endpoint
  is in the sending state. The last waiting thread's address must fit the endpoint's 48-bit tail
  field.\<close>

theorem send_blocks_in_order:
  assumes "ep_rep s p xs" and "ep_heap s p = Some ep" and "ep_state ep \<noteq> EPState_Recv"
    and "tcb_heap s t = Some x" and "t \<noteq> 0" and "t \<notin> set xs"
    and "append_returns un t s p" and "xs = [] \<or> last xs < 2 ^ 48"
  shows "\<exists>s' y. send_ipc un True doCall badge canGrant canGrantReply t p s = Inr s'
    \<and> ep_rep s' p (xs @ [t]) \<and> ep_heap s' p = Some (y\<lparr>ep_state := EPState_Send\<rparr>)
    \<and> (\<exists>n q. tcb_heap s' t = Some ((block_on_send p badge canGrant canGrantReply doCall x)
          \<lparr>tcbEPNext := n, tcbEPPrev := q\<rparr>))
    \<and> ksReadyQueues s' = ksReadyQueues s \<and> ksSchedulerAction s' = ksSchedulerAction s
    \<and> word_heap s' = word_heap s"
  using assms by (rule send_blocks_spec)

theorem send_blocks_in_order_witness:
  "\<exists>s'. send_ipc (un0\<lparr>un_queue := \<lparr>q_head = 0x1000, q_end = 0x2000\<rparr>\<rparr>) True False 9 True True 0x2000
      0xFFFFFFFF80300000 ep_state1 = Inr s' \<and> ep_rep s' 0xFFFFFFFF80300000 [0x1000, 0x2000]"
proof -
  let ?un = "un0\<lparr>un_queue := \<lparr>q_head = 0x1000, q_end = 0x2000\<rparr>\<rparr>"
  have "append_returns ?un 0x2000 ep_state1 0xFFFFFFFF80300000"
    by (simp add: append_returns_def ep_appended_def epptr_get_queue_def)
  with send_blocks_in_order [of ep_state1 "0xFFFFFFFF80300000" "[0x1000]" _ "0x2000" ep_receiver ?un
      False 9 True True] ep_state1_rep
  show ?thesis by auto
qed

text \<open>A second sender on an endpoint crashes when the first one's TCB lies in the kernel's address
  range: the endpoint's tail field keeps 48 bits of the address, and appending behind it writes
  through the truncated pointer.\<close>

theorem second_sender_faults:
  assumes rep: "ep_rep s p (xs @ [l])" and st: "ep_heap s p = Some ep" "ep_state ep \<noteq> EPState_Recv"
    and t: "tcb_heap s t = Some x" and trunc: "tcb_heap s (take_bit 48 l) = None"
  shows "send_ipc un True doCall badge canGrant canGrantReply t p s = Inl (BadPtr (take_bit 48 l))"
proof -
  obtain e where e: "ep_links s (epQueueHead ep) (xs @ [l]) e" "epQueueTail ep = ucast e"
    using rep st(1) by (auto simp: ep_rep_def)
  have "e = l" using ep_links_last [OF e(1)] by simp
  then have tail: "q_end (epptr_get_queue ep) = take_bit 48 l"
    using ucast_down_up [of l, where 'b = 48] by (simp add: epptr_get_queue_def e(2))
  have "q_head (epptr_get_queue ep) \<noteq> 0"
    using dseg_head_null [OF ep_linksD(1) [OF e(1)]] by (simp add: epptr_get_queue_def)
  moreover have "take_bit 48 l \<noteq> t" using trunc t by auto
  ultimately have "tcb_ep_append (un_queue un) t (epptr_get_queue ep)
      (s\<lparr>tcb_heap := (tcb_heap s)(t \<mapsto> block_on_send p badge canGrant canGrantReply doCall x)\<rparr>)
      = Inl (BadPtr (take_bit 48 l))"
    using trunc tail by (subst ep_append_bad_end) simp_all
  with st t show ?thesis
    by (cases "ep_state ep") (simp_all add: send_ipc_def get_ep_def mod_tcb_Some Let_def)
qed

theorem second_sender_faults_witness:
  "send_ipc un0 True False 0 True True 0x2000 0x9000
     (blank_state\<lparr>tcb_heap := [0xFFFFFFFF80200400 \<mapsto> ep_sender, 0x2000 \<mapsto> ep_receiver],
       ep_heap := [0x9000 \<mapsto> \<lparr>epQueueHead = 0xFFFFFFFF80200400, epQueueTail = 0xFFFF80200400,
         ep_state = EPState_Send\<rparr>]\<rparr>)
   = Inl (BadPtr 0xFFFF80200400)"
proof -
  let ?s = "blank_state\<lparr>tcb_heap := [0xFFFFFFFF80200400 \<mapsto> ep_sender, 0x2000 \<mapsto> ep_receiver],
       ep_heap := [0x9000 \<mapsto> \<lparr>epQueueHead = 0xFFFFFFFF80200400, epQueueTail = 0xFFFF80200400,
         ep_state = EPState_Send\<rparr>]\<rparr>"
  have "ep_rep ?s 0x9000 ([] @ [0xFFFFFFFF80200400])" by (auto simp: ep_rep_def ep_links_def)
  moreover have "take_bit 48 (0xFFFFFFFF80200400 :: u64) = 0xFFFF80200400" by simp
  ultimately show ?thesis
    using second_sender_faults [of ?s "0x9000" "[]" "0xFFFFFFFF80200400"
      "\<lparr>epQueueHead = 0xFFFFFFFF80200400, epQueueTail = 0xFFFF80200400, ep_state = EPState_Send\<rparr>"
      "0x2000" ep_receiver] by simp
qed



text \<open>A send never delivers a message itself: in any state reachable from one without receiving
  endpoints, a send that returns has copied nothing; a non-blocking one has done nothing at all,
  and a blocking one leaves its thread blocked on the send with its badge.\<close>

theorem send_never_delivers:
  assumes "no_receiver s0" and "ipc_step\<^sup>*\<^sup>* s0 s"
    and "send_ipc un b d w g r t p s = Inr s'"
  shows "word_heap s' = word_heap s \<and> (\<not> b \<longrightarrow> s' = s)
    \<and> (b \<longrightarrow> (\<exists>x. tcb_heap s' t = Some x \<and> tsType (tcbState x) = ThreadState_BlockedOnSend
        \<and> blockingIPCBadge (tcbState x) = w))"
  using send_without_receiver [OF no_receiver_frame [OF ipc_steps_frame [OF assms(2)] assms(1)] assms(3)] .

theorem send_never_delivers_witness:
  "send_ipc un0 False False 5 True True 0x2000 0xFFFFFFFF80300000 ep_state1 = Inr ep_state1
   \<and> word_heap ep_state1 0x20008 = Some 0"
proof -
  have run: "send_ipc un0 False False 5 True True 0x2000 0xFFFFFFFF80300000 ep_state1 = Inr ep_state1"
    by (simp add: send_ipc_def get_ep_def)
  have "no_receiver ep_state1" by (simp add: no_receiver_def)
  from send_never_delivers [OF this rtranclp.rtrancl_refl run] run show ?thesis by simp
qed

text \<open>A message's capabilities reach at most one slot: \<open>transfer_caps\<close> changes the capability of
  no slot but one, that one is not the null slot and was free by the kernel's test, at most
  \<open>Os_MsgMaxExtraCaps\<close> capabilities are counted, and the label and length of the message stay.\<close>

theorem transfer_caps_fills_one_slot:
  assumes "transfer_caps un info ep t buf s = Inr (info', s')"
  shows "\<exists>d. (\<forall>p. p \<noteq> d \<longrightarrow> cap_at s' p = cap_at s p)
    \<and> (cap_at s' d \<noteq> cap_at s d \<longrightarrow> d \<noteq> 0
        \<and> (\<exists>c. cap_at s d = Some c \<and> Cap_capType c = tag_field cap_null_cap))
    \<and> unat (extraCaps info') \<le> Os_MsgMaxExtraCaps
    \<and> mi_label info' = mi_label info \<and> mi_length info' = mi_length info"
  using assms by (rule transfer_caps_caps)

theorem transfer_caps_fills_one_slot_witness:
  "\<exists>info' s' d. transfer_caps un0 (sender_tag msg_tf) 0 0x2000 0x20000 ep_state1 = Inr (info', s')
    \<and> (\<forall>p. p \<noteq> d \<longrightarrow> cap_at s' p = cap_at ep_state1 p) \<and> mi_length info' = 2"
proof -
  have run: "transfer_caps un0 (sender_tag msg_tf) 0 0x2000 0x20000 ep_state1
      = Inr ((sender_tag msg_tf)\<lparr>extraCaps := 0, capsUnwrapped := 0\<rparr>, ep_state1)"
    by (simp add: transfer_caps_def Let_def)
  from transfer_caps_fills_one_slot [OF run] run show ?thesis by (auto simp: msg_tf_tag)
qed

subsection \<open>Notifications\<close>

text \<open>Signals to an active notification merge: any sequence of them leaves it active with the
  bitwise or of its identifier and all their badges and changes nothing else, and completing the
  signal for a thread then puts that union into the thread's badge register and makes the
  notification idle.\<close>

theorem signals_merge:
  assumes n: "ntfn_heap s p = Some n" "ntfn_state n = NtfnState_Active"
    and t: "tcb_heap s t = Some x" "t \<noteq> 0" "registers x \<noteq> []"
  shows "\<exists>s1 s2. fold_ok (send_signal un p) bs s = Inr s1
    \<and> s1 = s\<lparr>ntfn_heap := (ntfn_heap s)(p \<mapsto> n\<lparr>ntfnMsgIdentifier :=
          fold (\<lambda>b a. a OR b) bs (ntfnMsgIdentifier n)\<rparr>)\<rparr>
    \<and> complete_signal p t s1 = Inr s2
    \<and> get_register s2 t badgeRegister = Inr (fold (\<lambda>b a. a OR b) bs (ntfnMsgIdentifier n))
    \<and> (\<exists>n'. ntfn_heap s2 p = Some n' \<and> ntfn_state n' = NtfnState_Idle)"
proof -
  let ?n = "n\<lparr>ntfnMsgIdentifier := fold (\<lambda>b a. a OR b) bs (ntfnMsgIdentifier n)\<rparr>"
  let ?s1 = "s\<lparr>ntfn_heap := (ntfn_heap s)(p \<mapsto> ?n)\<rparr>"
  have s1: "ntfn_heap ?s1 p = Some ?n" "ntfn_state ?n = NtfnState_Active" "tcb_heap ?s1 t = Some x"
    using n t by simp_all
  show ?thesis
    using active_signals [OF n, of un bs] complete_active [OF s1 t(2,3)] t(3)
    by (auto simp: get_register_def get_tcb_def badgeRegister_def simp del: fun_upd_apply) simp_all
qed

definition ntfn_state1 :: kstate where
  "ntfn_state1 = blank_state\<lparr>tcb_heap := [0x1000 \<mapsto> blank_tcb], ntfn_heap := [0x7000 \<mapsto>
     \<lparr>ntfnBoundTCB = 0, ntfnMsgIdentifier = 1, ntfnQueueHead = 0, ntfnQueueTail = 0,
      ntfn_state = NtfnState_Active\<rparr>]\<rparr>"

theorem signals_merge_witness:
  "\<exists>s1 s2. fold_ok (send_signal un0 0x7000) [2, 8] ntfn_state1 = Inr s1
    \<and> complete_signal 0x7000 0x1000 s1 = Inr s2 \<and> get_register s2 0x1000 badgeRegister = Inr 11"
proof -
  let ?n = "\<lparr>ntfnBoundTCB = 0, ntfnMsgIdentifier = 1, ntfnQueueHead = 0, ntfnQueueTail = 0,
      ntfn_state = NtfnState_Active\<rparr>"
  have "ntfn_heap ntfn_state1 0x7000 = Some ?n" "tcb_heap ntfn_state1 0x1000 = Some blank_tcb"
    by (simp_all add: ntfn_state1_def)
  moreover have "registers blank_tcb \<noteq> []" by (simp add: blank_tcb_def N_CONTEXT_REGISTERS_def)
  ultimately show ?thesis
    using signals_merge [of ntfn_state1 "0x7000" ?n "0x1000" blank_tcb un0 "[2, 8]"] by auto
qed

text \<open>Signalling an idle, unbound notification crashes: it records the badge and becomes active,
  but falls through into the case for waiting threads, which dereferences its empty queue.\<close>

theorem signal_idle_faults:
  assumes "ntfn_heap s p = Some n" and "ntfn_state n = NtfnState_Idle"
    and "ntfnBoundTCB n = 0" and "ntfnQueueTail n = 0" and "tcb_heap s 0 = None"
  shows "send_signal un p badge s = Inl (BadPtr 0)"
proof -
  let ?n = "n\<lparr>ntfn_state := NtfnState_Active, ntfnMsgIdentifier := badge\<rparr>"
  let ?s = "s\<lparr>ntfn_heap := (ntfn_heap s)(p \<mapsto> ?n)\<rparr>"
  have "ntfn_set_active p badge s = Inr ?s"
    using assms(1) by (simp add: ntfn_set_active_def mod_ntfn_Some)
  moreover have "q_head (ntfn_ptr_get_queue (un_end un) ?n) = 0"
    using assms(4) by (simp add: ntfn_ptr_get_queue_def Let_def)
  ultimately show ?thesis
    using assms ep_dequeue_null [of ?s]
    by (simp add: send_signal_def signal_waiting_def get_ntfn_def Let_def)
qed

theorem signal_idle_faults_witness:
  "send_signal un0 0x7000 5 (blank_state\<lparr>ntfn_heap := [0x7000 \<mapsto>
     \<lparr>ntfnBoundTCB = 0, ntfnMsgIdentifier = 1, ntfnQueueHead = 0, ntfnQueueTail = 0,
      ntfn_state = NtfnState_Idle\<rparr>]\<rparr>) = Inl (BadPtr 0)"
  by (rule signal_idle_faults [where n = "\<lparr>ntfnBoundTCB = 0, ntfnMsgIdentifier = 1,
      ntfnQueueHead = 0, ntfnQueueTail = 0, ntfn_state = NtfnState_Idle\<rparr>"])
    (simp_all add: blank_state_def)


definition ntfn_state2 :: kstate where
  "ntfn_state2 = blank_state\<lparr>
     tcb_heap := [0x1000 \<mapsto> blank_tcb\<lparr>tcbEPNext := 0x2000\<rparr>, 0x2000 \<mapsto> blank_tcb\<lparr>tcbEPPrev := 0x1000\<rparr>],
     ntfn_heap := [0x7000 \<mapsto> \<lparr>ntfnBoundTCB = 0, ntfnMsgIdentifier = 0, ntfnQueueHead = 0x1000,
       ntfnQueueTail = 0x2000, ntfn_state = NtfnState_Waiting\<rparr>]\<rparr>"


text \<open>Binding and unbinding are inverse: binding a thread to a notification and unbinding it, by
  the thread or, for a thread below the 48-bit limit of the notification's field, by the
  notification, leaves both unbound and nothing else changed.\<close>

theorem bind_unbind:
  assumes "tcb_heap s t = Some x" and "ntfn_heap s p = Some n" and "p \<noteq> 0"
    and "t \<noteq> 0" and "t < 2 ^ 48"
  shows "\<exists>s1 s2. bind_notification t p s = Inr s1
    \<and> unbind_notification t s1 = Inr s2 \<and> unbind_maybe_notification p s1 = Inr s2
    \<and> s2 = s\<lparr>tcb_heap := (tcb_heap s)(t \<mapsto> x\<lparr>tcbBoundNotification := 0\<rparr>),
           ntfn_heap := (ntfn_heap s)(p \<mapsto> n\<lparr>ntfnBoundTCB := 0\<rparr>)\<rparr>"
proof -
  have up: "ucast (ucast t :: 48 word) = t" using assms(5) by (intro ucast_down_up_id) simp_all
  then have nz: "(ucast t :: 48 word) \<noteq> 0" using assms(4) by fastforce
  let ?s1 = "s\<lparr>ntfn_heap := (ntfn_heap s)(p \<mapsto> n\<lparr>ntfnBoundTCB := ucast t\<rparr>),
      tcb_heap := (tcb_heap s)(t \<mapsto> x\<lparr>tcbBoundNotification := p\<rparr>)\<rparr>"
  have "bind_notification t p s = Inr ?s1"
    using assms(1,2) by (simp add: bind_notification_def mod_tcb_Some mod_ntfn_Some)
  then show ?thesis
    using assms(1-4) up nz
    by (simp add: unbind_notification_def unbind_maybe_notification_def do_unbind_notification_def
        get_tcb_def get_ntfn_def mod_tcb_Some mod_ntfn_Some Let_def)
qed

theorem bind_unbind_witness:
  "\<exists>s1 s2. bind_notification 0x1000 0x7000 ntfn_state1 = Inr s1
    \<and> unbind_maybe_notification 0x7000 s1 = Inr s2
    \<and> tcb_heap s2 0x1000 = Some (blank_tcb\<lparr>tcbBoundNotification := 0\<rparr>)"
  using bind_unbind [of ntfn_state1 "0x1000" blank_tcb "0x7000"
      "\<lparr>ntfnBoundTCB = 0, ntfnMsgIdentifier = 1, ntfnQueueHead = 0, ntfnQueueTail = 0,
      ntfn_state = NtfnState_Active\<rparr>"]
  by (auto simp: ntfn_state1_def)

end
