(* ===== verification/Memblock.thy ===== *)
theory Memblock
  imports Layout
begin

text \<open>
  The boot memory allocator, \<open>src/kernel/memblock.c\<close>: two arrays of 128 regions, the physical
  memory and the part of it in use, both kept sorted. Indices into the arrays are checked: an
  access past the end of an array is \<open>OutOfBounds\<close>.
\<close>

record memblock_region =
  mr_base :: u64
  mr_size :: u64

record memblock_type =
  mt_cnt :: u32
  mt_max :: u64
  mt_total_size :: u64
  mt_regions :: "memblock_region list"

record memblock =
  current_limit :: u64
  mb_memory :: memblock_type
  mb_reserved :: memblock_type

abbreviation mr_end :: "memblock_region \<Rightarrow> u64" where
  "mr_end r \<equiv> mr_base r + mr_size r"

subsection \<open>Operations on an array of regions\<close>

text \<open>\<open>memmove(&rs[dst], &rs[src], n * sizeof *rs)\<close>. The byte count is a 32-bit parameter and a
  region has 16 bytes, so the number of regions counts modulo \<open>2 ^ 28\<close>.\<close>

definition move_regions ::
    "nat \<Rightarrow> nat \<Rightarrow> u64 \<Rightarrow> memblock_region list \<Rightarrow> kerror + memblock_region list" where
  "move_regions dst src count rs =
     (let n = unat (take_bit 28 count) in
      if n = 0 then Inr rs
      else if src + n \<le> length rs \<and> dst + n \<le> length rs
      then Inr (take dst rs @ take n (drop src rs) @ drop (dst + n) rs)
      else Inl (OutOfBounds (max src dst + n - 1)))"

definition memblock_insert_region ::
    "memblock_type \<Rightarrow> nat \<Rightarrow> u64 \<Rightarrow> u64 \<Rightarrow> kerror + memblock_type" where
  "memblock_insert_region t idx base sz =
     bind_ok (move_regions (idx + 1) idx (ucast (mt_cnt t - of_nat idx)) (mt_regions t)) (\<lambda>rs.
     if idx < length rs
     then Inr (t\<lparr>mt_regions := rs[idx := \<lparr>mr_base = base, mr_size = sz\<rparr>],
                 mt_cnt := mt_cnt t + 1, mt_total_size := mt_total_size t + sz\<rparr>)
     else Inl (OutOfBounds idx))"

lemma insert_region_cnt:
  "memblock_insert_region t idx base sz = Inr t' \<Longrightarrow> mt_cnt t' = mt_cnt t + 1"
  by (auto simp: memblock_insert_region_def bind_ok_Inr_iff split: if_splits)

text \<open>The loop of \<open>memblock_merge_regions\<close> from index \<open>i\<close> on: \<open>i < cnt - 1\<close> is an unsigned test.\<close>

function merge_loop :: "nat \<Rightarrow> memblock_type \<Rightarrow> kerror + memblock_type" where
  "merge_loop i t =
     (if \<not> i < unat (mt_cnt t - 1) then Inr t
      else if \<not> i + 1 < length (mt_regions t) then Inl (OutOfBounds (i + 1))
      else
      let this = mt_regions t ! i; next = mt_regions t ! (i + 1) in
      if mr_end this \<noteq> mr_base next then merge_loop (i + 1) t
      else
      let rs = (mt_regions t)[i := this\<lparr>mr_size := mr_size this + mr_size next\<rparr>] in
      case move_regions (i + 1) (i + 2) (ucast (mt_cnt t - of_nat (i + 2))) rs of
        Inl e \<Rightarrow> Inl e
      | Inr rs \<Rightarrow> merge_loop i (t\<lparr>mt_regions := rs, mt_cnt := mt_cnt t - 1\<rparr>))"
  by pat_completeness auto

termination
proof (relation "measure (\<lambda>(i, t). unat (mt_cnt t - 1) - i)", goal_cases)
  case (3 i t this "next" rs rs')
  then have "unat (mt_cnt t - 2) = unat (mt_cnt t - 1) - 1"
    using unat_minus_1 [of "mt_cnt t - 1"] by simp
  then show ?case using 3 by simp
qed auto

definition memblock_merge_regions :: "memblock_type \<Rightarrow> kerror + memblock_type" where
  "memblock_merge_regions t = merge_loop 0 t"

definition memblock_remove_region :: "memblock_type \<Rightarrow> nat \<Rightarrow> kerror + memblock_type" where
  "memblock_remove_region t i =
     (if \<not> i < length (mt_regions t) then Inl (OutOfBounds i) else
      let t = t\<lparr>mt_total_size := mt_total_size t - mr_size (mt_regions t ! i)\<rparr> in
      bind_ok (move_regions i (i + 1) (ucast (mt_cnt t) - of_nat (i + 1)) (mt_regions t)) (\<lambda>rs.
      let t = t\<lparr>mt_regions := rs, mt_cnt := mt_cnt t - 1\<rparr> in
      if mt_cnt t = 0
      then Inr (t\<lparr>mt_cnt := 1, mt_regions := (mt_regions t)[0 := \<lparr>mr_base = 0, mr_size = 0\<rparr>]\<rparr>)
      else Inr t))"

text \<open>One pass of \<open>memblock_add_regions\<close> over the array, from index \<open>idx\<close> on, without the step
  behind the loop: it returns the rest of the interval that is still to be covered, the index at
  which the loop stopped, and the number of regions needed. The first pass counts, the second
  (\<open>ins\<close>) inserts.\<close>

function add_pass :: "bool \<Rightarrow> u64 \<Rightarrow> u64 \<Rightarrow> nat \<Rightarrow> nat \<Rightarrow> memblock_type \<Rightarrow>
    kerror + u64 \<times> nat \<times> nat \<times> memblock_type" where
  "add_pass ins base end' idx nr_new t =
     (if \<not> idx < unat (mt_cnt t) then Inr (base, idx, nr_new, t)
      else if \<not> idx < length (mt_regions t) then Inl (OutOfBounds idx)
      else
      let rgn = mt_regions t ! idx; rbase = mr_base rgn; rend = rbase + mr_size rgn in
      if end' \<le> rbase then Inr (base, idx, nr_new, t)
      else if rend \<le> base then add_pass ins base end' (idx + 1) nr_new t
      else if base < rbase then
        (if ins then
           (case memblock_insert_region t idx base (rbase - base) of
              Inl e \<Rightarrow> Inl e
            | Inr t' \<Rightarrow> add_pass ins (min rend end') end' (idx + 2) (nr_new + 1) t')
         else add_pass ins (min rend end') end' (idx + 1) (nr_new + 1) t)
      else add_pass ins (min rend end') end' (idx + 1) nr_new t)"
  by pat_completeness auto

termination
proof (relation "measure (\<lambda>(ins, base, end', idx, nr, t). unat (mt_cnt t) - idx)", goal_cases)
  case (3 ins base end' idx nr_new t rgn rbase rend t')
  have "unat (mt_cnt t') \<le> unat (mt_cnt t) + 1"
    using insert_region_cnt [of t idx base "rbase - base" t'] 3 unat_plus_1_le by simp
  with 3 show ?case by simp
qed auto

declare merge_loop.simps [simp del] add_pass.simps [simp del]

text \<open>The step behind the loop: what is left of the interval becomes a region of its own.\<close>

definition add_rest :: "bool \<Rightarrow> u64 \<Rightarrow> u64 \<times> nat \<times> nat \<times> memblock_type \<Rightarrow>
    kerror + nat \<times> memblock_type" where
  "add_rest ins end' = (\<lambda>(base, idx, nr_new, t).
     if base < end' then
       (if ins
        then bind_ok (memblock_insert_region t idx base (end' - base)) (\<lambda>t. Inr (nr_new + 1, t))
        else Inr (nr_new + 1, t))
     else Inr (nr_new, t))"

text \<open>\<open>memblock_add_regions\<close> always returns 0.\<close>

definition memblock_add_regions :: "memblock_type \<Rightarrow> u64 \<Rightarrow> u64 \<Rightarrow> kerror + memblock_type" where
  "memblock_add_regions t base sz =
     (let end' = base + sz in
      if sz = 0 then Inr t
      else if mt_regions t = [] then Inl (OutOfBounds 0)
      else if mr_size (mt_regions t ! 0) = 0
      then Inr (t\<lparr>mt_regions := (mt_regions t)[0 := \<lparr>mr_base = base, mr_size = sz\<rparr>],
                  mt_total_size := sz\<rparr>)
      else
        bind_ok (bind_ok (add_pass False base end' 0 0 t) (add_rest False end')) (\<lambda>(nr_new, t).
        if nr_new = 0 then Inr t else
        bind_ok (bind_ok (add_pass True base end' 0 0 t) (add_rest True end')) (\<lambda>(nr_new, t).
        if nr_new = 0 then Inr t else memblock_merge_regions t)))"

definition memblock_add :: "u64 \<Rightarrow> u64 \<Rightarrow> memblock \<Rightarrow> kerror + memblock" where
  "memblock_add base sz mb =
     bind_ok (memblock_add_regions (mb_memory mb) base sz) (\<lambda>t. Inr (mb\<lparr>mb_memory := t\<rparr>))"

definition memblock_reserve :: "u64 \<Rightarrow> u64 \<Rightarrow> memblock \<Rightarrow> kerror + memblock" where
  "memblock_reserve base sz mb =
     bind_ok (memblock_add_regions (mb_reserved mb) base sz) (\<lambda>t. Inr (mb\<lparr>mb_reserved := t\<rparr>))"

subsection \<open>Finding free memory\<close>

text \<open>\<open>__next_mem_range_rev\<close> keeps its position as two 32-bit indices packed into a 64-bit integer;
  the model keeps them as a pair of integers, and a finished iteration (\<open>ULLONG_MAX\<close>) is \<open>None\<close>.
  No position packs to that value: of the two indices only one is ever decremented, from at least
  0, so they are not both -1.\<close>

definition region_at :: "memblock_type \<Rightarrow> int \<Rightarrow> kerror + memblock_region" where
  "region_at t i =
     (if 0 \<le> i \<and> nat i < length (mt_regions t) then Inr (mt_regions t ! nat i)
      else Inl (OutOfBounds (nat i)))"

type_synonym range_found = "u64 \<times> u64 \<times> int \<times> int"

text \<open>The gap in front of region \<open>idx_b\<close> of \<open>type_b\<close>; the last one reaches to the end of memory.\<close>

definition gap_start :: "memblock_type \<Rightarrow> int \<Rightarrow> kerror + u64" where
  "gap_start type_b idx_b =
     (if idx_b \<noteq> 0 then bind_ok (region_at type_b (idx_b - 1)) (\<lambda>r. Inr (mr_end r)) else Inr 0)"

definition gap_end :: "memblock_type \<Rightarrow> int \<Rightarrow> kerror + u64" where
  "gap_end type_b idx_b =
     (if idx_b < int (unat (mt_cnt type_b))
      then bind_ok (region_at type_b idx_b) (\<lambda>r. Inr (mr_base r)) else Inr (- 1))"

text \<open>The loop over the gaps of \<open>type_b\<close>: \<open>Inl\<close> is the range found and the next position, \<open>Inr\<close> the
  index at which the loop was left.\<close>

function range_inner ::
    "u64 \<Rightarrow> u64 \<Rightarrow> int \<Rightarrow> int \<Rightarrow> memblock_type \<Rightarrow> kerror + (range_found + int)" where
  "range_inner m_start m_end idx_a idx_b type_b =
     (if idx_b < 0 then Inr (Inr idx_b) else
      bind_ok (gap_start type_b idx_b) (\<lambda>r_start.
      bind_ok (gap_end type_b idx_b) (\<lambda>r_end.
      if r_end \<le> m_start then Inr (Inr idx_b)
      else if r_start < m_end then
        Inr (Inl (max m_start r_start, min m_end r_end,
          (if r_start \<le> m_start then (idx_a - 1, idx_b) else (idx_a, idx_b - 1))))
      else range_inner m_start m_end idx_a (idx_b - 1) type_b)))"
  by pat_completeness auto
termination by (relation "measure (\<lambda>(ms, me, ia, ib, tb). nat (ib + 1))") auto

declare range_inner.simps [simp del]

text \<open>What a run of that loop returns, and from which gap.\<close>

lemma range_inner_result:
  assumes "range_inner ms me ia ib tb = Inr R"
  shows "(\<exists>ib'. R = Inr ib' \<and> ib' \<le> ib) \<or>
    (\<exists>j r_start r_end. 0 \<le> j \<and> j \<le> ib \<and> gap_start tb j = Inr r_start \<and> gap_end tb j = Inr r_end
      \<and> ms < r_end \<and> r_start < me
      \<and> R = Inl (max ms r_start, min me r_end, (if r_start \<le> ms then (ia - 1, j) else (ia, j - 1))))"
  using assms
proof (induction "nat (ib + 1)" arbitrary: ib rule: less_induct)
  case less
  note run = less.prems [unfolded range_inner.simps [of ms me ia ib tb]]
  show ?case
  proof (cases "ib < 0")
    case True
    with run show ?thesis by auto
  next
    case False
    with run obtain r_start r_end where g: "gap_start tb ib = Inr r_start" "gap_end tb ib = Inr r_end"
      and r: "(if r_end \<le> ms then Inr (Inr ib)
      else if r_start < me then
        Inr (Inl (max ms r_start, min me r_end, (if r_start \<le> ms then (ia - 1, ib) else (ia, ib - 1))))
      else range_inner ms me ia (ib - 1) tb) = Inr R"
      by (auto simp: bind_ok_Inr_iff)
    consider "r_end \<le> ms" | "ms < r_end" "r_start < me" | "ms < r_end" "me \<le> r_start" by force
    then show ?thesis
    proof cases
      case 1
      with r show ?thesis by auto
    next
      case 2
      then have "R = Inl (max ms r_start, min me r_end,
          (if r_start \<le> ms then (ia - 1, ib) else (ia, ib - 1)))"
        using r by (simp only: linorder_not_le if_False if_True linorder_not_less [symmetric]) simp
      with 2 g False show ?thesis
        by (intro disjI2 exI [of _ ib] exI [of _ r_start] exI [of _ r_end] conjI) simp_all
    next
      case 3
      then have "\<not> r_end \<le> ms" "\<not> r_start < me" by (simp_all add: not_le not_less)
      then have "range_inner ms me ia (ib - 1) tb = Inr R" using r by simp
      with less.hyps [of "ib - 1"] False show ?thesis by fastforce
    qed
  qed
qed

function next_mem_range_rev ::
    "int \<Rightarrow> int \<Rightarrow> memblock_type \<Rightarrow> memblock_type \<Rightarrow> kerror + range_found option" where
  "next_mem_range_rev idx_a idx_b type_a type_b =
     (if idx_a < 0 then Inr None else
      bind_ok (region_at type_a idx_a) (\<lambda>m.
      bind_ok (range_inner (mr_base m) (mr_end m) idx_a idx_b type_b) (\<lambda>r.
      case r of Inl found \<Rightarrow> Inr (Some found)
      | Inr idx_b \<Rightarrow> next_mem_range_rev (idx_a - 1) idx_b type_a type_b)))"
  by pat_completeness auto
termination by (relation "measure (\<lambda>(ia, ib, ta, tb). nat (ia + 1))") auto

declare next_mem_range_rev.simps [simp del]

lemma next_mem_range_rev_next:
  "next_mem_range_rev ia ib ta tb = Inr (Some (s, e, ia', ib')) \<Longrightarrow>
    nat (ia' + 1) + nat (ib' + 1) < nat (ia + 1) + nat (ib + 1)"
proof (induction "nat (ia + 1)" arbitrary: ia ib rule: less_induct)
  case less
  note run = less.prems [unfolded next_mem_range_rev.simps [of ia ib ta tb]]
  obtain m r where ia: "0 \<le> ia" and r: "range_inner (mr_base m) (mr_end m) ia ib tb = Inr r"
      "(case r of Inl found \<Rightarrow> Inr (Some found)
        | Inr idx_b \<Rightarrow> next_mem_range_rev (ia - 1) idx_b ta tb) = Inr (Some (s, e, ia', ib'))"
    using run by (auto simp: bind_ok_Inr_iff split: if_splits)
  show ?case
  proof (cases r)
    case (Inl found)
    with range_inner_result [OF r(1)] r(2) ia show ?thesis by (auto split: if_splits)
  next
    case (Inr ib2)
    with r have "nat (ia' + 1) + nat (ib' + 1) < nat (ia - 1 + 1) + nat (ib2 + 1)"
      using less.hyps [of "ia - 1" ib2] ia by simp
    moreover have "ib2 \<le> ib" using range_inner_result [OF r(1)] Inr by auto
    ultimately show ?thesis using ia by linarith
  qed
qed

definition clamp :: "u64 \<Rightarrow> u64 \<Rightarrow> u64 \<Rightarrow> u64" where
  "clamp val lo hi = min (max val lo) hi"

definition round_down :: "u64 \<Rightarrow> u64 \<Rightarrow> u64" where
  "round_down x y = x AND NOT (y - 1)"

text \<open>The loop of \<open>__memblock_find_range_top_down\<close> over the free ranges, from a position on.\<close>

function find_loop :: "int \<Rightarrow> int \<Rightarrow> u64 \<Rightarrow> u64 \<Rightarrow> u64 \<Rightarrow> u64 \<Rightarrow> memblock \<Rightarrow> kerror + u64" where
  "find_loop idx_a idx_b start end' sz align mb =
     (case next_mem_range_rev idx_a idx_b (mb_memory mb) (mb_reserved mb) of
       Inl e \<Rightarrow> Inl e
     | Inr None \<Rightarrow> Inr 0
     | Inr (Some (this_start, this_end, idx_a', idx_b')) \<Rightarrow>
       let this_start = clamp this_start start end'; this_end = clamp this_end start end' in
       if this_end < sz then find_loop idx_a' idx_b' start end' sz align mb
       else
       let cand = round_down (this_end - sz) align in
       if this_start \<le> cand then Inr cand
       else find_loop idx_a' idx_b' start end' sz align mb)"
  by pat_completeness auto
termination
  by (relation "measure (\<lambda>(ia, ib, _). nat (ia + 1) + nat (ib + 1))")
    (auto dest: next_mem_range_rev_next)

declare find_loop.simps [simp del]

definition find_range_top_down :: "u64 \<Rightarrow> u64 \<Rightarrow> u64 \<Rightarrow> u64 \<Rightarrow> memblock \<Rightarrow> kerror + u64" where
  "find_range_top_down start end' sz align mb =
     find_loop (int (unat (mt_cnt (mb_memory mb))) - 1) (int (unat (mt_cnt (mb_reserved mb))))
       start end' sz align mb"

definition MEMBLOCK_ALLOC_ACCESSIBLE :: u64 where "MEMBLOCK_ALLOC_ACCESSIBLE = 0"

definition memblock_find_in_range :: "u64 \<Rightarrow> u64 \<Rightarrow> u64 \<Rightarrow> u64 \<Rightarrow> memblock \<Rightarrow> kerror + u64" where
  "memblock_find_in_range sz align start end' mb =
     (let end' = (if end' = MEMBLOCK_ALLOC_ACCESSIBLE then current_limit mb else end');
          start = max start PGSIZE;
          end' = max start end'
      in find_range_top_down start end' sz align mb)"

subsection \<open>Allocating\<close>

definition memblock_alloc_range ::
    "u64 \<Rightarrow> u64 \<Rightarrow> u64 \<Rightarrow> u64 \<Rightarrow> memblock \<Rightarrow> kerror + u64 \<times> memblock" where
  "memblock_alloc_range sz align start end' mb =
     bind_ok (memblock_find_in_range sz align start end' mb) (\<lambda>found.
     if found \<noteq> 0
     then bind_ok (memblock_reserve found sz mb) (\<lambda>mb. Inr (found, mb))
     else Inr (0, mb))"

text \<open>The allocated memory is then cleared; the model of the allocator does not hold its contents.\<close>

definition raw_memblock_alloc_base :: "u64 \<Rightarrow> u64 \<Rightarrow> u64 \<Rightarrow> memblock \<Rightarrow> kerror + u64 \<times> memblock" where
  [simp]: "raw_memblock_alloc_base sz align max_addr mb = memblock_alloc_range sz align 0 max_addr mb"

definition memblock_alloc_base :: "u64 \<Rightarrow> u64 \<Rightarrow> u64 \<Rightarrow> memblock \<Rightarrow> kerror + u64 \<times> memblock" where
  "memblock_alloc_base sz align max_addr mb =
     bind_ok (raw_memblock_alloc_base sz align max_addr mb) (\<lambda>(alloc, mb).
     if alloc = 0 then Inl (Panic ''alloc fault'') else Inr (alloc, mb))"

definition memblock_alloc :: "u64 \<Rightarrow> u64 \<Rightarrow> memblock \<Rightarrow> kerror + u64 \<times> memblock" where
  "memblock_alloc sz align mb = memblock_alloc_base sz align MEMBLOCK_ALLOC_ACCESSIBLE mb"

definition memblock_alloc_kernel :: "u64 \<Rightarrow> u64 \<Rightarrow> memblock \<Rightarrow> kerror + u64 \<times> memblock" where
  "memblock_alloc_kernel sz align mb =
     bind_ok (memblock_alloc_base sz align MEMBLOCK_ALLOC_ACCESSIBLE mb) (\<lambda>(alloc, mb).
     Inr (p2v alloc, mb))"

subsection \<open>Freeing\<close>

text \<open>The loop of \<open>memblock_isolate_range\<close>, with fuel: a split region is looked at again, so that
  the index alone does not bound the number of turns. \<open>Inr None\<close> is a loop that has not ended.\<close>

primrec isolate_loop :: "nat \<Rightarrow> u64 \<Rightarrow> u64 \<Rightarrow> nat \<Rightarrow> nat \<Rightarrow> nat \<Rightarrow> memblock_type \<Rightarrow>
    kerror + (nat \<times> nat \<times> memblock_type) option" where
  "isolate_loop 0 base end' idx start_rgn end_rgn t = Inr None"
| "isolate_loop (Suc fuel) base end' idx start_rgn end_rgn t =
     (if \<not> idx < unat (mt_cnt t) then Inr (Some (start_rgn, end_rgn, t)) else
      bind_ok (region_at t (int idx)) (\<lambda>rgn.
      let rbase = mr_base rgn; rend = rbase + mr_size rgn in
      if end' \<le> rbase then Inr (Some (start_rgn, end_rgn, t))
      else if rend \<le> base then isolate_loop fuel base end' (idx + 1) start_rgn end_rgn t
      else if rbase < base then
        bind_ok (memblock_insert_region
          (t\<lparr>mt_regions := (mt_regions t)
               [idx := \<lparr>mr_base = base, mr_size = mr_size rgn - (base - rbase)\<rparr>],
             mt_total_size := mt_total_size t - (base - rbase)\<rparr>) idx rbase (base - rbase))
          (isolate_loop fuel base end' (idx + 1) start_rgn end_rgn)
      else if end' < rend then
        bind_ok (memblock_insert_region
          (t\<lparr>mt_regions := (mt_regions t)
               [idx := \<lparr>mr_base = end', mr_size = mr_size rgn - (end' - rbase)\<rparr>],
             mt_total_size := mt_total_size t - (end' - rbase)\<rparr>) idx rbase (end' - rbase))
          (isolate_loop fuel base end' idx start_rgn end_rgn)
      else
        isolate_loop fuel base end' (idx + 1) (if end_rgn = 0 then idx else start_rgn) (idx + 1) t))"

definition memblock_isolate_range :: "nat \<Rightarrow> memblock_type \<Rightarrow> u64 \<Rightarrow> u64 \<Rightarrow>
    kerror + (nat \<times> nat \<times> memblock_type) option" where
  "memblock_isolate_range fuel t base sz =
     (let end' = base + sz in
      if sz = 0 then Inr (Some (0, 0, t)) else isolate_loop fuel base end' 0 0 0 t)"

text \<open>The regions \<open>start_rgn\<close> to \<open>end_rgn - 1\<close> are removed from the last one down.\<close>

definition memblock_remove_range :: "nat \<Rightarrow> memblock_type \<Rightarrow> u64 \<Rightarrow> u64 \<Rightarrow>
    kerror + memblock_type option" where
  "memblock_remove_range fuel t base sz =
     bind_ok (memblock_isolate_range fuel t base sz) (\<lambda>r.
     case r of None \<Rightarrow> Inr None
     | Some (start_rgn, end_rgn, t) \<Rightarrow>
       bind_ok (fold_ok (\<lambda>i t. memblock_remove_region t i) (rev [start_rgn..<end_rgn]) t) (\<lambda>t.
       Inr (Some t)))"

definition memblock_free :: "nat \<Rightarrow> u64 \<Rightarrow> u64 \<Rightarrow> memblock \<Rightarrow> kerror + memblock option" where
  "memblock_free fuel base sz mb =
     bind_ok (memblock_remove_range fuel (mb_reserved mb) base sz) (\<lambda>r.
     Inr (map_option (\<lambda>t. mb\<lparr>mb_reserved := t\<rparr>) r))"

subsection \<open>Start-up\<close>

text \<open>The firmware's memory map: up to 32 entries of address, length and type.\<close>

primrec memblock_init_loop :: "(u64 \<times> u64 \<times> u32) list \<Rightarrow> memblock \<Rightarrow> kerror + memblock" where
  "memblock_init_loop [] mb = Inr mb"
| "memblock_init_loop (ard # ards) mb =
     (let (addr, len, type) = ard in
      if type < 1 \<or> 4 < type then Inr mb
      else if type = 1 then
        bind_ok (memblock_add addr len mb) (\<lambda>mb.
        memblock_init_loop ards (mb\<lparr>current_limit := max (current_limit mb) (addr + len)\<rparr>))
      else memblock_init_loop ards mb)"

definition memblock_init :: "(u64 \<times> u64 \<times> u32) list \<Rightarrow> memblock \<Rightarrow> kerror + memblock" where
  "memblock_init ards mb =
     (let mb = mb\<lparr>current_limit := 0\<rparr>;
          clear = (\<lambda>t. t\<lparr>mt_cnt := 1,
            mt_regions := (mt_regions t)[0 := (mt_regions t ! 0)\<lparr>mr_size := 0\<rparr>]\<rparr>)
      in memblock_init_loop (take 32 ards)
           (mb\<lparr>mb_memory := clear (mb_memory mb), mb_reserved := clear (mb_reserved mb)\<rparr>))"

end
