(* ===== verification/MemblockSpec.thy ===== *)
theory MemblockSpec
  imports Memblock
begin

text \<open>
  What the boot memory allocator does to sets of addresses. The live part of a region array is a
  sorted list of disjoint intervals; adding an interval, merging, searching and allocating are
  described on that list, and the operations on the array are shown to implement them.
\<close>

subsection \<open>Intervals\<close>

abbreviation lo :: "memblock_region \<Rightarrow> nat" where "lo r \<equiv> unat (mr_base r)"
abbreviation hi :: "memblock_region \<Rightarrow> nat" where "hi r \<equiv> unat (mr_base r) + unat (mr_size r)"

text \<open>A nonempty region that ends below the end of the address space.\<close>

definition good :: "memblock_region \<Rightarrow> bool" where
  "good r \<longleftrightarrow> 0 < unat (mr_size r) \<and> hi r < 2 ^ 64"

primrec sorted_from :: "nat \<Rightarrow> memblock_region list \<Rightarrow> bool" where
  "sorted_from m [] \<longleftrightarrow> True"
| "sorted_from m (r # rs) \<longleftrightarrow> m \<le> lo r \<and> good r \<and> sorted_from (hi r) rs"

definition cover :: "memblock_region list \<Rightarrow> nat set" where
  "cover rs = (\<Union>r\<in>set rs. {lo r..<hi r})"

lemma cover_simps [simp]:
  "cover [] = {}" "cover (r # rs) = {lo r..<hi r} \<union> cover rs" "cover (as @ bs) = cover as \<union> cover bs"
  by (auto simp: cover_def)

lemma good_end: "good r \<Longrightarrow> unat (mr_end r) = hi r"
  by (simp add: good_def unat_word_ariths)

lemma sorted_from_mono: "sorted_from m rs \<Longrightarrow> n \<le> m \<Longrightarrow> sorted_from n rs"
  by (cases rs) auto

lemma sorted_from_nth:
  "sorted_from m rs \<Longrightarrow> i < length rs \<Longrightarrow> m \<le> lo (rs ! i) \<and> good (rs ! i)"
proof (induction rs arbitrary: m i)
  case (Cons r rs)
  then show ?case by (cases i) force+
qed simp

lemma sorted_from_nth2:
  "sorted_from m rs \<Longrightarrow> i < j \<Longrightarrow> j < length rs \<Longrightarrow> hi (rs ! i) \<le> lo (rs ! j)"
proof (induction rs arbitrary: m i j)
  case (Cons r rs)
  then obtain k where k: "j = Suc k" by (cases j) auto
  with Cons show ?case
    by (cases i) (auto dest: sorted_from_nth)
qed simp

subsection \<open>Adding an interval to a sorted list\<close>

fun add_list :: "u64 \<Rightarrow> u64 \<Rightarrow> memblock_region list \<Rightarrow> memblock_region list" where
  "add_list base end' [] = (if base < end' then [\<lparr>mr_base = base, mr_size = end' - base\<rparr>] else [])"
| "add_list base end' (r # rs) =
     (if end' \<le> mr_base r
      then (if base < end' then [\<lparr>mr_base = base, mr_size = end' - base\<rparr>] else []) @ r # rs
      else if mr_end r \<le> base then r # add_list base end' rs
      else if base < mr_base r
      then \<lparr>mr_base = base, mr_size = mr_base r - base\<rparr> # r # add_list (min (mr_end r) end') end' rs
      else r # add_list (min (mr_end r) end') end' rs)"

lemma new_region:
  fixes b e :: u64
  assumes "b < e"
  shows "good \<lparr>mr_base = b, mr_size = e - b\<rparr>" "hi \<lparr>mr_base = b, mr_size = e - b\<rparr> = unat e"
  using assms unsigned_less [of e, where 'a = nat]
  by (simp_all add: good_def unat_diff less_imp_le word_less_nat_alt)

lemma add_list_done: "end' \<le> base \<Longrightarrow> add_list base end' rs = rs"
proof (induction rs arbitrary: base)
  case (Cons r rs)
  have "mr_end r \<le> base \<or> end' \<le> min (mr_end r) end' " using Cons.prems by auto
  with Cons show ?case by auto
qed auto

lemma add_list_sorted:
  "sorted_from m rs \<Longrightarrow> m \<le> unat base \<or> end' \<le> base \<Longrightarrow> sorted_from m (add_list base end' rs)"
proof (induction rs arbitrary: m base)
  case Nil
  then show ?case by (auto simp: new_region)
next
  case (Cons r rs)
  show ?case
  proof (cases "end' \<le> base")
    case True
    with Cons.prems(1) show ?thesis unfolding add_list_done [OF True] by simp
  next
    case False
    then have b: "base < end'" "m \<le> unat base" using Cons.prems(2) by auto
    note r = good_end [of r]
    have r': "m \<le> lo r" "good r" "sorted_from (hi r) rs" using Cons.prems(1) by simp_all
    have rest: "sorted_from (hi r) (add_list (min (mr_end r) end') end' rs)"
      using r' r by (intro Cons.IH) (auto simp: min_def)
    consider "end' \<le> mr_base r" | "mr_base r < end'" "mr_end r \<le> base"
      | "mr_base r < end'" "base < mr_end r" "base < mr_base r"
      | "mr_base r < end'" "base < mr_end r" "mr_base r \<le> base" by force
    then show ?thesis
    proof cases
      case 1
      with b r' show ?thesis using new_region [OF b(1)] by (auto simp: word_le_nat_alt)
    next
      case 2
      then have "sorted_from (hi r) (add_list base end' rs)"
        using r' r by (intro Cons.IH) (simp_all add: word_le_nat_alt)
      with 2 r' show ?thesis by auto
    next
      case 3
      then show ?thesis using b r' rest new_region [OF 3(3)] by auto
    next
      case 4
      then show ?thesis using r' rest by auto
    qed
  qed
qed

lemma add_list_cover:
  "sorted_from m rs \<Longrightarrow> cover (add_list base end' rs) = cover rs \<union> {unat base..<unat end'}"
proof (induction rs arbitrary: m base)
  case Nil
  then show ?case
    using new_region [of base end'] by (auto simp: word_less_nat_alt)
next
  case (Cons r rs)
  show ?case
  proof (cases "end' \<le> base")
    case True
    then show ?thesis unfolding add_list_done [OF True] by (simp add: word_le_nat_alt)
  next
    case False
    then have b: "base < end'" by simp
    have r': "good r" "sorted_from (hi r) rs" using Cons.prems(1) by simp_all
    note r = good_end [OF r'(1)]
    have end_min: "unat (min (mr_end r) end') = min (hi r) (unat end')"
      using r by (auto simp: min_def word_le_nat_alt)
    note rest = Cons.IH [OF r'(2)]
    consider "end' \<le> mr_base r" | "mr_base r < end'" "mr_end r \<le> base"
      | "mr_base r < end'" "base < mr_end r" "base < mr_base r"
      | "mr_base r < end'" "base < mr_end r" "mr_base r \<le> base" by force
    then show ?thesis
    proof cases
      case 1
      with b show ?thesis using new_region [OF b] by auto
    next
      case 2
      then show ?thesis using rest by auto
    next
      case 3
      then have "unat base < lo r" "lo r < unat end'" by (simp_all add: word_less_nat_alt)
      then show ?thesis using 3 rest new_region [OF 3(3)] end_min r'(1) by (auto simp: good_def)
    next
      case 4
      then have "lo r \<le> unat base" "unat base < hi r"
        using r by (simp_all add: word_less_nat_alt word_le_nat_alt)
      then show ?thesis using 4 rest end_min by auto
    qed
  qed
qed

text \<open>Each region can be preceded by one new one; an interval outside the list adds exactly one.\<close>

lemma add_list_length: "length rs \<le> length (add_list base end' rs)
    \<and> length (add_list base end' rs) \<le> 2 * length rs + 1"
proof (induction rs arbitrary: base)
  case (Cons r rs)
  show ?case
    using Cons.IH [of base] Cons.IH [of "min (mr_end r) end'"] by auto
qed auto

lemma add_list_length2: "length (add_list base end' rs) \<le> 2 * length rs + 1"
proof (induction rs arbitrary: base)
  case (Cons r rs)
  show ?case using Cons.IH [of base] Cons.IH [of "min (mr_end r) end'"] by auto
qed simp

lemma add_list_same: "length (add_list base end' rs) = length rs \<Longrightarrow> add_list base end' rs = rs"
proof (induction rs arbitrary: base)
  case Nil
  then show ?case by (simp split: if_splits)
next
  case (Cons r rs)
  have len: "length rs \<le> length (add_list (min (mr_end r) end') end' rs)"
    using add_list_length by blast
  consider "end' \<le> mr_base r" | "\<not> end' \<le> mr_base r" "mr_end r \<le> base"
    | "\<not> end' \<le> mr_base r" "\<not> mr_end r \<le> base" "base < mr_base r"
    | "\<not> end' \<le> mr_base r" "\<not> mr_end r \<le> base" "\<not> base < mr_base r" by blast
  then show ?case
  proof cases
    case 1
    with Cons.prems show ?thesis by (simp split: if_splits)
  next
    case 3
    with Cons.prems len show ?thesis by simp
  qed (use Cons in simp_all)
qed

lemma intervals_apart:
  fixes a :: nat
  assumes "{a..<b} \<inter> {c..<d} = {}" and "a < b" and "c < d"
  shows "b \<le> c \<or> d \<le> a"
proof (rule ccontr)
  assume "\<not> (b \<le> c \<or> d \<le> a)"
  with assms(2,3) have "max a c \<in> {a..<b} \<inter> {c..<d}" by auto
  with assms(1) show False by blast
qed

lemma add_list_disjoint_length:
  "sorted_from m rs \<Longrightarrow> base < end' \<Longrightarrow> {unat base..<unat end'} \<inter> cover rs = {} \<Longrightarrow>
    length (add_list base end' rs) = length rs + 1"
proof (induction rs arbitrary: m)
  case (Cons r rs)
  have r': "good r" "sorted_from (hi r) rs" using Cons.prems(1) by simp_all
  note r = good_end [OF r'(1)]
  have b: "unat base < unat end'" using Cons.prems(2) by (simp add: word_less_nat_alt)
  have disj: "{unat base..<unat end'} \<inter> {lo r..<hi r} = {}"
    using Cons.prems(3) unfolding cover_simps by blast
  have "lo r < hi r" using r'(1) by (simp add: good_def)
  from intervals_apart [OF disj b this] have "unat end' \<le> lo r \<or> hi r \<le> unat base" .
  then show ?case
  proof
    assume "unat end' \<le> lo r"
    then show ?thesis using Cons.prems(2) by (simp add: word_le_nat_alt)
  next
    assume h: "hi r \<le> unat base"
    then have "mr_end r \<le> base" "\<not> end' \<le> mr_base r"
      using r b r'(1) by (simp_all add: word_le_nat_alt good_def)
    then show ?thesis using Cons.IH [OF r'(2) Cons.prems(2)] Cons.prems(3) by auto
  qed
qed simp

subsection \<open>Merging neighbours\<close>

fun merge_list :: "memblock_region list \<Rightarrow> memblock_region list" where
  "merge_list (a # b # rs) =
     (if mr_end a = mr_base b then merge_list (a\<lparr>mr_size := mr_size a + mr_size b\<rparr> # rs)
      else a # merge_list (b # rs))"
| "merge_list rs = rs"

text \<open>Between two regions of a merged list there is a gap.\<close>

fun separated :: "memblock_region list \<Rightarrow> bool" where
  "separated (a # b # rs) \<longleftrightarrow> hi a < lo b \<and> separated (b # rs)"
| "separated _ \<longleftrightarrow> True"

lemma merged_region:
  assumes "good a" "good b" "mr_end a = mr_base b"
  shows "good (a\<lparr>mr_size := mr_size a + mr_size b\<rparr>)" "hi (a\<lparr>mr_size := mr_size a + mr_size b\<rparr>) = hi b"
proof -
  have e: "hi a = lo b" using good_end [OF assms(1)] assms(3) by simp
  then have "unat (mr_size a) + unat (mr_size b) < 2 ^ 64" using assms(2) by (simp add: good_def)
  then have "unat (mr_size a + mr_size b) = unat (mr_size a) + unat (mr_size b)"
    by (simp add: unat_word_ariths)
  with e assms(1,2) show "good (a\<lparr>mr_size := mr_size a + mr_size b\<rparr>)"
      "hi (a\<lparr>mr_size := mr_size a + mr_size b\<rparr>) = hi b"
    by (simp_all add: good_def)
qed

lemma merge_list_head: "rs \<noteq> [] \<Longrightarrow> \<exists>r ys. merge_list rs = r # ys \<and> mr_base r = mr_base (hd rs)"
  by (induction rs rule: merge_list.induct) auto

lemma merge_list_spec:
  "sorted_from m rs \<Longrightarrow> sorted_from m (merge_list rs) \<and> cover (merge_list rs) = cover rs
    \<and> separated (merge_list rs) \<and> length (merge_list rs) \<le> length rs"
proof (induction rs arbitrary: m rule: merge_list.induct)
  case (1 a b rs)
  have g: "m \<le> lo a" "good a" "good b" "hi a \<le> lo b" "sorted_from (hi b) rs"
    using "1.prems" by simp_all
  show ?case
  proof (cases "mr_end a = mr_base b")
    case True
    let ?ab = "a\<lparr>mr_size := mr_size a + mr_size b\<rparr>"
    note ab = merged_region [OF g(2,3) True]
    have "sorted_from m (?ab # rs)" using g ab by simp
    moreover have "hi a = lo b" using good_end [OF g(2)] True by simp
    moreover have "cover (?ab # rs) = cover (a # b # rs)"
      using ab(2) \<open>hi a = lo b\<close> by auto
    ultimately show ?thesis using "1.IH"(1) [OF True, of m] True by auto
  next
    case False
    have "hi a \<noteq> lo b" using good_end [OF g(2)] False by (simp add: word_unat_eq_iff)
    then have "hi a < lo b" using g(4) by simp
    obtain r ys where r: "merge_list (b # rs) = r # ys" "mr_base r = mr_base b"
      using merge_list_head [of "b # rs"] by auto
    have "sorted_from (hi a) (b # rs)" using g by simp
    from "1.IH"(2) [OF False this] r g False \<open>hi a < lo b\<close> show ?thesis by auto
  qed
qed auto

subsection \<open>The array holds the list\<close>

definition mt_shape :: "memblock_type \<Rightarrow> bool" where
  "mt_shape t \<longleftrightarrow> length (mt_regions t) = 128 \<and> unat (mt_cnt t) \<le> 128"

definition live :: "memblock_type \<Rightarrow> memblock_region list" where
  "live t = take (unat (mt_cnt t)) (mt_regions t)"

lemma live_length: "mt_shape t \<Longrightarrow> length (live t) = unat (mt_cnt t)"
  by (simp add: live_def mt_shape_def)

lemma live_split:
  assumes "mt_shape t" and "live t = pre @ suf"
  obtains tail where "mt_regions t = pre @ suf @ tail"
    and "length pre + length suf = unat (mt_cnt t)" and "length tail = 128 - unat (mt_cnt t)"
proof
  show "mt_regions t = pre @ suf @ drop (unat (mt_cnt t)) (mt_regions t)"
    using assms(2) by (metis append_assoc append_take_drop_id live_def)
  show "length pre + length suf = unat (mt_cnt t)"
    using live_length [OF assms(1)] assms(2) by simp
  show "length (drop (unat (mt_cnt t)) (mt_regions t)) = 128 - unat (mt_cnt t)"
    using assms(1) by (simp add: mt_shape_def)
qed

lemma unat_minus_of_nat:
  fixes w :: "'a::len word"
  assumes "k \<le> unat w"
  shows "unat (w - of_nat k) = unat w - k"
proof -
  have "k < 2 ^ LENGTH('a)" using assms unsigned_less [of w, where 'a = nat] by (rule le_less_trans)
  then have "unat (of_nat k :: 'a word) = k" unfolding unat_of_nat by (rule mod_less)
  with assms show ?thesis by (simp add: unat_sub word_le_nat_alt)
qed

lemma move_count:
  fixes w :: u32
  assumes "unat w \<le> 128"
  shows "unat (take_bit 28 (ucast w :: u64)) = unat w"
  using assms
  by (simp add: unsigned_take_bit_eq unsigned_ucast_eq take_bit_nat_eq_self)

lemma unat_cnt_Suc: "unat (w :: u32) \<le> 128 \<Longrightarrow> unat (w + 1) = unat w + 1"
  by (simp add: unat_word_ariths)

lemma insert_live:
  assumes shape: "mt_shape t" and lv: "live t = pre @ suf" and room: "unat (mt_cnt t) < 128"
  shows "\<exists>t'. memblock_insert_region t (length pre) b z = Inr t' \<and> mt_shape t'
    \<and> live t' = pre @ \<lparr>mr_base = b, mr_size = z\<rparr> # suf
    \<and> mt_total_size t' = mt_total_size t + z"
proof -
  obtain tail where tl: "mt_regions t = pre @ suf @ tail"
      "length pre + length suf = unat (mt_cnt t)" "length tail = 128 - unat (mt_cnt t)"
    using live_split [OF shape lv] by blast
  obtain y ys where tail: "tail = y # ys" using tl(3) room by (cases tail) auto
  have "unat (mt_cnt t - of_nat (length pre)) = length suf"
    using tl(2) by (simp add: unat_minus_of_nat)
  moreover have "length suf \<le> 128" using tl(2) room by simp
  ultimately have n: "unat (take_bit 28 (ucast (mt_cnt t - of_nat (length pre)) :: u64)) = length suf"
    using move_count [of "mt_cnt t - of_nat (length pre)"] by simp
  have move: "\<exists>x. move_regions (length pre + 1) (length pre) (ucast (mt_cnt t - of_nat (length pre)))
      (mt_regions t) = Inr (pre @ x # suf @ ys)"
  proof (cases suf)
    case Nil
    with n tl(1) tail show ?thesis by (simp add: move_regions_def)
  next
    case (Cons x xs)
    have "length pre + 1 + length suf \<le> length (mt_regions t)" using tl tail by simp
    then show ?thesis
      using n Cons tl(1) tail by (simp add: move_regions_def Let_def)
  qed
  let ?t = "t\<lparr>mt_regions := pre @ \<lparr>mr_base = b, mr_size = z\<rparr> # suf @ ys, mt_cnt := mt_cnt t + 1,
      mt_total_size := mt_total_size t + z\<rparr>"
  have "memblock_insert_region t (length pre) b z = Inr ?t"
    using move by (auto simp: memblock_insert_region_def)
  moreover have "unat (mt_cnt t + 1) = unat (mt_cnt t) + 1"
    using room by (intro unat_cnt_Suc) simp
  moreover have "length (mt_regions ?t) = 128" using tl(2,3) tail room by simp
  moreover have "take (unat (mt_cnt t) + 1) (mt_regions ?t) = pre @ \<lparr>mr_base = b, mr_size = z\<rparr> # suf"
    unfolding tl(2) [symmetric] by simp
  ultimately show ?thesis
    using tl(2) room by (intro exI [of _ ?t]) (simp add: mt_shape_def live_def)
qed

subsection \<open>The two passes\<close>

lemma pass_count:
  "mt_shape t \<Longrightarrow> live t = pre @ suf \<Longrightarrow>
    bind_ok (add_pass False base end' (length pre) nr t) (add_rest False end')
      = Inr (nr + (length (add_list base end' suf) - length suf), t)"
proof (induction suf arbitrary: pre base nr)
  case Nil
  then have "\<not> length pre < unat (mt_cnt t)" using live_length [of t] by simp
  then show ?case by (simp add: add_pass.simps add_rest_def)
next
  case (Cons r rs)
  obtain tail where tl: "mt_regions t = pre @ (r # rs) @ tail"
      "length pre + length (r # rs) = unat (mt_cnt t)"
    using live_split [OF Cons.prems] by blast
  have idx: "length pre < unat (mt_cnt t)" "mt_regions t ! length pre = r"
    "length pre < length (mt_regions t)" using tl by simp_all
  have IH: "bind_ok (add_pass False b end' (Suc (length pre)) n t) (add_rest False end')
      = Inr (n + (length (add_list b end' rs) - length rs), t)" for b n
    using Cons.IH [of "pre @ [r]"] Cons.prems by simp
  have len: "length rs \<le> length (add_list b end' rs)" for b using add_list_length by blast
  show ?case
    by (subst add_pass.simps)
      (use idx IH len in \<open>auto simp: Let_def add_rest_def Suc_diff_le trans_le_add2\<close>)
qed

lemma pass_insert:
  "mt_shape t \<Longrightarrow> live t = pre @ suf \<Longrightarrow> length pre + length (add_list base end' suf) \<le> 128 \<Longrightarrow>
    \<exists>t'. bind_ok (add_pass True base end' (length pre) nr t) (add_rest True end')
      = Inr (nr + (length (add_list base end' suf) - length suf), t')
    \<and> mt_shape t' \<and> live t' = pre @ add_list base end' suf"
proof (induction suf arbitrary: pre base nr t)
  case Nil
  then have idx: "\<not> length pre < unat (mt_cnt t)" using live_length [of t] by simp
  show ?case
  proof (cases "base < end'")
    case True
    then obtain t' where "memblock_insert_region t (length pre) base (end' - base) = Inr t'"
        "mt_shape t'" "live t' = pre @ [\<lparr>mr_base = base, mr_size = end' - base\<rparr>]"
      using insert_live [of t pre "[]" base "end' - base"] Nil live_length [of t] by auto
    with True idx show ?thesis by (simp add: add_pass.simps add_rest_def)
  next
    case False
    with idx Nil show ?thesis by (simp add: add_pass.simps add_rest_def)
  qed
next
  case (Cons r rs)
  obtain tail where tl: "mt_regions t = pre @ (r # rs) @ tail"
      "length pre + length (r # rs) = unat (mt_cnt t)"
    using live_split [OF Cons.prems(1,2)] by blast
  have idx: "length pre < unat (mt_cnt t)" "mt_regions t ! length pre = r"
    "length pre < length (mt_regions t)" using tl by simp_all
  have len: "length rs \<le> length (add_list b end' rs)" for b using add_list_length by blast
  consider "end' \<le> mr_base r" "base < end'" | "end' \<le> mr_base r" "\<not> base < end'"
    | "\<not> end' \<le> mr_base r" "mr_end r \<le> base"
    | "\<not> end' \<le> mr_base r" "\<not> mr_end r \<le> base" "base < mr_base r"
    | "\<not> end' \<le> mr_base r" "\<not> mr_end r \<le> base" "\<not> base < mr_base r" by blast
  then show ?case
  proof cases
    case 1
    then obtain t' where "memblock_insert_region t (length pre) base (end' - base) = Inr t'"
        "mt_shape t'" "live t' = pre @ \<lparr>mr_base = base, mr_size = end' - base\<rparr> # r # rs"
      using insert_live [OF Cons.prems(1,2), of base "end' - base"] Cons.prems(3) tl(2) by auto
    with 1 idx show ?thesis by (subst add_pass.simps) (simp add: Let_def add_rest_def)
  next
    case 2
    with idx Cons.prems show ?thesis by (subst add_pass.simps) (simp add: Let_def add_rest_def)
  next
    case 3
    have "\<exists>t'. bind_ok (add_pass True base end' (length (pre @ [r])) nr t) (add_rest True end')
        = Inr (nr + (length (add_list base end' rs) - length rs), t')
      \<and> mt_shape t' \<and> live t' = (pre @ [r]) @ add_list base end' rs"
      using Cons.prems 3 by (intro Cons.IH) simp_all
    with 3 idx show ?thesis by (subst add_pass.simps) (simp add: Let_def)
  next
    case 4
    let ?new = "\<lparr>mr_base = base, mr_size = mr_base r - base\<rparr>" and ?b = "min (mr_end r) end'"
    have "unat (mt_cnt t) < 128" using Cons.prems(3) tl(2) 4 len [of ?b] by simp
    then obtain t1 where t1: "memblock_insert_region t (length pre) base (mr_base r - base) = Inr t1"
        "mt_shape t1" "live t1 = pre @ ?new # r # rs"
      using insert_live [OF Cons.prems(1,2), of base "mr_base r - base"] by auto
    have "\<exists>t'. bind_ok (add_pass True ?b end' (length (pre @ [?new, r])) (nr + 1) t1) (add_rest True end')
        = Inr (nr + 1 + (length (add_list ?b end' rs) - length rs), t')
      \<and> mt_shape t' \<and> live t' = (pre @ [?new, r]) @ add_list ?b end' rs"
      using Cons.prems(3) 4 t1 by (intro Cons.IH) simp_all
    with 4 idx t1 len [of ?b] show ?thesis
      by (subst add_pass.simps) (simp add: Let_def Suc_diff_le)
  next
    case 5
    let ?b = "min (mr_end r) end'"
    have "\<exists>t'. bind_ok (add_pass True ?b end' (length (pre @ [r])) nr t) (add_rest True end')
        = Inr (nr + (length (add_list ?b end' rs) - length rs), t')
      \<and> mt_shape t' \<and> live t' = (pre @ [r]) @ add_list ?b end' rs"
      using Cons.prems 5 by (intro Cons.IH) simp_all
    with 5 idx show ?thesis by (subst add_pass.simps) (simp add: Let_def)
  qed
qed

subsection \<open>The merge loop\<close>

lemma merge_loop_spec:
  "mt_shape t \<Longrightarrow> live t = pre @ a # rs \<Longrightarrow>
    \<exists>t'. merge_loop (length pre) t = Inr t' \<and> mt_shape t' \<and> live t' = pre @ merge_list (a # rs)"
proof (induction rs arbitrary: t pre a)
  case Nil
  then have "\<not> length pre < unat (mt_cnt t - 1)"
    using live_length [of t] by (simp add: unat_minus_1)
  with Nil show ?case by (simp add: merge_loop.simps)
next
  case (Cons b rs)
  obtain tail where tl: "mt_regions t = pre @ (a # b # rs) @ tail"
      "length pre + length (a # b # rs) = unat (mt_cnt t)" "length tail = 128 - unat (mt_cnt t)"
    using live_split [OF Cons.prems] by blast
  have cnt: "unat (mt_cnt t) \<le> 128" using Cons.prems(1) by (simp add: mt_shape_def)
  have idx: "length pre < unat (mt_cnt t - 1)" using tl(2) by (simp add: unat_minus_1)
  have at: "mt_regions t ! length pre = a" "mt_regions t ! (length pre + 1) = b"
    "length pre + 1 < length (mt_regions t)"
    using tl(1) by (simp_all add: nth_append)
  show ?case
  proof (cases "mr_end a = mr_base b")
    case False
    have "\<exists>t'. merge_loop (length (pre @ [a])) t = Inr t' \<and> mt_shape t'
        \<and> live t' = (pre @ [a]) @ merge_list (b # rs)"
      using Cons.prems by (intro Cons.IH) simp_all
    with False idx at show ?thesis by (subst merge_loop.simps) (simp add: Let_def)
  next
    case True
    let ?ab = "a\<lparr>mr_size := mr_size a + mr_size b\<rparr>"
    let ?rs = "pre @ (?ab # b # rs) @ tail"
    have upd: "(mt_regions t)[length pre := ?ab] = ?rs" using tl(1) by simp
    have "unat (mt_cnt t - of_nat (length pre + 2)) = length rs"
      using tl(2) by (subst unat_minus_of_nat) simp_all
    then have n: "unat (take_bit 28 (ucast (mt_cnt t - of_nat (length pre + 2)) :: u64)) = length rs"
      using move_count [of "mt_cnt t - of_nat (length pre + 2)"] tl(2) cnt by simp
    have "\<exists>zs. move_regions (length pre + 1) (length pre + 2)
          (ucast (mt_cnt t - of_nat (length pre + 2))) ?rs = Inr (pre @ ?ab # rs @ zs)
        \<and> length zs = length tail + 1"
    proof (cases "rs = []")
      case True
      with n show ?thesis by (intro exI [of _ "b # tail"]) (simp add: move_regions_def)
    next
      case False
      then obtain c cs where rs: "rs = cs @ [c]" by (cases rs rule: rev_cases) auto
      have "take (length rs) (drop (length pre + 2) ?rs) = rs" by simp
      moreover have "take (length pre + 1) ?rs = pre @ [?ab]" by simp
      moreover have "drop (length pre + 1 + length rs) ?rs = c # tail" by (simp add: rs)
      moreover have "length pre + 2 + length rs \<le> length ?rs" by simp
      ultimately have "move_regions (length pre + 1) (length pre + 2)
          (ucast (mt_cnt t - of_nat (length pre + 2))) ?rs = Inr (pre @ ?ab # rs @ c # tail)"
        using False n by (simp only: move_regions_def Let_def) simp
      then show ?thesis by (intro exI [of _ "c # tail"]) simp
    qed
    then obtain zs where zs: "move_regions (length pre + 1) (length pre + 2)
          (ucast (mt_cnt t - of_nat (length pre + 2))) ?rs = Inr (pre @ ?ab # rs @ zs)"
        "length zs = length tail + 1" by blast
    let ?t = "t\<lparr>mt_regions := pre @ ?ab # rs @ zs, mt_cnt := mt_cnt t - 1\<rparr>"
    have step: "merge_loop (length pre) t = merge_loop (length pre) ?t"
      using True idx at zs(1) upd by (subst merge_loop.simps) (simp add: Let_def)
    have c1: "unat (mt_cnt t - 1) = unat (mt_cnt t) - 1" using tl(2) by (simp add: unat_minus_1)
    have "length pre + (1 + length rs + length zs) = 128"
      using tl(2,3) zs(2) cnt by simp
    then have "mt_shape ?t"
      using cnt c1 by (simp add: mt_shape_def)
    moreover have "live ?t = pre @ ?ab # rs"
      unfolding live_def using c1 tl(2) by (simp add: tl(2) [symmetric])
    ultimately have "\<exists>t'. merge_loop (length pre) ?t = Inr t' \<and> mt_shape t'
        \<and> live t' = pre @ merge_list (?ab # rs)"
      by (rule Cons.IH)
    with step True show ?thesis by simp
  qed
qed

subsection \<open>Adding regions\<close>

text \<open>A region array in use: sorted, disjoint, nonempty regions, in an array of 128.\<close>

definition mt_wf :: "memblock_type \<Rightarrow> bool" where
  "mt_wf t \<longleftrightarrow> mt_shape t \<and> live t \<noteq> [] \<and> sorted_from 0 (live t)"

text \<open>The array as start-up leaves it: one region of size zero.\<close>

definition mt_empty :: "memblock_type \<Rightarrow> bool" where
  "mt_empty t \<longleftrightarrow> mt_shape t \<and> mt_cnt t = 1 \<and> mr_size (mt_regions t ! 0) = 0"

lemma mt_empty_live:
  assumes "mt_empty t"
  shows "\<exists>r. live t = [r] \<and> mr_size r = 0" and "cover (live t) = {}"
proof -
  obtain r rs where "mt_regions t = r # rs"
    using assms by (cases "mt_regions t") (auto simp: mt_empty_def mt_shape_def)
  with assms show "\<exists>r. live t = [r] \<and> mr_size r = 0"
    by (simp add: mt_empty_def live_def)
  then show "cover (live t) = {}" by auto
qed

lemma add_to_empty:
  assumes e: "mt_empty t" and sz: "0 < unat sz" "unat base + unat sz < 2 ^ 64"
  shows "\<exists>t'. memblock_add_regions t base sz = Inr t' \<and> mt_wf t' \<and> mt_cnt t' = 1
    \<and> live t' = [\<lparr>mr_base = base, mr_size = sz\<rparr>]"
proof -
  obtain r rs where rs: "mt_regions t = r # rs"
    using e by (cases "mt_regions t") (auto simp: mt_empty_def mt_shape_def)
  let ?t = "t\<lparr>mt_regions := \<lparr>mr_base = base, mr_size = sz\<rparr> # rs, mt_total_size := sz\<rparr>"
  have "sz \<noteq> 0" using sz(1) by auto
  then have "memblock_add_regions t base sz = Inr ?t"
    using e rs by (simp add: memblock_add_regions_def mt_empty_def Let_def)
  moreover have "live ?t = [\<lparr>mr_base = base, mr_size = sz\<rparr>]"
    using e by (simp add: live_def mt_empty_def)
  moreover have "mt_shape ?t" using e rs by (simp add: mt_shape_def mt_empty_def)
  ultimately show ?thesis
    using e sz by (intro exI [of _ ?t]) (simp add: mt_wf_def good_def mt_empty_def)
qed

lemma add_regions_spec:
  assumes wf: "mt_wf t" and sz: "0 < unat sz" "unat base + unat sz < 2 ^ 64"
    and room: "length (add_list base (base + sz) (live t)) \<le> 128"
  shows "\<exists>t'. memblock_add_regions t base sz = Inr t' \<and> mt_wf t'
    \<and> cover (live t') = cover (live t) \<union> {unat base..<unat base + unat sz}
    \<and> length (live t') \<le> length (add_list base (base + sz) (live t))
    \<and> (length (add_list base (base + sz) (live t)) \<noteq> length (live t) \<longrightarrow>
         live t' = merge_list (add_list base (base + sz) (live t)))"
proof -
  let ?fin = "base + sz" and ?new = "add_list base (base + sz) (live t)"
  note shape = wf [unfolded mt_wf_def]
  have e: "unat ?fin = unat base + unat sz" using sz(2) by (simp add: unat_word_ariths)
  obtain r rs where rs: "live t = r # rs" using shape by (cases "live t") auto
  have "good r" using shape rs by simp
  moreover obtain tail where "mt_regions t = r # rs @ tail"
    using live_split [of t "[]" "r # rs"] shape rs by auto
  then have "mt_regions t ! 0 = r" "mt_regions t \<noteq> []" by simp_all
  ultimately have first: "mr_size (mt_regions t ! 0) \<noteq> 0" "mt_regions t \<noteq> []"
    by (auto simp: good_def)
  have "sz \<noteq> 0" using sz(1) by auto
  have count: "bind_ok (add_pass False base ?fin 0 0 t) (add_rest False ?fin)
      = Inr (length ?new - length (live t), t)"
    using pass_count [of t "[]" "live t" base ?fin 0] shape by simp
  obtain t1 where t1: "bind_ok (add_pass True base ?fin 0 0 t) (add_rest True ?fin)
      = Inr (length ?new - length (live t), t1)" "mt_shape t1" "live t1 = ?new"
    using pass_insert [of t "[]" "live t" base ?fin 0] shape room by auto
  have sorted: "sorted_from 0 ?new" using shape by (intro add_list_sorted) simp_all
  have cov: "cover ?new = cover (live t) \<union> {unat base..<unat base + unat sz}"
    using add_list_cover [of 0 "live t" base ?fin] shape e by simp
  show ?thesis
  proof (cases "length ?new = length (live t)")
    case True
    then have "length ?new - length (live t) = 0" by simp
    then have "memblock_add_regions t base sz = Inr t"
      using \<open>sz \<noteq> 0\<close> first count by (simp add: memblock_add_regions_def Let_def)
    moreover have "cover (live t) = cover ?new"
      using add_list_same [OF True] by simp
    ultimately show ?thesis using wf cov True by (intro exI [of _ t]) simp
  next
    case False
    then have pos: "length ?new - length (live t) \<noteq> 0"
      using add_list_length [of "live t" base ?fin] by simp
    have "?new \<noteq> []" using add_list_length [of "live t" base ?fin] rs by auto
    then obtain a as where new: "?new = a # as" by (cases ?new) auto
    then obtain t2 where t2: "merge_loop 0 t1 = Inr t2" "mt_shape t2" "live t2 = merge_list ?new"
      using merge_loop_spec [of t1 "[]" a as] t1(2,3) by auto
    have "memblock_add_regions t base sz = Inr t2"
      using \<open>sz \<noteq> 0\<close> first count t1(1) t2(1) pos
      by (simp add: memblock_add_regions_def memblock_merge_regions_def Let_def)
    moreover have "merge_list ?new \<noteq> []" using merge_list_head [of ?new] new by auto
    ultimately show ?thesis
      using t2 merge_list_spec [OF sorted] cov by (intro exI [of _ t2]) (simp add: mt_wf_def)
  qed
qed

subsection \<open>Free ranges\<close>

definition mt_ok :: "memblock_type \<Rightarrow> bool" where
  "mt_ok t \<longleftrightarrow> mt_wf t \<or> mt_empty t"

lemma mt_ok_shape: "mt_ok t \<Longrightarrow> mt_shape t"
  by (auto simp: mt_ok_def mt_wf_def mt_empty_def)

lemma mt_shape_bounds:
  assumes "mt_shape t"
  shows "unat (mt_cnt t) \<le> length (mt_regions t)" "length (mt_regions t) = 128"
  using assms by (auto simp: mt_shape_def)

lemma region_at_live:
  assumes "mt_shape t" "0 \<le> i" "i < int (unat (mt_cnt t))"
  shows "region_at t i = Inr (live t ! nat i)"
proof -
  have "nat i < unat (mt_cnt t)" using assms(2,3) by linarith
  then show ?thesis using assms(2) mt_shape_bounds [OF assms(1)] by (simp add: region_at_def live_def)
qed

lemma gap_total:
  assumes s: "mt_shape t" and j: "0 \<le> j" "j \<le> int (unat (mt_cnt t))"
  shows "\<exists>a. gap_start t j = Inr a" "\<exists>b. gap_end t j = Inr b"
proof -
  have "region_at t (j - 1) = Inr (live t ! nat (j - 1))" if "j \<noteq> 0"
    using that j by (intro region_at_live [OF s]) linarith+
  then show "\<exists>a. gap_start t j = Inr a" by (auto simp: gap_start_def)
  have "region_at t j = Inr (live t ! nat j)" if "j < int (unat (mt_cnt t))"
    using that j by (intro region_at_live [OF s])
  then show "\<exists>b. gap_end t j = Inr b" by (auto simp: gap_end_def)
qed

lemma gap_free:
  assumes ok: "mt_ok t" and j: "0 \<le> j" "j \<le> int (unat (mt_cnt t))"
    and gs: "gap_start t j = Inr gs" and ge: "gap_end t j = Inr ge"
    and x: "unat gs \<le> x" "x < unat ge"
  shows "x \<notin> cover (live t)"
proof (cases "mt_wf t")
  case False
  then show ?thesis using ok mt_empty_live by (simp add: mt_ok_def)
next
  case True
  then have wf: "mt_shape t" "sorted_from 0 (live t)" by (simp_all add: mt_wf_def)
  have len: "length (live t) = unat (mt_cnt t)" using wf live_length by simp
  have lower: "hi (live t ! i) \<le> x" if "i < nat j" "i < length (live t)" for i
  proof -
    have k: "nat j - 1 < length (live t)" using that j len by linarith
    have "region_at t (j - 1) = Inr (live t ! nat (j - 1))"
      using that j by (intro region_at_live [OF wf(1)]) linarith+
    moreover have "nat (j - 1) = nat j - 1" by linarith
    ultimately have "gs = mr_end (live t ! (nat j - 1))" using gs that by (simp add: gap_start_def split: if_splits)
    then have "unat gs = hi (live t ! (nat j - 1))"
      using good_end sorted_from_nth [OF wf(2) k] by simp
    moreover have "hi (live t ! i) \<le> hi (live t ! (nat j - 1))"
    proof (cases "i = nat j - 1")
      case False
      then have "i < nat j - 1" using that by linarith
      then show ?thesis using sorted_from_nth2 [OF wf(2) _ k, of i] by simp
    qed simp
    ultimately show ?thesis using x by simp
  qed
  have upper: "x < lo (live t ! i)" if "nat j \<le> i" "i < length (live t)" for i
  proof -
    have "region_at t j = Inr (live t ! nat j)"
      using that j len by (intro region_at_live [OF wf(1)]) linarith+
    moreover have "j < int (unat (mt_cnt t))" using that len j by linarith
    ultimately have "ge = mr_base (live t ! nat j)" using ge by (simp add: gap_end_def)
    moreover have "lo (live t ! nat j) \<le> lo (live t ! i)"
      using sorted_from_nth2 [OF wf(2), of "nat j" i] that by (cases "i = nat j") auto
    ultimately show ?thesis using x by simp
  qed
  show ?thesis
  proof
    assume "x \<in> cover (live t)"
    then obtain i where "i < length (live t)" "lo (live t ! i) \<le> x" "x < hi (live t ! i)"
      by (auto simp: cover_def in_set_conv_nth)
    then show False using lower [of i] upper [of i] by force
  qed
qed

lemma range_inner_total:
  assumes s: "mt_shape tb"
  shows "ib \<le> int (unat (mt_cnt tb)) \<Longrightarrow> \<exists>R. range_inner ms me ia ib tb = Inr R"
proof (induction "nat (ib + 1)" arbitrary: ib rule: less_induct)
  case less
  show ?case
  proof (cases "ib < 0")
    case True
    then show ?thesis by (simp add: range_inner.simps [of _ _ _ ib])
  next
    case False
    then obtain a b where "gap_start tb ib = Inr a" "gap_end tb ib = Inr b"
      using gap_total [OF s, of ib] less.prems by auto
    moreover have "\<exists>R. range_inner ms me ia (ib - 1) tb = Inr R"
      using less.hyps [of "ib - 1"] less.prems False by simp
    ultimately show ?thesis using False by (simp add: range_inner.simps [of _ _ _ ib])
  qed
qed

text \<open>A range of free addresses: all of them in \<open>ta\<close>, none in \<open>tb\<close>.\<close>

definition free_range :: "memblock_type \<Rightarrow> memblock_type \<Rightarrow> u64 \<Rightarrow> u64 \<Rightarrow> bool" where
  "free_range ta tb s e \<longleftrightarrow>
     {unat s..<unat e} \<subseteq> cover (live ta) \<and> {unat s..<unat e} \<inter> cover (live tb) = {}"

lemma next_range_spec:
  assumes a: "mt_wf ta" and b: "mt_ok tb"
  shows "ia < int (unat (mt_cnt ta)) \<Longrightarrow> ib \<le> int (unat (mt_cnt tb)) \<Longrightarrow>
    next_mem_range_rev ia ib ta tb = Inr None \<or>
    (\<exists>s e ia' ib'. next_mem_range_rev ia ib ta tb = Inr (Some (s, e, ia', ib'))
      \<and> ia' \<le> ia \<and> ib' \<le> ib \<and> free_range ta tb s e)"
proof (induction "nat (ia + 1)" arbitrary: ia ib rule: less_induct)
  case less
  show ?case
  proof (cases "ia < 0")
    case True
    then show ?thesis by (simp add: next_mem_range_rev.simps)
  next
    case False
    have a': "mt_shape ta" "sorted_from 0 (live ta)" using a by (simp_all add: mt_wf_def)
    let ?m = "live ta ! nat ia"
    have m: "region_at ta ia = Inr ?m" "nat ia < length (live ta)"
      using region_at_live [OF a'(1), of ia] False less.prems(1) live_length [OF a'(1)]
      by (simp_all only: not_less)
    have gm: "good ?m" using sorted_from_nth [OF a'(2) m(2)] by simp
    obtain R where R: "range_inner (mr_base ?m) (mr_end ?m) ia ib tb = Inr R"
      using range_inner_total [OF mt_ok_shape [OF b] less.prems(2)] by blast
    show ?thesis
    proof (cases R)
      case (Inr ib2)
      then have "ib2 \<le> ib" using range_inner_result [OF R] by auto
      then show ?thesis
        using less.hyps [of "ia - 1" ib2] less.prems False m R Inr
        by (fastforce simp: next_mem_range_rev.simps [of ia])
    next
      case (Inl found)
      then obtain j gs ge where j: "0 \<le> j" "j \<le> ib" "gap_start tb j = Inr gs" "gap_end tb j = Inr ge"
        and f: "found = (max (mr_base ?m) gs, min (mr_end ?m) ge,
          (if gs \<le> mr_base ?m then (ia - 1, j) else (ia, j - 1)))"
        using range_inner_result [OF R] by auto
      have "x \<notin> cover (live tb)" if "unat gs \<le> x" "x < unat ge" for x
        using gap_free [OF b j(1) _ j(3,4) that] j less.prems by simp
      moreover have "x \<in> cover (live ta)" if "lo ?m \<le> x" "x < hi ?m" for x
        unfolding cover_def using nth_mem [OF m(2)] that by fastforce
      ultimately have "free_range ta tb (max (mr_base ?m) gs) (min (mr_end ?m) ge)"
        using good_end [OF gm]
        by (auto simp: free_range_def unat_max_word unat_min_word)
      then show ?thesis
        using False m R Inl f j by (auto simp: next_mem_range_rev.simps [of ia])
    qed
  qed
qed

subsection \<open>Searching\<close>

lemma clamped_range:
  fixes cand :: u64
  assumes sz: "0 < unat sz" "\<not> clamp e start end' < sz"
    and cand: "cand = round_down (clamp e start end' - sz) align" "clamp s start end' \<le> cand"
  shows "unat s \<le> unat cand" "unat cand + unat sz \<le> unat e"
    "unat start \<le> unat cand" "unat cand + unat sz \<le> unat end'"
proof -
  have "cand \<le> clamp e start end' - sz"
    using cand(1) by (simp add: round_down_def word_and_le2)
  then have "unat cand + unat sz \<le> unat (clamp e start end')"
    using sz(2) by (simp add: word_le_nat_alt word_less_nat_alt unat_diff)
  moreover have "unat (clamp s start end') \<le> unat cand" using cand(2) by (simp add: word_le_nat_alt)
  ultimately show "unat s \<le> unat cand" "unat cand + unat sz \<le> unat e"
    "unat start \<le> unat cand" "unat cand + unat sz \<le> unat end'"
    using sz(1) by (auto simp: clamp_def unat_max_word unat_min_word)
qed

lemma find_loop_spec:
  assumes mem: "mt_wf (mb_memory mb)" and res: "mt_ok (mb_reserved mb)" and sz: "0 < unat sz"
  shows "ia < int (unat (mt_cnt (mb_memory mb))) \<Longrightarrow> ib \<le> int (unat (mt_cnt (mb_reserved mb))) \<Longrightarrow>
    find_loop ia ib start end' sz align mb = Inr 0 \<or>
    (\<exists>c. find_loop ia ib start end' sz align mb = Inr c \<and> c AND (align - 1) = 0
      \<and> unat start \<le> unat c \<and> unat c + unat sz \<le> unat end'
      \<and> {unat c..<unat c + unat sz} \<subseteq> cover (live (mb_memory mb))
      \<and> {unat c..<unat c + unat sz} \<inter> cover (live (mb_reserved mb)) = {})"
proof (induction "nat (ia + 1) + nat (ib + 1)" arbitrary: ia ib rule: less_induct)
  case less
  let ?find = "\<lambda>ia ib. find_loop ia ib start end' sz align mb"
  from next_range_spec [OF mem res less.prems] show ?case
  proof (elim disjE exE conjE)
    assume "next_mem_range_rev ia ib (mb_memory mb) (mb_reserved mb) = Inr None"
    then show ?thesis by (simp add: find_loop.simps [of ia])
  next
    fix s e ia' ib'
    assume n: "next_mem_range_rev ia ib (mb_memory mb) (mb_reserved mb) = Inr (Some (s, e, ia', ib'))"
      and le: "ia' \<le> ia" "ib' \<le> ib" and free: "free_range (mb_memory mb) (mb_reserved mb) s e"
    let ?c = "round_down (clamp e start end' - sz) align"
    show ?thesis
    proof (cases "\<not> clamp e start end' < sz \<and> clamp s start end' \<le> ?c")
      case True
      then have "?find ia ib = Inr ?c"
        using n by (simp add: find_loop.simps [of ia] Let_def)
      moreover have "?c AND (align - 1) = 0"
        by (intro bit_word_eqI) (auto simp: round_down_def bit_simps)
      moreover have "{unat ?c..<unat ?c + unat sz} \<subseteq> {unat s..<unat e}"
        using clamped_range [OF sz, of e start end' ?c] True by auto
      ultimately show ?thesis
        using clamped_range [OF sz, of e start end' ?c] True free
        unfolding free_range_def by (intro disjI2 exI [of _ ?c]) blast
    next
      case False
      then have "?find ia ib = ?find ia' ib'"
        using n by (auto simp: find_loop.simps [of ia] Let_def)
      then show ?thesis
        using less.hyps [of ia' ib'] next_mem_range_rev_next [OF n] le less.prems by fastforce
    qed
  qed
qed

subsection \<open>Allocating\<close>

text \<open>The allocator after \<open>memblock_init\<close>: memory is known, reserved memory may still be none.\<close>

definition mb_ok :: "memblock \<Rightarrow> bool" where
  "mb_ok mb \<longleftrightarrow> mt_wf (mb_memory mb) \<and> mt_ok (mb_reserved mb)"

definition in_use :: "memblock \<Rightarrow> nat set" where
  "in_use mb = cover (live (mb_reserved mb))"

definition all_memory :: "memblock \<Rightarrow> nat set" where
  "all_memory mb = cover (live (mb_memory mb))"

text \<open>How many more regions the array of reserved regions has room for.\<close>

definition slots :: "memblock \<Rightarrow> nat" where
  "slots mb = 128 - unat (mt_cnt (mb_reserved mb))"

definition block :: "u64 \<Rightarrow> u64 \<Rightarrow> nat set" where
  "block c sz = {unat c..<unat c + unat sz}"

lemma add_spec:
  assumes ok: "mt_ok t" and sz: "0 < unat sz" "unat c + unat sz < 2 ^ 64"
    and free: "block c sz \<inter> cover (live t) = {}" and room: "unat (mt_cnt t) < 128"
  shows "\<exists>t'. memblock_add_regions t c sz = Inr t' \<and> mt_wf t'
    \<and> cover (live t') = cover (live t) \<union> block c sz \<and> unat (mt_cnt t') \<le> unat (mt_cnt t) + 1"
proof (cases "mt_wf t")
  case True
  have e: "unat (c + sz) = unat c + unat sz" using sz(2) by (simp add: unat_word_ariths)
  have wf: "sorted_from 0 (live t)" "length (live t) = unat (mt_cnt t)"
    using True live_length by (auto simp: mt_wf_def)
  have len: "length (add_list c (c + sz) (live t)) = length (live t) + 1"
    using free e sz(1)
    by (intro add_list_disjoint_length [OF wf(1)]) (simp_all add: word_less_nat_alt block_def)
  then have "length (add_list c (c + sz) (live t)) \<le> 128" using room wf(2) by simp
  from add_regions_spec [OF True sz this] obtain t' where
    t': "memblock_add_regions t c sz = Inr t'" "mt_wf t'"
      "cover (live t') = cover (live t) \<union> block c sz" "length (live t') \<le> length (live t) + 1"
    unfolding len block_def by blast
  moreover have "length (live t') = unat (mt_cnt t')" using t'(2) live_length by (simp add: mt_wf_def)
  ultimately show ?thesis using wf(2) by auto
next
  case False
  then have e: "mt_empty t" using ok by (simp add: mt_ok_def)
  from add_to_empty [OF e sz] show ?thesis
    using mt_empty_live(2) [OF e] by (force simp: block_def)
qed

lemma reserve_spec:
  assumes ok: "mb_ok mb" and sz: "0 < unat sz" "unat c + unat sz < 2 ^ 64"
    and free: "block c sz \<inter> in_use mb = {}" and slots: "0 < slots mb"
  shows "\<exists>mb'. memblock_reserve c sz mb = Inr mb' \<and> mb_ok mb' \<and> mt_wf (mb_reserved mb') \<and> mb_memory mb' = mb_memory mb
    \<and> current_limit mb' = current_limit mb
    \<and> in_use mb' = in_use mb \<union> block c sz \<and> slots mb \<le> slots mb' + 1"
  using add_spec [of "mb_reserved mb" sz c] assms
  by (auto simp: memblock_reserve_def mb_ok_def mt_ok_def in_use_def slots_def)

text \<open>A block the allocator hands out.\<close>

definition good_block :: "u64 \<Rightarrow> u64 \<Rightarrow> memblock \<Rightarrow> u64 \<Rightarrow> bool" where
  "good_block sz align mb c \<longleftrightarrow> unat PGSIZE \<le> unat c \<and> c AND (align - 1) = 0
     \<and> block c sz \<subseteq> all_memory mb \<and> block c sz \<inter> in_use mb = {}"

lemma alloc_base_spec:
  assumes ok: "mb_ok mb" and sz: "0 < unat sz" and slots: "0 < slots mb"
  shows "memblock_alloc_base sz align limit mb = Inl (Panic ''alloc fault'') \<or>
    (\<exists>c mb'. memblock_alloc_base sz align limit mb = Inr (c, mb') \<and> good_block sz align mb c
      \<and> mb_ok mb' \<and> mb_memory mb' = mb_memory mb \<and> current_limit mb' = current_limit mb
      \<and> in_use mb' = in_use mb \<union> block c sz \<and> slots mb \<le> slots mb' + 1)"
proof -
  define end' where "end' = max (max 0 PGSIZE) (if limit = MEMBLOCK_ALLOC_ACCESSIBLE then current_limit mb else limit)"
  have find: "memblock_find_in_range sz align 0 limit mb = find_range_top_down PGSIZE end' sz align mb"
    by (simp add: memblock_find_in_range_def end'_def Let_def PGSIZE_def)
  have wf: "mt_wf (mb_memory mb)" "mt_ok (mb_reserved mb)" using ok by (simp_all add: mb_ok_def)
  have "find_range_top_down PGSIZE end' sz align mb = Inr 0 \<or>
    (\<exists>c. find_range_top_down PGSIZE end' sz align mb = Inr c \<and> c AND (align - 1) = 0
      \<and> unat PGSIZE \<le> unat c \<and> unat c + unat sz \<le> unat end'
      \<and> block c sz \<subseteq> all_memory mb \<and> block c sz \<inter> in_use mb = {})"
    unfolding find_range_top_down_def block_def all_memory_def in_use_def
    by (rule find_loop_spec [OF wf sz]) simp_all
  then show ?thesis
  proof (elim disjE exE conjE)
    assume "find_range_top_down PGSIZE end' sz align mb = Inr 0"
    then show ?thesis
      by (simp add: memblock_alloc_base_def memblock_alloc_range_def find)
  next
    fix c assume c: "find_range_top_down PGSIZE end' sz align mb = Inr c" "c AND (align - 1) = 0"
      "unat PGSIZE \<le> unat c" "unat c + unat sz \<le> unat end'"
      "block c sz \<subseteq> all_memory mb" "block c sz \<inter> in_use mb = {}"
    have "c \<noteq> 0" using c(3) by (auto simp: PGSIZE_def)
    moreover have "unat c + unat sz < 2 ^ 64"
      using c(4) unsigned_less [of end', where 'a = nat] by simp
    then obtain mb' where "memblock_reserve c sz mb = Inr mb'" "mb_ok mb'"
        "mb_memory mb' = mb_memory mb" "current_limit mb' = current_limit mb"
        "in_use mb' = in_use mb \<union> block c sz" "slots mb \<le> slots mb' + 1"
      using reserve_spec [OF ok sz _ c(6) slots] by blast
    ultimately show ?thesis
      using c by (auto simp: memblock_alloc_base_def memblock_alloc_range_def find good_block_def)
  qed
qed

end
