(* ===== verification/MemblockFind.thy ===== *)
theory MemblockFind
  imports MemblockSpec
begin

text \<open>
  The search of the boot memory allocator finds what there is: as long as some free run of pages is
  long enough, \<open>memblock_alloc\<close> succeeds, and takes at most the end of that run.
\<close>

subsection \<open>Gaps\<close>

lemma gap_start_Suc:
  assumes "mt_shape t" "0 \<le> j" "j < int (unat (mt_cnt t))"
  shows "gap_start t (j + 1) = Inr (mr_end (live t ! nat j))" and "gap_end t j = Inr (mr_base (live t ! nat j))"
proof -
  have "region_at t j = Inr (live t ! nat j)" using assms by (rule region_at_live)
  then show "gap_start t (j + 1) = Inr (mr_end (live t ! nat j))" "gap_end t j = Inr (mr_base (live t ! nat j))"
    using assms(2,3) by (simp_all add: gap_start_def gap_end_def)
qed

text \<open>The regions of either kind of table are ordered.\<close>

lemma mt_ok_regions:
  assumes ok: "mt_ok t" and i: "i < length (live t)"
  shows "hi (live t ! i) < 2 ^ 64" (is ?less) and "unat (mr_end (live t ! i)) = hi (live t ! i)" (is ?fin)
    and "i < k \<Longrightarrow> k < length (live t) \<Longrightarrow> hi (live t ! i) \<le> lo (live t ! k)"
proof -
  have "?less \<and> ?fin \<and> (i < k \<longrightarrow> k < length (live t) \<longrightarrow> hi (live t ! i) \<le> lo (live t ! k))"
  proof (cases "mt_wf t")
    case True
    then have s: "sorted_from 0 (live t)" by (simp add: mt_wf_def)
    with sorted_from_nth [OF s i] show ?thesis
      by (simp add: good_end) (simp add: good_def sorted_from_nth2 [OF s])
  next
    case False
    then obtain r where r: "live t = [r]" "mr_size r = 0"
      using ok mt_empty_live(1) [of t] by (auto simp: mt_ok_def)
    then have "live t ! i = r" "length (live t) = 1" using i by simp_all
    with r show ?thesis using unsigned_less [of "mr_base r", where 'a = nat] by simp
  qed
  then show ?less and ?fin and "i < k \<Longrightarrow> k < length (live t) \<Longrightarrow> hi (live t ! i) \<le> lo (live t ! k)"
    by blast+
qed

lemma gap_order:
  assumes ok: "mt_ok t" and j: "0 \<le> j" "j < k" "k \<le> int (unat (mt_cnt t))"
    and gap: "gap_end t j = Inr ge" "gap_start t k = Inr gs"
  shows "unat ge \<le> unat gs"
proof -
  note s = mt_ok_shape [OF ok]
  have len: "length (live t) = unat (mt_cnt t)" by (rule live_length [OF s])
  have k: "gap_start t k = Inr (mr_end (live t ! nat (k - 1)))" using gap_start_Suc(1) [OF s, of "k - 1"] j by simp
  have e: "gap_end t j = Inr (mr_base (live t ! nat j))" using j by (intro gap_start_Suc(2) [OF s]) simp_all
  have lt: "nat (k - 1) < length (live t)" "nat j < length (live t)" using j len by linarith+
  have "lo (live t ! nat j) \<le> hi (live t ! nat (k - 1))"
  proof (cases "nat j = nat (k - 1)")
    case False
    then have "nat j < nat (k - 1)" using j by linarith
    then show ?thesis using mt_ok_regions(3) [OF ok lt(2) _ lt(1)] by simp
  qed simp
  then show ?thesis using gap k e mt_ok_regions(2) [OF ok lt(1)] by simp
qed

text \<open>A run of addresses that no region cuts lies in one gap.\<close>

definition in_gap :: "memblock_type \<Rightarrow> int \<Rightarrow> nat \<Rightarrow> nat \<Rightarrow> bool" where
  "in_gap t j a e \<longleftrightarrow> 0 \<le> j \<and> j \<le> int (unat (mt_cnt t))
     \<and> (\<exists>gs ge. gap_start t j = Inr gs \<and> gap_end t j = Inr ge \<and> unat gs \<le> a \<and> e \<le> unat ge)"

lemma uncut_in_gap:
  assumes ok: "mt_ok t" and uncut: "\<forall>r\<in>set (live t). hi r \<le> a \<or> e \<le> lo r" and e: "a < e" "e < 2 ^ 64"
  shows "\<exists>j. in_gap t j a e"
proof -
  note s = mt_ok_shape [OF ok]
  have len: "length (live t) = unat (mt_cnt t)" by (rule live_length [OF s])
  let ?n = "length (live t)"
  let ?P = "\<lambda>i. i = ?n \<or> i < ?n \<and> e \<le> lo (live t ! i)"
  define i where "i = (LEAST i. ?P i)"
  have P: "?P i" unfolding i_def by (rule LeastI [of ?P ?n]) simp
  then have i: "i \<le> ?n" by auto
  have "hi (live t ! (i - 1)) \<le> a" if "0 < i"
  proof -
    have "\<not> ?P (i - 1)" using that not_less_Least [of "i - 1" ?P] by (simp add: i_def)
    then have "i - 1 < ?n" "\<not> e \<le> lo (live t ! (i - 1))" using i that by auto
    then show ?thesis using uncut nth_mem by blast
  qed
  then have "\<exists>gs. gap_start t (int i) = Inr gs \<and> unat gs \<le> a"
  proof (cases "i = 0")
    case False
    then have "0 \<le> int i - 1" "int i - 1 < int (unat (mt_cnt t))" using i len by linarith+
    from gap_start_Suc(1) [OF s this] have "gap_start t (int i) = Inr (mr_end (live t ! (i - 1)))"
      using False by (simp add: nat_diff_distrib')
    moreover have "unat (mr_end (live t ! (i - 1))) = hi (live t ! (i - 1))"
      using False i by (intro mt_ok_regions(2) [OF ok]) linarith
    ultimately show ?thesis using \<open>0 < i \<Longrightarrow> _\<close> False by simp
  qed (simp add: gap_start_def)
  moreover have "\<exists>ge. gap_end t (int i) = Inr ge \<and> e \<le> unat ge"
  proof (cases "i < ?n")
    case True
    then have "int i < int (unat (mt_cnt t))" using len by linarith
    from gap_start_Suc(2) [OF s _ this] have "gap_end t (int i) = Inr (mr_base (live t ! i))" by simp
    then show ?thesis using P True by auto
  next
    case False
    then show ?thesis using i len e(2) by (simp add: gap_end_def unsigned_minus_1_eq_mask mask_eq_exp_minus_1)
  qed
  moreover have "int i \<le> int (unat (mt_cnt t))" using i len by linarith
  ultimately show ?thesis unfolding in_gap_def by (intro exI [of _ "int i"]) auto
qed

subsection \<open>The search passes no free run\<close>

text \<open>In the loop over the gaps for one region: the gap \<open>j\<close> is not passed if its start lies below the end of the
  region.\<close>

lemma range_inner_stops:
  assumes s: "mt_shape tb" and gap: "gap_start tb j = Inr gs" "gs < me" and j: "0 \<le> j"
  shows "j \<le> ib \<Longrightarrow> ib \<le> int (unat (mt_cnt tb)) \<Longrightarrow>
    (\<exists>ib' ge'. range_inner ms me ia ib tb = Inr (Inr ib') \<and> j \<le> ib' \<and> ib' \<le> ib
      \<and> gap_end tb ib' = Inr ge' \<and> ge' \<le> ms) \<or>
    (\<exists>j' gs' ge'. j \<le> j' \<and> j' \<le> ib \<and> gap_start tb j' = Inr gs' \<and> gap_end tb j' = Inr ge'
      \<and> range_inner ms me ia ib tb = Inr (Inl (max ms gs', min me ge',
          if gs' \<le> ms then (ia - 1, j') else (ia, j' - 1))))"
proof (induction "nat (ib + 1)" arbitrary: ib rule: less_induct)
  case less
  obtain a b where g: "gap_start tb ib = Inr a" "gap_end tb ib = Inr b"
    using gap_total [OF s, of ib] less.prems j by auto
  note run = range_inner.simps [of ms me ia ib tb]
  have ib: "\<not> ib < 0" using less.prems j by simp
  consider "b \<le> ms" | "\<not> b \<le> ms" "a < me" | "\<not> b \<le> ms" "\<not> a < me" by blast
  then show ?case
  proof cases
    case 1
    then have "range_inner ms me ia ib tb = Inr (Inr ib)" using ib g by (simp add: run)
    then show ?thesis using 1 g less.prems by blast
  next
    case 2
    then have "range_inner ms me ia ib tb = Inr (Inl (max ms a, min me b,
        if a \<le> ms then (ia - 1, ib) else (ia, ib - 1)))"
      using ib g by (simp only: run if_False bind_ok_simps if_True)
    then show ?thesis using g less.prems by blast
  next
    case 3
    then have "ib \<noteq> j" using g gap by auto
    then have "j \<le> ib - 1" using less.prems by simp
    moreover have "range_inner ms me ia ib tb = range_inner ms me ia (ib - 1) tb"
      using 3 ib g by (simp add: run)
    ultimately show ?thesis using less.hyps [of "ib - 1"] less.prems j by fastforce
  qed
qed

text \<open>The run \<open>a, \<dots>, e\<close> lies in region \<open>i\<close> and gap \<open>j\<close>.\<close>

definition run_in :: "memblock_type \<Rightarrow> memblock_type \<Rightarrow> nat \<Rightarrow> int \<Rightarrow> nat \<Rightarrow> nat \<Rightarrow> bool" where
  "run_in ta tb i j a e \<longleftrightarrow> i < length (live ta) \<and> lo (live ta ! i) \<le> a \<and> e \<le> hi (live ta ! i)
     \<and> in_gap tb j a e \<and> a < e"

lemma next_range_complete:
  assumes wf: "mt_wf ta" "mt_ok tb" and run: "run_in ta tb i j a e"
  shows "int i \<le> ia \<Longrightarrow> ia < int (unat (mt_cnt ta)) \<Longrightarrow> j \<le> ib \<Longrightarrow> ib \<le> int (unat (mt_cnt tb)) \<Longrightarrow>
    \<exists>s e' ia' ib'. next_mem_range_rev ia ib ta tb = Inr (Some (s, e', ia', ib'))
      \<and> (unat s \<le> a \<and> e \<le> unat e' \<or> e \<le> unat s \<and> int i \<le> ia' \<and> j \<le> ib')"
proof (induction "nat (ia + 1)" arbitrary: ia ib rule: less_induct)
  case less
  have sa: "mt_shape ta" "sorted_from 0 (live ta)" using wf(1) by (simp_all add: mt_wf_def)
  note sb = mt_ok_shape [OF wf(2)]
  obtain gs ge where g: "gap_start tb j = Inr gs" "gap_end tb j = Inr ge" "unat gs \<le> a" "e \<le> unat ge"
    and j: "0 \<le> j" "j \<le> int (unat (mt_cnt tb))"
    using run by (auto simp: run_in_def in_gap_def)
  have r: "i < length (live ta)" "lo (live ta ! i) \<le> a" "e \<le> hi (live ta ! i)" "a < e"
    using run by (simp_all add: run_in_def)
  let ?m = "live ta ! nat ia"
  have ia: "\<not> ia < 0" "nat ia < length (live ta)" using less.prems live_length [OF sa(1)] by linarith+
  have m: "region_at ta ia = Inr ?m" using ia less.prems by (intro region_at_live [OF sa(1)]) simp_all
  have gm: "unat (mr_end ?m) = hi ?m" using sorted_from_nth [OF sa(2) ia(2)] by (simp add: good_end)
  have later: "hi (live ta ! i) \<le> lo ?m" if "int i \<noteq> ia"
    using sorted_from_nth2 [OF sa(2) _ ia(2), of i] that less.prems(1) by linarith
  have "a < hi ?m" using r later by (cases "int i = ia") fastforce+
  then have below: "gs < mr_end ?m" using g(3) gm by (simp add: word_less_nat_alt)
  consider ib' ge' where "range_inner (mr_base ?m) (mr_end ?m) ia ib tb = Inr (Inr ib')" "j \<le> ib'" "ib' \<le> ib"
      "gap_end tb ib' = Inr ge'" "ge' \<le> mr_base ?m"
    | j' gs' ge' where "j \<le> j'" "j' \<le> ib" "gap_start tb j' = Inr gs'" "gap_end tb j' = Inr ge'"
      "range_inner (mr_base ?m) (mr_end ?m) ia ib tb = Inr (Inl (max (mr_base ?m) gs', min (mr_end ?m) ge',
          if gs' \<le> mr_base ?m then (ia - 1, j') else (ia, j' - 1)))"
    using range_inner_stops [OF sb g(1) below j(1) less.prems(3,4), of "mr_base ?m" ia] by blast
  then show ?case
  proof cases
    case 1
    have "e \<le> unat ge'"
    proof (cases "j = ib'")
      case False
      then obtain x where "gap_start tb ib' = Inr x" using gap_total(1) [OF sb, of ib'] 1 j less.prems by auto
      then have "unat ge \<le> unat x" using gap_order [OF wf(2) j(1) _ _ g(2), of ib' x] False 1 less.prems by simp
      also have "unat x \<le> unat ge'"
      proof (cases "ib' < int (unat (mt_cnt tb))")
        case True
        have "0 < ib'" using False 1 j by simp
        then have "gap_start tb ib' = Inr (mr_end (live tb ! nat (ib' - 1)))"
          using gap_start_Suc(1) [OF sb, of "ib' - 1"] True by simp
        moreover have "gap_end tb ib' = Inr (mr_base (live tb ! nat ib'))"
          using gap_start_Suc(2) [OF sb _ True] \<open>0 < ib'\<close> by simp
        moreover have "nat (ib' - 1) < length (live tb)" "nat ib' < length (live tb)" "nat (ib' - 1) < nat ib'"
          using True \<open>0 < ib'\<close> live_length [OF sb] by linarith+
        ultimately show ?thesis
          using mt_ok_regions(2,3) [OF wf(2)] 1(4) \<open>gap_start tb ib' = Inr x\<close> by simp
      next
        case False
        then have "x \<le> ge'" using 1(4) by (auto simp: gap_end_def)
        then show ?thesis by (simp add: word_le_nat_alt)
      qed
      finally show ?thesis using g(4) by simp
    qed (use 1(4) g in simp)
    then have "int i \<noteq> ia" using 1(5) r by (auto simp: word_le_nat_alt)
    then have "int i \<le> ia - 1" using less.prems(1) by simp
    moreover have "next_mem_range_rev ia ib ta tb = next_mem_range_rev (ia - 1) ib' ta tb"
      using ia m 1(1) by (simp add: next_mem_range_rev.simps [of ia])
    ultimately show ?thesis
      using less.hyps [of "ia - 1" ib'] less.prems 1 ia by simp
  next
    case 2
    let ?s = "max (mr_base ?m) gs'" and ?e = "min (mr_end ?m) ge'"
    have found: "next_mem_range_rev ia ib ta tb = Inr (Some (?s, ?e,
        if gs' \<le> mr_base ?m then (ia - 1, j') else (ia, j' - 1)))"
      using ia m 2(5) by (simp add: next_mem_range_rev.simps [of ia] split: prod.split)
    have ends: "unat ?s = max (lo ?m) (unat gs')" "unat ?e = min (hi ?m) (unat ge')"
      by (simp_all add: unat_max_word unat_min_word gm)
    have up: "e \<le> unat gs'" if "j \<noteq> j'"
      using gap_order [OF wf(2) j(1) _ _ g(2) 2(3)] that 2 less.prems g(4) by simp
    show ?thesis
    proof (cases "int i = ia \<and> j = j'")
      case True
      then have "gs' = gs" "ge' = ge" "?m = live ta ! i" using g 2(3,4) by auto
      then have "unat ?s \<le> a" "e \<le> unat ?e" unfolding ends using r g by simp_all
      then show ?thesis using found by (cases "gs' \<le> mr_base ?m") auto
    next
      case False
      have apart: "e \<le> unat ?s"
        using False up later r unfolding ends by (cases "j = j'") fastforce+
      have "gs' \<le> mr_base ?m \<Longrightarrow> int i \<le> ia - 1"
        using less.prems(1) False up r by (cases "int i = ia") (auto simp: word_le_nat_alt)
      moreover have "\<not> gs' \<le> mr_base ?m \<Longrightarrow> j \<le> j' - 1"
        using 2 False later g r by (cases "j = j'") (auto simp: word_le_nat_alt)
      ultimately show ?thesis using found apart 2(1) less.prems(1) by (cases "gs' \<le> mr_base ?m") auto
    qed
  qed
qed

subsection \<open>What is found\<close>

lemma round_down_page: "unat (round_down x PGSIZE) = 4096 * (unat x div 4096)"
proof -
  have m: "PGSIZE - 1 = (mask 12 :: u64)" by (simp add: PGSIZE_def mask_eq_exp_minus_1)
  have "round_down x PGSIZE = push_bit 12 (drop_bit 12 x)"
    unfolding round_down_def m by (rule bit_word_eqI) (auto simp: bit_simps)
  then have "unat (round_down x PGSIZE) = take_bit 64 (push_bit 12 (drop_bit 12 (unat x)))"
    using take_bit_nat_eq_self [of "unat x" 64] unsigned_less [of x, where 'a = nat]
    by (simp add: unsigned_push_bit_eq unsigned_drop_bit_eq)
  also have "push_bit 12 (drop_bit 12 (unat x)) = 4096 * (unat x div 4096)"
    by (simp add: push_bit_eq_mult drop_bit_eq_div)
  also have "take_bit 64 (4096 * (unat x div 4096)) = 4096 * (unat x div 4096)"
  proof (rule take_bit_nat_eq_self)
    have "4096 * (unat x div 4096) \<le> unat x" by simp
    then show "4096 * (unat x div 4096) < 2 ^ 64" using unsigned_less [of x, where 'a = nat] by simp
  qed
  finally show ?thesis .
qed

lemma round_down_keeps: "4096 dvd y \<Longrightarrow> y \<le> unat x \<Longrightarrow> y \<le> unat (round_down x PGSIZE)"
  unfolding round_down_page by (metis div_le_mono dvd_div_mult_self mult.commute mult_le_mono2)

lemma find_loop_complete:
  assumes wf: "mt_wf (mb_memory mb)" "mt_ok (mb_reserved mb)" and run: "run_in (mb_memory mb) (mb_reserved mb) i j a e"
    and sz: "0 < unat sz" "unat sz \<le> 4096 * k" "a + 4096 * k \<le> e" "4096 dvd e"
    and limits: "unat start \<le> a" "e \<le> unat end'"
  shows "int i \<le> ia \<Longrightarrow> ia < int (unat (mt_cnt (mb_memory mb))) \<Longrightarrow> j \<le> ib \<Longrightarrow>
    ib \<le> int (unat (mt_cnt (mb_reserved mb))) \<Longrightarrow>
    \<exists>c. find_loop ia ib start end' sz PGSIZE mb = Inr c \<and> unat start \<le> unat c \<and> e - 4096 * k \<le> unat c"
proof (induction "nat (ia + 1) + nat (ib + 1)" arbitrary: ia ib rule: less_induct)
  case less
  obtain s e' ia' ib' where n: "next_mem_range_rev ia ib (mb_memory mb) (mb_reserved mb) = Inr (Some (s, e', ia', ib'))"
    and found: "unat s \<le> a \<and> e \<le> unat e' \<or> e \<le> unat s \<and> int i \<le> ia' \<and> j \<le> ib'"
    using next_range_complete [OF wf run less.prems] by blast
  have le: "ia' \<le> ia" "ib' \<le> ib" using next_range_spec [OF wf less.prems(2,4)] n by auto
  let ?te = "clamp e' start end'" and ?ts = "clamp s start end'"
  let ?c = "round_down (?te - sz) PGSIZE"
  have step: "find_loop ia ib start end' sz PGSIZE mb =
      (if \<not> ?te < sz \<and> ?ts \<le> ?c then Inr ?c else find_loop ia' ib' start end' sz PGSIZE mb)"
    using n by (simp add: find_loop.simps [of ia] Let_def)
  have ae: "a < e" using run by (simp add: run_in_def)
  show ?case
  proof (cases "unat s \<le> a \<and> e \<le> unat e'")
    case True
    have te: "e \<le> unat ?te" and ts: "unat ?ts \<le> a" "unat start \<le> unat ?ts"
      using True limits ae by (auto simp: clamp_def unat_max_word unat_min_word)
    have fits: "\<not> ?te < sz" using te sz by (simp add: word_less_nat_alt)
    then have "unat (?te - sz) = unat ?te - unat sz" by (intro unat_diff) simp
    then have "e - 4096 * k \<le> unat (?te - sz)" using te sz by simp
    then have c: "e - 4096 * k \<le> unat ?c" using sz(4) by (intro round_down_keeps) simp_all
    then have "?ts \<le> ?c" using ts sz(3) by (simp add: word_le_nat_alt)
    moreover have "unat start \<le> unat ?c" using \<open>?ts \<le> ?c\<close> ts(2) by (simp add: word_le_nat_alt)
    ultimately show ?thesis using step fits c by simp
  next
    case apart: False
    show ?thesis
    proof (cases "\<not> ?te < sz \<and> ?ts \<le> ?c")
      case True
      then have "unat s \<le> unat ?c" "unat start \<le> unat ?c"
        using clamped_range [OF sz(1), of e' start end' ?c PGSIZE s] by auto
      moreover have "e \<le> unat s" using apart found by blast
      ultimately show ?thesis using True step by auto
    next
      case False
      then have "find_loop ia ib start end' sz PGSIZE mb = find_loop ia' ib' start end' sz PGSIZE mb"
        by (subst step) (simp only: if_False)
      moreover have "int i \<le> ia'" "j \<le> ib'" using apart found by blast+
      moreover have "ia' < int (unat (mt_cnt (mb_memory mb)))" "ib' \<le> int (unat (mt_cnt (mb_reserved mb)))"
        using le less.prems by linarith+
      ultimately show ?thesis using less.hyps [OF next_mem_range_rev_next [OF n]] by simp
    qed
  qed
qed

subsection \<open>Room for pages\<close>

text \<open>\<open>n\<close> free pages from \<open>a\<close> on, in one region of the memory.\<close>

definition free_run :: "memblock \<Rightarrow> nat \<Rightarrow> nat \<Rightarrow> bool" where
  "free_run mb a n \<longleftrightarrow> 4096 dvd a \<and> 4096 \<le> a \<and> a + 4096 * n \<le> unat (current_limit mb)
     \<and> (\<exists>r\<in>set (live (mb_memory mb)). lo r \<le> a \<and> a + 4096 * n \<le> hi r)
     \<and> (\<forall>r\<in>set (live (mb_reserved mb)). hi r \<le> a \<or> a + 4096 * n \<le> lo r)"

text \<open>How many pages the allocator can be sure to hand out: the table of reserved regions has an entry for
  each, and they follow each other in memory.\<close>

definition room :: "memblock \<Rightarrow> nat" where
  "room mb = Max {n. n \<le> slots mb \<and> (n = 0 \<or> (\<exists>a. free_run mb a n))}"

lemma free_run_mono: "free_run mb a n \<Longrightarrow> k \<le> n \<Longrightarrow> free_run mb a k"
proof -
  assume "k \<le> n"
  then have "4096 * k \<le> 4096 * n" by simp
  then show "free_run mb a n \<Longrightarrow> free_run mb a k"
    unfolding free_run_def by (meson add_left_mono order_trans)
qed

lemma le_room: "n \<le> room mb \<longleftrightarrow> n \<le> slots mb \<and> (n = 0 \<or> (\<exists>a. free_run mb a n))"
proof -
  let ?S = "{n. n \<le> slots mb \<and> (n = 0 \<or> (\<exists>a. free_run mb a n))}"
  have fin: "finite ?S" "?S \<noteq> {}" by (auto intro: finite_subset [of _ "{..slots mb}"])
  have "room mb \<in> ?S" using Max_in [OF fin] by (simp add: room_def)
  moreover have "n \<in> ?S \<Longrightarrow> n \<le> room mb" using Max_ge [OF fin(1)] by (simp add: room_def)
  ultimately show ?thesis using free_run_mono by fastforce
qed

lemma room_slots: "room mb \<le> slots mb"
  using le_room [of "room mb" mb] by simp

lemma alloc_from_run:
  assumes ok: "mb_ok mb" and sz: "0 < unat sz" "unat sz \<le> 4096 * k" and a: "free_run mb a n" and room: "k \<le> n"
    and slots: "0 < slots mb"
  shows "\<exists>c mb'. memblock_alloc_base sz PGSIZE MEMBLOCK_ALLOC_ACCESSIBLE mb = Inr (c, mb') \<and> good_block sz PGSIZE mb c
      \<and> mb_ok mb' \<and> mb_memory mb' = mb_memory mb \<and> current_limit mb' = current_limit mb
      \<and> in_use mb' = in_use mb \<union> block c sz \<and> slots mb \<le> slots mb' + 1 \<and> a + 4096 * (n - k) \<le> unat c
      \<and> (k < n \<longrightarrow> free_run mb' a (n - k)) \<and> memblock_reserve c sz mb = Inr mb'"
proof -
  have k: "0 < k" using sz by (cases k) auto
  let ?fin = "max PGSIZE (current_limit mb)" and ?e = "a + 4096 * n"
  have wf: "mt_wf (mb_memory mb)" "mt_ok (mb_reserved mb)" using ok by (simp_all add: mb_ok_def)
  have lim: "4096 dvd a" "4096 \<le> a" "?e \<le> unat (current_limit mb)" using a by (simp_all add: free_run_def)
  have ae: "a < ?e" "?e < 2 ^ 64"
    using k room lim(3) unsigned_less [of "current_limit mb", where 'a = nat] by simp_all
  obtain i where i: "i < length (live (mb_memory mb))" "lo (live (mb_memory mb) ! i) \<le> a"
    "?e \<le> hi (live (mb_memory mb) ! i)"
    using a by (auto simp: free_run_def in_set_conv_nth)
  obtain j where j: "in_gap (mb_reserved mb) j a ?e"
    using uncut_in_gap [OF wf(2) _ ae] a by (auto simp: free_run_def)
  have len: "length (live (mb_memory mb)) = unat (mt_cnt (mb_memory mb))"
    using wf(1) by (simp add: mt_wf_def live_length)
  have find: "memblock_find_in_range sz PGSIZE 0 MEMBLOCK_ALLOC_ACCESSIBLE mb = find_range_top_down PGSIZE ?fin sz PGSIZE mb"
    by (simp add: memblock_find_in_range_def Let_def PGSIZE_def)
  have "\<exists>c. find_range_top_down PGSIZE ?fin sz PGSIZE mb = Inr c \<and> unat PGSIZE \<le> unat c
      \<and> ?e - 4096 * k \<le> unat c"
    unfolding find_range_top_down_def
  proof (rule find_loop_complete [OF wf _ sz])
    show "run_in (mb_memory mb) (mb_reserved mb) i j a ?e" using i j ae by (simp add: run_in_def)
    show "a + 4096 * k \<le> ?e" "4096 dvd ?e" using room lim(1) by simp_all
    show "unat PGSIZE \<le> a" "?e \<le> unat ?fin" using lim by (simp_all add: PGSIZE_def unat_max_word)
    show "int i \<le> int (unat (mt_cnt (mb_memory mb))) - 1" using i(1) len by linarith
    show "j \<le> int (unat (mt_cnt (mb_reserved mb)))" using j by (simp only: in_gap_def)
  qed simp_all
  then obtain c where c: "find_range_top_down PGSIZE ?fin sz PGSIZE mb = Inr c" "unat PGSIZE \<le> unat c"
    "?e - 4096 * k \<le> unat c" by blast
  have "c \<noteq> 0" using c(2) by (auto simp: PGSIZE_def)
  then have run: "memblock_alloc_base sz PGSIZE MEMBLOCK_ALLOC_ACCESSIBLE mb
      = bind_ok (memblock_reserve c sz mb) (\<lambda>mb. Inr (c, mb))"
    using c(1) find by (cases "memblock_reserve c sz mb") (simp_all add: memblock_alloc_base_def memblock_alloc_range_def)
  have good: "block c sz \<subseteq> all_memory mb" "block c sz \<inter> in_use mb = {}" "c AND (PGSIZE - 1) = 0"
    "unat c + unat sz < 2 ^ 64"
    using find_loop_spec [OF wf sz(1), of "int (unat (mt_cnt (mb_memory mb))) - 1"
        "int (unat (mt_cnt (mb_reserved mb)))" PGSIZE ?fin PGSIZE] c(1) \<open>c \<noteq> 0\<close> unsigned_less [of ?fin, where 'a = nat]
    by (auto simp: find_range_top_down_def block_def all_memory_def in_use_def simp del: unsigned_less)
  obtain mb' where mb': "memblock_reserve c sz mb = Inr mb'" "mb_ok mb'" "mt_wf (mb_reserved mb')"
    "mb_memory mb' = mb_memory mb" "current_limit mb' = current_limit mb"
    "in_use mb' = in_use mb \<union> block c sz" "slots mb \<le> slots mb' + 1"
    using reserve_spec [OF ok sz(1) good(4,2) slots] by blast
  let ?e' = "a + 4096 * (n - k)"
  have e': "?e' = ?e - 4096 * k" using room by (simp add: diff_mult_distrib2)
  have "free_run mb' a (n - k)" if less: "k < n"
  proof -
    have "hi r \<le> a \<or> ?e' \<le> lo r" if r: "r \<in> set (live (mb_reserved mb'))" for r
    proof -
      have size: "0 < unat (mr_size r)"
        using mb'(3) r sorted_from_nth [of 0 "live (mb_reserved mb')"] by (auto simp: mt_wf_def good_def in_set_conv_nth)
      have "{lo r..<hi r} \<subseteq> in_use mb \<union> block c sz" using r mb'(6) by (auto simp: in_use_def cover_def)
      moreover have "in_use mb \<inter> {a..<?e} = {}" using a by (fastforce simp: free_run_def in_use_def cover_def)
      then have "in_use mb \<inter> {a..<?e'} = {}" using room by fastforce
      moreover have "block c sz \<inter> {a..<?e'} = {}" using c(3) [folded e'] by (auto simp: block_def)
      ultimately have apart: "{lo r..<hi r} \<inter> {a..<?e'} = {}" by blast
      show ?thesis
      proof (rule ccontr)
        assume "\<not> ?thesis"
        moreover have "a < ?e'" using less by simp
        ultimately have "max (lo r) a \<in> {lo r..<hi r} \<inter> {a..<?e'}" using size by auto
        then show False using apart by blast
      qed
    qed
    moreover have "free_run mb a (n - k)" using a by (rule free_run_mono) simp
    ultimately show ?thesis by (simp add: free_run_def mb'(4,5))
  qed
  then show ?thesis
    using run mb' good c(2,3) e' by (intro exI [of _ c] exI [of _ mb']) (simp add: good_block_def)
qed

lemma alloc_succeeds:
  assumes ok: "mb_ok mb" and sz: "0 < unat sz" "unat sz \<le> 4096 * k" and room: "k \<le> room mb"
  shows "\<exists>c mb'. memblock_alloc_base sz PGSIZE MEMBLOCK_ALLOC_ACCESSIBLE mb = Inr (c, mb') \<and> good_block sz PGSIZE mb c
      \<and> mb_ok mb' \<and> mb_memory mb' = mb_memory mb \<and> current_limit mb' = current_limit mb
      \<and> in_use mb' = in_use mb \<union> block c sz \<and> room mb \<le> room mb' + k"
proof -
  have k: "0 < k" using sz by (cases k) auto
  obtain a where a: "free_run mb a (room mb)" using le_room [of "room mb" mb] k room by auto
  have slots: "room mb \<le> slots mb" by (rule room_slots)
  have pos: "0 < slots mb" using slots k room by simp
  obtain c mb' where c: "memblock_alloc_base sz PGSIZE MEMBLOCK_ALLOC_ACCESSIBLE mb = Inr (c, mb')"
      "good_block sz PGSIZE mb c" "mb_ok mb'" "mb_memory mb' = mb_memory mb" "current_limit mb' = current_limit mb"
      "in_use mb' = in_use mb \<union> block c sz" "slots mb \<le> slots mb' + 1" "k < room mb \<longrightarrow> free_run mb' a (room mb - k)"
    using alloc_from_run [OF ok sz a room pos] by blast
  have "room mb - k \<le> slots mb'" using c(7) slots k by simp
  moreover have "room mb - k = 0 \<or> free_run mb' a (room mb - k)" using c(8) by auto
  ultimately have "room mb - k \<le> room mb'" unfolding le_room by blast
  then have "room mb \<le> room mb' + k" by simp
  with c show ?thesis by blast
qed

subsection \<open>Pages from the end of memory\<close>

text \<open>Pages that are taken from the topmost free run one below the other make one region: its entry in the table
  grows, and no further entry is needed.\<close>

lemma merge_list_length: "length (merge_list rs) \<le> length rs"
  by (induction rs rule: merge_list.induct) auto

lemma merge_list_shrinks:
  "xs = ys @ a # b # zs \<Longrightarrow> mr_end a = mr_base b \<Longrightarrow> length (merge_list xs) < length xs"
proof (induction xs arbitrary: ys rule: merge_list.induct)
  case (1 y1 y2 rs)
  show ?case
  proof (cases "mr_end y1 = mr_base y2")
    case True
    then show ?thesis using merge_list_length [of "y1\<lparr>mr_size := mr_size y1 + mr_size y2\<rparr> # rs"] by simp
  next
    case False
    then obtain ys' where "ys = y1 # ys'" "y2 # rs = ys' @ a # b # zs"
      using "1.prems" by (cases ys) auto
    then have "length (merge_list (y2 # rs)) < length (y2 # rs)" using "1.IH"(2) [OF False] "1.prems"(2) by simp
    then show ?thesis using False by simp
  qed
qed auto

lemma add_list_adjacent:
  "sorted_from m rs \<Longrightarrow> r \<in> set rs \<Longrightarrow> unat end' = lo r \<Longrightarrow> base < end' \<Longrightarrow> {unat base..<unat end'} \<inter> cover rs = {} \<Longrightarrow>
    \<exists>pre suf. add_list base end' rs = pre @ \<lparr>mr_base = base, mr_size = end' - base\<rparr> # r # suf"
proof (induction rs arbitrary: m)
  case (Cons h rs)
  have h: "good h" "sorted_from (hi h) rs" using Cons.prems(1) by simp_all
  note e = good_end [OF h(1)]
  have later: "hi h \<le> lo x" if "x \<in> set rs" for x
    using sorted_from_nth [OF h(2)] that by (auto simp: in_set_conv_nth)
  have b: "unat base < unat end'" using Cons.prems(4) by (simp add: word_less_nat_alt)
  show ?case
  proof (cases "r = h")
    case True
    then have "end' \<le> mr_base h" using Cons.prems(3) by (simp add: word_le_nat_alt)
    then show ?thesis using Cons.prems(4) True by (intro exI [of _ "[]"] exI [of _ rs]) simp
  next
    case False
    then have r: "r \<in> set rs" using Cons.prems(2) by simp
    have "lo h < hi h" using h(1) by (simp add: good_def)
    then have "lo h < unat end'" using later [OF r] Cons.prems(3) by simp
    moreover have "hi h \<le> unat base"
    proof (rule ccontr)
      assume "\<not> ?thesis"
      then have "max (lo h) (unat base) \<in> {unat base..<unat end'} \<inter> {lo h..<hi h}"
        using \<open>lo h < hi h\<close> \<open>lo h < unat end'\<close> b by auto
      then show False using Cons.prems(5) unfolding cover_simps by blast
    qed
    ultimately have "add_list base end' (h # rs) = h # add_list base end' rs"
      using e by (simp add: word_le_nat_alt)
    moreover obtain pre suf where "add_list base end' rs = pre @ \<lparr>mr_base = base, mr_size = end' - base\<rparr> # r # suf"
      using Cons.IH [OF h(2) r Cons.prems(3,4)] Cons.prems(5) by auto
    ultimately show ?thesis by (intro exI [of _ "h # pre"] exI [of _ suf]) simp
  qed
qed simp

definition page_free :: "memblock \<Rightarrow> nat \<Rightarrow> bool" where
  "page_free mb p \<longleftrightarrow> 4096 dvd p \<and> {p..<p + 4096} \<subseteq> all_memory mb \<and> {p..<p + 4096} \<inter> in_use mb = {}"

definition top_run :: "memblock \<Rightarrow> nat \<Rightarrow> nat \<Rightarrow> bool" where
  "top_run mb a n \<longleftrightarrow> (\<forall>p\<ge>a + 4096 * n. \<not> page_free mb p) \<and> 0 < slots mb
     \<and> (0 < n \<longrightarrow> free_run mb a n \<and> (mt_empty (mb_reserved mb)
         \<or> mt_wf (mb_reserved mb) \<and> (\<exists>r\<in>set (live (mb_reserved mb)). lo r = a + 4096 * n)))"

lemma reserve_keeps_slots:
  assumes ok: "mb_ok mb" and sz: "0 < unat sz" "unat c + unat sz < 2 ^ 64"
    and free: "block c sz \<inter> in_use mb = {}" and slots: "0 < slots mb"
    and next_to: "mt_empty (mb_reserved mb)
      \<or> mt_wf (mb_reserved mb) \<and> (\<exists>r\<in>set (live (mb_reserved mb)). lo r = unat c + unat sz)"
    and run: "memblock_reserve c sz mb = Inr mb'"
  shows "slots mb \<le> slots mb'"
proof -
  let ?t = "mb_reserved mb"
  obtain t where t: "memblock_add_regions ?t c sz = Inr t" "mb' = mb\<lparr>mb_reserved := t\<rparr>"
    using run by (auto simp: memblock_reserve_def bind_ok_Inr_iff)
  consider "mt_empty ?t" | r where "mt_wf ?t" "r \<in> set (live ?t)" "lo r = unat c + unat sz" using next_to by blast
  then have "unat (mt_cnt t) \<le> unat (mt_cnt ?t)"
  proof cases
    case 1
    then show ?thesis using add_to_empty [OF 1 sz] t(1) by (auto simp: mt_empty_def)
  next
    case 2
    have s: "sorted_from 0 (live ?t)" "length (live ?t) = unat (mt_cnt ?t)"
      using 2(1) by (simp_all add: mt_wf_def live_length)
    have e: "unat (c + sz) = unat c + unat sz" using sz(2) by (simp add: unat_word_ariths)
    have lt: "c < c + sz" using sz(1) e by (simp add: word_less_nat_alt)
    have apart: "{unat c..<unat (c + sz)} \<inter> cover (live ?t) = {}"
      using free unfolding e by (simp add: block_def in_use_def)
    have len: "length (add_list c (c + sz) (live ?t)) = length (live ?t) + 1"
      by (rule add_list_disjoint_length [OF s(1) lt apart])
    then have "length (add_list c (c + sz) (live ?t)) \<le> 128" using slots s(2) by (simp add: slots_def)
    from add_regions_spec [OF 2(1) sz this] t(1) len have live: "mt_wf t" "live t = merge_list (add_list c (c + sz) (live ?t))"
      by auto
    obtain pre suf where "add_list c (c + sz) (live ?t) = pre @ \<lparr>mr_base = c, mr_size = c + sz - c\<rparr> # r # suf"
      using add_list_adjacent [OF s(1) 2(2) _ lt apart] 2(3) e by auto
    moreover have "mr_end \<lparr>mr_base = c, mr_size = c + sz - c\<rparr> = mr_base r"
      using 2(3) e by (simp add: word_unat_eq_iff)
    ultimately have "length (live t) < length (live ?t) + 1" using merge_list_shrinks live(2) len by metis
    then show ?thesis using live(1) s(2) by (simp add: mt_wf_def live_length)
  qed
  then show ?thesis by (simp add: slots_def t(2))
qed

lemma alloc_top:
  assumes ok: "mb_ok mb" and sz: "unat sz = 4096 * k" "0 < k" "k \<le> n" and top: "top_run mb a n"
  shows "\<exists>c mb'. memblock_alloc_base sz PGSIZE MEMBLOCK_ALLOC_ACCESSIBLE mb = Inr (c, mb') \<and> good_block sz PGSIZE mb c
      \<and> mb_ok mb' \<and> mb_memory mb' = mb_memory mb \<and> current_limit mb' = current_limit mb
      \<and> in_use mb' = in_use mb \<union> block c sz \<and> unat c = a + 4096 * (n - k) \<and> top_run mb' a (n - k)
      \<and> slots mb \<le> slots mb'"
proof -
  have run: "free_run mb a n" "0 < slots mb" using top sz by (simp_all add: top_run_def)
  have above: "\<not> page_free mb p" if "a + 4096 * n \<le> p" for p using top that by (simp add: top_run_def)
  have "0 < unat sz" "unat sz \<le> 4096 * k" using sz by simp_all
  then obtain c mb' where c: "memblock_alloc_base sz PGSIZE MEMBLOCK_ALLOC_ACCESSIBLE mb = Inr (c, mb')"
      "good_block sz PGSIZE mb c" "mb_ok mb'" "mb_memory mb' = mb_memory mb" "current_limit mb' = current_limit mb"
      "in_use mb' = in_use mb \<union> block c sz" "slots mb \<le> slots mb' + 1" "a + 4096 * (n - k) \<le> unat c"
      "k < n \<longrightarrow> free_run mb' a (n - k)" "memblock_reserve c sz mb = Inr mb'"
    using alloc_from_run [OF ok _ _ run(1) sz(3) run(2)] by blast
  have "unat c = 4096 * (unat c div 4096)"
  proof -
    have "round_down c PGSIZE = c"
      using c(2) by (auto simp: good_block_def round_down_def intro!: bit_word_eqI) (auto simp: bit_eq_iff bit_simps)
    then show ?thesis using round_down_page [of c] by simp
  qed
  then obtain q where q: "unat c = 4096 * q" by blast
  obtain b where b: "a = 4096 * b" using run(1) by (auto simp: free_run_def)
  have good: "block c sz \<subseteq> all_memory mb" "block c sz \<inter> in_use mb = {}" using c(2) by (simp_all add: good_block_def)
  have "{unat c + 4096 * (k - 1)..<unat c + 4096 * (k - 1) + 4096} \<subseteq> block c sz"
    using sz by (cases k) (auto simp: block_def)
  then have "page_free mb (unat c + 4096 * (k - 1))" using good by (auto simp: page_free_def q)
  then have "unat c + 4096 * (k - 1) < a + 4096 * n" using above by (meson not_le)
  then have "q + (k - 1) < b + n" unfolding q b by simp
  moreover have "b + (n - k) \<le> q" using c(8) unfolding q b by simp
  ultimately have "q = b + (n - k)" using sz by simp
  then have at: "unat c = a + 4096 * (n - k)" by (simp add: q b)
  have fin: "unat c + unat sz = a + 4096 * n" using at sz by (simp add: diff_mult_distrib2)
  have lim: "a + 4096 * n < 2 ^ 64"
    using run(1) unsigned_less [of "current_limit mb", where 'a = nat] by (simp add: free_run_def)
  have slots: "slots mb \<le> slots mb'"
    using reserve_keeps_slots [OF ok _ _ good(2) run(2) _ c(10)] top sz fin lim by (simp add: top_run_def)
  have "\<not> page_free mb' p" if p: "a + 4096 * (n - k) \<le> p" for p
  proof
    assume free: "page_free mb' p"
    then have "{p..<p + 4096} \<inter> block c sz = {}" "{p..<p + 4096} \<inter> in_use mb = {}"
      using c(6) by (auto simp: page_free_def)
    moreover have "all_memory mb' = all_memory mb" using c(4) by (simp add: all_memory_def)
    ultimately have "page_free mb p" using free by (simp add: page_free_def)
    have "p \<in> {p..<p + 4096}" by simp
    then have "p \<notin> block c sz" using \<open>{p..<p + 4096} \<inter> block c sz = {}\<close> by blast
    moreover have "p < a + 4096 * n" using above [of p] \<open>page_free mb p\<close> by (meson not_le)
    ultimately show False using p fin at by (auto simp: block_def)
  qed
  moreover have "mt_wf (mb_reserved mb') \<and> (\<exists>r\<in>set (live (mb_reserved mb')). lo r = a + 4096 * (n - k))" if less: "k < n"
  proof
    show wf: "mt_wf (mb_reserved mb')"
      using reserve_spec [OF ok _ _ good(2) run(2)] c(10) sz fin lim by auto
    have "unat c \<in> in_use mb'" using c(6) sz by (simp add: block_def)
    then obtain r where r: "r \<in> set (live (mb_reserved mb'))" "lo r \<le> unat c" "unat c < hi r"
      by (auto simp: in_use_def cover_def)
    have "lo r = unat c"
    proof (rule ccontr)
      assume "lo r \<noteq> unat c"
      then have "unat c - 1 \<in> in_use mb'" using r by (auto simp: in_use_def cover_def intro!: bexI [of _ r])
      moreover have "unat c - 1 \<notin> block c sz" using at less by (auto simp: block_def)
      ultimately have "unat c - 1 \<in> in_use mb" using c(6) by simp
      moreover have "unat c - 1 \<in> {a..<a + 4096 * n}" using at less by auto
      moreover have "in_use mb \<inter> {a..<a + 4096 * n} = {}"
        using run(1) by (fastforce simp: free_run_def in_use_def cover_def)
      ultimately show False by blast
    qed
    with r(1) at show "\<exists>r\<in>set (live (mb_reserved mb')). lo r = a + 4096 * (n - k)" by auto
  qed
  ultimately have "top_run mb' a (n - k)" using c(9) slots run(2) by (simp add: top_run_def)
  with c slots at show ?thesis by blast
qed

subsection \<open>Successive allocations\<close>

primrec alloc_many :: "nat \<Rightarrow> ('s \<Rightarrow> 'e + 'a \<times> 's) \<Rightarrow> 's \<Rightarrow> 'e + 'a list \<times> 's" where
  "alloc_many 0 alloc s = Inr ([], s)"
| "alloc_many (Suc n) alloc s =
     bind_ok (alloc s) (\<lambda>(a, s). bind_ok (alloc_many n alloc s) (\<lambda>(as, s). Inr (a # as, s)))"

text \<open>What the kernel relies on when it takes memory from the boot allocator: while there is room, a block
  is handed out, which is part of the memory and of nothing allocated before it.\<close>

locale block_allocator =
  fixes alloc :: "'s \<Rightarrow> kerror + 'a \<times> 's"
    and inv :: "'s \<Rightarrow> bool"
    and used :: "'s \<Rightarrow> nat set"
    and avail :: "'s \<Rightarrow> nat set"
    and space :: "'s \<Rightarrow> nat"
    and extent :: "'a \<Rightarrow> nat set"
  assumes alloc_block: "inv s \<Longrightarrow> 0 < space s \<Longrightarrow> \<exists>a s'. alloc s = Inr (a, s')
      \<and> inv s' \<and> extent a \<subseteq> avail s \<and> extent a \<inter> used s = {} \<and> used s' = used s \<union> extent a
      \<and> avail s' = avail s \<and> space s \<le> space s' + 1"
begin

lemma alloc_many_blocks:
  "inv s \<Longrightarrow> n \<le> space s \<Longrightarrow> \<exists>as s'. alloc_many n alloc s = Inr (as, s')
    \<and> inv s' \<and> length as = n \<and> avail s' = avail s \<and> used s' = used s \<union> (\<Union>a\<in>set as. extent a)
    \<and> space s \<le> space s' + n
    \<and> (\<forall>a\<in>set as. extent a \<subseteq> avail s \<and> extent a \<inter> used s = {})
    \<and> (\<forall>i<n. \<forall>j<i. extent (as ! i) \<inter> extent (as ! j) = {})"
proof (induction n arbitrary: s)
  case (Suc n)
  obtain a t where a: "alloc s = Inr (a, t)" "inv t" "extent a \<subseteq> avail s" "extent a \<inter> used s = {}"
      "used t = used s \<union> extent a" "avail t = avail s" "space s \<le> space t + 1"
    using alloc_block [OF Suc.prems(1)] Suc.prems(2) by auto
  then obtain rest s' where IH: "alloc_many n alloc t = Inr (rest, s')" "inv s'" "length rest = n" "avail s' = avail t"
      "used s' = used t \<union> (\<Union>a\<in>set rest. extent a)" "space t \<le> space s' + n"
      "\<forall>b\<in>set rest. extent b \<subseteq> avail t \<and> extent b \<inter> used t = {}"
      "\<forall>i<n. \<forall>j<i. extent (rest ! i) \<inter> extent (rest ! j) = {}"
    using Suc.IH [OF a(2)] Suc.prems(2) by auto
  let ?as = "a # rest"
  have "extent (?as ! i) \<inter> extent (?as ! j) = {}" if ij: "i < Suc n" "j < i" for i j
  proof -
    obtain k where k: "i = Suc k" "k < n" using ij by (cases i) auto
    then have "rest ! k \<in> set rest" using IH(3) by simp
    then show ?thesis using IH(7,8) k ij(2) a(5) by (cases j) auto
  qed
  moreover have "\<forall>b\<in>set ?as. extent b \<subseteq> avail s \<and> extent b \<inter> used s = {}"
    using IH(7) a by auto
  moreover have "alloc_many (Suc n) alloc s = Inr (?as, s')" using a(1) IH(1) by simp
  ultimately show ?case using IH(2-6) a by (intro exI [of _ ?as] exI [of _ s']) auto
qed simp

end

text \<open>Pages taken with \<open>memblock_alloc\<close>, each recorded with its size.\<close>

definition alloc_page :: "memblock \<Rightarrow> kerror + u64 \<times> memblock" where
  "alloc_page mb = memblock_alloc PGSIZE PGSIZE mb"

interpretation pages: block_allocator alloc_page mb_ok in_use all_memory room "\<lambda>c. block c PGSIZE"
proof (unfold_locales, goal_cases)
  case (1 s)
  have "0 < unat PGSIZE" "unat PGSIZE \<le> 4096 * 1" by (simp_all add: PGSIZE_def)
  from alloc_succeeds [OF 1(1) this] 1(2) show ?case
    by (force simp: alloc_page_def memblock_alloc_def good_block_def all_memory_def)
qed

end
