(* ===== verification/MemProps.thy ===== *)
theory MemProps
  imports MemblockFind
begin

text \<open>
  Properties of the boot memory allocator (\<open>src/kernel/memblock.c\<close>): the region tables are sets of
  addresses, what is allocated is free memory and is never handed out twice, and what happens when
  the table of 128 regions is full.
\<close>

subsection \<open>A region table in a state without room\<close>

lemma insert_full:
  assumes shape: "mt_shape t" and full: "unat (mt_cnt t) = 128" and i: "i \<le> 128"
  shows "memblock_insert_region t i b z = Inl (OutOfBounds 128)"
proof -
  have "unat (mt_cnt t - of_nat i) = 128 - i" using full i by (simp add: unat_minus_of_nat)
  then have n: "unat (take_bit 28 (ucast (mt_cnt t - of_nat i) :: u64)) = 128 - i"
    using move_count [of "mt_cnt t - of_nat i"] by simp
  then show ?thesis
    using mt_shape_bounds(2) [OF shape] i
    by (cases "i = 128") (simp_all add: memblock_insert_region_def move_regions_def Let_def max_def)
qed

lemma pass_full:
  "mt_shape t \<Longrightarrow> unat (mt_cnt t) = 128 \<Longrightarrow> live t = pre @ suf \<Longrightarrow>
    length suf < length (add_list base end' suf) \<Longrightarrow>
    bind_ok (add_pass True base end' (length pre) nr t) (add_rest True end') = Inl (OutOfBounds 128)"
proof (induction suf arbitrary: pre base nr)
  case Nil
  then have "length pre = 128" "base < end'" using live_length [of t] by (auto split: if_splits)
  then show ?case
    using Nil insert_full [OF Nil(1,2), of 128] by (simp add: add_pass.simps add_rest_def)
next
  case (Cons r rs)
  obtain tail where tl: "mt_regions t = pre @ (r # rs) @ tail"
      "length pre + length (r # rs) = unat (mt_cnt t)"
    using live_split [OF Cons.prems(1,3)] by blast
  have idx: "length pre < unat (mt_cnt t)" "mt_regions t ! length pre = r"
    "length pre < length (mt_regions t)" using tl by simp_all
  have full: "memblock_insert_region t (length pre) b z = Inl (OutOfBounds 128)" for b z
    using insert_full [OF Cons.prems(1,2), of "length pre"] idx Cons.prems(2) by simp
  have IH: "bind_ok (add_pass True b end' (Suc (length pre)) nr t) (add_rest True end')
      = Inl (OutOfBounds 128)" if "length rs < length (add_list b end' rs)" for b
    using Cons.IH [of "pre @ [r]" b nr] Cons.prems that by simp
  show ?case
    by (subst add_pass.simps)
      (use idx full IH Cons.prems(4) in \<open>auto simp: Let_def add_rest_def split: if_splits\<close>)
qed

subsection \<open>Fixtures\<close>

definition table :: "memblock_region list \<Rightarrow> memblock_type" where
  "table rs = \<lparr>mt_cnt = of_nat (length rs), mt_max = 128, mt_total_size = 0,
     mt_regions = rs @ replicate (128 - length rs) \<lparr>mr_base = 0, mr_size = 0\<rparr>\<rparr>"

lemma table_shape:
  "0 < length rs \<Longrightarrow> length rs \<le> 128 \<Longrightarrow> mt_shape (table rs)"
  by (simp add: table_def mt_shape_def unat_of_nat)

lemma table_live: "length rs \<le> 128 \<Longrightarrow> live (table rs) = rs"
  by (simp add: table_def live_def unat_of_nat)

lemma table_wf: "rs \<noteq> [] \<Longrightarrow> length rs \<le> 128 \<Longrightarrow> sorted_from 0 rs \<Longrightarrow> mt_wf (table rs)"
  by (simp add: mt_wf_def table_shape table_live)

lemma table_empty: "mt_empty (table [\<lparr>mr_base = 0, mr_size = 0\<rparr>])"
  using table_shape [of "[\<lparr>mr_base = 0, mr_size = 0\<rparr>]"]
  by (simp add: mt_empty_def) (simp add: table_def)

text \<open>A machine with one megabyte of memory at 0x100000, nothing of it in use.\<close>

definition boot_memory :: memblock where
  "boot_memory = \<lparr>current_limit = 0x200000,
     mb_memory = table [\<lparr>mr_base = 0x100000, mr_size = 0x100000\<rparr>],
     mb_reserved = table [\<lparr>mr_base = 0, mr_size = 0\<rparr>]\<rparr>"

lemma boot_memory_ok:
  "mb_ok boot_memory" "room boot_memory = 127" "in_use boot_memory = {}"
  "all_memory boot_memory = {0x100000..<0x200000}"
proof -
  have slots: "slots boot_memory = 127" by (simp add: slots_def boot_memory_def table_def)
  have "free_run boot_memory 0x100000 127"
    by (simp add: free_run_def boot_memory_def table_live)
  then have "127 \<le> room boot_memory" unfolding le_room slots by blast
  then show "room boot_memory = 127" using room_slots [of boot_memory] slots by simp
qed (simp_all add: mb_ok_def boot_memory_def table_wf good_def mt_ok_def table_empty in_use_def
      mt_empty_live(2) all_memory_def table_live)

subsection \<open>Properties\<close>

text \<open>C23: Adding an interval to a table that is in use yields a table whose regions are again
  sorted, nonempty and disjoint, and that covers exactly the old addresses and the new ones, however
  the interval overlaps the old regions. This holds as long as the pieces fit the table; at the
  moment of the insertion they number at most two per old region and one.\<close>

theorem add_regions_union:
  assumes "mt_wf t" and "0 < unat sz" and "unat base + unat sz < 2 ^ 64"
    and "2 * unat (mt_cnt t) + 1 \<le> 128"
  shows "\<exists>t'. memblock_add_regions t base sz = Inr t' \<and> mt_wf t'
    \<and> cover (live t') = cover (live t) \<union> {unat base..<unat base + unat sz}"
proof -
  have "length (add_list base (base + sz) (live t)) \<le> 2 * length (live t) + 1"
    by (rule add_list_length2)
  then show ?thesis
    using add_regions_spec [OF assms(1,2,3)] assms(1,4) live_length [of t]
    by (auto simp: mt_wf_def)
qed

theorem add_regions_union_witness:
  "\<exists>t'. memblock_add_regions (table [\<lparr>mr_base = 0x1000, mr_size = 0x1000\<rparr>,
      \<lparr>mr_base = 0x4000, mr_size = 0x1000\<rparr>]) 0 0x6000 = Inr t' \<and> mt_wf t'
    \<and> cover (live t') = {0..<0x6000}"
proof -
  let ?rs = "[\<lparr>mr_base = 0x1000, mr_size = 0x1000\<rparr>, \<lparr>mr_base = 0x4000, mr_size = 0x1000\<rparr>]"
  have "mt_wf (table ?rs)" by (rule table_wf) (simp_all add: good_def)
  moreover have "live (table ?rs) = ?rs" by (rule table_live) simp
  moreover have "{0x1000..<0x2000} \<union> {0x4000..<0x5000} \<union> {0..<0x6000} = {0..<0x6000::nat}" by auto
  ultimately show ?thesis
    using add_regions_union [of "table ?rs" "0x6000" 0] by (simp add: Un_assoc) (simp add: table_def)
qed

text \<open>C21: An allocation either stops the kernel with the panic \<open>alloc fault\<close>, or returns a block
  of the requested size that is aligned, not in the first page, part of the machine's memory and not
  in use; from then on exactly that block is in use as well, and the memory map is as it was. It does
  not panic when the block is to be aligned to a page and to lie below the current limit, and as many
  pages as it takes follow each other there, free and with an entry of the table for each.\<close>

theorem alloc_takes_free_block:
  assumes "mb_ok mb" and "0 < unat sz" and "0 < slots mb"
  shows "memblock_alloc_base sz align limit mb = Inl (Panic ''alloc fault'')
      \<and> \<not> (align = PGSIZE \<and> limit = MEMBLOCK_ALLOC_ACCESSIBLE \<and> unat sz \<le> 4096 * room mb) \<or>
    (\<exists>c mb'. memblock_alloc_base sz align limit mb = Inr (c, mb')
      \<and> unat PGSIZE \<le> unat c \<and> c AND (align - 1) = 0
      \<and> block c sz \<subseteq> all_memory mb \<and> block c sz \<inter> in_use mb = {}
      \<and> mb_ok mb' \<and> mb_memory mb' = mb_memory mb \<and> in_use mb' = in_use mb \<union> block c sz)"
proof (cases "align = PGSIZE \<and> limit = MEMBLOCK_ALLOC_ACCESSIBLE \<and> unat sz \<le> 4096 * room mb")
  case True
  then show ?thesis
    using alloc_succeeds [OF assms(1,2), of "room mb"] unfolding good_block_def by blast
qed (use alloc_base_spec [OF assms, of align limit] in \<open>unfold good_block_def, blast\<close>)

theorem alloc_takes_free_block_witness:
  "\<exists>c mb'. memblock_alloc_base 0x3000 PGSIZE MEMBLOCK_ALLOC_ACCESSIBLE boot_memory = Inr (c, mb')
      \<and> unat PGSIZE \<le> unat c \<and> c AND (PGSIZE - 1) = 0
      \<and> block c 0x3000 \<subseteq> all_memory boot_memory \<and> block c 0x3000 \<inter> in_use boot_memory = {}
      \<and> mb_ok mb' \<and> mb_memory mb' = mb_memory boot_memory
      \<and> in_use mb' = in_use boot_memory \<union> block c 0x3000"
  using alloc_takes_free_block [OF boot_memory_ok(1), of "0x3000" PGSIZE MEMBLOCK_ALLOC_ACCESSIBLE]
    room_slots [of boot_memory] boot_memory_ok(2) by simp

text \<open>C13: Pages taken one after the other never overlap: as many pages as follow each other in free
  memory, with an entry of the table of reserved regions for each, are all handed out. Their blocks
  are pairwise disjoint, part of the memory and disjoint from all that was in use before, and they
  are in use afterwards.\<close>

theorem pages_never_overlap:
  assumes "mb_ok mb" and "n \<le> room mb"
  shows "\<exists>cs mb'. alloc_many n alloc_page mb = Inr (cs, mb')
    \<and> length cs = n \<and> in_use mb' = in_use mb \<union> (\<Union>c\<in>set cs. block c PGSIZE)
    \<and> (\<forall>c\<in>set cs. block c PGSIZE \<subseteq> all_memory mb \<and> block c PGSIZE \<inter> in_use mb = {})
    \<and> (\<forall>i<n. \<forall>j<i. block (cs ! i) PGSIZE \<inter> block (cs ! j) PGSIZE = {})"
  using pages.alloc_many_blocks [OF assms] by blast

theorem pages_never_overlap_witness:
  "\<exists>c d mb'. alloc_many 2 alloc_page boot_memory = Inr ([c, d], mb')
     \<and> block d PGSIZE \<inter> block c PGSIZE = {}"
proof -
  obtain cs mb' where cs: "alloc_many 2 alloc_page boot_memory = Inr (cs, mb')" "length cs = 2"
      "\<forall>i<2. \<forall>j<i. block (cs ! i) PGSIZE \<inter> block (cs ! j) PGSIZE = {}"
    using pages_never_overlap [OF boot_memory_ok(1), of 2] by (auto simp: boot_memory_ok(2))
  then have "cs = [cs ! 0, cs ! 1]" and "block (cs ! 1) PGSIZE \<inter> block (cs ! 0) PGSIZE = {}"
    by (auto simp: numeral_2_eq_2 length_Suc_conv)
  then show ?thesis using cs(1) by metis
qed

text \<open>The table has no guard: reserving a block disjoint from the 128 regions of a full table
  makes \<open>memblock_insert_region\<close> write the 129th entry of the 128-element array.\<close>

theorem full_table_overruns:
  assumes "mt_wf (mb_reserved mb)" and "unat (mt_cnt (mb_reserved mb)) = 128"
    and "0 < unat sz" and "unat base + unat sz < 2 ^ 64" and "block base sz \<inter> in_use mb = {}"
  shows "memblock_reserve base sz mb = Inl (OutOfBounds 128)"
proof -
  let ?t = "mb_reserved mb" and ?fin = "base + sz"
  have shape: "mt_shape ?t" "sorted_from 0 (live ?t)" "live ?t \<noteq> []"
    using assms(1) by (simp_all add: mt_wf_def)
  have e: "unat ?fin = unat base + unat sz" using assms(4) by (simp add: unat_word_ariths)
  have len: "length (add_list base ?fin (live ?t)) = length (live ?t) + 1"
    using assms(3,5) e
    by (intro add_list_disjoint_length [OF shape(2)])
      (simp_all add: word_less_nat_alt block_def in_use_def)
  have "bind_ok (add_pass True base ?fin 0 0 ?t) (add_rest True ?fin) = Inl (OutOfBounds 128)"
    using pass_full [of ?t "[]" "live ?t" base ?fin 0] shape(1) assms(2) len by simp
  moreover have "bind_ok (add_pass False base ?fin 0 0 ?t) (add_rest False ?fin) = Inr (1, ?t)"
    using pass_count [of ?t "[]" "live ?t" base ?fin 0] shape(1) len by simp
  moreover have "sz \<noteq> 0" using assms(3) by auto
  moreover obtain r rs where r: "live ?t = r # rs" using shape(3) by (cases "live ?t") auto
  then obtain tail where "mt_regions ?t = r # tail"
    using live_split [of ?t "[]" "r # rs"] shape(1) by auto
  then have "mt_regions ?t \<noteq> []" "mr_size (mt_regions ?t ! 0) \<noteq> 0"
    using shape(2) r by (auto simp: good_def)
  ultimately show ?thesis
    by (simp add: memblock_reserve_def memblock_add_regions_def Let_def)
qed

text \<open>A full table: 128 pages, every second one of the address range from 0x100000 on.\<close>

definition every_second_page :: "nat \<Rightarrow> memblock_region list" where
  "every_second_page n = map (\<lambda>i. \<lparr>mr_base = of_nat (0x100000 + i * 0x2000), mr_size = 0x1000\<rparr>) [0..<n]"

lemma every_second_page_sorted:
  "i + n \<le> 128 \<Longrightarrow> m \<le> 0x100000 + i * 0x2000 \<Longrightarrow>
    sorted_from m (map (\<lambda>i. \<lparr>mr_base = of_nat (0x100000 + i * 0x2000), mr_size = 0x1000\<rparr>) [i..<i + n])"
proof (induction n arbitrary: i m)
  case (Suc n)
  have u: "unat (of_nat (0x100000 + i * 0x2000) :: u64) = 0x100000 + i * 0x2000"
    using Suc.prems(1) by (simp del: of_nat_add of_nat_mult add: unat_of_nat)
  have "[i..<i + Suc n] = i # [Suc i..<Suc i + n]" by (simp add: upt_rec)
  then show ?case using Suc u Suc.IH [of "Suc i"] by (simp del: of_nat_add of_nat_mult add: good_def)
qed simp

theorem full_table_overruns_witness:
  "memblock_reserve 0x1000 0x1000 (boot_memory\<lparr>mb_reserved := table (every_second_page 128)\<rparr>)
   = Inl (OutOfBounds 128)"
proof (rule full_table_overruns)
  let ?rs = "every_second_page 128" and ?mb = "boot_memory\<lparr>mb_reserved := table (every_second_page 128)\<rparr>"
  have len: "length ?rs = 128" by (simp add: every_second_page_def)
  have sorted: "sorted_from 0x100000 ?rs"
    using every_second_page_sorted [of 0 128] by (simp add: every_second_page_def)
  have "?rs \<noteq> []" using len by auto
  then show "mt_wf (mb_reserved ?mb)"
    using table_wf [of ?rs] len sorted_from_mono [OF sorted, of 0] by simp
  show "unat (mt_cnt (mb_reserved ?mb)) = 128" using len by (simp add: table_def)
  have "0x100000 \<le> lo r" if "r \<in> set ?rs" for r
    using that sorted_from_nth [OF sorted] by (auto simp: in_set_conv_nth)
  then show "block 0x1000 0x1000 \<inter> in_use ?mb = {}"
    using len by (fastforce simp: in_use_def table_live block_def cover_def)
qed simp_all

subsection \<open>The firmware's memory map\<close>

text \<open>The addresses of the usable entries of a memory map.\<close>

definition usable :: "(u64 \<times> u64 \<times> u32) list \<Rightarrow> nat set" where
  "usable ards = (\<Union>(a, l, ty)\<in>set ards. if ty = 1 then {unat a..<unat a + unat l} else {})"

lemma usable_simps [simp]:
  "usable [] = {}"
  "usable ((a, l, ty) # ards) = (if ty = 1 then {unat a..<unat a + unat l} else {}) \<union> usable ards"
  by (auto simp: usable_def)

text \<open>A memory map the firmware may report: usable entries are nonempty, below the end of the
  address space and disjoint from each other.\<close>

primrec entries_ok :: "(u64 \<times> u64 \<times> u32) list \<Rightarrow> bool" where
  "entries_ok [] \<longleftrightarrow> True"
| "entries_ok (e # es) \<longleftrightarrow> (case e of (a, l, ty) \<Rightarrow>
     1 \<le> ty \<and> ty \<le> 4
     \<and> (ty \<noteq> 1 \<or> 0 < unat l \<and> unat a + unat l < 2 ^ 64 \<and> block a l \<inter> usable es = {})
     \<and> entries_ok es)"

lemma init_loop_spec:
  "entries_ok ards \<Longrightarrow> mt_ok (mb_memory mb) \<Longrightarrow> cover (live (mb_memory mb)) \<inter> usable ards = {} \<Longrightarrow>
    unat (mt_cnt (mb_memory mb)) + length ards \<le> 128 \<Longrightarrow>
    \<exists>mb'. memblock_init_loop ards mb = Inr mb' \<and> mt_ok (mb_memory mb')
      \<and> mb_reserved mb' = mb_reserved mb
      \<and> cover (live (mb_memory mb')) = cover (live (mb_memory mb)) \<union> usable ards
      \<and> unat (current_limit mb) \<le> unat (current_limit mb')
      \<and> (\<forall>x\<in>usable ards. x < unat (current_limit mb'))"
proof (induction ards arbitrary: mb)
  case (Cons e es)
  obtain a l ty where e: "e = (a, l, ty)" by (cases e)
  have ty: "\<not> (ty < 1 \<or> 4 < ty)" using Cons.prems(1) e by (auto simp: not_less)
  show ?case
  proof (cases "ty = 1")
    case True
    have l: "0 < unat l" "unat a + unat l < 2 ^ 64" "block a l \<inter> usable es = {}"
      using Cons.prems(1) e True by auto
    obtain t where t: "memblock_add_regions (mb_memory mb) a l = Inr t" "mt_wf t"
        "cover (live t) = cover (live (mb_memory mb)) \<union> block a l"
        "unat (mt_cnt t) \<le> unat (mt_cnt (mb_memory mb)) + 1"
      using add_spec [OF Cons.prems(2) l(1,2)] Cons.prems(3,4) e True by (auto simp: block_def)
    let ?mb = "mb\<lparr>mb_memory := t, current_limit := max (current_limit mb) (a + l)\<rparr>"
    have al: "unat (a + l) = unat a + unat l" using l(2) by (simp add: unat_word_ariths)
    have "cover (live t) \<inter> usable es = {}"
      using t(3) l(3) Cons.prems(3) e by auto
    then obtain mb' where mb': "memblock_init_loop es ?mb = Inr mb'" "mt_ok (mb_memory mb')"
        "mb_reserved mb' = mb_reserved mb"
        "cover (live (mb_memory mb')) = cover (live t) \<union> usable es"
        "unat (current_limit ?mb) \<le> unat (current_limit mb')"
        "\<forall>x\<in>usable es. x < unat (current_limit mb')"
      using Cons.IH [of ?mb] Cons.prems(1,4) e t by (auto simp: mt_ok_def)
    have "memblock_init_loop (e # es) mb = Inr mb'"
      using e True ty t(1) mb'(1) by (simp add: memblock_add_def)
    then show ?thesis
      using mb' t(3) e True al by (auto simp: block_def unat_max_word)
  next
    case False
    then have "memblock_init_loop (e # es) mb = memblock_init_loop es mb"
      using e ty by simp
    then show ?thesis using Cons.IH [of mb] Cons.prems e False by auto
  qed
qed simp

lemma memblock_init_spec:
  assumes "length ards \<le> 32" and "entries_ok ards"
    and "length (mt_regions (mb_memory mb)) = 128" and "length (mt_regions (mb_reserved mb)) = 128"
  shows "\<exists>mb'. memblock_init ards mb = Inr mb' \<and> mt_ok (mb_memory mb') \<and> mt_empty (mb_reserved mb')
    \<and> all_memory mb' = usable ards \<and> in_use mb' = {}
    \<and> (\<forall>x\<in>all_memory mb'. x < unat (current_limit mb'))"
proof -
  define clear where "clear = (\<lambda>t :: memblock_type. t\<lparr>mt_cnt := 1,
    mt_regions := (mt_regions t)[0 := (mt_regions t ! 0)\<lparr>mr_size := 0\<rparr>]\<rparr>)"
  let ?mb = "mb\<lparr>current_limit := 0, mb_memory := clear (mb_memory mb), mb_reserved := clear (mb_reserved mb)\<rparr>"
  have empty: "mt_empty (clear t)" if "length (mt_regions t) = 128" for t :: memblock_type
  proof -
    have "mt_regions t \<noteq> []" using that by auto
    with that show ?thesis by (simp add: clear_def mt_empty_def mt_shape_def)
  qed
  have "memblock_init ards mb = memblock_init_loop ards ?mb"
    using assms(1) by (simp add: memblock_init_def clear_def Let_def)
  moreover have "mt_ok (mb_memory ?mb)" "cover (live (mb_memory ?mb)) = {}"
    "mt_cnt (mb_memory ?mb) = 1"
    using empty [OF assms(3)] mt_empty_live(2) by (auto simp: mt_ok_def mt_empty_def)
  ultimately show ?thesis
    using init_loop_spec [OF assms(2), of ?mb] assms(1) empty [OF assms(4)]
      mt_empty_live(2) [OF empty [OF assms(4)]]
    by (auto simp: all_memory_def in_use_def)
qed

text \<open>Start-up builds the memory table from the firmware's memory map: with at most 32 entries
  whose usable ones are nonempty and disjoint, the table then covers exactly the usable addresses,
  nothing is in use, and the allocation limit lies above all of them.\<close>

theorem init_reads_memory_map:
  assumes "length ards \<le> 32" and "entries_ok ards"
    and "length (mt_regions (mb_memory mb)) = 128" and "length (mt_regions (mb_reserved mb)) = 128"
  shows "\<exists>mb'. memblock_init ards mb = Inr mb' \<and> mt_ok (mb_memory mb') \<and> mt_empty (mb_reserved mb')
    \<and> all_memory mb' = usable ards \<and> in_use mb' = {}
    \<and> (\<forall>x\<in>all_memory mb'. x < unat (current_limit mb'))"
  using memblock_init_spec [OF assms] .

theorem init_reads_memory_map_witness:
  "\<exists>mb'. memblock_init [(0, 0x9F000, 1), (0x9F000, 0x61000, 2), (0x100000, 0x7F00000, 1)] boot_memory = Inr mb'
    \<and> all_memory mb' = {0..<0x9F000} \<union> {0x100000..<0x8000000} \<and> in_use mb' = {}"
proof -
  let ?ards = "[(0, 0x9F000, 1), (0x9F000, 0x61000, 2), (0x100000, 0x7F00000, 1)] :: (u64 \<times> u64 \<times> u32) list"
  have "entries_ok ?ards" by (simp add: block_def)
  moreover have "usable ?ards = {0..<0x9F000} \<union> {0x100000..<0x8000000}" by simp
  ultimately show ?thesis
    using init_reads_memory_map [of ?ards boot_memory]
    by (auto simp: boot_memory_def table_def)
qed

end
