(* ===== verification/ByteOps.thy ===== *)
theory ByteOps
  imports KState
begin

text \<open>
  The byte and string operations of \<open>src/kernel/string.c\<close>, on a memory of bytes by address. An
  address that is not mapped faults. Pointers wrap at 64 bits, counts have the width of the C
  parameter.
\<close>

type_synonym bytes = "u64 \<rightharpoonup> u8"

definition load8 :: "bytes \<Rightarrow> u64 \<Rightarrow> kerror + u8" where
  "load8 m a = read_at m a"

definition mod8 :: "u64 \<Rightarrow> (u8 \<Rightarrow> u8) \<Rightarrow> bytes \<Rightarrow> kerror + bytes" where
  "mod8 a f m = bind_ok (load8 m a) (\<lambda>v. Inr (m(a \<mapsto> f v)))"

definition store8 :: "u64 \<Rightarrow> u8 \<Rightarrow> bytes \<Rightarrow> kerror + bytes" where
  "store8 a v = mod8 a (\<lambda>_. v)"

interpretation bytes: typed_heap load8 mod8
  by unfold_locales (auto simp: load8_def mod8_def read_at_def split: option.splits)

lemma load8_Some [simp]: "m a = Some v \<Longrightarrow> load8 m a = Inr v"
  by (simp add: load8_def)

lemma store8_mapped [simp]: "a \<in> dom m \<Longrightarrow> store8 a v m = Inr (m(a \<mapsto> v))"
  by (auto simp: store8_def mod8_def)

subsection \<open>Filling\<close>

text \<open>\<open>rep stosb\<close> and \<open>rep stosl\<close> from \<open>include/kernel/x86.h\<close>: the low byte of the data, or its four
  bytes from the least significant up.\<close>

primrec stosb :: "u64 \<Rightarrow> u32 \<Rightarrow> nat \<Rightarrow> bytes \<Rightarrow> kerror + bytes" where
  "stosb addr data 0 m = Inr m"
| "stosb addr data (Suc cnt) m = bind_ok (store8 addr (ucast data) m) (stosb (addr + 1) data cnt)"

definition store32 :: "u64 \<Rightarrow> u32 \<Rightarrow> bytes \<Rightarrow> kerror + bytes" where
  "store32 a w m =
     bind_ok (store8 a (ucast w) m) (\<lambda>m.
     bind_ok (store8 (a + 1) (ucast (drop_bit 8 w)) m) (\<lambda>m.
     bind_ok (store8 (a + 2) (ucast (drop_bit 16 w)) m) (\<lambda>m.
     store8 (a + 3) (ucast (drop_bit 24 w)) m)))"

primrec stosl :: "u64 \<Rightarrow> u32 \<Rightarrow> nat \<Rightarrow> bytes \<Rightarrow> kerror + bytes" where
  "stosl addr data 0 m = Inr m"
| "stosl addr data (Suc cnt) m = bind_ok (store32 addr data m) (stosl (addr + 4) data cnt)"

definition memset :: "u64 \<Rightarrow> u32 \<Rightarrow> u32 \<Rightarrow> bytes \<Rightarrow> kerror + bytes" where
  "memset dst c n m =
     (if dst mod 4 = 0 \<and> n mod 4 = 0 then
        let c = c AND 0xFF in
        stosl dst (push_bit 24 c OR push_bit 16 c OR push_bit 8 c OR c) (unat (n div 4)) m
      else stosb dst c (unat n) m)"

subsection \<open>Comparing\<close>

text \<open>The result of \<open>*s1 - *s2\<close> is the difference of two bytes as an \<open>int\<close>.\<close>

definition byte_diff :: "u8 \<Rightarrow> u8 \<Rightarrow> int" where
  "byte_diff a b = uint a - uint b"

lemma byte_diff_0 [simp]: "byte_diff a b = 0 \<longleftrightarrow> a = b"
  by (simp add: byte_diff_def word_uint_eq_iff)

primrec memcmp_loop :: "nat \<Rightarrow> u64 \<Rightarrow> u64 \<Rightarrow> bytes \<Rightarrow> kerror + int" where
  "memcmp_loop 0 s1 s2 m = Inr 0"
| "memcmp_loop (Suc n) s1 s2 m =
     bind_ok (load8 m s1) (\<lambda>a.
     bind_ok (load8 m s2) (\<lambda>b.
     if a \<noteq> b then Inr (byte_diff a b) else memcmp_loop n (s1 + 1) (s2 + 1) m))"

definition memcmp :: "u64 \<Rightarrow> u64 \<Rightarrow> u32 \<Rightarrow> bytes \<Rightarrow> kerror + int" where
  "memcmp v1 v2 n m = memcmp_loop (unat n) v1 v2 m"

text \<open>The loop of \<open>strncmp\<close> stops at a null byte of \<open>p\<close> or at the first difference.\<close>

primrec strncmp_loop :: "nat \<Rightarrow> u64 \<Rightarrow> u64 \<Rightarrow> bytes \<Rightarrow> kerror + int" where
  "strncmp_loop 0 p q m = Inr 0"
| "strncmp_loop (Suc n) p q m =
     bind_ok (load8 m p) (\<lambda>a.
     if a = 0 then bind_ok (load8 m q) (\<lambda>b. Inr (byte_diff a b)) else
     bind_ok (load8 m q) (\<lambda>b.
     if a = b then strncmp_loop n (p + 1) (q + 1) m else Inr (byte_diff a b)))"

definition strncmp :: "u64 \<Rightarrow> u64 \<Rightarrow> u32 \<Rightarrow> bytes \<Rightarrow> kerror + int" where
  "strncmp p q n m = strncmp_loop (unat n) p q m"

subsection \<open>Moving\<close>

primrec move_up :: "nat \<Rightarrow> u64 \<Rightarrow> u64 \<Rightarrow> bytes \<Rightarrow> kerror + bytes" where
  "move_up 0 d s m = Inr m"
| "move_up (Suc n) d s m =
     bind_ok (load8 m s) (\<lambda>v. bind_ok (store8 d v m) (move_up n (d + 1) (s + 1)))"

primrec move_down :: "nat \<Rightarrow> u64 \<Rightarrow> u64 \<Rightarrow> bytes \<Rightarrow> kerror + bytes" where
  "move_down 0 d s m = Inr m"
| "move_down (Suc n) d s m =
     bind_ok (load8 m (s - 1)) (\<lambda>v. bind_ok (store8 (d - 1) v m) (move_down n (d - 1) (s - 1)))"

definition memmove :: "u64 \<Rightarrow> u64 \<Rightarrow> u32 \<Rightarrow> bytes \<Rightarrow> kerror + bytes" where
  "memmove dst src n m =
     (if src < dst \<and> dst < src + ucast n
      then move_down (unat n) (dst + ucast n) (src + ucast n) m
      else move_up (unat n) dst src m)"

subsection \<open>Strings\<close>

text \<open>\<open>strlen\<close> counts in an \<open>int\<close>; a string that is too long for it overflows.\<close>

function strlen_loop :: "nat \<Rightarrow> u64 \<Rightarrow> bytes \<Rightarrow> kerror + nat" where
  "strlen_loop n s m =
     (if \<not> n < 2 ^ 31 then Inl (OutOfBounds n) else
      bind_ok (load8 m (s + of_nat n)) (\<lambda>c.
      if c = 0 then Inr n else strlen_loop (n + 1) s m))"
  by pat_completeness auto
termination by (relation "measure (\<lambda>(n, s, m). 2 ^ 31 - n)") auto

declare strlen_loop.simps [simp del]

definition strlen :: "u64 \<Rightarrow> bytes \<Rightarrow> kerror + nat" where
  "strlen s m = strlen_loop 0 s m"

text \<open>The two loops of \<open>strncpy\<close>: copy up to and with the null byte, then fill with null bytes.\<close>

primrec pad_loop :: "nat \<Rightarrow> u64 \<Rightarrow> bytes \<Rightarrow> kerror + bytes" where
  "pad_loop 0 s m = Inr m"
| "pad_loop (Suc n) s m = bind_ok (store8 s 0 m) (pad_loop n (s + 1))"

primrec strncpy_loop :: "nat \<Rightarrow> u64 \<Rightarrow> u64 \<Rightarrow> bytes \<Rightarrow> kerror + bytes" where
  "strncpy_loop 0 s t m = Inr m"
| "strncpy_loop (Suc n) s t m =
     bind_ok (load8 m t) (\<lambda>c.
     bind_ok (store8 s c m) (\<lambda>m.
     if c \<noteq> 0 then strncpy_loop n (s + 1) (t + 1) m else pad_loop n (s + 1) m))"

definition strncpy :: "u64 \<Rightarrow> u64 \<Rightarrow> u32 \<Rightarrow> bytes \<Rightarrow> kerror + bytes" where
  "strncpy s t n m = strncpy_loop (nat (sint n)) s t m"

text \<open>The loop of \<open>safestrcpy\<close>, with the count already decremented; it ends with \<open>*s = 0\<close>.\<close>

primrec safestrcpy_loop :: "nat \<Rightarrow> u64 \<Rightarrow> u64 \<Rightarrow> bytes \<Rightarrow> kerror + bytes" where
  "safestrcpy_loop 0 s t m = store8 s 0 m"
| "safestrcpy_loop (Suc n) s t m =
     bind_ok (load8 m t) (\<lambda>c.
     bind_ok (store8 s c m) (\<lambda>m.
     if c \<noteq> 0 then safestrcpy_loop n (s + 1) (t + 1) m else store8 (s + 1) 0 m))"

definition safestrcpy :: "u64 \<Rightarrow> u64 \<Rightarrow> u32 \<Rightarrow> bytes \<Rightarrow> kerror + bytes" where
  "safestrcpy s t n m =
     (if sint n \<le> 0 then Inr m else safestrcpy_loop (nat (sint n) - 1) s t m)"

subsection \<open>What moving does\<close>

text \<open>\<open>n\<close> mapped bytes from \<open>a\<close> on, and the memory in which they hold \<open>f 0, f 1, \<dots>\<close>.\<close>

definition mapped :: "bytes \<Rightarrow> u64 \<Rightarrow> nat \<Rightarrow> bool" where
  "mapped m a n \<longleftrightarrow> (\<forall>i<n. a + of_nat i \<in> dom m)"

definition written :: "u64 \<Rightarrow> nat \<Rightarrow> (nat \<Rightarrow> u8 option) \<Rightarrow> bytes \<Rightarrow> bytes" where
  "written a n f m = (\<lambda>p. if unat (p - a) < n then f (unat (p - a)) else m p)"

lemma written_0 [simp]: "written a 0 f m = m"
  by (simp add: written_def)

lemma mapped_Suc: "mapped m a (Suc n) \<longleftrightarrow> a \<in> dom m \<and> mapped m (a + 1) n"
  unfolding mapped_def All_less_Suc2 by (simp add: add.assoc)

lemma mapped_Suc_last: "mapped m a (Suc n) \<longleftrightarrow> mapped m a n \<and> a + of_nat n \<in> dom m"
  by (auto simp: mapped_def less_Suc_eq)

lemma mapped_upd: "mapped m a n \<Longrightarrow> mapped (m(p \<mapsto> v)) a n"
  by (simp add: mapped_def)

lemma unat_minus_one_pos: "(p :: u64) \<noteq> a \<Longrightarrow> unat (p - a) = Suc (unat (p - (a + 1)))"
proof -
  assume "p \<noteq> a"
  then have "unat (p - a) \<noteq> 0" by (simp add: unat_eq_0)
  then have "unat (p - a - 1) = unat (p - a) - 1" by (intro unat_minus_1) simp
  then show ?thesis using \<open>unat (p - a) \<noteq> 0\<close> by (simp add: diff_diff_eq)
qed

text \<open>Writing the first, or the last, of \<open>n + 1\<close> bytes.\<close>

lemma written_first:
  "written (a + 1) n f (m(a \<mapsto> v)) = written a (Suc n) (\<lambda>i. case i of 0 \<Rightarrow> Some v | Suc j \<Rightarrow> f j) m"
  if "n < 2 ^ 64"
proof
  fix p
  show "written (a + 1) n f (m(a \<mapsto> v)) p
    = written a (Suc n) (\<lambda>i. case i of 0 \<Rightarrow> Some v | Suc j \<Rightarrow> f j) m p"
  proof (cases "p = a")
    case True
    have "unat (a - (a + 1)) = 2 ^ 64 - 1" by (simp add: diff_diff_eq [symmetric] unsigned_minus_1_eq_mask mask_eq_exp_minus_1)
    then show ?thesis using True that by (simp add: written_def)
  next
    case False
    then show ?thesis using unat_minus_one_pos [OF False] by (simp add: written_def)
  qed
qed

lemma written_last:
  assumes "n < 2 ^ 64"
  shows "written a n f (m(a + of_nat n \<mapsto> v)) = written a (Suc n) (f(n := Some v)) m"
proof
  fix p
  have n: "unat (of_nat n :: u64) = n" using assms by (simp add: unat_of_nat)
  have "p = a + of_nat n \<longleftrightarrow> unat (p - a) = n"
  proof
    assume "unat (p - a) = n"
    then have "of_nat (unat (p - a)) = (of_nat n :: u64)" by simp
    then have "p - a = of_nat n" by simp
    then show "p = a + of_nat n" by (simp add: algebra_simps)
  qed (simp add: n)
  then show "written a n f (m(a + of_nat n \<mapsto> v)) p = written a (Suc n) (f(n := Some v)) m p"
    by (auto simp: written_def less_Suc_eq)
qed

lemma written_cong: "(\<And>i. i < n \<Longrightarrow> f i = g i) \<Longrightarrow> written a n f m = written a n g m"
  by (auto simp: written_def)

text \<open>Neither loop of \<open>memmove\<close> writes a byte that it has still to read.\<close>

lemma move_up_written:
  "mapped m s n \<Longrightarrow> mapped m d n \<Longrightarrow> n \<le> 2 ^ 64 \<Longrightarrow> (\<And>k. 0 < k \<Longrightarrow> k < n \<Longrightarrow> s + of_nat k \<noteq> d) \<Longrightarrow>
    move_up n d s m = Inr (written d n (\<lambda>i. m (s + of_nat i)) m)"
proof (induction n arbitrary: d s m)
  case (Suc n)
  obtain v where v: "m s = Some v" "d \<in> dom m" using Suc.prems(1,2) by (auto simp: mapped_Suc)
  let ?m = "m(d \<mapsto> v)"
  have "move_up n (d + 1) (s + 1) ?m = Inr (written (d + 1) n (\<lambda>i. ?m (s + 1 + of_nat i)) ?m)"
  proof (rule Suc.IH)
    show "mapped ?m (s + 1) n" "mapped ?m (d + 1) n"
      using Suc.prems(1,2) by (simp_all add: mapped_Suc mapped_upd)
    show "n \<le> 2 ^ 64" using Suc.prems(3) by simp
    show "s + 1 + of_nat k \<noteq> d + 1" if "0 < k" "k < n" for k
      using Suc.prems(4) [of k] that by (simp add: algebra_simps)
  qed
  also have "written (d + 1) n (\<lambda>i. ?m (s + 1 + of_nat i)) ?m
      = written (d + 1) n (\<lambda>i. m (s + 1 + of_nat i)) ?m"
  proof (rule written_cong)
    fix i assume "i < n"
    then have "s + of_nat (Suc i) \<noteq> d" by (intro Suc.prems(4)) simp_all
    then show "?m (s + 1 + of_nat i) = m (s + 1 + of_nat i)" by (simp add: add.assoc)
  qed
  also have "\<dots> = written d (Suc n) (\<lambda>i. m (s + of_nat i)) m"
    using Suc.prems(3) v(1) unfolding written_first [of n, OF less_le_trans [OF lessI Suc.prems(3)]]
    by (intro written_cong) (simp add: add.assoc split: nat.split)
  finally show ?case using v by (simp del: fun_upd_apply)
qed simp

lemma move_down_written:
  "mapped m s n \<Longrightarrow> mapped m d n \<Longrightarrow> n \<le> 2 ^ 64 \<Longrightarrow> (\<And>k. 0 < k \<Longrightarrow> k < n \<Longrightarrow> d + of_nat k \<noteq> s) \<Longrightarrow>
    move_down n (d + of_nat n) (s + of_nat n) m = Inr (written d n (\<lambda>i. m (s + of_nat i)) m)"
proof (induction n arbitrary: m)
  case (Suc n)
  let ?s = "s + of_nat n" and ?d = "d + of_nat n"
  obtain v where v: "m ?s = Some v" "?d \<in> dom m"
    using Suc.prems(1,2) by (auto simp: mapped_Suc_last)
  let ?m = "m(?d \<mapsto> v)"
  have "move_down n ?d ?s ?m = Inr (written d n (\<lambda>i. ?m (s + of_nat i)) ?m)"
    using Suc.prems by (intro Suc.IH) (simp_all add: mapped_Suc_last mapped_upd del: fun_upd_apply)
  also have "written d n (\<lambda>i. ?m (s + of_nat i)) ?m = written d n (\<lambda>i. m (s + of_nat i)) ?m"
  proof (rule written_cong)
    fix i assume i: "i < n"
    have "d + of_nat (n - i) \<noteq> s" using i by (intro Suc.prems(4)) simp_all
    then have "s + of_nat i \<noteq> ?d" using i by (auto simp: of_nat_diff algebra_simps)
    then show "?m (s + of_nat i) = m (s + of_nat i)" by simp
  qed
  also have "\<dots> = written d (Suc n) (\<lambda>i. m (s + of_nat i)) m"
    using Suc.prems(3) v(1) by (subst written_last) (auto intro: written_cong)
  finally show ?case using v by (simp add: algebra_simps del: fun_upd_apply)
qed simp

lemma memmove_written:
  assumes "mapped m src (unat n)" "mapped m dst (unat n)"
    and "unat src + unat n < 2 ^ 64" "unat dst + unat n \<le> 2 ^ 64"
  shows "memmove dst src n m = Inr (written dst (unat n) (\<lambda>i. m (src + of_nat i)) m)"
proof -
  have n: "unat n < 2 ^ 32" using unsigned_less [of n, where 'a = nat] by simp
  have off: "unat (a + of_nat k) = unat a + k"
    if "unat a + unat n \<le> 2 ^ 64" "k < unat n" for a :: u64 and k
    using that n by (simp add: unat_word_ariths unat_of_nat)
  have cast: "(ucast n :: u64) = of_nat (unat n)" by simp
  show ?thesis
  proof (cases "src < dst \<and> dst < src + ucast n")
    case True
    have "dst + of_nat k \<noteq> src" if "0 < k" "k < unat n" for k
      using off [OF assms(4) that(2)] True by (auto simp: word_less_nat_alt)
    then show ?thesis
      using True assms n move_down_written [of m src "unat n" dst]
      by (simp add: memmove_def cast del: of_nat_unat)
  next
    case False
    have "src + of_nat k \<noteq> dst" if k: "0 < k" "k < unat n" for k
    proof
      assume dst: "src + of_nat k = dst"
      then have d: "unat dst = unat src + k" using off [OF less_imp_le [OF assms(3)] k(2)] by simp
      have "src < dst" using d k by (simp add: word_less_nat_alt)
      then have "src + ucast n \<le> dst" using False by (simp add: not_less)
      moreover have "unat (src + ucast n) = unat src + unat n"
        using assms(3) n by (simp add: unat_word_ariths unsigned_ucast_eq take_bit_nat_eq_self)
      ultimately show False using d k by (simp add: word_le_nat_alt)
    qed
    then show ?thesis
      using False assms n move_up_written [of m src "unat n" dst]
      by (auto simp: memmove_def simp del: of_nat_unat)
  qed
qed

subsection \<open>What filling does\<close>

lemma stosb_written:
  "mapped m a n \<Longrightarrow> n \<le> 2 ^ 64 \<Longrightarrow> stosb a d n m = Inr (written a n (\<lambda>_. Some (ucast d)) m)"
proof (induction n arbitrary: a m)
  case (Suc n)
  have "stosb (a + 1) d n (m(a \<mapsto> ucast d))
      = Inr (written (a + 1) n (\<lambda>_. Some (ucast d)) (m(a \<mapsto> ucast d)))"
    using Suc.prems by (intro Suc.IH) (simp_all add: mapped_Suc mapped_upd del: fun_upd_apply)
  also have "written (a + 1) n (\<lambda>_. Some (ucast d)) (m(a \<mapsto> ucast d))
      = written a (Suc n) (\<lambda>_. Some (ucast d)) m"
    unfolding written_first [of n, OF less_le_trans [OF lessI Suc.prems(2)]]
    by (intro written_cong) (simp split: nat.split)
  finally show ?case using Suc.prems by (simp add: mapped_Suc del: fun_upd_apply)
qed simp

lemma stosb_fun:
  "stosb a d 0 = Inr"
  "stosb a d (Suc n) = (\<lambda>m. bind_ok (store8 a (ucast d) m) (stosb (a + 1) d n))"
  by auto

lemma bind_ok_return [simp]: "bind_ok m Inr = m"
  by (cases m) auto

text \<open>Filling by words of four equal bytes is filling by bytes.\<close>

lemma store32_stosb:
  assumes "ucast (drop_bit 8 w) = (ucast w :: u8)" "ucast (drop_bit 16 w) = (ucast w :: u8)"
    "ucast (drop_bit 24 w) = (ucast w :: u8)"
  shows "store32 a w m = stosb a w 4 m"
proof -
  have "(4 :: nat) = Suc (Suc (Suc (Suc 0)))" by simp
  then show ?thesis
    by (simp only: store32_def assms stosb_fun add.assoc) simp
qed

lemma stosb_add: "stosb a d (k + n) m = bind_ok (stosb a d k m) (stosb (a + of_nat k) d n)"
  by (induction k arbitrary: a m) (auto simp: bind_ok_def add.assoc split: sum.splits)

lemma stosl_stosb:
  assumes "ucast (drop_bit 8 w) = (ucast w :: u8)" "ucast (drop_bit 16 w) = (ucast w :: u8)"
    "ucast (drop_bit 24 w) = (ucast w :: u8)"
  shows "stosl a w n m = stosb a w (4 * n) m"
proof (induction n arbitrary: a m)
  case (Suc n)
  have "4 * Suc n = 4 + 4 * n" by simp
  then have "stosb a w (4 * Suc n) m = bind_ok (stosb a w 4 m) (stosb (a + 4) w (4 * n))"
    using stosb_add [of a w 4 "4 * n" m] by simp
  also have "stosb (a + 4) w (4 * n) = stosl (a + 4) w n" using Suc.IH by auto
  finally show ?case using store32_stosb [OF assms] by simp
qed simp

lemma memset_written:
  assumes "mapped m dst (unat n)"
  shows "memset dst c n m = Inr (written dst (unat n) (\<lambda>_. Some (ucast c)) m)"
proof -
  have n: "unat n \<le> 2 ^ 64" using unsigned_less [of n, where 'a = nat] by simp
  show ?thesis
  proof (cases "dst mod 4 = 0 \<and> n mod 4 = 0")
    case True
    let ?c = "c AND 0xFF" and ?w = "push_bit 24 (c AND 0xFF) OR push_bit 16 (c AND 0xFF)
      OR push_bit 8 (c AND 0xFF) OR (c AND 0xFF)"
    have ff: "(0xFF :: u32) = mask 8" by (simp add: mask_eq_exp_minus_1)
    have low: "(ucast ?w :: u8) = ucast c"
      unfolding ff by (intro bit_word_eqI) (auto simp: bit_simps)
    have "ucast (drop_bit 8 ?w) = (ucast c :: u8)" "ucast (drop_bit 16 ?w) = (ucast c :: u8)"
      "ucast (drop_bit 24 ?w) = (ucast c :: u8)"
      unfolding ff by (intro bit_word_eqI; auto simp: bit_simps)+
    then have "stosl dst ?w (unat (n div 4)) m = stosb dst ?w (4 * unat (n div 4)) m"
      using low by (intro stosl_stosb) simp_all
    moreover have "4 * unat (n div 4) = unat n"
    proof -
      have "unat (n mod 4) = 0" using True by simp
      then have "unat n mod 4 = 0" by (simp add: unat_mod)
      then have "4 * (unat n div 4) = unat n" using mult_div_mod_eq [of 4 "unat n"] by simp
      then show ?thesis by (simp add: unat_div)
    qed
    ultimately show ?thesis
      using True stosb_written [OF assms n, of ?w] low by (simp add: memset_def Let_def)
  next
    case False
    then show ?thesis using stosb_written [OF assms n, of c] by (auto simp: memset_def)
  qed
qed

subsection \<open>What comparing does\<close>

lemma memcmp_loop_zero:
  "mapped m a n \<Longrightarrow> mapped m b n \<Longrightarrow> \<exists>r. memcmp_loop n a b m = Inr r
    \<and> (r = 0 \<longleftrightarrow> (\<forall>i<n. m (a + of_nat i) = m (b + of_nat i)))"
proof (induction n arbitrary: a b)
  case (Suc n)
  obtain x y where xy: "m a = Some x" "m b = Some y"
    using Suc.prems by (auto simp: mapped_Suc)
  have step: "(\<forall>i<Suc n. m (a + of_nat i) = m (b + of_nat i)) \<longleftrightarrow>
      x = y \<and> (\<forall>i<n. m (a + 1 + of_nat i) = m (b + 1 + of_nat i))"
    unfolding All_less_Suc2 by (simp add: xy add.assoc)
  show ?case
  proof (cases "x = y")
    case True
    then show ?thesis using Suc.IH [of "a + 1" "b + 1"] Suc.prems step xy by (simp add: mapped_Suc)
  next
    case False
    then show ?thesis using False step xy by simp
  qed
qed simp

subsection \<open>What copying strings does\<close>

text \<open>Copying with a limit of \<open>n + 1\<close> bytes stops after the \<open>k\<close> bytes of the source before its first
  null byte, or after \<open>n\<close> of them, and ends the copy with a null byte.\<close>

lemma safestrcpy_loop_spec:
  "mapped m t n \<Longrightarrow> mapped m s (Suc n) \<Longrightarrow> n < 2 ^ 63 \<Longrightarrow>
    (\<And>i j. i \<le> n \<Longrightarrow> j < n \<Longrightarrow> s + of_nat i \<noteq> t + of_nat j) \<Longrightarrow>
    \<exists>m' k. safestrcpy_loop n s t m = Inr m' \<and> k \<le> n
      \<and> (\<forall>i<k. m' (s + of_nat i) = m (t + of_nat i) \<and> m (t + of_nat i) \<noteq> Some 0)
      \<and> m' (s + of_nat k) = Some 0 \<and> (k < n \<longrightarrow> m (t + of_nat k) = Some 0)
      \<and> (\<forall>p. (\<forall>i\<le>n. p \<noteq> s + of_nat i) \<longrightarrow> m' p = m p)"
proof (induction n arbitrary: s t m)
  case 0
  then show ?case by (simp add: mapped_Suc)
next
  case (Suc n)
  obtain c where c: "m t = Some c" "s \<in> dom m" "s + 1 \<in> dom m"
    using Suc.prems(1,2) by (auto simp: mapped_Suc)
  let ?m = "m(s \<mapsto> c)"
  have off: "s + 1 + of_nat i \<noteq> s" if "i \<le> n" for i
  proof -
    have "Suc i < 2 ^ LENGTH(64)" using that Suc.prems(3) by simp
    then have "unat (of_nat (Suc i) :: u64) = Suc i" by (simp only: unat_of_nat mod_less)
    then have "(of_nat (Suc i) :: u64) \<noteq> 0" by (metis unat_0 nat.distinct(1))
    then show ?thesis by (simp add: add.assoc)
  qed
  have apart: "t + 1 + of_nat j \<noteq> s" if "j < n" for j
    using Suc.prems(4) [of 0 "Suc j"] that by (simp add: add.assoc)
  show ?case
  proof (cases "c = 0")
    case True
    then show ?thesis using c
      by (intro exI [of _ "m(s \<mapsto> 0, s + 1 \<mapsto> 0)"] exI [of _ 0]) (auto dest: spec [of _ 0] spec [of _ 1])
  next
    case False
    have "\<exists>m' k. safestrcpy_loop n (s + 1) (t + 1) ?m = Inr m' \<and> k \<le> n
      \<and> (\<forall>i<k. m' (s + 1 + of_nat i) = ?m (t + 1 + of_nat i) \<and> ?m (t + 1 + of_nat i) \<noteq> Some 0)
      \<and> m' (s + 1 + of_nat k) = Some 0 \<and> (k < n \<longrightarrow> ?m (t + 1 + of_nat k) = Some 0)
      \<and> (\<forall>p. (\<forall>i\<le>n. p \<noteq> s + 1 + of_nat i) \<longrightarrow> m' p = ?m p)"
    proof (rule Suc.IH)
      show "mapped ?m (t + 1) n" "mapped ?m (s + 1) (Suc n)"
        using Suc.prems(1,2) by (simp_all add: mapped_Suc [of m] mapped_upd del: fun_upd_apply)
      show "s + 1 + of_nat i \<noteq> t + 1 + of_nat j" if "i \<le> n" "j < n" for i j
        using Suc.prems(4) [of "Suc i" "Suc j"] that by (simp add: add.assoc)
    qed (use Suc.prems(3) in simp)
    then obtain m' k where r: "safestrcpy_loop n (s + 1) (t + 1) ?m = Inr m'" "k \<le> n"
        "\<forall>i<k. m' (s + 1 + of_nat i) = ?m (t + 1 + of_nat i) \<and> ?m (t + 1 + of_nat i) \<noteq> Some 0"
        "m' (s + 1 + of_nat k) = Some 0" "k < n \<longrightarrow> ?m (t + 1 + of_nat k) = Some 0"
        "\<forall>p. (\<forall>i\<le>n. p \<noteq> s + 1 + of_nat i) \<longrightarrow> m' p = ?m p" by blast
    have "m' s = Some c" using r(6) off by fastforce
    moreover have "\<forall>i<k. m' (s + 1 + of_nat i) = m (t + 1 + of_nat i) \<and> m (t + 1 + of_nat i) \<noteq> Some 0"
      using r(2,3) apart by fastforce
    moreover have "k < n \<longrightarrow> m (t + 1 + of_nat k) = Some 0" using r(5) apart [of k] by auto
    moreover have "m' p = m p" if "\<forall>i\<le>Suc n. p \<noteq> s + of_nat i" for p
    proof -
      have "p \<noteq> s" using that by force
      moreover have "p \<noteq> s + 1 + of_nat i" if "i \<le> n" for i
        using \<open>\<forall>i\<le>Suc n. p \<noteq> s + of_nat i\<close> [rule_format, of "Suc i"] that by (simp add: add.assoc)
      ultimately show ?thesis using r(6) by simp
    qed
    ultimately show ?thesis
      using r(1,2,4) c False
      by (intro exI [of _ m'] exI [of _ "Suc k"]) (simp add: All_less_Suc2 add.assoc del: fun_upd_apply)
  qed
qed

end
