(* ===== verification/Vm.thy ===== *)
theory Vm
  imports MemblockFind ByteOps
begin

text \<open>
  Page tables and address spaces: \<open>src/kernel/vm.c\<close> with the macros of \<open>include/kernel/mmu.h\<close>.

  The state holds the boot allocator, the 64-bit words of the page tables and the bytes of other
  memory, both by kernel address. Allocated memory is cleared, and appears in both views: a page
  is used either as a table or as bytes.
\<close>

subsection \<open>Page table entries and addresses\<close>

definition PTXSHIFT :: nat where "PTXSHIFT = 12"
definition PDXSHIFT :: nat where "PDXSHIFT = 21"
definition PDPTXSHIFT :: nat where "PDPTXSHIFT = 30"
definition PML4XSHIFT :: nat where "PML4XSHIFT = 39"
definition PXMASK :: u64 where "PXMASK = 0x1FF"

definition PML4X :: "u64 \<Rightarrow> u64" where "PML4X va = drop_bit PML4XSHIFT va AND PXMASK"
definition PDPTX :: "u64 \<Rightarrow> u64" where "PDPTX va = drop_bit PDPTXSHIFT va AND PXMASK"
definition PDX :: "u64 \<Rightarrow> u64" where "PDX va = drop_bit PDXSHIFT va AND PXMASK"
definition PTX :: "u64 \<Rightarrow> u64" where "PTX va = drop_bit PTXSHIFT va AND PXMASK"
definition OFFSET :: "u64 \<Rightarrow> u64" where "OFFSET va = va AND 0xFFF"

definition PGROUNDUP :: "u64 \<Rightarrow> u64" where
  "PGROUNDUP sz = (sz + (PGSIZE - 1)) AND NOT (PGSIZE - 1)"

definition PGROUNDDOWN :: "u64 \<Rightarrow> u64" where
  "PGROUNDDOWN a = a AND NOT (PGSIZE - 1)"

definition PTE_P :: u64 where "PTE_P = 1"
definition PTE_W :: u64 where "PTE_W = 2"
definition PTE_U :: u64 where "PTE_U = 4"

text \<open>\<open>~0xFFF\<close> is an \<open>int\<close> and is sign-extended.\<close>

definition PTE_ADDR :: "u64 \<Rightarrow> u64" where "PTE_ADDR pte = pte AND NOT 0xFFF"

subsection \<open>State\<close>

record vmstate =
  pt_heap :: "u64 \<rightharpoonup> u64"
  byte_heap :: bytes
  boot_mem :: memblock
  vm_kernPml4 :: u64
  vm_kernPdpt :: u64
  vm_kernPd :: u64
  vm_kernPt :: u64
  kernelHasMappedEnd :: u64
  kernelSize :: u64
  vm_cr3 :: u64

definition get_pte :: "vmstate \<Rightarrow> u64 \<Rightarrow> kerror + u64" where
  "get_pte s p = read_at (pt_heap s) p"

definition mod_pte :: "u64 \<Rightarrow> (u64 \<Rightarrow> u64) \<Rightarrow> vmstate \<Rightarrow> kerror + vmstate" where
  "mod_pte p f s = bind_ok (get_pte s p) (\<lambda>x. Inr (s\<lparr>pt_heap := (pt_heap s)(p \<mapsto> f x)\<rparr>))"

interpretation ptes: typed_heap get_pte mod_pte
  by unfold_locales (auto simp: get_pte_def mod_pte_def read_at_def split: option.splits)

text \<open>The address of entry \<open>i\<close> of a table.\<close>

definition entry :: "u64 \<Rightarrow> u64 \<Rightarrow> u64" where "entry table i = table + 8 * i"

text \<open>\<open>memset(p, 0, n)\<close> on allocated memory, in the view of words and in that of bytes.\<close>

definition zero_words :: "u64 \<Rightarrow> u64 \<Rightarrow> (u64 \<rightharpoonup> u64) \<Rightarrow> (u64 \<rightharpoonup> u64)" where
  "zero_words p n h = (\<lambda>a. if a - p < n \<and> (a - p) AND 7 = 0 then Some 0 else h a)"

definition zero_bytes :: "u64 \<Rightarrow> u64 \<Rightarrow> bytes \<Rightarrow> bytes" where
  "zero_bytes p n m = (\<lambda>a. if a - p < n then Some 0 else m a)"

definition clear_mem :: "u64 \<Rightarrow> u64 \<Rightarrow> vmstate \<Rightarrow> vmstate" where
  "clear_mem p n s =
     s\<lparr>pt_heap := zero_words p n (pt_heap s), byte_heap := zero_bytes p n (byte_heap s)\<rparr>"

text \<open>\<open>memblock_alloc\<close> and \<open>memblock_alloc_kernel\<close> with the clearing of the block, whose length is
  a 32-bit parameter of \<open>memset\<close>.\<close>

definition vm_alloc :: "u64 \<Rightarrow> u64 \<Rightarrow> vmstate \<Rightarrow> kerror + u64 \<times> vmstate" where
  "vm_alloc sz align s =
     bind_ok (memblock_alloc sz align (boot_mem s)) (\<lambda>(a, mb).
     Inr (a, clear_mem (p2v a) (take_bit 32 sz) (s\<lparr>boot_mem := mb\<rparr>)))"

definition vm_alloc_kernel :: "u64 \<Rightarrow> u64 \<Rightarrow> vmstate \<Rightarrow> kerror + u64 \<times> vmstate" where
  "vm_alloc_kernel sz align s = bind_ok (vm_alloc sz align s) (\<lambda>(a, s). Inr (p2v a, s))"

subsection \<open>Walking\<close>

text \<open>One level of a walk: the table that entry \<open>i\<close> of \<open>table\<close> refers to. A missing table is created
  when \<open>alloc\<close>; otherwise, or when the allocator returns a null address, the walk returns null,
  here \<open>None\<close>.\<close>

definition walk_step :: "bool \<Rightarrow> u64 \<Rightarrow> u64 \<Rightarrow> vmstate \<Rightarrow> kerror + u64 option \<times> vmstate" where
  "walk_step alloc table i s =
     bind_ok (get_pte s (entry table i)) (\<lambda>e.
     let next = p2v e in
     if next AND PTE_P = 0 then
       if \<not> alloc then Inr (None, s) else
       bind_ok (vm_alloc_kernel PGSIZE PGSIZE s) (\<lambda>(next, s).
       if next = 0 then Inr (None, s) else
       bind_ok (mod_pte (entry table i) (\<lambda>_. v2p next OR PTE_P OR PTE_W OR PTE_U)
         (clear_mem next 512 s)) (\<lambda>s.
       Inr (Some (PTE_ADDR next), s)))
     else Inr (Some (PTE_ADDR next), s))"

definition bind_walk :: "kerror + 'a option \<times> vmstate \<Rightarrow>
    ('a \<Rightarrow> vmstate \<Rightarrow> kerror + 'b option \<times> vmstate) \<Rightarrow> kerror + 'b option \<times> vmstate" where
  "bind_walk m f = bind_ok m (\<lambda>(r, s). case r of None \<Rightarrow> Inr (None, s) | Some x \<Rightarrow> f x s)"

text \<open>The three levels, common to all walks: the page table for \<open>va\<close>.\<close>

definition walk_tables :: "bool \<Rightarrow> u64 \<Rightarrow> u64 \<Rightarrow> vmstate \<Rightarrow> kerror + u64 option \<times> vmstate" where
  "walk_tables alloc pml4e va s =
     bind_walk (walk_step alloc pml4e (PML4X va) s) (\<lambda>pdpte s.
     bind_walk (walk_step alloc pdpte (PDPTX va) s) (\<lambda>pde s.
     walk_step alloc pde (PDX va) s))"

definition page_walk :: "u64 \<Rightarrow> u64 \<Rightarrow> bool \<Rightarrow> vmstate \<Rightarrow> kerror + u64 \<times> vmstate" where
  "page_walk pml4e va alloc s =
     bind_ok (walk_tables alloc pml4e va s) (\<lambda>(r, s).
     case r of None \<Rightarrow> Inr (0, s)
     | Some pte \<Rightarrow> bind_ok (get_pte s (entry pte (PTX va))) (\<lambda>e.
         Inr ((e AND 0xFFFFFFFFFFFFF000) OR OFFSET va, s)))"

definition page_walk_for_others :: "u64 \<Rightarrow> u64 \<Rightarrow> bool \<Rightarrow> vmstate \<Rightarrow> kerror + u64 \<times> vmstate" where
  "page_walk_for_others pml4e va alloc s =
     bind_ok (walk_tables alloc pml4e va s) (\<lambda>(r, s).
     case r of None \<Rightarrow> Inr (0, s)
     | Some pte \<Rightarrow> bind_ok (get_pte s (entry pte (PTX va))) (\<lambda>e.
         Inr ((e AND 0xFFFFFFFFFFFFF000) OR OFFSET va, s)))"

definition page_walk_return_pte :: "u64 \<Rightarrow> u64 \<Rightarrow> bool \<Rightarrow> vmstate \<Rightarrow> kerror + u64 \<times> vmstate" where
  "page_walk_return_pte pml4e va alloc s =
     bind_ok (walk_tables alloc pml4e va s) (\<lambda>(r, s).
     case r of None \<Rightarrow> Inr (0, s) | Some pte \<Rightarrow> Inr (entry pte (PTX va), s))"

subsection \<open>Mapping\<close>

text \<open>The loop of \<open>map_pages\<close>, with the number of turns that are left after this one: \<open>first\<close> and
  \<open>last\<close> are page addresses and \<open>first\<close> grows by a page until it is \<open>last\<close>, around the end of the
  address space if it started above it. The result is the return value, 0 or -1.\<close>

definition map_page :: "u64 \<Rightarrow> u64 \<Rightarrow> u64 \<Rightarrow> u64 \<Rightarrow> vmstate \<Rightarrow> kerror + bool \<times> vmstate" where
  "map_page pml4 first pa perm s =
     bind_ok (page_walk_return_pte pml4 first True s) (\<lambda>(pte, s).
     if pte = 0 then Inr (False, s) else
     bind_ok (get_pte s pte) (\<lambda>e.
     if e AND PTE_P \<noteq> 0 then Inl (Panic ''remap'') else
     bind_ok (mod_pte pte (\<lambda>_. pa OR perm OR PTE_P) s) (\<lambda>s. Inr (True, s))))"

primrec map_loop :: "nat \<Rightarrow> u64 \<Rightarrow> u64 \<Rightarrow> u64 \<Rightarrow> u64 \<Rightarrow> vmstate \<Rightarrow> kerror + int \<times> vmstate" where
  "map_loop 0 pml4 first pa perm s =
     bind_ok (map_page pml4 first pa perm s) (\<lambda>(ok, s). Inr (if ok then 0 else - 1, s))"
| "map_loop (Suc n) pml4 first pa perm s =
     bind_ok (map_page pml4 first pa perm s) (\<lambda>(ok, s).
     if ok then map_loop n pml4 (first + PGSIZE) (pa + PGSIZE) perm s else Inr (- 1, s))"

definition map_pages :: "u64 \<Rightarrow> u64 \<Rightarrow> u64 \<Rightarrow> u64 \<Rightarrow> u64 \<Rightarrow> vmstate \<Rightarrow> kerror + int \<times> vmstate" where
  "map_pages pml4 va sz pa perm s =
     (let first = PGROUNDDOWN va; last = PGROUNDDOWN (va + sz - 1)
      in map_loop (unat (drop_bit 12 (last - first))) pml4 first pa perm s)"

definition setup_user_memory_pages :: "vmstate \<Rightarrow> kerror + u64 \<times> vmstate" where
  "setup_user_memory_pages s =
     bind_ok (vm_alloc_kernel PGSIZE PGSIZE s) (\<lambda>(pml4, s).
     bind_ok (vm_alloc_kernel PGSIZE PGSIZE s) (\<lambda>(pdpt, s).
     bind_ok (vm_alloc_kernel PGSIZE PGSIZE s) (\<lambda>(pgdir, s).
     bind_ok (vm_alloc_kernel PGSIZE PGSIZE s) (\<lambda>(pte, s).
     let s = clear_mem pml4 512 s; s = clear_mem pdpt 512 s;
         s = clear_mem pgdir 512 s; s = clear_mem pte 512 s in
     bind_ok (mod_pte (entry pml4 0) (\<lambda>_. v2p pdpt OR PTE_P OR PTE_W OR PTE_U) s) (\<lambda>s.
     bind_ok (get_pte s (entry (vm_kernPml4 s) 511)) (\<lambda>kern.
     bind_ok (mod_pte (entry pml4 511) (\<lambda>_. kern) s) (\<lambda>s.
     bind_ok (mod_pte (entry pdpt 0) (\<lambda>_. v2p pgdir OR PTE_P OR PTE_W OR PTE_U) s) (\<lambda>s.
     bind_ok (mod_pte (entry pgdir 0) (\<lambda>_. v2p pte OR PTE_P OR PTE_W OR PTE_U) s) (\<lambda>s.
     bind_ok (vm_alloc PGSIZE PGSIZE s) (\<lambda>(pg, s).
     bind_ok (mod_pte (entry pte 0) (\<lambda>_. pg OR PTE_P OR PTE_W OR PTE_U) s) (\<lambda>s.
     Inr (pml4, s))))))))))))"

text \<open>The loop of \<open>alloc_uvm\<close>, with fuel: \<open>None\<close> is a loop that has not ended. The result of
  \<open>map_pages\<close> is not looked at.\<close>

primrec uvm_loop :: "nat \<Rightarrow> u64 \<Rightarrow> u64 \<Rightarrow> u64 \<Rightarrow> u64 \<Rightarrow> vmstate \<Rightarrow> kerror + vmstate option" where
  "uvm_loop 0 pml4 old new mem s = Inr None"
| "uvm_loop (Suc fuel) pml4 old new mem s =
     (if old < new then
        bind_ok (map_pages pml4 old PGSIZE mem (PTE_W OR PTE_U) s) (\<lambda>(_, s).
        uvm_loop fuel pml4 (old + PGSIZE) new (mem + PGSIZE) s)
      else Inr (Some s))"

text \<open>The returned size is converted to an \<open>int\<close>.\<close>

definition alloc_uvm :: "nat \<Rightarrow> u64 \<Rightarrow> u64 \<Rightarrow> u64 \<Rightarrow> vmstate \<Rightarrow> kerror + (int \<times> vmstate) option" where
  "alloc_uvm fuel pml4 oldSize newSize s =
     (if newSize < oldSize then Inr (Some (sint (ucast oldSize :: u32), s)) else
      bind_ok (vm_alloc (newSize - oldSize) PGSIZE s) (\<lambda>(mem, s).
      bind_ok (uvm_loop fuel pml4 (PGROUNDUP oldSize) newSize mem s) (\<lambda>r.
      Inr (map_option (\<lambda>s. (sint (ucast newSize :: u32), s)) r))))"

lemma page_offset: "va - PGROUNDDOWN va = va AND 0xFFF"
proof -
  have "va = (va AND NOT 0xFFF) + (va AND 0xFFF)"
    by (subst disjunctive_add) (auto simp: bit_simps intro: bit_word_eqI)
  then have "va - (va AND NOT 0xFFF) = va AND 0xFFF" by (metis add_diff_cancel_left')
  then show ?thesis by (simp add: PGROUNDDOWN_def PGSIZE_def)
qed

lemma chunk_shorter:
  fixes len va :: u64
  assumes "len \<noteq> 0"
  defines "n \<equiv> PGSIZE - (va - PGROUNDDOWN va)"
  shows "unat (len - (if len < n then len else n)) < unat len"
proof -
  have "va AND 0xFFF \<le> 0xFFF" by (rule word_and_le1)
  then have n: "0 < n" "n \<le> PGSIZE"
    unfolding n_def page_offset by (simp_all add: PGSIZE_def word_less_nat_alt word_le_nat_alt unat_diff)
  show ?thesis
  proof (cases "len < n")
    case True
    then show ?thesis using assms by (simp add: unat_gt_0)
  next
    case False
    then have "n \<le> len" by simp
    then have "unat (len - n) = unat len - unat n" "unat n \<le> unat len"
      by (simp_all add: unat_diff word_le_nat_alt)
    then show ?thesis using n False by (simp add: word_less_nat_alt)
  qed
qed

text \<open>\<open>copy_uvm\<close> does not look at the null result of a failed walk: it then writes at \<open>p2v(0)\<close>.\<close>

function copy_loop :: "u64 \<Rightarrow> u64 \<Rightarrow> u64 \<Rightarrow> u64 \<Rightarrow> vmstate \<Rightarrow> kerror + vmstate" where
  "copy_loop pml4 va buf len s =
     (if len = 0 then Inr s else
      let vaAlign = PGROUNDDOWN va in
      bind_ok (page_walk pml4 vaAlign False s) (\<lambda>(pg, s).
      let ka = p2v pg; n = PGSIZE - (va - vaAlign); n = (if n > len then len else n) in
      bind_ok (memmove (ka + (va - vaAlign)) buf (ucast n) (byte_heap s)) (\<lambda>m.
      copy_loop pml4 (vaAlign + PGSIZE) (buf + n) (len - n) (s\<lparr>byte_heap := m\<rparr>))))"
  by pat_completeness auto
termination
  by (relation "measure (\<lambda>(pml4, va, buf, len, s). unat len)")
    (use chunk_shorter in \<open>auto simp: Let_def simp del: if_split cong: if_cong\<close>)

declare copy_loop.simps [simp del]

definition copy_uvm :: "u64 \<Rightarrow> u64 \<Rightarrow> u64 \<Rightarrow> u64 \<Rightarrow> vmstate \<Rightarrow> kerror + vmstate" where
  "copy_uvm pml4 va src len s = copy_loop pml4 va src len s"

definition clear_pteu :: "u64 \<Rightarrow> u64 \<Rightarrow> vmstate \<Rightarrow> kerror + vmstate" where
  "clear_pteu pml4 va s =
     bind_ok (page_walk_return_pte pml4 va False s) (\<lambda>(pte, s).
     if pte = 0 then Inl (Panic ''clear_pteu'') else mod_pte pte (\<lambda>e. e AND NOT PTE_U) s)"

subsection \<open>The kernel's own address space\<close>

definition KernelFirstHasMappedEnd :: u64 where "KernelFirstHasMappedEnd = 0xFFFFFFFFA0000000"
definition kernelFirstSize :: u64 where "kernelFirstSize = 0x40000000"

text \<open>One turn of the outer loop of \<open>vm_init\<close>: a page table that maps 2MB.\<close>

definition init_table :: "u64 \<Rightarrow> vmstate \<Rightarrow> kerror + vmstate" where
  "init_table pdOffset s =
     bind_ok (vm_alloc_kernel PGSIZE PGSIZE s) (\<lambda>(pt, s).
     let s = s\<lparr>vm_kernPt := pt\<rparr> in
     bind_ok (mod_pte (entry (vm_kernPd s) pdOffset) (\<lambda>_. v2p pt OR PTE_W OR PTE_P) s) (\<lambda>s.
     fold_ok (\<lambda>i. mod_pte (entry (vm_kernPt s) (of_nat i))
         (\<lambda>_. (0x200000 * pdOffset + 0x1000 * of_nat i) OR PTE_W OR PTE_P)) [0..<512] s))"

definition vm_init :: "vmstate \<Rightarrow> kerror + vmstate" where
  "vm_init s =
     (let s = s\<lparr>kernelHasMappedEnd := KernelFirstHasMappedEnd, kernelSize := kernelFirstSize\<rparr> in
     bind_ok (vm_alloc_kernel PGSIZE PGSIZE s) (\<lambda>(pml4, s).
     let s = s\<lparr>vm_kernPml4 := pml4\<rparr> in
     bind_ok (vm_alloc_kernel PGSIZE PGSIZE s) (\<lambda>(pdpt, s).
     let s = s\<lparr>vm_kernPdpt := pdpt\<rparr> in
     bind_ok (mod_pte (entry pml4 511) (\<lambda>_. v2p pdpt OR PTE_W OR PTE_P) s) (\<lambda>s.
     bind_ok (vm_alloc_kernel PGSIZE PGSIZE s) (\<lambda>(pd, s).
     let s = s\<lparr>vm_kernPd := pd\<rparr> in
     bind_ok (mod_pte (entry pdpt 510) (\<lambda>_. v2p pd OR PTE_W OR PTE_P) s) (\<lambda>s.
     bind_ok (fold_ok (\<lambda>n. init_table (of_nat n)) [0..<256] s) (\<lambda>s.
     Inr (s\<lparr>vm_cr3 := v2p (vm_kernPml4 s)\<rparr>))))))))"

end
