(* ===== verification/VmSpec.thy ===== *)
theory VmSpec
  imports Vm
begin

text \<open>
  What the page table code does to address translations. The tables in use are given by a partial
  map \<open>own\<close> from page addresses to levels (4 is a PML4, 1 a page table); the invariant \<open>pt_inv\<close>
  says that tables are whole pages of allocated memory and refer to tables of the next level only.
\<close>

subsection \<open>Pages and entries\<close>

definition page_base :: "u64 \<Rightarrow> bool" where "page_base b \<longleftrightarrow> b AND 0xFFF = 0"

lemma mask12: "(0xFFF :: u64) = mask 12"
  by (simp add: mask_eq_exp_minus_1)

lemma page_base_dvd: "page_base b \<longleftrightarrow> 4096 dvd unat b"
proof -
  have "unat (b AND 0xFFF) = unat b mod 4096"
    by (simp add: mask12 unsigned_take_bit_eq flip: take_bit_eq_mask) (simp add: take_bit_eq_mod)
  then show ?thesis by (metis page_base_def unat_eq_0 dvd_eq_mod_eq_0)
qed

lemma page_base_bit:
  assumes "page_base b" "n < 12"
  shows "\<not> bit b n"
proof -
  have "bit (b AND mask 12) n \<longleftrightarrow> bit (0 :: u64) n"
    using assms(1) by (simp only: page_base_def mask12)
  then show ?thesis using assms(2) by (simp add: bit_simps)
qed

lemma page_base_add: "page_base a \<Longrightarrow> page_base b \<Longrightarrow> page_base (a + b)"
  by (simp add: page_base_dvd unat_word_ariths dvd_mod)

lemma page_base_diff: "page_base a \<Longrightarrow> page_base b \<Longrightarrow> page_base (a - b)"
  by (simp add: page_base_dvd unat_sub_if' dvd_diff_nat)

lemma page_base_consts [simp]: "page_base 0" "page_base KERNBASE" "page_base PGSIZE"
  by (simp_all add: page_base_def KERNBASE_def PGSIZE_def)

lemma page_base_p2v [simp]: "page_base (p2v a) = page_base a"
proof -
  have "page_base (p2v a - KERNBASE)" if "page_base (p2v a)"
    using that by (intro page_base_diff) simp_all
  then show ?thesis using page_base_add [of a KERNBASE] by (auto simp: p2v_def)
qed

lemma page_base_v2p [simp]: "page_base (v2p a) = page_base a"
  using page_base_p2v [of "v2p a"] by simp

text \<open>An address inside the page at \<open>b\<close> is \<open>b\<close> with low bits added.\<close>

lemma in_page:
  assumes "page_base b" and "x < 4096"
  shows "b + x = b OR x" "(b + x) AND NOT 0xFFF = b" "(b + x) AND 0xFFF = x"
proof -
  have "unat (take_bit 12 x) = unat x"
    using assms(2) by (simp add: unsigned_take_bit_eq take_bit_nat_eq_self word_less_nat_alt)
  then have x: "x = take_bit 12 x" by (simp add: word_unat_eq_iff)
  have bits: "\<not> bit x n" if "12 \<le> n" for n
    using that by (subst x) (simp add: bit_take_bit_iff)
  show or: "b + x = b OR x"
    using bits page_base_bit [OF assms(1)] by (intro disjunctive_add) (metis not_le)
  show "(b + x) AND NOT 0xFFF = b" "(b + x) AND 0xFFF = x"
    unfolding or mask12 using bits page_base_bit [OF assms(1)]
    by (safe intro!: bit_word_eqI) (auto simp: bit_simps not_less not_le intro: leI ccontr)
qed

lemma same_page: "page_base b \<Longrightarrow> a - b < 4096 \<Longrightarrow> a AND NOT 0xFFF = b"
  using in_page(2) [of b "a - b"] by simp

lemma entry_offset: "i < 512 \<Longrightarrow> 8 * i < (4096 :: u64)"
  by (simp add: word_less_nat_alt unat_word_ariths)

lemma entry_page: "page_base b \<Longrightarrow> i < 512 \<Longrightarrow> entry b i AND NOT 0xFFF = b"
  using in_page(2) [OF _ entry_offset] by (simp add: entry_def)

lemma entry_inj:
  assumes "page_base b" "page_base b'" "i < 512" "i' < 512"
  shows "entry b i = entry b' i' \<longleftrightarrow> b = b' \<and> i = i'"
proof
  assume e: "entry b i = entry b' i'"
  then have b: "b = b'" using entry_page assms by metis
  then have "8 * i = 8 * i'" using e by (simp add: entry_def)
  then have "8 * unat i = 8 * unat i'"
    using assms(3,4) by (simp add: word_unat_eq_iff unat_word_ariths word_less_nat_alt)
  then show "b = b' \<and> i = i'" using b by (simp add: word_unat_eq_iff)
qed simp

lemma index_bounds: "PML4X va < 512" "PDPTX va < 512" "PDX va < 512" "PTX va < 512"
proof -
  have "x AND 0x1FF < (512 :: u64)" for x
    using word_and_le1 [of x "0x1FF"] by (auto simp: word_le_nat_alt word_less_nat_alt)
  then show "PML4X va < 512" "PDPTX va < 512" "PDX va < 512" "PTX va < 512"
    by (simp_all add: PML4X_def PDPTX_def PDX_def PTX_def PXMASK_def)
qed

subsection \<open>Entries\<close>

definition present :: "u64 \<Rightarrow> bool" where "present e \<longleftrightarrow> e AND PTE_P \<noteq> 0"

lemma present_bit: "present e \<longleftrightarrow> bit e 0"
  by (simp add: present_def PTE_P_def and_one_eq odd_iff_mod_2_eq_one bit_0)

lemma present_p2v [simp]: "present (p2v e) = present e"
  by (simp add: present_bit bit_0 p2v_def KERNBASE_def)

text \<open>The table that an entry refers to.\<close>

definition table_of :: "u64 \<Rightarrow> u64" where "table_of e = PTE_ADDR (p2v e)"

lemma PTE_ADDR_page: "page_base b \<Longrightarrow> PTE_ADDR b = b"
  using in_page(2) [of b 0] by (simp add: PTE_ADDR_def)

lemma table_of_entry:
  assumes "page_base c" and "flags < 4096"
  shows "table_of (v2p c OR flags) = c"
proof -
  have "v2p c OR flags = v2p c + flags" using in_page(1) [of "v2p c" flags] assms by simp
  then have "p2v (v2p c OR flags) = c + flags" by (simp add: p2v_def v2p_def)
  then show ?thesis using in_page(2) [OF assms] by (simp add: table_of_def PTE_ADDR_def)
qed

lemma entry_aligned: "8 * i AND 7 = (0 :: u64)"
proof -
  have "8 * i = push_bit 3 i" by (simp add: push_bit_eq_mult)
  moreover have "(7 :: u64) = mask 3" by (simp add: mask_eq_exp_minus_1)
  moreover have "push_bit 3 i AND mask 3 = 0" by (intro bit_word_eqI) (auto simp: bit_simps)
  ultimately show ?thesis by (simp only:)
qed

lemma zero_words_page:
  assumes "page_base b" "page_base c" "i < 512"
  shows "zero_words c 4096 h (entry b i) = (if b = c then Some 0 else h (entry b i))"
proof (cases "b = c")
  case True
  then show ?thesis using entry_aligned entry_offset [OF assms(3)]
    by (simp add: zero_words_def entry_def)
next
  case False
  have "\<not> entry b i - c < 4096" using same_page [OF assms(2)] entry_page [OF assms(1,3)] False by metis
  then show ?thesis using False by (simp add: zero_words_def)
qed

text \<open>The addresses of a block.\<close>

lemma in_block_iff:
  assumes "unat a + unat sz \<le> 2 ^ 64"
  shows "unat (v2p p) \<in> block a sz \<longleftrightarrow> p - p2v a < sz"
proof -
  have off: "p - p2v a = v2p p - a" by (simp add: p2v_def v2p_def)
  show ?thesis
  proof
    assume "unat (v2p p) \<in> block a sz"
    then have "unat (v2p p - a) < unat sz" "a \<le> v2p p"
      by (auto simp: block_def word_le_nat_alt unat_diff)
    then show "p - p2v a < sz" unfolding off by (simp add: word_less_nat_alt)
  next
    assume p: "p - p2v a < sz"
    have "v2p p = a + (p - p2v a)" unfolding off by simp
    then have "unat (v2p p) = unat a + unat (p - p2v a)"
      using p assms by (simp add: unat_word_ariths word_less_nat_alt)
    then show "unat (v2p p) \<in> block a sz" using p by (simp add: block_def word_less_nat_alt)
  qed
qed

lemma page_below_end:
  assumes "page_base b"
  shows "unat b + 4096 \<le> 2 ^ 64"
proof -
  obtain q where q: "unat b = 4096 * q" using assms by (auto simp: page_base_dvd)
  then have "q < 2 ^ 52" using unsigned_less [of b, where 'a = nat] by simp
  then show ?thesis using q by simp
qed

lemma in_page_unat:
  assumes "page_base b" "x < 4096"
  shows "unat (b + x) = unat b + unat x"
  using page_below_end [OF assms(1)] assms(2) by (simp add: unat_word_ariths word_less_nat_alt)

subsection \<open>The invariant\<close>

text \<open>Memory that is allocated, by kernel address of its page.\<close>

definition used_page :: "vmstate \<Rightarrow> u64 \<Rightarrow> bool" where
  "used_page s b \<longleftrightarrow> block (v2p b) PGSIZE \<subseteq> in_use (boot_mem s)"

type_synonym tables = "u64 \<rightharpoonup> nat"

definition table_ok :: "tables \<Rightarrow> vmstate \<Rightarrow> u64 \<Rightarrow> nat \<Rightarrow> bool" where
  "table_ok own s b l \<longleftrightarrow> page_base b \<and> b \<noteq> 0 \<and> used_page s b \<and> (\<forall>i<512. entry b i \<in> dom (pt_heap s))
     \<and> (1 < l \<longrightarrow> (\<forall>i<512. \<forall>e. pt_heap s (entry b i) = Some e \<longrightarrow> present e \<longrightarrow>
          own (table_of e) = Some (l - 1)))"

text \<open>The machine has at most 2GB of memory, all of it in the kernel's window.\<close>

definition mem_ok :: "vmstate \<Rightarrow> bool" where
  "mem_ok s \<longleftrightarrow> mb_ok (boot_mem s) \<and> all_memory (boot_mem s) \<subseteq> {0..<2 ^ 31}"

definition pt_inv :: "tables \<Rightarrow> vmstate \<Rightarrow> bool" where
  "pt_inv own s \<longleftrightarrow> mem_ok s \<and> (\<forall>b l. own b = Some l \<longrightarrow> table_ok own s b l)"

text \<open>Entries of tables keep their value when they are present.\<close>

definition extends :: "tables \<Rightarrow> vmstate \<Rightarrow> tables \<Rightarrow> vmstate \<Rightarrow> bool" where
  "extends own s own' s' \<longleftrightarrow> own \<subseteq>\<^sub>m own' \<and>
     (\<forall>b\<in>dom own. \<forall>i<512. \<forall>e. pt_heap s (entry b i) = Some e \<longrightarrow> present e \<longrightarrow>
        pt_heap s' (entry b i) = Some e)"

lemma extends_refl [simp]: "extends own s own s"
  by (simp add: extends_def)

lemma extends_trans:
  "extends own s own1 s1 \<Longrightarrow> extends own1 s1 own2 s2 \<Longrightarrow> extends own s own2 s2"
proof -
  assume a: "extends own s own1 s1" "extends own1 s1 own2 s2"
  then have "own \<subseteq>\<^sub>m own2" "dom own \<subseteq> dom own1"
    unfolding extends_def by (auto intro: map_le_trans dest: map_le_implies_dom_le)
  moreover have "pt_heap s2 (entry b i) = Some e"
    if b: "b \<in> dom own" "i < 512" "pt_heap s (entry b i) = Some e" "present e" for b i e
  proof -
    have "pt_heap s1 (entry b i) = Some e" using a(1) b by (simp add: extends_def)
    moreover have "b \<in> dom own1" using b(1) \<open>dom own \<subseteq> dom own1\<close> by blast
    ultimately show ?thesis using a(2) b(2,4) by (simp add: extends_def)
  qed
  ultimately show ?thesis by (simp add: extends_def)
qed

lemma extends_own: "extends own s own' s' \<Longrightarrow> own b = Some l \<Longrightarrow> own' b = Some l"
  by (auto simp: extends_def map_le_def dom_def)

lemma pt_inv_table: "pt_inv own s \<Longrightarrow> own b = Some l \<Longrightarrow> table_ok own s b l"
  by (simp add: pt_inv_def)

lemma table_entry:
  assumes "pt_inv own s" "own b = Some l" "i < 512"
  obtains e where "pt_heap s (entry b i) = Some e"
    "1 < l \<Longrightarrow> present e \<Longrightarrow> own (table_of e) = Some (l - 1)"
  using assms by (auto simp: pt_inv_def table_ok_def) (metis (no_types, lifting) domD)

lemma table_next:
  assumes "pt_inv own s" "own b = Some k" "k = l + 1" "0 < l" "i < 512"
    and "pt_heap s (entry b i) = Some e" "present e"
  shows "own (table_of e) = Some l"
  using pt_inv_table [OF assms(1,2)] assms(3-) by (auto simp: table_ok_def)

subsection \<open>Allocating a page\<close>

text \<open>What an allocated page is: a page of the kernel's window that was not in use, cleared.\<close>

definition page_allocated :: "vmstate \<Rightarrow> u64 \<Rightarrow> vmstate \<Rightarrow> bool" where
  "page_allocated s c s' \<longleftrightarrow> page_base c \<and> c \<noteq> 0 \<and> KERNBASE \<le> c
     \<and> block (v2p c) PGSIZE \<inter> in_use (boot_mem s) = {} \<and> used_page s' c
     \<and> in_use (boot_mem s) \<subseteq> in_use (boot_mem s') \<and> mem_ok s' \<and> room (boot_mem s) \<le> room (boot_mem s') + 1
     \<and> s' = clear_mem c 4096 (s\<lparr>boot_mem := boot_mem s'\<rparr>)"

lemma alloc_page_result:
  assumes "mem_ok s" and "0 < room (boot_mem s)"
  shows "\<exists>a s'. vm_alloc PGSIZE PGSIZE s = Inr (a, s') \<and> page_allocated s (p2v a) s'"
proof -
  let ?mb = "boot_mem s"
  have "0 < unat PGSIZE" "unat PGSIZE \<le> 4096 * 1" by (simp_all add: PGSIZE_def)
  moreover have "mb_ok ?mb" using assms(1) by (simp add: mem_ok_def)
  moreover have "1 \<le> room ?mb" using assms(2) by simp
  ultimately have "\<exists>a mb'. memblock_alloc_base PGSIZE PGSIZE MEMBLOCK_ALLOC_ACCESSIBLE ?mb = Inr (a, mb')
      \<and> good_block PGSIZE PGSIZE ?mb a \<and> mb_ok mb' \<and> mb_memory mb' = mb_memory ?mb
      \<and> in_use mb' = in_use ?mb \<union> block a PGSIZE \<and> room ?mb \<le> room mb' + 1"
    using alloc_succeeds [of ?mb PGSIZE 1] by blast
  then show ?thesis
  proof (elim exE conjE)
    fix a mb'
    assume a: "memblock_alloc_base PGSIZE PGSIZE MEMBLOCK_ALLOC_ACCESSIBLE ?mb = Inr (a, mb')"
      "good_block PGSIZE PGSIZE ?mb a" "mb_ok mb'" "mb_memory mb' = mb_memory ?mb"
      "in_use mb' = in_use ?mb \<union> block a PGSIZE" "room ?mb \<le> room mb' + 1"
    let ?s = "clear_mem (p2v a) 4096 (s\<lparr>boot_mem := mb'\<rparr>)"
    have "page_base a" using a(2) by (simp add: good_block_def page_base_def PGSIZE_def)
    have "unat a \<in> block a PGSIZE" by (simp add: block_def PGSIZE_def)
    then have "unat a < 2 ^ 31"
      using a(2) assms(1) by (auto simp: good_block_def mem_ok_def)
    then have p2v: "unat (p2v a) = unat a + unat KERNBASE"
      by (simp add: p2v_def KERNBASE_def unat_word_ariths)
    then have "KERNBASE \<le> p2v a" "p2v a \<noteq> 0"
      by (auto simp: word_le_nat_alt KERNBASE_def)
    moreover have "boot_mem ?s = mb'" by (simp add: clear_mem_def)
    ultimately have "page_allocated s (p2v a) ?s"
      using a assms(1) \<open>page_base a\<close>
      by (auto simp: page_allocated_def used_page_def good_block_def mem_ok_def all_memory_def)
    moreover have "vm_alloc PGSIZE PGSIZE s = Inr (a, ?s)"
      using a(1) by (simp add: vm_alloc_def memblock_alloc_def PGSIZE_def)
    ultimately show ?thesis by blast
  qed
qed

text \<open>An allocated page is none of the tables, and leaves all of them alone.\<close>

lemma allocated_tables:
  assumes "pt_inv own s" and "page_allocated s c s'"
  shows "own c = None" and "pt_inv own s'"
    and "\<And>b i. own b = Some l \<Longrightarrow> i < 512 \<Longrightarrow> pt_heap s' (entry b i) = pt_heap s (entry b i)"
    and "\<And>i. i < 512 \<Longrightarrow> pt_heap s' (entry c i) = Some 0"
proof -
  note alloc = assms(2) [unfolded page_allocated_def]
  have heap: "pt_heap s' = zero_words c 4096 (pt_heap s)"
  proof -
    obtain mb where "s' = clear_mem c 4096 (s\<lparr>boot_mem := mb\<rparr>)" using alloc by blast
    then show ?thesis by (simp add: clear_mem_def)
  qed
  have "unat (v2p c) \<in> block (v2p c) PGSIZE" by (simp add: block_def PGSIZE_def)
  then show none: "own c = None"
    using alloc pt_inv_table [OF assms(1), of c]
    by (cases "own c") (auto simp: table_ok_def used_page_def)
  show same: "pt_heap s' (entry b i) = pt_heap s (entry b i)" if "own b = Some l" "i < 512" for b i l
    using that zero_words_page [of b c i] none alloc pt_inv_table [OF assms(1) that(1)]
    by (auto simp: heap table_ok_def)
  show "pt_heap s' (entry c i) = Some 0" if "i < 512" for i
    using that zero_words_page [of c c i] alloc by (simp add: heap)
  have "table_ok own s' b l" if "own b = Some l" for b l
    using pt_inv_table [OF assms(1) that] same [OF that] alloc
    by (auto simp: table_ok_def used_page_def)
  then show "pt_inv own s'" using alloc by (simp add: pt_inv_def)
qed

text \<open>An allocated page becomes a table.\<close>

lemma new_table:
  assumes "pt_inv own s" and "page_allocated s c s'"
  shows "pt_inv (own(c \<mapsto> l)) s'" and "extends own s (own(c \<mapsto> l)) s'"
proof -
  note facts = allocated_tables [OF assms]
  have "table_ok (own(c \<mapsto> l)) s' c l"
    using facts(4) assms(2) by (auto simp: table_ok_def page_allocated_def present_bit)
  moreover have "table_ok (own(c \<mapsto> l)) s' b k" if "own b = Some k" for b k
    using pt_inv_table [OF facts(2) that] facts(1) by (auto simp: table_ok_def)
  ultimately show "pt_inv (own(c \<mapsto> l)) s'"
    using facts(2) by (auto simp: pt_inv_def)
  show "extends own s (own(c \<mapsto> l)) s'"
    using facts(1,3) by (auto simp: extends_def map_le_def)
qed

text \<open>Writing an entry that is not present.\<close>

lemma set_entry:
  assumes inv: "pt_inv own s" and b: "own b = Some l" "i < 512"
    and old: "\<And>e. pt_heap s (entry b i) = Some e \<Longrightarrow> \<not> present e"
    and v: "1 < l \<Longrightarrow> present v \<Longrightarrow> own (table_of v) = Some (l - 1)"
  shows "mod_pte (entry b i) (\<lambda>_. v) s = Inr (s\<lparr>pt_heap := (pt_heap s)(entry b i \<mapsto> v)\<rparr>)"
    and "pt_inv own (s\<lparr>pt_heap := (pt_heap s)(entry b i \<mapsto> v)\<rparr>)"
    and "extends own s own (s\<lparr>pt_heap := (pt_heap s)(entry b i \<mapsto> v)\<rparr>)"
proof -
  let ?s = "s\<lparr>pt_heap := (pt_heap s)(entry b i \<mapsto> v)\<rparr>"
  obtain e where "pt_heap s (entry b i) = Some e" using table_entry [OF inv b] by metis
  then show "mod_pte (entry b i) (\<lambda>_. v) s = Inr ?s" by (simp add: mod_pte_def get_pte_def)
  have same: "entry d j = entry b i \<longleftrightarrow> d = b \<and> j = i" if "own d = Some k" "j < 512" for d j k
    using entry_inj that b pt_inv_table [OF inv b(1)] pt_inv_table [OF inv that(1)]
    by (simp add: table_ok_def)
  have "table_ok own ?s d k" if d: "own d = Some k" for d k
    using pt_inv_table [OF inv d] same [OF d] v b d
    by (auto simp: table_ok_def used_page_def)
  then show "pt_inv own ?s" using inv by (simp add: pt_inv_def mem_ok_def)
  show "extends own s own ?s" using same old by (auto simp: extends_def)
qed

subsection \<open>Steps\<close>

text \<open>What a walk leaves alone: all but memory and the allocator.\<close>

definition same_regs :: "vmstate \<Rightarrow> vmstate \<Rightarrow> bool" where
  "same_regs s s' \<longleftrightarrow>
     vm_kernPml4 s' = vm_kernPml4 s \<and> vm_kernPdpt s' = vm_kernPdpt s \<and> vm_kernPd s' = vm_kernPd s
     \<and> vm_kernPt s' = vm_kernPt s \<and> kernelHasMappedEnd s' = kernelHasMappedEnd s
     \<and> kernelSize s' = kernelSize s \<and> vm_cr3 s' = vm_cr3 s"

lemma same_regs_refl [simp]: "same_regs s s"
  by (simp add: same_regs_def)

lemma same_regs_trans: "same_regs s s1 \<Longrightarrow> same_regs s1 s2 \<Longrightarrow> same_regs s s2"
  by (simp add: same_regs_def)

lemma allocated_regs: "page_allocated s c s' \<Longrightarrow> same_regs s s'"
proof -
  assume "page_allocated s c s'"
  then obtain mb where "s' = clear_mem c 4096 (s\<lparr>boot_mem := mb\<rparr>)"
    by (auto simp: page_allocated_def)
  then show ?thesis by (simp add: same_regs_def clear_mem_def)
qed

lemma walk_step_present:
  "pt_heap s (entry b i) = Some e \<Longrightarrow> present e \<Longrightarrow> walk_step alloc b i s = Inr (Some (table_of e), s)"
  using present_p2v [of e]
  by (simp add: walk_step_def get_pte_def Let_def table_of_def present_def)

lemma walk_step_absent:
  "pt_heap s (entry b i) = Some e \<Longrightarrow> \<not> present e \<Longrightarrow> walk_step False b i s = Inr (None, s)"
  using present_p2v [of e]
  by (simp add: walk_step_def get_pte_def Let_def present_def)

text \<open>Clearing the first 512 bytes of a page that has just been cleared changes nothing.\<close>

lemma clear_again: "clear_mem c 512 (clear_mem c 4096 s) = clear_mem c 4096 s"
proof -
  have "a < 512 \<Longrightarrow> a < (4096 :: u64)" for a by (erule less_trans) simp
  then show ?thesis by (auto simp: clear_mem_def zero_words_def zero_bytes_def fun_eq_iff)
qed

text \<open>Memory in use stays in use, and its bytes stay.\<close>

definition bytes_kept :: "vmstate \<Rightarrow> vmstate \<Rightarrow> bool" where
  "bytes_kept s s' \<longleftrightarrow> in_use (boot_mem s) \<subseteq> in_use (boot_mem s')
     \<and> (\<forall>p. unat (v2p p) \<in> in_use (boot_mem s) \<longrightarrow> byte_heap s' p = byte_heap s p)"

lemma bytes_kept_refl [simp]: "bytes_kept s s"
  by (simp add: bytes_kept_def)

lemma bytes_kept_trans: "bytes_kept s s1 \<Longrightarrow> bytes_kept s1 s2 \<Longrightarrow> bytes_kept s s2"
  by (auto simp: bytes_kept_def subset_iff)

lemma allocated_bytes:
  assumes "page_allocated s c s'"
  shows "bytes_kept s s'"
proof -
  note alloc = assms [unfolded page_allocated_def]
  have heap: "byte_heap s' = zero_bytes c 4096 (byte_heap s)"
  proof -
    obtain mb where "s' = clear_mem c 4096 (s\<lparr>boot_mem := mb\<rparr>)" using alloc by blast
    then show ?thesis by (simp add: clear_mem_def)
  qed
  have "unat (v2p c) + unat PGSIZE \<le> 2 ^ 64"
    using page_below_end [of "v2p c"] alloc by (simp add: PGSIZE_def)
  from in_block_iff [OF this] have "\<not> p - c < 4096" if "unat (v2p p) \<in> in_use (boot_mem s)" for p
    using that alloc by (auto simp: PGSIZE_def)
  then show ?thesis using alloc by (simp add: bytes_kept_def heap zero_bytes_def)
qed

text \<open>A step with allocation ends in a table of the next level.\<close>

definition steps_to :: "tables \<Rightarrow> vmstate \<Rightarrow> nat \<Rightarrow> tables \<Rightarrow> vmstate \<Rightarrow> bool" where
  "steps_to own s n own' s' \<longleftrightarrow> pt_inv own' s' \<and> extends own s own' s' \<and> same_regs s s'
     \<and> bytes_kept s s' \<and> room (boot_mem s) \<le> room (boot_mem s') + n"

lemma steps_to_trans:
  "steps_to own s n own1 s1 \<Longrightarrow> steps_to own1 s1 k own2 s2 \<Longrightarrow> steps_to own s (n + k) own2 s2"
  using extends_trans [of own s own1 s1 own2 s2] same_regs_trans [of s s1 s2]
    bytes_kept_trans [of s s1 s2]
  by (auto simp: steps_to_def)

lemma walk_step_spec:
  assumes inv: "pt_inv own s" and b: "own b = Some l" "1 < l" "i < 512"
    and room: "0 < room (boot_mem s)"
  shows "\<exists>e own' s'. walk_step True b i s = Inr (Some (table_of e), s') \<and> own' (table_of e) = Some (l - 1)
      \<and> pt_heap s' (entry b i) = Some e \<and> present e \<and> steps_to own s 1 own' s'"
proof -
  obtain e where e: "pt_heap s (entry b i) = Some e" "present e \<Longrightarrow> own (table_of e) = Some (l - 1)"
    using table_entry [OF inv b(1,3)] b(2) by metis
  show ?thesis
  proof (cases "present e")
    case True
    then show ?thesis
      using walk_step_present [OF e(1) True, of True] e inv
      by (intro exI [of _ e] exI [of _ own] exI [of _ s]) (simp add: steps_to_def)
  next
    case False
    have absent: "p2v e AND PTE_P = 0" using False present_p2v [of e] by (simp add: present_def)
    have "mem_ok s" using inv by (simp add: pt_inv_def)
    from alloc_page_result [OF this room] show ?thesis
    proof (elim exE conjE)
      fix a s1 assume a: "vm_alloc PGSIZE PGSIZE s = Inr (a, s1)" "page_allocated s (p2v a) s1"
      let ?c = "p2v a" and ?v = "v2p (p2v a) OR PTE_P OR PTE_W OR PTE_U"
      note c = a(2) [unfolded page_allocated_def]
      have clear: "clear_mem ?c 512 s1 = s1" using c clear_again by metis
      have flags: "?v = v2p ?c OR 7" by (simp add: PTE_P_def PTE_W_def PTE_U_def or.assoc)
      have tab: "table_of ?v = ?c"
        unfolding flags using c by (intro table_of_entry) simp_all
      have pres: "present ?v" by (simp add: present_bit PTE_P_def bit_simps)
      let ?own = "own(?c \<mapsto> l - 1)"
      have none: "own ?c = None" using allocated_tables(1) [OF inv a(2)] .
      have inv1: "pt_inv ?own s1" using new_table(1) [OF inv a(2)] .
      have b1: "?own b = Some l" using none b(1) by auto
      have "pt_heap s1 (entry b i) = Some e"
        using allocated_tables(3) [OF inv a(2) b(1,3)] e(1) by simp
      then have old: "\<And>e'. pt_heap s1 (entry b i) = Some e' \<Longrightarrow> \<not> present e'" using False by simp
      let ?s2 = "s1\<lparr>pt_heap := (pt_heap s1)(entry b i \<mapsto> ?v)\<rparr>"
      have "?own (table_of ?v) = Some (l - 1)" unfolding tab by simp
      note set = set_entry [OF inv1 b1 b(3) old, of ?v, OF _ this]
      have "walk_step True b i s = Inr (Some ?c, ?s2)"
        using e(1) absent a(1) c set(1) clear PTE_ADDR_page [of ?c]
        by (simp add: walk_step_def get_pte_def vm_alloc_kernel_def Let_def)
      moreover have "extends own s ?own ?s2"
        by (rule extends_trans [OF new_table(2) [OF inv a(2)] set(3)])
      moreover have "same_regs s ?s2"
        using allocated_regs [OF a(2)] by (simp add: same_regs_def)
      moreover have "bytes_kept s ?s2" using allocated_bytes [OF a(2)] by (simp add: bytes_kept_def)
      ultimately show ?thesis
        using tab pres set(2) c
        by (intro exI [of _ ?v] exI [of _ ?own] exI [of _ ?s2] conjI)
          (simp_all add: steps_to_def del: fun_upd_apply, simp_all)
    qed
  qed
qed

subsection \<open>Paths and translations\<close>

text \<open>The page table that the entries for \<open>va\<close> lead to, and the present entry for \<open>va\<close> in it.\<close>

definition path :: "vmstate \<Rightarrow> u64 \<Rightarrow> u64 \<Rightarrow> u64 \<Rightarrow> bool" where
  "path s pml4 va pt \<longleftrightarrow> (\<exists>e1 e2 e3.
     pt_heap s (entry pml4 (PML4X va)) = Some e1 \<and> present e1
     \<and> pt_heap s (entry (table_of e1) (PDPTX va)) = Some e2 \<and> present e2
     \<and> pt_heap s (entry (table_of e2) (PDX va)) = Some e3 \<and> present e3 \<and> pt = table_of e3)"

definition maps :: "vmstate \<Rightarrow> u64 \<Rightarrow> u64 \<Rightarrow> u64 \<Rightarrow> bool" where
  "maps s pml4 va e \<longleftrightarrow>
     (\<exists>pt. path s pml4 va pt \<and> pt_heap s (entry pt (PTX va)) = Some e \<and> present e)"

lemma path_walk: "path s pml4 va pt \<Longrightarrow> walk_tables alloc pml4 va s = Inr (Some pt, s)"
  by (auto simp: path_def walk_tables_def bind_walk_def walk_step_present)

lemma maps_walk:
  "maps s pml4 va e \<Longrightarrow> page_walk pml4 va alloc s = Inr ((e AND 0xFFFFFFFFFFFFF000) OR OFFSET va, s)"
  by (auto simp: maps_def page_walk_def path_walk get_pte_def)

lemma maps_unique: "maps s pml4 va e \<Longrightarrow> maps s pml4 va e' \<Longrightarrow> e = e'"
  by (auto simp: maps_def path_def)

text \<open>The tables on a path, by their levels.\<close>

lemma path_tables:
  assumes inv: "pt_inv own s" and root: "own pml4 = Some 4" and p: "path s pml4 va pt"
  obtains e1 e2 e3 where
    "pt_heap s (entry pml4 (PML4X va)) = Some e1" "present e1" "own (table_of e1) = Some 3"
    "pt_heap s (entry (table_of e1) (PDPTX va)) = Some e2" "present e2" "own (table_of e2) = Some 2"
    "pt_heap s (entry (table_of e2) (PDX va)) = Some e3" "present e3"
    "pt = table_of e3" "own pt = Some 1"
proof -
  obtain e1 e2 e3 where e: "pt_heap s (entry pml4 (PML4X va)) = Some e1" "present e1"
      "pt_heap s (entry (table_of e1) (PDPTX va)) = Some e2" "present e2"
      "pt_heap s (entry (table_of e2) (PDX va)) = Some e3" "present e3" "pt = table_of e3"
    using p by (auto simp: path_def)
  have o1: "own (table_of e1) = Some 3"
    by (rule table_next [OF inv root _ _ index_bounds(1) e(1,2)]) simp_all
  have o2: "own (table_of e2) = Some 2"
    by (rule table_next [OF inv o1 _ _ index_bounds(2) e(3,4)]) simp_all
  have "own (table_of e3) = Some 1"
    by (rule table_next [OF inv o2 _ _ index_bounds(3) e(5,6)]) simp_all
  then show thesis using that [OF e(1,2) o1 e(3,4) o2 e(5,6,7)] e(7) by simp
qed

text \<open>Growing tables keep every path and every translation.\<close>

lemma extends_entry:
  "extends own s own' s' \<Longrightarrow> own b = Some l \<Longrightarrow> i < 512 \<Longrightarrow> pt_heap s (entry b i) = Some e \<Longrightarrow>
    present e \<Longrightarrow> pt_heap s' (entry b i) = Some e"
  by (auto simp: extends_def)

lemma path_extends:
  assumes inv: "pt_inv own s" and root: "own pml4 = Some 4" and p: "path s pml4 va pt"
    and ext: "extends own s own' s'"
  shows "path s' pml4 va pt"
proof -
  obtain e1 e2 e3 where e: "pt_heap s (entry pml4 (PML4X va)) = Some e1" "present e1"
      "own (table_of e1) = Some 3"
      "pt_heap s (entry (table_of e1) (PDPTX va)) = Some e2" "present e2" "own (table_of e2) = Some 2"
      "pt_heap s (entry (table_of e2) (PDX va)) = Some e3" "present e3" "pt = table_of e3"
    using path_tables [OF inv root p] by metis
  have "pt_heap s' (entry pml4 (PML4X va)) = Some e1"
    by (rule extends_entry [OF ext root index_bounds(1) e(1,2)])
  moreover have "pt_heap s' (entry (table_of e1) (PDPTX va)) = Some e2"
    by (rule extends_entry [OF ext e(3) index_bounds(2) e(4,5)])
  moreover have "pt_heap s' (entry (table_of e2) (PDX va)) = Some e3"
    by (rule extends_entry [OF ext e(6) index_bounds(3) e(7,8)])
  ultimately show ?thesis using e by (auto simp: path_def)
qed

lemma path_level:
  assumes "pt_inv own s" "own pml4 = Some 4" "path s pml4 va pt"
  shows "own pt = Some 1"
  using path_tables [OF assms] by metis

lemma maps_extends:
  assumes inv: "pt_inv own s" and root: "own pml4 = Some 4" and m: "maps s pml4 va e"
    and ext: "extends own s own' s'"
  shows "maps s' pml4 va e"
proof -
  obtain pt where pt: "path s pml4 va pt" "pt_heap s (entry pt (PTX va)) = Some e" "present e"
    using m by (auto simp: maps_def)
  have "pt_heap s' (entry pt (PTX va)) = Some e"
    by (rule extends_entry [OF ext path_level [OF inv root pt(1)] index_bounds(4) pt(2,3)])
  then show ?thesis using path_extends [OF inv root pt(1) ext] pt(3) by (auto simp: maps_def)
qed

subsection \<open>The walk with allocation\<close>

lemma bind_walk_simps [simp]:
  "bind_walk (Inl x) f = Inl x" "bind_walk (Inr (None, s)) f = Inr (None, s)"
  "bind_walk (Inr (Some a, s)) f = f a s"
  by (simp_all add: bind_walk_def)

lemma walk_tables_spec:
  assumes inv: "pt_inv own s" and root: "own pml4 = Some 4" and room: "3 \<le> room (boot_mem s)"
  shows "\<exists>pt own' s'. walk_tables True pml4 va s = Inr (Some pt, s') \<and> own' pt = Some 1
      \<and> path s' pml4 va pt \<and> steps_to own s 3 own' s'"
proof -
  have r: "0 < room (boot_mem s)" using room by simp
  obtain e1 own1 s1 where 1: "walk_step True pml4 (PML4X va) s = Inr (Some (table_of e1), s1)"
      "own1 (table_of e1) = Some (4 - 1)" "pt_heap s1 (entry pml4 (PML4X va)) = Some e1" "present e1"
      "steps_to own s 1 own1 s1"
    using walk_step_spec [OF inv root _ index_bounds(1) [of va] r] by auto
  have inv1: "pt_inv own1 s1" and r1: "2 \<le> room (boot_mem s1)" and root1: "own1 pml4 = Some 4"
    using 1(5) room root extends_own by (auto simp: steps_to_def)
  have r1': "0 < room (boot_mem s1)" using r1 by simp
  obtain e2 own2 s2 where 2: "walk_step True (table_of e1) (PDPTX va) s1 = Inr (Some (table_of e2), s2)"
      "own2 (table_of e2) = Some (4 - 1 - 1)" "pt_heap s2 (entry (table_of e1) (PDPTX va)) = Some e2"
      "present e2" "steps_to own1 s1 1 own2 s2"
    using walk_step_spec [OF inv1 1(2) _ index_bounds(2) [of va] r1'] by auto
  have inv2: "pt_inv own2 s2" and r2: "0 < room (boot_mem s2)" and root2: "own2 pml4 = Some 4"
    using 2(5) r1 root1 extends_own by (auto simp: steps_to_def)
  obtain e3 own3 s3 where 3: "walk_step True (table_of e2) (PDX va) s2 = Inr (Some (table_of e3), s3)"
      "own3 (table_of e3) = Some (4 - 1 - 1 - 1)" "pt_heap s3 (entry (table_of e2) (PDX va)) = Some e3"
      "present e3" "steps_to own2 s2 1 own3 s3"
    using walk_step_spec [OF inv2 2(2) _ index_bounds(3) [of va] r2] by auto
  have ext: "extends own1 s1 own2 s2" "extends own2 s2 own3 s3"
    using 2(5) 3(5) by (simp_all add: steps_to_def)
  have "pt_heap s3 (entry pml4 (PML4X va)) = Some e1"
    by (rule extends_entry [OF extends_trans [OF ext] root1 index_bounds(1) 1(3,4)])
  moreover have "own2 (table_of e1) = Some 3"
    using extends_own [OF ext(1) 1(2)] by simp
  then have "pt_heap s3 (entry (table_of e1) (PDPTX va)) = Some e2"
    by (rule extends_entry [OF ext(2) _ index_bounds(2) 2(3,4)])
  ultimately have "path s3 pml4 va (table_of e3)" using 1(4) 2(4) 3(3,4) by (auto simp: path_def)
  moreover have "steps_to own s 3 own3 s3"
    using steps_to_trans [OF steps_to_trans [OF 1(5) 2(5)] 3(5)] by (simp add: numeral_3_eq_3)
  moreover have "walk_tables True pml4 va s = Inr (Some (table_of e3), s3)"
    using 1(1) 2(1) 3(1) by (simp add: walk_tables_def)
  ultimately show ?thesis using 3(2) by (intro exI conjI) simp_all
qed

subsection \<open>Mapping\<close>

lemma entry_not_null: "page_base b \<Longrightarrow> b \<noteq> 0 \<Longrightarrow> i < 512 \<Longrightarrow> entry b i \<noteq> 0"
  using entry_page [of b i] by auto

lemma present_pte [simp]: "present (pa OR perm OR PTE_P)"
  by (simp add: present_bit PTE_P_def bit_simps)

lemma map_page_spec:
  assumes inv: "pt_inv own s" and root: "own pml4 = Some 4" and room: "3 \<le> room (boot_mem s)"
  shows "map_page pml4 va pa perm s = Inl (Panic ''remap'')
    \<or> (\<exists>own' s'. map_page pml4 va pa perm s = Inr (True, s')
        \<and> maps s' pml4 va (pa OR perm OR PTE_P) \<and> steps_to own s 3 own' s')"
  using walk_tables_spec [OF assms, of va]
proof (elim exE conjE)
  fix pt own1 s1
  assume w: "walk_tables True pml4 va s = Inr (Some pt, s1)" "own1 pt = Some 1" "path s1 pml4 va pt"
    "steps_to own s 3 own1 s1"
  then have inv1: "pt_inv own1 s1" by (simp add: steps_to_def)
  have root1: "own1 pml4 = Some 4" using extends_own [of own s own1 s1] root w(4) by (simp add: steps_to_def)
  have nz: "entry pt (PTX va) \<noteq> 0"
    using pt_inv_table [OF inv1 w(2)] entry_not_null index_bounds(4) by (simp add: table_ok_def)
  obtain e where e: "pt_heap s1 (entry pt (PTX va)) = Some e"
    using table_entry [OF inv1 w(2) index_bounds(4)] by metis
  have run: "map_page pml4 va pa perm s = (if present e then Inl (Panic ''remap'')
      else bind_ok (mod_pte (entry pt (PTX va)) (\<lambda>_. pa OR perm OR PTE_P) s1) (\<lambda>s. Inr (True, s)))"
    using w(1) nz e by (simp add: map_page_def page_walk_return_pte_def get_pte_def present_def)
  show ?thesis
  proof (cases "present e")
    case True
    with run show ?thesis by simp
  next
    case False
    then have old: "\<And>e'. pt_heap s1 (entry pt (PTX va)) = Some e' \<Longrightarrow> \<not> present e'" using e by simp
    let ?v = "pa OR perm OR PTE_P"
    let ?s = "s1\<lparr>pt_heap := (pt_heap s1)(entry pt (PTX va) \<mapsto> ?v)\<rparr>"
    have set: "mod_pte (entry pt (PTX va)) (\<lambda>_. ?v) s1 = Inr ?s" "pt_inv own1 ?s" "extends own1 s1 own1 ?s"
      by (rule set_entry [OF inv1 w(2) index_bounds(4) old]; simp)+
    have "path ?s pml4 va pt" by (rule path_extends [OF inv1 root1 w(3) set(3)])
    then have "maps ?s pml4 va ?v" by (simp add: maps_def) (metis present_pte fun_upd_same)
    moreover have "steps_to own1 s1 0 own1 ?s" using set by (simp add: steps_to_def same_regs_def bytes_kept_def)
    then have "steps_to own s 3 own1 ?s" using steps_to_trans [OF w(4)] by fastforce
    ultimately show ?thesis using run set(1) False by auto
  qed
qed

text \<open>A page that is mapped cannot be mapped again.\<close>

lemma map_page_mapped:
  assumes inv: "pt_inv own s" and root: "own pml4 = Some 4" and m: "maps s pml4 va e"
  shows "map_page pml4 va pa perm s = Inl (Panic ''remap'')"
proof -
  obtain pt where pt: "path s pml4 va pt" "pt_heap s (entry pt (PTX va)) = Some e" "present e"
    using m by (auto simp: maps_def)
  have "entry pt (PTX va) \<noteq> 0"
    using pt_inv_table [OF inv path_level [OF inv root pt(1)]] entry_not_null index_bounds(4)
    by (simp add: table_ok_def)
  with pt show ?thesis
    by (simp add: map_page_def page_walk_return_pte_def path_walk get_pte_def present_def)
qed

lemma map_loop_spec:
  "pt_inv own s \<Longrightarrow> own pml4 = Some 4 \<Longrightarrow> 3 * Suc n \<le> room (boot_mem s) \<Longrightarrow>
    map_loop n pml4 va pa perm s = Inl (Panic ''remap'')
    \<or> (\<exists>own' s'. map_loop n pml4 va pa perm s = Inr (0, s') \<and> steps_to own s (3 * Suc n) own' s'
        \<and> (\<forall>k\<le>n. maps s' pml4 (va + of_nat k * PGSIZE) ((pa + of_nat k * PGSIZE) OR perm OR PTE_P)))"
proof (induction n arbitrary: own s va pa)
  case 0
  then have "3 \<le> room (boot_mem s)" by simp
  from map_page_spec [OF 0(1,2) this, of va pa perm] show ?case by auto
next
  case (Suc n)
  then have "3 \<le> room (boot_mem s)" by simp
  from map_page_spec [OF Suc.prems(1,2) this, of va pa perm] show ?case
  proof (elim disjE exE conjE)
    fix own1 s1
    assume 1: "map_page pml4 va pa perm s = Inr (True, s1)" "maps s1 pml4 va (pa OR perm OR PTE_P)"
      "steps_to own s 3 own1 s1"
    then have inv1: "pt_inv own1 s1" and root1: "own1 pml4 = Some 4"
      and room1: "3 * Suc n \<le> room (boot_mem s1)"
      using Suc.prems(2,3) extends_own [of own s own1 s1] by (auto simp: steps_to_def)
    have run: "map_loop (Suc n) pml4 va pa perm s = map_loop n pml4 (va + PGSIZE) (pa + PGSIZE) perm s1"
      using 1(1) by simp
    from Suc.IH [OF inv1 root1 room1, of "va + PGSIZE" "pa + PGSIZE"] show ?thesis
    proof (elim disjE exE conjE)
      fix own2 s2
      assume 2: "map_loop n pml4 (va + PGSIZE) (pa + PGSIZE) perm s1 = Inr (0, s2)"
        "steps_to own1 s1 (3 * Suc n) own2 s2"
        "\<forall>k\<le>n. maps s2 pml4 (va + PGSIZE + of_nat k * PGSIZE)
          ((pa + PGSIZE + of_nat k * PGSIZE) OR perm OR PTE_P)"
      have "extends own1 s1 own2 s2" using 2(2) by (simp add: steps_to_def)
      then have first: "maps s2 pml4 va (pa OR perm OR PTE_P)"
        by (rule maps_extends [OF inv1 root1 1(2)])
      have "maps s2 pml4 (va + of_nat k * PGSIZE) ((pa + of_nat k * PGSIZE) OR perm OR PTE_P)"
        if "k \<le> Suc n" for k
      proof (cases k)
        case 0
        with first show ?thesis by simp
      next
        case (Suc j)
        then show ?thesis using 2(3) that by (simp add: algebra_simps)
      qed
      moreover have "steps_to own s (3 * Suc (Suc n)) own2 s2"
        using steps_to_trans [OF 1(3) 2(2)] by simp
      ultimately show ?thesis
        using run 2(1) by (intro disjI2 exI [of _ own2] exI [of _ s2] conjI allI impI) simp_all
    qed (use run in simp_all)
  qed simp_all
qed

text \<open>How many pages \<open>map_pages\<close> maps.\<close>

lemma map_pages_count:
  assumes "page_base va" "unat sz = 4096 * k" "0 < k" "unat va + unat sz \<le> 2 ^ 64"
  shows "map_pages pml4 va sz pa perm s = map_loop (k - 1) pml4 va pa perm s"
proof -
  have down: "PGROUNDDOWN (b + x) = b" if "page_base b" "x < 4096" for b x
    using in_page(2) [OF that] by (simp add: PGROUNDDOWN_def PGSIZE_def)
  have first: "PGROUNDDOWN va = va" using down [OF assms(1), of 0] by simp
  have sz: "page_base sz" "4096 \<le> sz" using assms(2,3) by (simp_all add: page_base_dvd word_le_nat_alt)
  have "page_base (4096 :: u64)" by (simp add: page_base_def)
  then have "page_base (va + sz - 4096)" using page_base_diff page_base_add assms(1) sz(1) by simp
  from down [OF this, of 4095] have "PGROUNDDOWN (va + sz - 1) = va + sz - 4096" by simp
  moreover have "unat (sz - 4096) = 4096 * (k - 1)"
    using sz(2) assms(2) by (simp add: unat_diff diff_mult_distrib2)
  then have "unat (drop_bit 12 (sz - 4096)) = k - 1"
    by (simp only: unat_drop_bit_eq) (simp add: drop_bit_eq_div)
  ultimately show ?thesis unfolding map_pages_def first Let_def by simp
qed

subsection \<open>Allocating memory for a user\<close>

text \<open>How many pages a size takes.\<close>

definition pages :: "u64 \<Rightarrow> nat" where "pages sz = (unat sz + 4095) div 4096"

lemma le_pages: "unat sz \<le> 4096 * pages sz" "0 < unat sz \<Longrightarrow> 0 < pages sz"
  by (simp_all add: pages_def)

text \<open>A block of any size: it is cleared, and apart from all tables.\<close>

definition data_allocated :: "tables \<Rightarrow> vmstate \<Rightarrow> u64 \<Rightarrow> u64 \<Rightarrow> vmstate \<Rightarrow> bool" where
  "data_allocated own s sz a s' \<longleftrightarrow> page_base a \<and> unat a + unat sz \<le> 2 ^ 31
     \<and> block a sz \<inter> in_use (boot_mem s) = {} \<and> block a sz \<subseteq> in_use (boot_mem s')
     \<and> (\<forall>i<unat sz. byte_heap s' (p2v a + of_nat i) = Some 0)
     \<and> (\<forall>p. v2p p \<notin> {a..<a + sz} \<longrightarrow> byte_heap s' p = byte_heap s p)
     \<and> steps_to own s (pages sz) own s'"

lemma alloc_data:
  assumes inv: "pt_inv own s" and sz: "0 < unat sz" and room: "pages sz \<le> room (boot_mem s)"
  shows "\<exists>a s'. vm_alloc sz PGSIZE s = Inr (a, s') \<and> data_allocated own s sz a s'"
proof -
  let ?mb = "boot_mem s"
  have ok: "mb_ok ?mb" "all_memory ?mb \<subseteq> {0..<2 ^ 31}" using inv by (simp_all add: pt_inv_def mem_ok_def)
  from alloc_succeeds [OF ok(1) sz le_pages(1) room] show ?thesis
  proof (elim exE conjE)
    fix a mb'
    assume a: "memblock_alloc_base sz PGSIZE MEMBLOCK_ALLOC_ACCESSIBLE ?mb = Inr (a, mb')"
      "good_block sz PGSIZE ?mb a" "mb_ok mb'" "mb_memory mb' = mb_memory ?mb"
      "in_use mb' = in_use ?mb \<union> block a sz" "room ?mb \<le> room mb' + pages sz"
    have "unat a + unat sz - 1 \<in> block a sz" using sz by (auto simp: block_def)
    then have lim: "unat a + unat sz \<le> 2 ^ 31" using a(2) ok(2) sz by (force simp: good_block_def)
    then have tb: "take_bit 32 sz = sz"
      by (simp add: word_unat_eq_iff unsigned_take_bit_eq take_bit_nat_eq_self)
    let ?s = "clear_mem (p2v a) sz (s\<lparr>boot_mem := mb'\<rparr>)"
    have run: "vm_alloc sz PGSIZE s = Inr (a, ?s)"
      using a(1) by (simp add: vm_alloc_def memblock_alloc_def tb)
    have boot: "boot_mem ?s = mb'" by (simp add: clear_mem_def)
    have base: "page_base a" using a(2) by (simp add: good_block_def page_base_def PGSIZE_def)
    have in_block: "unat (v2p p) \<in> block a sz \<longleftrightarrow> p - p2v a < sz" for p
      using lim by (intro in_block_iff) simp
    have same: "pt_heap ?s (entry b i) = pt_heap s (entry b i)" if b: "own b = Some l" "i < 512" for b l i
    proof -
      have t: "page_base b" "block (v2p b) PGSIZE \<subseteq> in_use ?mb"
        using pt_inv_table [OF inv b(1)] by (simp_all add: table_ok_def used_page_def)
      have "v2p (entry b i) = v2p b + 8 * i" by (simp add: entry_def v2p_def)
      then have "unat (v2p (entry b i)) \<in> block (v2p b) PGSIZE"
        using in_page_unat [of "v2p b" "8 * i"] t(1) entry_offset [OF b(2)]
        by (simp add: block_def PGSIZE_def word_less_nat_alt)
      then have "unat (v2p (entry b i)) \<notin> block a sz" using t(2) a(2) by (auto simp: good_block_def)
      then have "\<not> entry b i - p2v a < sz" using in_block by blast
      then show ?thesis by (simp add: clear_mem_def zero_words_def)
    qed
    have "table_ok own ?s b l" if "own b = Some l" for b l
      using pt_inv_table [OF inv that] same [OF that] a(5) boot
      by (auto simp: table_ok_def used_page_def)
    moreover have "mem_ok ?s" using a(3,4) ok(2) boot by (simp add: mem_ok_def all_memory_def)
    ultimately have "pt_inv own ?s" by (simp add: pt_inv_def)
    moreover have "extends own s own ?s" using same by (auto simp: extends_def)
    moreover have "same_regs s ?s" by (simp add: same_regs_def clear_mem_def)
    moreover have "bytes_kept s ?s"
      unfolding bytes_kept_def boot
    proof (intro conjI allI impI)
      show "in_use ?mb \<subseteq> in_use mb'" using a(5) by simp
      show "byte_heap ?s p = byte_heap s p" if "unat (v2p p) \<in> in_use ?mb" for p
        using in_block [of p] that a(2) by (auto simp: good_block_def clear_mem_def zero_bytes_def)
    qed
    ultimately have "steps_to own s (pages sz) own ?s" using a(6) boot by (simp add: steps_to_def)
    moreover have "\<forall>i<unat sz. byte_heap ?s (p2v a + of_nat i) = Some 0"
      using lim by (simp add: clear_mem_def zero_bytes_def word_less_nat_alt unat_of_nat)
    moreover have "byte_heap ?s p = byte_heap s p" if "v2p p \<notin> {a..<a + sz}" for p
    proof -
      have "unat (a + sz) = unat a + unat sz" using lim by (simp add: unat_word_ariths)
      then have "unat (v2p p) \<notin> block a sz"
        using that by (auto simp: block_def word_le_nat_alt word_less_nat_alt)
      then show ?thesis using in_block by (simp add: clear_mem_def zero_bytes_def)
    qed
    ultimately have "data_allocated own s sz a ?s"
      using base lim a(2,5) boot by (auto simp: data_allocated_def good_block_def)
    with run show ?thesis by blast
  qed
qed

end
