(* ===== verification/VmUser.thy ===== *)
theory VmUser
  imports VmSpec
begin

text \<open>
  User memory: growing an address space with \<open>alloc_uvm\<close> and filling it with \<open>copy_uvm\<close>
  (\<open>src/kernel/vm.c\<close>).
\<close>

subsection \<open>Rounding\<close>

lemma PGROUNDDOWN_page [simp]: "page_base (PGROUNDDOWN a)"
  by (simp add: page_base_def PGROUNDDOWN_def PGSIZE_def mask12)
    (auto intro!: bit_word_eqI simp: bit_simps)

lemma PGROUNDDOWN_offset: "a = PGROUNDDOWN a + (a AND 0xFFF)"
  using page_offset [of a] by (metis add.commute diff_add_cancel)

lemma offset_less: "a AND 0xFFF < (4096 :: u64)"
  using word_and_le1 [of a "0xFFF"] by (auto simp: word_le_nat_alt word_less_nat_alt)

lemma PGROUNDUP_unat:
  assumes "unat sz + 4095 < 2 ^ 64"
  shows "unat (PGROUNDUP sz) = 4096 * pages sz" and "page_base (PGROUNDUP sz)"
proof -
  have up: "PGROUNDUP sz = PGROUNDDOWN (sz + 4095)"
    by (simp add: PGROUNDUP_def PGROUNDDOWN_def PGSIZE_def)
  show base: "page_base (PGROUNDUP sz)" unfolding up by simp
  let ?x = "sz + 4095"
  have x: "unat ?x = unat sz + 4095" using assms by (simp add: unat_word_ariths)
  have "unat ?x = unat (PGROUNDDOWN ?x) + unat (?x AND 0xFFF)"
    using in_page_unat [OF PGROUNDDOWN_page offset_less, of ?x ?x] PGROUNDDOWN_offset [of ?x] by simp
  moreover obtain q where q: "unat (PGROUNDDOWN ?x) = 4096 * q"
    using PGROUNDDOWN_page [of ?x] by (auto simp: page_base_dvd)
  moreover have "unat (?x AND 0xFFF) < 4096" using offset_less by (simp add: word_less_nat_alt)
  ultimately have "q = (unat sz + 4095) div 4096" using x by simp
  then show "unat (PGROUNDUP sz) = 4096 * pages sz" using q up by (simp add: pages_def)
qed

subsection \<open>Growing\<close>

abbreviation user_pte :: "u64 \<Rightarrow> u64" where "user_pte pa \<equiv> pa OR (PTE_W OR PTE_U) OR PTE_P"

lemma uvm_loop_spec:
  "pt_inv own s \<Longrightarrow> own pml4 = Some 4 \<Longrightarrow> 3 * n \<le> room (boot_mem s) \<Longrightarrow> n < fuel \<Longrightarrow>
    page_base old \<Longrightarrow> unat old + 4096 * n < 2 ^ 64 \<Longrightarrow> unat new \<le> unat old + 4096 * n \<Longrightarrow>
    (0 < n \<Longrightarrow> unat old + 4096 * (n - 1) < unat new) \<Longrightarrow>
    uvm_loop fuel pml4 old new mem s = Inl (Panic ''remap'')
    \<or> (\<exists>own' s'. uvm_loop fuel pml4 old new mem s = Inr (Some s') \<and> steps_to own s (3 * n) own' s'
        \<and> (\<forall>k<n. maps s' pml4 (old + of_nat k * PGSIZE) (user_pte (mem + of_nat k * PGSIZE))))"
proof (induction n arbitrary: fuel own s old mem)
  case 0
  then obtain f where f: "fuel = Suc f" by (cases fuel) auto
  have "\<not> old < new" using "0.prems"(7) by (simp add: word_less_nat_alt)
  then show ?case using f "0.prems"(1)
    by (intro disjI2 exI [of _ own] exI [of _ s]) (simp add: steps_to_def)
next
  case (Suc n)
  then obtain f where f: "fuel = Suc f" "n < f" by (cases fuel) auto
  have "unat old < unat new" using Suc.prems(8) by simp
  then have "old < new" by (simp add: word_less_nat_alt)
  let ?map = "map_pages pml4 old PGSIZE mem (PTE_W OR PTE_U) s"
  have run: "uvm_loop fuel pml4 old new mem s
      = bind_ok ?map (\<lambda>(_, s). uvm_loop f pml4 (old + PGSIZE) new (mem + PGSIZE) s)"
    using f \<open>old < new\<close> by simp
  have one: "?map = map_loop 0 pml4 old mem (PTE_W OR PTE_U) s"
    using map_pages_count [OF Suc.prems(5), of PGSIZE 1] Suc.prems(6) by (simp add: PGSIZE_def)
  have room: "3 * Suc 0 \<le> room (boot_mem s)" using Suc.prems(3) by simp
  have up: "unat (old + PGSIZE) = unat old + 4096"
    using Suc.prems(6) by (simp add: PGSIZE_def unat_word_ariths)
  from map_loop_spec [OF Suc.prems(1,2) room, of old mem "PTE_W OR PTE_U"] show ?case
    unfolding one [symmetric]
  proof (elim disjE exE conjE)
    fix own1 s1
    assume 1: "?map = Inr (0, s1)" "steps_to own s (3 * Suc 0) own1 s1"
      "\<forall>k\<le>0. maps s1 pml4 (old + of_nat k * PGSIZE) (user_pte (mem + of_nat k * PGSIZE))"
    then have inv1: "pt_inv own1 s1" and root1: "own1 pml4 = Some 4"
      and room1: "3 * n \<le> room (boot_mem s1)"
      using Suc.prems(2,3) extends_own [of own s own1 s1] by (auto simp: steps_to_def)
    have "uvm_loop f pml4 (old + PGSIZE) new (mem + PGSIZE) s1 = Inl (Panic ''remap'')
      \<or> (\<exists>own' s'. uvm_loop f pml4 (old + PGSIZE) new (mem + PGSIZE) s1 = Inr (Some s')
        \<and> steps_to own1 s1 (3 * n) own' s'
        \<and> (\<forall>k<n. maps s' pml4 (old + PGSIZE + of_nat k * PGSIZE)
             (user_pte (mem + PGSIZE + of_nat k * PGSIZE))))"
    proof (rule Suc.IH [OF inv1 root1 room1 f(2)])
      show "page_base (old + PGSIZE)" using Suc.prems(5) by (intro page_base_add) simp_all
      show "unat (old + PGSIZE) + 4096 * n < 2 ^ 64" using Suc.prems(6) up by simp
      show "unat new \<le> unat (old + PGSIZE) + 4096 * n" using Suc.prems(7) up by simp
      show "unat (old + PGSIZE) + 4096 * (n - 1) < unat new" if "0 < n"
        using Suc.prems(8) up that by (cases n) simp_all
    qed
    then show ?thesis
    proof (elim disjE exE conjE)
      fix own2 s2
      assume 2: "uvm_loop f pml4 (old + PGSIZE) new (mem + PGSIZE) s1 = Inr (Some s2)"
        "steps_to own1 s1 (3 * n) own2 s2"
        "\<forall>k<n. maps s2 pml4 (old + PGSIZE + of_nat k * PGSIZE)
             (user_pte (mem + PGSIZE + of_nat k * PGSIZE))"
      have ext: "extends own1 s1 own2 s2" using 2(2) by (simp add: steps_to_def)
      have "maps s1 pml4 old (user_pte mem)" using 1(3) by simp
      from maps_extends [OF inv1 root1 this ext] have first: "maps s2 pml4 old (user_pte mem)" .
      have "maps s2 pml4 (old + of_nat k * PGSIZE) (user_pte (mem + of_nat k * PGSIZE))"
        if "k < Suc n" for k
      proof (cases k)
        case 0
        with first show ?thesis by simp
      next
        case (Suc j)
        then show ?thesis using 2(3) that by (simp add: algebra_simps)
      qed
      moreover have "steps_to own s (3 * Suc n) own2 s2" using steps_to_trans [OF 1(2) 2(2)] by simp
      ultimately show ?thesis
        using run 1(1) 2(1) by (intro disjI2 exI [of _ own2] exI [of _ s2] conjI allI impI) simp_all
    qed (use run 1(1) in simp_all)
  qed (use run in simp_all)
qed

text \<open>The new pages are mapped to consecutive pages of one cleared block that was not in use.\<close>

lemma alloc_uvm_spec:
  assumes inv: "pt_inv own s" and root: "own pml4 = Some 4"
    and sz: "oldSize < newSize" "unat newSize + 8192 \<le> 2 ^ 64"
    and room: "pages (newSize - oldSize) + 3 * (pages newSize - pages oldSize) \<le> room (boot_mem s)"
    and fuel: "pages newSize - pages oldSize < fuel"
  shows "alloc_uvm fuel pml4 oldSize newSize s = Inl (Panic ''remap'')
    \<or> (\<exists>mem s1 own' s'. alloc_uvm fuel pml4 oldSize newSize s
            = Inr (Some (sint (ucast newSize :: u32), s'))
        \<and> data_allocated own s (newSize - oldSize) mem s1
        \<and> steps_to own s1 (3 * (pages newSize - pages oldSize)) own' s'
        \<and> (\<forall>k<pages newSize - pages oldSize.
             maps s' pml4 (PGROUNDUP oldSize + of_nat k * PGSIZE) (user_pte (mem + of_nat k * PGSIZE))))"
proof -
  let ?n = "pages newSize - pages oldSize" and ?old = "PGROUNDUP oldSize"
  have lt: "unat oldSize < unat newSize" using sz(1) by (simp add: word_less_nat_alt)
  then have d: "0 < unat (newSize - oldSize)" using sz(1) by (simp add: unat_diff)
  have r: "pages (newSize - oldSize) \<le> room (boot_mem s)" using room by simp
  have nlt: "\<not> newSize < oldSize" using sz(1) by simp
  have up: "unat ?old = 4096 * pages oldSize" "page_base ?old"
    using PGROUNDUP_unat [of oldSize] lt sz(2) by simp_all
  have mono: "pages oldSize \<le> pages newSize" using lt by (simp add: pages_def div_le_mono)
  then have sum: "4096 * pages oldSize + 4096 * ?n = 4096 * pages newSize" by simp
  have new: "unat newSize \<le> 4096 * pages newSize" "4096 * pages newSize < unat newSize + 4096"
    by (simp_all add: pages_def)
  from alloc_data [OF inv d r] show ?thesis
  proof (elim exE conjE)
    fix mem s1
    assume 1: "vm_alloc (newSize - oldSize) PGSIZE s = Inr (mem, s1)"
      "data_allocated own s (newSize - oldSize) mem s1"
    then have inv1: "pt_inv own s1" and room1: "3 * ?n \<le> room (boot_mem s1)"
      using room by (auto simp: data_allocated_def steps_to_def)
    have run: "alloc_uvm fuel pml4 oldSize newSize s
        = bind_ok (uvm_loop fuel pml4 ?old newSize mem s1) (\<lambda>r.
            Inr (map_option (\<lambda>s. (sint (ucast newSize :: u32), s)) r))"
      using nlt 1(1) by (simp add: alloc_uvm_def)
    have "uvm_loop fuel pml4 ?old newSize mem s1 = Inl (Panic ''remap'')
      \<or> (\<exists>own' s'. uvm_loop fuel pml4 ?old newSize mem s1 = Inr (Some s') \<and> steps_to own s1 (3 * ?n) own' s'
        \<and> (\<forall>k<?n. maps s' pml4 (?old + of_nat k * PGSIZE) (user_pte (mem + of_nat k * PGSIZE))))"
      using up sum new sz(2)
      by (intro uvm_loop_spec [OF inv1 root room1 fuel]) (simp_all add: diff_mult_distrib2)
    then show ?thesis
    proof (elim disjE exE conjE)
      fix own' s'
      assume "uvm_loop fuel pml4 ?old newSize mem s1 = Inr (Some s')" "steps_to own s1 (3 * ?n) own' s'"
        "\<forall>k<?n. maps s' pml4 (?old + of_nat k * PGSIZE) (user_pte (mem + of_nat k * PGSIZE))"
      then show ?thesis
        using run 1(2)
        by (intro disjI2 exI [of _ mem] exI [of _ s1] exI [of _ own'] exI [of _ s'] conjI) simp_all
    qed (use run in simp_all)
  qed
qed

subsection \<open>Copying into user memory\<close>

lemma written_append:
  assumes "n + k \<le> 2 ^ 64"
  shows "written (d + of_nat n) k g (written d n f m)
    = written d (n + k) (\<lambda>i. if i < n then f i else g (i - n)) m"
proof
  fix p
  show "written (d + of_nat n) k g (written d n f m) p
    = written d (n + k) (\<lambda>i. if i < n then f i else g (i - n)) m p"
  proof (cases "k = 0")
    case False
    then have n: "unat (of_nat n :: u64) = n" using assms by (simp add: unat_of_nat)
    let ?x = "p - d"
    have "unat (p - (d + of_nat n)) = unat (?x - of_nat n)" by (simp add: diff_diff_eq)
    also have "\<dots> = (if n \<le> unat ?x then unat ?x - n else unat ?x + 2 ^ 64 - n)"
      unfolding unat_sub_if' n by simp
    finally have eq: "unat (p - (d + of_nat n)) = (if n \<le> unat ?x then unat ?x - n else unat ?x + 2 ^ 64 - n)" .
    show ?thesis using assms unfolding written_def eq by auto
  qed (auto simp: written_def)
qed

lemma mapped_written:
  "mapped m a k \<Longrightarrow> (\<And>i. i < n \<Longrightarrow> f i \<noteq> None) \<Longrightarrow> mapped (written d n f m) a k"
  by (auto simp: mapped_def written_def)

lemma mapped_mono: "mapped m a k \<Longrightarrow> j \<le> k \<Longrightarrow> mapped m a j"
  by (simp add: mapped_def)

lemma mapped_drop: "mapped m a (j + k) \<Longrightarrow> mapped m (a + of_nat j) k"
  unfolding mapped_def
proof (intro allI impI)
  fix i assume "\<forall>i<j + k. a + of_nat i \<in> dom m" "i < k"
  then have "a + of_nat (j + i) \<in> dom m" by (metis nat_add_left_cancel_less)
  then show "a + of_nat j + of_nat i \<in> dom m" by (simp only: of_nat_add add.assoc)
qed

lemma written_other: "(\<And>i. i < n \<Longrightarrow> d + of_nat i \<noteq> p) \<Longrightarrow> written d n f m p = m p"
proof -
  assume a: "\<And>i. i < n \<Longrightarrow> d + of_nat i \<noteq> p"
  have "d + of_nat (unat (p - d)) = p" by simp
  then show ?thesis using a [of "unat (p - d)"] by (auto simp: written_def)
qed

text \<open>Consecutive pages from \<open>first\<close> on that are mapped to consecutive frames from \<open>pa\<close> on.\<close>

definition maps_range :: "vmstate \<Rightarrow> u64 \<Rightarrow> u64 \<Rightarrow> u64 \<Rightarrow> nat \<Rightarrow> bool" where
  "maps_range s pml4 first pa n \<longleftrightarrow> (\<forall>k<n. \<exists>e. maps s pml4 (first + of_nat k * PGSIZE) e
     \<and> e AND 0xFFFFFFFFFFFFF000 = pa + of_nat k * PGSIZE)"

lemma maps_range_Suc:
  "maps_range s pml4 first pa (Suc n) \<longleftrightarrow>
     (\<exists>e. maps s pml4 first e \<and> e AND 0xFFFFFFFFFFFFF000 = pa) \<and>
     maps_range s pml4 (first + PGSIZE) (pa + PGSIZE) n"
  unfolding maps_range_def All_less_Suc2 by (simp add: algebra_simps)

lemma maps_range_bytes [simp]:
  "maps_range (s\<lparr>byte_heap := m\<rparr>) pml4 first pa n = maps_range s pml4 first pa n"
  by (simp add: maps_range_def maps_def path_def)

lemma page_offset_0 [simp]: "page_base a \<Longrightarrow> a AND 0xFFF = 0" "page_base a \<Longrightarrow> PGROUNDDOWN a = a"
  using in_page(2) [of a 0] by (simp_all add: page_base_def PGROUNDDOWN_def PGSIZE_def)

lemma OFFSET_page: "page_base a \<Longrightarrow> OFFSET a = 0"
  by (simp add: OFFSET_def page_base_def)

lemma copy_loop_written:
  "maps_range s pml4 (PGROUNDDOWN va) pa n \<Longrightarrow> unat (va AND 0xFFF) + unat len \<le> 4096 * n \<Longrightarrow>
    page_base pa \<Longrightarrow> dst = p2v pa + (va AND 0xFFF) \<Longrightarrow>
    unat src + unat len < 2 ^ 64 \<Longrightarrow> unat dst + unat len \<le> 2 ^ 64 \<Longrightarrow>
    mapped (byte_heap s) src (unat len) \<Longrightarrow> mapped (byte_heap s) dst (unat len) \<Longrightarrow>
    (\<And>i j. i < unat len \<Longrightarrow> j < unat len \<Longrightarrow> src + of_nat i \<noteq> dst + of_nat j) \<Longrightarrow>
    copy_loop pml4 va src len s = Inr (s\<lparr>byte_heap :=
      written dst (unat len) (\<lambda>i. byte_heap s (src + of_nat i)) (byte_heap s)\<rparr>)"
proof (induction n arbitrary: va pa dst src len s)
  case 0
  then have "len = 0" by (simp add: unat_eq_0)
  then show ?case by (simp add: copy_loop.simps)
next
  case (Suc n)
  let ?m = "byte_heap s" and ?first = "PGROUNDDOWN va" and ?off = "va AND 0xFFF"
  show ?case
  proof (cases "len = 0")
    case True
    then show ?thesis by (simp add: copy_loop.simps)
  next
    case False
    obtain e where e: "maps s pml4 ?first e" "e AND 0xFFFFFFFFFFFFF000 = pa"
      and rest: "maps_range s pml4 (?first + PGSIZE) (pa + PGSIZE) n"
      using Suc.prems(1) by (auto simp: maps_range_Suc)
    define chunk where "chunk = (if PGSIZE - ?off > len then len else PGSIZE - ?off)"
    have off: "unat ?off < 4096" using offset_less by (simp add: word_less_nat_alt)
    have chunk_eq: "(if len < PGSIZE - ?off then len else PGSIZE - (va - ?first)) = chunk"
      by (simp add: chunk_def page_offset)
    have room: "unat (PGSIZE - ?off) = 4096 - unat ?off"
      using off by (simp add: PGSIZE_def unat_diff word_le_nat_alt)
    have chunk: "unat chunk = min (unat len) (4096 - unat ?off)"
      using room by (simp add: chunk_def word_less_nat_alt)
    have cast: "unat (ucast chunk :: u32) = unat chunk"
      using chunk by (simp add: unsigned_ucast_eq take_bit_nat_eq_self)
    let ?m1 = "written dst (unat chunk) (\<lambda>i. ?m (src + of_nat i)) ?m"
    let ?s1 = "s\<lparr>byte_heap := ?m1\<rparr>"
    have move: "memmove dst src (ucast chunk) ?m = Inr ?m1"
      using memmove_written [of ?m src "ucast chunk" dst] Suc.prems(5-8) chunk mapped_mono
      unfolding cast by simp
    have run: "copy_loop pml4 va src len s = copy_loop pml4 (?first + PGSIZE) (src + chunk) (len - chunk) ?s1"
      using False maps_walk [OF e(1), of False] e(2) move Suc.prems(4)
      by (subst copy_loop.simps)
        (simp split del: if_split add: OFFSET_page page_offset chunk_eq Let_def)
    show ?thesis
    proof (cases "unat len \<le> 4096 - unat ?off")
      case True
      then have "chunk = len" using chunk by (simp add: word_unat_eq_iff)
      then show ?thesis using run by (simp add: copy_loop.simps)
    next
      case More: False
      have c: "unat chunk = 4096 - unat ?off" using chunk More by simp
      have ks: "unat (src + chunk) = unat src + unat chunk" "unat (len - chunk) = unat len - unat chunk"
        using Suc.prems(5) c More by (simp_all add: unat_word_ariths unat_diff word_le_nat_alt)
      have onwards: "p2v (pa + PGSIZE) = dst + of_nat (unat chunk)"
      proof -
        have "chunk = PGSIZE - ?off" using c room by (simp add: word_unat_eq_iff)
        then show ?thesis using Suc.prems(4) by (simp add: p2v_def)
      qed
      have some: "?m (src + of_nat i) \<noteq> None" if "i < unat len" for i
        using Suc.prems(7) that by (auto simp: mapped_def)
      have sum: "unat chunk + unat (len - chunk) = unat len" using ks(2) c More by simp
      have apart: "?m1 (src + chunk + of_nat i) = ?m (src + chunk + of_nat i)"
        if "i < unat (len - chunk)" for i
      proof (rule written_other)
        fix j assume "j < unat chunk"
        then have "src + of_nat (unat chunk + i) \<noteq> dst + of_nat j"
          using that sum by (intro Suc.prems(9)) simp_all
        then show "dst + of_nat j \<noteq> src + chunk + of_nat i" by (simp add: add.assoc)
      qed
      have bytes: "byte_heap ?s1 = ?m1" by simp
      have "copy_loop pml4 (?first + PGSIZE) (src + chunk) (len - chunk) ?s1
        = Inr (?s1\<lparr>byte_heap := written (p2v (pa + PGSIZE)) (unat (len - chunk))
            (\<lambda>i. byte_heap ?s1 (src + chunk + of_nat i)) (byte_heap ?s1)\<rparr>)"
      proof (rule Suc.IH)
        have base: "page_base (?first + PGSIZE)" by (intro page_base_add) simp_all
        show "maps_range ?s1 pml4 (PGROUNDDOWN (?first + PGSIZE)) (pa + PGSIZE) n"
          using rest base by simp
        show "unat ((?first + PGSIZE) AND 0xFFF) + unat (len - chunk) \<le> 4096 * n"
          using base ks(2) c Suc.prems(2) by simp
        show "page_base (pa + PGSIZE)" using Suc.prems(3) by (intro page_base_add) simp_all
        show "p2v (pa + PGSIZE) = p2v (pa + PGSIZE) + ((?first + PGSIZE) AND 0xFFF)"
          using base by simp
        show "unat (src + chunk) + unat (len - chunk) < 2 ^ 64" using ks sum Suc.prems(5) by simp
        have "unat (dst + of_nat (unat chunk)) \<le> unat dst + unat chunk"
          by (simp add: unat_word_ariths)
        then show "unat (p2v (pa + PGSIZE)) + unat (len - chunk) \<le> 2 ^ 64"
          unfolding onwards using sum Suc.prems(6) by linarith
        show "mapped (byte_heap ?s1) (src + chunk) (unat (len - chunk))"
          using mapped_drop [of ?m src "unat chunk" "unat (len - chunk)"] Suc.prems(7) some sum
          by (simp add: mapped_written)
        show "mapped (byte_heap ?s1) (p2v (pa + PGSIZE)) (unat (len - chunk))"
          using mapped_drop [of ?m dst "unat chunk" "unat (len - chunk)"] Suc.prems(8) some sum
          unfolding onwards by (simp add: mapped_written)
        fix i j assume "i < unat (len - chunk)" "j < unat (len - chunk)"
        then have "src + of_nat (unat chunk + i) \<noteq> dst + of_nat (unat chunk + j)"
          using sum by (intro Suc.prems(9)) simp_all
        then show "src + chunk + of_nat i \<noteq> p2v (pa + PGSIZE) + of_nat j"
          unfolding onwards by (simp add: add.assoc)
      qed
      also have "written (p2v (pa + PGSIZE)) (unat (len - chunk))
            (\<lambda>i. byte_heap ?s1 (src + chunk + of_nat i)) (byte_heap ?s1)
          = written (dst + of_nat (unat chunk)) (unat (len - chunk)) (\<lambda>i. ?m (src + chunk + of_nat i)) ?m1"
        unfolding onwards bytes by (rule written_cong) (rule apart)
      also have "\<dots> = written dst (unat len) (\<lambda>i. ?m (src + of_nat i)) ?m"
        using unsigned_less [of len, where 'a = nat] sum
        by (subst written_append) (auto intro!: written_cong simp: of_nat_diff)
      finally show ?thesis using run by simp
    qed
  qed
qed

end
