(* ===== verification/VmSetup.thy ===== *)
theory VmSetup
  imports VmUser
begin

text \<open>
  A new address space: \<open>setup_user_memory_pages\<close> of \<open>src/kernel/vm.c\<close>. It has the kernel's entry
  511 and one user page at address 0.
\<close>

subsection \<open>Cleared pages\<close>

definition cleared :: "vmstate \<Rightarrow> u64 \<Rightarrow> bool" where
  "cleared s c \<longleftrightarrow> (\<forall>a. a - c < 4096 \<longrightarrow>
     byte_heap s a = Some 0 \<and> ((a - c) AND 7 = 0 \<longrightarrow> pt_heap s a = Some 0))"

lemma cleared_again: "cleared s c \<Longrightarrow> clear_mem c 512 s = s"
proof -
  assume c: "cleared s c"
  have "a < 512 \<Longrightarrow> a < (4096 :: u64)" for a by (erule less_trans) simp
  with c have "zero_words c 512 (pt_heap s) = pt_heap s" "zero_bytes c 512 (byte_heap s) = byte_heap s"
    by (auto simp: cleared_def zero_words_def zero_bytes_def fun_eq_iff)
  then show ?thesis by (simp add: clear_mem_def)
qed

lemma allocated_clear:
  assumes "page_allocated s c s'"
  shows "cleared s' c" and "cleared s b \<Longrightarrow> cleared s' b"
proof -
  obtain mb where "s' = clear_mem c 4096 (s\<lparr>boot_mem := mb\<rparr>)"
    using assms by (auto simp: page_allocated_def)
  then have "pt_heap s' = zero_words c 4096 (pt_heap s)" "byte_heap s' = zero_bytes c 4096 (byte_heap s)"
    by (simp_all add: clear_mem_def)
  then show "cleared s' c" "cleared s b \<Longrightarrow> cleared s' b"
    by (auto simp: cleared_def zero_words_def zero_bytes_def)
qed

lemma new_table_steps:
  "pt_inv own s \<Longrightarrow> page_allocated s c s' \<Longrightarrow> steps_to own s 1 (own(c \<mapsto> l)) s'"
  using new_table [of own s c s' l] allocated_regs [of s c s'] allocated_bytes [of s c s']
  by (simp add: steps_to_def page_allocated_def)

lemma data_page_steps:
  "pt_inv own s \<Longrightarrow> page_allocated s c s' \<Longrightarrow> steps_to own s 1 own s'"
  using allocated_tables [of own s c s'] allocated_regs [of s c s'] allocated_bytes [of s c s']
  by (auto simp: steps_to_def page_allocated_def extends_def)

lemma set_entry_steps:
  assumes "pt_inv own s" "own b = Some l" "i < 512" "pt_heap s (entry b i) = Some 0"
    and "1 < l \<Longrightarrow> present v \<Longrightarrow> own (table_of v) = Some (l - 1)"
  shows "mod_pte (entry b i) (\<lambda>_. v) s = Inr (s\<lparr>pt_heap := (pt_heap s)(entry b i \<mapsto> v)\<rparr>)"
    and "steps_to own s 0 own (s\<lparr>pt_heap := (pt_heap s)(entry b i \<mapsto> v)\<rparr>)"
  using set_entry [OF assms(1-3) _ assms(5)] assms(4)
  by (auto simp: steps_to_def same_regs_def bytes_kept_def present_bit)

lemma cleared_entry: "cleared s c \<Longrightarrow> i < 512 \<Longrightarrow> pt_heap s (entry c i) = Some 0"
  using entry_aligned [of i] by (simp add: cleared_def entry_def entry_offset)

lemma alloc_kernel_page:
  assumes "pt_inv own s" "0 < room (boot_mem s)"
  obtains c s' where "vm_alloc_kernel PGSIZE PGSIZE s = Inr (c, s')" "page_allocated s c s'"
proof -
  obtain a s' where a: "vm_alloc PGSIZE PGSIZE s = Inr (a, s')" "page_allocated s (p2v a) s'"
    using alloc_page_result [of s] assms by (auto simp: vm_alloc_kernel_def pt_inv_def)
  then show ?thesis by (intro that) (simp_all add: vm_alloc_kernel_def)
qed

lemma steps_inv: "steps_to own s n own' s' \<Longrightarrow> pt_inv own' s'"
  and steps_room: "steps_to own s n own' s' \<Longrightarrow> room (boot_mem s) \<le> room (boot_mem s') + n"
  and steps_own: "steps_to own s n own' s' \<Longrightarrow> own b = Some l \<Longrightarrow> own' b = Some l"
  and steps_entry: "steps_to own s n own' s' \<Longrightarrow> own b = Some l \<Longrightarrow> i < 512 \<Longrightarrow>
    pt_heap s (entry b i) = Some e \<Longrightarrow> present e \<Longrightarrow> pt_heap s' (entry b i) = Some e"
  and steps_kern: "steps_to own s n own' s' \<Longrightarrow> vm_kernPml4 s' = vm_kernPml4 s"
  by (auto simp: steps_to_def same_regs_def dest: extends_own extends_entry)

subsection \<open>The four tables\<close>

text \<open>The first part of \<open>setup_user_memory_pages\<close>: four cleared tables.\<close>

lemma four_tables:
  assumes inv: "pt_inv own s" and room: "4 \<le> room (boot_mem s)"
  shows "\<exists>c1 c2 c3 c4 s'. setup_user_memory_pages s =
        bind_ok (mod_pte (entry c1 0) (\<lambda>_. v2p c2 OR PTE_P OR PTE_W OR PTE_U) s') (\<lambda>s.
        bind_ok (get_pte s (entry (vm_kernPml4 s) 511)) (\<lambda>kern.
        bind_ok (mod_pte (entry c1 511) (\<lambda>_. kern) s) (\<lambda>s.
        bind_ok (mod_pte (entry c2 0) (\<lambda>_. v2p c3 OR PTE_P OR PTE_W OR PTE_U) s) (\<lambda>s.
        bind_ok (mod_pte (entry c3 0) (\<lambda>_. v2p c4 OR PTE_P OR PTE_W OR PTE_U) s) (\<lambda>s.
        bind_ok (vm_alloc PGSIZE PGSIZE s) (\<lambda>(pg, s).
        bind_ok (mod_pte (entry c4 0) (\<lambda>_. pg OR PTE_P OR PTE_W OR PTE_U) s) (\<lambda>s.
        Inr (c1, s))))))))
      \<and> distinct [c1, c2, c3, c4] \<and> {c1, c2, c3, c4} \<inter> dom own = {}
      \<and> (\<forall>c\<in>{c1, c2, c3, c4}. page_base c \<and> cleared s' c)
      \<and> steps_to own s 4 (own(c1 \<mapsto> 4, c2 \<mapsto> 3, c3 \<mapsto> 2, c4 \<mapsto> 1)) s'"
proof -
  let ?alloc = "vm_alloc_kernel PGSIZE PGSIZE"
  have "0 < room (boot_mem s)" using room by simp
  from alloc_kernel_page [OF inv this]
  obtain c1 s1 where 1: "?alloc s = Inr (c1, s1)" "page_allocated s c1 s1" .
  let ?own1 = "own(c1 \<mapsto> 4)"
  have st1: "steps_to own s 1 ?own1 s1" by (rule new_table_steps [OF inv 1(2)])
  have "0 < room (boot_mem s1)" using room steps_room [OF st1] by simp
  from alloc_kernel_page [OF steps_inv [OF st1] this]
  obtain c2 s2 where 2: "?alloc s1 = Inr (c2, s2)" "page_allocated s1 c2 s2" .
  let ?own2 = "?own1(c2 \<mapsto> 3)"
  have st2: "steps_to ?own1 s1 1 ?own2 s2" by (rule new_table_steps [OF steps_inv [OF st1] 2(2)])
  have "0 < room (boot_mem s2)" using room steps_room [OF st1] steps_room [OF st2] by simp
  from alloc_kernel_page [OF steps_inv [OF st2] this]
  obtain c3 s3 where 3: "?alloc s2 = Inr (c3, s3)" "page_allocated s2 c3 s3" .
  let ?own3 = "?own2(c3 \<mapsto> 2)"
  have st3: "steps_to ?own2 s2 1 ?own3 s3" by (rule new_table_steps [OF steps_inv [OF st2] 3(2)])
  have "0 < room (boot_mem s3)"
    using room steps_room [OF st1] steps_room [OF st2] steps_room [OF st3] by simp
  from alloc_kernel_page [OF steps_inv [OF st3] this]
  obtain c4 s4 where 4: "?alloc s3 = Inr (c4, s4)" "page_allocated s3 c4 s4" .
  let ?own4 = "?own3(c4 \<mapsto> 1)"
  have st4: "steps_to ?own3 s3 1 ?own4 s4" by (rule new_table_steps [OF steps_inv [OF st3] 4(2)])
  have fresh: "own c1 = None" "?own1 c2 = None" "?own2 c3 = None" "?own3 c4 = None"
    using allocated_tables(1) [OF inv 1(2)] allocated_tables(1) [OF steps_inv [OF st1] 2(2)]
      allocated_tables(1) [OF steps_inv [OF st2] 3(2)] allocated_tables(1) [OF steps_inv [OF st3] 4(2)]
    by simp_all
  have clear: "cleared s4 c1" "cleared s4 c2" "cleared s4 c3" "cleared s4 c4"
    using allocated_clear [OF 1(2)] allocated_clear [OF 2(2)] allocated_clear [OF 3(2)]
      allocated_clear [OF 4(2)] by simp_all
  have base: "page_base c1" "page_base c2" "page_base c3" "page_base c4"
    using 1(2) 2(2) 3(2) 4(2) by (simp_all add: page_allocated_def)
  have steps: "steps_to own s 4 ?own4 s4"
    using steps_to_trans [OF steps_to_trans [OF steps_to_trans [OF st1 st2] st3] st4]
    by (simp add: eval_nat_numeral)
  show ?thesis
  proof (rule exI [of _ c1], rule exI [of _ c2], rule exI [of _ c3], rule exI [of _ c4],
      rule exI [of _ s4], intro conjI)
    show "distinct [c1, c2, c3, c4]" using fresh by (auto split: if_splits)
    show "{c1, c2, c3, c4} \<inter> dom own = {}" using fresh by (auto split: if_splits)
  qed (use base clear steps 1(1) 2(1) 3(1) 4(1) in
    \<open>simp_all add: setup_user_memory_pages_def cleared_again Let_def\<close>)
qed

subsection \<open>The entries\<close>

abbreviation table_pte :: "u64 \<Rightarrow> u64" where "table_pte c \<equiv> v2p c OR PTE_P OR PTE_W OR PTE_U"

lemma table_pte:
  "page_base c \<Longrightarrow> table_of (table_pte c) = c" "present (table_pte c)"
proof -
  have flags: "table_pte c = v2p c OR 7" by (simp add: PTE_P_def PTE_W_def PTE_U_def or.assoc)
  then show "page_base c \<Longrightarrow> table_of (table_pte c) = c" by (simp add: table_of_entry)
  show "present (table_pte c)" by (simp add: present_bit PTE_P_def bit_simps)
qed

lemma present_user_page: "present (pg OR PTE_P OR PTE_W OR PTE_U)"
  by (simp add: present_bit PTE_P_def bit_simps)

text \<open>The entries written between the tables, and the user page.\<close>

lemma tables_linked:
  assumes inv: "pt_inv own s" and room: "0 < room (boot_mem s)"
    and own: "own c1 = Some 4" "own c2 = Some 3" "own c3 = Some 2" "own c4 = Some 1"
    and new: "distinct [c1, c2, c3, c4]" "\<forall>c\<in>{c1, c2, c3, c4}. page_base c \<and> cleared s c"
    and kern: "own (vm_kernPml4 s) = Some 4" "vm_kernPml4 s \<noteq> c1"
      "pt_heap s (entry (vm_kernPml4 s) 511) = Some k"
    and run: "setup_user_memory_pages s0 =
        bind_ok (mod_pte (entry c1 0) (\<lambda>_. table_pte c2) s) (\<lambda>s.
        bind_ok (get_pte s (entry (vm_kernPml4 s) 511)) (\<lambda>kern.
        bind_ok (mod_pte (entry c1 511) (\<lambda>_. kern) s) (\<lambda>s.
        bind_ok (mod_pte (entry c2 0) (\<lambda>_. table_pte c3) s) (\<lambda>s.
        bind_ok (mod_pte (entry c3 0) (\<lambda>_. table_pte c4) s) (\<lambda>s.
        bind_ok (vm_alloc PGSIZE PGSIZE s) (\<lambda>(pg, s).
        bind_ok (mod_pte (entry c4 0) (\<lambda>_. pg OR PTE_P OR PTE_W OR PTE_U) s) (\<lambda>s.
        Inr (c1, s))))))))"
  shows "\<exists>pg s'. setup_user_memory_pages s0 = Inr (c1, s') \<and> steps_to own s 1 own s'
      \<and> page_base pg \<and> block pg PGSIZE \<inter> in_use (boot_mem s) = {}
      \<and> (\<forall>a. a - p2v pg < 4096 \<longrightarrow> byte_heap s' a = Some 0)
      \<and> pt_heap s' (entry c1 0) = Some (table_pte c2) \<and> pt_heap s' (entry c2 0) = Some (table_pte c3)
      \<and> pt_heap s' (entry c3 0) = Some (table_pte c4)
      \<and> pt_heap s' (entry c4 0) = Some (pg OR PTE_P OR PTE_W OR PTE_U)
      \<and> (present k \<longrightarrow> pt_heap s' (entry c1 511) = Some k)"
proof -
  have entries: "pt_heap s (entry c i) = Some 0" if "c \<in> {c1, c2, c3, c4}" "i < 512" for c i
    using new(2) that cleared_entry by blast
  have inj: "entry b i = entry c j \<longleftrightarrow> b = c \<and> i = j"
    if "b \<in> {c1, c2, c3, c4}" "c \<in> {c1, c2, c3, c4}" "i < 512" "j < 512" for b c i j
    using entry_inj new(2) that by blast
  have ne: "c2 \<noteq> c1" "c3 \<noteq> c1" "c4 \<noteq> c1" "c3 \<noteq> c2" "c4 \<noteq> c2" "c4 \<noteq> c3" using new(1) by auto
  let ?set = "\<lambda>s c i v. s\<lparr>pt_heap := (pt_heap s)(entry c i \<mapsto> v)\<rparr>"
  have k: "own (table_of k) = Some (4 - 1)" if "present k"
    using table_next [OF inv kern(1) _ _ _ kern(3) that] by simp
  let ?sa = "?set s c1 0 (table_pte c2)"
  have a: "mod_pte (entry c1 0) (\<lambda>_. table_pte c2) s = Inr ?sa" "steps_to own s 0 own ?sa"
    using set_entry_steps [OF inv own(1), of 0 "table_pte c2"] entries own table_pte new(2)
    by simp_all
  have "page_base (vm_kernPml4 s)" using pt_inv_table [OF inv kern(1)] by (simp add: table_ok_def)
  then have "entry (vm_kernPml4 s) 511 \<noteq> entry c1 0" using entry_inj new(2) kern(2) by simp
  then have get: "get_pte ?sa (entry (vm_kernPml4 ?sa) 511) = Inr k"
    using kern(3) by (simp add: get_pte_def)
  let ?sb = "?set ?sa c1 511 k"
  have b: "mod_pte (entry c1 511) (\<lambda>_. k) ?sa = Inr ?sb" "steps_to own ?sa 0 own ?sb"
    using set_entry_steps [OF steps_inv [OF a(2)] own(1), of 511 k] entries inj k by simp_all
  let ?sc = "?set ?sb c2 0 (table_pte c3)"
  have c: "mod_pte (entry c2 0) (\<lambda>_. table_pte c3) ?sb = Inr ?sc" "steps_to own ?sb 0 own ?sc"
    using set_entry_steps [OF steps_inv [OF b(2)] own(2), of 0 "table_pte c3"] entries inj own
      table_pte new ne by simp_all
  let ?sd = "?set ?sc c3 0 (table_pte c4)"
  have d: "mod_pte (entry c3 0) (\<lambda>_. table_pte c4) ?sc = Inr ?sd" "steps_to own ?sc 0 own ?sd"
    using set_entry_steps [OF steps_inv [OF c(2)] own(3), of 0 "table_pte c4"] entries inj own
      table_pte new ne by simp_all
  have sd: "boot_mem ?sd = boot_mem s" "byte_heap ?sd = byte_heap s" by simp_all
  have steps: "steps_to own s 0 own ?sd"
    using steps_to_trans [OF steps_to_trans [OF steps_to_trans [OF a(2) b(2)] c(2)] d(2)] by simp
  have heap: "pt_heap ?sd (entry c1 0) = Some (table_pte c2)" "pt_heap ?sd (entry c1 511) = Some k"
    "pt_heap ?sd (entry c2 0) = Some (table_pte c3)" "pt_heap ?sd (entry c3 0) = Some (table_pte c4)"
    "pt_heap ?sd (entry c4 0) = Some 0"
    using entries inj ne by simp_all
  have mem: "mem_ok ?sd" using steps_inv [OF steps] by (simp add: pt_inv_def)
  have run1: "setup_user_memory_pages s0 = bind_ok (vm_alloc PGSIZE PGSIZE ?sd) (\<lambda>(pg, s).
      bind_ok (mod_pte (entry c4 0) (\<lambda>_. pg OR PTE_P OR PTE_W OR PTE_U) s) (\<lambda>s. Inr (c1, s)))"
    unfolding run using a(1) b(1) c(1) d(1) get by (simp del: fun_upd_apply)
  have "0 < room (boot_mem ?sd)" using room by simp
  from alloc_page_result [OF mem this] show ?thesis
  proof (elim exE conjE)
    fix pg se assume e: "vm_alloc PGSIZE PGSIZE ?sd = Inr (pg, se)" "page_allocated ?sd (p2v pg) se"
    let ?v = "pg OR PTE_P OR PTE_W OR PTE_U" and ?sf = "?set se c4 0 (pg OR PTE_P OR PTE_W OR PTE_U)"
    have stepse: "steps_to own ?sd 1 own se" by (rule data_page_steps [OF steps_inv [OF steps] e(2)])
    have "pt_heap se (entry c4 0) = Some 0"
      using allocated_tables(3) [OF steps_inv [OF steps] e(2) own(4), of 0] heap(5) by simp
    note f = set_entry_steps [OF steps_inv [OF stepse] own(4) _ this, of ?v, simplified]
    have all: "steps_to own s 1 own ?sf"
      using steps_to_trans [OF steps_to_trans [OF steps stepse] f(2)] by simp
    have from_sd: "pt_heap ?sf (entry c i) = Some v"
      if "pt_heap ?sd (entry c i) = Some v" "own c = Some l" "i < 512" "present v" for c i v l
      using steps_entry [OF steps_to_trans [OF stepse f(2)] that(2,3,1,4)] .
    have clear: "cleared se (p2v pg)" using allocated_clear(1) [OF e(2)] .
    have pg: "page_base pg" "block pg PGSIZE \<inter> in_use (boot_mem s) = {}"
      using e(2) by (simp_all add: page_allocated_def sd)
    show ?thesis
    proof (rule exI [of _ pg], rule exI [of _ ?sf], intro conjI)
      show "setup_user_memory_pages s0 = Inr (c1, ?sf)" using run1 e(1) f(1) by (simp del: fun_upd_apply)
      show "\<forall>a. a - p2v pg < 4096 \<longrightarrow> byte_heap ?sf a = Some 0" using clear by (simp add: cleared_def)
      show "present k \<longrightarrow> pt_heap ?sf (entry c1 511) = Some k" using from_sd [OF heap(2) own(1)] by simp
    qed (use all pg from_sd [OF heap(1) own(1)] from_sd [OF heap(3) own(2)] from_sd [OF heap(4) own(3)]
        table_pte(2) in \<open>simp_all del: fun_upd_apply add: fun_upd_same\<close>)
  qed
qed

subsection \<open>The new address space\<close>

text \<open>The root is a new table, address 0 is mapped to a cleared page that was not in use, and the
  addresses under entry 511 are translated as in the kernel's address space.\<close>

lemma setup_spec:
  assumes inv: "pt_inv own s" and kern: "own (vm_kernPml4 s) = Some 4" and room: "5 \<le> room (boot_mem s)"
  shows "\<exists>pml4 pg own' s'. setup_user_memory_pages s = Inr (pml4, s') \<and> steps_to own s 5 own' s'
      \<and> own pml4 = None \<and> own' pml4 = Some 4
      \<and> page_base pg \<and> block pg PGSIZE \<inter> in_use (boot_mem s) = {}
      \<and> (\<forall>a. a - p2v pg < 4096 \<longrightarrow> byte_heap s' a = Some 0)
      \<and> maps s' pml4 0 (pg OR PTE_P OR PTE_W OR PTE_U)
      \<and> (\<forall>va e. PML4X va = 511 \<longrightarrow> maps s (vm_kernPml4 s) va e \<longrightarrow> maps s' pml4 va e)"
proof -
  have "4 \<le> room (boot_mem s)" using room by simp
  from four_tables [OF inv this] show ?thesis
  proof (elim disjE exE conjE)
    fix c1 c2 c3 c4 s1
    assume run: "setup_user_memory_pages s =
        bind_ok (mod_pte (entry c1 0) (\<lambda>_. table_pte c2) s1) (\<lambda>s.
        bind_ok (get_pte s (entry (vm_kernPml4 s) 511)) (\<lambda>kern.
        bind_ok (mod_pte (entry c1 511) (\<lambda>_. kern) s) (\<lambda>s.
        bind_ok (mod_pte (entry c2 0) (\<lambda>_. table_pte c3) s) (\<lambda>s.
        bind_ok (mod_pte (entry c3 0) (\<lambda>_. table_pte c4) s) (\<lambda>s.
        bind_ok (vm_alloc PGSIZE PGSIZE s) (\<lambda>(pg, s).
        bind_ok (mod_pte (entry c4 0) (\<lambda>_. pg OR PTE_P OR PTE_W OR PTE_U) s) (\<lambda>s.
        Inr (c1, s))))))))"
      and dist: "distinct [c1, c2, c3, c4]" and fresh: "{c1, c2, c3, c4} \<inter> dom own = {}"
      and tabs: "\<forall>c\<in>{c1, c2, c3, c4}. page_base c \<and> cleared s1 c"
      and steps: "steps_to own s 4 (own(c1 \<mapsto> 4, c2 \<mapsto> 3, c3 \<mapsto> 2, c4 \<mapsto> 1)) s1"
    let ?own = "own(c1 \<mapsto> 4, c2 \<mapsto> 3, c3 \<mapsto> 2, c4 \<mapsto> 1)" and ?kern = "vm_kernPml4 s"
    have own: "?own c1 = Some 4" "?own c2 = Some 3" "?own c3 = Some 2" "?own c4 = Some 1"
      using dist by auto
    have kern1: "vm_kernPml4 s1 = ?kern" by (rule steps_kern [OF steps])
    have kernown: "?own ?kern = Some 4" by (rule steps_own [OF steps kern])
    have kernc1: "?kern \<noteq> c1" using fresh kern by auto
    obtain k where k: "pt_heap s1 (entry ?kern 511) = Some k"
      using table_entry [OF steps_inv [OF steps] kernown, of 511] by auto
    have room1: "0 < room (boot_mem s1)" using steps_room [OF steps] room by simp
    from tables_linked [OF steps_inv [OF steps] room1 own dist tabs, unfolded kern1,
        OF kernown kernc1 k run]
    show ?thesis
    proof (elim disjE exE conjE)
      fix pg s'
      assume res: "setup_user_memory_pages s = Inr (c1, s')" "steps_to ?own s1 1 ?own s'"
        "page_base pg" "block pg PGSIZE \<inter> in_use (boot_mem s1) = {}"
        "\<forall>a. a - p2v pg < 4096 \<longrightarrow> byte_heap s' a = Some 0"
        "pt_heap s' (entry c1 0) = Some (table_pte c2)" "pt_heap s' (entry c2 0) = Some (table_pte c3)"
        "pt_heap s' (entry c3 0) = Some (table_pte c4)"
        "pt_heap s' (entry c4 0) = Some (pg OR PTE_P OR PTE_W OR PTE_U)"
        "present k \<longrightarrow> pt_heap s' (entry c1 511) = Some k"
      have all: "steps_to own s 5 ?own s'"
        using steps_to_trans [OF steps res(2)] by (simp add: eval_nat_numeral)
      have zero: "PML4X 0 = 0" "PDPTX 0 = 0" "PDX 0 = 0" "PTX 0 = 0"
        by (simp_all add: PML4X_def PDPTX_def PDX_def PTX_def)
      have "maps s' c1 0 (pg OR PTE_P OR PTE_W OR PTE_U)"
        using res(6-9) table_pte tabs present_user_page [of pg] by (simp add: maps_def path_def zero)
      moreover have "maps s' c1 va e" if va: "PML4X va = 511" and m: "maps s ?kern va e" for va e
      proof -
        obtain pt where pt: "path s ?kern va pt" "pt_heap s (entry pt (PTX va)) = Some e" "present e"
          using m by (auto simp: maps_def)
        obtain e1 where e1: "pt_heap s (entry ?kern 511) = Some e1" "present e1"
          using pt(1) va by (auto simp: path_def)
        have "pt_heap s1 (entry ?kern 511) = Some e1"
          using steps_entry [OF steps kern _ e1] by simp
        then have "pt_heap s' (entry c1 511) = Some e1" using k e1(2) res(10) by simp
        moreover have "maps s' ?kern va e"
          using maps_extends [OF inv kern m] all by (auto simp: steps_to_def)
        moreover have "pt_heap s' (entry ?kern 511) = Some e1"
          using steps_entry [OF all kern _ e1] by simp
        ultimately show ?thesis using va by (auto simp: maps_def path_def)
      qed
      moreover have "block pg PGSIZE \<inter> in_use (boot_mem s) = {}"
        using res(4) steps by (auto simp: steps_to_def bytes_kept_def)
      moreover have "own c1 = None" using fresh by auto
      ultimately show ?thesis
        using res(1,3,5) all own(1) by blast
    qed
  qed
qed

end
