(* ===== verification/VmFixture.thy ===== *)
theory VmFixture
  imports VmSetup MemProps
begin

text \<open>
  A concrete machine for witnesses: one megabyte of memory at 0x100000 with five pages in use at its
  end, four tables that map the kernel's first page, and a page of data.
\<close>

definition table4 :: u64 where "table4 = 0xFFFFFFFF801FE000"
definition table3 :: u64 where "table3 = 0xFFFFFFFF801FD000"
definition table2 :: u64 where "table2 = 0xFFFFFFFF801FC000"
definition table1 :: u64 where "table1 = 0xFFFFFFFF801FB000"

definition kernel_space :: vmstate where
  "kernel_space = \<lparr>
     pt_heap = (zero_words table1 0x4000 Map.empty)
       (entry table4 511 \<mapsto> v2p table3 OR PTE_W OR PTE_P,
        entry table3 510 \<mapsto> v2p table2 OR PTE_W OR PTE_P,
        entry table2 0 \<mapsto> v2p table1 OR PTE_W OR PTE_P,
        entry table1 0 \<mapsto> 0 OR PTE_W OR PTE_P),
     byte_heap = (\<lambda>_. Some 7),
     boot_mem = boot_memory\<lparr>mb_reserved := table [\<lparr>mr_base = 0x1FB000, mr_size = 0x5000\<rparr>]\<rparr>,
     vm_kernPml4 = table4, vm_kernPdpt = table3, vm_kernPd = table2, vm_kernPt = table1,
     kernelHasMappedEnd = KernelFirstHasMappedEnd, kernelSize = kernelFirstSize, vm_cr3 = 0x1FE000\<rparr>"

definition kernel_tables :: tables where
  "kernel_tables = [table4 \<mapsto> 4, table3 \<mapsto> 3, table2 \<mapsto> 2, table1 \<mapsto> 1]"

lemmas table_addresses = table4_def table3_def table2_def table1_def

lemma tables_page [simp]: "page_base table4" "page_base table3" "page_base table2" "page_base table1"
  by (simp_all add: page_base_def table_addresses)

lemma table_distinct [simp]:
  "table4 \<noteq> table3" "table4 \<noteq> table2" "table4 \<noteq> table1" "table3 \<noteq> table2" "table3 \<noteq> table1"
  "table2 \<noteq> table1" "table3 \<noteq> table4" "table2 \<noteq> table4" "table1 \<noteq> table4" "table2 \<noteq> table3"
  "table1 \<noteq> table3" "table1 \<noteq> table2"
  by (simp_all add: table_addresses)

lemma kernel_memory:
  "mb_ok (boot_mem kernel_space)" "room (boot_mem kernel_space) = 127"
  "in_use (boot_mem kernel_space) = {0x1FB000..<0x200000}"
  "all_memory (boot_mem kernel_space) = {0x100000..<0x200000}"
proof -
  let ?mb = "boot_mem kernel_space"
  have slots: "slots ?mb = 127" by (simp add: slots_def kernel_space_def table_def)
  have "free_run ?mb 0x100000 127"
    by (simp add: free_run_def kernel_space_def boot_memory_def table_live)
  then have "127 \<le> room ?mb" unfolding le_room slots by blast
  then show "room ?mb = 127" using room_slots [of ?mb] slots by simp
qed (use boot_memory_ok in
      \<open>simp_all add: kernel_space_def mb_ok_def mt_ok_def table_wf good_def in_use_def table_live all_memory_def\<close>)

lemma kernel_entry:
  assumes b: "b = table4 \<or> b = table3 \<or> b = table2 \<or> b = table1" and i: "i < 512"
  shows "pt_heap kernel_space (entry b i) = Some (
    if b = table4 \<and> i = 511 then v2p table3 OR PTE_W OR PTE_P
    else if b = table3 \<and> i = 510 then v2p table2 OR PTE_W OR PTE_P
    else if b = table2 \<and> i = 0 then v2p table1 OR PTE_W OR PTE_P
    else if b = table1 \<and> i = 0 then 0 OR PTE_W OR PTE_P else 0)"
proof -
  have "\<exists>k\<in>{0, 0x200, 0x400, 0x600}. b = table1 + 8 * k" using b by (auto simp: table_addresses)
  then obtain k where k: "b = table1 + 8 * k" "k = 0 \<or> k = 0x200 \<or> k = 0x400 \<or> k = 0x600" by blast
  have "entry b i - table1 = 8 * (k + i)" by (simp add: entry_def k(1) algebra_simps)
  moreover have "8 * (k + i) < 0x4000"
  proof -
    have "unat i < 512" using i by (simp add: word_less_nat_alt)
    then show ?thesis using k(2) by (auto simp: word_less_nat_alt unat_word_ariths)
  qed
  ultimately have "zero_words table1 0x4000 Map.empty (entry b i) = Some 0"
    using entry_aligned [of "k + i"] by (simp add: zero_words_def)
  moreover have "page_base b" using b by auto
  ultimately show ?thesis
    using i by (simp add: kernel_space_def entry_inj)
qed

lemma kernel_links:
  "table_of (v2p table3 OR PTE_W OR PTE_P) = table3" "table_of (v2p table2 OR PTE_W OR PTE_P) = table2"
  "table_of (v2p table1 OR PTE_W OR PTE_P) = table1"
  using table_of_entry [of table3 3] table_of_entry [of table2 3] table_of_entry [of table1 3]
  by (simp_all add: or.assoc PTE_P_def PTE_W_def)

lemma kernel_space_inv: "pt_inv kernel_tables kernel_space"
proof -
  have "mem_ok kernel_space" using kernel_memory by (simp add: mem_ok_def)
  moreover have "table_ok kernel_tables kernel_space b l" if own: "kernel_tables b = Some l" for b l
  proof -
    have b: "b = table4 \<or> b = table3 \<or> b = table2 \<or> b = table1"
      and bl: "(b, l) \<in> {(table4, 4), (table3, 3), (table2, 2), (table1, 1)}"
      using own by (auto simp: kernel_tables_def split: if_splits)
    have "used_page kernel_space b" "b \<noteq> 0" "page_base b"
      using b kernel_memory(3)
      by (auto simp: used_page_def block_def PGSIZE_def table_addresses v2p_def KERNBASE_def page_base_def)
    moreover have "kernel_tables (table_of e) = Some (l - 1)"
      if "i < 512" "pt_heap kernel_space (entry b i) = Some e" "present e" "1 < l" for i e
      using that kernel_entry [OF b that(1)] bl kernel_links
      by (auto simp: kernel_tables_def present_bit table_addresses split: if_splits)
    ultimately show ?thesis
      using kernel_entry [OF b] by (auto simp: table_ok_def dom_def)
  qed
  ultimately show ?thesis by (simp add: pt_inv_def)
qed

lemma kernel_root [simp]: "kernel_tables table4 = Some 4" "vm_kernPml4 kernel_space = table4"
  by (simp_all add: kernel_tables_def kernel_space_def)

lemma kernel_indices:
  "PML4X KERNBASE = 511" "PDPTX KERNBASE = 510" "PDX KERNBASE = 0" "PTX KERNBASE = 0"
  by (simp_all add: PML4X_def PDPTX_def PDX_def PTX_def PML4XSHIFT_def PDPTXSHIFT_def PDXSHIFT_def
      PTXSHIFT_def PXMASK_def KERNBASE_def)

lemma kernel_maps: "maps kernel_space table4 KERNBASE (PTE_W OR PTE_P)"
proof -
  have "present (v2p a OR PTE_W OR PTE_P)" "present (PTE_W OR PTE_P)" for a
    by (simp_all add: present_bit PTE_W_def PTE_P_def bit_simps)
  then show ?thesis
    by (simp add: maps_def path_def kernel_indices kernel_entry kernel_links)
qed

text \<open>The data page.\<close>

abbreviation data_page :: u64 where "data_page \<equiv> 0xFFFFFFFF801FF000"

lemma data_page_used:
  "mapped (byte_heap kernel_space) data_page 16"
  "\<forall>i<16. unat (v2p (data_page + of_nat i)) \<in> in_use (boot_mem kernel_space)"
  unfolding kernel_memory(3)
  by (auto simp: kernel_space_def mapped_def v2p_def KERNBASE_def unat_word_ariths unat_of_nat)

end
