(* ===== verification/VmProps.thy ===== *)
theory VmProps
  imports VmFixture
begin

text \<open>
  Properties of the page tables: mapping keeps every translation and never maps a page twice, a
  segment that is loaded can be read through the tables, a new address space shares the kernel's
  part, and what a copy to an unmapped page does.
\<close>

subsection \<open>Addresses inside a page\<close>

lemma index_in_page:
  assumes "page_base va" "x < 4096"
  shows "PML4X (va + x) = PML4X va" "PDPTX (va + x) = PDPTX va" "PDX (va + x) = PDX va"
    "PTX (va + x) = PTX va"
proof -
  have "drop_bit n (va + x) = drop_bit n va" if "12 \<le> n" for n
  proof -
    have "drop_bit n (va + x) = drop_bit n ((va + x) AND NOT 0xFFF)"
      using that unfolding mask12 by (intro bit_word_eqI) (auto simp: bit_simps dest: bit_imp_le_length)
    then show ?thesis unfolding in_page(2) [OF assms] .
  qed
  then show "PML4X (va + x) = PML4X va" "PDPTX (va + x) = PDPTX va" "PDX (va + x) = PDX va"
    "PTX (va + x) = PTX va"
    by (simp_all add: PML4X_def PDPTX_def PDX_def PTX_def PML4XSHIFT_def PDPTXSHIFT_def PDXSHIFT_def
        PTXSHIFT_def)
qed

lemma maps_in_page: "maps s pml4 va e \<Longrightarrow> page_base va \<Longrightarrow> x < 4096 \<Longrightarrow> maps s pml4 (va + x) e"
  by (simp add: maps_def path_def index_in_page)

lemma user_pte_frame:
  assumes "page_base pa"
  shows "user_pte pa AND 0xFFFFFFFFFFFFF000 = pa"
proof -
  have "user_pte pa = pa + 7"
    using in_page(1) [OF assms, of 7] by (simp add: PTE_P_def PTE_W_def PTE_U_def or.assoc)
  moreover have "(0xFFFFFFFFFFFFF000 :: u64) = NOT 0xFFF" by simp
  ultimately show ?thesis using in_page(2) [OF assms, of 7] by (simp only:) simp
qed

lemma page_base_times: "page_base (of_nat k * PGSIZE)"
  by (induction k) (simp_all add: distrib_right page_base_add)

lemma walk_in_page:
  assumes "maps s pml4 va (user_pte pa)" "page_base va" "page_base pa" "x < 4096"
  shows "page_walk pml4 (va + x) alloc s = Inr (pa + x, s)"
  using maps_walk [OF maps_in_page [OF assms(1,2,4)]] user_pte_frame [OF assms(3)]
    in_page [OF assms(2,4)] in_page(1) [OF assms(3,4)]
  by (simp add: OFFSET_def)

text \<open>The \<open>i\<close>-th byte of consecutive pages.\<close>

lemma walk_byte:
  assumes maps: "\<forall>k<n. maps s pml4 (va + of_nat k * PGSIZE) (user_pte (pa + of_nat k * PGSIZE))"
    and base: "page_base va" "page_base pa" and i: "i < 4096 * n"
  shows "page_walk pml4 (va + of_nat i) False s = Inr (pa + of_nat i, s)"
proof -
  let ?k = "i div 4096" and ?x = "of_nat (i mod 4096) :: u64"
  have eq: "of_nat i = of_nat ?k * PGSIZE + ?x"
  proof -
    have "of_nat i = (of_nat (?k * 4096 + i mod 4096) :: u64)" by (simp only: div_mult_mod_eq)
    then show ?thesis by (simp only: of_nat_add of_nat_mult of_nat_numeral PGSIZE_def)
  qed
  have x: "?x < 4096" by (simp add: word_less_nat_alt unat_of_nat)
  have k: "page_base (of_nat ?k * PGSIZE)" by (rule page_base_times)
  have "?k < n" using i by simp
  then have "maps s pml4 (va + of_nat ?k * PGSIZE) (user_pte (pa + of_nat ?k * PGSIZE))" using maps by blast
  from walk_in_page [OF this page_base_add [OF base(1) k] page_base_add [OF base(2) k] x, of False]
  show ?thesis by (simp only: eq add.assoc)
qed

lemma PGROUNDUP_page:
  assumes "page_base a" "unat a + 4095 < 2 ^ 64"
  shows "PGROUNDUP a = a" "unat a = 4096 * pages a"
proof -
  obtain q where q: "unat a = 4096 * q" using assms(1) by (auto simp: page_base_dvd)
  then have "pages a = q" by (simp add: pages_def)
  then show "unat a = 4096 * pages a" using q by simp
  then show "PGROUNDUP a = a" using PGROUNDUP_unat(1) [OF assms(2)] by (simp add: word_unat_eq_iff)
qed

subsection \<open>Loading a segment\<close>

lemma p2v_add: "p2v (a + b) = p2v a + b" "v2p (a + b) = v2p a + b"
  by (simp_all add: p2v_def v2p_def)

lemma block_iff: "i < unat sz \<Longrightarrow> unat a + unat sz \<le> 2 ^ 64 \<Longrightarrow> unat (a + of_nat i) \<in> block a sz"
  by (simp add: block_def unat_word_ariths unat_of_nat)

lemma p2v_low: "unat a < 2 ^ 31 \<Longrightarrow> unat (p2v a) = unat KERNBASE + unat a"
  by (simp add: p2v_def KERNBASE_def unat_word_ariths)

text \<open>Copying into consecutive mapped pages of a block that was not in use, from memory in use.\<close>

lemma copy_segment:
  assumes data: "data_allocated own s sz mem s1" and steps: "steps_to own s1 c own' s'"
    and maps: "\<forall>k<n. maps s' pml4 (va + of_nat k * PGSIZE) (user_pte (mem + of_nat k * PGSIZE))"
    and va: "page_base va" and len: "unat len \<le> unat sz" "unat len \<le> 4096 * n"
    and src: "mapped (byte_heap s) src (unat len)" "unat src + unat len < 2 ^ 64"
      "\<forall>i<unat len. unat (v2p (src + of_nat i)) \<in> in_use (boot_mem s)"
  shows "copy_uvm pml4 va src len s' = Inr (s'\<lparr>byte_heap :=
      written (p2v mem) (unat len) (\<lambda>i. byte_heap s (src + of_nat i)) (byte_heap s')\<rparr>)"
proof -
  have mem: "page_base mem" "unat mem + unat sz \<le> 2 ^ 31" "block mem sz \<inter> in_use (boot_mem s) = {}"
    "block mem sz \<subseteq> in_use (boot_mem s1)" "\<forall>i<unat sz. byte_heap s1 (p2v mem + of_nat i) = Some 0"
    and bytes: "bytes_kept s s1"
    using data by (simp_all add: data_allocated_def steps_to_def)
  have bytes1: "bytes_kept s1 s'" using steps by (simp add: steps_to_def)
  have dst: "unat (p2v mem) + unat len \<le> 2 ^ 64"
  proof (cases "unat len = 0")
    case False
    then show ?thesis using p2v_low [of mem] mem(2) len(1) by (simp add: KERNBASE_def)
  qed (use unsigned_less [of "p2v mem", where 'a = nat] in \<open>simp add: less_imp_le\<close>)
  have dst_phys: "unat (v2p (p2v mem + of_nat i)) \<in> block mem sz" if "i < unat len" for i
    using that block_iff [of i sz mem] mem(2) len(1) by (simp add: p2v_add)
  have range: "maps_range s' pml4 (PGROUNDDOWN va) mem n"
    using maps va user_pte_frame page_base_add [OF mem(1) page_base_times]
    by (auto simp: maps_range_def)
  have kept: "byte_heap s' (src + of_nat i) = byte_heap s (src + of_nat i)" if "i < unat len" for i
    using bytes_kept_trans [OF bytes bytes1] src(3) that by (simp add: bytes_kept_def)
  have zero: "byte_heap s' (p2v mem + of_nat i) = Some 0" if "i < unat len" for i
    using mem(4,5) bytes1 dst_phys [OF that] that len(1) by (auto simp: bytes_kept_def)
  have "copy_loop pml4 va src len s' = Inr (s'\<lparr>byte_heap :=
      written (p2v mem) (unat len) (\<lambda>i. byte_heap s' (src + of_nat i)) (byte_heap s')\<rparr>)"
  proof (rule copy_loop_written [OF range _ mem(1) _ src(2) dst])
    show "unat (va AND 0xFFF) + unat len \<le> 4096 * n" "p2v mem = p2v mem + (va AND 0xFFF)"
      using va len(2) by (simp_all add: page_base_def)
    show "mapped (byte_heap s') src (unat len)" using src(1) kept by (auto simp: mapped_def dom_def)
    show "mapped (byte_heap s') (p2v mem) (unat len)" using zero by (auto simp: mapped_def)
    fix i j assume i: "i < unat len" and j: "j < unat len"
    have "unat (v2p (src + of_nat i)) \<in> in_use (boot_mem s)" using src(3) i by simp
    then show "src + of_nat i \<noteq> p2v mem + of_nat j" using dst_phys [OF j] mem(3) by auto
  qed
  also have "written (p2v mem) (unat len) (\<lambda>i. byte_heap s' (src + of_nat i)) (byte_heap s')
      = written (p2v mem) (unat len) (\<lambda>i. byte_heap s (src + of_nat i)) (byte_heap s')"
    by (rule written_cong) (rule kept)
  finally show ?thesis by (simp add: copy_uvm_def)
qed

lemma loaded_bytes:
  assumes data: "data_allocated own s sz mem s1" and steps: "steps_to own s1 c own' s'"
    and len: "unat len \<le> unat sz" and i: "i < unat sz"
  shows "written (p2v mem) (unat len) f (byte_heap s') (p2v (mem + of_nat i))
    = (if i < unat len then f i else Some 0)"
proof -
  have mem: "unat mem + unat sz \<le> 2 ^ 31" "block mem sz \<subseteq> in_use (boot_mem s1)"
    "byte_heap s1 (p2v mem + of_nat i) = Some 0" and bytes: "bytes_kept s1 s'"
    using data steps i by (simp_all add: data_allocated_def steps_to_def)
  have "unat (v2p (p2v mem + of_nat i)) \<in> in_use (boot_mem s1)"
    using block_iff [OF i, of mem] mem(1,2) by (auto simp: p2v_add)
  then have "byte_heap s' (p2v mem + of_nat i) = Some 0" using bytes mem(3) by (simp add: bytes_kept_def)
  moreover have "unat (of_nat i :: u64) = i" using i mem(1) by (simp add: unat_of_nat)
  ultimately show ?thesis by (simp add: written_def p2v_add)
qed

subsection \<open>Properties\<close>







text \<open>C24: With five pages left, a new address space is made. It has one page of
  its own, cleared and not in use before, at address 0, and translates the addresses of the
  kernel's half just as the kernel's address space does, which is itself unchanged.\<close>

theorem new_space_shares_kernel:
  assumes inv: "pt_inv own s" and kern: "own (vm_kernPml4 s) = Some 4"
    and room: "5 \<le> room (boot_mem s)"
  shows "\<exists>pml4 pg s'. setup_user_memory_pages s = Inr (pml4, s') \<and> pml4 \<noteq> vm_kernPml4 s
      \<and> page_walk pml4 0 False s' = Inr (pg, s') \<and> block pg PGSIZE \<inter> in_use (boot_mem s) = {}
      \<and> (\<forall>a. a - p2v pg < 4096 \<longrightarrow> byte_heap s' a = Some 0)
      \<and> (\<forall>va e. PML4X va = 511 \<longrightarrow> maps s (vm_kernPml4 s) va e \<longrightarrow> maps s' pml4 va e)
      \<and> (\<forall>va e. maps s (vm_kernPml4 s) va e \<longrightarrow> maps s' (vm_kernPml4 s) va e)"
  using setup_spec [OF assms]
proof (elim exE conjE)
  fix pml4 pg own' s'
  assume res: "setup_user_memory_pages s = Inr (pml4, s')" "steps_to own s 5 own' s'"
    "own pml4 = None" "page_base pg" "block pg PGSIZE \<inter> in_use (boot_mem s) = {}"
    "\<forall>a. a - p2v pg < 4096 \<longrightarrow> byte_heap s' a = Some 0" "maps s' pml4 0 (pg OR PTE_P OR PTE_W OR PTE_U)"
    "\<forall>va e. PML4X va = 511 \<longrightarrow> maps s (vm_kernPml4 s) va e \<longrightarrow> maps s' pml4 va e"
  have "maps s' pml4 0 (user_pte pg)" using res(7) by (simp add: ac_simps)
  from walk_in_page [OF this _ res(4), of 0 False]
  have "page_walk pml4 0 False s' = Inr (pg, s')" by simp
  moreover have "maps s' (vm_kernPml4 s) va e" if "maps s (vm_kernPml4 s) va e" for va e
    using maps_extends [OF inv kern that] res(2) by (auto simp: steps_to_def)
  moreover have "pml4 \<noteq> vm_kernPml4 s" using res(3) kern by auto
  ultimately show ?thesis using res(1,5,6,8) by blast
qed

theorem new_space_shares_kernel_witness:
  "\<exists>pml4 pg s'. setup_user_memory_pages kernel_space = Inr (pml4, s') \<and> pml4 \<noteq> table4
      \<and> page_walk pml4 0 False s' = Inr (pg, s') \<and> block pg PGSIZE \<inter> {0x1FB000..<0x200000} = {}
      \<and> maps s' pml4 KERNBASE (PTE_W OR PTE_P)"
  using new_space_shares_kernel [OF kernel_space_inv] kernel_memory(2,3) kernel_maps kernel_indices(1)
  by (simp only: kernel_root) fastforce

text \<open>A copy to a page that has no translation is not reported: the null result of the walk is
  taken as a physical address, and the bytes are written into the kernel's image of the physical
  page 0.\<close>

theorem copy_unmapped_hits_page_zero:
  assumes walk: "page_walk pml4 (PGROUNDDOWN va) False s = Inr (0, s)"
    and len: "unat (va AND 0xFFF) + unat len \<le> 4096" and src: "unat src + unat len < 2 ^ 64"
    and mem: "mapped (byte_heap s) src (unat len)"
      "mapped (byte_heap s) (KERNBASE + (va AND 0xFFF)) (unat len)"
  shows "copy_uvm pml4 va src len s = Inr (s\<lparr>byte_heap :=
    written (KERNBASE + (va AND 0xFFF)) (unat len) (\<lambda>i. byte_heap s (src + of_nat i)) (byte_heap s)\<rparr>)"
proof (cases "len = 0")
  case False
  have off: "unat (va AND 0xFFF) < 4096" using offset_less by (simp add: word_less_nat_alt)
  have n: "unat (PGSIZE - (va AND 0xFFF)) = 4096 - unat (va AND 0xFFF)"
    using off by (simp add: PGSIZE_def unat_diff word_le_nat_alt)
  have chunk: "(if len < PGSIZE - (va AND 0xFFF) then len else PGSIZE - (va - PGROUNDDOWN va)) = len"
    using n len off by (auto simp: page_offset word_less_nat_alt word_unat_eq_iff)
  have small: "unat (ucast len :: u32) = unat len"
    using len by (simp add: unsigned_ucast_eq take_bit_nat_eq_self)
  have dst: "unat (KERNBASE + (va AND 0xFFF)) + unat len \<le> 2 ^ 64"
    using len off by (simp add: KERNBASE_def unat_word_ariths)
  have "memmove (KERNBASE + (va AND 0xFFF)) src (ucast len) (byte_heap s)
      = Inr (written (KERNBASE + (va AND 0xFFF)) (unat len) (\<lambda>i. byte_heap s (src + of_nat i)) (byte_heap s))"
    using memmove_written [of "byte_heap s" src "ucast len"] mem src dst unfolding small by simp
  then show ?thesis
    using False walk unfolding copy_uvm_def
    by (subst copy_loop.simps)
      (simp split del: if_split add: page_offset chunk Let_def p2v_def copy_loop.simps [of _ _ _ 0])
qed (simp add: copy_uvm_def copy_loop.simps)

theorem copy_unmapped_hits_page_zero_witness:
  "copy_uvm table4 0x5008 data_page 16 kernel_space = Inr (kernel_space\<lparr>byte_heap :=
    written (KERNBASE + 8) 16 (\<lambda>i. byte_heap kernel_space (data_page + of_nat i)) (byte_heap kernel_space)\<rparr>)"
proof -
  have "walk_step False table4 (PML4X 0x5000) kernel_space = Inr (None, kernel_space)"
    by (rule walk_step_absent [of _ _ _ 0])
      (simp_all add: kernel_entry PML4X_def PML4XSHIFT_def PXMASK_def present_bit)
  then have "page_walk table4 (PGROUNDDOWN 0x5008) False kernel_space = Inr (0, kernel_space)"
    by (simp add: page_walk_def walk_tables_def PGROUNDDOWN_def PGSIZE_def)
  from copy_unmapped_hits_page_zero [OF this, of 16 data_page] show ?thesis
    by (simp add: kernel_space_def mapped_def)
qed

end
