(* ===== verification/ByteProps.thy ===== *)
theory ByteProps
  imports ByteOps
begin

text \<open>
  Properties of the byte and string operations: the optimised loops do what the plain ones would,
  and copied strings end.
\<close>

text \<open>A memory of 256 bytes for witnesses.\<close>

definition page_bytes :: bytes where
  "page_bytes = (\<lambda>a. if a < 256 then Some (ucast a) else None)"

lemma page_bytes_mapped [simp]: "unat a + n \<le> 256 \<Longrightarrow> mapped page_bytes a n"
  by (auto simp: mapped_def page_bytes_def word_less_nat_alt unat_word_ariths unat_of_nat)

text \<open>C35: \<open>memmove\<close> copies a snapshot: whatever way the two ranges overlap, the destination ends up
  with the bytes that the source had before, and nothing else changes.\<close>

theorem memmove_copies_snapshot:
  assumes "mapped m src (unat n)" "mapped m dst (unat n)"
    and "unat src + unat n < 2 ^ 64" "unat dst + unat n \<le> 2 ^ 64"
  shows "\<exists>m'. memmove dst src n m = Inr m' \<and> (\<forall>i<unat n. m' (dst + of_nat i) = m (src + of_nat i))
    \<and> (\<forall>p. (\<forall>i<unat n. p \<noteq> dst + of_nat i) \<longrightarrow> m' p = m p)"
proof -
  let ?m = "written dst (unat n) (\<lambda>i. m (src + of_nat i)) m"
  have "?m (dst + of_nat i) = m (src + of_nat i)" if "i < unat n" for i
  proof -
    have "i < 2 ^ 64" using that assms(3) by simp
    then show ?thesis using that by (simp add: written_def unat_of_nat)
  qed
  moreover have "?m p = m p" if "\<forall>i<unat n. p \<noteq> dst + of_nat i" for p
    using that spec [OF that, of "unat (p - dst)"] by (auto simp: written_def)
  ultimately show ?thesis using memmove_written [OF assms] by blast
qed

theorem memmove_copies_snapshot_witness:
  "\<exists>m'. memmove 20 16 8 page_bytes = Inr m' \<and> (\<forall>i<8. m' (20 + of_nat i) = page_bytes (16 + of_nat i))
    \<and> (\<forall>p. (\<forall>i<8. p \<noteq> 20 + of_nat i) \<longrightarrow> m' p = page_bytes p)"
  using memmove_copies_snapshot [of page_bytes 16 8 20] by simp

text \<open>Filling by words is filling by bytes: when \<open>memset\<close> takes the aligned path with its packed
  word, the memory is what the byte loop would have left.\<close>

theorem memset_words_as_bytes:
  assumes "mapped m dst (unat n)"
  shows "memset dst c n m = stosb dst c (unat n) m
    \<and> memset dst c n m = Inr (written dst (unat n) (\<lambda>_. Some (ucast c)) m)"
proof -
  have n: "unat n \<le> 2 ^ 64" using unsigned_less [of n, where 'a = nat] by simp
  show ?thesis using memset_written [OF assms, of c] stosb_written [OF assms n, of c] by simp
qed

theorem memset_words_as_bytes_witness:
  "memset 32 0x1FE 16 page_bytes = stosb 32 0x1FE 16 page_bytes"
  using memset_words_as_bytes [of page_bytes 32 16 "0x1FE"] by simp

text \<open>\<open>memcmp\<close> returns zero exactly for equal ranges.\<close>

theorem memcmp_zero_iff_equal:
  assumes "mapped m v1 (unat n)" "mapped m v2 (unat n)"
  shows "\<exists>r. memcmp v1 v2 n m = Inr r
    \<and> (r = 0 \<longleftrightarrow> (\<forall>i<unat n. m (v1 + of_nat i) = m (v2 + of_nat i)))"
  unfolding memcmp_def by (rule memcmp_loop_zero [OF assms])

theorem memcmp_zero_iff_equal_witness:
  "\<exists>r. memcmp 8 24 4 page_bytes = Inr r
    \<and> (r = 0 \<longleftrightarrow> (\<forall>i<4. page_bytes (8 + of_nat i) = page_bytes (24 + of_nat i)))"
  using memcmp_zero_iff_equal [of page_bytes 8 4 24] by simp

text \<open>\<open>safestrcpy\<close> writes only the \<open>n\<close> bytes of its buffer and always leaves a string in it: the
  source up to its first null byte, or its first \<open>n - 1\<close> bytes, followed by a null byte.\<close>

theorem safestrcpy_always_terminates:
  assumes n: "0 < sint n" and buf: "mapped m s (nat (sint n))" and src: "mapped m t (nat (sint n) - 1)"
    and apart: "\<And>i j. i < nat (sint n) \<Longrightarrow> j < nat (sint n) - 1 \<Longrightarrow> s + of_nat i \<noteq> t + of_nat j"
  shows "\<exists>m' k. safestrcpy s t n m = Inr m' \<and> k < nat (sint n)
    \<and> (\<forall>i<k. m' (s + of_nat i) = m (t + of_nat i) \<and> m (t + of_nat i) \<noteq> Some 0)
    \<and> m' (s + of_nat k) = Some 0 \<and> (k < nat (sint n) - 1 \<longrightarrow> m (t + of_nat k) = Some 0)
    \<and> (\<forall>p. (\<forall>i<nat (sint n). p \<noteq> s + of_nat i) \<longrightarrow> m' p = m p)"
proof -
  obtain q where q: "nat (sint n) = Suc q" using n by (cases "nat (sint n)") auto
  have "sint n < 2 ^ 31" using sint_lt [of n] by simp
  then have "q < 2 ^ 63" using q by simp
  from safestrcpy_loop_spec [OF _ _ this, of m t s] show ?thesis
    using n buf src apart unfolding q by (simp add: safestrcpy_def q less_Suc_eq_le)
qed

theorem safestrcpy_always_terminates_witness:
  "\<exists>m' k. safestrcpy 0 100 4 page_bytes = Inr m' \<and> k < 4
    \<and> (\<forall>i<k. m' (of_nat i) = page_bytes (100 + of_nat i) \<and> page_bytes (100 + of_nat i) \<noteq> Some 0)
    \<and> m' (of_nat k) = Some 0 \<and> (k < 3 \<longrightarrow> page_bytes (100 + of_nat k) = Some 0)
    \<and> (\<forall>p. (\<forall>i<4. p \<noteq> of_nat i) \<longrightarrow> m' p = page_bytes p)"
proof -
  have "of_nat i \<noteq> 100 + (of_nat j :: u64)" if "i < 4" "j < 3" for i j :: nat
  proof
    assume "of_nat i = 100 + (of_nat j :: u64)"
    then have "unat (of_nat i :: u64) = unat (100 + of_nat j :: u64)" by (rule arg_cong)
    then show False using that by (simp add: unat_word_ariths unat_of_nat)
  qed
  then show ?thesis using safestrcpy_always_terminates [of 4 page_bytes 0 100] by simp
qed

end
