(* ===== verification/Console.thy ===== *)
theory Console
  imports ByteOps "HOL-Library.Char_ord"
begin

text \<open>
  The console of \<open>src/kernel/console.c\<close>: number formatting, \<open>cprintf\<close> and the text screen. The
  screen's cursor is kept by the display controller: writing 14 or 15 to the index port selects
  the high or the low byte of the cursor, which the data port then reads or writes.
\<close>

subsection \<open>Numbers\<close>

definition digits :: string where "digits = ''0123456789abcdef''"

text \<open>The loop of \<open>printint\<close> and \<open>printlong\<close>: the digits go into a buffer of 16 characters, the last
  one first. \<open>x\<close> is an unsigned number of 32 or 64 bits.\<close>

function digit_loop :: "'a::len word \<Rightarrow> 'a word \<Rightarrow> string \<Rightarrow> kerror + string" where
  "digit_loop base x buf =
     (if \<not> length buf < 16 then Inl (OutOfBounds (length buf)) else
      let buf = buf @ [digits ! unat (x mod base)]; x = x div base in
      if x \<noteq> 0 then digit_loop base x buf else Inr buf)"
  by pat_completeness auto
termination by (relation "measure (\<lambda>(base, x, buf). 16 - length buf)") auto

declare digit_loop.simps [simp del]

definition push_char :: "char \<Rightarrow> string \<Rightarrow> kerror + string" where
  "push_char c buf = (if length buf < 16 then Inr (buf @ [c]) else Inl (OutOfBounds (length buf)))"

text \<open>The characters that go to \<open>consputc\<close>. \<open>xx\<close> is signed in \<open>printint\<close>, unsigned in \<open>printlong\<close>,
  where the test \<open>xx < 0\<close> is always false.\<close>

definition printint :: "u32 \<Rightarrow> u32 \<Rightarrow> bool \<Rightarrow> kerror + string" where
  "printint xx base sign =
     (let sign = (sign \<and> sint xx < 0); x = (if sign then - xx else xx) in
      bind_ok (digit_loop base x []) (\<lambda>buf.
      bind_ok (if sign then push_char CHR ''-'' buf else Inr buf) (\<lambda>buf. Inr (rev buf))))"

definition printlong :: "u64 \<Rightarrow> u64 \<Rightarrow> bool \<Rightarrow> kerror + string" where
  "printlong xx base sign = bind_ok (digit_loop base xx []) (\<lambda>buf. Inr (rev buf))"

primrec ptr_loop :: "nat \<Rightarrow> u64 \<Rightarrow> string" where
  "ptr_loop 0 x = []"
| "ptr_loop (Suc n) x = digits ! unat (drop_bit 60 x) # ptr_loop n (push_bit 4 x)"

definition printptr :: "u64 \<Rightarrow> string" where "printptr x = ptr_loop 16 x"

subsection \<open>Formatting\<close>

text \<open>The argument of \<open>consputc\<close> is an \<open>int\<close>: characters of the format are masked to a byte, those of
  a string argument are sign-extended.\<close>

definition codes :: "string \<Rightarrow> u32 list" where "codes cs = map of_char cs"

partial_function (option) put_str :: "bytes \<Rightarrow> u64 \<Rightarrow> u32 list \<Rightarrow> (kerror + u32 list) option" where
  "put_str m s acc = (case m s of
       None \<Rightarrow> Some (Inl (BadPtr s))
     | Some b \<Rightarrow> if b = 0 then Some (Inr acc) else put_str m (s + 1) (acc @ [scast b]))"

text \<open>\<open>None\<close> is a string argument without end. Arguments are words; \<open>int\<close> arguments are the low half of
  theirs. A missing argument is an access out of bounds.\<close>

definition emit :: "u32 list \<Rightarrow> (kerror + u32 list) option \<Rightarrow> (kerror + u32 list) option" where
  "emit cs r = map_option (map_sum id (\<lambda>ds. cs @ ds)) r"

fun format :: "bytes \<Rightarrow> string \<Rightarrow> u64 list \<Rightarrow> (kerror + u32 list) option" where
  "format m [] args = Some (Inr [])"
| "format m (c # fmt) args =
     (if c \<noteq> CHR ''%'' then emit [of_char c] (format m fmt args) else
      case fmt of
        [] \<Rightarrow> Some (Inr [])
      | d # fmt \<Rightarrow>
        if d \<in> {CHR ''d'', CHR ''x'', CHR ''l'', CHR ''p'', CHR ''s''} then
          case args of
            [] \<Rightarrow> Some (Inl (OutOfBounds 0))
          | a # args \<Rightarrow>
            case (if d = CHR ''d'' then Some (map_sum id codes (printint (ucast a) 10 True))
                  else if d = CHR ''x'' then Some (map_sum id codes (printint (ucast a) 16 False))
                  else if d = CHR ''l'' then Some (map_sum id codes (printlong a 16 False))
                  else if d = CHR ''p'' then Some (Inr (codes (printptr a)))
                  else if a = 0 then Some (Inr (codes ''(null)'')) else put_str m a []) of
              None \<Rightarrow> None
            | Some (Inl e) \<Rightarrow> Some (Inl e)
            | Some (Inr cs) \<Rightarrow> emit cs (format m fmt args)
        else if d = CHR ''%'' then emit [of_char CHR ''%''] (format m fmt args)
        else emit [of_char CHR ''%'', of_char d] (format m fmt args))"

subsection \<open>The screen\<close>

definition BACKSPACE :: u32 where "BACKSPACE = 0x100"
definition CRTPORT :: u16 where "CRTPORT = 0x3D4"
definition crt :: u64 where "crt = p2v 0xB8000"

record console =
  crtc_index :: u8
  crtc_regs :: "u8 \<Rightarrow> u8"
  crt_mem :: bytes

definition crtc_out :: "u16 \<Rightarrow> u8 \<Rightarrow> console \<Rightarrow> console" where
  "crtc_out port v c =
     (if port = CRTPORT then c\<lparr>crtc_index := v\<rparr>
      else if port = CRTPORT + 1 then c\<lparr>crtc_regs := (crtc_regs c)(crtc_index c := v)\<rparr> else c)"

definition crtc_in :: "u16 \<Rightarrow> console \<Rightarrow> u8" where
  "crtc_in port c = (if port = CRTPORT + 1 then crtc_regs c (crtc_index c) else crtc_index c)"

definition store16 :: "u64 \<Rightarrow> u16 \<Rightarrow> bytes \<Rightarrow> kerror + bytes" where
  "store16 a v m = bind_ok (store8 a (ucast v) m) (store8 (a + 1) (ucast (drop_bit 8 v)))"

text \<open>\<open>crt[pos]\<close>.\<close>

definition cell :: "int \<Rightarrow> u64" where "cell pos = crt + 2 * of_int pos"

definition cgaputc :: "u32 \<Rightarrow> console \<Rightarrow> kerror + console" where
  "cgaputc c st =
     (let st = crtc_out CRTPORT 14 st; hi = crtc_in (CRTPORT + 1) st;
          st = crtc_out CRTPORT 15 st; lo = crtc_in (CRTPORT + 1) st;
          pos = 256 * uint hi + uint lo in
      bind_ok
        (if c = 10 then Inr (pos + (80 - pos mod 80), crt_mem st)
         else if c = BACKSPACE then Inr (if pos > 0 then pos - 1 else pos, crt_mem st)
         else bind_ok (store16 (cell pos) (ucast (c AND 0xFF) OR 0x700) (crt_mem st)) (\<lambda>m.
              Inr (pos + 1, m))) (\<lambda>(pos, m).
      bind_ok
        (if pos div 80 \<ge> 24 then
           bind_ok (memmove crt (cell 80) (2 * 23 * 80) m) (\<lambda>m.
           let pos = pos - 80 in
           bind_ok (memset (cell pos) 0 (of_int (2 * (24 * 80 - pos))) m) (\<lambda>m. Inr (pos, m)))
         else Inr (pos, m)) (\<lambda>(pos, m).
      let st = crtc_out CRTPORT 14 st; st = crtc_out (CRTPORT + 1) (of_int (pos div 256)) st;
          st = crtc_out CRTPORT 15 st; st = crtc_out (CRTPORT + 1) (of_int pos) st in
      bind_ok (store16 (cell pos) (of_char CHR '' '' OR 0x700) m) (\<lambda>m.
      Inr (st\<lparr>crt_mem := m\<rparr>)))))"

definition consputc :: "u32 \<Rightarrow> console \<Rightarrow> kerror + console" where
  "consputc c st = cgaputc c st"

text \<open>A null format panics. The text is put out character by character.\<close>

definition cprintf :: "bytes \<Rightarrow> string option \<Rightarrow> u64 list \<Rightarrow> console \<Rightarrow> (kerror + console) option" where
  "cprintf m fmt args st =
     (case fmt of
        None \<Rightarrow> Some (Inl (Panic ''null fmt''))
      | Some fmt \<Rightarrow>
        map_option (\<lambda>r. bind_ok r (\<lambda>cs. fold_ok consputc cs st)) (format m fmt args))"

text \<open>\<open>panic\<close> prints its message and a newline, sets \<open>panicked\<close> and never returns: the result is the state
  in which the machine stays.\<close>

definition panic :: "bytes \<Rightarrow> string \<Rightarrow> console \<Rightarrow> (kerror + console \<times> bool) option" where
  "panic m s st =
     (case cprintf m (Some s) [] st of
        None \<Rightarrow> None
      | Some (Inl e) \<Rightarrow> Some (Inl e)
      | Some (Inr st) \<Rightarrow>
        map_option (\<lambda>r. bind_ok r (\<lambda>st. Inr (st, True))) (cprintf m (Some [CHR 0x0A]) [] st))"

end
