(* ===== verification/ConsoleProps.thy ===== *)
theory ConsoleProps
  imports Console VmUser
begin

text \<open>
  Properties of the console: printed numbers read back, and the screen is only written where it is.
\<close>

subsection \<open>Reading numbers back\<close>

definition digit_val :: "char \<Rightarrow> nat" where
  "digit_val c = (if c \<le> CHR ''9'' then of_char c - 48 else of_char c - 87)"

definition parse_nat :: "nat \<Rightarrow> string \<Rightarrow> nat" where
  "parse_nat base s = foldl (\<lambda>v c. base * v + digit_val c) 0 s"

definition parse_int :: "string \<Rightarrow> int" where
  "parse_int s = (case s of
     c # cs \<Rightarrow> if c = CHR ''-'' then - int (parse_nat 10 cs) else int (parse_nat 10 s) | [] \<Rightarrow> 0)"

lemma parse_nat_simps [simp]:
  "parse_nat base [] = 0" "parse_nat base (s @ [c]) = base * parse_nat base s + digit_val c"
  "parse_nat base [c] = digit_val c"
  by (simp_all add: parse_nat_def)

lemma digit_digits:
  assumes "i < 16"
  shows "digit_val (digits ! i) = i" "digits ! i \<noteq> CHR ''-''"
proof -
  have "\<forall>i<16. digit_val (digits ! i) = i \<and> digits ! i \<noteq> CHR ''-''"
    unfolding digits_def by (simp add: All_less_Suc2 numeral_eq_Suc digit_val_def less_eq_char_def) 
  then show "digit_val (digits ! i) = i" "digits ! i \<noteq> CHR ''-''" using assms by simp_all
qed

lemma digit_loop_spec:
  "1 < unat base \<Longrightarrow> unat base \<le> 16 \<Longrightarrow> unat x < unat base ^ n \<Longrightarrow> 0 < n \<Longrightarrow> length buf + n \<le> 16 \<Longrightarrow>
    \<exists>ds. digit_loop base x buf = Inr (buf @ ds) \<and> 0 < length ds \<and> length ds \<le> n \<and> CHR ''-'' \<notin> set ds
      \<and> parse_nat (unat base) (rev ds) = unat x"
proof (induction n arbitrary: x buf)
  case (Suc n)
  let ?d = "digits ! unat (x mod base)" and ?x = "x div base"
  have d: "unat (x mod base) < 16" using Suc.prems(1,2) mod_less_divisor [of "unat base" "unat x"]
    unfolding unat_mod by linarith
  show ?case
  proof (cases "?x = 0")
    case True
    then have "unat (x mod base) = unat x"
      by (metis unat_div unat_mod unat_0 add.right_neutral mult_zero_right mod_mult_div_eq)
    then show ?thesis
      using True Suc.prems digit_digits [OF d]
      by (intro exI [of _ "[?d]"]) (simp add: digit_loop.simps [of base x] Let_def)
  next
    case False
    then have "0 < unat x div unat base" by (metis unat_div unat_eq_zero gr0I)
    then have "unat base \<le> unat x" by (metis div_less not_le less_irrefl)
    then have n: "0 < n" using Suc.prems(3) by (cases n) simp_all
    have "unat ?x < unat base ^ n"
      using Suc.prems(1,3) by (simp add: unat_div less_mult_imp_div_less mult.commute)
    then obtain ds where ds: "digit_loop base ?x (buf @ [?d]) = Inr ((buf @ [?d]) @ ds)" "length ds \<le> n"
        "CHR ''-'' \<notin> set ds" "parse_nat (unat base) (rev ds) = unat ?x"
      using Suc.IH [of ?x "buf @ [?d]"] Suc.prems(1,2,5) n by auto
    have "unat base * unat ?x + unat (x mod base) = unat x"
      by (simp add: unat_div unat_mod)
    then show ?thesis
      using False Suc.prems(5) ds digit_digits [OF d]
      by (intro exI [of _ "?d # ds"]) (simp add: digit_loop.simps [of base x] Let_def)
  qed
qed simp

lemma unat_of_sint:
  fixes w :: u32
  shows "0 \<le> sint w \<Longrightarrow> int (unat w) = sint w" and "sint w < 0 \<Longrightarrow> int (unat (- w)) = - sint w"
proof -
  have range: "- (2 ^ 31) \<le> sint w" "sint w < 2 ^ 31" using sint_ge [of w] sint_lt [of w] by simp_all
  have of_int: "int (unat (of_int k :: u32)) = k" if "0 \<le> k" "k < 2 ^ 32" for k
    using that by (simp add: take_bit_int_eq_self uint_word_of_int)
  show "0 \<le> sint w \<Longrightarrow> int (unat w) = sint w" using of_int [of "sint w"] range by simp
  show "sint w < 0 \<Longrightarrow> int (unat (- w)) = - sint w" using of_int [of "- sint w"] range by simp
qed

text \<open>C32: Printed decimal numbers read back: for every 32-bit number, the smallest one included,
  \<open>printint\<close> stays within its buffer and prints a numeral of at most 11 characters whose value is
  the number.\<close>

theorem printint_roundtrip:
  "\<exists>s. printint xx 10 True = Inr s \<and> parse_int s = sint xx \<and> length s \<le> 11"
proof (cases "sint xx < 0")
  case True
  have "unat (- xx) < unat (10 :: u32) ^ 10" using unsigned_less [of "- xx", where 'a = nat] by simp
  from digit_loop_spec [of 10, OF _ _ this, of "[]"] obtain ds where ds:
    "digit_loop 10 (- xx) [] = Inr ds" "length ds \<le> 10" "parse_nat 10 (rev ds) = unat (- xx)" by auto
  have "int (unat (- xx)) = - sint xx" using True by (rule unat_of_sint)
  then show ?thesis
    using True ds by (simp add: printint_def push_char_def parse_int_def)
next
  case False
  have "unat xx < unat (10 :: u32) ^ 10" using unsigned_less [of xx, where 'a = nat] by simp
  from digit_loop_spec [of 10, OF _ _ this, of "[]"] obtain ds where ds:
    "digit_loop 10 xx [] = Inr ds" "length ds \<le> 10" "0 < length ds" "CHR ''-'' \<notin> set ds"
    "parse_nat 10 (rev ds) = unat xx" by auto
  obtain c cs where "rev ds = c # cs" "c \<noteq> CHR ''-''"
  proof -
    have "rev ds \<noteq> []" "CHR ''-'' \<notin> set (rev ds)" using ds(3,4) by simp_all
    then show ?thesis using that by (cases "rev ds") auto
  qed
  moreover have "int (unat xx) = sint xx" using False by (intro unat_of_sint) simp
  ultimately show ?thesis
    using False ds by (simp add: printint_def parse_int_def)
qed

lemma ptr_loop_value:
  "n \<le> 16 \<Longrightarrow> foldl (\<lambda>v c. 16 * v + digit_val c) v (ptr_loop n x)
    = 16 ^ n * v + unat (drop_bit (64 - 4 * n) x)"
proof (induction n arbitrary: x v)
  case 0
  have "drop_bit 64 x = 0" by (intro bit_word_eqI) (simp add: bit_simps)
  then show ?case by simp
next
  case (Suc n)
  let ?k = "64 - 4 * Suc n"
  have "unat (drop_bit 60 x) < 16"
    using unsigned_less [of x, where 'a = nat] by (simp add: unat_drop_bit_eq drop_bit_nat_def)
  note d = digit_digits(1) [OF this]
  have split: "unat (drop_bit ?k x) = 16 ^ n * unat (drop_bit 60 x) + unat (drop_bit (64 - 4 * n) (push_bit 4 x))"
  proof -
    define y where "y = unat x"
    define q r where "q = y div 2 ^ 60" and "r = y mod 2 ^ 60"
    have y: "y = 2 ^ 60 * q + r" "r < 2 ^ 60" by (simp_all add: q_def r_def)
    define k :: nat where "k = 60 - 4 * n"
    have k: "60 = 4 * n + k" "?k = k" "64 - 4 * n = 4 + k" using Suc.prems by (simp_all add: k_def)
    have "(16 * y) mod 2 ^ 64 = 16 * r" using y by simp
    then have "unat (drop_bit (64 - 4 * n) (push_bit 4 x)) = 16 * r div 2 ^ (4 + k)"
      unfolding k(3) by (simp add: unat_drop_bit_eq drop_bit_nat_def push_bit_eq_mult unat_word_ariths y_def
          mult.commute [of _ 16])
    also have "\<dots> = r div 2 ^ k" by (simp add: power_add)
    finally have low: "unat (drop_bit (64 - 4 * n) (push_bit 4 x)) = r div 2 ^ k" .
    have "y = 2 ^ k * (16 ^ n * q) + r"
      unfolding y(1) k(1) by (simp add: power_add power_mult)
    then have "y div 2 ^ k = 16 ^ n * q + r div 2 ^ k" by simp
    then show ?thesis
      unfolding low k(2) by (simp add: unat_drop_bit_eq drop_bit_nat_def q_def y_def)
  qed
  show ?case using Suc.IH [of "16 * v + unat (drop_bit 60 x)" "push_bit 4 x"] Suc.prems d split
    by (simp add: algebra_simps)
qed

text \<open>Hexadecimal output: \<open>%x\<close>, \<open>%l\<close> and \<open>%p\<close> print numerals of the whole number, at most 8 and
  16 digits and exactly 16; the buffer of 16 characters is just large enough.\<close>

theorem hex_roundtrip:
  "(\<exists>s. printint x 16 False = Inr s \<and> parse_nat 16 s = unat x \<and> length s \<le> 8)
    \<and> (\<exists>s. printlong y 16 sign = Inr s \<and> parse_nat 16 s = unat y \<and> length s \<le> 16)
    \<and> parse_nat 16 (printptr y) = unat y \<and> length (printptr y) = 16"
proof (intro conjI)
  have "unat x < unat (16 :: u32) ^ 8" using unsigned_less [of x, where 'a = nat] by simp
  from digit_loop_spec [of 16, OF _ _ this, of "[]"]
  show "\<exists>s. printint x 16 False = Inr s \<and> parse_nat 16 s = unat x \<and> length s \<le> 8"
    by (auto simp: printint_def)
  have "unat y < unat (16 :: u64) ^ 16" using unsigned_less [of y, where 'a = nat] by simp
  from digit_loop_spec [of 16, OF _ _ this, of "[]"]
  show "\<exists>s. printlong y 16 sign = Inr s \<and> parse_nat 16 s = unat y \<and> length s \<le> 16"
    by (auto simp: printlong_def)
  show "parse_nat 16 (printptr y) = unat y"
    using ptr_loop_value [of 16 0 y] by (simp add: parse_nat_def printptr_def)
  have "length (ptr_loop n z) = n" for n z by (induction n arbitrary: z) simp_all
  then show "length (printptr y) = 16" by (simp add: printptr_def)
qed

subsection \<open>The screen\<close>

definition cursor :: "console \<Rightarrow> int" where
  "cursor st = 256 * uint (crtc_regs st 14) + uint (crtc_regs st 15)"

text \<open>The 25 rows of 80 cells are there, and the cursor is in one of the first 24.\<close>

definition screen_ok :: "console \<Rightarrow> bool" where
  "screen_ok st \<longleftrightarrow> mapped (crt_mem st) crt 4000 \<and> cursor st < 1920"

definition off_screen_kept :: "bytes \<Rightarrow> bytes \<Rightarrow> bool" where
  "off_screen_kept m m' \<longleftrightarrow> (\<forall>p. \<not> unat (p - crt) < 4000 \<longrightarrow> m' p = m p)"

definition on_screen :: "bytes \<Rightarrow> bytes \<Rightarrow> bool" where
  "on_screen m m' \<longleftrightarrow> mapped m' crt 4000 \<and> off_screen_kept m m'"

text \<open>What the screen shows: 25 rows of 80 cells, each a character with its colours, and the cursor.\<close>

record terminal =
  cells :: "nat \<Rightarrow> u16 option"
  tpos :: nat

definition byte_pair :: "u8 option \<Rightarrow> u8 option \<Rightarrow> u16 option" where
  "byte_pair a b = (case (a, b) of (Some l, Some h) \<Rightarrow> Some (ucast l OR push_bit 8 (ucast h)) | _ \<Rightarrow> None)"

definition glyph :: "bytes \<Rightarrow> nat \<Rightarrow> u16 option" where
  "glyph m i = (if i < 2000 then byte_pair (m (crt + of_nat (2 * i))) (m (crt + of_nat (2 * i + 1))) else None)"

definition terminal_of :: "console \<Rightarrow> terminal" where
  "terminal_of st = \<lparr>cells = glyph (crt_mem st), tpos = nat (cursor st)\<rparr>"

text \<open>Putting out a character: a newline goes to the start of the next row, a backspace goes one cell back,
  any other character is written at the cursor in white on black. When the cursor has reached the last row, the rows
  move up by one and an empty row follows. The cell at the cursor becomes a space.\<close>

definition put_at :: "u32 \<Rightarrow> terminal \<Rightarrow> terminal" where
  "put_at c T = (if c = 10 then T\<lparr>tpos := tpos T + (80 - tpos T mod 80)\<rparr>
     else if c = BACKSPACE then T\<lparr>tpos := tpos T - 1\<rparr>
     else \<lparr>cells = (cells T)(tpos T \<mapsto> ucast (c AND 0xFF) OR 0x700), tpos = tpos T + 1\<rparr>)"

definition scroll :: "terminal \<Rightarrow> terminal" where
  "scroll T = (if 1920 \<le> tpos T
     then \<lparr>cells = (\<lambda>i. if i < 1840 then cells T (i + 80) else if i < 1920 then Some 0 else cells T i), tpos = tpos T - 80\<rparr>
     else T)"

definition put_char :: "u32 \<Rightarrow> terminal \<Rightarrow> terminal" where
  "put_char c T = (let T = scroll (put_at c T) in T\<lparr>cells := (cells T)(tpos T \<mapsto> 0x720)\<rparr>)"

lemma on_screen_trans: "on_screen m m1 \<Longrightarrow> on_screen m1 m2 \<Longrightarrow> on_screen m m2"
  by (simp add: on_screen_def off_screen_kept_def)

lemma on_screen_refl: "mapped m crt 4000 \<Longrightarrow> on_screen m m"
  by (simp add: on_screen_def off_screen_kept_def)

lemma on_screen_written:
  assumes "mapped m crt 4000" "k + n \<le> 4000" "\<And>i. i < n \<Longrightarrow> f i \<noteq> None"
  shows "on_screen m (written (crt + of_nat k) n f m)"
proof -
  have "unat (p - crt) < 4000" if "unat (p - (crt + of_nat k)) < n" for p
  proof -
    define q where "q = p - (crt + of_nat k)"
    have "unat (q + of_nat k) \<le> unat q + unat (of_nat k :: u64)" by (simp add: unat_word_ariths)
    moreover have "p - crt = q + of_nat k" by (simp add: q_def)
    moreover have "unat (of_nat k :: u64) = k" using assms(2) by (simp add: unat_of_nat)
    ultimately have "unat (p - crt) \<le> unat (p - (crt + of_nat k)) + k" unfolding q_def by metis
    then show ?thesis using that assms(2) by simp
  qed
  then show ?thesis
    using assms(1) mapped_written [of m crt 4000 n f "crt + of_nat k"] assms(3)
    by (auto simp: on_screen_def off_screen_kept_def written_def)
qed

lemma mapped_part: "mapped m crt 4000 \<Longrightarrow> k + n \<le> 4000 \<Longrightarrow> mapped m (crt + of_nat k) n"
  using mapped_drop [of m crt k n] mapped_mono [of m crt 4000 "k + n"] by simp

lemma cell_nat: "0 \<le> pos \<Longrightarrow> cell pos = crt + of_nat (2 * nat pos)"
  by (simp add: cell_def)

lemma split16: "(ucast (ucast v :: u8) :: u16) OR push_bit 8 (ucast (ucast (drop_bit 8 v) :: u8)) = v"
  by (rule bit_word_eqI) (auto simp: bit_simps)

lemma store_on_screen:
  assumes m: "mapped m crt 4000" and pos: "0 \<le> pos" "pos < 2000"
  obtains m' where "store16 (cell pos) v m = Inr m'" "on_screen m m'" "glyph m' = (glyph m)(nat pos \<mapsto> v)"
proof -
  let ?k = "2 * nat pos"
  have k: "?k < 4000" "?k + 1 < 4000" using pos by simp_all
  have inside_unat: "unat (crt + of_nat j - crt) = j" if "j < 4000" for j
    using that by (simp add: unat_of_nat)
  then have inside: "unat (crt + of_nat j - crt) < 4000" if "j < 4000" for j using that by simp
  have c: "cell pos = crt + of_nat ?k" "cell pos + 1 = crt + of_nat (?k + 1)"
    using pos by (simp_all add: cell_nat)
  have "cell pos \<in> dom m" unfolding c(1) using k(1) m by (simp only: mapped_def)
  moreover have "cell pos + 1 \<in> dom m" unfolding c(2) using k(2) m by (simp only: mapped_def)
  ultimately have store: "store16 (cell pos) v m = Inr (m(cell pos \<mapsto> ucast v, cell pos + 1 \<mapsto> ucast (drop_bit 8 v)))"
    by (simp add: store16_def)
  have "unat (cell pos - crt) < 4000" unfolding c(1) by (rule inside [OF k(1)])
  moreover have "unat (cell pos + 1 - crt) < 4000" unfolding c(2) by (rule inside [OF k(2)])
  ultimately have "on_screen m (m(cell pos \<mapsto> ucast v, cell pos + 1 \<mapsto> ucast (drop_bit 8 v)))"
    using m by (auto simp: on_screen_def off_screen_kept_def mapped_def)
  moreover have "glyph (m(cell pos \<mapsto> ucast v, cell pos + 1 \<mapsto> ucast (drop_bit 8 v))) i = ((glyph m)(nat pos \<mapsto> v)) i" for i
  proof (cases "i < 2000")
    case True
    have eq: "crt + of_nat j = crt + of_nat l \<longleftrightarrow> j = l" if "j < 4000" "l < 4000" for j l
      using that inside [of j] by (metis inside_unat add_diff_cancel_left')
    have "nat pos < 2000" using pos by simp
    have j: "2 * i < 4000" "2 * i + 1 < 4000" using True by simp_all
    have odd: "2 * a \<noteq> 2 * b + 1" for a b :: nat by presburger
    note ne = odd [of i "nat pos"] odd [of "nat pos" i, symmetric]
    have at: "(m(crt + of_nat ?k \<mapsto> x, crt + of_nat (?k + 1) \<mapsto> y)) (crt + of_nat j)
        = (if j = ?k + 1 then Some y else if j = ?k then Some x else m (crt + of_nat j))" if "j < 4000" for j x y
      by (simp only: fun_upd_apply eq [OF that k(1)] eq [OF that k(2)])
    show ?thesis
      unfolding glyph_def c(2) unfolding c(1) at [OF j(1)] at [OF j(2)] using True ne split16 [of v]
      by (cases "i = nat pos") (simp_all add: byte_pair_def glyph_def)
  qed (use pos in \<open>simp add: glyph_def\<close>)
  ultimately show ?thesis using store by (intro that) auto
qed

lemma written_on_screen:
  assumes "j < 4000" and "k + n \<le> 4000"
  shows "written (crt + of_nat k) n f m (crt + of_nat j) = (if k \<le> j \<and> j < k + n then f (j - k) else m (crt + of_nat j))"
proof -
  have "unat (crt + of_nat j - (crt + of_nat k)) = (if k \<le> j then j - k else j + 2 ^ 64 - k)"
    using assms by (simp add: unat_sub_if' unat_of_nat)
  then show ?thesis using assms by (auto simp: written_def)
qed

text \<open>Scrolling: the lower 23 rows move up and the row below them is cleared.\<close>

lemma scroll_on_screen:
  assumes m: "mapped m crt 4000"
  obtains m1 m2 where "memmove crt (cell 80) (2 * 23 * 80) m = Inr m1"
    "memset (cell 1840) 0 (of_int (2 * (24 * 80 - 1840))) m1 = Inr m2" "on_screen m m2"
    "glyph m2 = (\<lambda>i. if i < 1840 then glyph m (i + 80) else if i < 1920 then Some 0 else glyph m i)"
proof -
  let ?m1 = "written (crt + of_nat 0) 3680 (\<lambda>i. m (cell 80 + of_nat i)) m"
  let ?m2 = "written (crt + of_nat 3680) 160 (\<lambda>_. Some (ucast (0 :: u32))) ?m1"
  have src: "cell 80 = crt + of_nat 160" by (simp add: cell_def)
  have "mapped m (crt + of_nat 160) 3680" "mapped m (crt + of_nat 0) 3680"
    by (rule mapped_part [OF m], simp)+
  then have "memmove crt (cell 80) (2 * 23 * 80) m = Inr ?m1"
    and some: "\<And>i. i < 3680 \<Longrightarrow> m (cell 80 + of_nat i) \<noteq> None"
    using memmove_written [of m "cell 80" 3680 crt] by (auto simp: src crt_def p2v_def KERNBASE_def mapped_def)
  moreover have 1: "on_screen m ?m1" using m some by (intro on_screen_written) simp_all
  then have m1: "mapped ?m1 crt 4000" by (simp add: on_screen_def)
  have dst: "cell 1840 = crt + of_nat 3680" by (simp add: cell_def)
  have "memset (cell 1840) 0 160 ?m1 = Inr ?m2"
    using memset_written [of ?m1 "cell 1840" 160 0] mapped_part [OF m1, of 3680 160] unfolding dst by simp
  moreover have "on_screen ?m1 ?m2" using m1 by (intro on_screen_written) simp_all
  moreover have "glyph ?m2 = (\<lambda>i. if i < 1840 then glyph m (i + 80) else if i < 1920 then Some 0 else glyph m i)"
  proof
    fix i
    have at: "?m2 (crt + of_nat j) = (if j < 3680 then m (crt + of_nat (160 + j)) else if j < 3840 then Some 0
        else m (crt + of_nat j))" if "j < 4000" for j
      using written_on_screen [OF that, of 3680 160] written_on_screen [OF that, of 0 3680] that
      unfolding src by (simp add: add.assoc)
    show "glyph ?m2 i = (if i < 1840 then glyph m (i + 80) else if i < 1920 then Some 0 else glyph m i)"
      using at [of "2 * i"] at [of "2 * i + 1"] by (auto simp: glyph_def byte_pair_def algebra_simps)
  qed
  ultimately show ?thesis using that on_screen_trans [OF 1] by simp
qed

lemma crtc_cursor:
  "cursor (crtc_out (CRTPORT + 1) (of_int pos) (crtc_out CRTPORT 15
      (crtc_out (CRTPORT + 1) (of_int (pos div 256)) (crtc_out CRTPORT 14 st)))) = pos mod 65536"
  using zmod_zmult2_eq [of 256 pos 256]
  by (simp add: cursor_def crtc_out_def CRTPORT_def uint_word_of_int take_bit_eq_mod)

lemma cgaputc_on_screen:
  assumes ok: "screen_ok st"
  obtains st' where "cgaputc c st = Inr st'" "screen_ok st'" "on_screen (crt_mem st) (crt_mem st')"
    "terminal_of st' = put_char c (terminal_of st)"
proof -
  let ?pos = "cursor st" and ?st = "crtc_out CRTPORT 15 (crtc_out CRTPORT 14 st)"
  have m: "mapped (crt_mem st) crt 4000" and pos: "0 \<le> ?pos" "?pos < 1920"
    using ok by (simp_all add: screen_ok_def cursor_def)
  have read: "256 * uint (crtc_in (CRTPORT + 1) (crtc_out CRTPORT 14 st))
      + uint (crtc_in (CRTPORT + 1) ?st) = ?pos" "crt_mem ?st = crt_mem st"
    by (simp_all add: cursor_def crtc_in_def crtc_out_def CRTPORT_def)
  obtain pos1 m1 where 1: "(if c = 10 then Inr (?pos + (80 - ?pos mod 80), crt_mem st)
      else if c = BACKSPACE then Inr (if ?pos > 0 then ?pos - 1 else ?pos, crt_mem st)
      else bind_ok (store16 (cell ?pos) (ucast (c AND 0xFF) OR 0x700) (crt_mem st)) (\<lambda>m.
           Inr (?pos + 1, m))) = Inr (pos1, m1)" "0 \<le> pos1" "pos1 \<le> 1920" "on_screen (crt_mem st) m1"
      "\<lparr>cells = glyph m1, tpos = nat pos1\<rparr> = put_at c (terminal_of st)"
  proof -
    have lt: "?pos < 2000" using pos(2) by linarith
    have "?pos div 80 < 24" using pos(2) by linarith
    then have "?pos + (80 - ?pos mod 80) \<le> 1920" using mult_div_mod_eq [of 80 ?pos] by linarith
    moreover obtain m' where "store16 (cell ?pos) (ucast (c AND 0xFF) OR 0x700) (crt_mem st) = Inr m'"
        "on_screen (crt_mem st) m'" "glyph m' = (glyph (crt_mem st))(nat ?pos \<mapsto> ucast (c AND 0xFF) OR 0x700)"
      by (rule store_on_screen [OF m pos(1) lt])
    moreover have "0 \<le> ?pos + (80 - ?pos mod 80)" using pos(1) pos_mod_bound [of 80 ?pos] by simp
    moreover have "nat (?pos + (80 - ?pos mod 80)) = nat ?pos + (80 - nat ?pos mod 80)"
      using pos(1) pos_mod_bound [of 80 ?pos] pos_mod_sign [of 80 ?pos] by (simp add: nat_add_distrib nat_diff_distrib nat_mod_distrib)
    moreover have "nat (?pos + 1) = nat ?pos + 1" "nat (?pos - 1) = nat ?pos - 1" using pos(1) by simp_all
    ultimately show ?thesis
      using pos on_screen_refl [OF m]
      by (intro that [of "if c = 10 then ?pos + (80 - ?pos mod 80)
            else if c = BACKSPACE then (if ?pos > 0 then ?pos - 1 else ?pos) else ?pos + 1"
          "if c = 10 \<or> c = BACKSPACE then crt_mem st else m'"])
        (simp_all add: put_at_def terminal_of_def)
  qed
  obtain pos2 m2 where 2: "(if pos1 div 80 \<ge> 24 then
        bind_ok (memmove crt (cell 80) (2 * 23 * 80) m1) (\<lambda>m.
        let pos = pos1 - 80 in
        bind_ok (memset (cell pos) 0 (of_int (2 * (24 * 80 - pos))) m) (\<lambda>m. Inr (pos, m)))
      else Inr (pos1, m1)) = Inr (pos2, m2)" "0 \<le> pos2" "pos2 < 1920" "on_screen (crt_mem st) m2"
      "\<lparr>cells = glyph m2, tpos = nat pos2\<rparr> = scroll (put_at c (terminal_of st))"
  proof (cases "pos1 = 1920")
    case True
    have "mapped m1 crt 4000" using 1(4) by (simp add: on_screen_def)
    then obtain ma mb where scroll: "memmove crt (cell 80) (2 * 23 * 80) m1 = Inr ma"
        "memset (cell 1840) 0 (of_int (2 * (24 * 80 - 1840))) ma = Inr mb" "on_screen m1 mb"
        "glyph mb = (\<lambda>i. if i < 1840 then glyph m1 (i + 80) else if i < 1920 then Some 0 else glyph m1 i)"
      by (rule scroll_on_screen)
    show ?thesis
    proof (rule that [of 1840 mb])
      show "on_screen (crt_mem st) mb" by (rule on_screen_trans [OF 1(4) scroll(3)])
      show "\<lparr>cells = glyph mb, tpos = nat 1840\<rparr> = scroll (put_at c (terminal_of st))"
        using True scroll(4) by (simp flip: 1(5) add: scroll_def fun_eq_iff)
    qed (use True scroll(1,2) in \<open>simp_all add: Let_def\<close>)
  next
    case False
    then have "pos1 div 80 < 24" using 1(3) by linarith
    moreover have "\<lparr>cells = glyph m1, tpos = nat pos1\<rparr> = scroll (put_at c (terminal_of st))"
    proof -
      have "nat pos1 < 1920" using False 1(3) by linarith
      then show ?thesis unfolding 1(5) [symmetric] scroll_def by simp
    qed
    ultimately show ?thesis using that [of pos1 m1] False 1(2-4) by simp
  qed
  have m2: "mapped m2 crt 4000" "pos2 < 2000" using 2(3,4) by (simp_all add: on_screen_def)
  obtain m3 where 3: "store16 (cell pos2) (of_char CHR '' '' OR 0x700) m2 = Inr m3" "on_screen m2 m3"
      "glyph m3 = (glyph m2)(nat pos2 \<mapsto> of_char CHR '' '' OR 0x700)"
    by (rule store_on_screen [OF m2(1) 2(2) m2(2)])
  let ?st' = "(crtc_out (CRTPORT + 1) (of_int pos2) (crtc_out CRTPORT 15
      (crtc_out (CRTPORT + 1) (of_int (pos2 div 256)) (crtc_out CRTPORT 14 ?st))))\<lparr>crt_mem := m3\<rparr>"
  have "cgaputc c st = Inr ?st'"
    unfolding cgaputc_def Let_def read 1(1) bind_ok_simps prod.case 2(1) [unfolded Let_def] 3(1) ..
  moreover have "cursor ?st' = pos2"
    using crtc_cursor [of pos2 ?st] 2(2,3) by (simp add: cursor_def)
  then have "screen_ok ?st'" using 2(3) 3(2) by (simp add: screen_ok_def on_screen_def)
  moreover have "terminal_of ?st' = put_char c (terminal_of st)"
  proof -
    have "put_char c (terminal_of st) = \<lparr>cells = glyph m3, tpos = nat pos2\<rparr>"
      using 3(3) by (simp flip: 2(5) add: put_char_def Let_def)
    then show ?thesis using \<open>cursor ?st' = pos2\<close> by (simp add: terminal_of_def)
  qed
  ultimately show ?thesis using that on_screen_trans [OF 2(4) 3(2)] by simp
qed

lemma consputs_on_screen:
  assumes "screen_ok st"
  shows "\<exists>st'. fold_ok consputc cs st = Inr st' \<and> screen_ok st'
    \<and> (\<forall>p. \<not> unat (p - crt) < 4000 \<longrightarrow> crt_mem st' p = crt_mem st p)
    \<and> terminal_of st' = fold put_char cs (terminal_of st)"
  using assms
proof (induction cs arbitrary: st)
  case (Cons c cs)
  obtain st1 where 1: "consputc c st = Inr st1" "screen_ok st1" "on_screen (crt_mem st) (crt_mem st1)"
    "terminal_of st1 = put_char c (terminal_of st)"
    using cgaputc_on_screen [OF Cons.prems] by (metis consputc_def)
  from Cons.IH [OF 1(2)] 1 show ?case by (auto simp: on_screen_def off_screen_kept_def)
qed simp

text \<open>C11: What the console shows: while the video memory of 25 rows is mapped and the cursor is above the last
  row, any sequence of characters, newlines and backspaces is put out without a fault and changes the
  screen as a terminal does, in the way of \<open>put_char\<close>: the characters appear at the cursor, and the rows move up
  when it reaches the last row. No byte outside the 4000 of the screen is changed, and the cursor is left above
  the last row.\<close>

theorem console_is_terminal:
  assumes "screen_ok st"
  shows "\<exists>st'. fold_ok consputc cs st = Inr st' \<and> screen_ok st'
    \<and> (\<forall>p. \<not> unat (p - crt) < 4000 \<longrightarrow> crt_mem st' p = crt_mem st p)
    \<and> terminal_of st' = fold put_char cs (terminal_of st)"
  using consputs_on_screen [OF assms] .

theorem console_is_terminal_witness:
  "\<exists>st'. fold_ok consputc [72, 105, 10, BACKSPACE]
      \<lparr>crtc_index = 0, crtc_regs = (\<lambda>_. 0)(14 := 7, 15 := 126), crt_mem = (\<lambda>_. Some 0)\<rparr> = Inr st'
    \<and> cells (terminal_of st') 1758 = Some 0x748 \<and> cells (terminal_of st') 1839 = Some 0x720
    \<and> tpos (terminal_of st') = 1839"
proof -
  let ?st = "\<lparr>crtc_index = 0, crtc_regs = (\<lambda>_. 0)(14 := 7, 15 := 126), crt_mem = (\<lambda>_. Some 0)\<rparr>"
  have "screen_ok ?st" by (simp add: screen_ok_def cursor_def mapped_def)
  from console_is_terminal [OF this, of "[72, 105, 10, BACKSPACE]"]
  obtain st' where st': "fold_ok consputc [72, 105, 10, BACKSPACE] ?st = Inr st'"
    "terminal_of st' = fold put_char [72, 105, 10, BACKSPACE] (terminal_of ?st)" by blast
  have "terminal_of ?st = \<lparr>cells = (\<lambda>i. if i < 2000 then Some 0 else None), tpos = 1918\<rparr>"
    by (simp add: terminal_of_def cursor_def glyph_def byte_pair_def fun_eq_iff)
  then have "cells (terminal_of st') 1758 = Some 0x748 \<and> cells (terminal_of st') 1839 = Some 0x720
      \<and> tpos (terminal_of st') = 1839"
    by (simp add: st'(2) put_char_def put_at_def scroll_def BACKSPACE_def Let_def)
  with st'(1) show ?thesis by blast
qed

subsection \<open>Fixed texts\<close>

lemma format_plain: "CHR ''%'' \<notin> set s \<Longrightarrow> format m s args = Some (Inr (codes s))"
proof (induction s)
  case (Cons c s)
  then have "c \<noteq> CHR ''%''" "CHR ''%'' \<notin> set s" by auto
  then show ?case using Cons.IH by (simp add: emit_def codes_def)
qed (simp add: codes_def)

lemma codes_append: "codes (xs @ ys) = codes xs @ codes ys"
  by (simp add: codes_def)

lemma panic_shows:
  assumes "CHR ''%'' \<notin> set s" "screen_ok st"
  shows "\<exists>st'. panic m s st = Some (Inr (st', True)) \<and> screen_ok st'
    \<and> terminal_of st' = fold put_char (codes (s @ [CHR 0x0A])) (terminal_of st)"
proof -
  obtain st1 where 1: "fold_ok consputc (codes s) st = Inr st1" "screen_ok st1"
    "terminal_of st1 = fold put_char (codes s) (terminal_of st)"
    using consputs_on_screen [OF assms(2)] by blast
  obtain st2 where 2: "fold_ok consputc (codes [CHR 0x0A]) st1 = Inr st2" "screen_ok st2"
    "terminal_of st2 = fold put_char (codes [CHR 0x0A]) (terminal_of st1)"
    using consputs_on_screen [OF 1(2)] by blast
  have "format m [CHR 0x0A] [] = Some (Inr (codes [CHR 0x0A]))" by (rule format_plain) simp
  then show ?thesis
    using 1 2 format_plain [OF assms(1)] by (simp add: panic_def cprintf_def codes_append del: format.simps)
qed

end
