(* ===== verification/Machine.thy ===== *)
theory Machine
  imports EndpointIPC Objects Vm Console
begin

text \<open>
  The machine as the whole kernel sees it: the objects and globals of \<open>KState\<close>, memory with the
  boot allocator and the page tables of \<open>Vm\<close>, the saved contexts of threads and the console. The
  operations of \<open>src/kernel/proc.c\<close> and \<open>sched\<close> of \<open>src/kernel/thread.c\<close> work on it.

  Memory from the allocator is cleared. When the kernel starts to use a part of it as an object,
  the object appears in the heap of its type with every field zero (\<open>new_tcb\<close>, \<open>new_cte\<close>, ...).
\<close>

subsection \<open>State\<close>

record Context =
  ctx_r15 :: u64
  ctx_r14 :: u64
  ctx_r13 :: u64
  ctx_r12 :: u64
  ctx_r11 :: u64
  ctx_rbx :: u64
  ctx_rbp :: u64
  ctx_rip :: u64

definition sizeof_Trapframe :: u64 where "sizeof_Trapframe = 176"
definition sizeof_Context :: u64 where "sizeof_Context = 64"

record machine =
  kern :: kstate
  vm :: vmstate
  ctx_heap :: "u64 \<rightharpoonup> Context"
  cons :: console
  pluginTcb :: "u64 list"   \<comment> \<open>five pointers\<close>

definition on_kern :: "(kstate \<Rightarrow> kerror + kstate) \<Rightarrow> machine \<Rightarrow> kerror + machine" where
  "on_kern f M = bind_ok (f (kern M)) (\<lambda>k. Inr (M\<lparr>kern := k\<rparr>))"

definition on_vm :: "(vmstate \<Rightarrow> kerror + 'a \<times> vmstate) \<Rightarrow> machine \<Rightarrow> kerror + 'a \<times> machine" where
  "on_vm f M = bind_ok (f (vm M)) (\<lambda>(x, v). Inr (x, M\<lparr>vm := v\<rparr>))"

text \<open>\<open>memblock_alloc_kernel(PGSIZE, PGSIZE)\<close>.\<close>

definition alloc_kpage :: "machine \<Rightarrow> kerror + u64 \<times> machine" where
  "alloc_kpage M = on_vm (vm_alloc_kernel PGSIZE PGSIZE) M"

text \<open>\<open>cprintf\<close> with a format of the kernel's own, which has no string argument that could be
  without end.\<close>

definition kprintf :: "string \<Rightarrow> u64 list \<Rightarrow> machine \<Rightarrow> kerror + machine" where
  "kprintf fmt args M =
     (case cprintf (byte_heap (vm M)) (Some fmt) args (cons M) of
        None \<Rightarrow> Inl (Panic ''unterminated string'')
      | Some r \<Rightarrow> bind_ok r (\<lambda>c. Inr (M\<lparr>cons := c\<rparr>)))"

subsection \<open>Objects in cleared memory\<close>

definition zero_tcb :: Tcb where
  "zero_tcb =
     \<lparr>registers = replicate N_CONTEXT_REGISTERS 0,
      tcbState = \<lparr>blockingIPCBadge = 0, blockingIPCCanGrant = False,
        blockingIPCCangrantreply = False, blockingIPCIscall = False, tcbQueued = False,
        blockingObject = 0, tsType = ThreadState_Inactive\<rparr>,
      tcbBoundNotification = 0, tcbFault = \<lparr>faultNum = 0, osFaultType = NullFault\<rparr>,
      tcbLookupFailure = \<lparr>lfType = invalidRoot, lufType = invalidRoot, bitsRemaining = 0\<rparr>,
      tcb_tf = 0, tcb_context = 0, tcb_size = 0, tcb_pml4 = 0, kStack = 0, tcbPriority = 0,
      tcbTimeSlice = 0, tcbFaultHandler = 0, tcbIPCBuffer = 0, tcbSchedNext = 0,
      tcbSchedPrev = 0, tcbEPNext = 0, tcbEPPrev = 0\<rparr>"

definition zero_cte :: Cte where
  "zero_cte = \<lparr>cte_cap = \<lparr>cap_w0 = 0, cap_w1 = 0, cap_w2 = 0\<rparr>,
     cteMdbNode = \<lparr>mdbNext = 0, mdbRevocable = 0, mdbFirstBadged = 0, mdbPrev = 0\<rparr>\<rparr>"

definition zero_endpoint :: Endpoint where
  "zero_endpoint = \<lparr>epQueueHead = 0, epQueueTail = 0, ep_state = EPState_Idle\<rparr>"

definition zero_trapframe :: Trapframe where
  "zero_trapframe = \<lparr>tf_rax = 0, tf_rbx = 0, tf_rcx = 0, tf_rdx = 0, tf_rbp = 0, tf_rsi = 0, tf_rdi = 0,
     tf_r8 = 0, tf_r9 = 0, tf_r10 = 0, tf_r11 = 0, tf_r12 = 0, tf_r13 = 0, tf_r14 = 0, tf_r15 = 0,
     tf_trapno = 0, tf_err = 0, tf_rip = 0, tf_cs = 0, tf_eflags = 0, tf_rsp = 0, tf_ds = 0\<rparr>"

definition zero_context :: Context where
  "zero_context = \<lparr>ctx_r15 = 0, ctx_r14 = 0, ctx_r13 = 0, ctx_r12 = 0, ctx_r11 = 0, ctx_rbx = 0,
     ctx_rbp = 0, ctx_rip = 0\<rparr>"

definition new_tcb :: "u64 \<Rightarrow> kstate \<Rightarrow> kstate" where
  "new_tcb p s = s\<lparr>tcb_heap := (tcb_heap s)(p \<mapsto> zero_tcb)\<rparr>"

definition new_cte :: "u64 \<Rightarrow> kstate \<Rightarrow> kstate" where
  "new_cte p s = s\<lparr>cte_heap := (cte_heap s)(p \<mapsto> zero_cte)\<rparr>"

definition new_endpoint :: "u64 \<Rightarrow> kstate \<Rightarrow> kstate" where
  "new_endpoint p s = s\<lparr>ep_heap := (ep_heap s)(p \<mapsto> zero_endpoint)\<rparr>"

definition new_trapframe :: "u64 \<Rightarrow> kstate \<Rightarrow> kstate" where
  "new_trapframe p s = s\<lparr>tf_heap := (tf_heap s)(p \<mapsto> zero_trapframe)\<rparr>"

subsection \<open>Threads\<close>

text \<open>The kernel stack of a new thread: the trap frame at its top, below it the address of
  \<open>trapret\<close>, below that the context that \<open>swtch\<close> pops, which returns to \<open>forkret\<close>. The two
  addresses are of code, parameters of the model.\<close>

definition alloc_proc :: "u64 \<Rightarrow> u64 \<Rightarrow> u64 \<Rightarrow> machine \<Rightarrow> kerror + machine" where
  "alloc_proc forkret trapret tcb M =
     bind_ok (alloc_kpage M) (\<lambda>(stack, M).
     bind_ok (on_kern (mod_tcb tcb (\<lambda>t. t\<lparr>kStack := stack\<rparr>)) M) (\<lambda>M.
     let sp = stack + PGSIZE; sp = sp - sizeof_Trapframe; tf = sp;
         M = M\<lparr>kern := new_trapframe tf (kern M)\<rparr> in
     bind_ok (on_kern (mod_tcb tcb (\<lambda>t. t\<lparr>tcb_tf := tf\<rparr>)) M) (\<lambda>M.
     let sp = sp - 8 in
     bind_ok (on_vm (\<lambda>v. bind_ok (mod_pte sp (\<lambda>_. trapret) v) (\<lambda>v. Inr ((), v))) M) (\<lambda>(_, M).
     let sp = sp - sizeof_Context in
     bind_ok (on_kern (mod_tcb tcb (\<lambda>t. t\<lparr>tcb_context := sp\<rparr>)) M) (\<lambda>M.
     Inr (M\<lparr>ctx_heap := (ctx_heap M)(sp \<mapsto> zero_context\<lparr>ctx_rip := forkret\<rparr>)\<rparr>))))))"

definition forkret :: "machine \<Rightarrow> kerror + machine" where
  "forkret M = kprintf (''forkret means return to the user mode'' @ [CHR 0x0A]) [] M"

text \<open>What a call made for a user thread comes to: it returns, or the thread gives up the processor
  through \<open>sched\<close>, which switches to the saved context of the scheduler.\<close>

datatype 'a outcome = Returns 'a machine | Switches u64 machine

definition sched :: "machine \<Rightarrow> kerror + 'a outcome" where
  "sched M =
     bind_ok (get_tcb (kern M) (ksCurThread (kern M))) (\<lambda>_.
     bind_ok (get_tcb (kern M) (oldThread (kern M))) (\<lambda>t. Inr (Switches (tcb_context t) M)))"

definition test :: "machine \<Rightarrow> kerror + machine" where
  "test M = kprintf (''test!!!'' @ [CHR 0x0A]) [] M"

definition exit :: "machine \<Rightarrow> kerror + 'a outcome" where
  "exit M = sched M"

definition brk :: "u64 \<Rightarrow> machine \<Rightarrow> kerror + u64 \<times> machine" where
  "brk num M = on_vm (vm_alloc num PGSIZE) M"

definition print :: "u64 \<Rightarrow> machine \<Rightarrow> kerror + machine" where
  "print num M = kprintf (''num is %d'' @ [CHR 0x0A]) [num] M"

text \<open>\<open>send\<close> does not use its message argument; the tag of the message is read from the thread's
  trap frame when the message is delivered.\<close>

definition send :: "Uninit \<Rightarrow> u64 \<Rightarrow> kstate \<Rightarrow> kerror + kstate" where
  "send un dest s =
     bind_ok (lookup_slot (un_slot_status un 0) (ksCurThread s) dest s) (\<lambda>ret.
     bind_ok (get_cte s (lus_slot ret)) (\<lambda>cte.
     let endpointCap = EndpointCap_of_Cap (cte_cap cte) in
     send_ipc un True False 0 (capCanGrant endpointCap \<noteq> 0) (capCanGrantReply endpointCap \<noteq> 0)
       (ksCurThread s) (cap_endpoint (cte_cap cte)) s))"

definition receive :: "Uninit \<Rightarrow> u64 \<Rightarrow> kstate \<Rightarrow> kerror + kstate" where
  "receive un dest s =
     bind_ok (lookup_slot (un_slot_status un 0) (ksCurThread s) dest s) (\<lambda>ret.
     bind_ok (get_cte s (lus_slot ret)) (\<lambda>cte.
     receive_ipc un (ksCurThread s) (cte_cap cte) True s))"

end
