(* ===== verification/Syscall.thy ===== *)
theory Syscall
  imports Machine
begin

text \<open>
  System calls: \<open>src/kernel/trap.c\<close>, \<open>src/kernel/syscall.c\<close> and \<open>src/kernel/sysproc.c\<close>. The
  arguments are in the trap frame of the current thread; the result goes into its \<open>rax\<close>.
\<close>

definition T_SYSCALL :: u64 where "T_SYSCALL = 64"

definition SYS_test :: int where "SYS_test = 1"
definition SYS_send :: int where "SYS_send = 2"
definition SYS_receive :: int where "SYS_receive = 3"
definition SYS_print :: int where "SYS_print = 4"
definition SYS_exit :: int where "SYS_exit = 5"
definition SYS_brk :: int where "SYS_brk = 6"

lemmas syscall_numbers = SYS_test_def SYS_send_def SYS_receive_def SYS_print_def SYS_exit_def SYS_brk_def

subsection \<open>Arguments\<close>

definition cur_tf :: "kstate \<Rightarrow> kerror + Trapframe" where
  "cur_tf s = bind_ok (get_tcb s (ksCurThread s)) (\<lambda>t. get_tf s (tcb_tf t))"

text \<open>The calls of the kernel use \<open>n\<close> below 6; for another \<open>n\<close> the function has no return value.\<close>

fun fetch_arg :: "nat \<Rightarrow> kstate \<Rightarrow> kerror + u64" where
  "fetch_arg n s = bind_ok (cur_tf s) (\<lambda>tf.
     if n = 0 then Inr (tf_rdi tf) else if n = 1 then Inr (tf_rsi tf)
     else if n = 2 then Inr (tf_rdx tf) else if n = 3 then Inr (tf_rcx tf)
     else if n = 4 then Inr (tf_r8 tf) else if n = 5 then Inr (tf_r9 tf) else Inl (OutOfBounds n))"

definition arg_int :: "nat \<Rightarrow> kstate \<Rightarrow> kerror + u32" where
  "arg_int n s = bind_ok (fetch_arg n s) (\<lambda>x. Inr (ucast x))"

definition arg_uint64 :: "nat \<Rightarrow> kstate \<Rightarrow> kerror + u64" where
  "arg_uint64 n s = fetch_arg n s"

definition arg_ptr :: "nat \<Rightarrow> kstate \<Rightarrow> kerror + u64" where
  "arg_ptr n s = arg_uint64 n s"

subsection \<open>The calls\<close>

text \<open>Every call returns an \<open>int\<close>.\<close>

definition sys_test :: "machine \<Rightarrow> kerror + u32 outcome" where
  "sys_test M = bind_ok (test M) (\<lambda>M. Inr (Returns 0 M))"

definition sys_exit :: "machine \<Rightarrow> kerror + u32 outcome" where
  "sys_exit M = exit M"

definition sys_send :: "Uninit \<Rightarrow> machine \<Rightarrow> kerror + u32 outcome" where
  "sys_send un M =
     bind_ok (arg_uint64 0 (kern M)) (\<lambda>ptr.
     bind_ok (on_kern (send un ptr) M) (\<lambda>M. Inr (Returns 0 M)))"

text \<open>\<open>sys_print\<close> has no return statement: its value is \<open>u\<close>.\<close>

definition sys_print :: "u32 \<Rightarrow> machine \<Rightarrow> kerror + u32 outcome" where
  "sys_print u M =
     bind_ok (arg_uint64 0 (kern M)) (\<lambda>num.
     bind_ok (print num M) (\<lambda>M. Inr (Returns u M)))"

definition sys_receive :: "Uninit \<Rightarrow> machine \<Rightarrow> kerror + u32 outcome" where
  "sys_receive un M =
     bind_ok (arg_uint64 0 (kern M)) (\<lambda>ptr.
     bind_ok (arg_uint64 1 (kern M)) (\<lambda>msg.
     bind_ok (on_kern (receive un ptr) M) (\<lambda>M. Inr (Returns 0 M))))"

text \<open>\<open>sys_brk\<close> returns 64 bits, but is called through the table's type: the caller sees the low half.\<close>

definition sys_brk :: "machine \<Rightarrow> kerror + u32 outcome" where
  "sys_brk M =
     bind_ok (arg_uint64 0 (kern M)) (\<lambda>num.
     bind_ok (brk num M) (\<lambda>(a, M). Inr (Returns (ucast a) M)))"

definition syscalls :: "Uninit \<Rightarrow> u32 \<Rightarrow> int \<Rightarrow> (machine \<Rightarrow> kerror + u32 outcome) option" where
  "syscalls un u num =
     (if num = SYS_test then Some sys_test
      else if num = SYS_send then Some (sys_send un)
      else if num = SYS_receive then Some (sys_receive un)
      else if num = SYS_exit then Some sys_exit
      else if num = SYS_print then Some (sys_print u)
      else if num = SYS_brk then Some sys_brk else None)"

text \<open>\<open>NELEM(syscalls)\<close>.\<close>

definition syscalls_len :: int where "syscalls_len = 7"

text \<open>\<open>num\<close> is an \<open>int\<close>, the low half of \<open>rax\<close>; the result is sign-extended into \<open>rax\<close>. A thread that
  gave up the processor gets its result when it is switched back to.\<close>

definition set_result :: "u32 \<Rightarrow> machine \<Rightarrow> kerror + machine" where
  "set_result r = on_kern (\<lambda>s.
     bind_ok (get_tcb s (ksCurThread s)) (\<lambda>t. mod_tf (tcb_tf t) (\<lambda>tf. tf\<lparr>tf_rax := scast r\<rparr>) s))"

definition syscall :: "Uninit \<Rightarrow> u32 \<Rightarrow> machine \<Rightarrow> kerror + unit outcome" where
  "syscall un u M =
     bind_ok (cur_tf (kern M)) (\<lambda>tf.
     let num = sint (ucast (tf_rax tf) :: u32) in
     if num > 0 \<and> num < syscalls_len then
       case syscalls un u num of
         None \<Rightarrow> Inl (Panic ''syscall_error'')
       | Some f \<Rightarrow>
         bind_ok (f M) (\<lambda>r. case r of
           Returns x M \<Rightarrow> bind_ok (set_result x M) (\<lambda>M. Inr (Returns () M))
         | Switches c M \<Rightarrow> Inr (Switches c M))
     else Inl (Panic ''syscall_error''))"

text \<open>Traps other than the system call return without any effect.\<close>

definition trap :: "Uninit \<Rightarrow> u32 \<Rightarrow> u64 \<Rightarrow> machine \<Rightarrow> kerror + unit outcome" where
  "trap un u tf M =
     bind_ok (get_tf (kern M) tf) (\<lambda>f.
     if tf_trapno f = T_SYSCALL then
       bind_ok (on_kern (\<lambda>s. mod_tcb (ksCurThread s) (\<lambda>t. t\<lparr>tcb_tf := tf\<rparr>) s) M) (\<lambda>M.
       syscall un u M)
     else Inr (Returns () M))"

end
