(* ===== verification/SyscallProps.thy ===== *)
theory SyscallProps
  imports Syscall Frames Fixtures VmFixture
begin

text \<open>
  Properties of the system calls.
\<close>

definition outcome_machine :: "'a outcome \<Rightarrow> machine" where
  "outcome_machine r = (case r of Returns _ M \<Rightarrow> M | Switches _ M \<Rightarrow> M)"

lemma outcome_machine_simps [simp]:
  "outcome_machine (Returns x M) = M" "outcome_machine (Switches c M) = M"
  by (simp_all add: outcome_machine_def)

subsection \<open>Frames of the calls\<close>

text \<open>What a call may change of the machine: no object is created or destroyed, and the saved contexts
  stay. A trap frame may change.\<close>

definition mframe :: "machine \<Rightarrow> machine \<Rightarrow> bool" where
  "mframe M M' \<longleftrightarrow> dom (tcb_heap (kern M')) = dom (tcb_heap (kern M))
     \<and> dom (ep_heap (kern M')) = dom (ep_heap (kern M)) \<and> dom (ntfn_heap (kern M')) = dom (ntfn_heap (kern M))
     \<and> dom (cte_heap (kern M')) = dom (cte_heap (kern M)) \<and> dom (word_heap (kern M')) = dom (word_heap (kern M))
     \<and> dom (tf_heap (kern M')) = dom (tf_heap (kern M)) \<and> ctx_heap M' = ctx_heap M"

lemma mframe_trans: "mframe M M1 \<Longrightarrow> mframe M1 M2 \<Longrightarrow> mframe M M2"
  by (simp add: mframe_def)

lemma mframe_refl [simp]: "mframe M M"
  by (simp add: mframe_def)

lemma mframe_on_kern:
  assumes "\<And>s. ok_post (f s) (kframe s)" and "on_kern f M = Inr M'"
  shows "mframe M M'"
proof -
  obtain k where "f (kern M) = Inr k" "M' = M\<lparr>kern := k\<rparr>"
    using assms(2) by (auto simp: on_kern_def bind_ok_Inr_iff)
  with assms(1) [of "kern M"] show ?thesis by (simp add: ok_post_def mframe_def kframe_def)
qed

lemma mframe_on_vm: "on_vm f M = Inr (x, M') \<Longrightarrow> mframe M M'"
  by (auto simp: on_vm_def bind_ok_Inr_iff mframe_def)

lemma mframe_print: "kprintf fmt args M = Inr M' \<Longrightarrow> mframe M M'"
  by (auto simp: kprintf_def bind_ok_Inr_iff mframe_def split: option.splits)

lemma mframe_set_result: "set_result r M = Inr M' \<Longrightarrow> mframe M M'"
  by (auto simp: set_result_def on_kern_def bind_ok_Inr_iff mframe_def access_simps read_at_Inr_iff
      split: if_splits)

lemma kf_send_call: "ok_post (send un p s) (kframe s)"
  unfolding send_def Let_def by (rule kf_read_more kf_rules kf kframe_refl | assumption)+

lemma kf_receive_call: "ok_post (receive un p s) (kframe s)"
  unfolding receive_def Let_def by (rule kf_read_more kf_rules kf kframe_refl | assumption)+

lemmas call_defs = sys_test_def sys_send_def sys_receive_def sys_exit_def sys_print_def sys_brk_def
  test_def print_def brk_def exit_def sched_def bind_ok_Inr_iff

lemma mframe_calls:
  "sys_test M = Inr r \<Longrightarrow> mframe M (outcome_machine r)"
  "sys_send un M = Inr r \<Longrightarrow> mframe M (outcome_machine r)"
  "sys_receive un M = Inr r \<Longrightarrow> mframe M (outcome_machine r)"
  "sys_exit M = Inr r \<Longrightarrow> mframe M (outcome_machine r)"
  "sys_print u M = Inr r \<Longrightarrow> mframe M (outcome_machine r)"
  "sys_brk M = Inr r \<Longrightarrow> mframe M (outcome_machine r)"
proof -
  show "sys_test M = Inr r \<Longrightarrow> mframe M (outcome_machine r)"
    by (auto simp: call_defs dest: mframe_print)
  show "sys_send un M = Inr r \<Longrightarrow> mframe M (outcome_machine r)"
    by (auto simp: call_defs dest!: mframe_on_kern [OF kf_send_call])
  show "sys_receive un M = Inr r \<Longrightarrow> mframe M (outcome_machine r)"
    by (auto simp: call_defs dest!: mframe_on_kern [OF kf_receive_call])
  show "sys_exit M = Inr r \<Longrightarrow> mframe M (outcome_machine r)" by (auto simp: call_defs)
  show "sys_print u M = Inr r \<Longrightarrow> mframe M (outcome_machine r)"
    by (auto simp: call_defs dest!: mframe_print)
  show "sys_brk M = Inr r \<Longrightarrow> mframe M (outcome_machine r)"
    by (auto simp: call_defs dest!: mframe_on_vm)
qed

lemma mframe_call: "syscalls un u num = Some f \<Longrightarrow> f M = Inr r \<Longrightarrow> mframe M (outcome_machine r)"
  using mframe_calls by (auto simp: syscalls_def split: if_splits)


subsection \<open>A concrete machine\<close>

text \<open>The current thread at 0x400 with its slots at 0, its trap frame at 0x5000 and a CNode at
  0xFFFFFFFF80100000, whose first slot holds a capability for the idle endpoint at
  0xFFFFFFFF80300000.\<close>

definition call_tf :: "u64 \<Rightarrow> u64 \<Rightarrow> Trapframe" where
  "call_tf rax rdi = zero_trapframe\<lparr>tf_rax := rax, tf_rdi := rdi\<rparr>"

definition call_ep_cap :: Cap where
  "call_ep_cap = new_endpoint_cap \<lparr>cap_w0 = 0, cap_w1 = 0, cap_w2 = 0\<rparr> 0xFFFFFFFF80300000"

definition call_kern :: "Trapframe \<Rightarrow> kstate" where
  "call_kern tf = blank_state\<lparr>ksCurThread := 0x400, oldThread := 0x400,
     tcb_heap := [0x400 \<mapsto> zero_tcb\<lparr>tcb_tf := 0x5000\<rparr>], tf_heap := [0x5000 \<mapsto> tf],
     ep_heap := [0xFFFFFFFF80300000 \<mapsto> zero_endpoint],
     cte_heap := [0 \<mapsto> zero_cte\<lparr>cte_cap := new_cnode_cap \<lparr>cap_w0 = 0, cap_w1 = 0, cap_w2 = 0\<rparr>
         (drop_bit 1 0xFFFFFFFF80100000) 0\<rparr>,
       0xFFFFFFFF80100000 \<mapsto> zero_cte\<lparr>cte_cap := call_ep_cap\<rparr>]\<rparr>"

definition call_machine :: "Trapframe \<Rightarrow> machine" where
  "call_machine tf = \<lparr>kern = call_kern tf, vm = kernel_space, ctx_heap = Map.empty,
     cons = \<lparr>crtc_index = 0, crtc_regs = (\<lambda>_. 0), crt_mem = (\<lambda>_. Some 0)\<rparr>, pluginTcb = [0, 0, 0, 0, 0]\<rparr>"

definition call_un :: Uninit where
  "call_un = \<lparr>un_slot_status = (\<lambda>_. 0), un_root_status = 0, un_root_cap = call_ep_cap,
     un_target_status = 0, un_derive = (\<lambda>_. (0, call_ep_cap)), un_mrs = 0,
     un_queue = \<lparr>q_head = 0x400, q_end = 0x400\<rparr>, un_end = 0\<rparr>"

lemma call_machine_heaps [simp]:
  "tcb_heap (kern (call_machine tf)) = [0x400 \<mapsto> zero_tcb\<lparr>tcb_tf := 0x5000\<rparr>]"
  "tf_heap (kern (call_machine tf)) = [0x5000 \<mapsto> tf]" "ksCurThread (kern (call_machine tf)) = 0x400"
  "ep_heap (kern (call_machine tf)) = [0xFFFFFFFF80300000 \<mapsto> zero_endpoint]"
  "cte_heap (kern (call_machine tf)) 0xFFFFFFFF80100000 = Some (zero_cte\<lparr>cte_cap := call_ep_cap\<rparr>)"
  "vm (call_machine tf) = kernel_space"
  by (simp_all add: call_machine_def call_kern_def)

lemma call_slot:
  "lookup_slot u 0x400 0 (kern (call_machine tf)) = Inr \<lparr>lus_status = u, lus_slot = 0xFFFFFFFF80100000\<rparr>"
  "cap_endpoint call_ep_cap = 0xFFFFFFFF80300000"
proof -
  have "ucast (push_bit 1 (capCNodePtr (CNodeCap_of_Cap (new_cnode_cap \<lparr>cap_w0 = 0, cap_w1 = 0, cap_w2 = 0\<rparr>
      (drop_bit 1 0xFFFFFFFF80100000) 0)))) OR 0xFFFF800000000000 = (0xFFFFFFFF80100000 :: u64)"
    by code_simp
  then show "lookup_slot u 0x400 0 (kern (call_machine tf)) = Inr \<lparr>lus_status = u, lus_slot = 0xFFFFFFFF80100000\<rparr>"
    by (simp add: lookup_slot_def call_machine_def call_kern_def get_cte_def TCB_PTR_CTE_PTR_def
        OsTCBBits_def mask_eq_exp_minus_1 zero_cte_def Let_def)
  show "cap_endpoint call_ep_cap = 0xFFFFFFFF80300000" unfolding call_ep_cap_def by code_simp
qed

lemma call_number:
  "cur_tf (kern (call_machine tf)) = Inr tf"
  by (simp add: cur_tf_def get_tcb_def get_tf_def)


lemma scast_low:
  assumes "unat (a :: u64) < 2 ^ 31"
  shows "scast (ucast a :: u32) = a"
proof -
  have "take_bit 31 a = a" using assms by (simp add: word_unat_eq_iff unsigned_take_bit_eq take_bit_nat_eq_self)
  moreover have "scast (ucast (take_bit 31 a) :: u32) = take_bit 31 a"
    by (intro bit_word_eqI) (auto simp: bit_simps)
  ultimately show ?thesis by simp
qed

text \<open>C31: Asking for memory: with enough pages left in one run, the call with number 6 returns in \<open>rax\<close> the physical address of a block of the requested size that was not in use,
  is in use now and is cleared. The detour of the address through a 32-bit \<open>int\<close> loses nothing,
  because memory ends below 2 GB.\<close>

theorem brk_returns_free_memory:
  assumes cur: "cur_tf (kern M) = Inr tf" and num: "sint (ucast (tf_rax tf) :: u32) = SYS_brk"
    and inv: "pt_inv own (vm M)" and size: "0 < unat (tf_rdi tf)" and room: "pages (tf_rdi tf) \<le> room (boot_mem (vm M))"
  shows "\<exists>a M' tf'. syscall un u M = Inr (Returns () M') \<and> cur_tf (kern M') = Inr tf' \<and> tf_rax tf' = a
      \<and> block a (tf_rdi tf) \<inter> in_use (boot_mem (vm M)) = {}
      \<and> block a (tf_rdi tf) \<subseteq> in_use (boot_mem (vm M'))
      \<and> (\<forall>i<unat (tf_rdi tf). byte_heap (vm M') (p2v a + of_nat i) = Some 0)"
  using alloc_data [OF inv size room]
proof (elim exE conjE)
  fix a v assume a: "vm_alloc (tf_rdi tf) PGSIZE (vm M) = Inr (a, v)" "data_allocated own (vm M) (tf_rdi tf) a v"
  obtain x where x: "tcb_heap (kern M) (ksCurThread (kern M)) = Some x" "tf_heap (kern M) (tcb_tf x) = Some tf"
    using cur by (auto simp: cur_tf_def bind_ok_Inr_iff get_tcb_def get_tf_def read_at_Inr_iff)
  have "unat a < 2 ^ 31" using a(2) size by (simp add: data_allocated_def)
  then have small: "scast (ucast a :: u32) = a" by (rule scast_low)
  let ?k = "(kern M)\<lparr>tf_heap := (tf_heap (kern M))(tcb_tf x \<mapsto> tf\<lparr>tf_rax := a\<rparr>)\<rparr>"
  let ?M = "M\<lparr>kern := ?k, vm := v\<rparr>"
  have "syscall un u M = Inr (Returns () ?M)"
    using cur num a(1) x small
    by (simp add: syscall_def Let_def syscalls_def syscall_numbers syscalls_len_def
        sys_brk_def brk_def arg_uint64_def on_vm_def set_result_def on_kern_def get_tcb_def
        mod_tf_def get_tf_def)
  moreover have "cur_tf (kern ?M) = Inr (tf\<lparr>tf_rax := a\<rparr>)"
    using x by (simp add: cur_tf_def get_tcb_def get_tf_def)
  ultimately show ?thesis using a(2) by (intro exI [of _ a] exI [of _ ?M]) (auto simp: data_allocated_def)
qed

theorem brk_returns_free_memory_witness:
  "\<exists>a M' tf'. syscall call_un 0 (call_machine (call_tf 6 0x1800)) = Inr (Returns () M')
      \<and> cur_tf (kern M') = Inr tf' \<and> tf_rax tf' = a
      \<and> block a 0x1800 \<inter> {0x1FB000..<0x200000} = {} \<and> block a 0x1800 \<subseteq> in_use (boot_mem (vm M'))
      \<and> (\<forall>i<0x1800. byte_heap (vm M') (p2v a + of_nat i) = Some 0)"
  using brk_returns_free_memory [of "call_machine (call_tf 6 0x1800)" "call_tf 6 0x1800" kernel_tables]
    kernel_space_inv kernel_memory(2,3)
  by (simp add: call_number call_tf_def SYS_brk_def pages_def)

lemma send_call_spec:
  assumes cur: "tcb_heap (kern M) t = Some x" "ksCurThread (kern M) = t"
      "tf_heap (kern M) (tcb_tf x) = Some tf" "sint (ucast (tf_rax tf) :: u32) = SYS_send"
    and slot: "lookup_slot (un_slot_status un 0) t (tf_rdi tf) (kern M) = Inr ret"
      "cte_heap (kern M) (lus_slot ret) = Some c" "cap_endpoint (cte_cap c) = p"
    and ep: "ep_rep (kern M) p xs" "ep_heap (kern M) p = Some ep" "ep_state ep \<noteq> EPState_Recv"
    and t: "t \<noteq> 0" "t \<notin> set xs" "append_returns un t (kern M) p" "xs = [] \<or> last xs < 2 ^ 48"
  shows "\<exists>M' y. syscall un u M = Inr (Returns () M') \<and> ep_rep (kern M') p (xs @ [t])
    \<and> tcb_heap (kern M') t = Some y \<and> tsType (tcbState y) = ThreadState_BlockedOnSend
    \<and> blockingIPCBadge (tcbState y) = 0 \<and> cur_tf (kern M') = Inr (tf\<lparr>tf_rax := 0\<rparr>)
    \<and> ksReadyQueues (kern M') = ksReadyQueues (kern M)
    \<and> ksSchedulerAction (kern M') = ksSchedulerAction (kern M)"
proof -
  let ?e = "EndpointCap_of_Cap (cte_cap c)"
  have send: "send un (tf_rdi tf) (kern M) = send_ipc un True False 0 (capCanGrant ?e \<noteq> 0)
      (capCanGrantReply ?e \<noteq> 0) t p (kern M)"
    using slot cur(2) by (simp add: send_def get_cte_def Let_def)
  obtain s' n q where s': "send un (tf_rdi tf) (kern M) = Inr s'" "ep_rep s' p (xs @ [t])"
      "tcb_heap s' t = Some ((block_on_send p 0 (capCanGrant ?e \<noteq> 0) (capCanGrantReply ?e \<noteq> 0) False x)
          \<lparr>tcbEPNext := n, tcbEPPrev := q\<rparr>)"
      "ksReadyQueues s' = ksReadyQueues (kern M)" "ksSchedulerAction s' = ksSchedulerAction (kern M)"
    using send_blocks_spec [OF ep cur(1) t] unfolding send by blast
  have "kframe (kern M) s'" using kf_send_call [of un "tf_rdi tf" "kern M"] s'(1) by (simp add: ok_post_def)
  then have same: "tf_heap s' = tf_heap (kern M)" "ksCurThread s' = t" using cur(2) by (simp_all add: kframe_def)
  let ?s = "s'\<lparr>tf_heap := (tf_heap (kern M))(tcb_tf x \<mapsto> tf\<lparr>tf_rax := 0\<rparr>)\<rparr>"
  have "syscall un u M = Inr (Returns () (M\<lparr>kern := ?s\<rparr>))"
    using cur s' same
    by (simp add: syscall_def cur_tf_def get_tcb_def get_tf_def syscalls_def syscall_numbers
        syscalls_len_def sys_send_def arg_uint64_def on_kern_def set_result_def mod_tf_def
        block_on_send_def)
  moreover have "ep_rep ?s p (xs @ [t])" using s'(2) by (simp add: ep_rep_def ep_links_def)
  ultimately show ?thesis
    using s' same cur(3)
    by (intro exI [of _ "M\<lparr>kern := ?s\<rparr>"])
      (simp add: cur_tf_def get_tcb_def get_tf_def block_on_send_def)
qed



end
