(* ===== verification/Boot.thy ===== *)
theory Boot
  imports Machine
begin

text \<open>
  The set-up of the first threads: \<open>ipc_test\<close> of \<open>src/kernel/main.c\<close>. Each object lies in a page of
  its own; of the objects in a page only those that the code uses come into being: the thread with
  its CSpace root slot, the first slot of a CNode.
\<close>

definition set_pluginTcb :: "nat \<Rightarrow> u64 \<Rightarrow> machine \<Rightarrow> kerror + machine" where
  "set_pluginTcb i t M =
     (if i < length (pluginTcb M) then Inr (M\<lparr>pluginTcb := (pluginTcb M)[i := t]\<rparr>)
      else Inl (OutOfBounds i))"

text \<open>A page for a thread: the slot at its beginning, the thread behind the slots.\<close>

definition new_thread :: "u64 \<Rightarrow> machine \<Rightarrow> machine" where
  "new_thread tcbObject M = M\<lparr>kern := new_tcb (tcbObject + TCB_OFFSET) (new_cte tcbObject (kern M))\<rparr>"

text \<open>\<open>cTable->cap = create_object(osCapTableObject, memblock_alloc_kernel(...) >> 1, 0, 0)\<close>.\<close>

definition make_cspace :: "Cap \<Rightarrow> u64 \<Rightarrow> machine \<Rightarrow> kerror + machine" where
  "make_cspace junk cTable M =
     bind_ok (alloc_kpage M) (\<lambda>(page, M).
     let M = M\<lparr>kern := new_cte page (kern M)\<rparr> in
     on_kern (\<lambda>s. bind_ok (create_object junk osCapTableObject (drop_bit 1 page) 0 False s) (\<lambda>(cap, s).
       mod_cte cTable (\<lambda>c. c\<lparr>cte_cap := cap\<rparr>) s)) M)"

text \<open>The untyped capability in the root slot; the local variable it is built in is copied out with a
  third word of \<open>junk\<close>.\<close>

definition init_root :: "Cap \<Rightarrow> machine \<Rightarrow> kerror + u64 \<times> machine" where
  "init_root junk M =
     bind_ok (alloc_kpage M) (\<lambda>(cteRoot, M).
     let M = M\<lparr>kern := new_cte cteRoot (kern M)\<rparr> in
     bind_ok (alloc_kpage M) (\<lambda>(page, M).
     bind_ok (on_kern (mod_cte cteRoot (\<lambda>c.
         c\<lparr>cte_cap := Cap_of_UntypedCap (cap_w2 junk) ((UntypedCap_of_Cap (cte_cap c))\<lparr>capPtr := ucast page\<rparr>),
           cteMdbNode := (cteMdbNode c)\<lparr>mdbPrev := 0, mdbNext := 0\<rparr>\<rparr>)) M) (\<lambda>M.
     Inr (cteRoot, M))))"

definition insert_at_0 :: "Exception \<Rightarrow> u64 \<Rightarrow> Cap \<Rightarrow> u64 \<Rightarrow> kstate \<Rightarrow> kerror + kstate" where
  "insert_at_0 u cteRoot cap t s =
     bind_ok (lookup_slot u t 0 s) (\<lambda>ret. insert_new_cap cteRoot (lus_slot ret) cap s)"

text \<open>The two threads: their pages, the plug-in table, the ready queue. The pages' addresses are returned.\<close>

definition start_threads :: "machine \<Rightarrow> kerror + u64 \<times> u64 \<times> machine" where
  "start_threads M =
     bind_ok (alloc_kpage M) (\<lambda>(tcbObject0, M). bind_ok (alloc_kpage M) (\<lambda>(tcbObject1, M).
     let M = new_thread tcbObject1 (new_thread tcbObject0 M);
         tcbPlugin0 = tcbObject0 + TCB_OFFSET; tcbPlugin1 = tcbObject1 + TCB_OFFSET in
     bind_ok (set_pluginTcb 0 tcbPlugin0 M) (\<lambda>M.
     bind_ok (set_pluginTcb 1 tcbPlugin1 M) (\<lambda>M.
     bind_ok (on_kern (tcb_sched_append tcbPlugin0) M) (\<lambda>M.
     bind_ok (on_kern (tcb_sched_append tcbPlugin1) M) (\<lambda>M.
     Inr (tcbObject0, tcbObject1, M)))))))"

text \<open>The root slot and a CSpace for each thread.\<close>

definition make_spaces ::
    "Cap \<Rightarrow> Cap \<Rightarrow> Cap \<Rightarrow> u64 \<Rightarrow> u64 \<Rightarrow> machine \<Rightarrow> kerror + u64 \<times> machine" where
  "make_spaces junk0 junk1 junk2 tcbObject0 tcbObject1 M =
     bind_ok (init_root junk0 M) (\<lambda>(cteRoot, M).
     bind_ok (make_cspace junk1 tcbObject0 M) (\<lambda>M.
     bind_ok (make_cspace junk2 tcbObject1 M) (\<lambda>M.
     Inr (cteRoot, M))))"

text \<open>The endpoint and a capability to it in the first slot of both CSpaces.\<close>

definition share_endpoint ::
    "Exception \<Rightarrow> Cap \<Rightarrow> u64 \<Rightarrow> u64 \<Rightarrow> u64 \<Rightarrow> machine \<Rightarrow> kerror + machine" where
  "share_endpoint u junk cteRoot tcbPlugin0 tcbPlugin1 M =
     bind_ok (alloc_kpage M) (\<lambda>(endpointTest, M).
     let M = M\<lparr>kern := new_endpoint endpointTest (kern M)\<rparr> in
     bind_ok (on_kern (mod_ep endpointTest (\<lambda>e. e\<lparr>ep_state := EPState_Idle\<rparr>)) M) (\<lambda>M.
     bind_ok (create_object junk osEndpointObject endpointTest 0 False (kern M)) (\<lambda>(capTest, k).
     let M = M\<lparr>kern := k\<rparr> in
     bind_ok (on_kern (insert_at_0 u cteRoot capTest tcbPlugin0) M) (\<lambda>M.
     on_kern (insert_at_0 u cteRoot capTest tcbPlugin1) M))))"

definition ipc_test :: "Exception \<Rightarrow> Cap \<Rightarrow> Cap \<Rightarrow> Cap \<Rightarrow> Cap \<Rightarrow> machine \<Rightarrow> kerror + machine" where
  "ipc_test u junk0 junk1 junk2 junk3 M =
     bind_ok (start_threads M) (\<lambda>(tcbObject0, tcbObject1, M).
     bind_ok (make_spaces junk0 junk1 junk2 tcbObject0 tcbObject1 M) (\<lambda>(cteRoot, M).
     share_endpoint u junk3 cteRoot (tcbObject0 + TCB_OFFSET) (tcbObject1 + TCB_OFFSET) M))"

end
