(* ===== verification/BootProps.thy ===== *)
theory BootProps
  imports Boot VmFixture SyscallProps
begin

text \<open>
  Properties of the set-up of the first threads.
\<close>

subsection \<open>Pages of the kernel\<close>

text \<open>The pages handed out so far, and room for \<open>n\<close> more.\<close>

definition fresh_pages :: "vmstate \<Rightarrow> u64 set \<Rightarrow> nat \<Rightarrow> bool" where
  "fresh_pages v P n \<longleftrightarrow> mem_ok v \<and> n \<le> room (boot_mem v)
     \<and> (\<forall>c\<in>P. page_base c \<and> KERNBASE \<le> c \<and> used_page v c)"

lemma fresh_pages_init: "pt_inv own v \<Longrightarrow> n \<le> room (boot_mem v) \<Longrightarrow> fresh_pages v {} n"
  by (simp add: fresh_pages_def pt_inv_def)

lemma fresh_page:
  assumes pages: "fresh_pages (vm M) P (Suc n)"
  obtains c v where "alloc_kpage M = Inr (c, M\<lparr>vm := v\<rparr>)" "c \<notin> P" "page_base c" "KERNBASE \<le> c"
    "fresh_pages v (insert c P) n"
proof -
  obtain a v where a: "vm_alloc PGSIZE PGSIZE (vm M) = Inr (a, v)" "page_allocated (vm M) (p2v a) v"
    using alloc_page_result [of "vm M"] pages
    by (auto simp: fresh_pages_def alloc_kpage_def on_vm_def vm_alloc_kernel_def)
  note c = a(2) [unfolded page_allocated_def]
  have used: "used_page (vm M) b" if "b \<in> P" for b using pages that by (simp add: fresh_pages_def)
  have "p2v a \<notin> P"
  proof
    assume "p2v a \<in> P"
    then have "used_page (vm M) (p2v a)" using pages by (simp add: fresh_pages_def)
    then have "block (v2p (p2v a)) PGSIZE \<subseteq> in_use (boot_mem (vm M))" by (simp only: used_page_def)
    moreover have "unat (v2p (p2v a)) \<in> block (v2p (p2v a)) PGSIZE" by (simp add: block_def PGSIZE_def)
    ultimately show False using c by blast
  qed
  moreover have "fresh_pages v (insert (p2v a) P) n"
    unfolding fresh_pages_def
  proof (intro conjI ballI)
    fix b assume b: "b \<in> insert (p2v a) P"
    show "page_base b" "KERNBASE \<le> b" using b pages c by (auto simp: fresh_pages_def)
    show "used_page v b"
    proof (cases "b = p2v a")
      case False
      then show ?thesis using b used [of b] c unfolding used_page_def by blast
    qed (use c in simp)
  qed (use pages c in \<open>simp_all add: fresh_pages_def\<close>)
  ultimately show ?thesis
    using that [of "p2v a" v] a(1) c by (simp add: alloc_kpage_def on_vm_def vm_alloc_kernel_def)
qed

lemma kernel_page_upper:
  assumes "page_base c" "KERNBASE \<le> c"
  shows "c AND 0xFFFF800000000000 = 0xFFFF800000000000" "\<not> bit c 0" "c \<noteq> 0"
proof -
  have mask: "(0xFFFF800000000000 :: u64) = push_bit 47 (mask 17)" by (simp add: mask_eq_exp_minus_1)
  show "c AND 0xFFFF800000000000 = 0xFFFF800000000000"
    unfolding mask by (intro bit_word_eqI) (auto simp: bit_simps kernel_upper_bits [OF assms(2)])
  show "\<not> bit c 0" using page_base_bit [OF assms(1), of 0] by simp
  show "c \<noteq> 0" using assms(2) by (auto simp: KERNBASE_def)
qed

lemma thread_page:
  assumes "page_base c" "KERNBASE \<le> c"
  shows "TCB_PTR_CTE_PTR (c + TCB_OFFSET) (cnode_index tcbCTable) = c" "c + TCB_OFFSET \<noteq> 0"
proof -
  have o: "c + TCB_OFFSET = c OR 0x400"
    using in_page(1) [OF assms(1), of "0x400"] by (simp add: TCB_OFFSET_def TCB_SIZE_BITS_def OsTCBBits_def)
  have "c AND NOT (mask 11) = c"
    using page_base_bit [OF assms(1)] by (auto intro!: bit_word_eqI simp: bit_simps)
  moreover have "(0x400 :: u64) AND NOT (mask 11) = 0" by (simp add: mask_eq_exp_minus_1)
  ultimately have "(c OR 0x400) AND NOT (mask 11) = c" by (simp add: bit.conj_disj_distrib2)
  then show "TCB_PTR_CTE_PTR (c + TCB_OFFSET) (cnode_index tcbCTable) = c"
    unfolding TCB_PTR_CTE_PTR_def o by (simp add: OsTCBBits_def)
  have "bit c 63" using kernel_upper_bits [OF assms(2), of 63] by simp
  then have "bit (c OR 0x400) 63" by (simp add: bit_simps)
  then show "c + TCB_OFFSET \<noteq> 0" unfolding o by fastforce
qed

lemma append_keeps:
  "tcb_sched_append t s = Inr s' \<Longrightarrow> cte_heap s' = cte_heap s \<and> ep_heap s' = ep_heap s
    \<and> dom (tcb_heap s') = dom (tcb_heap s)"
  using kf_sched(1) [of s s t]
  by (auto simp: tcb_sched_append_def bind_ok_Inr_iff mod_tcb_def Let_def ok_post_def kframe_def
      split: if_splits)

lemma ready_rep_heaps [simp]:
  "ready_rep (s\<lparr>cte_heap := h\<rparr>) xs = ready_rep s xs" "ready_rep (s\<lparr>ep_heap := e\<rparr>) xs = ready_rep s xs"
  by (simp_all add: ready_rep_def)

lemma ready_rep_new_tcb:
  "ready_rep s [] \<Longrightarrow> ready_rep (new_tcb t s) []"
  by (auto simp: ready_rep_def new_tcb_def zero_tcb_def)

subsection \<open>The steps\<close>

lemma init_root_spec:
  assumes pages: "fresh_pages (vm M) P (Suc (Suc n))"
  obtains root page x v where "init_root junk M = Inr (root, M\<lparr>vm := v,
      kern := (kern M)\<lparr>cte_heap := (cte_heap (kern M))(root \<mapsto> x)\<rparr>\<rparr>)"
    "root \<notin> P" "fresh_pages v (insert page (insert root P)) n"
proof -
  from fresh_page [OF pages] obtain root v where r: "alloc_kpage M = Inr (root, M\<lparr>vm := v\<rparr>)"
    "root \<notin> P" "fresh_pages v (insert root P) (Suc n)" .
  let ?M = "M\<lparr>vm := v, kern := new_cte root (kern M)\<rparr>"
  have "fresh_pages (vm ?M) (insert root P) (Suc n)" using r(3) by simp
  then obtain page v' where p: "alloc_kpage ?M = Inr (page, ?M\<lparr>vm := v'\<rparr>)"
    "fresh_pages v' (insert page (insert root P)) n" by (rule fresh_page)
  then show ?thesis
    using r that
    by (simp add: init_root_def Let_def new_cte_def on_kern_def mod_cte_def get_cte_def)
qed

lemma make_cspace_spec:
  assumes pages: "fresh_pages (vm M) P (Suc n)"
    and c: "cte_heap (kern M) cTable = Some c" "cTable \<in> P"
  obtains page v where "make_cspace junk cTable M = Inr (M\<lparr>vm := v, kern := (kern M)\<lparr>cte_heap :=
      (cte_heap (kern M))(page \<mapsto> zero_cte, cTable \<mapsto>
         c\<lparr>cte_cap := new_cnode_cap junk (drop_bit 1 page) 0\<rparr>)\<rparr>\<rparr>)"
    "page \<notin> P" "page_base page" "KERNBASE \<le> page" "fresh_pages v (insert page P) n"
proof -
  from fresh_page [OF pages] obtain page v where p: "alloc_kpage M = Inr (page, M\<lparr>vm := v\<rparr>)"
    "page \<notin> P" "page_base page" "KERNBASE \<le> page" "fresh_pages v (insert page P) n" .
  then have "page \<noteq> cTable" using c(2) by auto
  with p c(1) show ?thesis
    by (intro that [of page v]) (simp_all add: make_cspace_def Let_def new_cte_def on_kern_def
        mod_cte_def get_cte_def create_object_def)
qed

lemma insert_at_0_spec:
  assumes t: "page_base obj" "KERNBASE \<le> obj" and page: "page_base page" "KERNBASE \<le> page"
    and root: "cte_heap s obj = Some r" "cte_cap r = new_cnode_cap junk (drop_bit 1 page) 0"
    and slot: "cte_heap s page = Some d"
  shows "lookup_slot u (obj + TCB_OFFSET) 0 s = Inr \<lparr>lus_status = u, lus_slot = page\<rparr>"
    and "insert_at_0 u cteRoot cap (obj + TCB_OFFSET) s
      = Inr (s\<lparr>cte_heap := (cte_heap s)(page \<mapsto> d\<lparr>cte_cap := cap\<rparr>)\<rparr>)"
proof -
  have "cte_heap s (TCB_PTR_CTE_PTR (obj + TCB_OFFSET) (cnode_index tcbCTable)) = Some r"
    using root(1) unfolding thread_page(1) [OF t] .
  note look = lookup_slot_cte [OF this, of u 0]
  have "capCNodePtr (CNodeCap_of_Cap (cte_cap r)) = ucast (drop_bit 1 page)"
    by (simp add: root(2) new_cnode_cap_def Let_def)
  with look cnode_ptr_roundtrip [OF kernel_page_upper(1,2) [OF page]]
  show l: "lookup_slot u (obj + TCB_OFFSET) 0 s = Inr \<lparr>lus_status = u, lus_slot = page\<rparr>" by simp
  show "insert_at_0 u cteRoot cap (obj + TCB_OFFSET) s
      = Inr (s\<lparr>cte_heap := (cte_heap s)(page \<mapsto> d\<lparr>cte_cap := cap\<rparr>)\<rparr>)"
    unfolding insert_at_0_def l using slot by (simp add: insert_new_cap_def mod_cte_def get_cte_def)
qed

lemma start_threads_spec:
  assumes pages: "fresh_pages (vm M) {} (Suc (Suc n))"
    and ready: "ready_rep (kern M) []" and five: "length (pluginTcb M) = 5"
  obtains o0 o1 M' where "start_threads M = Inr (o0, o1, M')" "o0 \<noteq> o1"
    "page_base o0" "KERNBASE \<le> o0" "page_base o1" "KERNBASE \<le> o1" "fresh_pages (vm M') {o1, o0} n"
    "ready_rep (kern M') [o0 + TCB_OFFSET, o1 + TCB_OFFSET]"
    "cte_heap (kern M') = (cte_heap (kern M))(o0 \<mapsto> zero_cte, o1 \<mapsto> zero_cte)"
    "ep_heap (kern M') = ep_heap (kern M)"
    "pluginTcb M' = (pluginTcb M)[0 := o0 + TCB_OFFSET, 1 := o1 + TCB_OFFSET]"
proof -
  from fresh_page [OF pages] obtain o0 v where p0: "alloc_kpage M = Inr (o0, M\<lparr>vm := v\<rparr>)"
    "page_base o0" "KERNBASE \<le> o0" "fresh_pages v {o0} (Suc n)" .
  have "fresh_pages (vm (M\<lparr>vm := v\<rparr>)) {o0} (Suc n)" using p0(4) by simp
  then obtain o1 v' where p1: "alloc_kpage (M\<lparr>vm := v\<rparr>) = Inr (o1, M\<lparr>vm := v\<rparr>\<lparr>vm := v'\<rparr>)"
    "o1 \<notin> {o0}" "page_base o1" "KERNBASE \<le> o1" "fresh_pages v' {o1, o0} n" by (rule fresh_page)
  let ?t0 = "o0 + TCB_OFFSET" and ?t1 = "o1 + TCB_OFFSET"
  let ?k = "new_tcb ?t1 (new_cte o1 (new_tcb ?t0 (new_cte o0 (kern M))))"
  have "ready_rep (new_cte c s) xs = ready_rep s xs" for c s xs by (simp add: new_cte_def)
  then have rep: "ready_rep ?k []" using ready ready_rep_new_tcb by simp
  have tcb: "is_tcb ?k ?t0" "is_tcb ?k ?t1"
    using thread_page(2) p0(2,3) p1(3,4) by (simp_all add: is_tcb_def new_tcb_def new_cte_def)
  obtain s1 where s1: "tcb_sched_append ?t0 ?k = Inr s1" "ready_rep s1 ([] @ [?t0])"
    using append_new [OF rep tcb(1)] by auto
  have "is_tcb s1 ?t1" using is_tcb_append [OF s1(1)] tcb(2) by simp
  moreover have "?t1 \<notin> set ([] @ [?t0])" using p1(2) by simp
  ultimately obtain s2 where s2: "tcb_sched_append ?t1 s1 = Inr s2" "ready_rep s2 (([] @ [?t0]) @ [?t1])"
    using append_new [OF s1(2)] by blast
  let ?M = "M\<lparr>vm := v', kern := s2, pluginTcb := (pluginTcb M)[0 := ?t0, 1 := ?t1]\<rparr>"
  have "start_threads M = Inr (o0, o1, ?M)"
    using p0(1) p1(1) s1(1) s2(1) five 
    by (auto simp add: start_threads_def new_thread_def set_pluginTcb_def on_kern_def Let_def)
  moreover have "cte_heap s2 = (cte_heap (kern M))(o0 \<mapsto> zero_cte, o1 \<mapsto> zero_cte)"
    "ep_heap s2 = ep_heap (kern M)"
    using append_keeps [OF s1(1)] append_keeps [OF s2(1)] by (simp_all add: new_tcb_def new_cte_def)
  ultimately show ?thesis
    using that [of o0 o1 ?M] p0(2,3) p1(2-5) s2(2) by simp
qed

subsection \<open>Two threads that can talk to each other\<close>

text \<open>Thread \<open>t\<close> finds at capability address 0 a capability to the endpoint \<open>p\<close> with all rights.\<close>

definition holds_endpoint :: "Exception \<Rightarrow> kstate \<Rightarrow> u64 \<Rightarrow> u64 \<Rightarrow> bool" where
  "holds_endpoint u s p t \<longleftrightarrow> (\<exists>slot c. lookup_slot u t 0 s = Inr \<lparr>lus_status = u, lus_slot = slot\<rparr>
     \<and> cte_heap s slot = Some c \<and> cap_endpoint (cte_cap c) = p
     \<and> (let e = EndpointCap_of_Cap (cte_cap c) in
          capCanSend e = 1 \<and> capCanReceive e = 1 \<and> capCanGrant e = 1 \<and> capCanGrantReply e = 1
          \<and> capEPBadge e = 0))"

lemma new_endpoint_cap_rights:
  "(let e = EndpointCap_of_Cap (new_endpoint_cap junk p) in
      capCanSend e = 1 \<and> capCanReceive e = 1 \<and> capCanGrant e = 1 \<and> capCanGrantReply e = 1
      \<and> capEPBadge e = 0)"
  by (simp add: new_endpoint_cap_def Let_def)

lemma new_endpoint_cap_endpoint:
  assumes "page_base p" "KERNBASE \<le> p"
  shows "cap_endpoint (new_endpoint_cap junk p) = p"
proof -
  have mask: "(0xFFFF000000000000 :: u64) = push_bit 48 (mask 16)" by (simp add: mask_eq_exp_minus_1)
  have "ucast (ucast p :: 48 word) OR 0xFFFF000000000000 = p"
    unfolding mask by (intro bit_word_eqI) (auto simp: bit_simps kernel_upper_bits [OF assms(2)])
  then show ?thesis by (simp add: cap_endpoint_def new_endpoint_cap_def Let_def)
qed

lemma holds_endpoint_insert:
  assumes t: "page_base obj" "KERNBASE \<le> obj" and page: "page_base page" "KERNBASE \<le> page"
    and root: "cte_heap s obj = Some r" "cte_cap r = new_cnode_cap junk (drop_bit 1 page) 0"
    and slot: "cte_heap s page = Some d" "cte_cap d = new_endpoint_cap junk' p"
    and p: "page_base p" "KERNBASE \<le> p"
  shows "holds_endpoint u s p (obj + TCB_OFFSET)"
  unfolding holds_endpoint_def
  using insert_at_0_spec(1) [OF t page root slot(1)] slot new_endpoint_cap_endpoint [OF p]
    new_endpoint_cap_rights [of junk' p]
  by (intro exI [of _ page] exI [of _ d]) simp

lemma ep_rep_new:
  "ep_heap s p = Some zero_endpoint \<Longrightarrow> ep_rep s p []"
  by (auto simp: ep_rep_def zero_endpoint_def ep_links_def intro!: exI [of _ 0])

lemma make_spaces_spec:
  assumes pages: "fresh_pages (vm M) {o1, o0} (Suc (Suc (Suc (Suc n))))"
    and slots: "o0 \<noteq> o1" "cte_heap (kern M) o0 = Some zero_cte" "cte_heap (kern M) o1 = Some zero_cte"
  obtains root c0 c1 v h r0 r1 where
    "make_spaces j0 j1 j2 o0 o1 M = Inr (root, M\<lparr>vm := v, kern := (kern M)\<lparr>cte_heap := h\<rparr>\<rparr>)"
    "page_base c0" "KERNBASE \<le> c0" "page_base c1" "KERNBASE \<le> c1"
    "c0 \<noteq> c1" "o0 \<notin> {c0, c1}" "o1 \<notin> {c0, c1}" "mem_ok v" "n \<le> room (boot_mem v)"
    "h o0 = Some r0" "cte_cap r0 = new_cnode_cap j1 (drop_bit 1 c0) 0"
    "h o1 = Some r1" "cte_cap r1 = new_cnode_cap j2 (drop_bit 1 c1) 0"
    "h c0 = Some zero_cte" "h c1 = Some zero_cte"
proof -
  let ?h1 = "cte_heap (kern M)"
  from init_root_spec [OF pages] obtain root pg x v2 where M2: "init_root j0 M = Inr (root, M\<lparr>vm := v2,
      kern := (kern M)\<lparr>cte_heap := ?h1(root \<mapsto> x)\<rparr>\<rparr>)" "root \<notin> {o1, o0}"
    "fresh_pages v2 (insert pg (insert root {o1, o0})) (Suc (Suc n))" .
  let ?P = "insert pg (insert root {o1, o0})"
  let ?M2 = "M\<lparr>vm := v2, kern := (kern M)\<lparr>cte_heap := ?h1(root \<mapsto> x)\<rparr>\<rparr>"
  have h2: "cte_heap (kern ?M2) o0 = Some zero_cte" "cte_heap (kern ?M2) o1 = Some zero_cte"
    using slots M2(2) by auto
  have "fresh_pages (vm ?M2) ?P (Suc (Suc n))" using M2(3) by simp
  moreover note h2(1)
  moreover have "o0 \<in> ?P" by simp
  ultimately obtain c0 v3 where M3: "make_cspace j1 o0 ?M2 = Inr (?M2\<lparr>vm := v3, kern := (kern ?M2)\<lparr>cte_heap :=
      (cte_heap (kern ?M2))(c0 \<mapsto> zero_cte, o0 \<mapsto>
         zero_cte\<lparr>cte_cap := new_cnode_cap j1 (drop_bit 1 c0) 0\<rparr>)\<rparr>\<rparr>)"
    "c0 \<notin> ?P" "page_base c0" "KERNBASE \<le> c0" "fresh_pages v3 (insert c0 ?P) (Suc n)"
    by (rule make_cspace_spec)
  let ?h3 = "(cte_heap (kern ?M2))(c0 \<mapsto> zero_cte, o0 \<mapsto>
      zero_cte\<lparr>cte_cap := new_cnode_cap j1 (drop_bit 1 c0) 0\<rparr>)"
  let ?M3 = "?M2\<lparr>vm := v3, kern := (kern ?M2)\<lparr>cte_heap := ?h3\<rparr>\<rparr>"
  have h3: "cte_heap (kern ?M3) o1 = Some zero_cte" using h2 M3(2) slots(1) by auto
  have "fresh_pages (vm ?M3) (insert c0 ?P) (Suc n)" using M3(5) by simp
  moreover note h3
  moreover have "o1 \<in> insert c0 ?P" by simp
  ultimately obtain c1 v4 where M4: "make_cspace j2 o1 ?M3 = Inr (?M3\<lparr>vm := v4, kern := (kern ?M3)\<lparr>cte_heap :=
      (cte_heap (kern ?M3))(c1 \<mapsto> zero_cte, o1 \<mapsto>
         zero_cte\<lparr>cte_cap := new_cnode_cap j2 (drop_bit 1 c1) 0\<rparr>)\<rparr>\<rparr>)"
    "c1 \<notin> insert c0 ?P" "page_base c1" "KERNBASE \<le> c1"
    "fresh_pages v4 (insert c1 (insert c0 ?P)) n"
    by (rule make_cspace_spec)
  let ?h = "?h3(c1 \<mapsto> zero_cte, o1 \<mapsto> zero_cte\<lparr>cte_cap := new_cnode_cap j2 (drop_bit 1 c1) 0\<rparr>)"
  have "make_spaces j0 j1 j2 o0 o1 M = Inr (root, M\<lparr>vm := v4, kern := (kern M)\<lparr>cte_heap := ?h\<rparr>\<rparr>)"
    using M2(1) M3(1) M4(1) by (simp add: make_spaces_def)
  moreover have neq: "c0 \<noteq> o0" "c0 \<noteq> o1" "c1 \<noteq> o0" "c1 \<noteq> o1" "c0 \<noteq> c1" using M3(2) M4(2) by auto
  moreover have "?h o0 = Some (zero_cte\<lparr>cte_cap := new_cnode_cap j1 (drop_bit 1 c0) 0\<rparr>)"
    "?h o1 = Some (zero_cte\<lparr>cte_cap := new_cnode_cap j2 (drop_bit 1 c1) 0\<rparr>)"
    "?h c0 = Some zero_cte" "?h c1 = Some zero_cte"
    using neq neq [symmetric] slots(1) slots(1) [symmetric] by simp_all
  moreover have "mem_ok v4" "n \<le> room (boot_mem v4)" using M4(5) by (simp_all add: fresh_pages_def)
  ultimately show ?thesis
    using M3(3,4) M4(3,4) by (intro that [of root ?h v4 c0 c1]) auto
qed

lemma share_endpoint_spec:
  assumes mem: "mem_ok (vm M)" "0 < room (boot_mem (vm M))"
    and o: "page_base o0" "KERNBASE \<le> o0" "page_base o1" "KERNBASE \<le> o1"
    and c: "page_base c0" "KERNBASE \<le> c0" "page_base c1" "KERNBASE \<le> c1"
      "c0 \<noteq> c1" "o0 \<notin> {c0, c1}" "o1 \<notin> {c0, c1}"
    and h: "cte_heap (kern M) o0 = Some r0" "cte_cap r0 = new_cnode_cap j1 (drop_bit 1 c0) 0"
      "cte_heap (kern M) o1 = Some r1" "cte_cap r1 = new_cnode_cap j2 (drop_bit 1 c1) 0"
      "cte_heap (kern M) c0 = Some zero_cte" "cte_heap (kern M) c1 = Some zero_cte"
  obtains M' p where "share_endpoint u junk cteRoot (o0 + TCB_OFFSET) (o1 + TCB_OFFSET) M = Inr M'"
    "ep_rep (kern M') p []" "holds_endpoint u (kern M') p (o0 + TCB_OFFSET)"
    "holds_endpoint u (kern M') p (o1 + TCB_OFFSET)"
    "pluginTcb M' = pluginTcb M" "\<And>xs. ready_rep (kern M') xs = ready_rep (kern M) xs"
proof -
  have "fresh_pages (vm M) {} (Suc 0)" using mem by (simp add: fresh_pages_def)
  then obtain p v where p: "alloc_kpage M = Inr (p, M\<lparr>vm := v\<rparr>)" "page_base p" "KERNBASE \<le> p"
    by (elim fresh_page)
  let ?cap = "new_endpoint_cap junk p" and ?k = "(kern M)\<lparr>ep_heap := (ep_heap (kern M))(p \<mapsto> zero_endpoint)\<rparr>"
  let ?ka = "?k\<lparr>cte_heap := (cte_heap ?k)(c0 \<mapsto> zero_cte\<lparr>cte_cap := ?cap\<rparr>)\<rparr>"
  let ?kb = "?ka\<lparr>cte_heap := (cte_heap ?ka)(c1 \<mapsto> zero_cte\<lparr>cte_cap := ?cap\<rparr>)\<rparr>"
  note sym = c(5) c(5) [symmetric]
  have k: "cte_heap ?k o0 = Some r0" "cte_heap ?k c0 = Some zero_cte"
    "cte_heap ?ka o1 = Some r1" "cte_heap ?ka c1 = Some zero_cte"
    "cte_heap ?kb o0 = Some r0" "cte_heap ?kb o1 = Some r1"
    "cte_heap ?kb c0 = Some (zero_cte\<lparr>cte_cap := ?cap\<rparr>)" "cte_heap ?kb c1 = Some (zero_cte\<lparr>cte_cap := ?cap\<rparr>)"
    using c(6,7) h by (simp_all add: sym)
  have "zero_endpoint\<lparr>ep_state := EPState_Idle\<rparr> = zero_endpoint" by (simp add: zero_endpoint_def)
  then have start: "mod_ep p (\<lambda>e. e\<lparr>ep_state := EPState_Idle\<rparr>) (new_endpoint p (kern M)) = Inr ?k"
    by (simp add: mod_ep_def get_ep_def new_endpoint_def)
  have "share_endpoint u junk cteRoot (o0 + TCB_OFFSET) (o1 + TCB_OFFSET) M = Inr (M\<lparr>vm := v, kern := ?kb\<rparr>)"
    using insert_at_0_spec(2) [OF o(1,2) c(1,2) k(1) h(2) k(2), of u cteRoot ?cap]
      insert_at_0_spec(2) [OF o(3,4) c(3,4) k(3) h(4) k(4), of u cteRoot ?cap]
    by (simp add: share_endpoint_def p(1) on_kern_def start create_object_def Let_def)
  then show ?thesis
  proof (rule that)
    show "ep_rep (kern (M\<lparr>vm := v, kern := ?kb\<rparr>)) p []" by (simp add: ep_rep_new)
    show "holds_endpoint u (kern (M\<lparr>vm := v, kern := ?kb\<rparr>)) p (o0 + TCB_OFFSET)"
      using holds_endpoint_insert [OF o(1,2) c(1,2) k(5) h(2) k(7) _ p(2,3)] by simp
    show "holds_endpoint u (kern (M\<lparr>vm := v, kern := ?kb\<rparr>)) p (o1 + TCB_OFFSET)"
      using holds_endpoint_insert [OF o(3,4) c(3,4) k(6) h(4) k(8) _ p(2,3)] by simp
  qed simp_all
qed

text \<open>C9: The set-up of the first threads: on a consistent address space with seven pages left in one
  run and an empty ready queue, \<open>ipc_test\<close> leaves two different threads on the ready queue, in the order of the plug-in table, and an idle endpoint
  with no waiting thread, to which both threads find at capability address 0 a capability with all
  rights and badge 0.\<close>

theorem ipc_test_starts_two_threads:
  assumes inv: "pt_inv own (vm M)" "7 \<le> room (boot_mem (vm M))"
    and ready: "ready_rep (kern M) []" and five: "length (pluginTcb M) = 5"
  shows "\<exists>M' t0 t1 p. ipc_test u junk0 junk1 junk2 junk3 M = Inr M' \<and> t0 \<noteq> t1
      \<and> ready_rep (kern M') [t0, t1] \<and> pluginTcb M' = (pluginTcb M)[0 := t0, 1 := t1]
      \<and> ep_rep (kern M') p [] \<and> holds_endpoint u (kern M') p t0 \<and> holds_endpoint u (kern M') p t1"
proof -
  have "fresh_pages (vm M) {} (Suc (Suc 5))" using fresh_pages_init [OF inv] by simp
  then obtain o0 o1 M1 where M1: "start_threads M = Inr (o0, o1, M1)" "o0 \<noteq> o1"
    "page_base o0" "KERNBASE \<le> o0" "page_base o1" "KERNBASE \<le> o1" "fresh_pages (vm M1) {o1, o0} 5"
    "ready_rep (kern M1) [o0 + TCB_OFFSET, o1 + TCB_OFFSET]"
    "cte_heap (kern M1) = (cte_heap (kern M))(o0 \<mapsto> zero_cte, o1 \<mapsto> zero_cte)"
    "pluginTcb M1 = (pluginTcb M)[0 := o0 + TCB_OFFSET, 1 := o1 + TCB_OFFSET]"
    using ready five by (rule start_threads_spec)
  have "fresh_pages (vm M1) {o1, o0} (Suc (Suc (Suc (Suc 1))))" using M1(7) by (simp add: eval_nat_numeral)
  moreover note M1(2)
  moreover have "cte_heap (kern M1) o0 = Some zero_cte" "cte_heap (kern M1) o1 = Some zero_cte"
    using M1(2,9) by simp_all
  ultimately obtain root c0 c1 v h r0 r1 where M2:
    "make_spaces junk0 junk1 junk2 o0 o1 M1 = Inr (root, M1\<lparr>vm := v, kern := (kern M1)\<lparr>cte_heap := h\<rparr>\<rparr>)"
    "page_base c0" "KERNBASE \<le> c0" "page_base c1" "KERNBASE \<le> c1"
    "c0 \<noteq> c1" "o0 \<notin> {c0, c1}" "o1 \<notin> {c0, c1}" "mem_ok v" "1 \<le> room (boot_mem v)"
    "h o0 = Some r0" "cte_cap r0 = new_cnode_cap junk1 (drop_bit 1 c0) 0"
    "h o1 = Some r1" "cte_cap r1 = new_cnode_cap junk2 (drop_bit 1 c1) 0"
    "h c0 = Some zero_cte" "h c1 = Some zero_cte"
    by (rule make_spaces_spec)
  let ?M = "M1\<lparr>vm := v, kern := (kern M1)\<lparr>cte_heap := h\<rparr>\<rparr>"
  have all: "ipc_test u junk0 junk1 junk2 junk3 M
      = share_endpoint u junk3 root (o0 + TCB_OFFSET) (o1 + TCB_OFFSET) ?M"
    by (simp add: ipc_test_def M1(1) M2(1))
  have fields: "vm ?M = v" "cte_heap (kern ?M) = h" by simp_all
  have "0 < room (boot_mem v)" using M2(10) by simp
  from share_endpoint_spec [of ?M, unfolded fields, OF M2(9) this M1(3-6) M2(2-8,11-16)]
  obtain M' p where M': "share_endpoint u junk3 root (o0 + TCB_OFFSET) (o1 + TCB_OFFSET) ?M = Inr M'"
    "ep_rep (kern M') p []" "holds_endpoint u (kern M') p (o0 + TCB_OFFSET)"
    "holds_endpoint u (kern M') p (o1 + TCB_OFFSET)" "pluginTcb M' = pluginTcb ?M"
    "\<And>xs. ready_rep (kern M') xs = ready_rep (kern ?M) xs" by blast
  show ?thesis
    unfolding all using M' M1(2,8,10)
    by (intro exI [of _ M'] exI [of _ "o0 + TCB_OFFSET"] exI [of _ "o1 + TCB_OFFSET"] exI [of _ p]) simp
qed

text \<open>The kernel of the fixtures with the memory and the tables of \<open>vm_init\<close> and no thread.\<close>

definition boot_machine :: machine where
  "boot_machine = \<lparr>kern = blank_state, vm = kernel_space, ctx_heap = Map.empty,
     cons = \<lparr>crtc_index = 0, crtc_regs = (\<lambda>_. 0), crt_mem = (\<lambda>_. Some 0)\<rparr>, pluginTcb = [0, 0, 0, 0, 0]\<rparr>"

theorem ipc_test_starts_two_threads_witness:
  "\<exists>M' t0 t1 p. ipc_test 0 call_ep_cap call_ep_cap call_ep_cap call_ep_cap boot_machine = Inr M'
      \<and> t0 \<noteq> t1 \<and> ready_rep (kern M') [t0, t1] \<and> pluginTcb M' = [t0, t1, 0, 0, 0]
      \<and> ep_rep (kern M') p [] \<and> holds_endpoint 0 (kern M') p t0 \<and> holds_endpoint 0 (kern M') p t1"
proof -
  have "pt_inv kernel_tables (vm boot_machine)" "7 \<le> room (boot_mem (vm boot_machine))"
    "ready_rep (kern boot_machine) []" "length (pluginTcb boot_machine) = 5"
    using kernel_space_inv kernel_memory(2,3)
    by (simp_all add: boot_machine_def ready_rep_def blank_state_def)
  from ipc_test_starts_two_threads [OF this] show ?thesis by (simp add: boot_machine_def)
qed

end
