(* ===== verification/Disk.thy ===== *)
theory Disk
  imports VmUser
begin

text \<open>
  Reading the disk: the port instructions of \<open>include/kernel/x86.h\<close> and the IDE reader that
  \<open>src/kernel/loadplugin.c\<close> and the boot loader \<open>src/kernel/bootmain.c\<close> each have a copy of.

  The drive is not part of the program. It is a parameter: the status byte it shows at each poll, and
  the words it delivers, given what was last written to its ports. A loop that waits for the drive
  may not end; then the value is \<open>None\<close>.
\<close>

subsection \<open>The drive\<close>

record drive =
  poll :: "nat \<Rightarrow> u8"
  serve :: "(u16 \<Rightarrow> u8) \<Rightarrow> nat \<Rightarrow> u32"

record ide =
  ide_ports :: "u16 \<Rightarrow> u8"
  ide_polls :: nat

definition SECTSIZE :: nat where "SECTSIZE = 512"

definition inb :: "drive \<Rightarrow> ide \<Rightarrow> u8 \<times> ide" where
  "inb d io = (poll d (ide_polls io), io\<lparr>ide_polls := Suc (ide_polls io)\<rparr>)"

definition outb :: "u16 \<Rightarrow> u8 \<Rightarrow> ide \<Rightarrow> ide" where
  "outb port data io = io\<lparr>ide_ports := (ide_ports io)(port := data)\<rparr>"

text \<open>The \<open>cnt\<close> words that arrive at the data port go to memory, low byte first; \<open>addr k\<close> is the address
  of byte \<open>k\<close> of the buffer.\<close>

definition word_byte :: "u32 \<Rightarrow> nat \<Rightarrow> u8" where
  "word_byte w k = ucast (drop_bit (8 * k) w)"

definition store_word :: "(nat \<Rightarrow> u64) \<Rightarrow> u32 \<Rightarrow> bytes \<Rightarrow> kerror + bytes" where
  "store_word addr w m = fold_ok (\<lambda>k. store8 (addr k) (word_byte w k)) [0..<4] m"

primrec insl :: "(nat \<Rightarrow> u64) \<Rightarrow> (nat \<Rightarrow> u32) \<Rightarrow> nat \<Rightarrow> bytes \<Rightarrow> kerror + bytes" where
  "insl addr word 0 m = Inr m"
| "insl addr word (Suc cnt) m =
     bind_ok (insl addr word cnt m) (store_word (\<lambda>k. addr (4 * cnt + k)) (word cnt))"

subsection \<open>Running operations that may not return\<close>

type_synonym 'a run = "(kerror + 'a) option"

definition bind_run :: "'a run \<Rightarrow> ('a \<Rightarrow> 'b run) \<Rightarrow> 'b run" where
  "bind_run m f = (case m of None \<Rightarrow> None | Some (Inl e) \<Rightarrow> Some (Inl e) | Some (Inr x) \<Rightarrow> f x)"

lemma bind_run_simps [simp]:
  "bind_run None f = None" "bind_run (Some (Inl e)) f = Some (Inl e)" "bind_run (Some (Inr x)) f = f x"
  by (simp_all add: bind_run_def)

lemma bind_run_mono [partial_function_mono]:
  fixes B :: "('x \<Rightarrow> 'y option) \<Rightarrow> 'a run" and C :: "'a \<Rightarrow> ('x \<Rightarrow> 'y option) \<Rightarrow> 'b run"
  assumes "mono_option (\<lambda>f. B f)" and "\<And>y. mono_option (\<lambda>f. C y f)"
  shows "mono_option (\<lambda>f. bind_run (B f) (\<lambda>y. C y f))"
proof (rule monotoneI)
  fix f g :: "'x \<Rightarrow> 'y option" assume fg: "fun_ord option_ord f g"
  have "option_ord (B f) (B g)" using assms(1) fg by (rule monotoneD [of _ _ B f g])
  then have "B f = None \<or> B f = B g" by (auto simp: flat_ord_def)
  moreover have "option_ord (C y f) (C y g)" for y using assms(2) fg by (rule monotoneD [of _ _ "C y" f g])
  then have "C y f = None \<or> C y f = C y g" for y by (simp add: flat_ord_def)
  ultimately show "option_ord (bind_run (B f) (\<lambda>y. C y f)) (bind_run (B g) (\<lambda>y. C y g))"
    unfolding bind_run_def flat_ord_def
    by (cases "B f = None") (auto split: option.split sum.split)
qed

subsection \<open>Sectors\<close>

partial_function (option) wait_disk :: "drive \<Rightarrow> ide \<Rightarrow> ide option" where
  "wait_disk d io =
     (let (status, io) = inb d io in if status AND 0xC0 \<noteq> 0x40 then wait_disk d io else Some io)"

text \<open>The six writes that give the command, with the drive and the mode in the upper half of the last
  address byte.\<close>

definition issue :: "u32 \<Rightarrow> u32 \<Rightarrow> ide \<Rightarrow> ide" where
  "issue sel offset io =
     outb 0x1F7 0x20
       (outb 0x1F6 (ucast (drop_bit 24 offset OR sel))
         (outb 0x1F5 (ucast (drop_bit 16 offset))
           (outb 0x1F4 (ucast (drop_bit 8 offset))
             (outb 0x1F3 (ucast offset) (outb 0x1F2 1 io)))))"

text \<open>\<open>read_sect\<close> of the kernel, on the second drive, and \<open>readsect\<close> of the boot loader, on the first,
  with 32-bit addresses.\<close>

definition read_sect :: "drive \<Rightarrow> u64 \<Rightarrow> u32 \<Rightarrow> ide \<times> bytes \<Rightarrow> (ide \<times> bytes) run" where
  "read_sect d dst offset s =
     (case wait_disk d (fst s) of None \<Rightarrow> None | Some io \<Rightarrow>
      case wait_disk d (issue 0xF0 offset io) of None \<Rightarrow> None | Some io \<Rightarrow>
      Some (bind_ok (insl (\<lambda>k. dst + of_nat k) (serve d (ide_ports io)) (SECTSIZE div 4) (snd s)) (\<lambda>m.
        Inr (io, m))))"

definition readsect :: "drive \<Rightarrow> u32 \<Rightarrow> u32 \<Rightarrow> ide \<times> bytes \<Rightarrow> (ide \<times> bytes) run" where
  "readsect d dst offset s =
     (case wait_disk d (fst s) of None \<Rightarrow> None | Some io \<Rightarrow>
      case wait_disk d (issue 0xE0 offset io) of None \<Rightarrow> None | Some io \<Rightarrow>
      Some (bind_ok (insl (\<lambda>k. ucast (dst + of_nat k)) (serve d (ide_ports io)) (SECTSIZE div 4) (snd s))
        (\<lambda>m. Inr (io, m))))"

partial_function (option) read_loop ::
    "('a::len word \<Rightarrow> u32 \<Rightarrow> ide \<times> bytes \<Rightarrow> (ide \<times> bytes) run) \<Rightarrow> 'a word \<Rightarrow> 'a word \<Rightarrow> u32
      \<Rightarrow> ide \<times> bytes \<Rightarrow> (ide \<times> bytes) run" where
  "read_loop rd pa epa offset s =
     (if pa < epa then bind_run (rd pa offset s) (\<lambda>s. read_loop rd (pa + 512) epa (offset + 1) s)
      else Some (Inr s))"

definition read_seg :: "drive \<Rightarrow> u64 \<Rightarrow> u32 \<Rightarrow> u32 \<Rightarrow> ide \<times> bytes \<Rightarrow> (ide \<times> bytes) run" where
  "read_seg d pa count offset s =
     (let epa = pa + ucast count; pa = pa - ucast (offset mod 512); offset = offset div 512 + 1
      in read_loop (read_sect d) pa epa offset s)"

definition readseg :: "drive \<Rightarrow> u32 \<Rightarrow> u32 \<Rightarrow> u32 \<Rightarrow> ide \<times> bytes \<Rightarrow> (ide \<times> bytes) run" where
  "readseg d pa count offset s =
     (let epa = pa + count; pa = pa - offset mod 512; offset = offset div 512 + 1
      in read_loop (readsect d) pa epa offset s)"

subsection \<open>What the program relies on\<close>

text \<open>A drive that is ready again and again.\<close>

definition drive_ready :: "drive \<Rightarrow> bool" where
  "drive_ready d \<longleftrightarrow> (\<forall>n. \<exists>k\<ge>n. poll d k AND 0xC0 = 0x40)"

text \<open>The sector number in the registers, 28 bits; the drive that the upper half of the last byte
  selects serves the image \<open>img\<close> when a read of one sector delivers its 512 bytes.\<close>

definition lba :: "(u16 \<Rightarrow> u8) \<Rightarrow> u32" where
  "lba r = ucast (r 0x1F3) OR push_bit 8 (ucast (r 0x1F4)) OR push_bit 16 (ucast (r 0x1F5))
     OR push_bit 24 (ucast (r 0x1F6 AND 0xF))"

definition serves :: "drive \<Rightarrow> u8 \<Rightarrow> (nat \<Rightarrow> u8) \<Rightarrow> bool" where
  "serves d sel img \<longleftrightarrow> (\<forall>r i k. r 0x1F2 = 1 \<longrightarrow> r 0x1F7 = 0x20 \<longrightarrow> r 0x1F6 AND 0xF0 = sel
     \<longrightarrow> i < 128 \<longrightarrow> k < 4 \<longrightarrow> word_byte (serve d r i) k = img (512 * unat (lba r) + 4 * i + k))"

lemma serves_byte:
  assumes "serves d sel img" "r 0x1F2 = 1" "r 0x1F7 = 0x20" "r 0x1F6 AND 0xF0 = sel" "j < 512"
  shows "word_byte (serve d r (j div 4)) (j mod 4) = img (512 * unat (lba r) + j)"
proof -
  have "j div 4 < 128" "j mod 4 < 4" using assms(5) by simp_all
  with assms(1-4) have "word_byte (serve d r (j div 4)) (j mod 4)
      = img (512 * unat (lba r) + 4 * (j div 4) + j mod 4)"
    unfolding serves_def by blast
  then show ?thesis by (simp add: add.assoc)
qed

subsection \<open>What the operations do\<close>

lemma wait_disk_returns:
  assumes "drive_ready d"
  shows "\<exists>io'. wait_disk d io = Some io' \<and> ide_ports io' = ide_ports io"
proof -
  obtain k where "ide_polls io \<le> k" "poll d k AND 0xC0 = 0x40"
    using assms unfolding drive_ready_def by blast
  then show ?thesis
  proof (induction "k - ide_polls io" arbitrary: io)
    case 0
    then show ?case by (subst wait_disk.simps) (simp add: inb_def)
  next
    case (Suc n)
    show ?case
    proof (cases "poll d (ide_polls io) AND 0xC0 = 0x40")
      case True
      then show ?thesis by (subst wait_disk.simps) (simp add: inb_def)
    next
      case False
      let ?io = "io\<lparr>ide_polls := Suc (ide_polls io)\<rparr>"
      have "n = k - ide_polls ?io" "ide_polls ?io \<le> k" using Suc.hyps(2) by simp_all
      from Suc.hyps(1) [OF this Suc.prems(2)]
      show ?thesis using False by (subst wait_disk.simps) (simp add: inb_def)
    qed
  qed
qed

lemma issue_ports [simp]:
  "ide_ports (issue sel offset io) 0x1F2 = 1" "ide_ports (issue sel offset io) 0x1F7 = 0x20"
  "ide_ports (issue sel offset io) 0x1F6 = ucast (drop_bit 24 offset OR sel)"
  by (simp_all add: issue_def outb_def)

lemma issue_lba:
  assumes sel: "sel = 0xF0 \<or> sel = 0xE0" and small: "unat offset < 2 ^ 28"
  shows "lba (ide_ports (issue sel offset io)) = offset"
    and "ide_ports (issue sel offset io) 0x1F6 AND 0xF0 = ucast sel"
proof -
  have off: "take_bit 28 offset = offset"
    using small by (simp add: word_unat_eq_iff unsigned_take_bit_eq take_bit_nat_eq_self)
  have m: "(0xF :: u8) = mask 4" "(0xF0 :: u32) = push_bit 4 (mask 4)" "(0xE0 :: u32) = push_bit 5 (mask 3)"
    "(0xF0 :: u8) = push_bit 4 (mask 4)"
    by (simp_all add: mask_eq_exp_minus_1)
  have low: "bit offset n \<Longrightarrow> n < 28" for n using off by (metis bit_take_bit_iff)
  have "(ucast (drop_bit 24 offset OR sel) :: u8) AND mask 4 = ucast (drop_bit 24 offset) AND mask 4"
    using sel unfolding m by (auto intro!: bit_word_eqI simp: bit_simps)
  then have "lba (ide_ports (issue sel offset io)) = ucast (ucast offset :: u8)
      OR push_bit 8 (ucast (ucast (drop_bit 8 offset) :: u8))
      OR push_bit 16 (ucast (ucast (drop_bit 16 offset) :: u8))
      OR push_bit 24 (ucast ((ucast (drop_bit 24 offset) :: u8) AND mask 4))"
    unfolding lba_def m by (simp add: issue_def outb_def)
  also have "\<dots> = take_bit 28 offset"
    by (rule bit_word_eqI) (auto simp: bit_simps)
  finally have "lba (ide_ports (issue sel offset io)) = take_bit 28 offset" .
  then show "lba (ide_ports (issue sel offset io)) = offset" unfolding off .
  show "ide_ports (issue sel offset io) 0x1F6 AND 0xF0 = ucast sel"
    using sel unfolding m issue_ports by (auto intro!: bit_word_eqI simp: bit_simps dest!: low)
qed

lemma written_snoc:
  assumes "n < 2 ^ 64"
  shows "(written a n f m)(a + of_nat n \<mapsto> v) = written a (Suc n) (f(n := Some v)) m"
proof -
  have "unat (of_nat n :: u64) = n" using assms by (simp add: unat_of_nat)
  then have "(written a n f m)(a + of_nat n \<mapsto> v) = written a n f (m(a + of_nat n \<mapsto> v))"
    by (auto simp: written_def fun_eq_iff)
  then show ?thesis unfolding written_last [OF assms] .
qed

text \<open>Words that arrive at a mapped buffer.\<close>

lemma store_le_written:
  assumes "\<And>k. k < n \<Longrightarrow> addr k = a + of_nat k" "mapped m a n" "n \<le> 2 ^ 64"
  shows "fold_ok (\<lambda>k. store8 (addr k) (f k)) [0..<n] m = Inr (written a n (\<lambda>k. Some (f k)) m)"
  using assms
proof (induction n)
  case (Suc n)
  let ?m = "written a n (\<lambda>k. Some (f k)) m"
  have "a + of_nat n \<in> dom m" using Suc.prems(2) by (simp add: mapped_def)
  then have "a + of_nat n \<in> dom ?m" by (auto simp: written_def)
  moreover have "?m(a + of_nat n \<mapsto> f n) = written a (Suc n) (\<lambda>k. Some (f k)) m"
    using Suc.prems(3) by (subst written_snoc) (auto intro: written_cong)
  moreover have "fold_ok (\<lambda>k. store8 (addr k) (f k)) [0..<n] m = Inr ?m"
    using Suc mapped_mono [OF Suc.prems(2), of n] by simp
  ultimately show ?case using Suc.prems(1) [of n] by (simp add: fold_ok_append del: fun_upd_apply)
qed simp

lemma store_word_written:
  assumes "\<And>k. k < 4 \<Longrightarrow> addr k = a + of_nat k" "mapped m a 4"
  shows "store_word addr w m = Inr (written a 4 (\<lambda>k. Some (word_byte w k)) m)"
  using store_le_written [OF assms, of "word_byte w"] by (simp add: store_word_def)

lemma insl_written:
  assumes addr: "\<And>k. k < 4 * cnt \<Longrightarrow> addr k = a + of_nat k" and "mapped m a (4 * cnt)" "4 * cnt \<le> 2 ^ 64"
  shows "insl addr word cnt m = Inr (written a (4 * cnt) (\<lambda>j. Some (word_byte (word (j div 4)) (j mod 4))) m)"
  using assms
proof (induction cnt)
  case (Suc cnt)
  let ?f = "\<lambda>j. Some (word_byte (word (j div 4)) (j mod 4))"
  let ?m = "written a (4 * cnt) ?f m" and ?a = "a + of_nat (4 * cnt)"
  have "mapped m a (4 * cnt)" using Suc.prems(2) mapped_mono by fastforce
  then have IH: "insl addr word cnt m = Inr ?m" using Suc by simp
  have "mapped m ?a 4" using Suc.prems(2) mapped_drop [of m a "4 * cnt" 4] by (simp add: add.commute)
  then have "mapped ?m ?a 4" by (rule mapped_written) simp
  moreover have "addr (4 * cnt + k) = ?a + of_nat k" if "k < 4" for k
    using Suc.prems(1) [of "4 * cnt + k"] that by (simp add: add.assoc)
  ultimately have "store_word (\<lambda>k. addr (4 * cnt + k)) (word cnt) ?m
      = Inr (written ?a 4 (\<lambda>k. Some (word_byte (word cnt) k)) ?m)"
    by (intro store_word_written)
  also have "written ?a 4 (\<lambda>k. Some (word_byte (word cnt) k)) ?m = written a (4 * cnt + 4) ?f m"
  proof -
    have "word_byte (word cnt) (i - 4 * cnt) = word_byte (word (i div 4)) (i mod 4)"
      if "\<not> i < 4 * cnt" "i < 4 * cnt + 4" for i
    proof -
      obtain j where "i = 4 * cnt + j" using \<open>\<not> i < 4 * cnt\<close> by (metis le_Suc_ex not_less)
      then show ?thesis using that(2) by simp
    qed
    then show ?thesis using Suc.prems(3) by (subst written_append) (auto intro!: written_cong)
  qed
  finally show ?case using IH by (simp add: add.commute)
qed simp

subsection \<open>Reading sectors\<close>

text \<open>A reader that stores the sector of its number at its destination, for both address widths.\<close>

definition reads_sectors ::
    "('a::len word \<Rightarrow> u32 \<Rightarrow> ide \<times> bytes \<Rightarrow> (ide \<times> bytes) run) \<Rightarrow> (nat \<Rightarrow> u8) \<Rightarrow> bool" where
  "reads_sectors rd img \<longleftrightarrow> (\<forall>dst offset io m. mapped m (ucast dst) 512 \<longrightarrow>
     unat dst + 512 \<le> 2 ^ LENGTH('a) \<longrightarrow> unat offset < 2 ^ 28 \<longrightarrow>
     (\<exists>io'. rd dst offset (io, m) = Some (Inr (io',
        written (ucast dst) 512 (\<lambda>j. Some (img (512 * unat offset + j))) m))))"

lemma reads_sectorsD:
  assumes "reads_sectors rd img" "mapped m (ucast (dst :: 'a::len word)) 512"
    and "unat dst + 512 \<le> 2 ^ LENGTH('a)" "unat offset < 2 ^ 28"
  obtains io' where "rd dst offset (io, m) = Some (Inr (io',
    written (ucast dst) 512 (\<lambda>j. Some (img (512 * unat offset + j))) m))"
  using assms unfolding reads_sectors_def by blast

lemma ucast_plus:
  fixes a :: "'a::len word"
  assumes "unat a + n < 2 ^ LENGTH('a)" "LENGTH('a) \<le> 64"
  shows "(ucast (a + of_nat n) :: u64) = ucast a + of_nat n" and "unat (a + of_nat n) = unat a + n"
proof -
  have n: "unat (of_nat n :: 'a word) = n" using assms(1) by (simp add: unat_of_nat)
  show *: "unat (a + of_nat n) = unat a + n" using assms(1) n by (simp add: unat_word_ariths)
  have up: "(2 :: nat) ^ LENGTH('a) \<le> 2 ^ 64" using assms(2) by (rule power_increasing) simp
  have "unat (ucast x :: u64) = unat x" for x :: "'a word"
    using take_bit_nat_eq_self [OF less_le_trans [OF unsigned_less up], of x] by (simp add: unsigned_ucast_eq)
  then show "(ucast (a + of_nat n) :: u64) = ucast a + of_nat n"
    using * assms(1) up by (simp add: word_unat_eq_iff unat_word_ariths unat_of_nat)
qed

lemma read_command:
  assumes "drive_ready d"
  obtains io1 io2 where "wait_disk d io = Some io1" "wait_disk d (issue sel offset io1) = Some io2"
    "ide_ports io2 = ide_ports (issue sel offset io1)"
  using wait_disk_returns [OF assms] by metis

lemma insl_sector:
  assumes "serves d (ucast sel) img" "sel = 0xF0 \<or> sel = 0xE0" "unat offset < 2 ^ 28"
    and "\<And>k. k < 512 \<Longrightarrow> addr k = a + of_nat k" "mapped m a 512"
    and io2: "ide_ports io2 = ide_ports (issue sel offset io1)"
  shows "insl addr (serve d (ide_ports io2)) (SECTSIZE div 4) m
    = Inr (written a 512 (\<lambda>j. Some (img (512 * unat offset + j))) m)"
proof -
  have regs: "ide_ports io2 0x1F2 = 1" "ide_ports io2 0x1F7 = 0x20" "ide_ports io2 0x1F6 AND 0xF0 = ucast sel"
    "lba (ide_ports io2) = offset"
    unfolding io2 using issue_lba [OF assms(2,3), of io1] issue_ports(1,2) by simp_all
  have "insl addr (serve d (ide_ports io2)) 128 m
      = Inr (written a (4 * 128) (\<lambda>j. Some (word_byte (serve d (ide_ports io2) (j div 4)) (j mod 4))) m)"
    using assms(4,5) by (intro insl_written) simp_all
  also have "written a (4 * 128) (\<lambda>j. Some (word_byte (serve d (ide_ports io2) (j div 4)) (j mod 4))) m
      = written a 512 (\<lambda>j. Some (img (512 * unat offset + j))) m"
    using serves_byte [OF assms(1) regs(1-3)] regs(4) by (auto intro: written_cong)
  finally show ?thesis by (simp add: SECTSIZE_def)
qed

lemma read_sect_reads:
  assumes "drive_ready d" "serves d 0xF0 img"
  shows "reads_sectors (read_sect d) img"
  unfolding reads_sectors_def
proof (intro allI impI)
  fix dst :: u64 and offset :: u32 and io m
  assume a: "mapped m (ucast dst) 512" "unat offset < 2 ^ 28"
  obtain io1 io2 where io: "wait_disk d io = Some io1" "wait_disk d (issue 0xF0 offset io1) = Some io2"
    "ide_ports io2 = ide_ports (issue 0xF0 offset io1)"
    using assms(1) by (rule read_command)
  have "insl (\<lambda>k. dst + of_nat k) (serve d (ide_ports io2)) (SECTSIZE div 4) m
    = Inr (written dst 512 (\<lambda>j. Some (img (512 * unat offset + j))) m)"
    using a assms(2) by (intro insl_sector [OF _ _ _ _ _ io(3)]) simp_all
  then show "\<exists>io'. read_sect d dst offset (io, m)
      = Some (Inr (io', written (ucast dst) 512 (\<lambda>j. Some (img (512 * unat offset + j))) m))"
    by (simp add: read_sect_def io(1,2))
qed

lemma readsect_reads:
  assumes "drive_ready d" "serves d 0xE0 img"
  shows "reads_sectors (readsect d) img"
  unfolding reads_sectors_def
proof (intro allI impI)
  fix dst offset :: u32 and io m
  assume a: "mapped m (ucast dst) 512" "unat dst + 512 \<le> 2 ^ LENGTH(32)" "unat offset < 2 ^ 28"
  obtain io1 io2 where io: "wait_disk d io = Some io1" "wait_disk d (issue 0xE0 offset io1) = Some io2"
    "ide_ports io2 = ide_ports (issue 0xE0 offset io1)"
    using assms(1) by (rule read_command)
  have "ucast (dst + of_nat k) = (ucast dst :: u64) + of_nat k" if "k < 512" for k
    using a(2) that by (intro ucast_plus) simp_all
  then have "insl (\<lambda>k. ucast (dst + of_nat k)) (serve d (ide_ports io2)) (SECTSIZE div 4) m
    = Inr (written (ucast dst) 512 (\<lambda>j. Some (img (512 * unat offset + j))) m)"
    using a assms(2) by (intro insl_sector [OF _ _ _ _ _ io(3)]) simp_all
  then show "\<exists>io'. readsect d dst offset (io, m)
      = Some (Inr (io', written (ucast dst) 512 (\<lambda>j. Some (img (512 * unat offset + j))) m))"
    by (simp add: readsect_def io(1,2))
qed

lemma read_loop_reads:
  fixes pa epa :: "'a::len word"
  assumes reader: "reads_sectors rd img" and width: "LENGTH('a) \<le> 64"
  shows "mapped m (ucast pa) (512 * n) \<Longrightarrow> unat pa + 512 * n < 2 ^ LENGTH('a) \<Longrightarrow>
    unat offset + n \<le> 2 ^ 28 \<Longrightarrow> unat epa \<le> unat pa + 512 * n \<Longrightarrow>
    (0 < n \<Longrightarrow> unat pa + 512 * (n - 1) < unat epa) \<Longrightarrow>
    \<exists>io'. read_loop rd pa epa offset (io, m) = Some (Inr (io',
      written (ucast pa) (512 * n) (\<lambda>j. Some (img (512 * unat offset + j))) m))"
proof (induction n arbitrary: pa offset io m)
  case 0
  then have "\<not> pa < epa" by (simp add: word_less_nat_alt)
  then show ?case by (subst read_loop.simps) simp
next
  case (Suc n)
  let ?f = "\<lambda>j. Some (img (512 * unat offset + j))"
  let ?m = "written (ucast pa) 512 ?f m"
  have more: "pa < epa" using Suc.prems(5) by (simp add: word_less_nat_alt)
  have "unat pa + 512 < 2 ^ LENGTH('a)" using Suc.prems(2) by simp
  note step = ucast_plus [OF this width, unfolded of_nat_numeral]
  have off: "unat (offset + 1) = unat offset + 1"
    using Suc.prems(3) by (simp add: unat_word_ariths)
  have "mapped m (ucast pa) 512" using Suc.prems(1) by (rule mapped_mono) simp
  then obtain io1 where rd: "rd pa offset (io, m) = Some (Inr (io1, ?m))"
    using Suc.prems(2,3) by (elim reads_sectorsD [OF reader, of m pa offset io]) simp_all
  have "mapped m (ucast pa + of_nat 512) (512 * n)"
    using Suc.prems(1) by (intro mapped_drop) simp
  then have "mapped ?m (ucast (pa + 512)) (512 * n)" unfolding step by (intro mapped_written) simp_all
  moreover have "unat (pa + 512) + 512 * n < 2 ^ LENGTH('a)" "unat (offset + 1) + n \<le> 2 ^ 28"
    "unat epa \<le> unat (pa + 512) + 512 * n"
    "0 < n \<Longrightarrow> unat (pa + 512) + 512 * (n - 1) < unat epa"
    using Suc.prems(2-5) unfolding step off by (cases n; simp)+
  ultimately obtain io2 where IH: "read_loop rd (pa + 512) epa (offset + 1) (io1, ?m) = Some (Inr (io2,
      written (ucast (pa + 512)) (512 * n) (\<lambda>j. Some (img (512 * unat (offset + 1) + j))) ?m))"
    using Suc.IH by blast
  have "n < 2 ^ 28" using Suc.prems(3) by simp
  then have "written (ucast (pa + 512)) (512 * n) (\<lambda>j. Some (img (512 * unat (offset + 1) + j))) ?m
      = written (ucast pa) (512 * Suc n) ?f m"
    unfolding step off using written_append [of 512 "512 * n" "ucast pa"]
    by (auto intro!: written_cong simp: algebra_simps)
  then show ?case using more rd IH by (subst read_loop.simps) simp
qed

text \<open>Reading \<open>count\<close> bytes at \<open>offset\<close> reads whole sectors, from one further on than the offset says.\<close>

definition seg_sectors :: "nat \<Rightarrow> u32 \<Rightarrow> nat" where
  "seg_sectors count offset = (count + unat offset mod 512 + 511) div 512"

lemma seg_sectors_bounds:
  "count + unat offset mod 512 \<le> 512 * seg_sectors count offset"
  "0 < seg_sectors count offset \<Longrightarrow> 512 * (seg_sectors count offset - 1) < count + unat offset mod 512"
  by (simp_all add: seg_sectors_def)

lemma seg_reads:
  fixes pa :: "'a::len word" and offset :: u32 and count :: nat
  assumes reader: "reads_sectors rd img" "LENGTH('a) \<le> 64" and count: "count < 2 ^ 32"
  defines "k \<equiv> unat offset mod 512" and "n \<equiv> seg_sectors count offset"
  assumes buffer: "mapped m (ucast (pa - of_nat k)) (512 * n)"
    and fits: "k \<le> unat pa" "unat pa - k + 512 * n < 2 ^ LENGTH('a)"
  shows "\<exists>io'. read_loop rd (pa - of_nat k) (pa + of_nat count) (offset div 512 + 1) (io, m)
    = Some (Inr (io', written (ucast (pa - of_nat k)) (512 * n)
        (\<lambda>j. Some (img (512 * (unat offset div 512 + 1) + j))) m))"
proof -
  note bounds = seg_sectors_bounds [of count offset, folded k_def n_def]
  have "k < 2 ^ LENGTH('a)" using fits(1) unsigned_less [of pa, where 'a = nat] by linarith
  then have low: "unat (pa - of_nat k) = unat pa - k"
    using fits(1) by (simp add: unat_diff word_le_nat_alt unat_of_nat)
  have high: "unat (pa + of_nat count) = unat pa + count"
    using ucast_plus(2) [OF _ reader(2), of pa count] fits bounds(1) by simp
  have "unat offset < 2 ^ 32" using unsigned_less [of offset, where 'a = nat] by simp
  moreover have sector: "unat (offset div 512 + 1) = unat offset div 512 + 1"
    using calculation by (simp add: unat_word_ariths unat_div)
  moreover have "n \<le> 2 ^ 24" using count by (simp add: n_def seg_sectors_def)
  ultimately have "unat (offset div 512 + 1) + n \<le> 2 ^ 28" by simp
  then show ?thesis
    unfolding sector [symmetric]
  proof (rule read_loop_reads [OF reader buffer, rotated])
    show "unat (pa - of_nat k) + 512 * n < 2 ^ LENGTH('a)" using fits(2) by (simp only: low)
    show "unat (pa + of_nat count) \<le> unat (pa - of_nat k) + 512 * n"
      unfolding low high using bounds(1) fits(1) by linarith
    assume "0 < n"
    then show "unat (pa - of_nat k) + 512 * (n - 1) < unat (pa + of_nat count)"
      unfolding low high using bounds(2) fits(1) by linarith
  qed
qed

lemma read_seg_reads:
  assumes "drive_ready d" "serves d 0xF0 img"
    and "mapped m (pa - of_nat (unat offset mod 512)) (512 * seg_sectors (unat count) offset)"
    and "unat offset mod 512 \<le> unat pa"
      "unat pa - unat offset mod 512 + 512 * seg_sectors (unat count) offset < 2 ^ 64"
  shows "\<exists>io'. read_seg d pa count offset (io, m) = Some (Inr (io',
    written (pa - of_nat (unat offset mod 512)) (512 * seg_sectors (unat count) offset)
      (\<lambda>j. Some (img (512 * (unat offset div 512 + 1) + j))) m))"
proof -
  have "ucast (offset mod 512) = (of_nat (unat offset mod 512) :: u64)"
    by (simp add: word_unat_eq_iff unat_mod unsigned_ucast_eq unat_of_nat take_bit_eq_mod)
  moreover have "ucast count = (of_nat (unat count) :: u64)" by simp
  moreover have "unat count < 2 ^ 32" using unsigned_less [of count, where 'a = nat] by simp
  ultimately show ?thesis
    using seg_reads [OF read_sect_reads [OF assms(1,2)], of "unat count" m pa offset io] assms(3-)
    by (simp add: read_seg_def Let_def del: of_nat_unat)
qed

lemma readseg_reads:
  assumes "drive_ready d" "serves d 0xE0 img"
    and "mapped m (ucast (pa - of_nat (unat offset mod 512))) (512 * seg_sectors (unat count) offset)"
    and "unat offset mod 512 \<le> unat pa"
      "unat pa - unat offset mod 512 + 512 * seg_sectors (unat count) offset < 2 ^ 32"
  shows "\<exists>io'. readseg d pa count offset (io, m) = Some (Inr (io',
    written (ucast (pa - of_nat (unat offset mod 512))) (512 * seg_sectors (unat count) offset)
      (\<lambda>j. Some (img (512 * (unat offset div 512 + 1) + j))) m))"
proof -
  have "offset mod 512 = of_nat (unat offset mod 512)"
    by (simp add: word_unat_eq_iff unat_mod unat_of_nat)
  moreover have "unat count < 2 ^ 32" using unsigned_less [of count, where 'a = nat] by simp
  ultimately show ?thesis
    using seg_reads [OF readsect_reads [OF assms(1,2)], of "unat count" m pa offset io] assms(3-)
    by (simp add: readseg_def Let_def)
qed

end
