(* ===== verification/LoadPlugin.thy ===== *)
theory LoadPlugin
  imports Boot Disk "HOL-Library.Signed_Division"
begin

text \<open>
  Loading the plug-ins: \<open>src/kernel/loadplugin.c\<close> with the ELF structures of \<open>include/kernel/elf.h\<close>.
  Plug-ins lie one after the other on the second disk; the loader looks at sector after sector for
  the ELF magic number, and a plug-in ends where the next header begins.

  An operation that scans the disk may never end: its value is then \<open>None\<close>.
\<close>

subsection \<open>ELF structures\<close>

primrec load_le :: "nat \<Rightarrow> bytes \<Rightarrow> u64 \<Rightarrow> kerror + u64" where
  "load_le 0 m a = Inr 0"
| "load_le (Suc n) m a =
     bind_ok (load8 m a) (\<lambda>b. bind_ok (load_le n m (a + 1)) (\<lambda>w. Inr (ucast b OR push_bit 8 w)))"

definition load16 :: "bytes \<Rightarrow> u64 \<Rightarrow> kerror + u16" where
  "load16 m a = bind_ok (load_le 2 m a) (\<lambda>w. Inr (ucast w))"

definition load32 :: "bytes \<Rightarrow> u64 \<Rightarrow> kerror + u32" where
  "load32 m a = bind_ok (load_le 4 m a) (\<lambda>w. Inr (ucast w))"

definition load64 :: "bytes \<Rightarrow> u64 \<Rightarrow> kerror + u64" where "load64 m a = load_le 8 m a"

definition store64 :: "u64 \<Rightarrow> u64 \<Rightarrow> bytes \<Rightarrow> kerror + bytes" where
  "store64 a w m = fold_ok (\<lambda>k. store8 (a + of_nat k) (ucast (drop_bit (8 * k) w))) [0..<8] m"

definition ELF_MAGIC :: u32 where "ELF_MAGIC = 0x464C457F"
definition ELF_PROG_LOAD :: u32 where "ELF_PROG_LOAD = 1"
definition sizeof_ProgHdr :: u32 where "sizeof_ProgHdr = 56"

record ElfHdr =
  magic :: u32
  elf_id :: u64      \<comment> \<open>the first eight of the twelve bytes\<close>
  elf_id2 :: u32
  elf_type :: u16
  elf_machine :: u16
  elf_version :: u32
  elf_entry :: u64
  phoff :: u64
  shoff :: u64
  elf_flags :: u32
  ehsize :: u16
  phentsize :: u16
  phnum :: u16
  shentsize :: u16
  shnum :: u16
  shstrndx :: u16

record ProgHdr =
  p_type :: u32
  p_flags :: u32
  p_off :: u64
  vaddr :: u64
  paddr :: u64
  filesz :: u64
  memsz :: u64
  p_align :: u64

definition get_elf :: "bytes \<Rightarrow> u64 \<Rightarrow> kerror + ElfHdr" where
  "get_elf m a =
     bind_ok (load32 m a) (\<lambda>mg. bind_ok (load64 m (a + 4)) (\<lambda>i1. bind_ok (load32 m (a + 12)) (\<lambda>i2.
     bind_ok (load16 m (a + 16)) (\<lambda>ty. bind_ok (load16 m (a + 18)) (\<lambda>mc. bind_ok (load32 m (a + 20)) (\<lambda>vs.
     bind_ok (load64 m (a + 24)) (\<lambda>en. bind_ok (load64 m (a + 32)) (\<lambda>po. bind_ok (load64 m (a + 40)) (\<lambda>so.
     bind_ok (load32 m (a + 48)) (\<lambda>fl. bind_ok (load16 m (a + 52)) (\<lambda>es. bind_ok (load16 m (a + 54)) (\<lambda>ps.
     bind_ok (load16 m (a + 56)) (\<lambda>pn. bind_ok (load16 m (a + 58)) (\<lambda>ss. bind_ok (load16 m (a + 60)) (\<lambda>sn.
     bind_ok (load16 m (a + 62)) (\<lambda>sx.
     Inr \<lparr>magic = mg, elf_id = i1, elf_id2 = i2, elf_type = ty, elf_machine = mc, elf_version = vs,
          elf_entry = en, phoff = po, shoff = so, elf_flags = fl, ehsize = es, phentsize = ps,
          phnum = pn, shentsize = ss, shnum = sn, shstrndx = sx\<rparr>))))))))))))))))"

definition get_prog :: "bytes \<Rightarrow> u64 \<Rightarrow> kerror + ProgHdr" where
  "get_prog m a =
     bind_ok (load32 m a) (\<lambda>ty. bind_ok (load32 m (a + 4)) (\<lambda>fl. bind_ok (load64 m (a + 8)) (\<lambda>off.
     bind_ok (load64 m (a + 16)) (\<lambda>va. bind_ok (load64 m (a + 24)) (\<lambda>pa. bind_ok (load64 m (a + 32)) (\<lambda>fs.
     bind_ok (load64 m (a + 40)) (\<lambda>ms. bind_ok (load64 m (a + 48)) (\<lambda>al.
     Inr \<lparr>p_type = ty, p_flags = fl, p_off = off, vaddr = va, paddr = pa, filesz = fs, memsz = ms,
          p_align = al\<rparr>))))))))"

subsection \<open>Finding a plug-in\<close>

record loader =
  mach :: machine
  disk_io :: ide
  pluginSector :: u32

definition load_plugin_init :: "loader \<Rightarrow> loader" where
  "load_plugin_init L = L\<lparr>pluginSector := 0\<rparr>"

abbreviation lbytes :: "loader \<Rightarrow> bytes" where "lbytes L \<equiv> byte_heap (vm (mach L))"

definition set_bytes :: "bytes \<Rightarrow> machine \<Rightarrow> machine" where
  "set_bytes m M = M\<lparr>vm := (vm M)\<lparr>byte_heap := m\<rparr>\<rparr>"

text \<open>\<open>read_seg(p, 512, pluginSector * 512)\<close>.\<close>

definition read_block :: "drive \<Rightarrow> u64 \<Rightarrow> loader \<Rightarrow> loader run" where
  "read_block d p L =
     bind_run (read_seg d p 512 (pluginSector L * 512) (disk_io L, lbytes L)) (\<lambda>(io, m).
     Some (Inr (L\<lparr>disk_io := io, mach := set_bytes m (mach L)\<rparr>)))"

text \<open>The first loop, which leaves \<open>pluginSector\<close> at the sector that holds the header.\<close>

partial_function (option) find_elf :: "drive \<Rightarrow> u64 \<Rightarrow> loader \<Rightarrow> (ElfHdr \<times> loader) run" where
  "find_elf d pluginElf L =
     bind_run (read_block d pluginElf L) (\<lambda>L.
     bind_run (Some (get_elf (lbytes L) pluginElf)) (\<lambda>elf.
     if magic elf \<noteq> ELF_MAGIC then find_elf d pluginElf (L\<lparr>pluginSector := pluginSector L + 1\<rparr>)
     else Some (Inr (elf, L))))"

text \<open>The second loop reads the blocks up to and with the next header.\<close>

partial_function (option) read_rest :: "drive \<Rightarrow> u64 \<Rightarrow> nat \<Rightarrow> loader \<Rightarrow> loader run" where
  "read_rest d pluginElf blockSize L =
     (let p = pluginElf + of_nat (blockSize * 512) in
     bind_run (read_block d p L) (\<lambda>L.
     bind_run (Some (get_elf (lbytes L) p)) (\<lambda>elf.
     if magic elf \<noteq> ELF_MAGIC
     then read_rest d pluginElf (blockSize + 1) (L\<lparr>pluginSector := pluginSector L + 1\<rparr>)
     else Some (Inr L))))"

definition read_plugin :: "drive \<Rightarrow> u64 \<Rightarrow> loader \<Rightarrow> (ElfHdr \<times> loader) run" where
  "read_plugin d pluginElf L =
     bind_run (find_elf d pluginElf L) (\<lambda>(elf, L).
     bind_run (read_rest d pluginElf 1 (L\<lparr>pluginSector := pluginSector L + 1\<rparr>)) (\<lambda>L.
     Some (Inr (elf, L))))"

subsection \<open>Loading it\<close>

text \<open>\<open>alloc_uvm\<close> returns an \<open>int\<close>, which becomes the new size; its loop is given \<open>fuel\<close> turns.\<close>

definition grow :: "nat \<Rightarrow> u64 \<Rightarrow> u64 \<Rightarrow> u64 \<Rightarrow> machine \<Rightarrow> (u64 \<times> machine) run" where
  "grow fuel pml4 oldSize newSize M =
     (case alloc_uvm fuel pml4 oldSize newSize (vm M) of
        Inl e \<Rightarrow> Some (Inl e) | Inr None \<Rightarrow> None
      | Inr (Some (sz, v)) \<Rightarrow> Some (Inr (of_int sz, M\<lparr>vm := v\<rparr>)))"

definition on_mem :: "(vmstate \<Rightarrow> kerror + vmstate) \<Rightarrow> machine \<Rightarrow> machine run" where
  "on_mem f M = Some (bind_ok (f (vm M)) (\<lambda>v. Inr (M\<lparr>vm := v\<rparr>)))"

text \<open>The segments: \<open>left\<close> program headers to go, the next one at byte \<open>off\<close>, an \<open>int\<close>, of the image.
  The header is read through a pointer to 32-bit words.\<close>

primrec load_segments ::
    "nat \<Rightarrow> u64 \<Rightarrow> u64 \<Rightarrow> nat \<Rightarrow> u32 \<Rightarrow> u64 \<Rightarrow> machine \<Rightarrow> (u64 \<times> machine) run" where
  "load_segments fuel pluginElf pml4 0 off sz M = Some (Inr (sz, M))"
| "load_segments fuel pluginElf pml4 (Suc left) off sz M =
     bind_run (Some (get_prog (byte_heap (vm M)) (pluginElf + of_int (4 * (sint off sdiv 4))))) (\<lambda>progHdr.
     if p_type progHdr \<noteq> ELF_PROG_LOAD
     then load_segments fuel pluginElf pml4 left (off + sizeof_ProgHdr) sz M
     else
       bind_run (grow fuel pml4 sz (vaddr progHdr + memsz progHdr) M) (\<lambda>(sz, M).
       bind_run (on_mem (copy_uvm pml4 (vaddr progHdr) (pluginElf + p_off progHdr) (memsz progHdr)) M) (\<lambda>M.
       load_segments fuel pluginElf pml4 left (off + sizeof_ProgHdr) sz M)))"

definition SEG_UCODE :: u64 where "SEG_UCODE = 4"
definition SEG_UDATA :: u64 where "SEG_UDATA = 5"
definition DPL_USER :: u64 where "DPL_USER = 3"

text \<open>The first four words of \<open>uStack\<close>, a local array at the address \<open>ustk\<close> on the kernel's stack.\<close>

definition fill_ustack :: "u64 \<Rightarrow> u64 \<Rightarrow> bytes \<Rightarrow> kerror + bytes" where
  "fill_ustack ustk stackPoint m =
     bind_ok (store64 (ustk + 24) 0 m) (\<lambda>m.
     bind_ok (store64 ustk 0xFFFFFFFF m) (\<lambda>m.
     bind_ok (store64 (ustk + 8) 0 m) (\<lambda>m.
     store64 (ustk + 16) (stackPoint - 8) m)))"

text \<open>The user stack and the saved registers of the thread.\<close>

definition start_state :: "u64 \<Rightarrow> u64 \<Rightarrow> ElfHdr \<Rightarrow> u64 \<Rightarrow> u64 \<Rightarrow> machine \<Rightarrow> machine run" where
  "start_state ustk temp elf pml4 sz M =
     (let stackPoint = sz;
          set_tf = (\<lambda>f. on_kern (\<lambda>s. bind_ok (get_tcb s temp) (\<lambda>t. mod_tf (tcb_tf t) f s))) in
     bind_run (on_mem (\<lambda>v. bind_ok (fill_ustack ustk stackPoint (byte_heap v)) (\<lambda>m. Inr (v\<lparr>byte_heap := m\<rparr>))) M) (\<lambda>M.
     bind_run (Some (set_tf (\<lambda>f. f\<lparr>tf_rdi := 0, tf_rsi := stackPoint - 8\<rparr>) M)) (\<lambda>M.
     let stackPoint = stackPoint - 32 in
     bind_run (on_mem (copy_uvm pml4 stackPoint ustk 32) M) (\<lambda>M.
     bind_run (Some (on_kern (mod_tcb temp (\<lambda>t. t\<lparr>tcb_pml4 := pml4, tcb_size := sz\<rparr>)) M)) (\<lambda>M.
     bind_run (Some (set_tf (\<lambda>f. f\<lparr>tf_rip := elf_entry elf, tf_rsp := stackPoint,
         tf_cs := push_bit 3 SEG_UCODE OR DPL_USER, tf_ds := push_bit 3 SEG_UDATA OR DPL_USER,
         tf_eflags := 0\<rparr>) M)) (\<lambda>M.
     bind_run (Some (on_vm (page_walk_for_others pml4 0x2000 False) M)) (\<lambda>(page, M).
     Some (on_kern (mod_tcb temp (\<lambda>t. t\<lparr>tcbIPCBuffer := p2v page\<rparr>)) M))))))))"

text \<open>One turn of the loop of \<open>load_plugin\<close>. The addresses of \<open>forkret\<close> and \<open>trapret\<close> are parameters.\<close>

definition load_one ::
    "drive \<Rightarrow> nat \<Rightarrow> u64 \<Rightarrow> u64 \<Rightarrow> u64 \<Rightarrow> u64 \<Rightarrow> nat \<Rightarrow> loader \<Rightarrow> loader run" where
  "load_one d fuel forkret_at trapret_at ustk pluginElf i L =
     (if i < length (pluginTcb (mach L)) then
       let temp = pluginTcb (mach L) ! i in
       bind_run (Some (alloc_proc forkret_at trapret_at temp (mach L))) (\<lambda>M.
       bind_run (read_plugin d pluginElf (L\<lparr>mach := M\<rparr>)) (\<lambda>(elf, L).
       bind_run (Some (on_vm setup_user_memory_pages (mach L))) (\<lambda>(pml4, M).
       bind_run (load_segments fuel pluginElf pml4 (unat (phnum elf)) (ucast (phoff elf)) 4096 M) (\<lambda>(sz, M).
       bind_run (grow fuel pml4 (PGROUNDUP sz) (PGROUNDUP sz + 2 * PGSIZE) M) (\<lambda>(sz, M).
       bind_run (start_state ustk temp elf pml4 sz M) (\<lambda>M.
       Some (Inr (L\<lparr>mach := M\<rparr>))))))))
      else Some (Inl (OutOfBounds i)))"

definition pluginNum :: nat where "pluginNum = 2"

primrec load_plugins ::
    "drive \<Rightarrow> nat \<Rightarrow> u64 \<Rightarrow> u64 \<Rightarrow> u64 \<Rightarrow> u64 \<Rightarrow> nat list \<Rightarrow> loader \<Rightarrow> loader run" where
  "load_plugins d fuel forkret_at trapret_at ustk pluginElf [] L = Some (Inr L)"
| "load_plugins d fuel forkret_at trapret_at ustk pluginElf (i # is) L =
     bind_run (load_one d fuel forkret_at trapret_at ustk pluginElf i L)
       (load_plugins d fuel forkret_at trapret_at ustk pluginElf is)"

definition load_plugin :: "drive \<Rightarrow> nat \<Rightarrow> u64 \<Rightarrow> u64 \<Rightarrow> u64 \<Rightarrow> loader \<Rightarrow> loader run" where
  "load_plugin d fuel forkret_at trapret_at ustk L =
     (let L = load_plugin_init L in
     bind_run (Some (on_vm (vm_alloc_kernel (PGSIZE * 16) PGSIZE) (mach L))) (\<lambda>(pluginElf, M).
     load_plugins d fuel forkret_at trapret_at ustk pluginElf [0..<pluginNum] (L\<lparr>mach := M\<rparr>)))"

end
