(* ===== verification/BootLoader.thy ===== *)
theory BootLoader
  imports Disk
begin

text \<open>
  The boot loader \<open>src/kernel/bootmain.c\<close>: it runs in 32-bit mode, finds the multiboot header in the
  first 8192 bytes of the disk image, loads the kernel and enters it. Pointers are 32-bit words,
  zero-extended to address the memory.
\<close>

definition load_word :: "(nat \<Rightarrow> u64) \<Rightarrow> bytes \<Rightarrow> kerror + u32" where
  "load_word addr m =
     bind_ok (load8 m (addr 0)) (\<lambda>b0. bind_ok (load8 m (addr 1)) (\<lambda>b1.
     bind_ok (load8 m (addr 2)) (\<lambda>b2. bind_ok (load8 m (addr 3)) (\<lambda>b3.
     Inr (ucast b0 OR push_bit 8 (ucast b1) OR push_bit 16 (ucast b2) OR push_bit 24 (ucast b3))))))"

definition peek32 :: "u32 \<Rightarrow> bytes \<Rightarrow> kerror + u32" where
  "peek32 p m = load_word (\<lambda>k. ucast (p + of_nat k)) m"

text \<open>\<open>struct mbheader\<close> has eight words; the address of each field.\<close>

definition mb_flags :: "u32 \<Rightarrow> u32" where "mb_flags hdr = hdr + 4"
definition mb_header_addr :: "u32 \<Rightarrow> u32" where "mb_header_addr hdr = hdr + 12"
definition mb_load_addr :: "u32 \<Rightarrow> u32" where "mb_load_addr hdr = hdr + 16"
definition mb_load_end_addr :: "u32 \<Rightarrow> u32" where "mb_load_end_addr hdr = hdr + 20"
definition mb_bss_end_addr :: "u32 \<Rightarrow> u32" where "mb_bss_end_addr hdr = hdr + 24"
definition mb_entry_addr :: "u32 \<Rightarrow> u32" where "mb_entry_addr hdr = hdr + 28"

text \<open>The search: \<open>left\<close> words are left to look at, from index \<open>n\<close> on.\<close>

primrec find_header :: "nat \<Rightarrow> u32 \<Rightarrow> u32 \<Rightarrow> bytes \<Rightarrow> kerror + u32 option" where
  "find_header 0 x n m = Inr None"
| "find_header (Suc left) x n m =
     bind_ok (peek32 (x + 4 * n) m) (\<lambda>magic.
     if magic = 0x1BADB002 then
       bind_ok (peek32 (x + 4 * (n + 1)) m) (\<lambda>flags.
       bind_ok (peek32 (x + 4 * (n + 2)) m) (\<lambda>checksum.
       if magic + flags + checksum = 0 then Inr (Some n) else find_header left x (n + 1) m))
     else find_header left x (n + 1) m)"

text \<open>\<open>rep stosb\<close> with a 32-bit address.\<close>

primrec stosb32 :: "u32 \<Rightarrow> u32 \<Rightarrow> nat \<Rightarrow> bytes \<Rightarrow> kerror + bytes" where
  "stosb32 addr data 0 m = Inr m"
| "stosb32 addr data (Suc cnt) m =
     bind_ok (store8 (ucast addr) (ucast data) m) (stosb32 (addr + 1) data cnt)"

text \<open>The loader returns to the boot sector, which gives up, or enters the kernel.\<close>

datatype boot_end = Boot_returns | Boot_enters u32

definition load_kernel :: "drive \<Rightarrow> u32 \<Rightarrow> u32 \<Rightarrow> ide \<times> bytes \<Rightarrow> (boot_end \<times> ide \<times> bytes) run" where
  "load_kernel d hdr n s =
     (let peek = (\<lambda>p f. bind_run (Some (peek32 p (snd s))) f) in
     peek (mb_flags hdr) (\<lambda>flags.
     if flags AND 0x10000 = 0 then Some (Inr (Boot_returns, s)) else
     peek (mb_load_addr hdr) (\<lambda>load_addr. peek (mb_header_addr hdr) (\<lambda>header_addr.
     if load_addr > header_addr then Some (Inr (Boot_returns, s)) else
     peek (mb_load_end_addr hdr) (\<lambda>load_end_addr.
     if load_end_addr < load_addr then Some (Inr (Boot_returns, s)) else
     bind_run (readseg d load_addr (load_end_addr - load_addr) (n * 4 - (header_addr - load_addr)) s)
       (\<lambda>(io, m). Some (
     bind_ok (peek32 (mb_bss_end_addr hdr) m) (\<lambda>bss_end_addr.
     bind_ok (peek32 (mb_load_end_addr hdr) m) (\<lambda>load_end_addr.
     bind_ok (if bss_end_addr > load_end_addr
              then stosb32 load_end_addr 0 (unat (bss_end_addr - load_end_addr)) m else Inr m) (\<lambda>m.
     bind_ok (peek32 (mb_entry_addr hdr) m) (\<lambda>entry_addr.
     Inr (Boot_enters entry_addr, io, m))))))))))))"

definition bootmain :: "drive \<Rightarrow> ide \<times> bytes \<Rightarrow> (boot_end \<times> ide \<times> bytes) run" where
  "bootmain d s =
     (let x = 0x10000 in
     bind_run (readseg d x 8192 0 s) (\<lambda>s.
     bind_run (Some (find_header (8192 div 4) x 0 (snd s))) (\<lambda>found.
     case found of None \<Rightarrow> Some (Inr (Boot_returns, s))
     | Some n \<Rightarrow> load_kernel d (x + 4 * n) n s)))"

subsection \<open>Words of the disk image\<close>

text \<open>The \<open>i\<close>th word of the image from its second sector on.\<close>

definition disk_word :: "(nat \<Rightarrow> u8) \<Rightarrow> nat \<Rightarrow> u32" where
  "disk_word img i = ucast (img (512 + 4 * i)) OR push_bit 8 (ucast (img (512 + 4 * i + 1)))
     OR push_bit 16 (ucast (img (512 + 4 * i + 2))) OR push_bit 24 (ucast (img (512 + 4 * i + 3)))"

definition header_index :: "(nat \<Rightarrow> u8) \<Rightarrow> nat \<Rightarrow> bool" where
  "header_index img n \<longleftrightarrow> disk_word img n = 0x1BADB002
     \<and> disk_word img n + disk_word img (n + 1) + disk_word img (n + 2) = 0"

text \<open>A memory that holds the first 8192 bytes of the image in the scratch area.\<close>

definition has_image :: "(nat \<Rightarrow> u8) \<Rightarrow> bytes \<Rightarrow> bool" where
  "has_image img m \<longleftrightarrow> (\<forall>j<8192. m (0x10000 + of_nat j) = Some (img (512 + j)))"

lemma peek_image:
  assumes "has_image img m" "i < 2048"
  shows "peek32 (0x10000 + 4 * of_nat i) m = Inr (disk_word img i)"
proof -
  have "m (ucast (0x10000 + 4 * of_nat i + of_nat k :: u32)) = Some (img (512 + 4 * i + k))" if "k < 4" for k
  proof -
    have in8192: "4 * i + k < 8192" using assms(2) that by simp
    have "(0x10000 + 4 * of_nat i + of_nat k :: u32) = 0x10000 + of_nat (4 * i + k)" by simp
    moreover have "(ucast (0x10000 + of_nat (4 * i + k) :: u32) :: u64) = 0x10000 + of_nat (4 * i + k)"
      using ucast_plus(1) [of "0x10000 :: u32" "4 * i + k"] assms(2) that by simp
    moreover have "m (0x10000 + of_nat (4 * i + k)) = Some (img (512 + (4 * i + k)))"
      using assms(1) in8192 unfolding has_image_def by blast
    ultimately show ?thesis by (simp only: add.assoc)
  qed
  from this [of 0] this [of 1] this [of 2] this [of 3]
  show ?thesis by (simp add: peek32_def load_word_def disk_word_def)
qed

lemma find_header_first:
  assumes image: "has_image img m" and hit: "header_index img n" "n + 2 < 2048"
    and first: "\<And>j. j < n \<Longrightarrow> \<not> header_index img j"
  shows "i \<le> n \<Longrightarrow> n - i < left \<Longrightarrow> find_header left 0x10000 (of_nat i) m = Inr (Some (of_nat n))"
proof (induction left arbitrary: i)
  case (Suc left)
  have words: "peek32 (0x10000 + 4 * of_nat i) m = Inr (disk_word img i)"
    "peek32 (0x10000 + 4 * (of_nat i + 1)) m = Inr (disk_word img (i + 1))"
    "peek32 (0x10000 + 4 * (of_nat i + 2)) m = Inr (disk_word img (i + 2))"
    using peek_image [OF image, of i] peek_image [OF image, of "i + 1"] peek_image [OF image, of "i + 2"]
      Suc.prems hit(2) by (simp_all add: add.commute)
  show ?case
  proof (cases "i = n")
    case True
    have "disk_word img n = 0x1BADB002" "0x1BADB002 + disk_word img (n + 1) + disk_word img (n + 2) = 0"
      using hit(1) unfolding header_index_def by metis+
    then show ?thesis using words True by simp
  next
    case False
    then have "find_header left 0x10000 (of_nat (i + 1)) m = Inr (Some (of_nat n))"
      using Suc.prems by (intro Suc.IH) simp_all
    moreover have "\<not> header_index img i" using False Suc.prems first by simp
    ultimately show ?thesis using words by (simp add: header_index_def add.commute)
  qed
qed simp

lemma stosb32_stosb:
  "unat a + n < 2 ^ 32 \<Longrightarrow> stosb32 a d n m = stosb (ucast a) d n m"
proof (induction n arbitrary: a m)
  case (Suc n)
  have step: "(ucast (a + 1) :: u64) = ucast a + 1" "unat (a + 1) = unat a + 1"
    using ucast_plus [of a 1] Suc.prems by simp_all
  have "stosb32 (a + 1) d n m' = stosb (ucast a + 1) d n m'" for m'
    using Suc.IH [of "a + 1"] Suc.prems step by simp
  then show ?case by (auto simp: bind_ok_def split: sum.split)
qed simp

subsection \<open>Loading\<close>

text \<open>The fields of the header at word \<open>n\<close>, and what makes it a header the loader accepts. The part of
  the image to load starts \<open>header_addr - load_addr\<close> bytes before the header; the buffer for its
  sectors, and the zeroed part behind it, lie above the scratch area.\<close>

record mbheader =
  h_flags :: u32
  header_addr :: u32
  load_addr :: u32
  load_end_addr :: u32
  bss_end_addr :: u32
  entry_addr :: u32

definition mb_header :: "(nat \<Rightarrow> u8) \<Rightarrow> nat \<Rightarrow> mbheader" where
  "mb_header img n = \<lparr>h_flags = disk_word img (n + 1), header_addr = disk_word img (n + 3),
     load_addr = disk_word img (n + 4), load_end_addr = disk_word img (n + 5),
     bss_end_addr = disk_word img (n + 6), entry_addr = disk_word img (n + 7)\<rparr>"

definition load_offset :: "nat \<Rightarrow> mbheader \<Rightarrow> nat" where
  "load_offset n h = 4 * n - (unat (header_addr h) - unat (load_addr h))"

definition load_size :: "mbheader \<Rightarrow> nat" where
  "load_size h = unat (load_end_addr h) - unat (load_addr h)"

definition accepted :: "nat \<Rightarrow> mbheader \<Rightarrow> bool" where
  "accepted n h \<longleftrightarrow> h_flags h AND 0x10000 \<noteq> 0 \<and> load_addr h \<le> header_addr h
     \<and> load_addr h \<le> load_end_addr h \<and> unat (header_addr h) - unat (load_addr h) \<le> 4 * n"

definition load_room :: "nat \<Rightarrow> mbheader \<Rightarrow> bytes \<Rightarrow> bool" where
  "load_room n h m \<longleftrightarrow>
     (let k = load_offset n h mod 512; len = 512 * ((load_size h + k + 511) div 512)
      in 0x12000 \<le> unat (load_addr h) - k \<and> unat (load_addr h) - k + len < 2 ^ 32
        \<and> mapped m (ucast (load_addr h) - of_nat k) len
        \<and> (load_end_addr h < bss_end_addr h \<longrightarrow>
             mapped m (ucast (load_end_addr h)) (unat (bss_end_addr h) - unat (load_end_addr h))))"

lemma has_image_written:
  assumes "has_image img m" "0x12000 \<le> unat a" "unat a + len \<le> 2 ^ 64"
  shows "has_image img (written a len f m)"
  unfolding has_image_def
proof (intro allI impI)
  fix j :: nat assume j: "j < 8192"
  have "a + of_nat i \<noteq> 0x10000 + of_nat j" if "i < len" for i
  proof -
    have "unat (a + of_nat i) = unat a + i" using ucast_plus(2) [of a i] assms(3) that by simp
    moreover have "unat (0x10000 + of_nat j :: u64) = 0x10000 + j"
      using ucast_plus(2) [of "0x10000 :: u64" j] j by simp
    ultimately show ?thesis using assms(2) j by (intro notI) simp
  qed
  then show "written a len f m (0x10000 + of_nat j) = Some (img (512 + j))"
    using assms(1) j by (simp add: written_other has_image_def)
qed

lemma written_at:
  assumes "i < n" "n \<le> 2 ^ 64"
  shows "written a n f m (a + of_nat i) = f i"
  using assms by (simp add: written_def unat_of_nat)

lemma written_above:
  assumes "unat p < unat a" "unat a + n \<le> 2 ^ 64"
  shows "written a n f m p = m p"
proof (rule written_other)
  fix i assume "i < n"
  then have "unat (a + of_nat i) = unat a + i" using ucast_plus(2) [of a i] assms(2) by simp
  then show "a + of_nat i \<noteq> p" using assms(1) by (intro notI) simp
qed

lemma load_segment:
  assumes drive: "drive_ready d" "serves d 0xE0 img" and n: "n < 2048"
    and h: "accepted n h" "load_room n h m"
  defines "k \<equiv> load_offset n h mod 512" and "len \<equiv> 512 * ((load_size h + load_offset n h mod 512 + 511) div 512)"
  shows "\<exists>io'. readseg d (load_addr h) (load_end_addr h - load_addr h)
      (of_nat n * 4 - (header_addr h - load_addr h)) (io, m)
    = Some (Inr (io', written (ucast (load_addr h) - of_nat k) len
        (\<lambda>j. Some (img (512 + load_offset n h - k + j))) m))"
proof -
  let ?off = "of_nat n * 4 - (header_addr h - load_addr h)"
  have "0x12000 \<le> unat (load_addr h) - k" using h(2) by (simp add: k_def load_room_def Let_def)
  then have k: "k < 512" "k \<le> unat (load_addr h)" by (simp_all add: k_def)
  have le: "load_addr h \<le> header_addr h" "load_addr h \<le> load_end_addr h"
    "unat (header_addr h) - unat (load_addr h) \<le> 4 * n" using h(1) by (simp_all add: accepted_def)
  have "unat (of_nat n * 4 :: u32) = 4 * n" using n by (simp add: unat_word_ariths unat_of_nat)
  then have off: "unat ?off = load_offset n h"
    using le by (simp add: load_offset_def unat_diff word_le_nat_alt)
  have size: "unat (load_end_addr h - load_addr h) = load_size h"
    using le by (simp add: load_size_def unat_diff word_le_nat_alt)
  have sectors: "512 * seg_sectors (unat (load_end_addr h - load_addr h)) ?off = len"
    unfolding seg_sectors_def size off len_def ..
  have base: "(ucast (load_addr h - of_nat k) :: u64) = ucast (load_addr h) - of_nat k"
  proof -
    have "unat (load_addr h - of_nat k) = unat (load_addr h) - k"
      using k by (simp add: unat_diff word_le_nat_alt unat_of_nat)
    then have "unat (load_addr h - of_nat k) + k < 2 ^ LENGTH(32)"
      using k(2) unsigned_less [of "load_addr h", where 'a = nat] by simp
    from ucast_plus(1) [OF this] show ?thesis by (simp add: algebra_simps)
  qed
  have "mapped m (ucast (load_addr h - of_nat k)) len" "unat (load_addr h) - k + len < 2 ^ 32"
    unfolding base using h(2) by (simp_all add: load_room_def Let_def k_def len_def)
  moreover have "512 * (load_offset n h div 512 + 1) + j = 512 + load_offset n h - k + j" for j
    unfolding k_def by (metis add.commute add_diff_eq minus_mod_eq_mult_div distrib_left mult.right_neutral
        diff_add_assoc mod_less_eq_dividend)
  ultimately show ?thesis
    using readseg_reads [OF drive, of m "load_addr h" ?off "load_end_addr h - load_addr h" io] k
    unfolding sectors off k_def [symmetric] base by simp
qed

lemma header_fields:
  assumes "has_image img m" "n + 7 < 2048"
  defines "hdr \<equiv> 0x10000 + 4 * of_nat n" and "h \<equiv> mb_header img n"
  shows "peek32 (mb_flags hdr) m = Inr (h_flags h)" "peek32 (mb_header_addr hdr) m = Inr (header_addr h)"
    "peek32 (mb_load_addr hdr) m = Inr (load_addr h)"
    "peek32 (mb_load_end_addr hdr) m = Inr (load_end_addr h)"
    "peek32 (mb_bss_end_addr hdr) m = Inr (bss_end_addr h)"
    "peek32 (mb_entry_addr hdr) m = Inr (entry_addr h)"
  using peek_image [OF assms(1), of "n + 1"] peek_image [OF assms(1), of "n + 3"]
    peek_image [OF assms(1), of "n + 4"] peek_image [OF assms(1), of "n + 5"]
    peek_image [OF assms(1), of "n + 6"] peek_image [OF assms(1), of "n + 7"] assms(2)
  by (simp_all add: hdr_def h_def mb_header_def mb_flags_def mb_header_addr_def mb_load_addr_def
      mb_load_end_addr_def mb_bss_end_addr_def mb_entry_addr_def ring_distribs add.commute)

text \<open>Memory with the part of the image loaded and the bytes behind it cleared.\<close>

definition kernel_loaded :: "(nat \<Rightarrow> u8) \<Rightarrow> nat \<Rightarrow> mbheader \<Rightarrow> bytes \<Rightarrow> bool" where
  "kernel_loaded img n h m \<longleftrightarrow>
     (\<forall>i<load_size h. m (ucast (load_addr h) + of_nat i) = Some (img (512 + load_offset n h + i)))
     \<and> (\<forall>i<unat (bss_end_addr h) - unat (load_end_addr h). m (ucast (load_end_addr h) + of_nat i) = Some 0)"

lemma clear_bss:
  assumes "load_end_addr h < bss_end_addr h \<longrightarrow>
      mapped m (ucast (load_end_addr h)) (unat (bss_end_addr h) - unat (load_end_addr h))"
  defines "cnt \<equiv> unat (bss_end_addr h) - unat (load_end_addr h)"
  shows "(if bss_end_addr h > load_end_addr h
      then stosb32 (load_end_addr h) 0 (unat (bss_end_addr h - load_end_addr h)) m else Inr m)
    = Inr (written (ucast (load_end_addr h)) cnt (\<lambda>_. Some 0) m)"
proof (cases "load_end_addr h < bss_end_addr h")
  case True
  have "unat (load_end_addr h) + cnt < 2 ^ 32"
    using True unsigned_less [of "bss_end_addr h", where 'a = nat] by (simp add: cnt_def word_less_nat_alt)
  moreover have "unat (bss_end_addr h - load_end_addr h) = cnt"
    using True by (simp add: cnt_def unat_diff [OF less_imp_le])
  moreover have "mapped m (ucast (load_end_addr h)) cnt" using assms(1) True by (simp add: cnt_def)
  ultimately show ?thesis using True stosb32_stosb [of "load_end_addr h" cnt] stosb_written by simp
qed (simp add: cnt_def word_less_nat_alt)

lemma load_kernel_steps:
  fixes img n
  assumes "has_image img m" "has_image img m1" "has_image img m2" "n + 7 < 2048"
  defines "h \<equiv> mb_header img n"
  assumes ok: "accepted n h" and seg: "readseg d (load_addr h) (load_end_addr h - load_addr h)
      (of_nat n * 4 - (header_addr h - load_addr h)) (io, m) = Some (Inr (io', m1))"
    and bss: "(if bss_end_addr h > load_end_addr h
      then stosb32 (load_end_addr h) 0 (unat (bss_end_addr h - load_end_addr h)) m1 else Inr m1) = Inr m2"
  shows "load_kernel d (0x10000 + 4 * of_nat n) (of_nat n) (io, m)
    = Some (Inr (Boot_enters (entry_addr h), io', m2))"
  using ok header_fields [OF assms(1,4), folded h_def] header_fields [OF assms(2,4), folded h_def]
    header_fields [OF assms(3,4), folded h_def]
  unfolding load_kernel_def Let_def accepted_def by (simp add: seg bss leD)

lemma unat_ucast_32: "unat (ucast (x :: u32) :: u64) = unat x"
  using unsigned_less [of x, where 'a = nat]
  by (simp add: unsigned_ucast_eq take_bit_nat_eq_self)

lemma load_kernel_loads:
  assumes drive: "drive_ready d" "serves d 0xE0 img" and image: "has_image img m" "n + 7 < 2048"
  defines "h \<equiv> mb_header img n"
  assumes h: "accepted n h" "load_room n h m"
  shows "\<exists>io' m'. load_kernel d (0x10000 + 4 * of_nat n) (of_nat n) (io, m)
    = Some (Inr (Boot_enters (entry_addr h), io', m')) \<and> kernel_loaded img n h m'
      \<and> (\<forall>p. unat p < 0x10000 \<longrightarrow> m' p = m p)"
proof -
  let ?hdr = "0x10000 + 4 * of_nat n :: u32"
  let ?k = "load_offset n h mod 512" and ?a = "ucast (load_addr h) :: u64" and ?e = "ucast (load_end_addr h) :: u64"
  let ?len = "512 * ((load_size h + ?k + 511) div 512)" and ?cnt = "unat (bss_end_addr h) - unat (load_end_addr h)"
  let ?m = "written (?a - of_nat ?k) ?len (\<lambda>j. Some (img (512 + load_offset n h - ?k + j))) m"
  let ?z = "written ?e ?cnt (\<lambda>_. Some 0) ?m"
  have room: "0x12000 \<le> unat (load_addr h) - ?k" "unat (load_addr h) - ?k + ?len < 2 ^ 32"
    "load_end_addr h < bss_end_addr h \<longrightarrow> mapped m ?e ?cnt"
    using h(2) unfolding load_room_def Let_def by blast+
  have le: "load_addr h \<le> header_addr h" "load_addr h \<le> load_end_addr h" using h(1) by (simp_all add: accepted_def)
  obtain io' where seg: "readseg d (load_addr h) (load_end_addr h - load_addr h)
      (of_nat n * 4 - (header_addr h - load_addr h)) (io, m) = Some (Inr (io', ?m))"
    using load_segment [OF drive _ h, of io] image(2) by auto
  have ua: "unat ?a = unat (load_addr h)" "unat ?e = unat (load_end_addr h)"
    by (simp_all add: unat_ucast_32)
  have k: "unat (?a - of_nat ?k) = unat (load_addr h) - ?k"
    using room(1) by (simp add: unat_diff word_le_nat_alt unat_of_nat ua)
  have image1: "has_image img ?m" using image(1) room(1,2) by (intro has_image_written) (simp_all add: k)
  have "unat ?e + ?cnt \<le> 2 ^ 64"
    using unsigned_less [of "bss_end_addr h", where 'a = nat] unsigned_less [of "load_end_addr h", where 'a = nat]
    by (simp add: ua)
  then have image2: "has_image img ?z"
    using room(1) le(2) by (intro has_image_written [OF image1]) (simp_all add: ua word_le_nat_alt)
  have "load_end_addr h < bss_end_addr h \<longrightarrow> mapped ?m ?e ?cnt" using room(3) by (auto intro: mapped_written)
  note bss = clear_bss [OF this]
  have "load_kernel d ?hdr (of_nat n) (io, m) = Some (Inr (Boot_enters (entry_addr h), io', ?z))"
    using image(1) image1 image2 image(2) h(1) [unfolded h_def] seg [unfolded h_def] bss [unfolded h_def]
    unfolding h_def by (rule load_kernel_steps)
  moreover have "kernel_loaded img n h ?z"
    unfolding kernel_loaded_def
  proof (intro conjI allI impI)
    fix i assume i: "i < load_size h"
    have stop: "unat ?a + load_size h = unat ?e" using le(2) by (simp add: ua load_size_def word_le_nat_alt)
    have "?e + of_nat j \<noteq> ?a + of_nat i" if "j < ?cnt" for j
    proof -
      have "unat (?a + of_nat i) = unat ?a + i" using ucast_plus(2) [of ?a i] \<open>unat ?e + ?cnt \<le> 2 ^ 64\<close> i stop by simp
      moreover have "unat (?e + of_nat j) = unat ?e + j"
        using ucast_plus(2) [of ?e j] \<open>unat ?e + ?cnt \<le> 2 ^ 64\<close> that by simp
      ultimately show ?thesis using i stop by (intro notI) simp
    qed
    then have "?z (?a + of_nat i) = ?m (?a + of_nat i)" by (rule written_other)
    moreover have "?a + of_nat i = (?a - of_nat ?k) + of_nat (?k + i)" by simp
    moreover have "?m ((?a - of_nat ?k) + of_nat (?k + i)) = Some (img (512 + load_offset n h - ?k + (?k + i)))"
    proof (rule written_at)
      show "?k + i < ?len" using i by simp
      show "?len \<le> 2 ^ 64" using room(2) by simp
    qed
    moreover have "512 + load_offset n h - ?k + (?k + i) = 512 + load_offset n h + i" by simp
    ultimately show "?z (?a + of_nat i) = Some (img (512 + load_offset n h + i))" by (simp only:)
  next
    fix i assume "i < ?cnt"
    then show "?z (?e + of_nat i) = Some 0" using \<open>unat ?e + ?cnt \<le> 2 ^ 64\<close> by (intro written_at) simp_all
  qed
  moreover have "?z p = m p" if p: "unat p < 0x10000" for p
  proof -
    have "?z p = ?m p" using p room(1) le(2) \<open>unat ?e + ?cnt \<le> 2 ^ 64\<close>
      by (intro written_above) (simp_all add: ua word_le_nat_alt)
    also have "\<dots> = m p" using p room(1,2) by (intro written_above) (simp_all add: k)
    finally show ?thesis .
  qed
  ultimately show ?thesis by blast
qed

text \<open>The whole loader, on a disk image whose first header is at word \<open>n\<close>.\<close>

definition bootable :: "(nat \<Rightarrow> u8) \<Rightarrow> nat \<Rightarrow> bytes \<Rightarrow> bool" where
  "bootable img n m \<longleftrightarrow> n + 7 < 2048 \<and> header_index img n \<and> (\<forall>j<n. \<not> header_index img j)
     \<and> accepted n (mb_header img n) \<and> load_room n (mb_header img n) m \<and> mapped m 0x10000 8192"

lemma first_sectors:
  assumes "drive_ready d" "serves d 0xE0 img" "mapped m 0x10000 8192"
  shows "\<exists>io'. readseg d 0x10000 8192 0 (io, m)
    = Some (Inr (io', written 0x10000 8192 (\<lambda>j. Some (img (512 + j))) m))"
  using readseg_reads [OF assms(1,2), of m "0x10000" 0 8192 io] assms(3) by (simp add: seg_sectors_def)

lemma bootmain_spec:
  assumes drive: "drive_ready d" "serves d 0xE0 img" and boot: "bootable img n m"
  shows "\<exists>io' m'. bootmain d (io, m)
    = Some (Inr (Boot_enters (entry_addr (mb_header img n)), io', m')) \<and> kernel_loaded img n (mb_header img n) m'
      \<and> (\<forall>p. unat p < 0x10000 \<longrightarrow> m' p = m p)"
proof -
  let ?m = "written 0x10000 8192 (\<lambda>j. Some (img (512 + j))) m" and ?h = "mb_header img n"
  have n: "n + 7 < 2048" "header_index img n" "\<And>j. j < n \<Longrightarrow> \<not> header_index img j" "accepted n ?h"
    "load_room n ?h m" "mapped m 0x10000 8192"
    using boot by (auto simp: bootable_def)
  obtain io1 where first: "readseg d 0x10000 8192 0 (io, m) = Some (Inr (io1, ?m))"
    using first_sectors [OF drive n(6)] by blast
  have image: "has_image img ?m" unfolding has_image_def by (auto intro!: written_at)
  have "n + 2 < 2048" using n(1) by simp
  from find_header_first [OF image n(2) this n(3), of 0 2048]
  have found: "find_header 2048 0x10000 0 ?m = Inr (Some (of_nat n))" using n(1) by simp
  have "load_room n ?h ?m"
    using n(5) unfolding load_room_def Let_def by (auto intro: mapped_written)
  then obtain io' m' where load: "load_kernel d (0x10000 + 4 * of_nat n) (of_nat n) (io1, ?m)
      = Some (Inr (Boot_enters (entry_addr ?h), io', m'))" "kernel_loaded img n ?h m'"
      "\<forall>p. unat p < 0x10000 \<longrightarrow> m' p = ?m p"
    using load_kernel_loads [OF drive image n(1,4)] by blast
  have "bootmain d (io, m) = Some (Inr (Boot_enters (entry_addr ?h), io', m'))"
    unfolding bootmain_def Let_def first using found load(1) by simp
  moreover have "?m p = m p" if "unat p < 0x10000" for p using that by (intro written_above) simp_all
  ultimately show ?thesis using load(2,3) by auto
qed

end
