(* ===== verification/LoadProps.thy ===== *)
theory LoadProps
  imports LoadPlugin BootLoader BootProps
begin

text \<open>
  Properties of the disk readers, of the boot loader and of the plug-in loader.
\<close>

subsection \<open>Reading structures\<close>

lemma load_le_ok: "mapped m a n \<Longrightarrow> \<exists>w. load_le n m a = Inr w"
proof (induction n arbitrary: a)
  case (Suc n)
  then obtain b where "m a = Some b" by (auto simp: mapped_Suc)
  moreover obtain w where "load_le n m (a + 1) = Inr w" using Suc by (auto simp: mapped_Suc)
  ultimately show ?case by simp
qed simp

lemma load_ok:
  assumes "mapped m a (k + n)"
  shows "n = 2 \<Longrightarrow> \<exists>w. load16 m (a + of_nat k) = Inr w" "n = 4 \<Longrightarrow> \<exists>w. load32 m (a + of_nat k) = Inr w"
    "n = 8 \<Longrightarrow> \<exists>w. load64 m (a + of_nat k) = Inr w"
  using load_le_ok [OF mapped_drop [OF assms]]
  by (auto simp: load16_def load32_def load64_def bind_ok_Inr_iff)

lemma get_elf_ok:
  assumes "mapped m a 64"
  shows "\<exists>elf. get_elf m a = Inr elf \<and> load32 m a = Inr (magic elf)"
proof -
  have at: "mapped m a (k + n)" if "k + n \<le> 64" for k n using assms that by (rule mapped_mono)
  have h: "\<exists>w. load16 m (a + of_nat k) = Inr w" if "k \<le> 62" for k using load_ok(1) [OF at [of k 2]] that by simp
  have w: "\<exists>w. load32 m (a + of_nat k) = Inr w" if "k \<le> 60" for k using load_ok(2) [OF at [of k 4]] that by simp
  have d: "\<exists>w. load64 m (a + of_nat k) = Inr w" if "k \<le> 56" for k using load_ok(3) [OF at [of k 8]] that by simp
  show ?thesis
    using w [of 0] d [of 4] w [of 12] h [of 16] h [of 18] w [of 20] d [of 24] d [of 32] d [of 40] w [of 48]
      h [of 52] h [of 54] h [of 56] h [of 58] h [of 60] h [of 62]
    by (auto simp: get_elf_def)
qed

lemma load_le_cong:
  "(\<And>i. i < n \<Longrightarrow> m (a + of_nat i) = m' (a + of_nat i)) \<Longrightarrow> load_le n m a = load_le n m' a"
proof (induction n arbitrary: a)
  case (Suc n)
  have "m (a + 1 + of_nat i) = m' (a + 1 + of_nat i)" if "i < n" for i
    using Suc.prems [of "Suc i"] that by (simp add: add.assoc)
  then have "load_le n m (a + 1) = load_le n m' (a + 1)" by (rule Suc.IH)
  then show ?case using Suc.prems [of 0] by (simp add: load8_def read_at_def)
qed simp

lemma get_elf_cong:
  assumes "\<And>i. i < 64 \<Longrightarrow> m (a + of_nat i) = m' (a + of_nat i)"
  shows "get_elf m a = get_elf m' a"
proof -
  have at: "load_le n m (a + of_nat k) = load_le n m' (a + of_nat k)" if "k + n \<le> 64" for k n
    using assms [of "k + _"] that by (intro load_le_cong) (simp add: add.assoc)
  show ?thesis
    using at [of 0 4] at [of 4 8] at [of 12 4] at [of 16 2] at [of 18 2] at [of 20 4] at [of 24 8]
      at [of 32 8] at [of 40 8] at [of 48 4] at [of 52 2] at [of 54 2] at [of 56 2] at [of 58 2]
      at [of 60 2] at [of 62 2]
    by (simp add: get_elf_def load16_def load32_def load64_def)
qed

text \<open>The sector after the one with number \<open>s\<close> holds an ELF header.\<close>

definition elf_sector :: "(nat \<Rightarrow> u8) \<Rightarrow> nat \<Rightarrow> bool" where
  "elf_sector img s \<longleftrightarrow> disk_word img (128 * s) = ELF_MAGIC"

lemma load32_image:
  assumes "\<And>k. k < 4 \<Longrightarrow> m (a + of_nat k) = Some (img (512 + 4 * i + k))"
  shows "load32 m a = Inr (disk_word img i)"
proof -
  have "m a = Some (img (512 + 4 * i))" "m (a + 1) = Some (img (512 + 4 * i + 1))"
    "m (2 + a) = Some (img (512 + 4 * i + 2))" "m (3 + a) = Some (img (512 + 4 * i + 3))"
    using assms [of 0] assms [of 1] assms [of 2] assms [of 3] by (simp_all add: add.commute)
  moreover have "ucast (ucast b0 OR push_bit 8 (ucast b1 OR push_bit 8 (ucast b2 OR push_bit 8 (ucast b3 :: u64))) :: u64)
      = (ucast b0 OR push_bit 8 (ucast b1) OR push_bit 16 (ucast b2) OR push_bit 24 (ucast b3) :: u32)"
    for b0 b1 b2 b3 :: u8
    by (rule bit_word_eqI) (auto simp: bit_simps)
  moreover have "load_le 4 m a = load_le (Suc (Suc (Suc (Suc 0)))) m a" by (simp only: eval_nat_numeral BitM.simps)
  ultimately show ?thesis
    by (simp add: load32_def disk_word_def)
qed

lemma header_of_sector:
  assumes image: "\<And>i. i < 512 \<Longrightarrow> m (p + of_nat i) = Some (img (512 * (s + 1) + i))"
  shows "\<exists>elf. get_elf m p = Inr elf \<and> (magic elf = ELF_MAGIC \<longleftrightarrow> elf_sector img s)"
proof -
  have "mapped m p 64" using image by (auto simp: mapped_def)
  then obtain elf where elf: "get_elf m p = Inr elf" "load32 m p = Inr (magic elf)"
    using get_elf_ok by blast
  have "load32 m p = Inr (disk_word img (128 * s))"
    using image by (intro load32_image) (simp add: algebra_simps)
  with elf show ?thesis by (auto simp: elf_sector_def)
qed

subsection \<open>Blocks\<close>

abbreviation sector_bytes :: "(nat \<Rightarrow> u8) \<Rightarrow> nat \<Rightarrow> nat \<Rightarrow> u8 option" where
  "sector_bytes img s \<equiv> (\<lambda>j. Some (img (512 * (s + 1) + j)))"

lemma read_block_reads:
  assumes drive: "drive_ready d" "serves d 0xF0 img"
    and s: "pluginSector L = of_nat s" "s < 2 ^ 23" and p: "mapped (lbytes L) p 512" "unat p + 512 < 2 ^ 64"
  shows "\<exists>io. read_block d p L = Some (Inr (L\<lparr>disk_io := io, pluginSector := of_nat s,
    mach := set_bytes (written p 512 (sector_bytes img s) (lbytes L)) (mach L)\<rparr>))"
proof -
  have off: "unat (pluginSector L * 512) = 512 * s"
    using s by (simp add: unat_word_ariths unat_of_nat)
  have n: "512 * seg_sectors (unat (512 :: u32)) (pluginSector L * 512) = 512"
    unfolding seg_sectors_def off by simp
  have "\<exists>io. read_seg d p 512 (pluginSector L * 512) (disk_io L, lbytes L)
      = Some (Inr (io, written p 512 (sector_bytes img s) (lbytes L)))"
    using read_seg_reads [OF drive, of "lbytes L" p "pluginSector L * 512" 512 "disk_io L"] p
    unfolding n off by simp
  moreover have "L\<lparr>disk_io := io, pluginSector := of_nat s, mach := M\<rparr> = L\<lparr>disk_io := io, mach := M\<rparr>" for io M
    using s(1) by (cases L) simp
  ultimately show ?thesis by (auto simp: read_block_def)
qed

lemma written_again: "written a n f (written a n g m) = written a n f m"
  by (auto simp: written_def)

lemma set_bytes_simps [simp]:
  "byte_heap (vm (set_bytes m M)) = m" "set_bytes m' (set_bytes m M) = set_bytes m' M"
  "kern (set_bytes m M) = kern M" "pluginTcb (set_bytes m M) = pluginTcb M"
  by (simp_all add: set_bytes_def)

text \<open>The state after sector \<open>s\<close> has been read to \<open>p\<close>.\<close>

lemma find_elf_finds:
  assumes drive: "drive_ready d" "serves d 0xF0 img"
    and hit: "elf_sector img a" "a < 2 ^ 23" and p: "unat p + 512 < 2 ^ 64"
  shows "pluginSector L = of_nat s \<Longrightarrow> s \<le> a \<Longrightarrow> (\<And>t. s \<le> t \<Longrightarrow> t < a \<Longrightarrow> \<not> elf_sector img t) \<Longrightarrow>
    mapped (lbytes L) p 512 \<Longrightarrow>
    \<exists>elf io. find_elf d p L = Some (Inr (elf, L\<lparr>disk_io := io, pluginSector := of_nat a,
      mach := set_bytes (written p 512 (sector_bytes img a) (lbytes L)) (mach L)\<rparr>))
      \<and> get_elf (written p 512 (sector_bytes img a) (lbytes L)) p = Inr elf \<and> magic elf = ELF_MAGIC"
proof (induction "a - s" arbitrary: s L)
  case step: 0
  then have [simp]: "s = a" by simp
  let ?m = "written p 512 (sector_bytes img a) (lbytes L)"
  obtain io where io: "read_block d p L = Some (Inr (L\<lparr>disk_io := io, pluginSector := of_nat s,
      mach := set_bytes ?m (mach L)\<rparr>))"
    using read_block_reads [OF drive _ hit(2) step(5) p] step(2) by auto
  have "\<exists>elf. get_elf ?m p = Inr elf \<and> (magic elf = ELF_MAGIC \<longleftrightarrow> elf_sector img a)"
    by (rule header_of_sector) (simp add: written_at)
  then obtain elf where "get_elf ?m p = Inr elf" "magic elf = ELF_MAGIC" using hit(1) by auto
  then show ?case using step(2)
    by (intro exI [of _ elf] exI [of _ io]) (simp add: io find_elf.simps [of d p L])
next
  case (Suc n)
  have s: "s < a" using Suc.hyps(2) by simp
  let ?m = "written p 512 (sector_bytes img s) (lbytes L)"
  obtain io where io: "read_block d p L = Some (Inr (L\<lparr>disk_io := io, pluginSector := of_nat s,
      mach := set_bytes ?m (mach L)\<rparr>))"
    using read_block_reads [OF drive Suc.prems(1) _ Suc.prems(4) p] hit(2) s by auto
  have "\<exists>elf. get_elf ?m p = Inr elf \<and> (magic elf = ELF_MAGIC \<longleftrightarrow> elf_sector img s)"
    by (rule header_of_sector) (simp add: written_at)
  then obtain elf where elf: "get_elf ?m p = Inr elf" "magic elf \<noteq> ELF_MAGIC" using Suc.prems(3) s by auto
  let ?L = "L\<lparr>disk_io := io, mach := set_bytes ?m (mach L), pluginSector := of_nat s + 1\<rparr>"
  have "mapped (lbytes ?L) p 512" using Suc.prems(4) by (simp add: mapped_written)
  moreover have "pluginSector ?L = of_nat (s + 1)" using Suc.prems(1) by simp
  moreover have "n = a - (s + 1)" "s + 1 \<le> a" using Suc.hyps(2) s by simp_all
  ultimately obtain elf' io' where "find_elf d p ?L = Some (Inr (elf', ?L\<lparr>disk_io := io', pluginSector := of_nat a,
      mach := set_bytes (written p 512 (sector_bytes img a) (lbytes ?L)) (mach ?L)\<rparr>))"
      "get_elf (written p 512 (sector_bytes img a) (lbytes ?L)) p = Inr elf'" "magic elf' = ELF_MAGIC"
    using Suc.hyps(1) [of "s + 1" ?L] Suc.prems(3) by auto
  then show ?case using elf
    by (intro exI [of _ elf'] exI [of _ io']) (simp add: io written_again find_elf.simps [of d p L])
qed

text \<open>The bytes of \<open>n\<close> sectors from \<open>s\<close> on, one behind the other.\<close>

lemma next_sector:
  assumes "512 * (n + 1) \<le> 2 ^ 64"
  shows "written (p + of_nat (512 * n)) 512 (sector_bytes img (s + n)) (written p (512 * n) (sector_bytes img s) m)
    = written p (512 * (n + 1)) (sector_bytes img s) m"
proof -
  have "written (p + of_nat (512 * n)) 512 (sector_bytes img (s + n)) (written p (512 * n) (sector_bytes img s) m)
      = written p (512 * n + 512) (\<lambda>i. if i < 512 * n then sector_bytes img s i
          else sector_bytes img (s + n) (i - 512 * n)) m"
    using assms by (intro written_append) simp
  also have "\<dots> = written p (512 * (n + 1)) (sector_bytes img s) m"
    by (auto intro!: written_cong simp: algebra_simps)
  finally show ?thesis .
qed

lemma rest_block:
  assumes drive: "drive_ready d" "serves d 0xF0 img"
    and s: "pluginSector L = of_nat (a + n)" "a + n < 2 ^ 23" and p: "unat p + 512 * (n + 1) < 2 ^ 64"
    and m: "lbytes L = written p (512 * n) (sector_bytes img a) m" "mapped m p (512 * (n + 1))"
  defines "p' \<equiv> p + of_nat (n * 512)" and "m' \<equiv> written p (512 * (n + 1)) (sector_bytes img a) m"
  shows "\<exists>io elf. read_block d p' L
      = Some (Inr (L\<lparr>disk_io := io, pluginSector := of_nat (a + n), mach := set_bytes m' (mach L)\<rparr>))
    \<and> get_elf m' p' = Inr elf \<and> (magic elf = ELF_MAGIC \<longleftrightarrow> elf_sector img (a + n))"
proof -
  have up: "unat p' = unat p + 512 * n" unfolding p'_def using ucast_plus(2) [of p "n * 512"] p by simp
  have "mapped m p' 512" unfolding p'_def using mapped_drop [of m p "n * 512" 512] m(2)
    by (simp add: algebra_simps)
  then have pm: "mapped (lbytes L) p' 512" unfolding m(1) by (rule mapped_written) simp
  have n: "512 * (n + 1) \<le> 2 ^ 64" using p by simp
  have m': "written p' 512 (sector_bytes img (a + n)) (lbytes L) = m'"
    unfolding m(1) p'_def m'_def next_sector [OF n, symmetric] by (simp only: mult.commute)
  have "unat p' + 512 < 2 ^ 64" unfolding up using p by simp
  from read_block_reads [OF drive s pm this, unfolded m'] obtain io where io: "read_block d p' L
      = Some (Inr (L\<lparr>disk_io := io, pluginSector := of_nat (a + n), mach := set_bytes m' (mach L)\<rparr>))" ..
  have "m' (p' + of_nat i) = Some (img (512 * (a + n + 1) + i))" if "i < 512" for i
  proof -
    have "p' + of_nat i = p + of_nat (n * 512 + i)" by (simp add: p'_def)
    moreover have "m' (p + of_nat (n * 512 + i)) = sector_bytes img a (n * 512 + i)"
      unfolding m'_def by (rule written_at) (use that n in simp_all)
    moreover have "512 * (a + 1) + (n * 512 + i) = 512 * (a + n + 1) + i" by simp
    ultimately show ?thesis by (simp only:)
  qed
  then have "\<exists>elf. get_elf m' p' = Inr elf \<and> (magic elf = ELF_MAGIC \<longleftrightarrow> elf_sector img (a + n))"
    by (rule header_of_sector)
  with io show ?thesis by blast
qed

lemma read_rest_reads:
  assumes drive: "drive_ready d" "serves d 0xF0 img"
    and hit: "elf_sector img b" "b < 2 ^ 23" and p: "unat p + 512 * (b - a + 1) < 2 ^ 64"
  shows "pluginSector L = of_nat (a + n) \<Longrightarrow> a + n \<le> b \<Longrightarrow>
    (\<And>t. a + n \<le> t \<Longrightarrow> t < b \<Longrightarrow> \<not> elf_sector img t) \<Longrightarrow>
    lbytes L = written p (512 * n) (sector_bytes img a) m \<Longrightarrow> mapped m p (512 * (b - a + 1)) \<Longrightarrow>
    \<exists>io. read_rest d p n L = Some (Inr (L\<lparr>disk_io := io, pluginSector := of_nat b,
      mach := set_bytes (written p (512 * (b - a + 1)) (sector_bytes img a) m) (mach L)\<rparr>))"
proof (induction "b - (a + n)" arbitrary: n L)
  case step: 0
  then have b: "b = a + n" by simp
  have "unat p + 512 * (n + 1) < 2 ^ 64" "mapped m p (512 * (n + 1))" "a + n < 2 ^ 23"
    using p step(6) hit(2) b by simp_all
  then show ?case
    using rest_block [OF drive step(2) _ _ step(5)] hit(1) unfolding b
    by (auto simp: read_rest.simps [of d p n L] Let_def simp del: of_nat_mult of_nat_add)
next
  case (Suc k)
  have n: "a + n < b" "k = b - (a + (n + 1))" "a + (n + 1) \<le> b" using Suc.hyps(2) by simp_all
  let ?m = "written p (512 * (n + 1)) (sector_bytes img a) m"
  have "512 * (n + 1) \<le> 512 * (b - a + 1)" using n by simp
  then have "unat p + 512 * (n + 1) < 2 ^ 64" "mapped m p (512 * (n + 1))" "a + n < 2 ^ 23"
    using p mapped_mono [OF Suc.prems(5)] hit(2) n by simp_all
  then obtain io elf where io: "read_block d (p + of_nat (n * 512)) L
      = Some (Inr (L\<lparr>disk_io := io, pluginSector := of_nat (a + n), mach := set_bytes ?m (mach L)\<rparr>))"
    "get_elf ?m (p + of_nat (n * 512)) = Inr elf" "magic elf \<noteq> ELF_MAGIC"
    using rest_block [OF drive Suc.prems(1) _ _ Suc.prems(4)] Suc.prems(3) [of "a + n"] n(1) by blast
  let ?L = "L\<lparr>disk_io := io, mach := set_bytes ?m (mach L), pluginSector := of_nat (a + n) + 1\<rparr>"
  have "\<exists>io'. read_rest d p (n + 1) ?L = Some (Inr (?L\<lparr>disk_io := io', pluginSector := of_nat b,
      mach := set_bytes (written p (512 * (b - a + 1)) (sector_bytes img a) m) (mach ?L)\<rparr>))"
    using Suc.prems(3,5) by (intro Suc.hyps(1) [OF n(2) _ n(3)]) simp_all
  then obtain io' where "read_rest d p (n + 1) ?L = Some (Inr (?L\<lparr>disk_io := io', pluginSector := of_nat b,
      mach := set_bytes (written p (512 * (b - a + 1)) (sector_bytes img a) m) (mach ?L)\<rparr>))" ..
  then show ?case
    using io by (intro exI [of _ io'])
      (simp add: read_rest.simps [of d p n L] Let_def del: of_nat_mult of_nat_add)
qed

subsection \<open>Properties\<close>

text \<open>C25: Reading a segment: \<open>read_seg\<close> returns when the drive becomes ready again and again, and \<open>count\<close>
  bytes from \<open>pa\<close> on are then the bytes of the second drive's image at \<open>offset\<close>, counted from the
  second sector. Bytes outside the sectors it reads, which may begin before \<open>pa\<close> and end behind the
  segment, keep their value.\<close>

theorem read_seg_reads_disk:
  assumes drive: "drive_ready d" "serves d 0xF0 img"
    and k: "k = unat offset mod 512" and len: "len = 512 * ((unat count + k + 511) div 512)"
    and buffer: "mapped m (pa - of_nat k) len" "k \<le> unat pa" "unat pa - k + len < 2 ^ 64"
  shows "\<exists>io' m'. read_seg d pa count offset (io, m) = Some (Inr (io', m'))
    \<and> (\<forall>i<unat count. m' (pa + of_nat i) = Some (img (512 + unat offset + i)))
    \<and> (\<forall>a. len \<le> unat (a - (pa - of_nat k)) \<longrightarrow> m' a = m a)"
proof -
  have len': "512 * seg_sectors (unat count) offset = len" by (simp add: seg_sectors_def len k)
  let ?m = "written (pa - of_nat k) len (\<lambda>j. Some (img (512 * (unat offset div 512 + 1) + j))) m"
  obtain io' where io: "read_seg d pa count offset (io, m) = Some (Inr (io', ?m))"
    using read_seg_reads [OF drive, of m pa offset count io] buffer unfolding len' k by auto
  have "?m (pa + of_nat i) = Some (img (512 + unat offset + i))" if i: "i < unat count" for i
  proof -
    have "pa + of_nat i = (pa - of_nat k) + of_nat (k + i)" by simp
    moreover have "?m ((pa - of_nat k) + of_nat (k + i)) = Some (img (512 * (unat offset div 512 + 1) + (k + i)))"
      by (rule written_at) (use i buffer(3) len in simp_all)
    moreover have "512 * (unat offset div 512 + 1) + (k + i) = 512 + unat offset + i" by (simp add: k)
    ultimately show ?thesis by (simp only:)
  qed
  moreover have "?m a = m a" if "len \<le> unat (a - (pa - of_nat k))" for a
    using that by (simp add: written_def)
  ultimately show ?thesis using io by blast
qed

text \<open>A drive that is always ready and serves an image, whichever drive is selected.\<close>

definition join :: "(nat \<Rightarrow> u8) \<Rightarrow> u32" where
  "join f = ucast (f 0) OR push_bit 8 (ucast (f 1)) OR push_bit 16 (ucast (f 2)) OR push_bit 24 (ucast (f 3))"

definition drive_of :: "(nat \<Rightarrow> u8) \<Rightarrow> drive" where
  "drive_of img = \<lparr>poll = (\<lambda>_. 0x40), serve = (\<lambda>r i. join (\<lambda>k. img (512 * unat (lba r) + 4 * i + k)))\<rparr>"

lemma word_byte_join:
  assumes "k < 4"
  shows "word_byte (join f) k = f k"
proof -
  have beyond: "\<not> bit (b :: u8) (8 + n)" "\<not> bit b (16 + n)" "\<not> bit b (24 + n)" for b n
    by (auto dest: bit_imp_le_length)
  have "k = 0 \<or> k = 1 \<or> k = 2 \<or> k = 3" using assms by auto
  moreover have "word_byte (join f) 0 = f 0" "word_byte (join f) 1 = f 1" "word_byte (join f) 2 = f 2"
    "word_byte (join f) 3 = f 3"
    unfolding word_byte_def join_def by (auto intro!: bit_word_eqI simp: bit_simps beyond)
  ultimately show ?thesis by auto
qed

lemma drive_of: "drive_ready (drive_of img)" "serves (drive_of img) sel img"
  by (auto simp: drive_ready_def serves_def drive_of_def word_byte_join)

definition idle_ide :: ide where "idle_ide = \<lparr>ide_ports = (\<lambda>_. 0), ide_polls = 0\<rparr>"

lemma mapped_all [simp]: "mapped (\<lambda>_. Some x) a n" by (auto simp: mapped_def)

theorem read_seg_reads_disk_witness:
  "\<exists>io' m'. read_seg (drive_of (\<lambda>i. of_nat i)) 0x10000 700 1000 (idle_ide, \<lambda>_. Some 0) = Some (Inr (io', m'))
    \<and> (\<forall>i<700. m' (0x10000 + of_nat i) = Some (of_nat (1512 + i)))
    \<and> (\<forall>a. 1536 \<le> unat (a - (0x10000 - 488)) \<longrightarrow> m' a = Some 0)"
  using read_seg_reads_disk [of "drive_of (\<lambda>i. of_nat i)" "\<lambda>i. of_nat i" 488 1000 1536 700 "\<lambda>_. Some 0" "0x10000" idle_ide]
  by (simp add: drive_of)

text \<open>C15: Finding a plug-in: on a drive that becomes ready again and again, \<open>load_plugin\<close>'s two scans
  return, whatever lies before the plug-in on the disk. They find the first sector \<open>a\<close> from the
  current one on with an ELF header, the buffer holds the sectors from \<open>a\<close> to the next header at
  \<open>b\<close>, both included, and the next scan will start at \<open>b\<close>. Nothing but the buffer, the drive and
  the sector number changes.\<close>

theorem plugin_image_found:
  assumes drive: "drive_ready d" "serves d 0xF0 img"
    and sectors: "pluginSector L = of_nat s" "s \<le> a" "a < b" "b < 2 ^ 23"
    and header: "elf_sector img a" "\<And>t. s \<le> t \<Longrightarrow> t < a \<Longrightarrow> \<not> elf_sector img t"
    and follower: "elf_sector img b" "\<And>t. a < t \<Longrightarrow> t < b \<Longrightarrow> \<not> elf_sector img t"
    and buffer: "mapped (lbytes L) p (512 * (b - a + 1))" "unat p + 512 * (b - a + 1) < 2 ^ 64"
  shows "\<exists>elf io m. read_plugin d p L = Some (Inr (elf, L\<lparr>disk_io := io, pluginSector := of_nat b,
      mach := set_bytes m (mach L)\<rparr>))
    \<and> m = written p (512 * (b - a + 1)) (\<lambda>j. Some (img (512 * (a + 1) + j))) (lbytes L)
    \<and> get_elf m p = Inr elf \<and> magic elf = ELF_MAGIC"
proof -
  let ?m1 = "written p 512 (sector_bytes img a) (lbytes L)"
  let ?m = "written p (512 * (b - a + 1)) (sector_bytes img a) (lbytes L)"
  have "a < 2 ^ 23" "unat p + 512 < 2 ^ 64" "mapped (lbytes L) p 512"
    using sectors buffer(2) mapped_mono [OF buffer(1), of 512] by simp_all
  with find_elf_finds [OF drive header(1) _ _ sectors(1,2) header(2)]
  obtain elf io where elf: "find_elf d p L = Some (Inr (elf, L\<lparr>disk_io := io, pluginSector := of_nat a,
      mach := set_bytes ?m1 (mach L)\<rparr>))" "get_elf ?m1 p = Inr elf" "magic elf = ELF_MAGIC" by blast
  let ?L = "L\<lparr>disk_io := io, mach := set_bytes ?m1 (mach L), pluginSector := of_nat a + 1\<rparr>"
  have "\<exists>io'. read_rest d p 1 ?L = Some (Inr (?L\<lparr>disk_io := io', pluginSector := of_nat b,
      mach := set_bytes ?m (mach ?L)\<rparr>))"
    using sectors(3) follower(2) buffer(1)
    by (intro read_rest_reads [OF drive follower(1) sectors(4) buffer(2), where n = 1]) simp_all
  then obtain io' where rest: "read_rest d p 1 ?L = Some (Inr (?L\<lparr>disk_io := io', pluginSector := of_nat b,
      mach := set_bytes ?m (mach ?L)\<rparr>))" ..
  have "512 * (b - a + 1) \<le> 2 ^ 64" using buffer(2) by simp
  then have "?m (p + of_nat i) = ?m1 (p + of_nat i)" if "i < 64" for i
    using that by (simp add: written_at)
  then have "get_elf ?m p = get_elf ?m1 p" by (rule get_elf_cong)
  with elf rest show ?thesis
    by (intro exI [of _ elf] exI [of _ io'] exI [of _ ?m]) (simp add: read_plugin_def)
qed

text \<open>A disk with one sector between two headers.\<close>

definition plugin_disk :: "nat \<Rightarrow> u8" where
  "plugin_disk i = (if i div 512 = 2 \<or> i div 512 = 4
     then (if i mod 512 = 0 then 0x7F else if i mod 512 = 1 then 0x45 else if i mod 512 = 2 then 0x4C
           else if i mod 512 = 3 then 0x46 else 1) else 0)"

lemma plugin_disk_headers: "elf_sector plugin_disk 1" "elf_sector plugin_disk 3" "\<not> elf_sector plugin_disk 0"
    "\<not> elf_sector plugin_disk 2"
  by (simp_all add: elf_sector_def disk_word_def plugin_disk_def ELF_MAGIC_def push_bit_eq_mult)

definition idle_loader :: loader where
  "idle_loader = \<lparr>mach = set_bytes (\<lambda>_. Some 0) boot_machine,
     disk_io = idle_ide, pluginSector = 0\<rparr>"

theorem plugin_image_found_witness:
  "\<exists>elf io m. read_plugin (drive_of plugin_disk) 0x10000 idle_loader
      = Some (Inr (elf, idle_loader\<lparr>disk_io := io, pluginSector := 3,
          mach := set_bytes m (mach idle_loader)\<rparr>))
    \<and> m = written 0x10000 1536 (\<lambda>j. Some (plugin_disk (1024 + j))) (\<lambda>_. Some 0)
    \<and> get_elf m 0x10000 = Inr elf \<and> magic elf = ELF_MAGIC"
proof -
  have first: "\<not> elf_sector plugin_disk t" if "0 \<le> t" "t < 1" for t :: nat using plugin_disk_headers that by simp
  have follower: "\<not> elf_sector plugin_disk t" if "1 < t" "t < 3" for t :: nat
  proof -
    have "t = 2" using that by simp
    then show ?thesis using plugin_disk_headers by simp
  qed
  have bytes: "lbytes idle_loader = (\<lambda>_. Some 0)" by (simp add: idle_loader_def)
  have "pluginSector idle_loader = of_nat 0" by (simp add: idle_loader_def)
  moreover have "(0 :: nat) \<le> 1" "(1 :: nat) < 3" "(3 :: nat) < 2 ^ 23" by simp_all
  moreover note plugin_disk_headers(1) first plugin_disk_headers(2) follower
  moreover have "mapped (lbytes idle_loader) 0x10000 (512 * (3 - 1 + 1))" by (simp add: bytes)
  moreover have "unat (0x10000 :: u64) + 512 * (3 - 1 + 1) < 2 ^ 64" by simp
  ultimately have "\<exists>elf io m. read_plugin (drive_of plugin_disk) 0x10000 idle_loader
      = Some (Inr (elf, idle_loader\<lparr>disk_io := io, pluginSector := of_nat 3,
          mach := set_bytes m (mach idle_loader)\<rparr>))
    \<and> m = written 0x10000 (512 * (3 - 1 + 1)) (\<lambda>j. Some (plugin_disk (512 * (1 + 1) + j))) (lbytes idle_loader)
    \<and> get_elf m 0x10000 = Inr elf \<and> magic elf = ELF_MAGIC"
    by (rule plugin_image_found [OF drive_of])
  then show ?thesis by (simp add: bytes)
qed

text \<open>C8: The boot loader: when the first 8192 bytes of the first drive's image hold a multiboot header,
  its first one with load addresses in order, and there is memory to load to, the loader returns from its waits and enters the kernel at
  the header's entry address, with the part of the image that the header names at its load address
  and zero bytes from the end of that part to the end of the BSS section.\<close>

theorem bootmain_loads_kernel:
  assumes drive: "drive_ready d" "serves d 0xE0 img" and boot: "bootable img n m"
  shows "\<exists>io' m'. bootmain d (io, m)
    = Some (Inr (Boot_enters (entry_addr (mb_header img n)), io', m')) \<and> kernel_loaded img n (mb_header img n) m'"
  using bootmain_spec [OF assms] by blast

text \<open>A kernel of one sector whose header is its first word.\<close>

definition kernel_words :: "u32 list" where
  "kernel_words = [0x1BADB002, 0x10000, 0xE4514FFE, 0x100000, 0x100000, 0x100200, 0x100400, 0x100020]"

definition kernel_disk :: "nat \<Rightarrow> u8" where
  "kernel_disk i = (if 512 \<le> i \<and> i < 544 then word_byte (kernel_words ! ((i - 512) div 4)) ((i - 512) mod 4) else 0)"

lemma join_word_byte: "join (word_byte w) = w"
proof (rule bit_word_eqI)
  fix n assume "n < LENGTH(32)"
  then consider "n < 8" | "8 \<le> n" "n < 16" | "16 \<le> n" "n < 24" | "24 \<le> n" "n < 32" by force
  then show "bit (join (word_byte w)) n = bit w n"
    by cases (auto simp: join_def word_byte_def bit_simps)
qed

lemma kernel_disk_word:
  assumes "i < 8"
  shows "disk_word kernel_disk i = kernel_words ! i"
proof -
  have "kernel_disk (512 + 4 * i + k) = word_byte (kernel_words ! i) k" if "k < 4" for k
    using assms that by (simp add: kernel_disk_def)
  from this [of 0] this [of 1] this [of 2] this [of 3]
  have "disk_word kernel_disk i = join (word_byte (kernel_words ! i))"
    by (simp add: disk_word_def join_def)
  then show ?thesis by (simp only: join_word_byte)
qed

theorem bootmain_loads_kernel_witness:
  "\<exists>io' m'. bootmain (drive_of kernel_disk) (idle_ide, \<lambda>_. Some 7)
      = Some (Inr (Boot_enters 0x100020, io', m'))
    \<and> (\<forall>i<512. m' (0x100000 + of_nat i) = Some (kernel_disk (512 + i)))
    \<and> (\<forall>i<512. m' (0x100200 + of_nat i) = Some 0)"
proof -
  have h: "mb_header kernel_disk 0 = \<lparr>h_flags = 0x10000, header_addr = 0x100000, load_addr = 0x100000,
      load_end_addr = 0x100200, bss_end_addr = 0x100400, entry_addr = 0x100020\<rparr>"
    by (simp add: mb_header_def kernel_disk_word kernel_words_def)
  have "bootable kernel_disk 0 (\<lambda>_. Some 7)"
    by (simp add: bootable_def header_index_def h accepted_def load_room_def load_offset_def load_size_def
        kernel_disk_word kernel_words_def)
  from bootmain_loads_kernel [OF drive_of this, of idle_ide] show ?thesis
    by (simp add: h kernel_loaded_def load_size_def load_offset_def)
qed

end
