(* ===== verification/SegInit.thy ===== *)
theory SegInit
  imports LoadPlugin
begin

text \<open>
  The descriptor tables: \<open>seg_init\<close> of \<open>src/kernel/vm.c\<close>, with the segment and gate descriptors it
  writes and the descriptor registers it loads. The entry points of the 256 vectors come from a
  generated assembly file; their addresses are the parameter \<open>vectors\<close>.
\<close>

definition SEG_KCODE :: u64 where "SEG_KCODE = 1"
definition SEG_KDATA :: u64 where "SEG_KDATA = 2"
definition SEG_KCPU :: u64 where "SEG_KCPU = 3"
definition SEG_TSS :: u64 where "SEG_TSS = 6"

text \<open>What the processor is told: the two table registers hold five 16-bit words each.\<close>

record segs =
  idtr :: "u16 list"
  gdtr :: "u16 list"
  reg_ss :: u16
  reg_tr :: u16
  fs_base :: u64
  cpu0_local :: u64

text \<open>The operand of \<open>lgdt\<close> and \<open>lidt\<close>.\<close>

definition table_register :: "u64 \<Rightarrow> u32 \<Rightarrow> u16 list" where
  "table_register p sz =
     [ucast (sz - 1), ucast p, ucast (drop_bit 16 p), ucast (drop_bit 32 p), ucast (drop_bit 48 p)]"

definition lidt :: "u64 \<Rightarrow> u32 \<Rightarrow> segs \<Rightarrow> segs" where
  "lidt p sz c = c\<lparr>idtr := table_register p sz\<rparr>"

definition lgdt :: "u64 \<Rightarrow> u32 \<Rightarrow> segs \<Rightarrow> segs" where
  "lgdt p sz c = c\<lparr>gdtr := table_register p sz\<rparr>"

definition loadss :: "u64 \<Rightarrow> segs \<Rightarrow> segs" where "loadss v c = c\<lparr>reg_ss := ucast v\<rparr>"
definition ltr :: "u64 \<Rightarrow> segs \<Rightarrow> segs" where "ltr sel c = c\<lparr>reg_tr := ucast sel\<rparr>"

text \<open>Only the model-specific register of the FS base is written.\<close>

definition wrmsr_fs_base :: "u64 \<Rightarrow> segs \<Rightarrow> segs" where "wrmsr_fs_base v c = c\<lparr>fs_base := v\<rparr>"

subsection \<open>Gates\<close>

text \<open>The four words of a gate, and their store at \<open>idt[4 * n]\<close>.\<close>

definition gate_word :: "u64 \<Rightarrow> u32 \<Rightarrow> u32 \<Rightarrow> nat \<Rightarrow> u32" where
  "gate_word addr pl trap i =
     (let trap = (if trap \<noteq> 0 then 0x8F00 else 0x8E00) in
      if i = 0 then ucast ((addr AND 0xFFFF) OR push_bit 16 (push_bit 3 SEG_KCODE))
      else if i = 1 then ucast ((addr AND 0xFFFF0000) OR trap OR ucast (push_bit 13 (pl AND 3)))
      else if i = 2 then ucast (drop_bit 32 addr)
      else 0)"

definition mkgate :: "u64 \<Rightarrow> u32 \<Rightarrow> u64 \<Rightarrow> u32 \<Rightarrow> u32 \<Rightarrow> bytes \<Rightarrow> kerror + bytes" where
  "mkgate idt n kva pl trap m =
     (let n = n * 4; gate = gate_word kva pl trap; idt_at = (\<lambda>i. idt + 4 * ucast (n + i)) in
     bind_ok (store32 (idt_at 0) (gate 0) m) (\<lambda>m.
     bind_ok (store32 (idt_at 1) (gate 1) m) (\<lambda>m.
     bind_ok (store32 (idt_at 2) (gate 2) m) (\<lambda>m.
     store32 (idt_at 3) (gate 3) m))))"

definition fill_idt :: "(nat \<Rightarrow> u64) \<Rightarrow> u64 \<Rightarrow> bytes \<Rightarrow> kerror + bytes" where
  "fill_idt vectors idt m =
     bind_ok (memset idt 0 (4096 * 4) m) (\<lambda>m.
     bind_ok (fold_ok (\<lambda>n. mkgate idt (of_nat n) (vectors n) 0 0) [0..<256] m) (\<lambda>m.
     mkgate idt 64 (vectors 64) 3 1 m))"

subsection \<open>Segments\<close>

text \<open>The two words of the descriptor of the task state segment at \<open>addr\<close>.\<close>

definition tss_desc_low :: "u64 \<Rightarrow> u64" where
  "tss_desc_low addr = 0x0067 OR push_bit 16 (addr AND 0xFFFFFF) OR push_bit 40 0x00E9
     OR push_bit 56 (drop_bit 24 addr AND 0xFF)"

definition fill_gdt :: "u64 \<Rightarrow> u64 \<Rightarrow> bytes \<Rightarrow> kerror + bytes" where
  "fill_gdt gdt tss m =
     fold_ok (\<lambda>(i, d). store64 (gdt + 8 * i) d)
       [(0, 0), (SEG_KCODE, 0x0020980000000000), (SEG_UCODE, 0x0020F80000000000),
        (SEG_KDATA, 0x0000920000000000), (SEG_KCPU, 0), (SEG_UDATA, 0x0000F20000000000),
        (SEG_TSS + 0, tss_desc_low tss), (SEG_TSS + 1, drop_bit 32 tss)] m"

definition on_bytes :: "(bytes \<Rightarrow> kerror + bytes) \<Rightarrow> machine \<Rightarrow> kerror + machine" where
  "on_bytes f M = bind_ok (f (byte_heap (vm M))) (\<lambda>m. Inr (set_bytes m M))"

definition seg_init :: "(nat \<Rightarrow> u64) \<Rightarrow> segs \<times> machine \<Rightarrow> kerror + segs \<times> machine" where
  "seg_init vectors CM = (let (c, M) = CM in
     bind_ok (on_vm (vm_alloc_kernel (PGSIZE * 8) PGSIZE) M) (\<lambda>(idt, M).
     bind_ok (on_bytes (fill_idt vectors idt) M) (\<lambda>M.
     let c = lidt idt 4096 c in
     bind_ok (alloc_kpage M) (\<lambda>(local, M).
     bind_ok (on_bytes (memset local 0 4096) M) (\<lambda>M.
     let gdt = local; tss = local + 1024 in
     bind_ok (on_bytes (store32 (tss + 4 * 16) 0x00680000) M) (\<lambda>M.
     let c = wrmsr_fs_base (local + 4096 div 2) c; c = c\<lparr>cpu0_local := local\<rparr> in
     bind_ok (on_bytes (fill_gdt gdt tss) M) (\<lambda>M.
     let c = lgdt gdt (8 * 8) c; c = loadss (push_bit 3 SEG_KDATA) c; c = ltr (push_bit 3 SEG_TSS) c in
     Inr (c, M))))))))"

subsection \<open>What the processor reads\<close>

text \<open>The gate of vector \<open>n\<close> as four words of memory, and its fields.\<close>

record gate =
  g_offset :: u64
  g_selector :: u64
  g_type :: u32
  g_dpl :: u32
  g_present :: bool

definition decode_gate :: "u32 \<Rightarrow> u32 \<Rightarrow> u32 \<Rightarrow> gate" where
  "decode_gate w0 w1 w2 =
     \<lparr>g_offset = ucast (w0 AND 0xFFFF) OR ucast (w1 AND 0xFFFF0000) OR push_bit 32 (ucast w2),
      g_selector = ucast (drop_bit 16 w0), g_type = drop_bit 8 w1 AND 0xF,
      g_dpl = drop_bit 13 w1 AND 3, g_present = bit w1 15\<rparr>"

definition read_gate :: "bytes \<Rightarrow> u64 \<Rightarrow> kerror + gate" where
  "read_gate m a =
     bind_ok (load32 m a) (\<lambda>w0. bind_ok (load32 m (a + 4)) (\<lambda>w1. bind_ok (load32 m (a + 8)) (\<lambda>w2.
     Inr (decode_gate w0 w1 w2))))"

lemma masks:
  "(0xFFFF :: u32) = mask 16" "(0xFFFF :: u64) = mask 16" "(0xFFFF0000 :: u32) = push_bit 16 (mask 16)"
  "(0xFFFF0000 :: u64) = push_bit 16 (mask 16)" "(0xF :: u32) = mask 4" "(3 :: u32) = mask 2"
  by (simp_all add: mask_eq_exp_minus_1)

text \<open>The low half of a gate's second word holds its type, the high half bits of the address.\<close>

lemma second_word:
  fixes addr t :: u64
  defines "w \<equiv> ucast ((addr AND 0xFFFF0000) OR take_bit 16 t) :: u32"
  shows "ucast (w AND 0xFFFF0000) = addr AND 0xFFFF0000"
    and "drop_bit 8 w AND 0xF = drop_bit 8 (ucast t) AND 0xF"
    and "drop_bit 13 w AND 3 = drop_bit 13 (ucast t) AND 3" and "bit w 15 = bit t 15"
proof -
  show "ucast (w AND 0xFFFF0000) = addr AND 0xFFFF0000"
    unfolding w_def masks by (rule bit_word_eqI) (auto simp: bit_simps)
  show "drop_bit 8 w AND 0xF = drop_bit 8 (ucast t) AND 0xF"
    unfolding w_def masks by (rule bit_word_eqI) (auto simp: bit_simps)
  show "drop_bit 13 w AND 3 = drop_bit 13 (ucast t) AND 3"
    unfolding w_def masks by (rule bit_word_eqI) (auto simp: bit_simps)
  show "bit w 15 = bit t 15" unfolding w_def masks by (auto simp: bit_simps)
qed

lemma first_word:
  fixes addr c :: u64
  defines "w \<equiv> ucast ((addr AND 0xFFFF) OR push_bit 16 c) :: u32"
  shows "ucast (w AND 0xFFFF) = addr AND 0xFFFF" and "drop_bit 16 w = ucast (take_bit 16 c)"
proof -
  show "ucast (w AND 0xFFFF) = addr AND 0xFFFF"
    unfolding w_def masks by (rule bit_word_eqI) (auto simp: bit_simps)
  show "drop_bit 16 w = ucast (take_bit 16 c)"
    unfolding w_def masks by (rule bit_word_eqI) (auto simp: bit_simps)
qed

lemma join_address:
  "(addr AND 0xFFFF) OR (addr AND 0xFFFF0000) OR push_bit 32 (ucast (ucast (drop_bit 32 addr) :: u32)) = (addr :: u64)"
  unfolding masks
proof (rule bit_word_eqI)
  fix n assume "n < LENGTH(64)"
  then consider "n < 16" | "16 \<le> n" "n < 32" | "32 \<le> n" "n < 64" by force
  then show "bit ((addr AND mask 16) OR (addr AND push_bit 16 (mask 16))
      OR push_bit 32 (ucast (ucast (drop_bit 32 addr) :: u32))) n = bit addr n"
    by cases (auto simp: bit_simps)
qed

lemma decode_gate_word:
  assumes "pl = 0 \<or> pl = 3"
  shows "decode_gate (gate_word addr pl trap 0) (gate_word addr pl trap 1) (gate_word addr pl trap 2)
    = \<lparr>g_offset = addr, g_selector = push_bit 3 SEG_KCODE, g_type = (if trap \<noteq> 0 then 0xF else 0xE),
       g_dpl = pl, g_present = True\<rparr>"
proof -
  define t :: u64 where "t = (if trap \<noteq> 0 then 0x8F00 else 0x8E00) OR ucast (push_bit 13 (pl AND 3))"
  have t: "take_bit 16 t = t" "drop_bit 8 (ucast t :: u32) AND 0xF = (if trap \<noteq> 0 then 0xF else 0xE)"
    "drop_bit 13 (ucast t :: u32) AND 3 = pl" "bit t 15"
    using assms by (auto simp: t_def)
  have "gate_word addr pl trap 0 = ucast ((addr AND 0xFFFF) OR push_bit 16 (push_bit 3 SEG_KCODE))"
    by (simp add: gate_word_def Let_def)
  moreover have "gate_word addr pl trap 1 = ucast ((addr AND 0xFFFF0000) OR t)"
    by (simp add: gate_word_def Let_def t_def or.assoc)
  moreover have "gate_word addr pl trap 2 = ucast (drop_bit 32 addr)" by (simp add: gate_word_def)
  ultimately show ?thesis
    unfolding decode_gate_def
    by (simp only: first_word second_word [of addr t, unfolded t(1)] t join_address)
      (simp add: SEG_KCODE_def)
qed

end
