(* ===== verification/Constants.thy ===== *)
theory Constants
  imports Layout
begin

text \<open>
  The numbers that the hardware fixes and the headers name: the vectors of \<open>include/kernel/traps.h\<close>,
  the flags of \<open>include/kernel/mmu.h\<close> and of \<open>include/arch/x86/arch/machine/cpu_registers.h\<close>, the segment
  selectors of the architecture layer and the registers of the local interrupt controller
  (\<open>src/kernel/lapic.c\<close>).
\<close>

definition BIT :: "nat \<Rightarrow> u64" where "BIT n = push_bit n 1"
definition MASK :: "nat \<Rightarrow> u64" where "MASK n = BIT n - 1"

subsection \<open>Vectors\<close>

definition T_DIVIDE :: u32 where "T_DIVIDE = 0"
definition T_DEBUG :: u32 where "T_DEBUG = 1"
definition T_NMI :: u32 where "T_NMI = 2"
definition T_BRKPT :: u32 where "T_BRKPT = 3"
definition T_OFLOW :: u32 where "T_OFLOW = 4"
definition T_BOUND :: u32 where "T_BOUND = 5"
definition T_ILLOP :: u32 where "T_ILLOP = 6"
definition T_DEVICE :: u32 where "T_DEVICE = 7"
definition T_DBLFLT :: u32 where "T_DBLFLT = 8"
definition T_TSS :: u32 where "T_TSS = 10"
definition T_SEGNP :: u32 where "T_SEGNP = 11"
definition T_STACK :: u32 where "T_STACK = 12"
definition T_GPFLT :: u32 where "T_GPFLT = 13"
definition T_PGFLT :: u32 where "T_PGFLT = 14"
definition T_FPERR :: u32 where "T_FPERR = 16"
definition T_ALIGN :: u32 where "T_ALIGN = 17"
definition T_MCHK :: u32 where "T_MCHK = 18"
definition T_SIMDERR :: u32 where "T_SIMDERR = 19"
definition T_DEFAULT :: u32 where "T_DEFAULT = 500"
definition T_IRQ0 :: u32 where "T_IRQ0 = 32"

definition IRQ_TIMER :: u32 where "IRQ_TIMER = 0"
definition IRQ_KBD :: u32 where "IRQ_KBD = 1"
definition IRQ_COM1 :: u32 where "IRQ_COM1 = 4"
definition IRQ_IDE :: u32 where "IRQ_IDE = 14"
definition IRQ_ERROR :: u32 where "IRQ_ERROR = 19"
definition IRQ_SPURIOUS :: u32 where "IRQ_SPURIOUS = 31"

subsection \<open>Flags\<close>

text \<open>Page table entries.\<close>

definition PTE_PWT :: u64 where "PTE_PWT = 0x8"
definition PTE_PCD :: u64 where "PTE_PCD = 0x10"
definition PTE_A :: u64 where "PTE_A = 0x20"
definition PTE_D :: u64 where "PTE_D = 0x40"
definition PTE_PS :: u64 where "PTE_PS = 0x80"
definition PTE_MBZ :: u64 where "PTE_MBZ = 0x180"

text \<open>The flags register.\<close>

definition FL_CF :: u64 where "FL_CF = 1"
definition FL_PF :: u64 where "FL_PF = 4"
definition FL_AF :: u64 where "FL_AF = 0x10"
definition FL_ZF :: u64 where "FL_ZF = 0x40"
definition FL_SF :: u64 where "FL_SF = 0x80"
definition FL_TF :: u64 where "FL_TF = 0x100"
definition FL_IF :: u64 where "FL_IF = 0x200"
definition FL_DF :: u64 where "FL_DF = 0x400"
definition FL_OF :: u64 where "FL_OF = 0x800"
definition FL_IOPL_MASK :: u64 where "FL_IOPL_MASK = 0x3000"
definition FL_IOPL_0 :: u64 where "FL_IOPL_0 = 0"
definition FL_IOPL_1 :: u64 where "FL_IOPL_1 = 0x1000"
definition FL_IOPL_2 :: u64 where "FL_IOPL_2 = 0x2000"
definition FL_IOPL_3 :: u64 where "FL_IOPL_3 = 0x3000"
definition FL_NT :: u64 where "FL_NT = 0x4000"
definition FL_RF :: u64 where "FL_RF = 0x10000"
definition FL_VM :: u64 where "FL_VM = 0x20000"
definition FL_AC :: u64 where "FL_AC = 0x40000"
definition FL_VIF :: u64 where "FL_VIF = 0x80000"
definition FL_VIP :: u64 where "FL_VIP = 0x100000"
definition FL_ID :: u64 where "FL_ID = 0x200000"

text \<open>The same register in the architecture layer.\<close>

definition FLAGS_TF :: u64 where "FLAGS_TF = BIT 8"
definition FLAGS_IF :: u64 where "FLAGS_IF = BIT 9"
definition FLAGS_HIGH :: u64 where "FLAGS_HIGH = BIT 1"
definition FLAGS_LOW :: u64 where "FLAGS_LOW = BIT 3 OR BIT 5"
definition FLAGS_MASK :: u64 where "FLAGS_MASK = MASK 12"
definition FLAGS_USER_DEFAULT :: u64 where "FLAGS_USER_DEFAULT = FLAGS_IF OR FLAGS_HIGH"

text \<open>Control registers, first \<open>mmu.h\<close>, then the architecture layer.\<close>

definition CR0_MP :: u64 where "CR0_MP = 2"
definition CR0_EM :: u64 where "CR0_EM = 4"
definition CR0_TS :: u64 where "CR0_TS = 8"
definition CR0_ET :: u64 where "CR0_ET = 0x10"
definition CR0_NE :: u64 where "CR0_NE = 0x20"
definition CR0_WP :: u64 where "CR0_WP = 0x10000"
definition CR0_AM :: u64 where "CR0_AM = 0x40000"
definition CR0_NW :: u64 where "CR0_NW = 0x20000000"
definition CR0_CD :: u64 where "CR0_CD = 0x40000000"
definition CR0_PG :: u64 where "CR0_PG = 0x80000000"
definition CR4_PSE :: u64 where "CR4_PSE = 0x10"

definition CR0_MONITOR_COPROC :: u64 where "CR0_MONITOR_COPROC = BIT 1"
definition CR0_EMULATION :: u64 where "CR0_EMULATION = BIT 2"
definition CR0_TASK_SWITCH :: u64 where "CR0_TASK_SWITCH = BIT 3"
definition CR0_NUMERIC_ERROR :: u64 where "CR0_NUMERIC_ERROR = BIT 5"
definition CR0_WRITE_PROTECT :: u64 where "CR0_WRITE_PROTECT = BIT 16"
definition CR4_PCE :: u64 where "CR4_PCE = BIT 8"
definition CR4_OSFXSR :: u64 where "CR4_OSFXSR = BIT 9"
definition CR4_OSXMMEXCPT :: u64 where "CR4_OSXMMEXCPT = BIT 10"
definition CR4_OSXSAVE :: u64 where "CR4_OSXSAVE = BIT 18"
definition CR4_VMXE :: u64 where "CR4_VMXE = BIT 13"
definition CR4_SMEP :: u64 where "CR4_SMEP = BIT 20"
definition CR4_SMAP :: u64 where "CR4_SMAP = BIT 21"

subsection \<open>Segments of the architecture layer\<close>

definition GDT_NULL :: u64 where "GDT_NULL = 0"
definition GDT_CS_0 :: u64 where "GDT_CS_0 = 1"
definition GDT_DS_0 :: u64 where "GDT_DS_0 = 2"
definition GDT_TSS :: u64 where "GDT_TSS = 3"
definition GDT_CS_3 :: u64 where "GDT_CS_3 = 5"
definition GDT_DS_3 :: u64 where "GDT_DS_3 = 6"
definition GDT_FS :: u64 where "GDT_FS = 7"
definition GDT_GS :: u64 where "GDT_GS = 8"
definition GDT_ENTRIES :: u64 where "GDT_ENTRIES = 9"

definition OS_NULL :: u64 where "OS_NULL = GDT_NULL"
definition OS_CS_0 :: u64 where "OS_CS_0 = push_bit 3 GDT_CS_0"
definition OS_DS_0 :: u64 where "OS_DS_0 = push_bit 3 GDT_DS_0"
definition OS_CS_3 :: u64 where "OS_CS_3 = push_bit 3 GDT_CS_3 OR 3"
definition OS_DS_3 :: u64 where "OS_DS_3 = push_bit 3 GDT_DS_3 OR 3"
definition OS_TSS :: u64 where "OS_TSS = push_bit 3 GDT_TSS"
definition OS_FS :: u64 where "OS_FS = push_bit 3 GDT_FS OR 3"
definition OS_GS :: u64 where "OS_GS = push_bit 3 GDT_GS OR 3"

lemmas selector_defs = OS_NULL_def OS_CS_0_def OS_DS_0_def OS_CS_3_def OS_DS_3_def OS_TSS_def OS_FS_def OS_GS_def
  GDT_NULL_def GDT_CS_0_def GDT_DS_0_def GDT_TSS_def GDT_CS_3_def GDT_DS_3_def GDT_FS_def GDT_GS_def

datatype VmRights = VMKernelOnly | VMReadOnly | VMReadWrite

fun vm_rights :: "VmRights \<Rightarrow> u64" where
  "vm_rights VMKernelOnly = 1" | "vm_rights VMReadOnly = 2" | "vm_rights VMReadWrite = 3"

subsection \<open>The local interrupt controller\<close>

text \<open>Registers, as indices of 32-bit words, each with the values that are written to it.\<close>

definition LAPIC_ID :: nat where "LAPIC_ID = 0x20 div 4"
definition LAPIC_VER :: nat where "LAPIC_VER = 0x30 div 4"
definition LAPIC_TPR :: nat where "LAPIC_TPR = 0x80 div 4"
definition LAPIC_EOI :: nat where "LAPIC_EOI = 0xB0 div 4"
definition LAPIC_SVR :: nat where "LAPIC_SVR = 0xF0 div 4"
definition LAPIC_ENABLE :: u32 where "LAPIC_ENABLE = 0x100"
definition LAPIC_ESR :: nat where "LAPIC_ESR = 0x280 div 4"
definition LAPIC_ICRLO :: nat where "LAPIC_ICRLO = 0x300 div 4"
definition LAPIC_INIT :: u32 where "LAPIC_INIT = 0x500"
definition LAPIC_STARTUP :: u32 where "LAPIC_STARTUP = 0x600"
definition LAPIC_DELIVS :: u32 where "LAPIC_DELIVS = 0x1000"
definition LAPIC_ASSERT :: u32 where "LAPIC_ASSERT = 0x4000"
definition LAPIC_DEASSERT :: u32 where "LAPIC_DEASSERT = 0"
definition LAPIC_LEVEL :: u32 where "LAPIC_LEVEL = 0x8000"
definition LAPIC_BCAST :: u32 where "LAPIC_BCAST = 0x80000"
definition LAPIC_BUSY :: u32 where "LAPIC_BUSY = 0x1000"
definition LAPIC_FIXED :: u32 where "LAPIC_FIXED = 0"
definition LAPIC_ICRHI :: nat where "LAPIC_ICRHI = 0x310 div 4"
definition LAPIC_TIMER :: nat where "LAPIC_TIMER = 0x320 div 4"
definition LAPIC_X1 :: u32 where "LAPIC_X1 = 0xB"
definition LAPIC_PERIODIC :: u32 where "LAPIC_PERIODIC = 0x20000"
definition LAPIC_PCINT :: nat where "LAPIC_PCINT = 0x340 div 4"
definition LAPIC_LINT0 :: nat where "LAPIC_LINT0 = 0x350 div 4"
definition LAPIC_LINT1 :: nat where "LAPIC_LINT1 = 0x360 div 4"
definition LAPIC_ERROR :: nat where "LAPIC_ERROR = 0x370 div 4"
definition LAPIC_MASKED :: u32 where "LAPIC_MASKED = 0x10000"
definition LAPIC_TICR :: nat where "LAPIC_TICR = 0x380 div 4"
definition LAPIC_TCCR :: nat where "LAPIC_TCCR = 0x390 div 4"
definition LAPIC_TDCR :: nat where "LAPIC_TDCR = 0x3E0 div 4"

lemmas lapic_defs = LAPIC_ID_def LAPIC_VER_def LAPIC_TPR_def LAPIC_EOI_def LAPIC_SVR_def LAPIC_ENABLE_def LAPIC_ESR_def
  LAPIC_ICRLO_def LAPIC_INIT_def LAPIC_DELIVS_def LAPIC_LEVEL_def LAPIC_BCAST_def LAPIC_ICRHI_def LAPIC_TIMER_def
  LAPIC_X1_def LAPIC_PERIODIC_def LAPIC_PCINT_def LAPIC_LINT0_def LAPIC_LINT1_def LAPIC_ERROR_def LAPIC_MASKED_def
  LAPIC_TICR_def LAPIC_TDCR_def

subsection \<open>What the names agree on\<close>

text \<open>The two sets of names for control registers and flags denote the same bits.\<close>

lemma register_names_agree:
  "CR0_MONITOR_COPROC = CR0_MP" "CR0_EMULATION = CR0_EM" "CR0_TASK_SWITCH = CR0_TS"
  "CR0_NUMERIC_ERROR = CR0_NE" "CR0_WRITE_PROTECT = CR0_WP" "FLAGS_TF = FL_TF" "FLAGS_IF = FL_IF"
  by (simp_all add: CR0_MONITOR_COPROC_def CR0_MP_def CR0_EMULATION_def CR0_EM_def CR0_TASK_SWITCH_def
      CR0_TS_def CR0_NUMERIC_ERROR_def CR0_NE_def CR0_WRITE_PROTECT_def CR0_WP_def FLAGS_TF_def FL_TF_def
      FLAGS_IF_def FL_IF_def BIT_def)

end
