(* ===== verification/Startup.thy ===== *)
theory Startup
  imports SegInit Constants
begin

text \<open>
  Starting the machine: the ACPI tables (\<open>src/kernel/acpi.c\<close>), the local APIC
  (\<open>src/kernel/lapic.c\<close>), the I/O APIC (\<open>src/kernel/ioapic.c\<close>) and the order of the calls in \<open>main\<close>.

  The registers of the two interrupt controllers are not memory: writes to them are recorded in
  order, and what reading them gives is a parameter.
\<close>

subsection \<open>State\<close>

record hw =
  hmach :: machine
  hsegs :: segs
  cpus :: "(u8 \<times> u8) list"          \<comment> \<open>id and apicid of each of the \<open>NCPU\<close> entries\<close>
  ncpu :: nat
  ismp :: bool
  ioapicid :: u8
  lapic :: u64
  lapic_log :: "(nat \<times> u32) list"
  ioapic_log :: "(u32 \<times> u64) list"

record devices =
  lapic_in :: "(nat \<times> u32) list \<Rightarrow> nat \<Rightarrow> nat \<Rightarrow> u32"   \<comment> \<open>writes so far, number of the poll, register\<close>
  ioapic_in :: "u32 \<Rightarrow> u64"

abbreviation hbytes :: "hw \<Rightarrow> bytes" where "hbytes H \<equiv> byte_heap (vm (hmach H))"

definition hprintf :: "string \<Rightarrow> u64 list \<Rightarrow> hw \<Rightarrow> kerror + hw" where
  "hprintf fmt args H = bind_ok (kprintf fmt args (hmach H)) (\<lambda>M. Inr (H\<lparr>hmach := M\<rparr>))"

definition newline :: string where "newline = [CHR 0x0A]"

definition DEVSPACE :: u64 where "DEVSPACE = 0xFE000000"
definition DEVBASE :: u64 where "DEVBASE = 0xFFFFFFFF40000000"
definition IO2V :: "u64 \<Rightarrow> u64" where "IO2V a = a + DEVBASE - DEVSPACE"

subsection \<open>ACPI\<close>

definition SIG_RSDP :: "u8 list" where "SIG_RSDP = map of_char ''RSD PTR ''"
definition SIG_MADT :: "u8 list" where "SIG_MADT = map of_char ''APIC''"
definition sizeof_rsdp :: u32 where "sizeof_rsdp = 36"
definition TYPE_LAPIC :: u8 where "TYPE_LAPIC = 0"
definition TYPE_IOAPIC :: u8 where "TYPE_IOAPIC = 1"
definition APIC_LAPIC_ENABLED :: u32 where "APIC_LAPIC_ENABLED = 1"
definition PHYSLIMIT :: u32 where "PHYSLIMIT = 0x80000000"

text \<open>\<open>memcmp\<close> of memory with a signature, which reads no further than the first difference.\<close>

primrec match_sig :: "u8 list \<Rightarrow> bytes \<Rightarrow> u64 \<Rightarrow> kerror + bool" where
  "match_sig [] m p = Inr True"
| "match_sig (c # cs) m p =
     bind_ok (load8 m p) (\<lambda>b. if b \<noteq> c then Inr False else match_sig cs m (p + 1))"

primrec sum_bytes :: "nat \<Rightarrow> bytes \<Rightarrow> u64 \<Rightarrow> u32 \<Rightarrow> kerror + u32" where
  "sum_bytes 0 m p acc = Inr acc"
| "sum_bytes (Suc n) m p acc = bind_ok (load8 m p) (\<lambda>b. sum_bytes n m (p + 1) (acc + ucast b))"

function scan_loop :: "u64 \<Rightarrow> u32 \<Rightarrow> bytes \<Rightarrow> kerror + u64" where
  "scan_loop p len m =
     (if \<not> sizeof_rsdp \<le> len then Inr 0 else
      bind_ok (match_sig SIG_RSDP m p) (\<lambda>eq.
      if eq then
        bind_ok (sum_bytes 20 m p 0) (\<lambda>acc.
        if acc AND 0xFF = 0 then Inr p else scan_loop (p + 4) (len - 4) m)
      else scan_loop (p + 4) (len - 4) m))"
  by pat_completeness auto
termination
  by (relation "measure (\<lambda>(p, len, m). unat len)")
    (auto simp: sizeof_rsdp_def word_less_nat_alt word_le_nat_alt unat_sub_if_size)

declare scan_loop.simps [simp del]

definition scan_rsdp :: "u32 \<Rightarrow> u32 \<Rightarrow> bytes \<Rightarrow> kerror + u64" where
  "scan_rsdp base len m = scan_loop (p2v (ucast base)) len m"

definition find_rsdp :: "bytes \<Rightarrow> kerror + u64" where
  "find_rsdp m =
     bind_ok (load16 m (p2v 0x40E)) (\<lambda>ebda.
     let pa = push_bit 4 (ucast ebda :: u32) in
     bind_ok (if pa \<noteq> 0 then scan_rsdp pa 1024 m else Inr 0) (\<lambda>rsdp.
     if rsdp \<noteq> 0 then Inr rsdp else scan_rsdp 0xE0000 0x20000 m))"

text \<open>One entry of the table of interrupt controllers, of length \<open>len\<close> at \<open>p\<close>; the counter of I/O APICs
  is returned.\<close>

definition madt_entry :: "u64 \<Rightarrow> u32 \<Rightarrow> u32 \<Rightarrow> hw \<Rightarrow> kerror + u32 \<times> hw" where
  "madt_entry p len nioapic H =
     bind_ok (load8 (hbytes H) p) (\<lambda>ty.
     if ty = TYPE_LAPIC then
       if len < 8 then Inr (nioapic, H) else
       bind_ok (load32 (hbytes H) (p + 4)) (\<lambda>flags.
       if flags AND APIC_LAPIC_ENABLED = 0 then Inr (nioapic, H) else
       bind_ok (load8 (hbytes H) (p + 3)) (\<lambda>apic_id.
       bind_ok (hprintf (''acpi: cpu#%d apicid %d'' @ newline) [of_nat (ncpu H), ucast apic_id] H) (\<lambda>H.
       if ncpu H < length (cpus H) then
         Inr (nioapic, H\<lparr>cpus := (cpus H)[ncpu H := (of_nat (ncpu H), apic_id)], ncpu := ncpu H + 1\<rparr>)
       else Inl (OutOfBounds (ncpu H)))))
     else if ty = TYPE_IOAPIC then
       if len < 12 then Inr (nioapic, H) else
       bind_ok (load32 (hbytes H) (p + 4)) (\<lambda>addr. bind_ok (load8 (hbytes H) (p + 2)) (\<lambda>i.
       bind_ok (load32 (hbytes H) (p + 8)) (\<lambda>base.
       bind_ok (hprintf (''acpi: ioapic#%d @%x id=%d base=%d'' @ newline)
                  [ucast nioapic, ucast addr, ucast i, ucast base] H) (\<lambda>H.
       bind_ok (if nioapic \<noteq> 0 then hprintf ''warning: multiple ioapics are not supported'' [] H
                else Inr (H\<lparr>ioapicid := i\<rparr>)) (\<lambda>H.
       Inr (nioapic + 1, H))))))
     else Inr (nioapic, H))"

partial_function (option) madt_loop :: "u64 \<Rightarrow> u64 \<Rightarrow> u32 \<Rightarrow> hw \<Rightarrow> hw run" where
  "madt_loop p e nioapic H =
     (if p < e then
        if sint (e - p) < 2 then Some (Inr H) else
        bind_run (Some (load8 (hbytes H) (p + 1))) (\<lambda>len.
        if sint (e - p) < uint len then Some (Inr H) else
        bind_run (Some (madt_entry p (ucast len) nioapic H)) (\<lambda>(nioapic, H).
        madt_loop (p + ucast len) e nioapic H))
      else Some (Inr H))"

definition acpi_config_smp :: "u64 \<Rightarrow> hw \<Rightarrow> (int \<times> hw) run" where
  "acpi_config_smp madt H =
     (if madt = 0 then Some (Inr (- 1, H)) else
     bind_run (Some (load32 (hbytes H) (madt + 4))) (\<lambda>len.
     if len < 44 then Some (Inr (- 1, H)) else
     bind_run (Some (load32 (hbytes H) (madt + 36))) (\<lambda>lapic_addr.
     let p = madt + 44; e = p + ucast len - 44 in
     bind_run (madt_loop p e 0 H) (\<lambda>H.
     if ncpu H \<noteq> 0 then Some (Inr (0, H\<lparr>ismp := True, lapic := IO2V (ucast lapic_addr)\<rparr>))
     else Some (Inr (- 1, H))))))"

text \<open>The search for the table with signature \<open>APIC\<close> among the entries; \<open>None\<close> is the jump to
  \<open>notmapped\<close>.\<close>

primrec find_madt :: "nat list \<Rightarrow> u64 \<Rightarrow> u64 \<Rightarrow> bytes \<Rightarrow> kerror + u64 option" where
  "find_madt [] rsdt madt m = Inr (Some madt)"
| "find_madt (n # ns) rsdt madt m =
     bind_ok (load32 m (rsdt + 36 + 4 * of_nat n)) (\<lambda>entry.
     let hdr = p2v (ucast entry) in
     if entry > PHYSLIMIT then Inr None else
     bind_ok (match_sig SIG_MADT m hdr) (\<lambda>eq. find_madt ns rsdt (if eq then hdr else madt) m))"

definition notmapped :: "hw \<Rightarrow> (int \<times> hw) run" where
  "notmapped H = Some (bind_ok (hprintf (''acpi: tables above 0x%x not mapped.'' @ newline)
     [ucast PHYSLIMIT] H) (\<lambda>H. Inr (- 1, H)))"

definition acpi_init :: "hw \<Rightarrow> (int \<times> hw) run" where
  "acpi_init H =
     bind_run (Some (find_rsdp (hbytes H))) (\<lambda>rsdp.
     bind_run (Some (load32 (hbytes H) (rsdp + 16))) (\<lambda>addr.
     if addr > PHYSLIMIT then notmapped H else
     let rsdt = p2v (ucast addr) in
     bind_run (Some (load32 (hbytes H) (rsdt + 4))) (\<lambda>len.
     let count = ucast ((ucast len - 36 :: u64) div 4) :: u32 in
     bind_run (Some (find_madt [0..<unat count] rsdt 0 (hbytes H))) (\<lambda>madt.
     case madt of None \<Rightarrow> notmapped H | Some madt \<Rightarrow> acpi_config_smp madt H))))"

subsection \<open>The local APIC\<close>

text \<open>A write is followed by a read of \<open>LAPIC_ID\<close>, which waits for it and has no effect of its own.\<close>

definition lapicw :: "nat \<Rightarrow> u32 \<Rightarrow> hw \<Rightarrow> hw" where
  "lapicw index v H = H\<lparr>lapic_log := lapic_log H @ [(index, v)]\<rparr>"

partial_function (option) wait_delivered :: "devices \<Rightarrow> nat \<Rightarrow> hw \<Rightarrow> hw option" where
  "wait_delivered dev k H =
     (if lapic_in dev (lapic_log H) k LAPIC_ICRLO AND LAPIC_DELIVS \<noteq> 0 then wait_delivered dev (k + 1) H else Some H)"

definition lapic_init :: "devices \<Rightarrow> hw \<Rightarrow> hw option" where
  "lapic_init dev H =
     (if lapic H = 0 then Some H else
      let H = lapicw LAPIC_SVR (LAPIC_ENABLE OR (T_IRQ0 + IRQ_SPURIOUS)) H;
          H = lapicw LAPIC_TDCR LAPIC_X1 H;
          H = lapicw LAPIC_TIMER (LAPIC_PERIODIC OR (T_IRQ0 + IRQ_TIMER)) H;
          H = lapicw LAPIC_TICR 10000000 H;
          H = lapicw LAPIC_LINT0 LAPIC_MASKED H;
          H = lapicw LAPIC_LINT1 LAPIC_MASKED H;
          H = (if drop_bit 16 (lapic_in dev (lapic_log H) 0 LAPIC_VER) AND 0xFF \<ge> 4
               then lapicw LAPIC_PCINT LAPIC_MASKED H else H);
          H = lapicw LAPIC_ERROR (T_IRQ0 + IRQ_ERROR) H;
          H = lapicw LAPIC_ESR 0 H;
          H = lapicw LAPIC_ESR 0 H;
          H = lapicw LAPIC_EOI 0 H;
          H = lapicw LAPIC_ICRHI 0 H;
          H = lapicw LAPIC_ICRLO (LAPIC_BCAST OR LAPIC_INIT OR LAPIC_LEVEL) H in
      map_option (lapicw LAPIC_TPR 0) (wait_delivered dev 0 H))"

subsection \<open>The I/O APIC\<close>

definition REG_ID :: u32 where "REG_ID = 0"
definition REG_VER :: u32 where "REG_VER = 1"
definition REG_TABLE :: u32 where "REG_TABLE = 0x10"
definition INT_DISABLED :: u32 where "INT_DISABLED = 0x10000"

definition ioapic_read :: "devices \<Rightarrow> u32 \<Rightarrow> u64" where "ioapic_read dev reg = ioapic_in dev reg"

definition ioapic_write :: "u32 \<Rightarrow> u64 \<Rightarrow> hw \<Rightarrow> hw" where
  "ioapic_write reg data H = H\<lparr>ioapic_log := ioapic_log H @ [(reg, data)]\<rparr>"

definition ioapic_init :: "devices \<Rightarrow> hw \<Rightarrow> kerror + hw" where
  "ioapic_init dev H =
     (if \<not> ismp H then Inr H else
      let maxintr = ucast (drop_bit 16 (ioapic_read dev REG_VER) AND 0xFF) :: u32;
          ident = ucast (drop_bit 24 (ioapic_read dev REG_ID)) :: u32 in
      bind_ok (if ident \<noteq> ucast (ioapicid H)
               then hprintf (''ioapicinit: id isn't equal to ioapicid; not a MP'' @ newline) [] H
               else Inr H) (\<lambda>H.
      Inr (fold (\<lambda>i H. ioapic_write (REG_TABLE + 2 * of_nat i + 1) 0
          (ioapic_write (REG_TABLE + 2 * of_nat i) (ucast (INT_DISABLED OR (T_IRQ0 + of_nat i))) H))
        [0..<unat maxintr + 1] H)))"

definition ioapic_enable :: "u32 \<Rightarrow> u32 \<Rightarrow> hw \<Rightarrow> hw" where
  "ioapic_enable irq cpunum H =
     (if \<not> ismp H then H else
      ioapic_write (REG_TABLE + 2 * irq + 1) (scast (push_bit 24 cpunum))
        (ioapic_write (REG_TABLE + 2 * irq) (scast (T_IRQ0 + irq)) H))"

subsection \<open>main\<close>

record boot_params =
  bp_ards :: "(u64 \<times> u64 \<times> u32) list"     \<comment> \<open>the memory map of the firmware\<close>
  bp_vectors :: "nat \<Rightarrow> u64"
  bp_drive :: drive
  bp_devices :: devices
  bp_forkret :: u64
  bp_trapret :: u64
  bp_ustack :: u64
  bp_status :: Exception                 \<comment> \<open>values of local variables the code does not set\<close>
  bp_junk :: "nat \<Rightarrow> Cap"
  bp_fuel :: nat

definition on_mach :: "(machine \<Rightarrow> kerror + machine) \<Rightarrow> hw \<Rightarrow> hw run" where
  "on_mach f H = Some (bind_ok (f (hmach H)) (\<lambda>M. Inr (H\<lparr>hmach := M\<rparr>)))"

text \<open>The kernel's page table is a global of \<open>vm.c\<close> that both views of the state hold.\<close>

definition init_vm :: "machine \<Rightarrow> kerror + machine" where
  "init_vm M = bind_ok (vm_init (vm M)) (\<lambda>v.
     Inr (M\<lparr>vm := v, kern := (kern M)\<lparr>kernPml4 := vm_kernPml4 v, hw_cr3 := vm_cr3 v\<rparr>\<rparr>))"

definition first_thread :: "machine \<Rightarrow> kerror + machine" where
  "first_thread M =
     bind_ok (alloc_kpage M) (\<lambda>(t, M).
     let M = M\<lparr>kern := (new_tcb t (kern M))\<lparr>ksCurThread := t\<rparr>\<rparr> in
     bind_ok (alloc_kpage M) (\<lambda>(c, M).
     on_kern (mod_tcb t (\<lambda>x. x\<lparr>tcb_context := c\<rparr>)) M))"

text \<open>\<open>main\<close> up to its endless loop, whose body is \<open>main_loop_body\<close>.\<close>

definition kernel_start :: "boot_params \<Rightarrow> ide \<Rightarrow> hw \<Rightarrow> hw run" where
  "kernel_start bp io H =
     (let say = (\<lambda>msg. on_mach (kprintf (msg @ newline) [])) in
     bind_run (on_mach (\<lambda>M. bind_ok (memblock_init (bp_ards bp) (boot_mem (vm M))) (\<lambda>mb.
       Inr (M\<lparr>vm := (vm M)\<lparr>boot_mem := mb\<rparr>\<rparr>))) H) (\<lambda>H.
     bind_run (say ''lapic init'' H) (\<lambda>H.
     bind_run (map_option Inr (lapic_init (bp_devices bp) H)) (\<lambda>H.
     bind_run (say ''segment init'' H) (\<lambda>H.
     bind_run (Some (seg_init (bp_vectors bp) (hsegs H, hmach H))) (\<lambda>(c, M).
     bind_run (say ''ioapic init'' (H\<lparr>hsegs := c, hmach := M\<rparr>)) (\<lambda>H.
     bind_run (Some (ioapic_init (bp_devices bp) H)) (\<lambda>H.
     bind_run (say ''vm init'' H) (\<lambda>H.
     bind_run (on_mach init_vm H) (\<lambda>H.
     bind_run (on_mach (\<lambda>M. Inr (M\<lparr>kern := (kern M)\<lparr>ksReadyQueues := \<lparr>q_head = 0, q_end = 0\<rparr>\<rparr>\<rparr>)) H) (\<lambda>H.
     bind_run (say ''ipc init'' H) (\<lambda>H.
     bind_run (on_mach (ipc_test (bp_status bp) (bp_junk bp 0) (bp_junk bp 1) (bp_junk bp 2) (bp_junk bp 3)) H) (\<lambda>H.
     bind_run (say ''load plugin'' H) (\<lambda>H.
     bind_run (load_plugin (bp_drive bp) (bp_fuel bp) (bp_forkret bp) (bp_trapret bp) (bp_ustack bp)
       \<lparr>mach = hmach H, disk_io = io, pluginSector = 0\<rparr>) (\<lambda>L.
     bind_run (on_mach first_thread (H\<lparr>hmach := mach L\<rparr>)) (\<lambda>H.
     say ''schedule...'' H))))))))))))))))"

end
