(* ===== verification/StartProps.thy ===== *)
theory StartProps
  imports Startup LoadProps
begin

text \<open>
  Properties of the start-up code: the search for the ACPI root pointer, the parser of the table of
  interrupt controllers, and the interrupt descriptor table.
\<close>

subsection \<open>The root pointer\<close>

text \<open>A root pointer structure at \<open>p\<close>: the signature, and 20 bytes whose sum is a multiple of 256.\<close>

definition valid_rsdp :: "bytes \<Rightarrow> u64 \<Rightarrow> bool" where
  "valid_rsdp m p \<longleftrightarrow> (\<forall>i<8. m (p + of_nat i) = Some (SIG_RSDP ! i))
     \<and> (\<Sum>i<20. unat (the (m (p + of_nat i)))) mod 256 = 0"

lemma match_sig_spec:
  "mapped m p (length cs) \<Longrightarrow> match_sig cs m p = Inr (\<forall>i<length cs. m (p + of_nat i) = Some (cs ! i))"
proof (induction cs arbitrary: p)
  case (Cons c cs)
  obtain b where b: "m p = Some b" using Cons.prems by (auto simp: mapped_Suc)
  have "match_sig cs m (p + 1) = Inr (\<forall>i<length cs. m (p + 1 + of_nat i) = Some (cs ! i))"
    using Cons by (simp add: mapped_Suc)
  then show ?case using b unfolding length_Cons All_less_Suc2 by (simp add: add.assoc)
qed simp

lemma sum_bytes_spec:
  "mapped m p n \<Longrightarrow> sum_bytes n m p acc = Inr (acc + of_nat (\<Sum>i<n. unat (the (m (p + of_nat i)))))"
proof (induction n arbitrary: p acc)
  case (Suc n)
  obtain b where b: "m p = Some b" using Suc.prems by (auto simp: mapped_Suc)
  have "sum_bytes n m (p + 1) (acc + ucast b)
      = Inr (acc + ucast b + of_nat (\<Sum>i<n. unat (the (m (p + 1 + of_nat i)))))"
    using Suc by (simp add: mapped_Suc)
  moreover have "(\<Sum>i<Suc n. unat (the (m (p + of_nat i))))
      = unat b + (\<Sum>i<n. unat (the (m (p + 1 + of_nat i))))"
    unfolding sum.lessThan_Suc_shift by (simp add: b add.assoc)
  ultimately show ?case using b by (simp add: add.assoc)
qed simp

lemma low_byte_zero: "(of_nat n :: u32) AND 0xFF = 0 \<longleftrightarrow> n mod 256 = 0"
proof -
  have m: "(0xFF :: u32) = mask 8" by (simp add: mask_eq_exp_minus_1)
  have "unat ((of_nat n :: u32) AND 0xFF) = n mod 256"
    unfolding m take_bit_eq_mask [symmetric] unsigned_take_bit_eq unat_of_nat
    by (simp add: take_bit_eq_mod mod_mod_cancel)
  then show ?thesis by (metis unat_eq_0)
qed

lemma scan_step:
  assumes "mapped m p 36"
  shows "scan_loop p len m = (if \<not> 36 \<le> unat len then Inr 0
    else if valid_rsdp m p then Inr p else scan_loop (p + 4) (len - 4) m)"
proof -
  have "mapped m p 8" "mapped m p 20" using mapped_mono [OF assms] by simp_all
  moreover have "length SIG_RSDP = 8" by (simp add: SIG_RSDP_def)
  ultimately have "match_sig SIG_RSDP m p = Inr (\<forall>i<8. m (p + of_nat i) = Some (SIG_RSDP ! i))"
    "sum_bytes 20 m p 0 = Inr (of_nat (\<Sum>i<20. unat (the (m (p + of_nat i)))))"
    using match_sig_spec [of m p SIG_RSDP] sum_bytes_spec [of m p 20 0] by simp_all
  then show ?thesis
    by (auto simp: scan_loop.simps [of p len m] sizeof_rsdp_def word_le_nat_alt low_byte_zero valid_rsdp_def
        simp del: of_nat_sum)
qed

lemma scan_loop_first:
  "mapped m p (unat len) \<Longrightarrow>
    (scan_loop p len m = Inr 0 \<and> (\<forall>k. 4 * k + 36 \<le> unat len \<longrightarrow> \<not> valid_rsdp m (p + of_nat (4 * k))))
    \<or> (\<exists>k. scan_loop p len m = Inr (p + of_nat (4 * k)) \<and> 4 * k + 36 \<le> unat len
        \<and> valid_rsdp m (p + of_nat (4 * k)) \<and> (\<forall>j<k. \<not> valid_rsdp m (p + of_nat (4 * j))))"
proof (induction "unat len" arbitrary: p len rule: less_induct)
  case less
  show ?case
  proof (cases "36 \<le> unat len")
    case False
    then have "scan_loop p len m = Inr 0" by (simp add: scan_loop.simps [of p len m] sizeof_rsdp_def word_le_nat_alt)
    then show ?thesis using False by auto
  next
    case long: True
    note step = scan_step [OF mapped_mono [OF less.prems long], of len]
    show ?thesis
    proof (cases "valid_rsdp m p")
      case True
      then show ?thesis using step long by (intro disjI2 exI [of _ 0]) simp
    next
      case False
      have len: "unat (len - 4) = unat len - 4" using long by (simp add: unat_sub_if_size)
      have "mapped m (p + of_nat 4) (unat (len - 4))"
        using less.prems long unfolding len by (intro mapped_drop) simp
      then have IH: "(scan_loop (p + 4) (len - 4) m = Inr 0
          \<and> (\<forall>k. 4 * k + 36 \<le> unat (len - 4) \<longrightarrow> \<not> valid_rsdp m (p + 4 + of_nat (4 * k))))
        \<or> (\<exists>k. scan_loop (p + 4) (len - 4) m = Inr (p + 4 + of_nat (4 * k)) \<and> 4 * k + 36 \<le> unat (len - 4)
            \<and> valid_rsdp m (p + 4 + of_nat (4 * k)) \<and> (\<forall>j<k. \<not> valid_rsdp m (p + 4 + of_nat (4 * j))))"
        using long len by (intro less.hyps) simp_all
      have shift: "p + 4 + of_nat (4 * k) = p + of_nat (4 * Suc k)" for k by simp
      have eq: "scan_loop p len m = scan_loop (p + 4) (len - 4) m" using step long False by simp
      from IH [unfolded shift len] show ?thesis
      proof (elim disjE exE conjE)
        assume a: "scan_loop (p + 4) (len - 4) m = Inr 0"
          "\<forall>k. 4 * k + 36 \<le> unat len - 4 \<longrightarrow> \<not> valid_rsdp m (p + of_nat (4 * Suc k))"
        have "\<not> valid_rsdp m (p + of_nat (4 * k))" if "4 * k + 36 \<le> unat len" for k
          using a(2) False that by (cases k) auto
        then show ?thesis using a(1) eq by auto
      next
        fix k assume a: "scan_loop (p + 4) (len - 4) m = Inr (p + of_nat (4 * Suc k))"
          "4 * k + 36 \<le> unat len - 4" "valid_rsdp m (p + of_nat (4 * Suc k))"
          "\<forall>j<k. \<not> valid_rsdp m (p + of_nat (4 * Suc j))"
        have "\<not> valid_rsdp m (p + of_nat (4 * j))" if "j < Suc k" for j
          using a(4) False that by (cases j) auto
        then show ?thesis using a(1-3) long eq by (intro disjI2 exI [of _ "Suc k"]) auto
      qed
    qed
  qed
qed

subsection \<open>The table of interrupt controllers\<close>

text \<open>An entry of length 0 is of no type or too short for its type: nothing is taken from it.\<close>

lemma empty_entry:
  "m = hbytes H \<Longrightarrow> m p = Some t \<Longrightarrow> madt_entry p 0 n H = Inr (n, H)"
  by (simp add: madt_entry_def)

lemma madt_loop_stuck:
  "madt_loop p e n H = Some r \<Longrightarrow>
    \<not> (p < e \<and> 2 \<le> sint (e - p) \<and> hbytes H p = Some t \<and> hbytes H (p + 1) = Some 0)"
proof (erule madt_loop.raw_induct [rotated, where P = "\<lambda>p e n H r.
    \<not> (p < e \<and> 2 \<le> sint (e - p) \<and> hbytes H p = Some t \<and> hbytes H (p + 1) = Some 0)"], rule notI)
  fix loop p e n H r
  assume IH: "\<And>p e n H r. loop p e n H = Some r \<Longrightarrow>
      \<not> (p < e \<and> 2 \<le> sint (e - p) \<and> hbytes H p = Some t \<and> hbytes H (p + 1) = Some 0)"
    and run: "(if p < e
        then if sint (e - p) < 2 then Some (Inr H)
             else bind_run (Some (load8 (hbytes H) (p + 1))) (\<lambda>len.
               if sint (e - p) < uint len then Some (Inr H)
               else bind_run (Some (madt_entry p (ucast len) n H)) (\<lambda>(n, H). loop (p + ucast len) e n H))
        else Some (Inr H)) = Some r"
    and at: "p < e \<and> 2 \<le> sint (e - p) \<and> hbytes H p = Some t \<and> hbytes H (p + 1) = Some 0"
  have "loop p e n H = Some r" using run at by (simp add: empty_entry not_less)
  then show False using IH at by blast
qed

subsection \<open>The interrupt descriptor table\<close>

definition gate_bytes :: "u64 \<Rightarrow> u32 \<Rightarrow> u32 \<Rightarrow> nat \<Rightarrow> u8 option" where
  "gate_bytes addr pl tg j = Some (word_byte (gate_word addr pl tg (j div 4)) (j mod 4))"

lemma store32_word: "store32 a w m = store_word (\<lambda>k. a + of_nat k) w m"
proof -
  have "[0..<4] = [0, 1, 2, 3 :: nat]" by (simp add: upt_rec)
  then show ?thesis
    by (auto simp: store32_def store_word_def word_byte_def bind_ok_def split: sum.split)
qed

lemma mkgate_written:
  assumes n: "n < 256" and m: "mapped m (idt + of_nat (16 * n)) 16"
  shows "mkgate idt (of_nat n) addr pl tg m = Inr (written (idt + of_nat (16 * n)) 16 (gate_bytes addr pl tg) m)"
proof -
  let ?a = "idt + of_nat (16 * n)"
  have at: "idt + 4 * ucast (of_nat n * 4 + of_nat i :: u32) = ?a + of_nat (4 * i)" if "i < 4" for i
  proof -
    have "unat (of_nat n * 4 + of_nat i :: u32) = n * 4 + i"
      using n that by (simp add: unat_word_ariths unat_of_nat)
    then have "ucast (of_nat n * 4 + of_nat i :: u32) = (of_nat (n * 4 + i) :: u64)"
      using n that by (simp add: word_unat_eq_iff unat_ucast_32 unat_of_nat del: of_nat_add of_nat_mult)
    then show ?thesis by simp
  qed
  have "mkgate idt (of_nat n) addr pl tg m = insl (\<lambda>k. ?a + of_nat k) (gate_word addr pl tg) 4 m"
    using at [of 0] at [of 1] at [of 2] at [of 3]
    by (simp add: mkgate_def Let_def eval_nat_numeral store32_word add.assoc bind_ok_assoc)
  also have "\<dots> = Inr (written ?a (4 * 4) (\<lambda>j. Some (word_byte (gate_word addr pl tg (j div 4)) (j mod 4))) m)"
    using m by (intro insl_written) simp_all
  finally show ?thesis by (simp add: gate_bytes_def [abs_def])
qed

lemma gates_written:
  assumes "mapped m idt 4096"
  shows "n \<le> 256 \<Longrightarrow> fold_ok (\<lambda>n. mkgate idt (of_nat n) (vectors n) 0 0) [0..<n] m
    = Inr (written idt (16 * n) (\<lambda>j. gate_bytes (vectors (j div 16)) 0 0 (j mod 16)) m)"
proof (induction n)
  case (Suc n)
  let ?f = "\<lambda>j. gate_bytes (vectors (j div 16)) 0 0 (j mod 16)"
  let ?m = "written idt (16 * n) ?f m"
  have "mapped m (idt + of_nat (16 * n)) 16"
    using Suc.prems by (intro mapped_drop mapped_mono [OF assms]) simp
  then have "mapped ?m (idt + of_nat (16 * n)) 16" by (rule mapped_written) (simp add: gate_bytes_def)
  with Suc.prems have "mkgate idt (of_nat n) (vectors n) 0 0 ?m
      = Inr (written (idt + of_nat (16 * n)) 16 (gate_bytes (vectors n) 0 0) ?m)"
    by (intro mkgate_written) simp_all
  also have "written (idt + of_nat (16 * n)) 16 (gate_bytes (vectors n) 0 0) ?m = written idt (16 * n + 16) ?f m"
  proof -
    have "gate_bytes (vectors n) 0 0 (i - 16 * n) = ?f i" if "\<not> i < 16 * n" "i < 16 * n + 16" for i
    proof -
      obtain j where "i = 16 * n + j" using \<open>\<not> i < 16 * n\<close> by (metis le_Suc_ex not_less)
      then show ?thesis using that(2) by simp
    qed
    then show ?thesis using Suc.prems by (subst written_append) (auto intro!: written_cong)
  qed
  finally show ?case using Suc by (simp add: fold_ok_append add.commute)
qed simp

lemma fill_idt_bytes:
  assumes "mapped m idt 16384"
  obtains m' where "fill_idt vectors idt m = Inr m'"
    "\<And>n j. n < 256 \<Longrightarrow> j < 16 \<Longrightarrow> m' (idt + of_nat (16 * n + j))
      = (if n = 64 then gate_bytes (vectors 64) 3 1 j else gate_bytes (vectors n) 0 0 j)"
proof -
  let ?z = "written idt 16384 (\<lambda>_. Some 0) m" and ?f = "\<lambda>j. gate_bytes (vectors (j div 16)) 0 0 (j mod 16)"
  let ?m = "written idt 4096 ?f ?z"
  let ?m' = "written (idt + of_nat (16 * 64)) 16 (gate_bytes (vectors 64) 3 1) ?m"
  have z: "memset idt 0 (4096 * 4) m = Inr ?z" using memset_written [of m idt "4096 * 4" 0] assms by simp
  have "mapped ?z idt 4096" using assms by (intro mapped_written mapped_mono [OF assms]) simp_all
  note gates = gates_written [OF this, of 256 vectors]
  have "mapped ?m (idt + of_nat (16 * 64)) 16"
    using assms by (intro mapped_written mapped_drop mapped_mono [OF assms]) (simp_all add: gate_bytes_def)
  note last = mkgate_written [of 64, OF _ this, of "vectors 64" 3 1]
  have "fill_idt vectors idt m = Inr ?m'" using z gates last by (simp add: fill_idt_def)
  moreover have "?m' (idt + of_nat (16 * n + j)) = (if n = 64 then gate_bytes (vectors 64) 3 1 j else gate_bytes (vectors n) 0 0 j)"
    if nj: "n < 256" "j < 16" for n j
  proof (cases "n = 64")
    case True
    have "idt + of_nat (16 * n + j) = idt + of_nat (16 * 64) + of_nat j" using True by simp
    then show ?thesis using True nj by (simp only:) (simp add: written_at)
  next
    case False
    have "idt + of_nat (16 * 64) + of_nat i \<noteq> idt + of_nat (16 * n + j)" if "i < 16" for i
    proof
      assume "idt + of_nat (16 * 64) + of_nat i = idt + of_nat (16 * n + j)"
      then have "(of_nat (16 * 64 + i) :: u64) = of_nat (16 * n + j)" by (simp add: add.assoc)
      then have "unat (of_nat (16 * 64 + i) :: u64) = unat (of_nat (16 * n + j) :: u64)" by (simp only:)
      then have "16 * 64 + i = 16 * n + j"
        using nj that by (simp add: unat_of_nat del: of_nat_add of_nat_mult)
      then have "(16 * 64 + i) div 16 = (16 * n + j) div 16" by (simp only:)
      then show False using False nj(2) that by simp
    qed
    then have "?m' (idt + of_nat (16 * n + j)) = ?m (idt + of_nat (16 * n + j))" by (rule written_other)
    also have "\<dots> = ?f (16 * n + j)" using nj by (intro written_at) simp_all
    finally show ?thesis using False nj by simp
  qed
  ultimately show ?thesis by (rule that)
qed

lemma load32_join:
  assumes "\<And>k. k < 4 \<Longrightarrow> m (a + of_nat k) = Some (word_byte w k)"
  shows "load32 m a = Inr w"
proof -
  have "load32 m a = Inr (disk_word (\<lambda>j. word_byte w (j - 512)) 0)"
    using assms by (intro load32_image) simp
  also have "disk_word (\<lambda>j. word_byte w (j - 512)) 0 = join (word_byte w)"
    by (simp add: disk_word_def join_def)
  finally show ?thesis by (simp only: join_word_byte)
qed

lemma read_gate_bytes:
  assumes "\<And>j. j < 16 \<Longrightarrow> m (a + of_nat j) = gate_bytes addr pl tg j" and "pl = 0 \<or> pl = 3"
  shows "read_gate m a = Inr \<lparr>g_offset = addr, g_selector = push_bit 3 SEG_KCODE,
    g_type = (if tg \<noteq> 0 then 0xF else 0xE), g_dpl = pl, g_present = True\<rparr>"
proof -
  have "load32 m (a + of_nat (4 * i)) = Inr (gate_word addr pl tg i)" if "i < 3" for i
  proof (rule load32_join)
    fix k :: nat assume "k < 4"
    then show "m (a + of_nat (4 * i) + of_nat k) = Some (word_byte (gate_word addr pl tg i) k)"
      using assms(1) [of "4 * i + k"] that by (simp add: gate_bytes_def add.assoc)
  qed
  from this [of 0] this [of 1] this [of 2] show ?thesis
    using decode_gate_word [OF assms(2), of addr tg] by (simp add: read_gate_def)
qed

subsection \<open>Properties\<close>

text \<open>C19: The interrupt table that \<open>seg_init\<close> fills: for every vector the gate the processor reads has
  the address of the vector's entry point, the kernel's code segment and the present bit. Only the
  gate of the system call can be used by a user program (privilege level 3) and is a trap gate; all
  others have level 0 and are interrupt gates.\<close>

theorem only_syscall_gate_open:
  assumes "mapped m idt 16384"
  shows "\<exists>m'. fill_idt vectors idt m = Inr m' \<and> (\<forall>n. n < 256 \<longrightarrow> read_gate m' (idt + of_nat (16 * n))
    = Inr \<lparr>g_offset = vectors n, g_selector = 8, g_type = (if n = 64 then 0xF else 0xE),
           g_dpl = (if n = 64 then 3 else 0), g_present = True\<rparr>)"
proof -
  obtain m' where m': "fill_idt vectors idt m = Inr m'" "\<And>n j. n < 256 \<Longrightarrow> j < 16 \<Longrightarrow>
      m' (idt + of_nat (16 * n + j)) = (if n = 64 then gate_bytes (vectors 64) 3 1 j else gate_bytes (vectors n) 0 0 j)"
    using fill_idt_bytes [OF assms] by blast
  have bytes: "m' (idt + of_nat (16 * n) + of_nat j)
      = (if n = 64 then gate_bytes (vectors 64) 3 1 j else gate_bytes (vectors n) 0 0 j)"
    if "n < 256" "j < 16" for n j
    using m'(2) [OF that] by (simp add: add.assoc)
  have "read_gate m' (idt + of_nat (16 * n)) = Inr \<lparr>g_offset = vectors n, g_selector = 8,
      g_type = (if n = 64 then 0xF else 0xE), g_dpl = (if n = 64 then 3 else 0), g_present = True\<rparr>"
    if n: "n < 256" for n
  proof (cases "n = 64")
    case True
    have "m' (idt + of_nat (16 * n) + of_nat j) = gate_bytes (vectors 64) 3 1 j" if "j < 16" for j
      using bytes [OF n that] unfolding if_P [OF True] .
    from read_gate_bytes [OF this] show ?thesis using True by (simp add: SEG_KCODE_def)
  next
    case False
    have "m' (idt + of_nat (16 * n) + of_nat j) = gate_bytes (vectors n) 0 0 j" if "j < 16" for j
      using bytes [OF n that] unfolding if_not_P [OF False] .
    from read_gate_bytes [OF this] show ?thesis using False by (simp add: SEG_KCODE_def)
  qed
  then show ?thesis using m'(1) by blast
qed

theorem only_syscall_gate_open_witness:
  "\<exists>m'. fill_idt (\<lambda>n. 0xFFFFFFFF80101000 + of_nat n) 0xFFFFFFFF80200000 (\<lambda>_. Some 0) = Inr m'
    \<and> read_gate m' (0xFFFFFFFF80200000 + of_nat (16 * 14))
        = Inr \<lparr>g_offset = 0xFFFFFFFF8010100E, g_selector = 8, g_type = 0xE, g_dpl = 0, g_present = True\<rparr>
    \<and> read_gate m' (0xFFFFFFFF80200000 + of_nat (16 * 64))
        = Inr \<lparr>g_offset = 0xFFFFFFFF80101040, g_selector = 8, g_type = 0xF, g_dpl = 3, g_present = True\<rparr>"
proof -
  obtain m' where m': "fill_idt (\<lambda>n. 0xFFFFFFFF80101000 + of_nat n) 0xFFFFFFFF80200000 (\<lambda>_. Some 0) = Inr m'"
    "\<And>n. n < 256 \<Longrightarrow> read_gate m' (0xFFFFFFFF80200000 + of_nat (16 * n))
      = Inr \<lparr>g_offset = 0xFFFFFFFF80101000 + of_nat n, g_selector = 8, g_type = (if n = 64 then 0xF else 0xE),
           g_dpl = (if n = 64 then 3 else 0), g_present = True\<rparr>"
    using only_syscall_gate_open [of "\<lambda>_. Some 0" "0xFFFFFFFF80200000"
        "\<lambda>n. 0xFFFFFFFF80101000 + of_nat n"] by auto
  show ?thesis using m'(1) m'(2) [of 14] m'(2) [of 64] by simp
qed

text \<open>C38: The search for the ACPI root pointer in a readable area looks at every fourth byte and returns
  the first place with the signature and a zero checksum that lies, with the length of the whole
  structure, in the area; when there is none it returns null.\<close>

theorem rsdp_found_first:
  assumes "mapped m (p2v (ucast base)) (unat len)"
  shows "(scan_rsdp base len m = Inr 0
      \<and> (\<forall>k. 4 * k + 36 \<le> unat len \<longrightarrow> \<not> valid_rsdp m (p2v (ucast base) + of_nat (4 * k))))
    \<or> (\<exists>k. scan_rsdp base len m = Inr (p2v (ucast base) + of_nat (4 * k)) \<and> 4 * k + 36 \<le> unat len
        \<and> valid_rsdp m (p2v (ucast base) + of_nat (4 * k))
        \<and> (\<forall>j<k. \<not> valid_rsdp m (p2v (ucast base) + of_nat (4 * j))))"
  unfolding scan_rsdp_def using assms by (rule scan_loop_first)

text \<open>An area with a root pointer at its fifth byte.\<close>

definition rsdp_bytes :: bytes where
  "rsdp_bytes a = (let i = unat (a - 0xFFFFFFFF800E0004) in
     Some (if i < 8 then SIG_RSDP ! i else if i = 8 then 225 else 0))"

lemma rsdp_bytes_at: "valid_rsdp rsdp_bytes 0xFFFFFFFF800E0004" "\<not> valid_rsdp rsdp_bytes 0xFFFFFFFF800E0000"
proof -
  have at: "rsdp_bytes (0xFFFFFFFF800E0004 + of_nat i) = Some (if i < 8 then SIG_RSDP ! i else if i = 8 then 225 else 0)"
    if "i < 20" for i
    using that by (simp add: rsdp_bytes_def unat_of_nat)
  have "(\<Sum>i<20. unat (the (rsdp_bytes (0xFFFFFFFF800E0004 + of_nat i))))
      = (\<Sum>i<20. unat (if i < 8 then SIG_RSDP ! i else if i = 8 then 225 else 0))"
    by (rule sum.cong) (simp_all only: at lessThan_iff option.sel)
  also have "\<dots> = 768" by (simp add: lessThan_nat_numeral SIG_RSDP_def of_char_def)
  finally show "valid_rsdp rsdp_bytes 0xFFFFFFFF800E0004" unfolding valid_rsdp_def using at by simp
  have "rsdp_bytes 0xFFFFFFFF800E0000 \<noteq> Some (SIG_RSDP ! 0)"
    by (simp add: rsdp_bytes_def SIG_RSDP_def of_char_def)
  then show "\<not> valid_rsdp rsdp_bytes 0xFFFFFFFF800E0000" unfolding valid_rsdp_def by force
qed

theorem rsdp_found_first_witness: "scan_rsdp 0xE0000 64 rsdp_bytes = Inr 0xFFFFFFFF800E0004"
proof -
  have base: "p2v (ucast (0xE0000 :: u32)) = 0xFFFFFFFF800E0000" by (simp add: p2v_def KERNBASE_def)
  have one: "\<And>k :: nat. k = 1 \<Longrightarrow> valid_rsdp rsdp_bytes (0xFFFFFFFF800E0000 + of_nat (4 * k))"
    and zero: "\<And>k :: nat. k = 0 \<Longrightarrow> \<not> valid_rsdp rsdp_bytes (0xFFFFFFFF800E0000 + of_nat (4 * k))"
    using rsdp_bytes_at by simp_all
  have "mapped rsdp_bytes (p2v (ucast (0xE0000 :: u32))) (unat (64 :: u32))"
    by (auto simp: mapped_def rsdp_bytes_def Let_def)
  from rsdp_found_first [OF this, unfolded base] show ?thesis
  proof (elim disjE exE conjE)
    assume "\<forall>k. 4 * k + 36 \<le> unat (64 :: u32)
        \<longrightarrow> \<not> valid_rsdp rsdp_bytes (0xFFFFFFFF800E0000 + of_nat (4 * k))"
    from this [rule_format, of 1] have False using one [of 1] by simp
    then show ?thesis ..
  next
    fix k assume k: "scan_rsdp 0xE0000 64 rsdp_bytes = Inr (0xFFFFFFFF800E0000 + of_nat (4 * k))"
      "valid_rsdp rsdp_bytes (0xFFFFFFFF800E0000 + of_nat (4 * k))"
      "\<forall>j<k. \<not> valid_rsdp rsdp_bytes (0xFFFFFFFF800E0000 + of_nat (4 * j))"
    have "k \<noteq> 0" using k(2) zero by blast
    moreover have "\<not> 1 < k" using k(3) one by blast
    ultimately have "k = 1" by simp
    then show ?thesis using k(1) by simp
  qed
qed

text \<open>The parser of the table of interrupt controllers moves on by the length of an entry, also when
  the length is 0: on a table with such an entry it does not return.\<close>

theorem zero_length_entry_hangs:
  assumes "p < e" "2 \<le> sint (e - p)" "hbytes H p = Some t" "hbytes H (p + 1) = Some 0"
  shows "madt_loop p e n H = None"
  using madt_loop_stuck [of p e n H] assms by (cases "madt_loop p e n H") auto

definition bare_hw :: hw where
  "bare_hw = \<lparr>hmach = set_bytes (\<lambda>_. Some 0) boot_machine,
     hsegs = \<lparr>idtr = [], gdtr = [], reg_ss = 0, reg_tr = 0, fs_base = 0, cpu0_local = 0\<rparr>,
     cpus = replicate 8 (0, 0), ncpu = 0, ismp = False, ioapicid = 0, lapic = 0, lapic_log = [], ioapic_log = []\<rparr>"

theorem zero_length_entry_hangs_witness:
  "madt_loop 0xFFFFFFFF8000002C 0xFFFFFFFF80000060 0 bare_hw = None"
  by (rule zero_length_entry_hangs [where t = 0]) (simp_all add: bare_hw_def)

end
