(* ===== verification/Arch.thy ===== *)
theory Arch
  imports KState Constants Fixtures
begin

text \<open>
  The architecture layer taken over from another kernel: the initial user registers
  (\<open>src/arch/x86/machine/registerset.c\<close>, \<open>src/arch/x86/64/machine/registerset.c\<close>) and the change of the
  address space through a capability (\<open>src/arch/x86/64/kernel/vspace.c\<close> with
  \<open>include/arch/x86/arch/64/mode/machine.h\<close>).
\<close>

subsection \<open>User registers\<close>

text \<open>\<open>enum Register\<close>: indices into the saved registers.\<close>

datatype Register = RDI | RSI | RAX | RBX | RBP | R12 | R13 | R14 | RDX | R10 | R8 | R9 | R15 | FLAGS
  | NextIP | Error | RSP | FaultIP | R11 | RCX | CS | SS | FS_BASE | GS_BASE

fun reg_index :: "Register \<Rightarrow> nat" where
  "reg_index RDI = 0" | "reg_index RSI = 1" | "reg_index RAX = 2" | "reg_index RBX = 3"
| "reg_index RBP = 4" | "reg_index R12 = 5" | "reg_index R13 = 6" | "reg_index R14 = 7"
| "reg_index RDX = 8" | "reg_index R10 = 9" | "reg_index R8 = 10" | "reg_index R9 = 11"
| "reg_index R15 = 12" | "reg_index FLAGS = 13" | "reg_index NextIP = 14" | "reg_index Error = 15"
| "reg_index RSP = 16" | "reg_index FaultIP = 17" | "reg_index R11 = 18" | "reg_index RCX = 19"
| "reg_index CS = 20" | "reg_index SS = 21" | "reg_index FS_BASE = 22" | "reg_index GS_BASE = 23"

text \<open>\<open>context->registers[r] = v\<close>, on an array of \<open>N_CONTEXT_REGISTERS\<close> words.\<close>

definition put_register :: "Register \<times> u64 \<Rightarrow> u64 list \<Rightarrow> kerror + u64 list" where
  "put_register rv regs =
     (if reg_index (fst rv) < length regs then Inr (regs[reg_index (fst rv) := snd rv])
      else Inl (OutOfBounds (reg_index (fst rv))))"

definition mode_init_context :: "u64 list \<Rightarrow> kerror + u64 list" where
  "mode_init_context regs = fold_ok (\<lambda>r. put_register (r, 0))
     [RAX, RBX, RCX, RDX, RSI, RDI, RBP, R8, R9, R10, R11, R12, R13, R14, R15, RSP] regs"

definition arch_init_context :: "u64 list \<Rightarrow> kerror + u64 list" where
  "arch_init_context regs =
     bind_ok (mode_init_context regs) (fold_ok put_register
       [(FS_BASE, 0), (GS_BASE, 0), (Error, 0), (FaultIP, 0), (NextIP, 0), (CS, OS_CS_3),
        (FLAGS, FLAGS_USER_DEFAULT), (SS, OS_DS_3)])"

subsection \<open>Changing the address space\<close>

record Pml4Cap =
  capPML4BasePtr :: u64
  pml4_capType :: "5 word"
  capPML4IsMapped :: "1 word"
  pml4_pad :: "46 word"
  capPML4MappedASID :: "12 word"

definition Pml4Cap_of_Cap :: "Cap \<Rightarrow> Pml4Cap" where
  "Pml4Cap_of_Cap c = \<lparr>capPML4BasePtr = cap_w0 c, pml4_capType = get_bits 0 (cap_w1 c),
     capPML4IsMapped = get_bits 5 (cap_w1 c), pml4_pad = get_bits 6 (cap_w1 c),
     capPML4MappedASID = get_bits 52 (cap_w1 c)\<rparr>"

text \<open>The bit-fields of \<open>Cr3\<close> in the order of its declaration, from bit 0 up.\<close>

record Cr3 =
  cr3_pad :: "13 word"
  pml4BaseAddress :: "39 word"
  pcid :: "12 word"

definition Cr3_bits :: "Cr3 \<Rightarrow> u64" where
  "Cr3_bits r = put_bits 0 (cr3_pad r) OR put_bits 13 (pml4BaseAddress r) OR put_bits 52 (pcid r)"

text \<open>\<open>cr3\<close> is a local variable of which 13 bits are never set: \<open>junk\<close>.\<close>

definition make_cr3 :: "13 word \<Rightarrow> u64 \<Rightarrow> Cr3" where
  "make_cr3 junk addr = \<lparr>cr3_pad = junk, pml4BaseAddress = ucast addr, pcid = 0\<rparr>"

definition pptr_to_paddr :: "u64 \<Rightarrow> u64" where "pptr_to_paddr pptr = pptr - 0"

text \<open>The kernel's objects and the layer's own global.\<close>

record arch_state =
  arch_kern :: kstate
  x64KSCurrentCR3 :: Cr3

definition get_current_cr3 :: "arch_state \<Rightarrow> Cr3" where "get_current_cr3 A = x64KSCurrentCR3 A"

definition get_current_user_cr3 :: "arch_state \<Rightarrow> Cr3" where "get_current_user_cr3 A = get_current_cr3 A"

definition set_current_cr3 :: "Cr3 \<Rightarrow> arch_state \<Rightarrow> arch_state" where
  "set_current_cr3 r A = A\<lparr>x64KSCurrentCR3 := r, arch_kern := (arch_kern A)\<lparr>hw_cr3 := Cr3_bits r\<rparr>\<rparr>"

definition set_current_user_cr3 :: "Cr3 \<Rightarrow> arch_state \<Rightarrow> arch_state" where
  "set_current_user_cr3 r A = set_current_cr3 r A"

definition set_vm_root :: "13 word \<Rightarrow> u64 \<Rightarrow> arch_state \<Rightarrow> kerror + arch_state" where
  "set_vm_root junk tcb A =
     bind_ok (get_cte (arch_kern A) (TCB_PTR_CTE_PTR tcb (cnode_index tcbVTable))) (\<lambda>c.
     let pml4 = capPML4BasePtr (Pml4Cap_of_Cap (cte_cap c)) in
     Inr (set_current_user_cr3 (make_cr3 junk (pptr_to_paddr pml4)) A))"

definition arch_switch_to_thread :: "13 word \<Rightarrow> u64 \<Rightarrow> arch_state \<Rightarrow> kerror + arch_state" where
  "arch_switch_to_thread junk tcb A = set_vm_root junk tcb A"

subsection \<open>What they do\<close>

lemma mode_init_returns:
  assumes "length regs = N_CONTEXT_REGISTERS"
  obtains regs' where "mode_init_context regs = Inr regs'" "length regs' = N_CONTEXT_REGISTERS"
  using assms by (simp add: mode_init_context_def put_register_def N_CONTEXT_REGISTERS_def)

text \<open>Initialising the registers of a user context writes outside its array: the array has 20
  words, \<open>FS_BASE\<close> has index 22.\<close>

theorem context_init_overruns:
  assumes "length regs = N_CONTEXT_REGISTERS"
  shows "arch_init_context regs = Inl (OutOfBounds 22)"
proof -
  obtain regs' where "mode_init_context regs = Inr regs'" "length regs' = N_CONTEXT_REGISTERS"
    using assms by (rule mode_init_returns)
  then show ?thesis by (simp add: arch_init_context_def put_register_def N_CONTEXT_REGISTERS_def)
qed

theorem context_init_overruns_witness:
  "arch_init_context (replicate N_CONTEXT_REGISTERS 0) = Inl (OutOfBounds 22)"
  by (rule context_init_overruns) simp

text \<open>Changing to the address space of a thread's page table capability loads a register value in
  which the table's address is moved up by 13 bits and its upper bits are cut off, above 13 bits
  that were never set: the declaration of \<open>Cr3\<close> lists the fields from the top down, the compiler
  lays them out from the bottom up. A table at a page address below 512 GB other than 0 is not
  the one that is loaded.\<close>

theorem set_vm_root_misplaces_table:
  assumes slot: "cte_heap (arch_kern A) (TCB_PTR_CTE_PTR tcb (cnode_index tcbVTable)) = Some c"
    and pml4: "cap_w0 (cte_cap c) = a" "a AND 0xFFF = 0" "a \<noteq> 0" "unat a < 2 ^ 39"
  shows "\<exists>A'. set_vm_root junk tcb A = Inr A' \<and> get_current_user_cr3 A' = make_cr3 junk a
    \<and> hw_cr3 (arch_kern A') = ucast junk OR push_bit 13 a \<and> hw_cr3 (arch_kern A') AND NOT 0xFFF \<noteq> a"
proof -
  let ?r = "ucast junk OR push_bit 13 a :: u64"
  have a: "take_bit 39 a = a"
    using pml4(4) by (simp add: word_unat_eq_iff unsigned_take_bit_eq take_bit_nat_eq_self)
  have "put_bits 0 junk OR put_bits 13 (ucast a :: 39 word) OR put_bits 52 (0 :: 12 word) = ucast junk OR push_bit 13 (take_bit 39 a)"
    by (rule bit_word_eqI) (auto simp: put_bits_def bit_simps)
  then have "set_vm_root junk tcb A = Inr (A\<lparr>x64KSCurrentCR3 := make_cr3 junk a,
      arch_kern := (arch_kern A)\<lparr>hw_cr3 := ?r\<rparr>\<rparr>)"
    using slot pml4(1) a
    by (simp add: set_vm_root_def get_cte_def read_at_def Pml4Cap_of_Cap_def pptr_to_paddr_def
        set_current_user_cr3_def set_current_cr3_def make_cr3_def Cr3_bits_def)
  moreover have "?r AND NOT 0xFFF \<noteq> a"
  proof
    assume eq: "?r AND NOT 0xFFF = a"
    have low: "n < 39" if "bit a n" for n
      using that a by (metis bit_take_bit_iff)
    have up: "bit a (n + 13)" if "bit a n" for n
    proof -
      have "bit (?r AND NOT (mask 12)) (n + 13)" using low [OF that] that by (simp add: bit_simps)
      then show ?thesis using eq by (simp add: mask_eq_exp_minus_1)
    qed
    obtain n where "bit a n" using pml4(3) by (metis bit_eq_iff bit_0_eq bot_apply bot_bool_def)
    then have "bit a (n + 13 + 13 + 13)" by (intro up)
    then show False using low by fastforce
  qed
  ultimately show ?thesis by (simp add: get_current_user_cr3_def get_current_cr3_def)
qed

definition root_slots :: arch_state where
  "root_slots = \<lparr>arch_kern = (slots_at [])\<lparr>cte_heap := [0x828 \<mapsto> blank_cte\<lparr>cte_cap := \<lparr>cap_w0 = 0x5000, cap_w1 = 0, cap_w2 = 0\<rparr>\<rparr>]\<rparr>,
     x64KSCurrentCR3 = make_cr3 0 0\<rparr>"

theorem set_vm_root_misplaces_table_witness:
  "\<exists>A'. set_vm_root 0 0xC00 root_slots = Inr A' \<and> get_current_user_cr3 A' = make_cr3 0 0x5000
    \<and> hw_cr3 (arch_kern A') = 0xA000000 \<and> hw_cr3 (arch_kern A') AND NOT 0xFFF \<noteq> 0x5000"
proof -
  have "cte_heap (arch_kern root_slots) (TCB_PTR_CTE_PTR 0xC00 (cnode_index tcbVTable))
      = Some (blank_cte\<lparr>cte_cap := \<lparr>cap_w0 = 0x5000, cap_w1 = 0, cap_w2 = 0\<rparr>\<rparr>)"
    by (simp add: root_slots_def TCB_PTR_CTE_PTR_def OsTCBBits_def mask_eq_exp_minus_1 sizeof_Cte_def)
  from set_vm_root_misplaces_table [OF this, of "0x5000" 0] show ?thesis by simp
qed

end
