(* ===== verification/Exchange.thy ===== *)
theory Exchange
  imports IpcProps BootProps ThreadProps SyscallProps
begin

text \<open>
  Two threads at work: the scheduler of \<open>Sched\<close>, the capability spaces of \<open>CSpace\<close> and the message
  passing of \<open>EndpointIPC\<close> together, from the state that \<open>ipc_test\<close> of \<open>src/kernel/main.c\<close> sets up: both
  threads ready, with a capability to the same idle endpoint.
\<close>

subsection \<open>A turn of the main loop\<close>

text \<open>The thread that a turn runs finds every object as it was, but for the links of the ready queue.\<close>

definition turn_frame :: "kstate \<Rightarrow> kstate \<Rightarrow> bool" where
  "turn_frame s s1 \<longleftrightarrow> sched_frame s
     (s1\<lparr>oldThread := oldThread s, ksCurThread := ksCurThread s, hw_tss := hw_tss s, hw_cr3 := hw_cr3 s\<rparr>)"

lemma turn_frame_objects:
  assumes "turn_frame s s1"
  shows "ep_heap s1 = ep_heap s" "cte_heap s1 = cte_heap s" "tf_heap s1 = tf_heap s"
    "word_heap s1 = word_heap s" "excaprefs s1 = excaprefs s"
    "ep_rep s1 p xs = ep_rep s p xs"
    "tcb_heap s t = Some x \<Longrightarrow> (\<And>y. f (erase_sched y) = f y) \<Longrightarrow> \<exists>x'. tcb_heap s1 t = Some x' \<and> f x' = f x"
proof -
  note frame = assms [unfolded turn_frame_def]
  show rest: "ep_heap s1 = ep_heap s" "cte_heap s1 = cte_heap s" "tf_heap s1 = tf_heap s"
    "word_heap s1 = word_heap s" "excaprefs s1 = excaprefs s"
    using sched_frame_rest [OF frame] by simp_all
  show "ep_rep s1 p xs = ep_rep s p xs"
    using sched_frame_links [OF frame] rest(1) by (intro ep_rep_cong) simp_all
  show "\<exists>x'. tcb_heap s1 t = Some x' \<and> f x' = f x"
    if "tcb_heap s t = Some x" "\<And>y. f (erase_sched y) = f y"
    using sched_frame_field [OF frame that(1), of f] that(2) by simp
qed

lemma switch_in_head:
  assumes rep: "ready_rep s (t # xs)"
  shows "\<exists>s1 x. switch_in t (s\<lparr>ksSchedulerAction := SchedulerAction_ChooseNewThread\<rparr>) = Inr s1
    \<and> ready_rep s1 xs \<and> turn_frame s s1 \<and> ksCurThread s1 = t \<and> oldThread s1 = ksCurThread s
    \<and> ksSchedulerAction s1 = SchedulerAction_ChooseNewThread \<and> tcb_heap s1 t = Some x
    \<and> hw_tss s1 = tss_set_rsp 0 (kStack x + PGSIZE) (hw_tss s) \<and> hw_cr3 s1 = v2p (tcb_pml4 x)"
proof -
  let ?s = "s\<lparr>ksSchedulerAction := SchedulerAction_ChooseNewThread\<rparr>"
  have rep': "ready_rep ?s (t # xs)" using rep by simp
  obtain s0 where s0: "tcb_sched_dequeue t ?s = Inr s0" "ready_rep s0 xs"
    using rq.deq_old [OF rep', of t] by auto
  have frame: "sched_frame s s0" using sched_op_frame(3) [OF s0(1)] by simp
  obtain x where "tcb_heap s t = Some x" using ready_repD(3) [OF rep] by auto
  then obtain y where y: "tcb_heap s0 t = Some y" using sched_frame_field [OF frame, of t x "\<lambda>_. ()"] by auto
  define s1 where "s1 = s0\<lparr>oldThread := ksCurThread s0, ksCurThread := t,
    hw_tss := tss_set_rsp 0 (kStack y + PGSIZE) (hw_tss s0), hw_cr3 := v2p (tcb_pml4 y)\<rparr>"
  have "switch_in t ?s = Inr s1"
    using y s0(1) by (simp add: switch_in_def user_switch_vm_def get_tcb_def s1_def Let_def)
  moreover have "s1\<lparr>oldThread := oldThread s, ksCurThread := ksCurThread s, hw_tss := hw_tss s,
      hw_cr3 := hw_cr3 s\<rparr> = s0"
    using sched_frame_rest [OF frame] by (simp add: s1_def)
  then have "turn_frame s s1" using frame by (simp add: turn_frame_def)
  moreover have "ready_rep s1 xs" using s0(2) by (simp add: s1_def ready_rep_def)
  moreover have "ksSchedulerAction s1 = SchedulerAction_ChooseNewThread"
    using sched_op_action(3) [OF s0(1)] by (simp add: s1_def)
  ultimately show ?thesis using y sched_frame_rest(6,9) [OF frame] by (auto simp: s1_def)
qed

lemma turn_head:
  assumes rep: "ready_rep s (t # xs)"
  shows "\<exists>s1. ready_rep s1 xs \<and> turn_frame s s1 \<and> ksCurThread s1 = t
    \<and> ksSchedulerAction s1 = SchedulerAction_ChooseNewThread
    \<and> (\<forall>run. main_loop_body run s = bind_ok (run s1) (\<lambda>s2. Inr (s2\<lparr>hw_cr3 := v2p (kernPml4 s2),
          ksSchedulerAction := SchedulerAction_ResumeCurrentThread\<rparr>)))"
proof -
  obtain s1 where s1: "switch_in t (s\<lparr>ksSchedulerAction := SchedulerAction_ChooseNewThread\<rparr>) = Inr s1"
    "ready_rep s1 xs" "turn_frame s s1" "ksCurThread s1 = t"
    "ksSchedulerAction s1 = SchedulerAction_ChooseNewThread"
    using switch_in_head [OF rep] by blast
  have "main_loop_body run s = bind_ok (run s1) (\<lambda>s2. Inr (s2\<lparr>hw_cr3 := v2p (kernPml4 s2),
          ksSchedulerAction := SchedulerAction_ResumeCurrentThread\<rparr>))" for run
    using ready_repD(1) [OF rep] s1(1) by (simp add: main_loop_body_def schedule_def choose_thread_def
        switch_to_thread_def sched_action_defs kernel_switch_vm_def bind_ok_assoc Let_def)
  with s1(2-5) show ?thesis by blast
qed

subsection \<open>The calls\<close>

lemma holds_endpoint_cong: "cte_heap s' = cte_heap s \<Longrightarrow> holds_endpoint u s' p t = holds_endpoint u s p t"
  by (simp add: holds_endpoint_def lookup_slot_def get_cte_def)

lemma send_call:
  assumes "holds_endpoint u s p t" and "ksCurThread s = t" and "un_slot_status un 0 = u"
  shows "send un 0 s = send_ipc un True False 0 True True t p s"
  using assms by (auto simp: holds_endpoint_def send_def get_cte_def Let_def)

lemma receive_call:
  assumes "holds_endpoint u s p t" and "ksCurThread s = t" and "un_slot_status un 0 = u"
  shows "\<exists>cap. cap_endpoint cap = p \<and> receive un 0 s = receive_ipc un t cap True s"
  using assms by (auto simp: holds_endpoint_def receive_def get_cte_def Let_def)

text \<open>What the two threads need for a message: the sender has no fault, its frame carries the tag, and
  both buffers are mapped and do not overlap.\<close>

definition can_talk :: "kstate \<Rightarrow> Tcb \<Rightarrow> Trapframe \<Rightarrow> Tcb \<Rightarrow> bool" where
  "can_talk s st tf rt \<longleftrightarrow> can_transfer s st tf True rt \<and> tcbBoundNotification rt = 0
     \<and> (\<forall>i j. i < unat (mi_length (sender_tag tf)) \<longrightarrow> j < unat (mi_length (sender_tag tf)) \<longrightarrow>
          word_addr (word_addr (tcbIPCBuffer rt) 1) i \<noteq> word_addr (word_addr (tcbIPCBuffer st) 1) j)"

text \<open>The part of a thread that a message depends on.\<close>

definition talk_fields :: "Tcb \<Rightarrow> u64 \<times> u64 \<times> u64 \<times> OsFaultType \<times> u64 list" where
  "talk_fields t = (tcbIPCBuffer t, tcb_tf t, tcbBoundNotification t, osFaultType (tcbFault t), registers t)"

lemma talk_fields_erase [simp]:
  "talk_fields (erase_sched t) = talk_fields t" "talk_fields (erase_links t) = talk_fields t"
  "talk_fields (block_on_send p b g r d t) = talk_fields t"
  by (simp_all add: talk_fields_def erase_sched_def erase_links_def block_on_send_def)

text \<open>And what a waiting sender remembers.\<close>

definition send_fields :: "Tcb \<Rightarrow> (u64 \<times> u64 \<times> u64 \<times> OsFaultType \<times> u64 list) \<times> bool \<times> bool \<times> u64" where
  "send_fields t = (talk_fields t, blockingIPCIscall (tcbState t), blockingIPCCanGrant (tcbState t),
     blockingIPCBadge (tcbState t))"

lemma send_fields_erase [simp]: "send_fields (erase_sched t) = send_fields t"
  by (simp add: send_fields_def) (simp add: erase_sched_def)

lemma send_fields_eq:
  assumes "send_fields t' = send_fields t"
  shows "talk_fields t' = talk_fields t" "blockingIPCIscall (tcbState t') = blockingIPCIscall (tcbState t)"
    "blockingIPCCanGrant (tcbState t') = blockingIPCCanGrant (tcbState t)"
    "blockingIPCBadge (tcbState t') = blockingIPCBadge (tcbState t)"
  using assms by (simp_all add: send_fields_def)

lemma can_talk_cong:
  assumes "can_talk s st tf rt" and "talk_fields st' = talk_fields st" and "talk_fields rt' = talk_fields rt"
    and "tf_heap s' = tf_heap s" and "word_heap s' = word_heap s" and "excaprefs s' = excaprefs s"
  shows "can_talk s' st' tf rt'"
  using assms by (simp add: can_talk_def can_transfer_def words_at_def talk_fields_def)

subsection \<open>The first turn: sending\<close>

text \<open>What the running thread's send does to an idle endpoint.\<close>

lemma send_effect:
  assumes cur: "ksCurThread s = t" "t \<noteq> 0" "tcb_heap s t = Some x" and hold: "holds_endpoint u s p t"
    and ep: "ep_rep s p []" and ready: "ready_rep s xs"
    and un: "un_slot_status un 0 = u" "append_returns un t s p"
  shows "\<exists>s' x'. send un 0 s = Inr s' \<and> ep_rep s' p [t] \<and> ready_rep s' xs \<and> kframe s s'
    \<and> cte_heap s' = cte_heap s \<and> word_heap s' = word_heap s \<and> excaprefs s' = excaprefs s
    \<and> tcb_heap s' t = Some x' \<and> talk_fields x' = talk_fields x
    \<and> \<not> blockingIPCIscall (tcbState x') \<and> blockingIPCCanGrant (tcbState x')
    \<and> blockingIPCBadge (tcbState x') = 0
    \<and> (\<forall>t' y. t' \<noteq> t \<longrightarrow> tcb_heap s t' = Some y \<longrightarrow>
         (\<exists>y'. tcb_heap s' t' = Some y' \<and> talk_fields y' = talk_fields y))"
proof -
  let ?x = "block_on_send p 0 True True False x"
  obtain ep' where ep': "ep_heap s p = Some ep'" "ep_state ep' \<noteq> EPState_Recv"
    using ep by (auto simp: ep_rep_def)
  obtain s' where s': "send_ipc un True False 0 True True t p s = Inr s'" "ep_rep s' p ([] @ [t])"
    "word_heap s' = word_heap s"
    "same_but_links (s\<lparr>tcb_heap := (tcb_heap s)(t \<mapsto> ?x)\<rparr>) (s'\<lparr>ep_heap := ep_heap s\<rparr>)"
    using send_blocks_frame [OF ep ep' cur(3,2) _ un(2), of False 0 True True] by auto
  note rest = same_but_links_rest [OF s'(4), simplified]
  have call: "send un 0 s = Inr s'" using send_call [OF hold cur(1) un(1)] s'(1) by simp
  then have "kframe s s'" using kf_send_call [of un 0 s] by (simp add: ok_post_def)
  moreover have upd: "ready_rep (s\<lparr>tcb_heap := (tcb_heap s)(t \<mapsto> ?x)\<rparr>) xs"
    by (rule ready_rep_upd [OF ready cur(3)]) (simp_all add: block_on_send_def)
  have "ready_rep s' xs" using same_but_links_ready [OF s'(4) upd] by simp
  moreover obtain x' where x': "tcb_heap s' t = Some x'" "erase_links x' = erase_links ?x"
    using same_but_links_field [OF s'(4), of t ?x erase_links] by auto
  moreover have "talk_fields x' = talk_fields x" using arg_cong [OF x'(2), of talk_fields] by simp
  moreover have "tcbState x' = tcbState ?x" using arg_cong [OF x'(2), of tcbState] by (simp add: erase_links_def)
  then have "\<not> blockingIPCIscall (tcbState x')" "blockingIPCCanGrant (tcbState x')"
    "blockingIPCBadge (tcbState x') = 0" by (simp_all add: block_on_send_def)
  moreover have "\<exists>y'. tcb_heap s' t' = Some y' \<and> talk_fields y' = talk_fields y"
    if "t' \<noteq> t" "tcb_heap s t' = Some y" for t' y
    using that same_but_links_field [OF s'(4), of t' y talk_fields] by auto
  ultimately show ?thesis using call s'(2,3) rest by simp
qed

lemma send_turn:
  assumes ready: "ready_rep k (t0 # xs)" and t0: "holds_endpoint u k p t0" "tcb_heap k t0 = Some st"
    and ep: "ep_rep k p []" and un: "un_slot_status un 0 = u" "append_returns un t0 k p"
  shows "\<exists>k1 st1. main_loop_body (send un 0) k = Inr k1 \<and> ep_rep k1 p [t0] \<and> ready_rep k1 xs
    \<and> cte_heap k1 = cte_heap k \<and> tf_heap k1 = tf_heap k \<and> word_heap k1 = word_heap k
    \<and> excaprefs k1 = excaprefs k
    \<and> tcb_heap k1 t0 = Some st1 \<and> talk_fields st1 = talk_fields st
    \<and> \<not> blockingIPCIscall (tcbState st1) \<and> blockingIPCCanGrant (tcbState st1)
    \<and> blockingIPCBadge (tcbState st1) = 0
    \<and> (\<forall>t x. t \<noteq> t0 \<longrightarrow> tcb_heap k t = Some x \<longrightarrow>
         (\<exists>x'. tcb_heap k1 t = Some x' \<and> talk_fields x' = talk_fields x))"
proof -
  obtain s1 where s1: "ready_rep s1 xs" "turn_frame k s1" "ksCurThread s1 = t0"
    "\<forall>run. main_loop_body run k = bind_ok (run s1) (\<lambda>s2. Inr (s2\<lparr>hw_cr3 := v2p (kernPml4 s2),
          ksSchedulerAction := SchedulerAction_ResumeCurrentThread\<rparr>))"
    using turn_head [OF ready] by blast
  note objs = turn_frame_objects [OF s1(2)]
  obtain x where x: "tcb_heap s1 t0 = Some x" "talk_fields x = talk_fields st"
    using objs(7) [OF t0(2), of talk_fields] by auto
  have "t0 \<noteq> 0" using ready_repD(1) [OF ready] by simp
  moreover have "append_returns un t0 s1 p" using un(2) by (simp add: append_returns_def objs(1))
  moreover have "ep_rep s1 p []" using ep by (simp add: objs(6))
  moreover have "holds_endpoint u s1 p t0" using t0(1) holds_endpoint_cong [OF objs(2)] by simp
  ultimately obtain s2 st1 where s2: "send un 0 s1 = Inr s2" "ep_rep s2 p [t0]" "ready_rep s2 xs" "kframe s1 s2"
    "cte_heap s2 = cte_heap s1" "word_heap s2 = word_heap s1" "excaprefs s2 = excaprefs s1"
    "tcb_heap s2 t0 = Some st1" "talk_fields st1 = talk_fields x"
    "\<not> blockingIPCIscall (tcbState st1)" "blockingIPCCanGrant (tcbState st1)" "blockingIPCBadge (tcbState st1) = 0"
    "\<forall>t' y. t' \<noteq> t0 \<longrightarrow> tcb_heap s1 t' = Some y \<longrightarrow>
         (\<exists>y'. tcb_heap s2 t' = Some y' \<and> talk_fields y' = talk_fields y)"
    using send_effect [OF s1(3) _ x(1) _ _ s1(1) un(1)] by blast
  define k1 where "k1 = s2\<lparr>hw_cr3 := v2p (kernPml4 s2),
    ksSchedulerAction := SchedulerAction_ResumeCurrentThread\<rparr>"
  have "main_loop_body (send un 0) k = Inr k1" using s1(4) s2(1) by (simp add: k1_def)
  moreover have "ep_rep k1 p [t0]" "ready_rep k1 xs"
    using s2(2,3) by (simp_all add: k1_def ep_rep_def ep_links_def ready_rep_def)
  moreover have "\<exists>y'. tcb_heap k1 t = Some y' \<and> talk_fields y' = talk_fields y"
    if t: "t \<noteq> t0" "tcb_heap k t = Some y" for t y
    using objs(7) [OF t(2), of talk_fields] s2(13) t(1) by (fastforce simp: k1_def)
  moreover have "tf_heap s2 = tf_heap s1" using s2(4) by (simp add: kframe_def)
  ultimately show ?thesis
    using s2(5-12) x(2) objs(2-5) by (intro exI [of _ k1] exI [of _ st1]) (simp add: k1_def)
qed

subsection \<open>The second turn: receiving\<close>

text \<open>What the running thread's receive does to an endpoint with one sender.\<close>

lemma receive_effect:
  assumes cur: "ksCurThread s = t1" "tcb_heap s t1 = Some rt" "t1 \<noteq> t0" and hold: "holds_endpoint u s p t1"
    and act: "ksSchedulerAction s = SchedulerAction_ChooseNewThread"
    and t0: "tcb_heap s t0 = Some st" "\<not> blockingIPCIscall (tcbState st)" "blockingIPCCanGrant (tcbState st)"
      "t0 \<noteq> SchedulerAction_ChooseNewThread"
    and ep: "ep_rep s p [t0]" and ready: "ready_rep s []" and talk: "can_talk s st tf rt"
    and un: "un_slot_status un 0 = u"
  shows "\<exists>s' r x. receive un 0 s = Inr s' \<and> ep_rep s' p [] \<and> ready_rep s' [t0] \<and> kframe s s'
    \<and> word_heap s' = message_words st tf rt (word_heap s)
    \<and> tcb_heap s' t1 = Some r \<and> registers r = message_regs un tf (blockingIPCBadge (tcbState st)) rt
    \<and> tcb_heap s' t0 = Some x \<and> tsType (tcbState x) = ThreadState_Running"
proof -
  obtain cap where cap: "cap_endpoint cap = p" "receive un 0 s = receive_ipc un t1 cap True s"
    using receive_call [OF hold cur(1) un] by blast
  have "ep_rep s (cap_endpoint cap) [t0]" using ep by (simp add: cap(1))
  moreover have "ntfn_quiet s rt" using talk by (simp add: can_talk_def ntfn_quiet_def)
  moreover have "can_transfer s st tf (blockingIPCCanGrant (tcbState st)) rt"
    using talk t0(3) by (simp add: can_talk_def)
  moreover have "action_ok s" by (simp add: action_ok_def act)
  ultimately obtain s' ys where s': "receive_ipc un t1 cap True s = Inr s'" "ep_rep s' p []"
    "word_heap s' = message_words st tf rt (word_heap s)"
    "\<exists>r. tcb_heap s' t1 = Some r \<and> registers r = message_regs un tf (blockingIPCBadge (tcbState st)) rt"
    "\<exists>x. tcb_heap s' t0 = Some x \<and> tsType (tcbState x) = ThreadState_Running"
    "ready_rep s' ys" "set ys \<union> action_thread s' = insert t0 (set [] \<union> action_thread s)"
    using receive_first_sender [OF _ cur(2) _ cur(3) t0(1,2,4) _ ready, of cap "[]" tf un True]
    unfolding cap(1) by blast
  have call: "receive un 0 s = Inr s'" using cap(2) s'(1) by simp
  then have "kframe s s'" using kf_receive_call [of un 0 s] by (simp add: ok_post_def)
  moreover from this have "ksSchedulerAction s' = SchedulerAction_ChooseNewThread"
    using act by (simp add: kframe_def)
  then have "set ys = {t0}" using s'(7) act by (simp add: action_thread_def)
  moreover have "distinct ys" using s'(6) by (simp add: ready_rep_def)
  ultimately have "ys = [t0]" "kframe s s'" by (cases ys rule: remdups_adj.cases; auto)+
  with call s'(2-6) show ?thesis by blast
qed

lemma receive_turn:
  assumes ready: "ready_rep k [t1]" and t1: "holds_endpoint u k p t1" "tcb_heap k t1 = Some rt" "t1 \<noteq> t0"
    and t0: "tcb_heap k t0 = Some st" "\<not> blockingIPCIscall (tcbState st)" "blockingIPCCanGrant (tcbState st)"
      "blockingIPCBadge (tcbState st) = badge" "t0 \<noteq> SchedulerAction_ChooseNewThread"
    and ep: "ep_rep k p [t0]" and talk: "can_talk k st tf rt" and un: "un_slot_status un 0 = u"
  shows "\<exists>k1 r x. main_loop_body (receive un 0) k = Inr k1 \<and> ep_rep k1 p [] \<and> ready_rep k1 [t0]
    \<and> word_heap k1 = message_words st tf rt (word_heap k)
    \<and> tcb_heap k1 t1 = Some r \<and> registers r = message_regs un tf badge rt
    \<and> tcb_heap k1 t0 = Some x \<and> tsType (tcbState x) = ThreadState_Running"
proof -
  obtain s1 where s1: "ready_rep s1 []" "turn_frame k s1" "ksCurThread s1 = t1"
    "ksSchedulerAction s1 = SchedulerAction_ChooseNewThread"
    "\<forall>run. main_loop_body run k = bind_ok (run s1) (\<lambda>s2. Inr (s2\<lparr>hw_cr3 := v2p (kernPml4 s2),
          ksSchedulerAction := SchedulerAction_ResumeCurrentThread\<rparr>))"
    using turn_head [OF ready] by blast
  note objs = turn_frame_objects [OF s1(2)]
  obtain rt' where rt': "tcb_heap s1 t1 = Some rt'" "talk_fields rt' = talk_fields rt"
    using objs(7) [OF t1(2), of talk_fields] by auto
  obtain st' where st': "tcb_heap s1 t0 = Some st'" "send_fields st' = send_fields st"
    using objs(7) [OF t0(1), of send_fields] by auto
  note fields = send_fields_eq [OF st'(2)]
  have talk': "can_talk s1 st' tf rt'" using can_talk_cong [OF talk fields(1) rt'(2) objs(3-5)] .
  have hold: "holds_endpoint u s1 p t1" using t1(1) holds_endpoint_cong [OF objs(2)] by simp
  have "ep_rep s1 p [t0]" using ep by (simp add: objs(6))
  then obtain s2 r x where s2: "receive un 0 s1 = Inr s2" "ep_rep s2 p []" "ready_rep s2 [t0]"
    "word_heap s2 = message_words st' tf rt' (word_heap s1)" "tcb_heap s2 t1 = Some r"
    "registers r = message_regs un tf (blockingIPCBadge (tcbState st')) rt'"
    "tcb_heap s2 t0 = Some x" "tsType (tcbState x) = ThreadState_Running"
    using receive_effect [OF s1(3) rt'(1) t1(3) hold s1(4) st'(1) _ _ t0(5) _ s1(1) talk' un] t0(2,3) fields(2,3)
    by (metis (full_types))
  define k1 where "k1 = s2\<lparr>hw_cr3 := v2p (kernPml4 s2),
    ksSchedulerAction := SchedulerAction_ResumeCurrentThread\<rparr>"
  have k1: "main_loop_body (receive un 0) k = Inr k1" using s1(5) s2(1) by (simp add: k1_def)
  have "message_words st' tf rt' = message_words st tf rt" "message_regs un tf b rt' = message_regs un tf b rt" for b
    using rt'(2) fields(1) by (simp_all add: message_words_def message_regs_def talk_fields_def fun_eq_iff)
  then show ?thesis
    using k1 s2(2-8) fields(4) t0(4) unfolding objs(4)
    by (intro exI [of _ k1]) (auto simp: k1_def ep_rep_def ep_links_def ready_rep_def)
qed

subsection \<open>A message from one thread to the other\<close>


text \<open>Two threads with their slots at the beginning of their pages and a CNode each, the ready queue with
  both, and a message of two words in the first one's buffer.\<close>

definition talk_sender :: Tcb where
  "talk_sender = blank_tcb\<lparr>tcb_tf := 0x5000, tcbIPCBuffer := 0x10000, tcbSchedNext := 0xC00,
     tcbState := (tcbState blank_tcb)\<lparr>tcbQueued := True\<rparr>\<rparr>"

definition talk_receiver :: Tcb where
  "talk_receiver = blank_tcb\<lparr>tcbIPCBuffer := 0x20000, tcbSchedPrev := 0x400,
     tcbState := (tcbState blank_tcb)\<lparr>tcbQueued := True\<rparr>\<rparr>"

definition talk_root :: "u64 \<Rightarrow> Cte" where
  "talk_root cnode = zero_cte\<lparr>cte_cap := new_cnode_cap \<lparr>cap_w0 = 0, cap_w1 = 0, cap_w2 = 0\<rparr> (drop_bit 1 cnode) 0\<rparr>"

definition talk_state :: kstate where
  "talk_state = blank_state\<lparr>
     tcb_heap := [0x400 \<mapsto> talk_sender, 0xC00 \<mapsto> talk_receiver], tf_heap := [0x5000 \<mapsto> msg_tf],
     word_heap := [0x10008 \<mapsto> 11, 0x10010 \<mapsto> 22, 0x20008 \<mapsto> 0, 0x20010 \<mapsto> 0],
     ep_heap := [0xFFFFFFFF80300000 \<mapsto> zero_endpoint],
     cte_heap := [0 \<mapsto> talk_root 0xFFFFFFFF80100000, 0x800 \<mapsto> talk_root 0xFFFFFFFF80200000,
       0xFFFFFFFF80100000 \<mapsto> zero_cte\<lparr>cte_cap := call_ep_cap\<rparr>,
       0xFFFFFFFF80200000 \<mapsto> zero_cte\<lparr>cte_cap := call_ep_cap\<rparr>],
     ksReadyQueues := \<lparr>q_head = 0x400, q_end = 0xC00\<rparr>\<rparr>"

lemma talk_state_heaps [simp]:
  "tcb_heap talk_state = [0x400 \<mapsto> talk_sender, 0xC00 \<mapsto> talk_receiver]"
  "tf_heap talk_state = [0x5000 \<mapsto> msg_tf]" "ep_heap talk_state = [0xFFFFFFFF80300000 \<mapsto> zero_endpoint]"
  "word_heap talk_state = [0x10008 \<mapsto> 11, 0x10010 \<mapsto> 22, 0x20008 \<mapsto> 0, 0x20010 \<mapsto> 0]"
  "excaprefs talk_state = [0, 0, 0]" "ksReadyQueues talk_state = \<lparr>q_head = 0x400, q_end = 0xC00\<rparr>"
  by (simp_all add: talk_state_def blank_state_def)

lemma talk_holds:
  "holds_endpoint 0 talk_state 0xFFFFFFFF80300000 0x400" "holds_endpoint 0 talk_state 0xFFFFFFFF80300000 0xC00"
proof -
  have root: "ucast (push_bit 1 (capCNodePtr (CNodeCap_of_Cap (cte_cap (talk_root 0xFFFFFFFF80100000)))))
      OR 0xFFFF800000000000 = (0xFFFFFFFF80100000 :: u64)"
    "ucast (push_bit 1 (capCNodePtr (CNodeCap_of_Cap (cte_cap (talk_root 0xFFFFFFFF80200000)))))
      OR 0xFFFF800000000000 = (0xFFFFFFFF80200000 :: u64)"
    unfolding talk_root_def zero_cte_def by code_simp+
  have at: "cte_heap talk_state 0 = Some (talk_root 0xFFFFFFFF80100000)"
    "cte_heap talk_state 0x800 = Some (talk_root 0xFFFFFFFF80200000)"
    "cte_heap talk_state 0xFFFFFFFF80100000 = Some (zero_cte\<lparr>cte_cap := call_ep_cap\<rparr>)"
    "cte_heap talk_state 0xFFFFFFFF80200000 = Some (zero_cte\<lparr>cte_cap := call_ep_cap\<rparr>)"
    by (simp_all add: talk_state_def)
  have slots: "lookup_slot 0 0x400 0 talk_state = Inr \<lparr>lus_status = 0, lus_slot = 0xFFFFFFFF80100000\<rparr>"
    "lookup_slot 0 0xC00 0 talk_state = Inr \<lparr>lus_status = 0, lus_slot = 0xFFFFFFFF80200000\<rparr>"
    using root at by (simp_all add: lookup_slot_def get_cte_def TCB_PTR_CTE_PTR_def OsTCBBits_def
        mask_eq_exp_minus_1 Let_def)
  have cap: "cap_endpoint call_ep_cap = 0xFFFFFFFF80300000" by (rule call_slot(2))
  show "holds_endpoint 0 talk_state 0xFFFFFFFF80300000 0x400" "holds_endpoint 0 talk_state 0xFFFFFFFF80300000 0xC00"
    unfolding holds_endpoint_def slots
    using at(3,4) cap new_endpoint_cap_rights by (auto simp: call_ep_cap_def)
qed


end
