(* ===== verification/Cpu.thy ===== *)
theory Cpu
  imports Syscall
begin

text \<open>
  The assembly paths between a user program, the kernel's C code and the scheduler:
  \<open>alltraps\<close> and \<open>trapret\<close> of \<open>src/arch/x86/64/kernel/trapasm.S\<close>, \<open>swtch\<close> of \<open>src/kernel/swtch.S\<close>, the
  call stubs of \<open>src/kernel/usys.S\<close> and the entry of a vector as \<open>tools/vectors64.pl\<close> prints it. Each
  routine is the list of its instructions, executed on the general registers, the five registers
  that an interrupt saves, and a memory of 64-bit words.
\<close>

subsection \<open>The processor\<close>

datatype reg = Rax | Rbx | Rcx | Rdx | Rbp | Rsi | Rdi | R8' | R9' | R10' | R11' | R12' | R13' | R14' | R15'

record cpu =
  gpr :: "reg \<Rightarrow> u64"
  cpu_rip :: u64
  cpu_cs :: u64
  cpu_flags :: u64
  cpu_rsp :: u64
  cpu_ss :: u64
  mem :: "u64 \<rightharpoonup> u64"

datatype instr =
    PUSH reg | PUSH_IMM u64 | POP reg
  | MOV_FROM_SP reg          \<comment> \<open>\<open>mov %rsp, %r\<close>\<close>
  | STORE_SP reg             \<comment> \<open>\<open>mov %rsp, (%r)\<close>\<close>
  | LOAD_SP reg              \<comment> \<open>\<open>mov %r, %rsp\<close>\<close>
  | ADD_SP u64 | MOVL u32 reg | RET | IRETQ

definition store_word64 :: "u64 \<Rightarrow> u64 \<Rightarrow> cpu \<Rightarrow> kerror + cpu" where
  "store_word64 a w c = (if mem c a = None then Inl (BadPtr a) else Inr (c\<lparr>mem := (mem c)(a \<mapsto> w)\<rparr>))"

definition push_word :: "u64 \<Rightarrow> cpu \<Rightarrow> kerror + cpu" where
  "push_word w c = (let sp = cpu_rsp c - 8 in
     bind_ok (store_word64 sp w c) (\<lambda>c. Inr (c\<lparr>cpu_rsp := sp\<rparr>)))"

definition pop_word :: "cpu \<Rightarrow> kerror + u64 \<times> cpu" where
  "pop_word c = (case mem c (cpu_rsp c) of
     None \<Rightarrow> Inl (BadPtr (cpu_rsp c)) | Some w \<Rightarrow> Inr (w, c\<lparr>cpu_rsp := cpu_rsp c + 8\<rparr>))"

definition set_gpr :: "reg \<Rightarrow> u64 \<Rightarrow> cpu \<Rightarrow> cpu" where
  "set_gpr r w c = c\<lparr>gpr := (gpr c)(r := w)\<rparr>"

text \<open>\<open>movl\<close> into a 32-bit register clears the upper half. The checks that \<open>iretq\<close> makes of the
  selectors and the flags are not modelled.\<close>

fun step :: "instr \<Rightarrow> cpu \<Rightarrow> kerror + cpu" where
  "step (PUSH r) c = push_word (gpr c r) c"
| "step (PUSH_IMM w) c = push_word w c"
| "step (POP r) c = bind_ok (pop_word c) (\<lambda>(w, c). Inr (set_gpr r w c))"
| "step (MOV_FROM_SP r) c = Inr (set_gpr r (cpu_rsp c) c)"
| "step (STORE_SP r) c = store_word64 (gpr c r) (cpu_rsp c) c"
| "step (LOAD_SP r) c = Inr (c\<lparr>cpu_rsp := gpr c r\<rparr>)"
| "step (ADD_SP n) c = Inr (c\<lparr>cpu_rsp := cpu_rsp c + n\<rparr>)"
| "step (MOVL w r) c = Inr (set_gpr r (ucast w) c)"
| "step RET c = bind_ok (pop_word c) (\<lambda>(w, c). Inr (c\<lparr>cpu_rip := w\<rparr>))"
| "step IRETQ c =
     bind_ok (pop_word c) (\<lambda>(ip, c). bind_ok (pop_word c) (\<lambda>(cs, c). bind_ok (pop_word c) (\<lambda>(fl, c).
     bind_ok (pop_word c) (\<lambda>(sp, c). bind_ok (pop_word c) (\<lambda>(ss, c).
     Inr (c\<lparr>cpu_rip := ip, cpu_cs := cs, cpu_flags := fl, cpu_rsp := sp, cpu_ss := ss\<rparr>))))))"

abbreviation exec :: "instr list \<Rightarrow> cpu \<Rightarrow> kerror + cpu" where "exec \<equiv> fold_ok step"

subsection \<open>The routines\<close>

definition swtch :: "instr list" where
  "swtch =
     [PUSH Rbp, PUSH Rbx, PUSH R11', PUSH R12', PUSH R13', PUSH R14', PUSH R15',
      STORE_SP Rdi, LOAD_SP Rsi,
      POP R15', POP R14', POP R13', POP R12', POP R11', POP Rbx, POP Rbp, RET]"

definition alltraps :: "instr list" where
  "alltraps =
     [PUSH R15', PUSH R14', PUSH R13', PUSH R12', PUSH R11', PUSH R10', PUSH R9', PUSH R8',
      PUSH Rdi, PUSH Rsi, PUSH Rbp, PUSH Rdx, PUSH Rcx, PUSH Rbx, PUSH Rax, MOV_FROM_SP Rdi]"

definition trapret :: "instr list" where
  "trapret =
     [POP Rax, POP Rbx, POP Rcx, POP Rdx, POP Rbp, POP Rsi, POP Rdi, POP R8', POP R9', POP R10',
      POP R11', POP R12', POP R13', POP R14', POP R15', ADD_SP 16, IRETQ]"

text \<open>The vectors for which the processor pushes an error code, and the entry of vector \<open>n\<close>, which
  pushes a zero in its place for the others.\<close>

definition has_error :: "nat \<Rightarrow> bool" where
  "has_error n \<longleftrightarrow> n = 8 \<or> (10 \<le> n \<and> n \<le> 14) \<or> n = 17"

definition vector :: "nat \<Rightarrow> instr list" where
  "vector n = (if has_error n then [] else [PUSH_IMM 0]) @ [PUSH_IMM (of_nat n)]"

text \<open>A call stub up to its \<open>int\<close> instruction.\<close>

definition usys :: "u32 \<Rightarrow> instr list" where "usys n = [MOVL n Rax]"

text \<open>An interrupt that arrives in user mode: the processor switches to the stack of the task state
  segment, aligned to 16 bytes, saves the five registers, and enters the kernel's code segment. An
  error code follows where the vector has one. The handler's flags \<open>fl\<close> are the processor's.\<close>

definition interrupt :: "u64 \<Rightarrow> u64 \<Rightarrow> u64 \<Rightarrow> u64 list \<Rightarrow> cpu \<Rightarrow> kerror + cpu" where
  "interrupt rsp0 handler fl err c =
     bind_ok (fold_ok push_word ([cpu_ss c, cpu_rsp c, cpu_flags c, cpu_cs c, cpu_rip c] @ err)
       (c\<lparr>cpu_rsp := rsp0 AND NOT 15\<rparr>)) (\<lambda>c.
     Inr (c\<lparr>cpu_ss := 0, cpu_cs := 8, cpu_flags := fl, cpu_rip := handler\<rparr>))"

subsection \<open>Blocks of words\<close>

definition holds :: "(u64 \<rightharpoonup> u64) \<Rightarrow> u64 \<Rightarrow> u64 list \<Rightarrow> bool" where
  "holds m a ws \<longleftrightarrow> (\<forall>i<length ws. m (a + 8 * of_nat i) = Some (ws ! i))"

lemma holds_Nil [simp]: "holds m a []"
  by (simp add: holds_def)

lemma holds_Cons: "holds m a (w # ws) \<longleftrightarrow> m a = Some w \<and> holds m (a + 8) ws"
  by (simp add: holds_def All_less_Suc2 add.assoc)

lemma holds_append:
  "holds m a (us @ ws) \<longleftrightarrow> holds m a us \<and> holds m (a + 8 * of_nat (length us)) ws"
  by (induction us arbitrary: a) (auto simp: holds_Cons algebra_simps)

text \<open>A write outside the block.\<close>

definition block_at :: "u64 \<Rightarrow> nat \<Rightarrow> u64 set" where
  "block_at a n = (\<lambda>i. a + 8 * of_nat i) ` {..<n}"

lemma block_at_Suc: "block_at a (Suc n) = insert a (block_at (a + 8) n)"
proof -
  have "{..<Suc n} = insert 0 (Suc ` {..<n})" by (auto simp: less_Suc_eq_0_disj)
  then show ?thesis by (simp add: block_at_def image_image algebra_simps)
qed

lemma holds_cong: "(\<And>p. p \<in> block_at a (length ws) \<Longrightarrow> m' p = m p) \<Longrightarrow> holds m' a ws = holds m a ws"
  by (auto simp: holds_def block_at_def)

lemma below_not_in_block:
  assumes "n \<le> 2 ^ 60"
  shows "a - 8 \<notin> block_at a n"
proof
  assume "a - 8 \<in> block_at a n"
  then obtain i where i: "i < n" "a - 8 = a + 8 * of_nat i" by (auto simp: block_at_def)
  have "8 * of_nat i + 8 = (a + 8 * of_nat i) - (a - 8)" by simp
  also have "\<dots> = 0" using i(2) by simp
  finally have "(of_nat (8 * i + 8) :: u64) = 0" by simp
  then have "2 ^ 64 dvd 8 * i + 8" by (simp only: word_of_nat_eq_0_iff) simp
  moreover have "8 * i + 8 < 2 ^ 64" using i(1) assms by simp
  ultimately show False using nat_dvd_not_less [of "8 * i + 8" "2 ^ 64"] by simp
qed

subsection \<open>Runs of pushes and pops\<close>

lemma block_at_bound:
  "n \<le> k \<Longrightarrow> block_at a n \<subseteq> block_at a k"
  by (auto simp: block_at_def)

lemma push_word_ok:
  "mem c (cpu_rsp c - 8) \<noteq> None \<Longrightarrow>
    push_word w c = Inr (c\<lparr>mem := (mem c)(cpu_rsp c - 8 \<mapsto> w), cpu_rsp := cpu_rsp c - 8\<rparr>)"
  by (simp add: push_word_def store_word64_def Let_def)

lemma pushes:
  assumes "block_at (cpu_rsp c - 8 * of_nat (length ws)) (length ws) \<subseteq> dom (mem c)"
    and "holds (mem c) (cpu_rsp c) vs" and "length ws + length vs \<le> 2 ^ 60"
  shows "\<exists>m. fold_ok push_word ws c = Inr (c\<lparr>mem := m, cpu_rsp := cpu_rsp c - 8 * of_nat (length ws)\<rparr>)
    \<and> holds m (cpu_rsp c - 8 * of_nat (length ws)) (rev ws @ vs) \<and> dom m = dom (mem c)
    \<and> (\<forall>p. p \<notin> block_at (cpu_rsp c - 8 * of_nat (length ws)) (length ws) \<longrightarrow> m p = mem c p)"
  using assms
proof (induction ws arbitrary: c vs)
  case Nil
  then show ?case by (intro exI [of _ "mem c"]) simp
next
  case (Cons w ws)
  let ?n = "length ws" and ?sp = "cpu_rsp c - 8"
  let ?b = "?sp - 8 * of_nat ?n"
  have base: "cpu_rsp c - 8 * of_nat (length (w # ws)) = ?b" by (simp add: algebra_simps)
  have top: "block_at ?b (Suc ?n) = insert ?sp (block_at ?b ?n)"
    by (simp add: block_at_def lessThan_Suc)
  let ?c = "c\<lparr>mem := (mem c)(?sp \<mapsto> w), cpu_rsp := ?sp\<rparr>"
  have sub: "block_at ?b (Suc ?n) \<subseteq> dom (mem c)" using Cons.prems(1) unfolding base by simp
  have "mem c ?sp \<noteq> None" using sub unfolding top by auto
  then have step: "push_word w c = Inr ?c" by (rule push_word_ok)
  have "?sp \<notin> block_at (cpu_rsp c) (length vs)" using Cons.prems(3) by (intro below_not_in_block) simp
  then have "holds (mem ?c) (cpu_rsp c) vs = holds (mem c) (cpu_rsp c) vs"
    by (intro holds_cong) auto
  then have "holds (mem ?c) (cpu_rsp ?c) (w # vs)" using Cons.prems(2) by (simp add: holds_Cons)
  moreover have "block_at (cpu_rsp ?c - 8 * of_nat ?n) ?n \<subseteq> dom (mem ?c)" using sub unfolding top by auto
  moreover have "?n + length (w # vs) \<le> 2 ^ 60" using Cons.prems(3) by simp
  ultimately obtain m where m: "fold_ok push_word ws ?c = Inr (?c\<lparr>mem := m, cpu_rsp := ?b\<rparr>)"
    "holds m ?b (rev ws @ w # vs)" "dom m = dom (mem ?c)"
    "\<forall>p. p \<notin> block_at ?b ?n \<longrightarrow> m p = mem ?c p"
    using Cons.IH [of ?c "w # vs"] by (simp del: fun_upd_apply) blast
  have "dom m = dom (mem c)" using m(3) \<open>mem c ?sp \<noteq> None\<close> by auto
  moreover have "\<forall>p. p \<notin> block_at ?b (Suc ?n) \<longrightarrow> m p = mem c p" using m(4) unfolding top by simp
  ultimately show ?case
    unfolding base using m(1,2) step by (intro exI [of _ m]) simp
qed

lemma push_word_gpr: "push_word w c = Inr c' \<Longrightarrow> gpr c' = gpr c"
  by (auto simp: push_word_def store_word64_def Let_def bind_ok_Inr_iff split: if_splits)

lemma exec_pushes: "exec (map PUSH rs) c = fold_ok push_word (map (gpr c) rs) c"
proof (induction rs arbitrary: c)
  case (Cons r rs)
  then show ?case
    by (cases "push_word (gpr c r) c") (auto dest: push_word_gpr)
qed simp

primrec load_regs :: "reg list \<Rightarrow> u64 list \<Rightarrow> (reg \<Rightarrow> u64) \<Rightarrow> reg \<Rightarrow> u64" where
  "load_regs [] vs g = g"
| "load_regs (r # rs) vs g = load_regs rs (tl vs) (g(r := hd vs))"

lemma exec_pops:
  "holds (mem c) (cpu_rsp c) vs \<Longrightarrow> length vs = length rs \<Longrightarrow>
    exec (map POP rs) c
      = Inr (c\<lparr>gpr := load_regs rs vs (gpr c), cpu_rsp := cpu_rsp c + 8 * of_nat (length rs)\<rparr>)"
proof (induction rs arbitrary: c vs)
  case (Cons r rs)
  obtain v us where vs: "vs = v # us" using Cons.prems(2) by (cases vs) auto
  let ?c = "set_gpr r v (c\<lparr>cpu_rsp := cpu_rsp c + 8\<rparr>)"
  have "step (POP r) c = Inr ?c" using Cons.prems(1) by (simp add: vs holds_Cons pop_word_def)
  moreover have "exec (map POP rs) ?c = Inr (?c\<lparr>gpr := load_regs rs us (gpr ?c),
      cpu_rsp := cpu_rsp ?c + 8 * of_nat (length rs)\<rparr>)"
    using Cons.prems by (intro Cons.IH) (simp_all add: vs holds_Cons set_gpr_def)
  ultimately show ?case by (simp add: vs set_gpr_def algebra_simps)
qed simp

subsection \<open>The context switch\<close>

definition context_words :: "Context \<Rightarrow> u64 list" where
  "context_words x = [ctx_r15 x, ctx_r14 x, ctx_r13 x, ctx_r12 x, ctx_r11 x, ctx_rbx x, ctx_rbp x, ctx_rip x]"

text \<open>The context that \<open>swtch\<close> leaves on the stack, above the return address \<open>ret\<close>.\<close>

definition saved_context :: "cpu \<Rightarrow> u64 \<Rightarrow> Context" where
  "saved_context c ret = \<lparr>ctx_r15 = gpr c R15', ctx_r14 = gpr c R14', ctx_r13 = gpr c R13',
     ctx_r12 = gpr c R12', ctx_r11 = gpr c R11', ctx_rbx = gpr c Rbx, ctx_rbp = gpr c Rbp, ctx_rip = ret\<rparr>"

definition callee_saved :: "reg list" where
  "callee_saved = [R15', R14', R13', R12', R11', Rbx, Rbp]"

lemma swtch_parts:
  "swtch = map PUSH (rev callee_saved) @ [STORE_SP Rdi, LOAD_SP Rsi] @ map POP callee_saved @ [RET]"
  by (simp add: swtch_def callee_saved_def)

text \<open>What \<open>swtch\<close> needs: room for seven words below the return address, and a cell for the pointer
  and a context to load that do not lie in that room.\<close>

definition can_switch :: "cpu \<Rightarrow> u64 \<Rightarrow> Context \<Rightarrow> bool" where
  "can_switch c ret x \<longleftrightarrow> (let frame = block_at (cpu_rsp c - 56) 8; target = block_at (gpr c Rsi) 8 in
     frame \<subseteq> dom (mem c) \<and> mem c (cpu_rsp c) = Some ret
     \<and> gpr c Rdi \<in> dom (mem c) \<and> gpr c Rdi \<notin> frame
     \<and> holds (mem c) (gpr c Rsi) (context_words x) \<and> gpr c Rdi \<notin> target \<and> target \<inter> frame = {})"

definition switched :: "cpu \<Rightarrow> Context \<Rightarrow> (u64 \<rightharpoonup> u64) \<Rightarrow> cpu" where
  "switched c x m = c\<lparr>gpr := load_regs callee_saved (context_words x) (gpr c), cpu_rsp := gpr c Rsi + 64,
     cpu_rip := ctx_rip x, mem := m\<rparr>"

lemma swtch_spec:
  assumes "can_switch c ret x"
  shows "\<exists>m. exec swtch c = Inr (switched c x m) \<and> m (gpr c Rdi) = Some (cpu_rsp c - 56)
    \<and> holds m (cpu_rsp c - 56) (context_words (saved_context c ret)) \<and> dom m = dom (mem c)
    \<and> (\<forall>p. p \<noteq> gpr c Rdi \<longrightarrow> p \<notin> block_at (cpu_rsp c - 56) 7 \<longrightarrow> m p = mem c p)"
proof -
  let ?sp = "cpu_rsp c - 56" and ?ws = "map (gpr c) (rev callee_saved)"
  note can = assms [unfolded can_switch_def Let_def]
  have len: "length ?ws = 7" by (simp add: callee_saved_def)
  have sub: "block_at ?sp 7 \<subseteq> block_at ?sp 8" by (rule block_at_bound) simp
  obtain m where m: "exec (map PUSH (rev callee_saved)) c = Inr (c\<lparr>mem := m, cpu_rsp := ?sp\<rparr>)"
    "holds m ?sp (rev ?ws @ [ret])" "dom m = dom (mem c)" "\<forall>p. p \<notin> block_at ?sp 7 \<longrightarrow> m p = mem c p"
    using pushes [of c ?ws "[ret]"] can sub unfolding exec_pushes len by (auto simp: holds_Cons)
  let ?m = "m(gpr c Rdi \<mapsto> ?sp)"
  have regs: "rev ?ws @ [ret] = context_words (saved_context c ret)"
    by (simp add: callee_saved_def context_words_def saved_context_def)
  have eight: "length (context_words y) = 8" for y by (simp add: context_words_def)
  have keep: "holds ?m ?sp (context_words (saved_context c ret))"
    using m(2) can unfolding regs
    by (subst holds_cong [where m = m]) (auto simp: eight)
  have load: "holds ?m (gpr c Rsi) (context_words x)"
    using can m(4) sub by (subst holds_cong [where m = "mem c"]) (auto simp: eight)
  let ?c = "c\<lparr>mem := ?m, cpu_rsp := gpr c Rsi\<rparr>"
  obtain ip vs where x: "context_words x = vs @ [ip]" "ip = ctx_rip x" "length vs = 7"
    by (simp add: context_words_def)
  have words: "holds (mem ?c) (cpu_rsp ?c) vs" "?m (gpr c Rsi + 56) = Some ip"
    using load x(3) by (simp_all add: x(1) holds_append holds_Cons del: fun_upd_apply)
  have regs7: "length callee_saved = 7" by (simp add: callee_saved_def)
  have "exec (map POP callee_saved) ?c
      = Inr (?c\<lparr>gpr := load_regs callee_saved vs (gpr ?c), cpu_rsp := gpr c Rsi + 56\<rparr>)"
    using exec_pops [OF words(1), of callee_saved] x(3) regs7 by simp
  then have "exec (map POP callee_saved @ [RET]) ?c = Inr (?c\<lparr>gpr := load_regs callee_saved vs (gpr ?c),
      cpu_rsp := gpr c Rsi + 64, cpu_rip := ip\<rparr>)"
    using words(2) by (simp add: fold_ok_append pop_word_def del: fun_upd_apply)
  moreover have "load_regs callee_saved vs g = load_regs callee_saved (context_words x) g" for g
    using x(1,3) by (auto simp: callee_saved_def context_words_def)
  moreover have "mem (c\<lparr>mem := m, cpu_rsp := ?sp\<rparr>) (gpr c Rdi) \<noteq> None" using can m(3) by auto
  ultimately have "exec swtch c = Inr (switched c x ?m)"
    unfolding swtch_parts
    by (simp add: fold_ok_append m(1) store_word64_def switched_def x(2) del: fun_upd_apply)
  moreover have "dom ?m = dom (mem c)" using can m(3) by auto
  ultimately show ?thesis using keep m(4) by (intro exI [of _ ?m]) auto
qed

end
