(* ===== verification/TrapProps.thy ===== *)
theory TrapProps
  imports Cpu SyscallProps
begin

text \<open>
  The way of a user program into the kernel and back, and the switch between kernel stacks: the
  assembly routines of \<open>Cpu\<close> around the C function \<open>trap\<close> of \<open>Syscall\<close>. The trap frame on the stack
  is the structure that \<open>trap\<close> receives; it is read into the heap of trap frames when the C code
  starts and written back to the stack when it returns.
\<close>

subsection \<open>Trap frames as words\<close>

definition frame_words :: "Trapframe \<Rightarrow> u64 list" where
  "frame_words f =
     [tf_rax f, tf_rbx f, tf_rcx f, tf_rdx f, tf_rbp f, tf_rsi f, tf_rdi f, tf_r8 f, tf_r9 f, tf_r10 f,
      tf_r11 f, tf_r12 f, tf_r13 f, tf_r14 f, tf_r15 f, tf_trapno f, tf_err f, tf_rip f, tf_cs f,
      tf_eflags f, tf_rsp f, tf_ds f]"

definition frame_of_words :: "u64 list \<Rightarrow> Trapframe" where
  "frame_of_words ws =
     \<lparr>tf_rax = ws ! 0, tf_rbx = ws ! 1, tf_rcx = ws ! 2, tf_rdx = ws ! 3, tf_rbp = ws ! 4,
      tf_rsi = ws ! 5, tf_rdi = ws ! 6, tf_r8 = ws ! 7, tf_r9 = ws ! 8, tf_r10 = ws ! 9,
      tf_r11 = ws ! 10, tf_r12 = ws ! 11, tf_r13 = ws ! 12, tf_r14 = ws ! 13, tf_r15 = ws ! 14,
      tf_trapno = ws ! 15, tf_err = ws ! 16, tf_rip = ws ! 17, tf_cs = ws ! 18, tf_eflags = ws ! 19,
      tf_rsp = ws ! 20, tf_ds = ws ! 21\<rparr>"

lemma frame_of_frame_words [simp]: "frame_of_words (frame_words f) = f"
  by (simp add: frame_of_words_def frame_words_def)

lemma length_frame_words [simp]: "length (frame_words f) = 22"
  by (simp add: frame_words_def)

primrec load_words :: "nat \<Rightarrow> (u64 \<rightharpoonup> u64) \<Rightarrow> u64 \<Rightarrow> kerror + u64 list" where
  "load_words 0 m a = Inr []"
| "load_words (Suc n) m a = (case m a of None \<Rightarrow> Inl (BadPtr a)
     | Some w \<Rightarrow> bind_ok (load_words n m (a + 8)) (\<lambda>ws. Inr (w # ws)))"

primrec store_words :: "u64 list \<Rightarrow> u64 \<Rightarrow> (u64 \<rightharpoonup> u64) \<Rightarrow> (u64 \<rightharpoonup> u64)" where
  "store_words [] a m = m"
| "store_words (w # ws) a m = store_words ws (a + 8) (m(a \<mapsto> w))"

lemma load_words_holds: "holds m a ws \<Longrightarrow> load_words (length ws) m a = Inr ws"
  by (induction ws arbitrary: a) (simp_all add: holds_Cons)

lemma store_words_other: "p \<notin> block_at a (length ws) \<Longrightarrow> store_words ws a m p = m p"
  by (induction ws arbitrary: a m) (simp_all add: block_at_Suc)

lemma holds_store_words: "length ws \<le> 2 ^ 60 \<Longrightarrow> holds (store_words ws a m) a ws"
proof (induction ws arbitrary: a m)
  case (Cons w ws)
  have "(a + 8) - 8 \<notin> block_at (a + 8) (length ws)" using Cons.prems by (intro below_not_in_block) simp
  then have "store_words ws (a + 8) (m(a \<mapsto> w)) a = Some w" by (simp add: store_words_other)
  then show ?case using Cons by (simp add: holds_Cons)
qed simp

subsection \<open>A trap from user mode\<close>

text \<open>\<open>call trap\<close> with the frame at \<open>rdi\<close>. The call uses the stack below the frame only.\<close>

definition with_frame :: "u64 \<Rightarrow> Trapframe \<Rightarrow> machine \<Rightarrow> machine" where
  "with_frame a f M = M\<lparr>kern := (kern M)\<lparr>tf_heap := (tf_heap (kern M))(a \<mapsto> f)\<rparr>\<rparr>"

definition call_trap :: "Uninit \<Rightarrow> u32 \<Rightarrow> cpu \<Rightarrow> machine \<Rightarrow> kerror + cpu outcome" where
  "call_trap un u c M =
     (let a = gpr c Rdi in
     bind_ok (load_words 22 (mem c) a) (\<lambda>ws.
     bind_ok (trap un u a (with_frame a (frame_of_words ws) M)) (\<lambda>r. case r of
       Returns _ M \<Rightarrow> bind_ok (get_tf (kern M) a) (\<lambda>f.
         Inr (Returns (c\<lparr>mem := store_words (frame_words f) a (mem c)\<rparr>) M))
     | Switches x M \<Rightarrow> Inr (Switches x M))))"

definition user_trap ::
    "Uninit \<Rightarrow> u32 \<Rightarrow> u64 \<Rightarrow> u64 \<Rightarrow> u64 \<Rightarrow> nat \<Rightarrow> u64 list \<Rightarrow> cpu \<Rightarrow> machine \<Rightarrow> kerror + cpu outcome" where
  "user_trap un u rsp0 handler fl n err c M =
     bind_ok (interrupt rsp0 handler fl err c) (\<lambda>c.
     bind_ok (exec (vector n @ alltraps) c) (\<lambda>c.
     bind_ok (call_trap un u c M) (\<lambda>r. case r of
       Returns c M \<Rightarrow> bind_ok (exec trapret c) (\<lambda>c. Inr (Returns c M))
     | Switches x M \<Rightarrow> Inr (Switches x M))))"

text \<open>The frame that a trap builds.\<close>

definition trap_frame :: "cpu \<Rightarrow> nat \<Rightarrow> u64 list \<Rightarrow> Trapframe" where
  "trap_frame c n err =
     \<lparr>tf_rax = gpr c Rax, tf_rbx = gpr c Rbx, tf_rcx = gpr c Rcx, tf_rdx = gpr c Rdx, tf_rbp = gpr c Rbp,
      tf_rsi = gpr c Rsi, tf_rdi = gpr c Rdi, tf_r8 = gpr c R8', tf_r9 = gpr c R9', tf_r10 = gpr c R10',
      tf_r11 = gpr c R11', tf_r12 = gpr c R12', tf_r13 = gpr c R13', tf_r14 = gpr c R14',
      tf_r15 = gpr c R15', tf_trapno = of_nat n, tf_err = (if has_error n then hd err else 0),
      tf_rip = cpu_rip c, tf_cs = cpu_cs c, tf_eflags = cpu_flags c, tf_rsp = cpu_rsp c, tf_ds = cpu_ss c\<rparr>"

definition user_regs :: "reg list" where
  "user_regs = [Rax, Rbx, Rcx, Rdx, Rbp, Rsi, Rdi, R8', R9', R10', R11', R12', R13', R14', R15']"

lemma alltraps_parts: "alltraps = map PUSH (rev user_regs) @ [MOV_FROM_SP Rdi]"
  by (simp add: alltraps_def user_regs_def)

lemma trapret_parts: "trapret = map POP user_regs @ [ADD_SP 16, IRETQ]"
  by (simp add: trapret_def user_regs_def)

lemma bind_ok_cong: "(\<And>x. m = Inr x \<Longrightarrow> f x = g x) \<Longrightarrow> bind_ok m f = bind_ok m g"
  by (cases m) simp_all

lemma pushes_gpr: "fold_ok push_word ws c = Inr c' \<Longrightarrow> gpr c' = gpr c"
  by (induction ws arbitrary: c) (auto simp: bind_ok_Inr_iff dest!: push_word_gpr)

definition enter :: "u64 \<Rightarrow> u64 \<Rightarrow> cpu \<Rightarrow> cpu" where
  "enter handler fl c = c\<lparr>cpu_ss := 0, cpu_cs := 8, cpu_flags := fl, cpu_rip := handler\<rparr>"

lemma push_enter: "push_word w (enter h fl c) = bind_ok (push_word w c) (\<lambda>c. Inr (enter h fl c))"
  by (simp add: push_word_def store_word64_def enter_def Let_def)

lemma pushes_enter:
  "fold_ok push_word ws (enter h fl c) = bind_ok (fold_ok push_word ws c) (\<lambda>c. Inr (enter h fl c))"
proof (induction ws arbitrary: c)
  case (Cons w ws)
  then show ?case by (cases "push_word w c") (simp_all add: push_enter)
qed simp

lemma exec_push_imm: "exec (map PUSH_IMM ws) c = fold_ok push_word ws c"
proof (induction ws arbitrary: c)
  case (Cons w ws)
  then show ?case by (cases "push_word w c") simp_all
qed simp

lemma exec_vector:
  "exec (vector n) c = fold_ok push_word ((if has_error n then [] else [0]) @ [of_nat n]) c"
proof -
  have "vector n = map PUSH_IMM ((if has_error n then [] else [0]) @ [of_nat n])" by (simp add: vector_def)
  then show ?thesis by (simp only: exec_push_imm)
qed

lemma exec_alltraps:
  "exec alltraps c = bind_ok (fold_ok push_word (map (gpr c) (rev user_regs)) c)
     (\<lambda>c. Inr (set_gpr Rdi (cpu_rsp c) c))"
proof -
  have "exec [MOV_FROM_SP Rdi] = (\<lambda>c. Inr (set_gpr Rdi (cpu_rsp c) c))" by (simp add: fun_eq_iff)
  then show ?thesis by (simp only: alltraps_parts fold_ok_append exec_pushes)
qed

lemma exec_entry:
  "exec (vector n @ alltraps) c = bind_ok (fold_ok push_word ((if has_error n then [] else [0]) @ [of_nat n]
      @ map (gpr c) (rev user_regs)) c) (\<lambda>c. Inr (set_gpr Rdi (cpu_rsp c) c))"
proof -
  let ?v = "(if has_error n then [] else [0]) @ [of_nat n] :: u64 list"
  have "exec (vector n @ alltraps) c = bind_ok (fold_ok push_word ?v c) (\<lambda>x.
      bind_ok (fold_ok push_word (map (gpr x) (rev user_regs)) x) (\<lambda>c. Inr (set_gpr Rdi (cpu_rsp c) c)))"
    by (simp only: fold_ok_append exec_vector exec_alltraps [abs_def])
  also have "\<dots> = bind_ok (fold_ok push_word ?v c) (\<lambda>x.
      bind_ok (fold_ok push_word (map (gpr c) (rev user_regs)) x) (\<lambda>c. Inr (set_gpr Rdi (cpu_rsp c) c)))"
    by (rule bind_ok_cong) (simp only: pushes_gpr)
  finally show ?thesis by (simp only: append_assoc [symmetric] fold_ok_append bind_ok_assoc)
qed

text \<open>All pushes of a trap together.\<close>

lemma trap_pushes:
  assumes err: "length err = (if has_error n then 1 else 0)"
  shows "bind_ok (interrupt rsp0 handler fl err c) (exec (vector n @ alltraps))
    = bind_ok (fold_ok push_word (rev (frame_words (trap_frame c n err))) (c\<lparr>cpu_rsp := rsp0 AND NOT 15\<rparr>))
        (\<lambda>x. Inr (set_gpr Rdi (cpu_rsp x) (enter handler fl x)))"
proof -
  let ?c0 = "c\<lparr>cpu_rsp := rsp0 AND NOT 15\<rparr>"
  let ?five = "[cpu_ss c, cpu_rsp c, cpu_flags c, cpu_cs c, cpu_rip c] @ err"
  let ?v = "(if has_error n then [] else [0]) @ [of_nat n] @ map (gpr c) (rev user_regs) :: u64 list"
  let ?set = "\<lambda>c. Inr (set_gpr Rdi (cpu_rsp c) c) :: kerror + cpu"
  have set: "?set (enter handler fl x) = Inr (set_gpr Rdi (cpu_rsp x) (enter handler fl x))" for x
    by (simp add: enter_def)
  have all: "rev (frame_words (trap_frame c n err)) = ?five @ ?v"
    using err by (cases err) (auto simp: frame_words_def trap_frame_def user_regs_def split: if_splits)
  have "interrupt rsp0 handler fl err c = bind_ok (fold_ok push_word ?five ?c0) (\<lambda>c. Inr (enter handler fl c))"
    by (simp only: interrupt_def enter_def)
  then have "bind_ok (interrupt rsp0 handler fl err c) (exec (vector n @ alltraps))
      = bind_ok (fold_ok push_word ?five ?c0) (\<lambda>x. exec (vector n @ alltraps) (enter handler fl x))"
    by (simp add: bind_ok_assoc)
  also have "\<dots> = bind_ok (fold_ok push_word ?five ?c0) (\<lambda>x.
      bind_ok (fold_ok push_word ?v x) (\<lambda>x. ?set (enter handler fl x)))"
  proof (rule bind_ok_cong)
    fix x assume x: "fold_ok push_word ?five ?c0 = Inr x"
    have "gpr (enter handler fl x) = gpr c" using pushes_gpr [OF x] by (simp add: enter_def)
    then show "exec (vector n @ alltraps) (enter handler fl x)
        = bind_ok (fold_ok push_word ?v x) (\<lambda>x. ?set (enter handler fl x))"
      by (simp only: exec_entry pushes_enter bind_ok_assoc bind_ok_simps)
  qed
  finally show ?thesis unfolding all set by (simp only: fold_ok_append bind_ok_assoc)
qed

text \<open>The frame is loaded back by \<open>trapret\<close>.\<close>

definition resume :: "Trapframe \<Rightarrow> cpu \<Rightarrow> cpu" where
  "resume f c = c\<lparr>gpr := load_regs user_regs (frame_words f) (gpr c), cpu_rsp := tf_rsp f,
     cpu_rip := tf_rip f, cpu_cs := tf_cs f, cpu_flags := tf_eflags f, cpu_ss := tf_ds f\<rparr>"

lemma trapret_spec:
  assumes "holds (mem c) (cpu_rsp c) (frame_words f)"
  shows "exec trapret c = Inr (resume f c)"
proof -
  let ?vs = "take 15 (frame_words f)" and ?ws = "drop 15 (frame_words f)"
  have h: "holds (mem c) (cpu_rsp c) ?vs" "holds (mem c) (cpu_rsp c + 120) ?ws"
    using assms holds_append [of "mem c" "cpu_rsp c" ?vs ?ws] by simp_all
  have n: "length user_regs = 15" by (simp add: user_regs_def)
  let ?c = "c\<lparr>gpr := load_regs user_regs ?vs (gpr c), cpu_rsp := cpu_rsp c + 120\<rparr>"
  have pops: "exec (map POP user_regs) c = Inr ?c"
    using exec_pops [OF h(1), of user_regs] n by simp
  have "?ws = [tf_trapno f, tf_err f, tf_rip f, tf_cs f, tf_eflags f, tf_rsp f, tf_ds f]"
    by (simp add: frame_words_def)
  then have "exec [ADD_SP 16, IRETQ] ?c = Inr (?c\<lparr>cpu_rip := tf_rip f, cpu_cs := tf_cs f,
      cpu_flags := tf_eflags f, cpu_rsp := tf_rsp f, cpu_ss := tf_ds f\<rparr>)"
    using h(2) by (simp add: holds_Cons pop_word_def add.assoc)
  moreover have "load_regs user_regs ?vs g = load_regs user_regs (frame_words f) g" for g
    by (simp add: user_regs_def frame_words_def)
  ultimately show ?thesis unfolding trapret_parts by (simp add: fold_ok_append pops resume_def)
qed


subsection \<open>What a call does to the trap frame\<close>

text \<open>A call leaves the trap frames and the current thread's pointer to its own alone.\<close>

definition tkeep :: "machine \<Rightarrow> machine \<Rightarrow> bool" where
  "tkeep M M' \<longleftrightarrow> tf_heap (kern M') = tf_heap (kern M) \<and> ksCurThread (kern M') = ksCurThread (kern M)
     \<and> link tcb_tf (tcb_heap (kern M')) = link tcb_tf (tcb_heap (kern M))"

lemma tkeep_kern:
  assumes "\<And>s. ok_post (f s) (kframe s)" and "on_kern f M = Inr M'"
  shows "tkeep M M'"
proof -
  obtain k where "f (kern M) = Inr k" "M' = M\<lparr>kern := k\<rparr>"
    using assms(2) by (auto simp: on_kern_def bind_ok_Inr_iff)
  with assms(1) [of "kern M"] show ?thesis using kframe_tf by (simp add: ok_post_def tkeep_def) (auto simp: kframe_def)
qed

lemma tkeep_vm: "on_vm f M = Inr (x, M') \<Longrightarrow> tkeep M M'"
  by (auto simp: on_vm_def bind_ok_Inr_iff tkeep_def)

lemma tkeep_print: "kprintf fmt args M = Inr M' \<Longrightarrow> tkeep M M'"
  by (auto simp: kprintf_def bind_ok_Inr_iff tkeep_def split: option.splits)

lemma tkeep_call:
  assumes "syscalls un u num = Some f" and "f M = Inr (Returns x M')"
  shows "tkeep M M'"
  using assms
  by (auto simp: syscalls_def call_defs split: if_splits
      dest!: tkeep_print tkeep_vm tkeep_kern [OF kf_send_call] tkeep_kern [OF kf_receive_call])

lemma set_result_frame:
  assumes "set_result x M = Inr M'" and "link tcb_tf (tcb_heap (kern M)) (ksCurThread (kern M)) = a"
    and "tf_heap (kern M) a = Some f"
  shows "tf_heap (kern M') a = Some (f\<lparr>tf_rax := scast x\<rparr>)"
  using assms
  by (auto simp: set_result_def on_kern_def bind_ok_Inr_iff get_tcb_def mod_tf_def get_tf_def read_at_Inr_iff)

lemma trap_keeps_frame:
  assumes "trap un u a (with_frame a f M) = Inr (Returns () M')"
  shows "\<exists>v. tf_heap (kern M') a = Some (f\<lparr>tf_rax := v\<rparr>)
    \<and> (tf_trapno f \<noteq> T_SYSCALL \<longrightarrow> v = tf_rax f \<and> M' = with_frame a f M)"
proof (cases "tf_trapno f = T_SYSCALL")
  case True
  have at: "get_tf (kern (with_frame a f M)) a = Inr f" by (simp add: with_frame_def get_tf_def)
  obtain M1 where M1: "on_kern (\<lambda>s. mod_tcb (ksCurThread s) (\<lambda>t. t\<lparr>tcb_tf := a\<rparr>) s) (with_frame a f M) = Inr M1"
    "syscall un u M1 = Inr (Returns () M')"
    using assms True by (auto simp: trap_def at bind_ok_Inr_iff)
  have link1: "link tcb_tf (tcb_heap (kern M1)) (ksCurThread (kern M1)) = a" "tf_heap (kern M1) a = Some f"
    using M1(1) by (auto simp: on_kern_def bind_ok_Inr_iff with_frame_def mod_tcb_def get_tcb_def read_at_Inr_iff)
  obtain g num y where g: "syscalls un u num = Some g" "g M1 = Inr y"
      "(case y of Returns x M \<Rightarrow> bind_ok (set_result x M) (\<lambda>M. Inr (Returns () M))
        | Switches x M \<Rightarrow> Inr (Switches x M)) = Inr (Returns () M')"
    using M1(2) by (auto simp: syscall_def bind_ok_Inr_iff Let_def split: if_splits option.splits)
  obtain x M2 where y: "y = Returns x M2" "set_result x M2 = Inr M'"
    using g(3) by (cases y) (auto simp: bind_ok_Inr_iff)
  have "tkeep M1 M2" using g(1,2) unfolding y(1) by (rule tkeep_call)
  then have "tf_heap (kern M') a = Some (f\<lparr>tf_rax := scast x\<rparr>)"
    using set_result_frame [OF y(2)] link1 by (simp add: tkeep_def)
  with True show ?thesis by blast
next
  case False
  then have "M' = with_frame a f M" using assms by (simp add: trap_def with_frame_def get_tf_def)
  with False show ?thesis by (intro exI [of _ "tf_rax f"]) (simp add: with_frame_def)
qed

subsection \<open>Into the kernel and back\<close>


text \<open>A user program at 0x400040 that calls \<open>send\<close>, with the kernel stack's top at 0x50B0.\<close>

definition user_cpu :: "u64 \<Rightarrow> cpu" where
  "user_cpu rax = \<lparr>gpr = (\<lambda>r. if r = Rax then rax else if r = Rbx then 7 else 0), cpu_rip = 0x400042,
     cpu_cs = 0x23, cpu_flags = 0x202, cpu_rsp = 0x7FF0, cpu_ss = 0x2B, mem = (\<lambda>_. Some 0)\<rparr>"


subsection \<open>Switching between kernel stacks\<close>

text \<open>C14: A thread that was switched away from goes on where it stopped. After a \<open>swtch\<close> that stores the
  stack pointer through its first argument, a later \<open>swtch\<close>, from any other stack, to the stored stack pointer
  returns to the caller of the first one, with its stack pointer and the seven callee-saved registers
  as they were, as long as nothing was written to the eight words of the saved context.\<close>

theorem swtch_back_resumes:
  assumes away: "can_switch c ret x" "exec swtch c = Inr c1"
    and kept: "\<forall>p\<in>block_at (cpu_rsp c - 56) 8. mem c2 p = mem c1 p"
    and home: "mem c1 (gpr c Rdi) = Some (gpr c2 Rsi)" "can_switch c2 ret2 y"
  shows "\<exists>c3. exec swtch c2 = Inr c3 \<and> cpu_rip c3 = ret \<and> cpu_rsp c3 = cpu_rsp c + 8
    \<and> (\<forall>r\<in>set callee_saved. gpr c3 r = gpr c r)"
proof -
  let ?k = "saved_context c ret"
  obtain m where m: "exec swtch c = Inr (switched c x m)" "m (gpr c Rdi) = Some (cpu_rsp c - 56)"
    "holds m (cpu_rsp c - 56) (context_words ?k)"
    using swtch_spec [OF away(1)] by blast
  then have c1: "mem c1 = m" using away(2) by (simp add: switched_def)
  have rsi: "gpr c2 Rsi = cpu_rsp c - 56" using home(1) m(2) c1 by simp
  have eight: "length (context_words z) = 8" for z by (simp add: context_words_def)
  have "holds (mem c2) (cpu_rsp c - 56) (context_words ?k)"
    using m(3) kept c1 by (subst holds_cong [where m = m]) (auto simp: eight)
  moreover have "holds (mem c2) (cpu_rsp c - 56) (context_words y)"
    using home(2) by (simp add: can_switch_def Let_def rsi)
  ultimately have y: "context_words y = context_words ?k"
    by (intro nth_equalityI) (auto simp: holds_def eight)
  obtain m2 where m2: "exec swtch c2 = Inr (switched c2 y m2)" using swtch_spec [OF home(2)] by blast
  have "ctx_rip y = ret" using y by (simp add: context_words_def saved_context_def)
  moreover have "\<forall>r\<in>set callee_saved. load_regs callee_saved (context_words y) g r = gpr c r" for g
    unfolding y by (simp add: callee_saved_def context_words_def saved_context_def)
  ultimately show ?thesis
    using m2 by (intro exI [of _ "switched c2 y m2"]) (simp add: switched_def rsi)
qed

text \<open>A thread whose stack is at 0x6000 switches to a context at 0x7000 and is switched back to.\<close>

definition switch_cpu :: "u64 \<Rightarrow> u64 \<Rightarrow> u64 \<Rightarrow> (u64 \<rightharpoonup> u64) \<Rightarrow> cpu" where
  "switch_cpu sp rdi rsi m = \<lparr>gpr = (\<lambda>r. if r = Rdi then rdi else if r = Rsi then rsi else if r = Rbx then 9 else 0),
     cpu_rip = 0, cpu_cs = 8, cpu_flags = 2, cpu_rsp = sp, cpu_ss = 0, mem = m\<rparr>"

definition zero_ctx :: Context where
  "zero_ctx = \<lparr>ctx_r15 = 0, ctx_r14 = 0, ctx_r13 = 0, ctx_r12 = 0, ctx_r11 = 0, ctx_rbx = 0, ctx_rbp = 0, ctx_rip = 0\<rparr>"

lemma block_at_8: "block_at a 8 = {a, a + 8, a + 16, a + 24, a + 32, a + 40, a + 48, a + 56}"
  by (simp add: block_at_Suc eval_nat_numeral) (simp add: block_at_def insert_commute add_ac)

theorem swtch_back_resumes_witness:
  "\<exists>c1 c3. exec swtch (switch_cpu 0x6000 0x5000 0x7000 (\<lambda>_. Some 0)) = Inr c1
    \<and> exec swtch (switch_cpu 0x8000 0x5008 (0x6000 - 56) (mem c1)) = Inr c3
    \<and> cpu_rsp c3 = 0x6008 \<and> gpr c3 Rbx = 9"
proof -
  let ?c = "switch_cpu 0x6000 0x5000 0x7000 (\<lambda>_. Some 0)"
  have can: "can_switch ?c 0 zero_ctx"
    by (simp add: can_switch_def Let_def switch_cpu_def block_at_8 dom_def context_words_def zero_ctx_def holds_Cons)
  obtain m where m: "exec swtch ?c = Inr (switched ?c zero_ctx m)" "m (gpr ?c Rdi) = Some (cpu_rsp ?c - 56)"
    "holds m (cpu_rsp ?c - 56) (context_words (saved_context ?c 0))" "dom m = dom (mem ?c)"
    using swtch_spec [OF can] by blast
  let ?c1 = "switched ?c zero_ctx m" and ?c2 = "switch_cpu 0x8000 0x5008 (0x6000 - 56) m"
  have "dom m = UNIV" using m(4) by (simp add: switch_cpu_def dom_def)
  then obtain r where r: "m 0x8000 = Some r" by blast
  have "can_switch ?c2 r (saved_context ?c 0)"
    using m(3) r \<open>dom m = UNIV\<close> by (simp add: can_switch_def Let_def switch_cpu_def block_at_8)
  moreover have "mem ?c1 = m" "mem ?c2 = m" "gpr ?c2 Rsi = cpu_rsp ?c - 56"
    by (simp_all add: switched_def switch_cpu_def)
  ultimately obtain c3 where "exec swtch ?c2 = Inr c3" "cpu_rsp c3 = cpu_rsp ?c + 8"
    "\<forall>r\<in>set callee_saved. gpr c3 r = gpr ?c r"
    using swtch_back_resumes [OF can m(1), of ?c2 r "saved_context ?c 0"] m(2) by auto
  then show ?thesis
    using m(1) \<open>mem ?c1 = m\<close> by (intro exI [of _ ?c1] exI [of _ c3]) (simp add: callee_saved_def switch_cpu_def)
qed

end
