(* ===== verification/PluginStart.thy ===== *)
theory PluginStart
  imports TrapProps LoadPlugin VmProps
begin

text \<open>
  The first steps of a loaded plug-in: from \<open>load_one\<close> of \<open>LoadPlugin\<close>, which prepares the thread's
  kernel stack, over the first \<open>swtch\<close> to that stack and the returns through \<open>forkret\<close> and \<open>trapret\<close>
  into the user program.
\<close>

subsection \<open>The kernel's objects while a plug-in is loaded\<close>

definition same_kern :: "machine \<Rightarrow> machine \<Rightarrow> bool" where
  "same_kern M M' \<longleftrightarrow> kern M' = kern M \<and> ctx_heap M' = ctx_heap M \<and> pluginTcb M' = pluginTcb M"

lemma same_kern_refl [simp]: "same_kern M M"
  by (simp add: same_kern_def)

lemma same_kern_trans: "same_kern M M1 \<Longrightarrow> same_kern M1 M2 \<Longrightarrow> same_kern M M2"
  by (simp add: same_kern_def)

lemma bind_run_result: "bind_run m f = Some (Inr y) \<longleftrightarrow> (\<exists>x. m = Some (Inr x) \<and> f x = Some (Inr y))"
  by (cases m) (auto simp: bind_run_def split: sum.splits)

lemma same_kern_grow: "grow fuel p a b M = Some (Inr (sz, M')) \<Longrightarrow> same_kern M M'"
  by (auto simp: grow_def same_kern_def split: sum.splits option.splits)

lemma same_kern_mem: "on_mem f M = Some (Inr M') \<Longrightarrow> same_kern M M'"
  by (auto simp: on_mem_def same_kern_def bind_ok_Inr_iff)

lemma same_kern_vm: "on_vm f M = Inr (x, M') \<Longrightarrow> same_kern M M'"
  by (auto simp: on_vm_def same_kern_def bind_ok_Inr_iff)

lemma same_kern_segments:
  "load_segments fuel img p n off sz M = Some (Inr (sz', M')) \<Longrightarrow> same_kern M M'"
proof (induction n arbitrary: off sz M)
  case (Suc n)
  then show ?case
    by (auto simp: bind_run_result split: if_splits
        dest!: same_kern_grow same_kern_mem intro: same_kern_trans)
qed simp

lemma same_kern_block: "read_block d p L = Some (Inr L') \<Longrightarrow> same_kern (mach L) (mach L')"
  by (auto simp: read_block_def bind_run_result set_bytes_def same_kern_def)

definition scan_ok :: "loader \<Rightarrow> kerror + ElfHdr \<times> loader \<Rightarrow> bool" where
  "scan_ok L r \<longleftrightarrow> (\<forall>elf L'. r = Inr (elf, L') \<longrightarrow> magic elf = ELF_MAGIC \<and> same_kern (mach L) (mach L'))"

lemma scan_ok_later:
  "same_kern (mach L) (mach L1) \<Longrightarrow> scan_ok (L1\<lparr>pluginSector := s\<rparr>) r \<Longrightarrow> scan_ok L r"
  by (auto simp: scan_ok_def intro: same_kern_trans)

lemma bind_run_cases:
  "bind_run m f = Some r \<Longrightarrow> (\<exists>e. m = Some (Inl e) \<and> r = Inl e) \<or> (\<exists>x. m = Some (Inr x) \<and> f x = Some r)"
  by (auto simp: bind_run_def split: option.splits sum.splits)

lemma find_elf_result: "find_elf d p L = Some r \<Longrightarrow> scan_ok L r"
proof (erule find_elf.raw_induct [rotated, where P = "\<lambda>d p L r. scan_ok L r"])
  fix scan d p L r
  assume IH: "\<And>d p L r. scan d p L = Some r \<Longrightarrow> scan_ok L r"
    and run: "bind_run (read_block d p L) (\<lambda>L. bind_run (Some (get_elf (lbytes L) p)) (\<lambda>elf.
      if magic elf \<noteq> ELF_MAGIC then scan d p (L\<lparr>pluginSector := pluginSector L + 1\<rparr>)
      else Some (Inr (elf, L)))) = Some r"
  show "scan_ok L r"
  proof (cases r)
    case (Inr y)
    then obtain L1 elf where L1: "read_block d p L = Some (Inr L1)"
      and elf: "(if magic elf \<noteq> ELF_MAGIC then scan d p (L1\<lparr>pluginSector := pluginSector L1 + 1\<rparr>)
        else Some (Inr (elf, L1))) = Some r"
      using run by (auto dest!: bind_run_cases)
    note step = same_kern_block [OF L1]
    show ?thesis
    proof (cases "magic elf = ELF_MAGIC")
      case True
      then show ?thesis using elf step by (auto simp: scan_ok_def)
    next
      case False
      then have "scan d p (L1\<lparr>pluginSector := pluginSector L1 + 1\<rparr>) = Some r" using elf by simp
      from scan_ok_later [OF step IH [OF this]] show ?thesis .
    qed
  qed (simp add: scan_ok_def)
qed

definition rest_ok :: "loader \<Rightarrow> kerror + loader \<Rightarrow> bool" where
  "rest_ok L r \<longleftrightarrow> (\<forall>L'. r = Inr L' \<longrightarrow> same_kern (mach L) (mach L'))"

lemma read_rest_result: "read_rest d p n L = Some r \<Longrightarrow> rest_ok L r"
proof (erule read_rest.raw_induct [rotated, where P = "\<lambda>d p n L r. rest_ok L r"])
  fix scan d p n L r
  assume IH: "\<And>d p n L r. scan d p n L = Some r \<Longrightarrow> rest_ok L r"
    and run: "(let q = p + of_nat (n * 512) in
      bind_run (read_block d q L) (\<lambda>L. bind_run (Some (get_elf (lbytes L) q)) (\<lambda>elf.
      if magic elf \<noteq> ELF_MAGIC then scan d p (n + 1) (L\<lparr>pluginSector := pluginSector L + 1\<rparr>)
      else Some (Inr L)))) = Some r"
  let ?q = "p + of_nat (n * 512)"
  show "rest_ok L r"
  proof (cases r)
    case (Inr y)
    then obtain L1 elf where L1: "read_block d ?q L = Some (Inr L1)" and "get_elf (lbytes L1) ?q = Inr elf"
      and elf: "(if magic elf \<noteq> ELF_MAGIC then scan d p (n + 1) (L1\<lparr>pluginSector := pluginSector L1 + 1\<rparr>)
        else Some (Inr L1)) = Some r"
      using run unfolding Let_def by (auto dest!: bind_run_cases simp del: of_nat_mult)
    note step = same_kern_block [OF L1]
    show ?thesis
    proof (cases "magic elf = ELF_MAGIC")
      case True
      then show ?thesis using elf step by (auto simp: rest_ok_def)
    next
      case False
      then have "scan d p (n + 1) (L1\<lparr>pluginSector := pluginSector L1 + 1\<rparr>) = Some r" using elf by simp
      from IH [OF this] show ?thesis using step by (auto simp: rest_ok_def intro: same_kern_trans)
    qed
  qed (simp add: rest_ok_def)
qed

lemma read_plugin_result:
  assumes "read_plugin d p L = Some (Inr (elf, L'))"
  shows "magic elf = ELF_MAGIC" and "same_kern (mach L) (mach L')"
proof -
  obtain L1 where L1: "find_elf d p L = Some (Inr (elf, L1))"
    "read_rest d p 1 (L1\<lparr>pluginSector := pluginSector L1 + 1\<rparr>) = Some (Inr L')"
    using assms by (auto simp: read_plugin_def bind_run_result)
  show "magic elf = ELF_MAGIC" "same_kern (mach L) (mach L')"
    using find_elf_result [OF L1(1)] read_rest_result [OF L1(2)]
    by (auto simp: scan_ok_def rest_ok_def intro: same_kern_trans)
qed

subsection \<open>The thread's kernel stack\<close>

lemma alloc_proc_result:
  assumes "alloc_proc fr tr t M = Inr M1"
  shows "\<exists>x stack. tcb_heap (kern M1) t = Some x \<and> kStack x = stack
    \<and> tcb_tf x = stack + PGSIZE - sizeof_Trapframe
    \<and> tcb_context x = tcb_tf x - 8 - sizeof_Context
    \<and> ctx_heap M1 (tcb_context x) = Some (zero_context\<lparr>ctx_rip := fr\<rparr>)
    \<and> tf_heap (kern M1) (tcb_tf x) = Some zero_trapframe"
  using assms
  by (auto simp: alloc_proc_def bind_ok_Inr_iff Let_def on_kern_def on_vm_def mod_tcb_def get_tcb_def
      read_at_Inr_iff new_trapframe_def alloc_kpage_def)

text \<open>An update of the thread's saved registers.\<close>

lemma set_tf_result:
  assumes "on_kern (\<lambda>s. bind_ok (get_tcb s t) (\<lambda>t. mod_tf (tcb_tf t) g s)) M = Inr M'"
    and "tcb_heap (kern M) t = Some x" and "tf_heap (kern M) (tcb_tf x) = Some f"
  shows "M' = M\<lparr>kern := (kern M)\<lparr>tf_heap := (tf_heap (kern M))(tcb_tf x \<mapsto> g f)\<rparr>\<rparr>"
  using assms by (auto simp: on_kern_def bind_ok_Inr_iff get_tcb_def mod_tf_def get_tf_def)

lemma set_tcb_result:
  assumes "on_kern (mod_tcb t g) M = Inr M'" and "tcb_heap (kern M) t = Some x"
  shows "M' = M\<lparr>kern := (kern M)\<lparr>tcb_heap := (tcb_heap (kern M))(t \<mapsto> g x)\<rparr>\<rparr>"
  using assms by (auto simp: on_kern_def bind_ok_Inr_iff mod_tcb_Some)

lemma start_state_result:
  assumes run: "start_state ustk t elf pml4 sz M = Some (Inr M')"
    and x: "tcb_heap (kern M) t = Some x" and f: "tf_heap (kern M) (tcb_tf x) = Some f"
  shows "\<exists>x'. tcb_heap (kern M') t = Some x' \<and> tcb_tf x' = tcb_tf x \<and> tcb_context x' = tcb_context x
    \<and> kStack x' = kStack x \<and> tcb_pml4 x' = pml4 \<and> tcb_size x' = sz \<and> ctx_heap M' = ctx_heap M
    \<and> tf_heap (kern M') (tcb_tf x) = Some (f\<lparr>tf_rdi := 0, tf_rsi := sz - 8, tf_rip := elf_entry elf,
        tf_rsp := sz - 32, tf_cs := 0x23, tf_ds := 0x2B, tf_eflags := 0\<rparr>)"
proof -
  let ?set = "\<lambda>f. on_kern (\<lambda>s. bind_ok (get_tcb s t) (\<lambda>t. mod_tf (tcb_tf t) f s))"
  obtain M1 M2 M3 M4 M5 page M6 where
    M1: "on_mem (\<lambda>v. bind_ok (fill_ustack ustk sz (byte_heap v)) (\<lambda>m. Inr (v\<lparr>byte_heap := m\<rparr>))) M = Some (Inr M1)"
    and M2: "?set (\<lambda>f. f\<lparr>tf_rdi := 0, tf_rsi := sz - 8\<rparr>) M1 = Inr M2"
    and M3: "on_mem (copy_uvm pml4 (sz - 32) ustk 32) M2 = Some (Inr M3)"
    and M4: "on_kern (mod_tcb t (\<lambda>t. t\<lparr>tcb_pml4 := pml4, tcb_size := sz\<rparr>)) M3 = Inr M4"
    and M5: "?set (\<lambda>f. f\<lparr>tf_rip := elf_entry elf, tf_rsp := sz - 32, tf_cs := push_bit 3 SEG_UCODE OR DPL_USER,
      tf_ds := push_bit 3 SEG_UDATA OR DPL_USER, tf_eflags := 0\<rparr>) M4 = Inr M5"
    and M6: "on_vm (page_walk_for_others pml4 0x2000 False) M5 = Inr (page, M6)"
    and M': "on_kern (mod_tcb t (\<lambda>t. t\<lparr>tcbIPCBuffer := p2v page\<rparr>)) M6 = Inr M'"
    using run unfolding start_state_def Let_def bind_run_result by (auto simp only: option.inject prod.case)
  have k1: "kern M1 = kern M" "ctx_heap M1 = ctx_heap M"
    using same_kern_mem [OF M1] by (simp_all add: same_kern_def)
  note m2 = set_tf_result [OF M2, unfolded k1, OF x f]
  have k3: "kern M3 = kern M2" "ctx_heap M3 = ctx_heap M2"
    using same_kern_mem [OF M3] by (simp_all add: same_kern_def)
  have "tcb_heap (kern M3) t = Some x" using x by (simp add: k3 m2 k1)
  note m4 = set_tcb_result [OF M4 this]
  have "tcb_heap (kern M4) t = Some (x\<lparr>tcb_pml4 := pml4, tcb_size := sz\<rparr>)"
    "tf_heap (kern M4) (tcb_tf (x\<lparr>tcb_pml4 := pml4, tcb_size := sz\<rparr>)) = Some (f\<lparr>tf_rdi := 0, tf_rsi := sz - 8\<rparr>)"
    by (simp_all add: m4 k3 m2)
  note m5 = set_tf_result [OF M5 this]
  have k6: "kern M6 = kern M5" "ctx_heap M6 = ctx_heap M5"
    using same_kern_vm [OF M6] by (simp_all add: same_kern_def)
  have "tcb_heap (kern M6) t = Some (x\<lparr>tcb_pml4 := pml4, tcb_size := sz\<rparr>)"
    by (simp add: k6 m5 m4 k3 m2)
  note m7 = set_tcb_result [OF M' this]
  have sel: "push_bit 3 SEG_UCODE OR DPL_USER = (0x23 :: u64)" "push_bit 3 SEG_UDATA OR DPL_USER = (0x2B :: u64)"
    by (simp_all add: SEG_UCODE_def SEG_UDATA_def DPL_USER_def)
  show ?thesis by (simp add: m7 k6 m5 m4 k3 m2 k1 sel)
qed

text \<open>\<open>load_one\<close> leaves the thread's kernel stack as \<open>alloc_proc\<close> built it, with the frame of \<open>start_state\<close>.\<close>

lemma load_one_prepares:
  assumes run: "load_one d fuel fr tr ustk img i L = Some (Inr L')"
  defines "t \<equiv> pluginTcb (mach L) ! i"
  shows "\<exists>x elf M1 M pml4 sz. magic elf = ELF_MAGIC
    \<and> alloc_proc fr tr t (mach L) = Inr M1 \<and> same_kern M1 M
    \<and> start_state ustk t elf pml4 sz M = Some (Inr (mach L'))
    \<and> tcb_heap (kern M) t = Some x \<and> tf_heap (kern M) (tcb_tf x) = Some zero_trapframe
    \<and> ctx_heap M (tcb_context x) = Some (zero_context\<lparr>ctx_rip := fr\<rparr>)
    \<and> tcb_context x = tcb_tf x - 8 - sizeof_Context"
proof -
  obtain M1 elf L2 pml4 M3 sz M4 sz' M5 M6 where
    M1: "alloc_proc fr tr t (mach L) = Inr M1"
    and L2: "read_plugin d img (L\<lparr>mach := M1\<rparr>) = Some (Inr (elf, L2))"
    and M3: "on_vm setup_user_memory_pages (mach L2) = Inr (pml4, M3)"
    and M4: "load_segments fuel img pml4 (unat (phnum elf)) (ucast (phoff elf)) 4096 M3 = Some (Inr (sz, M4))"
    and M5: "grow fuel pml4 (PGROUNDUP sz) (PGROUNDUP sz + 2 * PGSIZE) M4 = Some (Inr (sz', M5))"
    and M6: "start_state ustk t elf pml4 sz' M5 = Some (Inr M6)" "L' = L2\<lparr>mach := M6\<rparr>"
    using run unfolding load_one_def Let_def t_def
    by (auto simp only: bind_run_result option.inject prod.case sum.inject if_distrib split: if_splits)
  have "same_kern M1 (mach L2)" using read_plugin_result(2) [OF L2] by simp
  also have "same_kern (mach L2) M3" using M3 by (rule same_kern_vm)
  finally (same_kern_trans) have "same_kern M1 M3" .
  also have "same_kern M3 M4" using M4 by (rule same_kern_segments)
  finally (same_kern_trans) have "same_kern M1 M4" .
  also have "same_kern M4 M5" using M5 by (rule same_kern_grow)
  finally (same_kern_trans) have k: "same_kern M1 M5" .
  obtain x where x: "tcb_heap (kern M1) t = Some x" "tcb_context x = tcb_tf x - 8 - sizeof_Context"
    "ctx_heap M1 (tcb_context x) = Some (zero_context\<lparr>ctx_rip := fr\<rparr>)"
    "tf_heap (kern M1) (tcb_tf x) = Some zero_trapframe"
    using alloc_proc_result [OF M1] by auto
  show ?thesis
    using read_plugin_result(1) [OF L2] M1 M6 k x by (intro exI) (auto simp: same_kern_def)
qed

subsection \<open>Into the user program\<close>

text \<open>The words of a thread's kernel stack before it first runs.\<close>

definition fresh_stack :: "machine \<Rightarrow> u64 \<Rightarrow> u64 \<Rightarrow> u64 \<Rightarrow> (u64 \<rightharpoonup> u64) \<Rightarrow> bool" where
  "fresh_stack M t fr tr m \<longleftrightarrow> (\<exists>x f. tcb_heap (kern M) t = Some x \<and> tf_heap (kern M) (tcb_tf x) = Some f
     \<and> holds m (tcb_context x) (context_words (zero_context\<lparr>ctx_rip := fr\<rparr>) @ tr # frame_words f))"

text \<open>C4: A prepared thread starts in user mode. When the scheduler first switches to the kernel stack of
  a thread that \<open>start_state\<close> prepared, \<open>swtch\<close> goes to \<open>forkret\<close>, whose return leads to \<open>trapret\<close>, whose
  \<open>iretq\<close> enters the program: at the entry point of the ELF header, in ring 3 with the user's code
  and data segments, with its stack 32 bytes below the end of the address space, no flag set,
  argument count 0, and every other register 0.\<close>

theorem prepared_thread_enters_user:
  assumes prep: "start_state ustk t elf pml4 sz M = Some (Inr M')" "tcb_heap (kern M) t = Some x"
      "tf_heap (kern M) (tcb_tf x) = Some zero_trapframe"
    and stack: "fresh_stack M' t fr tr (mem c)"
    and sw: "can_switch c ret (zero_context\<lparr>ctx_rip := fr\<rparr>)" "gpr c Rsi = tcb_context x"
    and apart: "insert (gpr c Rdi) (block_at (cpu_rsp c - 56) 7) \<inter> block_at (tcb_context x) 31 = {}"
  shows "\<exists>c1 c2 c3. exec swtch c = Inr c1 \<and> cpu_rip c1 = fr
    \<and> exec [RET] c1 = Inr c2 \<and> cpu_rip c2 = tr
    \<and> exec trapret c2 = Inr c3 \<and> cpu_rip c3 = elf_entry elf \<and> cpu_rsp c3 = sz - 32
    \<and> cpu_cs c3 = 0x23 \<and> cpu_ss c3 = 0x2B \<and> cpu_flags c3 = 0 \<and> gpr c3 Rsi = sz - 8
    \<and> (\<forall>r. r \<noteq> Rsi \<longrightarrow> gpr c3 r = 0)"
proof -
  let ?k = "zero_context\<lparr>ctx_rip := fr\<rparr>"
  let ?f = "zero_trapframe\<lparr>tf_rdi := 0, tf_rsi := sz - 8, tf_rip := elf_entry elf,
    tf_rsp := sz - 32, tf_cs := 0x23, tf_ds := 0x2B, tf_eflags := 0\<rparr>"
  let ?ws = "context_words ?k @ tr # frame_words ?f"
  obtain x' where x': "tcb_heap (kern M') t = Some x'" "tcb_tf x' = tcb_tf x" "tcb_context x' = tcb_context x"
    "tf_heap (kern M') (tcb_tf x) = Some ?f"
    using start_state_result [OF prep] by blast
  then have stack': "holds (mem c) (tcb_context x) ?ws" using stack by (auto simp: fresh_stack_def)
  obtain m where m: "exec swtch c = Inr (switched c ?k m)"
    "\<forall>p. p \<noteq> gpr c Rdi \<longrightarrow> p \<notin> block_at (cpu_rsp c - 56) 7 \<longrightarrow> m p = mem c p"
    using swtch_spec [OF sw(1)] by blast
  have "length ?ws = 31" by (simp add: context_words_def)
  moreover have "m p = mem c p" if "p \<in> block_at (tcb_context x) 31" for p using that m(2) apart by blast
  ultimately have "holds m (tcb_context x) ?ws = holds (mem c) (tcb_context x) ?ws"
    by (intro holds_cong) simp
  with stack' have "holds m (tcb_context x) ?ws" by simp
  then have frame: "m (tcb_context x + 64) = Some tr" "holds m (tcb_context x + 72) (frame_words ?f)"
    by (simp_all add: context_words_def holds_Cons add.assoc)
  let ?c1 = "switched c ?k m"
  let ?c2 = "?c1\<lparr>cpu_rsp := tcb_context x + 72, cpu_rip := tr\<rparr>"
  have c1: "cpu_rip ?c1 = fr" "exec [RET] ?c1 = Inr ?c2"
    using frame(1) sw(2) by (simp_all add: switched_def pop_word_def)
  have c3: "exec trapret ?c2 = Inr (resume ?f ?c2)"
    using frame(2) by (intro trapret_spec) (simp add: switched_def)
  have "gpr (resume ?f ?c2) r = (if r = Rsi then sz - 8 else 0)" for r
    by (cases r) (simp_all add: resume_def user_regs_def frame_words_def zero_trapframe_def)
  then show ?thesis
    using m(1) c1 c3 by (intro exI [of _ ?c1] exI [of _ ?c2] exI [of _ "resume ?f ?c2"]) (simp add: resume_def)
qed

text \<open>A thread at 0x400 with its kernel stack at 0x6000 on the kernel of the fixtures, and a scheduler whose
  stack ends at 0x9000.\<close>

definition prep_machine :: machine where
  "prep_machine = (call_machine zero_trapframe)\<lparr>kern := (call_kern zero_trapframe)\<lparr>
     tcb_heap := [0x400 \<mapsto> zero_tcb\<lparr>tcb_tf := 0x6F50, tcb_context := 0x6F08\<rparr>],
     tf_heap := [0x6F50 \<mapsto> zero_trapframe]\<rparr>,
     vm := kernel_space\<lparr>pt_heap := (\<lambda>_. Some 0)\<rparr>\<rparr>"

definition prep_elf :: ElfHdr where
  "prep_elf = \<lparr>magic = ELF_MAGIC, elf_id = 0, elf_id2 = 0, elf_type = 2, elf_machine = 62, elf_version = 1,
     elf_entry = 0x1000, phoff = 64, shoff = 0, elf_flags = 0, ehsize = 64, phentsize = 56, phnum = 0,
     shentsize = 0, shnum = 0, shstrndx = 0\<rparr>"

lemma total_store64:
  assumes "dom m = UNIV"
  shows "\<exists>m'. store64 a w m = Inr m' \<and> dom m' = UNIV"
proof -
  have "\<exists>m'. fold_ok (\<lambda>k. store8 (a + of_nat k) (ucast (drop_bit (8 * k) w))) ks m = Inr m' \<and> dom m' = UNIV" for ks
    using assms
  proof (induction ks arbitrary: m)
    case (Cons k ks)
    have "dom (m(a + of_nat k \<mapsto> ucast (drop_bit (8 * k) w))) = UNIV" using Cons.prems by auto
    from Cons.IH [OF this] show ?case using Cons.prems by (simp del: fun_upd_apply)
  qed simp
  then show ?thesis by (simp add: store64_def)
qed

lemma prep_run: "\<exists>M'. start_state 0x9000 0x400 prep_elf table4 0x3000 prep_machine = Some (Inr M')"
proof -
  let ?v = "kernel_space\<lparr>pt_heap := (\<lambda>_. Some 0)\<rparr>"
  have "dom (byte_heap ?v) = UNIV" by (auto simp: kernel_space_def)
  then obtain m1 where m1: "store64 (0x9000 + 24) 0 (byte_heap ?v) = Inr m1" "dom m1 = UNIV"
    using total_store64 by blast
  obtain m2 where m2: "store64 0x9000 0xFFFFFFFF m1 = Inr m2" "dom m2 = UNIV" using total_store64 [OF m1(2)] by blast
  obtain m3 where m3: "store64 (0x9000 + 8) 0 m2 = Inr m3" "dom m3 = UNIV" using total_store64 [OF m2(2)] by blast
  obtain m where m: "store64 (0x9000 + 16) (0x3000 - 8) m3 = Inr m" "dom m = UNIV"
    using total_store64 [OF m3(2)] by blast
  have fill: "fill_ustack 0x9000 0x3000 (byte_heap ?v) = Inr m"
    unfolding fill_ustack_def m1(1) bind_ok_simps m2(1) m3(1) m(1) ..
  let ?w = "?v\<lparr>byte_heap := m\<rparr>"
  have step: "walk_step False b i s = Inr (None, s)" if "pt_heap s = (\<lambda>_. Some 0)" for b i s
    by (rule walk_step_absent [where e = 0]) (simp_all add: that present_bit)
  have walk: "page_walk table4 a False s = Inr (0, s)" "page_walk_for_others table4 a False s = Inr (0, s)"
    if "pt_heap s = (\<lambda>_. Some 0)" for a s
    using step [OF that] by (simp_all add: page_walk_def page_walk_for_others_def walk_tables_def)
  have all: "mapped (byte_heap ?w) a n" for a n using m(2) by (auto simp: mapped_def)
  have "copy_uvm table4 0x2FE0 0x9000 32 ?w = Inr (?w\<lparr>byte_heap :=
      written (KERNBASE + (0x2FE0 AND 0xFFF)) (unat (32 :: u64)) (\<lambda>i. byte_heap ?w (0x9000 + of_nat i)) (byte_heap ?w)\<rparr>)"
    by (rule copy_unmapped_hits_page_zero) (use all in \<open>auto simp: walk\<close>)
  then obtain w where w: "copy_uvm table4 0x2FE0 0x9000 32 ?w = Inr w" "pt_heap w = (\<lambda>_. Some 0)" by auto
  show ?thesis
    by (simp add: start_state_def prep_machine_def Let_def on_mem_def on_kern_def get_tcb_def mod_tcb_def
        mod_tf_def get_tf_def call_machine_def call_kern_def on_vm_def fill [simplified] walk w [simplified])
qed

theorem prepared_thread_enters_user_witness:
  "\<exists>m c1 c2 c3. exec swtch (switch_cpu 0x9000 0x5000 0x6F08 m) = Inr c1 \<and> cpu_rip c1 = 0xF0
    \<and> exec [RET] c1 = Inr c2 \<and> exec trapret c2 = Inr c3
    \<and> cpu_rip c3 = 0x1000 \<and> cpu_rsp c3 = 0x2FE0 \<and> cpu_cs c3 = 0x23"
proof -
  let ?x = "zero_tcb\<lparr>tcb_tf := 0x6F50, tcb_context := 0x6F08\<rparr>" and ?k = "zero_context\<lparr>ctx_rip := 0xF0\<rparr>"
  obtain M' where M': "start_state 0x9000 0x400 prep_elf table4 0x3000 prep_machine = Some (Inr M')"
    using prep_run by blast
  have x: "tcb_heap (kern prep_machine) 0x400 = Some ?x" "tf_heap (kern prep_machine) (tcb_tf ?x) = Some zero_trapframe"
    by (simp_all add: prep_machine_def)
  obtain x' f where x': "tcb_heap (kern M') 0x400 = Some x'" "tcb_tf x' = 0x6F50" "tcb_context x' = 0x6F08"
    "tf_heap (kern M') 0x6F50 = Some f"
    using start_state_result [OF M' x] by auto
  let ?ws = "context_words ?k @ 0xF8 # frame_words f"
  let ?m = "store_words ?ws 0x6F08 (\<lambda>_. Some 0)" and ?c = "switch_cpu 0x9000 0x5000 0x6F08"
  have h: "holds ?m 0x6F08 ?ws" by (rule holds_store_words) (simp add: context_words_def)
  have len: "length ?ws = 31" by (simp add: context_words_def)
  have "dom (store_words ws a m) = UNIV" if "dom m = UNIV" for ws a m
    using that by (induction ws arbitrary: a m) auto
  then have dom: "dom ?m = UNIV" by auto
  obtain r where r: "?m 0x9000 = Some r" using dom by blast
  have far: "block_at 0x6F08 31 \<subseteq> {0x6F08..<0x7000}"
    by (auto simp: block_at_def word_le_nat_alt word_less_nat_alt unat_word_ariths unat_of_nat)
  have near: "block_at 0x8FC8 8 = {0x8FC8, 0x8FD0, 0x8FD8, 0x8FE0, 0x8FE8, 0x8FF0, 0x8FF8, 0x9000}"
    by (simp add: block_at_8)
  have seven: "block_at 0x8FC8 7 \<subseteq> block_at 0x8FC8 8" and eight: "block_at 0x6F08 8 \<subseteq> block_at 0x6F08 31"
    by (simp_all add: block_at_bound)
  have "block_at 0x6F08 31 \<inter> insert 0x5000 (block_at 0x8FC8 8) = {}"
    using far unfolding near by (force simp: subset_iff)
  moreover have "holds ?m 0x6F08 (context_words ?k)" using h by (simp add: holds_append)
  moreover have "(0x5000 :: u64) \<notin> block_at 0x8FC8 8" unfolding near by simp
  ultimately have "can_switch (?c ?m) r ?k" "insert (0x5000 :: u64) (block_at 0x8FC8 7) \<inter> block_at 0x6F08 31 = {}"
    using dom r seven eight by (auto simp: can_switch_def Let_def switch_cpu_def)
  moreover have "fresh_stack M' 0x400 0xF0 0xF8 (mem (?c ?m))"
    using x' h by (simp add: fresh_stack_def switch_cpu_def)
  ultimately have "\<exists>c1 c2 c3. exec swtch (?c ?m) = Inr c1 \<and> cpu_rip c1 = 0xF0
    \<and> exec [RET] c1 = Inr c2 \<and> cpu_rip c2 = 0xF8
    \<and> exec trapret c2 = Inr c3 \<and> cpu_rip c3 = elf_entry prep_elf \<and> cpu_rsp c3 = 0x3000 - 32
    \<and> cpu_cs c3 = 0x23 \<and> cpu_ss c3 = 0x2B \<and> cpu_flags c3 = 0 \<and> gpr c3 Rsi = 0x3000 - 8
    \<and> (\<forall>r. r \<noteq> Rsi \<longrightarrow> gpr c3 r = 0)"
    by (intro prepared_thread_enters_user [OF M' x]) (simp_all add: switch_cpu_def)
  then show ?thesis by (intro exI [of _ ?m]) (auto simp: prep_elf_def)
qed

end
