(* ===== verification/BitFields.thy ===== *)
theory BitFields
  imports Layout
begin

text \<open>
  The memory layout of the kernel's structures, from their declarations: \<open>include/object/structures.h\<close>,
  \<open>include/arch/x86/arch/64/mode/object/structures.h\<close>, \<open>include/kernel/acpi.h\<close>, \<open>include/kernel/elf.h\<close>,
  \<open>include/kernel/x86.h\<close> and \<open>include/kernel/proc.h\<close>.

  A declaration is a list of fields with the unit of their type and their width, in bits; a field
  without a name is padding. \<open>place\<close> lays the fields out the way the x86-64 ABI does: in the order of the
  declaration, from the least significant bit, and into the next unit when a field would cross its
  unit's border.
\<close>

subsection \<open>Placing fields\<close>

type_synonym field = "string \<times> nat \<times> nat"

definition bf :: "string \<Rightarrow> nat \<Rightarrow> field" where "bf n w = (n, 64, w)"
definition u64f :: "string \<Rightarrow> field" where "u64f n = (n, 64, 64)"
definition u32f :: "string \<Rightarrow> field" where "u32f n = (n, 32, 32)"
definition u16f :: "string \<Rightarrow> field" where "u16f n = (n, 16, 16)"
definition u8s :: "string \<Rightarrow> nat \<Rightarrow> field" where "u8s n k = (n, 8, 8 * k)"
definition pad :: "nat \<Rightarrow> field" where "pad w = ([], 64, w)"
definition packed32 :: "string \<Rightarrow> field" where "packed32 n = (n, 8, 32)"
definition packed64 :: "string \<Rightarrow> field" where "packed64 n = (n, 8, 64)"

lemmas field_defs = bf_def u64f_def u32f_def u16f_def u8s_def pad_def packed32_def packed64_def

definition align_up :: "nat \<Rightarrow> nat \<Rightarrow> nat" where "align_up u p = (p + u - 1) div u * u"

fun start :: "nat \<Rightarrow> field \<Rightarrow> nat" where
  "start p (n, u, w) = (if p mod u + w \<le> u then p else align_up u p)"

primrec place :: "nat \<Rightarrow> field list \<Rightarrow> (string \<times> nat \<times> nat) list" where
  "place p [] = []"
| "place p (f # fs) = (fst f, start p f, snd (snd f)) # place (start p f + snd (snd f)) fs"

definition placed :: "field list \<Rightarrow> (string \<times> nat \<times> nat) list" where "placed = place 0"

text \<open>The position and the width of a field, and the size of a structure in bytes.\<close>

definition field_at :: "field list \<Rightarrow> string \<Rightarrow> (nat \<times> nat) option" where
  "field_at fs = map_of (placed fs)"

definition sizeof_fields :: "field list \<Rightarrow> nat" where
  "sizeof_fields fs = (if fs = [] then 0 else
     let (n, q, w) = last (placed fs) in align_up (fold (\<lambda>(n, u, w). max u) fs 8) (q + w) div 8)"

text \<open>Reading and writing a field that lies in one 64-bit word.\<close>

definition read_field :: "field list \<Rightarrow> string \<Rightarrow> u64 list \<Rightarrow> u64 option" where
  "read_field fs n ws = (case field_at fs n of None \<Rightarrow> None | Some (p, w) \<Rightarrow>
     if p div 64 < length ws \<and> p mod 64 + w \<le> 64
     then Some (take_bit w (drop_bit (p mod 64) (ws ! (p div 64)))) else None)"

definition write_field :: "field list \<Rightarrow> string \<Rightarrow> u64 \<Rightarrow> u64 list \<Rightarrow> u64 list" where
  "write_field fs n v ws = (case field_at fs n of None \<Rightarrow> ws | Some (p, w) \<Rightarrow>
     ws[p div 64 := (ws ! (p div 64) AND NOT (push_bit (p mod 64) (mask w)))
       OR push_bit (p mod 64) (take_bit w v)])"

subsection \<open>Capabilities\<close>

definition NullCap_fields :: "field list" where
  "NullCap_fields = [u64f ''padding'', bf ''capType'' 5, pad 5]"

definition EndpointCap_fields :: "field list" where
  "EndpointCap_fields = [u64f ''capEPBadge'', bf ''capType'' 5, bf ''capCanGrantReply'' 1, bf ''capCanGrant'' 1,
     bf ''capCanReceive'' 1, bf ''capCanSend'' 1, pad 7, bf ''capEPPtr'' 48]"

definition UntypedCap_fields :: "field list" where
  "UntypedCap_fields = [bf ''capFreeIndex'' 48, pad 9, bf ''capIsDevice'' 1, bf ''capBlockSize'' 6,
     bf ''capType'' 5, pad 11, bf ''capPtr'' 48]"

definition NotificationCap_fields :: "field list" where
  "NotificationCap_fields = [u64f ''capNtfnBadge'', bf ''capType'' 5, bf ''capNtfnCanReceive'' 1,
     bf ''capNtfnCanSend'' 1, pad 9, bf ''capNtfnPtr'' 48]"

definition ReplyCap_fields :: "field list" where
  "ReplyCap_fields = [u64f ''caoTCBPtr'', bf ''capType'' 5, pad 57, bf ''caoReplyCanGrant'' 1,
     bf ''canReplyMaster'' 1]"

definition CNodeCap_fields :: "field list" where
  "CNodeCap_fields = [u64f ''capCNodeGuard'', bf ''capType'' 5, bf ''capCNodeGuardSize'' 6,
     bf ''capCNodeRadix'' 6, bf ''capCNodePtr'' 47]"

definition ThreadCap_fields :: "field list" where
  "ThreadCap_fields = [u64f ''padding'', bf ''capType'' 5, pad 11, bf ''capTCBPtr'' 48]"

definition IrqControlCap_fields :: "field list" where
  "IrqControlCap_fields = [u64f ''padding'', bf ''capType'' 5, pad 59]"

definition IrqHandlerCap_fields :: "field list" where
  "IrqHandlerCap_fields = [u64f ''capIRQ'', bf ''capType'' 5, pad 59]"

definition ZombieCap_fields :: "field list" where
  "ZombieCap_fields = [u64f ''capZombieID'', bf ''capType'' 5, pad 52, bf ''capZombieType'' 7]"

definition DomainCap_fields :: "field list" where
  "DomainCap_fields = [u64f ''padding'', bf ''capType'' 5, pad 59]"

definition Cap_fields :: "field list" where
  "Cap_fields = [u64f ''capEPBadge'', bf ''capEPPtr'' 48, bf ''capType'' 5, bf ''left'' 59]"

definition FrameCap_fields :: "field list" where
  "FrameCap_fields = [bf ''capFMappedASID'' 16, bf ''capFBasePtr'' 48, bf ''capType'' 5, bf ''capFSize'' 2,
     bf ''capFMapType'' 2, bf ''capFMappedAddress'' 48, bf ''capFVMRights'' 2,
     bf ''caoFIsDevice'' 1, pad 4]"

definition PageTableCap_fields :: "field list" where
  "PageTableCap_fields = [pad 4, bf ''capPTMappedASID'' 12, bf ''capPTBasePtr'' 48, bf ''capType'' 5, pad 9,
     bf ''capPTIsMapped'' 1, bf ''capPTMappedAddress'' 28, pad 21]"

definition PageDirectoryCap_fields :: "field list" where
  "PageDirectoryCap_fields = [pad 4, bf ''capPDMappedASID'' 12, bf ''capPDBasePtr'' 48, bf ''capType'' 5, pad 9,
     bf ''capPDIsMapped'' 1, bf ''capPDMappedAddress'' 19, pad 30]"

definition PdptCap_fields :: "field list" where
  "PdptCap_fields = [pad 4, bf ''capPDPTMappedASID'' 12, bf ''capPDPTBasePtr'' 48, bf ''capType'' 5,
     bf ''capPDPTIsMapped'' 1, bf ''capPDPTMappedAddress'' 10, pad 48]"

definition Pml4Cap_fields :: "field list" where
  "Pml4Cap_fields = [bf ''capPML4BasePtr'' 64, bf ''capType'' 5, bf ''capPML4IsMapped'' 1, pad 46,
     bf ''capPML4MappedASID'' 12]"

subsection \<open>Objects, faults and thread states\<close>

definition Endpoint_fields :: "field list" where
  "Endpoint_fields = [u64f ''epQueueHead'', bf ''padding'' 14, bf ''epQueueTail'' 48, bf ''state'' 2]"

definition Notification_fields :: "field list" where
  "Notification_fields = [pad 16, bf ''ntfnBoundTCB'' 48, u64f ''ntfnMsgIdentifier'', pad 16,
     bf ''ntfnQueueHead'' 48, bf ''ntfnQueueTail'' 48, pad 14, bf ''state'' 2]"

definition MdbNode_fields :: "field list" where
  "MdbNode_fields = [pad 16, bf ''mdbNext'' 46, bf ''mdbRevocable'' 1, bf ''mdbFirstBadged'' 1,
     u64f ''mdbPrev'']"

definition InvalidRoot_fields :: "field list" where
  "InvalidRoot_fields = [u64f ''padding'', pad 62, bf ''lufType'' 2]"

definition MissingCapability_fields :: "field list" where
  "MissingCapability_fields = [u64f ''paddintg'', pad 55, bf ''bitsLeft'' 7, bf ''lufType'' 2]"

definition DepthMismatch_fields :: "field list" where
  "DepthMismatch_fields = [u64f ''padding'', pad 48, bf ''bitsFound'' 7, bf ''bitsLeft'' 7, bf ''lufType'' 2]"

definition GuardMismatch_fields :: "field list" where
  "GuardMismatch_fields = [u64f ''guardFound'', pad 48, bf ''bitsLeft'' 7, bf ''bitsFound'' 7, bf ''lufType'' 2]"

definition NullFault_fields :: "field list" where
  "NullFault_fields = [u64f ''padding'', pad 60, bf ''osFaultType'' 4]"

definition CapFault_fields :: "field list" where
  "CapFault_fields = [u64f ''address'', bf ''inReceivePhase'' 1, pad 59, bf ''osFaultType'' 4]"

definition UnknownSyscall_fields :: "field list" where
  "UnknownSyscall_fields = [u64f ''syscallNumber'', pad 60, bf ''osFaultType'' 4]"

definition UserException_fields :: "field list" where
  "UserException_fields = [u64f ''padding'', bf ''number'' 32, bf ''code'' 28, bf ''osFaultType'' 4]"

definition OsFault_fields :: "field list" where
  "OsFault_fields = [u64f ''num'', bf ''padding'' 60, bf ''osFaultType'' 4]"

definition ThreadState_fields :: "field list" where
  "ThreadState_fields = [u64f ''blockingIPCBadge'', pad 60, bf ''blockingIPCCanGrant'' 1,
     bf ''blockingIPCCangrantreply'' 1, bf ''blockingIPCIscall'' 1, bf ''tcbQueued'' 1,
     bf ''padding'' 16, bf ''blockingObject'' 44, bf ''tsType'' 4]"

subsection \<open>Page table entries\<close>

definition Pml4e_fields :: "field list" where
  "Pml4e_fields = [bf ''xd'' 1, pad 11, pad 1, bf ''pdptBaseAddress'' 39, pad 4, pad 1, pad 1,
     bf ''accessed'' 1, bf ''cacheDisabled'' 1, bf ''writeThrough'' 1, bf ''superUser'' 1,
     bf ''readWrite'' 1, bf ''present'' 1]"

definition Pdpte_fields :: "field list" where
  "Pdpte_fields = [bf ''xd'' 1, pad 11, pad 1, bf ''pdBaseAddress'' 39, pad 4, bf ''pageSize'' 1, pad 1,
     bf ''accessed'' 1, bf ''cacheDisabled'' 1, bf ''writeThrough'' 1, bf ''superUser'' 1,
     bf ''readWrite'' 1, bf ''present'' 1]"

definition Pde_fields :: "field list" where
  "Pde_fields = [bf ''xd'' 1, pad 11, pad 1, bf ''ptBaseAddress'' 39, pad 4, bf ''pageSize'' 1, pad 1,
     bf ''accessed'' 1, bf ''cacheDisabled'' 1, bf ''writeThrough'' 1, bf ''superuser'' 1,
     bf ''readWrite'' 1, bf ''present'' 1]"

definition Pte_fields :: "field list" where
  "Pte_fields = [bf ''xd'' 1, pad 11, pad 1, bf ''pageBaseAddress'' 39, pad 3, bf ''global'' 1,
     bf ''pat'' 1, bf ''dirty'' 1, bf ''accessed'' 1, bf ''cacheDisabled'' 1,
     bf ''writeThrough'' 1, bf ''superUser'' 1, bf ''readWrite'' 1, bf ''present'' 1]"

definition Cr3_fields :: "field list" where
  "Cr3_fields = [pad 13, bf ''pml4BaseAddress'' 39, bf ''pcid'' 12]"

subsection \<open>Stack frames, tables of the firmware and executable files\<close>

definition Trapframe_fields :: "field list" where
  "Trapframe_fields = [u64f ''rax'', u64f ''rbx'', u64f ''rcx'', u64f ''rdx'', u64f ''rbp'', u64f ''rsi'',
     u64f ''rdi'', u64f ''r8'', u64f ''r9'', u64f ''r10'', u64f ''r11'', u64f ''r12'',
     u64f ''r13'', u64f ''r14'', u64f ''r15'', u64f ''trapno'', u64f ''err'', u64f ''rip'',
     u64f ''cs'', u64f ''eflags'', u64f ''rsp'', u64f ''ds'']"

definition trapframe_fields :: "field list" where
  "trapframe_fields = [u64f ''eax'', u64f ''rbx'', u64f ''rcx'', u64f ''rdx'', u64f ''rbp'', u64f ''rsi'',
     u64f ''rdi'', u64f ''r8'', u64f ''r9'', u64f ''r10'', u64f ''r11'', u64f ''r12'',
     u64f ''r13'', u64f ''r14'', u64f ''r15'', u64f ''trapno'', u64f ''err'', u64f ''rip'',
     u64f ''cs'', u64f ''eflags'', u64f ''rsp'', u64f ''ds'']"

definition context_fields :: "field list" where
  "context_fields = [u64f ''r15'', u64f ''r14'', u64f ''r13'', u64f ''r12'', u64f ''r11'', u64f ''rbx'',
     u64f ''rbp'', u64f ''rip'']"

definition segdesc_fields :: "field list" where
  "segdesc_fields = [(''lim_15_0'', 32, 16), (''base_15_0'', 32, 16), (''base_23_16'', 32, 8),
     (''type'', 32, 4), (''s'', 32, 1), (''dpl'', 32, 2), (''p'', 32, 1),
     (''lim_19_16'', 32, 4), (''avl'', 32, 1), (''rsv1'', 32, 1), (''db'', 32, 1),
     (''g'', 32, 1), (''base_31_24'', 32, 8)]"

definition acpi_rsdp_fields :: "field list" where
  "acpi_rsdp_fields = [u8s ''signature'' 8, u8s ''checksum'' 1, u8s ''oem_id'' 6, u8s ''revision'' 1,
     packed32 ''rsdt_addr_phys'', packed32 ''length'', packed64 ''xsdt_addr_phys'',
     u8s ''xchecksum'' 1, u8s ''reserved'' 3]"

definition acpi_desc_header_fields :: "field list" where
  "acpi_desc_header_fields = [u8s ''signature'' 4, packed32 ''length'', u8s ''revision'' 1, u8s ''checksum'' 1,
     u8s ''oem_id'' 6, u8s ''oem_tableid'' 8, packed32 ''oem_revision'',
     u8s ''creator_id'' 4, packed32 ''creator_revision'']"

definition madt_lapic_fields :: "field list" where
  "madt_lapic_fields = [u8s ''type'' 1, u8s ''length'' 1, u8s ''acpi_id'' 1, u8s ''apic_id'' 1,
     packed32 ''flags'']"

definition madt_ioapic_fields :: "field list" where
  "madt_ioapic_fields = [u8s ''type'' 1, u8s ''length'' 1, u8s ''id'' 1, u8s ''reserved'' 1, packed32 ''addr'',
     packed32 ''interrupt_base'']"

text \<open>The two tables begin with a description header; the entries that follow them have no size.\<close>

definition acpi_rsdt_fields :: "field list" where
  "acpi_rsdt_fields = acpi_desc_header_fields @ [u8s ''entry'' 0]"

definition acpi_madt_fields :: "field list" where
  "acpi_madt_fields = acpi_desc_header_fields @ [packed32 ''lapic_addr_phys'', packed32 ''flags'', u8s ''table'' 0]"

definition ElfHdr_fields :: "field list" where
  "ElfHdr_fields = [u32f ''magic'', u8s ''elf'' 12, u16f ''type'', u16f ''machine'', u32f ''version'',
     u64f ''entry'', u64f ''phoff'', u64f ''shoff'', u32f ''flags'', u16f ''ehsize'',
     u16f ''phentsize'', u16f ''phnum'', u16f ''shentsize'', u16f ''shnum'',
     u16f ''shstrndx'']"

definition ProgHdr_fields :: "field list" where
  "ProgHdr_fields = [u32f ''type'', u32f ''flags'', u64f ''off'', u64f ''vaddr'', u64f ''paddr'',
     u64f ''filesz'', u64f ''memsz'', u64f ''align'']"

definition mbheader_fields :: "field list" where
  "mbheader_fields = [u32f ''magic'', u32f ''flags'', u32f ''checksum'', u32f ''header_addr'',
     u32f ''load_addr'', u32f ''load_end_addr'', u32f ''bss_end_addr'', u32f ''entry_addr'']"

lemmas fields_defs =
  NullCap_fields_def EndpointCap_fields_def UntypedCap_fields_def NotificationCap_fields_def
  ReplyCap_fields_def CNodeCap_fields_def ThreadCap_fields_def IrqControlCap_fields_def
  IrqHandlerCap_fields_def ZombieCap_fields_def DomainCap_fields_def Cap_fields_def
  FrameCap_fields_def PageTableCap_fields_def PageDirectoryCap_fields_def PdptCap_fields_def
  Pml4Cap_fields_def Endpoint_fields_def Notification_fields_def MdbNode_fields_def
  InvalidRoot_fields_def MissingCapability_fields_def DepthMismatch_fields_def
  GuardMismatch_fields_def NullFault_fields_def CapFault_fields_def UnknownSyscall_fields_def
  UserException_fields_def OsFault_fields_def ThreadState_fields_def Pml4e_fields_def
  Pdpte_fields_def Pde_fields_def Pte_fields_def Cr3_fields_def Trapframe_fields_def
  trapframe_fields_def context_fields_def segdesc_fields_def acpi_rsdp_fields_def
  acpi_desc_header_fields_def madt_lapic_fields_def madt_ioapic_fields_def acpi_rsdt_fields_def
  acpi_madt_fields_def ElfHdr_fields_def ProgHdr_fields_def mbheader_fields_def

end
