(* ===== verification/FieldProps.thy ===== *)
theory FieldProps
  imports BitFields TrapProps StartProps Arch
begin

text \<open>
  Properties of the layouts: fields never overlap, the records of the model are the views that the layouts
  give, and the layouts agree, or do not agree, with the hardware and with each other.
\<close>

subsection \<open>Placement\<close>

definition sound_fields :: "field list \<Rightarrow> bool" where
  "sound_fields fs \<longleftrightarrow> (\<forall>(n, u, w)\<in>set fs. 0 < u)"

lemma align_up_ge: "0 < u \<Longrightarrow> p \<le> align_up u p"
proof -
  assume u: "0 < u"
  have "p + u - 1 = (p + u - 1) div u * u + (p + u - 1) mod u" by simp
  moreover have "(p + u - 1) mod u < u" using u by simp
  ultimately show ?thesis unfolding align_up_def by linarith
qed

lemma place_ordered:
  "sound_fields fs \<Longrightarrow> sorted_wrt (\<lambda>(n, q, w) (n', q', w'). q + w \<le> q') (place p fs)
    \<and> (\<forall>(n, q, w)\<in>set (place p fs). p \<le> q)"
proof (induction fs arbitrary: p)
  case (Cons f fs)
  obtain n u w where f: "f = (n, u, w)" by (cases f)
  let ?q = "start p f"
  have "p \<le> ?q" using Cons.prems align_up_ge [of u p] f by (simp add: sound_fields_def)
  moreover have "sorted_wrt (\<lambda>(n, q, w) (n', q', w'). q + w \<le> q') (place (?q + w) fs)
      \<and> (\<forall>(n', q', w')\<in>set (place (?q + w) fs). ?q + w \<le> q')"
    using Cons.prems by (intro Cons.IH) (simp add: sound_fields_def)
  ultimately show ?case by (fastforce simp: f)
qed simp

lemma field_at_disjoint:
  assumes "sound_fields fs" "field_at fs f = Some (p, w)" "field_at fs g = Some (q, v)" "f \<noteq> g"
  shows "p + w \<le> q \<or> q + v \<le> p"
proof -
  have mem: "(f, p, w) \<in> set (placed fs)" "(g, q, v) \<in> set (placed fs)"
    using assms(2,3) by (simp_all add: field_at_def map_of_SomeD)
  then obtain i j where ij: "i < length (placed fs)" "j < length (placed fs)"
    "placed fs ! i = (f, p, w)" "placed fs ! j = (g, q, v)" by (auto simp: in_set_conv_nth)
  then have "i \<noteq> j" using assms(4) by auto
  have "sorted_wrt (\<lambda>(n, q, w) (n', q', w'). q + w \<le> q') (placed fs)"
    using place_ordered [OF assms(1)] by (simp add: placed_def)
  then have "i < j \<Longrightarrow> p + w \<le> q" "j < i \<Longrightarrow> q + v \<le> p"
    using ij by (auto dest: sorted_wrt_nth_less)
  then show ?thesis using \<open>i \<noteq> j\<close> by linarith
qed

lemma take_drop_insert:
  fixes x v :: u64
  assumes "k + w \<le> 64"
  shows "take_bit w (drop_bit k ((x AND NOT (push_bit k (mask w))) OR push_bit k (take_bit w v))) = take_bit w v"
  using assms by (intro bit_word_eqI) (auto simp: bit_simps)

lemma take_drop_other:
  fixes x v :: u64
  assumes "k + w \<le> k' \<or> k' + w' \<le> k"
  shows "take_bit w' (drop_bit k' ((x AND NOT (push_bit k (mask w))) OR push_bit k (take_bit w v)))
    = take_bit w' (drop_bit k' x)"
  using assms by (intro bit_word_eqI) (auto simp: bit_simps dest: bit_imp_le_length)

lemma read_write_same:
  assumes "field_at fs f = Some (p, w)" "p mod 64 + w \<le> 64" "p div 64 < length ws"
  shows "read_field fs f (write_field fs f v ws) = Some (take_bit w v)"
  using assms take_drop_insert [OF assms(2)]
  by (simp only: read_field_def write_field_def option.case prod.case length_list_update
      nth_list_update_eq simp_thms if_True)

lemma read_write_other:
  assumes fs: "sound_fields fs" and f: "field_at fs f = Some (p, w)" "p mod 64 + w \<le> 64" "p div 64 < length ws"
    and "f \<noteq> g"
  shows "read_field fs g (write_field fs f v ws) = read_field fs g ws"
proof (cases "field_at fs g")
  case (Some qw)
  obtain q u where qu: "qw = (q, u)" by (cases qw)
  note disj = field_at_disjoint [OF fs f(1) Some [unfolded qu] \<open>f \<noteq> g\<close>]
  have "p mod 64 + w \<le> q mod 64 \<or> q mod 64 + u \<le> p mod 64" if same: "p div 64 = q div 64"
  proof -
    have "p = 64 * (p div 64) + p mod 64" "q = 64 * (p div 64) + q mod 64"
      by simp (metis same mult_div_mod_eq)
    then show ?thesis using disj by linarith
  qed
  note same = take_drop_other [OF this]
  show ?thesis
  proof (cases "p div 64 = q div 64")
    case True
    then show ?thesis
      using f(3) same [OF True]
      by (simp only: read_field_def write_field_def f(1) Some qu option.case prod.case length_list_update
          nth_list_update_eq)
  qed (simp add: read_field_def write_field_def f(1) Some qu)
qed (simp add: read_field_def)

subsection \<open>Evaluating layouts\<close>

lemmas layout_eval = field_at_def placed_def align_up_def field_defs fields_defs

lemma get_bits_take:
  fixes w :: u64
  assumes "k + LENGTH('b::len) \<le> 64"
  shows "(ucast (get_bits k w :: 'b word) :: u64) = take_bit LENGTH('b) (drop_bit k w)"
  using assms by (intro bit_word_eqI) (auto simp: bit_simps)

lemma take_bit_64 [simp]: "take_bit 64 (w :: u64) = w"
  by (intro bit_word_eqI) (auto simp: bit_simps)

subsection \<open>Properties\<close>



text \<open>Positions of the fields that the model reads.\<close>

lemma capability_positions:
  "field_at Cap_fields ''capEPPtr'' = Some (64, 48)"
  "field_at Cap_fields ''capType'' = Some (112, 5)"
  "field_at EndpointCap_fields ''capType'' = Some (64, 5)"
  "field_at EndpointCap_fields ''capCanGrantReply'' = Some (69, 1)"
  "field_at EndpointCap_fields ''capCanGrant'' = Some (70, 1)"
  "field_at EndpointCap_fields ''capCanReceive'' = Some (71, 1)"
  "field_at EndpointCap_fields ''capCanSend'' = Some (72, 1)"
  "field_at EndpointCap_fields ''capEPPtr'' = Some (80, 48)"
  "field_at NotificationCap_fields ''capType'' = Some (64, 5)"
  "field_at NotificationCap_fields ''capNtfnCanReceive'' = Some (69, 1)"
  "field_at NotificationCap_fields ''capNtfnCanSend'' = Some (70, 1)"
  "field_at NotificationCap_fields ''capNtfnPtr'' = Some (80, 48)"
  "field_at UntypedCap_fields ''capFreeIndex'' = Some (0, 48)"
  "field_at UntypedCap_fields ''capIsDevice'' = Some (57, 1)"
  "field_at UntypedCap_fields ''capBlockSize'' = Some (58, 6)"
  "field_at UntypedCap_fields ''capType'' = Some (64, 5)"
  "field_at UntypedCap_fields ''capPtr'' = Some (80, 48)"
  "field_at CNodeCap_fields ''capType'' = Some (64, 5)"
  "field_at CNodeCap_fields ''capCNodeGuardSize'' = Some (69, 6)"
  "field_at CNodeCap_fields ''capCNodeRadix'' = Some (75, 6)"
  "field_at CNodeCap_fields ''capCNodePtr'' = Some (81, 47)"
  by (simp_all add: layout_eval)

lemma frame_positions:
  "field_at trapframe_fields ''eax'' = Some (0, 64)"
  "field_at trapframe_fields ''rbx'' = Some (64, 64)"
  "field_at trapframe_fields ''rcx'' = Some (128, 64)"
  "field_at trapframe_fields ''rdx'' = Some (192, 64)"
  "field_at trapframe_fields ''rbp'' = Some (256, 64)"
  "field_at trapframe_fields ''rsi'' = Some (320, 64)"
  "field_at trapframe_fields ''rdi'' = Some (384, 64)"
  "field_at trapframe_fields ''r8'' = Some (448, 64)"
  "field_at trapframe_fields ''r9'' = Some (512, 64)"
  "field_at trapframe_fields ''r10'' = Some (576, 64)"
  "field_at trapframe_fields ''r11'' = Some (640, 64)"
  "field_at trapframe_fields ''r12'' = Some (704, 64)"
  "field_at trapframe_fields ''r13'' = Some (768, 64)"
  "field_at trapframe_fields ''r14'' = Some (832, 64)"
  "field_at trapframe_fields ''r15'' = Some (896, 64)"
  "field_at trapframe_fields ''trapno'' = Some (960, 64)"
  "field_at trapframe_fields ''err'' = Some (1024, 64)"
  "field_at trapframe_fields ''rip'' = Some (1088, 64)"
  "field_at trapframe_fields ''cs'' = Some (1152, 64)"
  "field_at trapframe_fields ''eflags'' = Some (1216, 64)"
  "field_at trapframe_fields ''rsp'' = Some (1280, 64)"
  "field_at trapframe_fields ''ds'' = Some (1344, 64)"
  "field_at context_fields ''r15'' = Some (0, 64)"
  "field_at context_fields ''r14'' = Some (64, 64)"
  "field_at context_fields ''r13'' = Some (128, 64)"
  "field_at context_fields ''r12'' = Some (192, 64)"
  "field_at context_fields ''r11'' = Some (256, 64)"
  "field_at context_fields ''rbx'' = Some (320, 64)"
  "field_at context_fields ''rbp'' = Some (384, 64)"
  "field_at context_fields ''rip'' = Some (448, 64)"
  by (simp_all add: layout_eval)


text \<open>The type of a capability lies in the lowest bits of the second word of every typed capability, but not
  where the generic view reads it.\<close>

theorem cap_type_positions:
  "(\<forall>fs\<in>set [NullCap_fields, EndpointCap_fields, UntypedCap_fields, NotificationCap_fields, ReplyCap_fields,
       CNodeCap_fields, ThreadCap_fields, IrqControlCap_fields, IrqHandlerCap_fields, ZombieCap_fields,
       DomainCap_fields, FrameCap_fields, PageTableCap_fields, PageDirectoryCap_fields, PdptCap_fields,
       Pml4Cap_fields]. field_at fs ''capType'' = Some (64, 5) \<and> sizeof_fields fs = 16)
    \<and> field_at Cap_fields ''capType'' = Some (112, 5) \<and> sizeof_fields Cap_fields = 24"
  by (simp add: layout_eval sizeof_fields_def Let_def sizeof_rsdp_def sizeof_ProgHdr_def)

text \<open>The sizes that the comments name.\<close>

theorem commented_sizes:
  "sizeof_fields Endpoint_fields = 16 \<and> sizeof_fields Notification_fields = 32 \<and> sizeof_fields ThreadState_fields = 24
    \<and> (\<forall>fs\<in>set [InvalidRoot_fields, MissingCapability_fields, DepthMismatch_fields, GuardMismatch_fields,
         NullFault_fields, CapFault_fields, UnknownSyscall_fields, UserException_fields, OsFault_fields,
         MdbNode_fields]. sizeof_fields fs = 16)"
  by (simp add: layout_eval sizeof_fields_def Let_def sizeof_rsdp_def sizeof_ProgHdr_def)

lemma pte_present: "field_at Pte_fields ''present'' = Some (63, 1)" by (simp add: layout_eval)

text \<open>The bit-fields of page table entries are listed from the top, as the manuals draw them, but placed from
  the bottom: every flag ends up in the mirrored bit, and an entry marked present through its field is
  not present for the page walk.\<close>

theorem pte_fields_mirrored:
  "(\<forall>(n, b)\<in>set [(''present'', 0), (''readWrite'', 1), (''superUser'', 2), (''writeThrough'', 3), (''cacheDisabled'', 4),
       (''accessed'', 5), (''dirty'', 6), (''pat'', 7), (''global'', 8), (''xd'', 63)].
       field_at Pte_fields n = Some (63 - b, 1))
    \<and> field_at Pml4e_fields ''present'' = Some (63, 1) \<and> field_at Pdpte_fields ''present'' = Some (63, 1)
    \<and> field_at Pde_fields ''present'' = Some (63, 1)
    \<and> \<not> present (hd (write_field Pte_fields ''present'' 1 [0]))"
proof (intro conjI)
  show "\<not> present (hd (write_field Pte_fields ''present'' 1 [0]))"
    by (simp add: write_field_def pte_present present_bit bit_simps)
qed (simp_all add: layout_eval)

text \<open>The two declarations of the trap frame agree up to the first name, and the words that \<open>alltraps\<close> leaves
  on the stack are its fields; likewise for the words that \<open>swtch\<close> leaves.\<close>

theorem stack_frames_match_layout:
  "placed Trapframe_fields = (''rax'', 0, 64) # tl (placed trapframe_fields)
    \<and> sizeof_fields trapframe_fields = 8 * length (frame_words f)
    \<and> (\<forall>(n, v)\<in>set [(''eax'', tf_rax f), (''rbx'', tf_rbx f), (''rcx'', tf_rcx f), (''rdx'', tf_rdx f), (''rbp'', tf_rbp f),
        (''rsi'', tf_rsi f), (''rdi'', tf_rdi f), (''r8'', tf_r8 f), (''r9'', tf_r9 f), (''r10'', tf_r10 f),
        (''r11'', tf_r11 f), (''r12'', tf_r12 f), (''r13'', tf_r13 f), (''r14'', tf_r14 f), (''r15'', tf_r15 f),
        (''trapno'', tf_trapno f), (''err'', tf_err f), (''rip'', tf_rip f), (''cs'', tf_cs f),
        (''eflags'', tf_eflags f), (''rsp'', tf_rsp f), (''ds'', tf_ds f)].
        read_field trapframe_fields n (frame_words f) = Some v)
    \<and> sizeof_fields context_fields = 8 * length (context_words x)
    \<and> (\<forall>(n, v)\<in>set [(''r15'', ctx_r15 x), (''r14'', ctx_r14 x), (''r13'', ctx_r13 x), (''r12'', ctx_r12 x),
        (''r11'', ctx_r11 x), (''rbx'', ctx_rbx x), (''rbp'', ctx_rbp x), (''rip'', ctx_rip x)].
        read_field context_fields n (context_words x) = Some v)"
proof (intro conjI)
  show "placed Trapframe_fields = (''rax'', 0, 64) # tl (placed trapframe_fields)" by (simp add: layout_eval)
  have "sizeof_fields trapframe_fields = 176" "sizeof_fields context_fields = 64"
    by (simp_all add: layout_eval sizeof_fields_def Let_def)
  then show "sizeof_fields trapframe_fields = 8 * length (frame_words f)"
    "sizeof_fields context_fields = 8 * length (context_words x)" by (simp_all add: context_words_def)
qed (simp_all add: read_field_def frame_positions frame_words_def context_words_def)

text \<open>The byte offsets with which the model reads the firmware's tables and the executable headers.\<close>

theorem parsed_offsets:
  "sizeof_fields acpi_rsdp_fields = unat sizeof_rsdp \<and> field_at acpi_rsdp_fields ''rsdt_addr_phys'' = Some (8 * 16, 32)
    \<and> field_at acpi_desc_header_fields ''length'' = Some (8 * 4, 32) \<and> field_at acpi_rsdt_fields ''entry'' = Some (8 * 36, 0)
    \<and> field_at acpi_madt_fields ''lapic_addr_phys'' = Some (8 * 36, 32) \<and> field_at acpi_madt_fields ''table'' = Some (8 * 44, 0)
    \<and> sizeof_fields acpi_madt_fields = 44 \<and> sizeof_fields madt_lapic_fields = 8 \<and> sizeof_fields madt_ioapic_fields = 12
    \<and> sizeof_fields ElfHdr_fields = 64 \<and> field_at ElfHdr_fields ''entry'' = Some (8 * 24, 64)
    \<and> field_at ElfHdr_fields ''phoff'' = Some (8 * 32, 64) \<and> field_at ElfHdr_fields ''phnum'' = Some (8 * 56, 16)
    \<and> sizeof_fields ProgHdr_fields = unat sizeof_ProgHdr \<and> sizeof_fields mbheader_fields = 32 \<and> sizeof_fields segdesc_fields = 8"
  by (simp add: layout_eval sizeof_fields_def Let_def sizeof_rsdp_def sizeof_ProgHdr_def)

end
