(* ===== verification/BootSector.thy ===== *)
theory BootSector
  imports BootLoader LoadPlugin
begin

text \<open>
  The boot sector \<open>src/kernel/bootasm.S\<close> and the segment macros of \<open>include/kernel/asm.h\<close>: it opens the
  A20 line, asks the BIOS for the memory map, which it leaves at address 0x8000, switches to 32-bit
  mode with flat segments and calls the boot loader. The keyboard controller and the BIOS are
  parameters.
\<close>

subsection \<open>The A20 line\<close>

text \<open>The status byte at each poll of port 0x64; bit 1 says that the controller is busy.\<close>

partial_function (option) wait_8042 :: "(nat \<Rightarrow> u8) \<Rightarrow> nat \<Rightarrow> nat option" where
  "wait_8042 status k = (if status k AND 2 \<noteq> 0 then wait_8042 status (Suc k) else Some (Suc k))"

text \<open>The number of polls and the bytes written to the ports.\<close>

definition seta20 :: "(nat \<Rightarrow> u8) \<Rightarrow> (nat \<times> (u16 \<times> u8) list) option" where
  "seta20 status =
     (case wait_8042 status 0 of None \<Rightarrow> None | Some k \<Rightarrow>
      case wait_8042 status k of None \<Rightarrow> None | Some k \<Rightarrow> Some (k, [(0x64, 0xD1), (0x60, 0xDF)]))"

subsection \<open>The memory map\<close>

text \<open>The call \<open>int 0x15\<close> for the \<open>k\<close>th time: from \<open>eax\<close>, \<open>ebx\<close>, \<open>ecx\<close> and \<open>edx\<close> to the carry flag, the new
  \<open>ebx\<close> and the bytes that it stores at \<open>es:di\<close>.\<close>

type_synonym bios = "nat \<Rightarrow> u32 \<Rightarrow> u32 \<Rightarrow> u32 \<Rightarrow> u32 \<Rightarrow> bool \<times> u32 \<times> u8 list"

definition SMAP :: u32 where "SMAP = 0x534D4150"

primrec store_bytes :: "u64 \<Rightarrow> u8 list \<Rightarrow> bytes \<Rightarrow> kerror + bytes" where
  "store_bytes a [] m = Inr m"
| "store_bytes a (b # bs) m = bind_ok (store8 a b m) (store_bytes (a + 1) bs)"

definition incl :: "u64 \<Rightarrow> bytes \<Rightarrow> kerror + bytes" where
  "incl a m = bind_ok (load32 m a) (\<lambda>w. store32 a (w + 1) m)"

text \<open>The loop from \<open>start_probe\<close> to \<open>finish_probe\<close>: \<open>di\<close> has 16 bits. When the BIOS sets the carry flag,
  the code stores 12345 over the low half of the count.\<close>

partial_function (option) start_probe :: "bios \<Rightarrow> nat \<Rightarrow> u32 \<Rightarrow> u16 \<Rightarrow> bytes \<Rightarrow> bytes run" where
  "start_probe bios k ebx di m =
     (let (carry, ebx, buf) = bios k 0xE820 ebx 20 SMAP in
      bind_run (Some (store_bytes (ucast di) buf m)) (\<lambda>m.
      if carry then Some (store16 0x8000 12345 m) else
      bind_run (Some (incl 0x8000 m)) (\<lambda>m.
      if ebx \<noteq> 0 then start_probe bios (Suc k) ebx (di + 20) m else Some (Inr m))))"

definition probe_memory :: "bios \<Rightarrow> bytes \<Rightarrow> bytes run" where
  "probe_memory bios m = bind_run (Some (store32 0x8000 0 m)) (start_probe bios 0 0 0x8004)"

subsection \<open>Protected mode\<close>

text \<open>\<open>SEG_ASM\<close>: a segment descriptor with a limit in pages.\<close>

definition STA_X :: u32 where "STA_X = 8"
definition STA_W :: u32 where "STA_W = 2"
definition STA_R :: u32 where "STA_R = 2"

definition SEG_ASM :: "u32 \<Rightarrow> u32 \<Rightarrow> u32 \<Rightarrow> u8 list" where
  "SEG_ASM type base lim =
     (let word = (\<lambda>w :: u32. [ucast w, ucast (drop_bit 8 w)]) in
      word (drop_bit 12 lim AND 0xFFFF) @ word (base AND 0xFFFF)
      @ [ucast (drop_bit 16 base AND 0xFF), ucast (0x90 OR type),
         ucast (0xC0 OR (drop_bit 28 lim AND 0xF)), ucast (drop_bit 24 base AND 0xFF)])"

definition boot_gdt :: "u8 list" where
  "boot_gdt = replicate 8 0 @ SEG_ASM (STA_X OR STA_R) 0 0xFFFFFFFF @ SEG_ASM STA_W 0 0xFFFFFFFF"

record boot_cpu =
  b_cr0 :: u32
  b_gdt :: "u8 list"
  b_cs :: u16
  b_ds :: u16
  b_es :: u16
  b_ss :: u16
  b_fs :: u16
  b_gs :: u16
  b_esp :: u32
  b_out :: "(u16 \<times> u16) list"   \<comment> \<open>16-bit writes to ports\<close>

definition CR0_PE :: u32 where "CR0_PE = 1"

text \<open>The boot sector is loaded, and linked, at 0x7C00, where also its stack begins.\<close>

definition boot_start :: u32 where "boot_start = 0x7C00"

definition real_start :: "boot_cpu \<Rightarrow> boot_cpu" where
  "real_start c = c\<lparr>b_ds := 0, b_es := 0, b_ss := 0\<rparr>"

definition enter_protected :: "boot_cpu \<Rightarrow> boot_cpu" where
  "enter_protected c = c\<lparr>b_gdt := boot_gdt, b_cr0 := b_cr0 c OR CR0_PE, b_cs := push_bit 3 1\<rparr>"

definition start32 :: "boot_cpu \<Rightarrow> boot_cpu" where
  "start32 c = c\<lparr>b_ds := push_bit 3 2, b_es := push_bit 3 2, b_ss := push_bit 3 2, b_fs := 0, b_gs := 0,
     b_esp := boot_start\<rparr>"

text \<open>What follows when the loader returns: two writes for the Bochs debugger, then \<open>spin\<close>.\<close>

definition after_bootmain :: "boot_cpu \<Rightarrow> boot_cpu" where
  "after_bootmain c = c\<lparr>b_out := b_out c @ [(0x8A00, 0x8A00), (0x8A00, 0x8AE0)]\<rparr>"

datatype sector_end = Spins boot_cpu | Enters u32 boot_cpu ide bytes

definition boot_sector ::
    "(nat \<Rightarrow> u8) \<Rightarrow> bios \<Rightarrow> drive \<Rightarrow> boot_cpu \<Rightarrow> ide \<times> bytes \<Rightarrow> sector_end run" where
  "boot_sector status bios d c s =
     (case seta20 status of None \<Rightarrow> None | Some _ \<Rightarrow>
      bind_run (probe_memory bios (snd s)) (\<lambda>m.
      let c = start32 (enter_protected (real_start c)) in
      bind_run (bootmain d (fst s, m)) (\<lambda>(e, io, m).
      Some (Inr (case e of Boot_returns \<Rightarrow> Spins (after_bootmain c)
                 | Boot_enters ip \<Rightarrow> Enters ip c io m)))))"

end
