(* ===== verification/BootMap.thy ===== *)
theory BootMap
  imports BootSector StartProps
begin

text \<open>
  The memory map that the boot sector collects: what the BIOS reports is what memory holds at 0x8000
  afterwards, and what the kernel reads there.
\<close>

subsection \<open>Words in memory\<close>

lemma store_bytes_written:
  "mapped m a (length bs) \<Longrightarrow> length bs \<le> 2 ^ 64 \<Longrightarrow>
    store_bytes a bs m = Inr (written a (length bs) (\<lambda>i. Some (bs ! i)) m)"
proof (induction bs arbitrary: a m)
  case (Cons b bs)
  have "store_bytes (a + 1) bs (m(a \<mapsto> b))
      = Inr (written (a + 1) (length bs) (\<lambda>i. Some (bs ! i)) (m(a \<mapsto> b)))"
    using Cons.prems by (intro Cons.IH) (simp_all add: mapped_Suc mapped_upd del: fun_upd_apply)
  moreover have "written a (Suc (length bs)) (\<lambda>i. case i of 0 \<Rightarrow> Some b | Suc j \<Rightarrow> Some (bs ! j)) m
      = written a (Suc (length bs)) (\<lambda>i. Some ((b # bs) ! i)) m"
    by (rule written_cong) (simp split: nat.split)
  ultimately show ?case
    using Cons.prems by (simp add: mapped_Suc written_first del: fun_upd_apply)
qed simp

lemma load_le_bytes:
  "(\<And>k. k < n \<Longrightarrow> m (a + of_nat k) = Some (ucast (drop_bit (8 * k) w))) \<Longrightarrow>
    load_le n m a = Inr (take_bit (8 * n) w)"
proof (induction n arbitrary: a w)
  case (Suc n)
  have "m (a + 1 + of_nat k) = Some (ucast (drop_bit (8 * k) (drop_bit 8 w)))" if "k < n" for k
    using Suc.prems [of "Suc k"] that by (simp add: add.assoc add.commute [of _ 8])
  then have "load_le n m (a + 1) = Inr (take_bit (8 * n) (drop_bit 8 w))" by (rule Suc.IH)
  moreover have "m a = Some (ucast w)" using Suc.prems [of 0] by simp
  moreover have "ucast (ucast w :: u8) OR push_bit 8 (take_bit (8 * n) (drop_bit 8 w)) = take_bit (8 * Suc n) w"
    by (intro bit_word_eqI) (auto simp: bit_simps)
  ultimately show ?case by simp
qed simp

lemma store32_written:
  "mapped m a 4 \<Longrightarrow> store32 a w m = Inr (written a 4 (\<lambda>k. Some (word_byte w k)) m)"
  unfolding store32_word by (rule store_word_written) simp_all

lemma offset_neq: "i \<noteq> j \<Longrightarrow> i < 2 ^ 64 \<Longrightarrow> j < 2 ^ 64 \<Longrightarrow> (a :: u64) + of_nat i \<noteq> a + of_nat j"
proof
  assume ij: "i \<noteq> j" "i < 2 ^ 64" "j < 2 ^ 64" and "a + of_nat i = a + of_nat j"
  then have "unat (of_nat i :: u64) = unat (of_nat j :: u64)" by simp
  then show False using ij by (simp add: unat_of_nat)
qed

subsection \<open>The BIOS\<close>

text \<open>An entry of the memory map: address, length and type, as the packed structure of
  \<open>struct MEMORY_E820\<close> in \<open>include/kernel/mmu.h\<close>.\<close>

type_synonym e820 = "u64 \<times> u64 \<times> u32"

definition le_bytes :: "nat \<Rightarrow> 'a::len word \<Rightarrow> u8 list" where
  "le_bytes n w = map (\<lambda>k. ucast (drop_bit (8 * k) w)) [0..<n]"

definition entry_bytes :: "e820 \<Rightarrow> u8 list" where
  "entry_bytes e = (case e of (addr, len, ty) \<Rightarrow> le_bytes 8 addr @ le_bytes 8 len @ le_bytes 4 ty)"

lemma length_le_bytes [simp]: "length (le_bytes n w) = n"
  by (simp add: le_bytes_def)

lemma length_entry_bytes [simp]: "length (entry_bytes e) = 20"
  by (simp add: entry_bytes_def split: prod.split)

text \<open>The documented behaviour of \<open>int 0x15\<close> with \<open>eax\<close> = 0xE820: the call for entry \<open>k\<close> gets the
  continuation value of the call before, zero at first, and returns the next one, zero at the end.\<close>

definition reports :: "bios \<Rightarrow> (nat \<Rightarrow> u32) \<Rightarrow> e820 list \<Rightarrow> bool" where
  "reports bios cont es \<longleftrightarrow> cont 0 = 0 \<and> (\<forall>k<length es.
     bios k 0xE820 (cont k) 20 SMAP
       = (False, if Suc k < length es then cont (Suc k) else 0, entry_bytes (es ! k))
     \<and> (0 < k \<longrightarrow> cont k \<noteq> 0))"

text \<open>Memory after \<open>k\<close> entries.\<close>

definition probed :: "nat \<Rightarrow> e820 list \<Rightarrow> bytes \<Rightarrow> bytes \<Rightarrow> bool" where
  "probed k es m0 m \<longleftrightarrow> (\<forall>j<4. m (0x8000 + of_nat j) = Some (word_byte (of_nat k) j))
     \<and> (\<forall>i<k. \<forall>j<20. m (0x8000 + of_nat (4 + 20 * i + j)) = Some (entry_bytes (es ! i) ! j))
     \<and> (\<forall>p. (\<forall>j<4 + 20 * k. p \<noteq> 0x8000 + of_nat j) \<longrightarrow> m p = m0 p)"

lemma probed_covers:
  assumes "probed k es m0 m" "j < 4 + 20 * k"
  shows "0x8000 + of_nat j \<in> dom m"
proof (cases "j < 4")
  case True
  then show ?thesis using assms(1) by (auto simp: probed_def)
next
  case False
  then have "j = 4 + 20 * ((j - 4) div 20) + (j - 4) mod 20" by simp
  moreover have "(j - 4) div 20 < k" using assms(2) False by (intro less_mult_imp_div_less) simp
  moreover have "(j - 4) mod 20 < 20" by simp
  ultimately obtain i' j' where "i' < k" "j' < 20" "j = 4 + 20 * i' + j'" by blast
  then have "m (0x8000 + of_nat j) = Some (entry_bytes (es ! i') ! j')"
    using assms(1) unfolding probed_def by blast
  then show ?thesis by (rule domI)
qed

lemma probed_dom:
  assumes "probed k es m0 m" "a \<in> dom m0"
  shows "a \<in> dom m"
proof (cases "\<forall>j<4 + 20 * k. a \<noteq> 0x8000 + of_nat j")
  case True
  then show ?thesis using assms by (auto simp: probed_def dom_def)
next
  case False
  then show ?thesis using probed_covers [OF assms(1)] by blast
qed

lemma probed_mapped: "probed k es m0 m \<Longrightarrow> mapped m0 a n \<Longrightarrow> mapped m a n"
  using probed_dom by (simp add: mapped_def)

lemma probed_Suc:
  assumes "probed k es m0 m" "4 + 20 * Suc k \<le> 0x8000"
  shows "probed (Suc k) es m0 (written 0x8000 4 (\<lambda>j. Some (word_byte (of_nat (Suc k)) j))
    (written (0x8000 + of_nat (4 + 20 * k)) 20 (\<lambda>j. Some (entry_bytes (es ! k) ! j)) m))"
    (is "probed _ _ _ (written _ _ ?c (written ?a _ ?e m))")
proof -
  have a: "?a + of_nat j = 0x8000 + of_nat (4 + 20 * k + j)" for j by (simp add: add.assoc)
  have count: "written 0x8000 4 ?c M (0x8000 + of_nat i) = M (0x8000 + of_nat i)" if "4 \<le> i" "i < 0x8000" for M i
    using that by (intro written_other offset_neq) simp_all
  have new: "written ?a 20 ?e m (0x8000 + of_nat (4 + 20 * k + j)) = ?e j" if "j < 20" for j
    using that written_at [of j 20 ?a ?e m] unfolding a by simp
  have old: "written ?a 20 ?e m (0x8000 + of_nat i) = m (0x8000 + of_nat i)" if "i < 4 + 20 * k" for i
    using that assms(2) by (intro written_other) (unfold a, intro offset_neq, simp_all)
  show ?thesis
    unfolding probed_def
  proof (intro conjI allI impI)
    fix j :: nat assume "j < 4"
    then show "written 0x8000 4 ?c (written ?a 20 ?e m) (0x8000 + of_nat j) = Some (word_byte (of_nat (Suc k)) j)"
      by (intro written_at) simp_all
  next
    fix i j :: nat assume ij: "i < Suc k" "j < 20"
    show "written 0x8000 4 ?c (written ?a 20 ?e m) (0x8000 + of_nat (4 + 20 * i + j)) = Some (entry_bytes (es ! i) ! j)"
    proof (cases "i = k")
      case True
      then show ?thesis using ij assms(2) count [of "4 + 20 * i + j"] new [of j] by simp
    next
      case False
      then have "4 + 20 * i + j < 4 + 20 * k" using ij by simp
      then show ?thesis using ij False assms count [of "4 + 20 * i + j"] old [of "4 + 20 * i + j"]
        by (simp add: probed_def)
    qed
  next
    fix p :: u64 assume p: "\<forall>j<4 + 20 * Suc k. p \<noteq> 0x8000 + of_nat j"
    have neq: "0x8000 + of_nat j \<noteq> p" if "j < 4 + 20 * Suc k" for j using p that by metis
    have "written 0x8000 4 ?c (written ?a 20 ?e m) p = written ?a 20 ?e m p"
      by (intro written_other neq) simp
    also have "\<dots> = m p" by (intro written_other, unfold a, intro neq) simp
    also have "\<dots> = m0 p" using p assms(1) by (simp add: probed_def)
    finally show "written 0x8000 4 ?c (written ?a 20 ?e m) p = m0 p" .
  qed
qed

lemma probe_step:
  assumes "probed k es m0 m" "mapped m0 0x8000 (4 + 20 * Suc k)" "4 + 20 * Suc k \<le> 0x8000"
  shows "\<exists>m1. bind_run (Some (store_bytes (ucast (0x8004 + of_nat (20 * k) :: u16)) (entry_bytes (es ! k)) m))
      (\<lambda>m. bind_run (Some (incl 0x8000 m)) f) = f m1 \<and> probed (Suc k) es m0 m1"
proof -
  let ?a = "0x8000 + of_nat (4 + 20 * k) :: u64"
  let ?m = "written ?a 20 (\<lambda>j. Some (entry_bytes (es ! k) ! j)) m"
  have "(0x8004 + of_nat (20 * k) :: u16) = 0x8000 + of_nat (4 + 20 * k)" by simp
  moreover have "(ucast (0x8000 + of_nat (4 + 20 * k) :: u16) :: u64) = ?a"
    using ucast_plus(1) [of "0x8000 :: u16" "4 + 20 * k"] assms(3) by simp
  ultimately have di: "(ucast (0x8004 + of_nat (20 * k) :: u16) :: u64) = ?a" by (simp only:)
  have all: "mapped m 0x8000 (4 + 20 * Suc k)" using probed_mapped [OF assms(1,2)] .
  then have "mapped m ?a 20" by (intro mapped_drop) (simp add: algebra_simps)
  then have store: "store_bytes ?a (entry_bytes (es ! k)) m = Inr ?m"
    using store_bytes_written [of m ?a "entry_bytes (es ! k)"] by simp
  have "?m (0x8000 + of_nat j) = m (0x8000 + of_nat j)" if "j < 4" for j
    using that assms(3) by (intro written_other) (unfold add.assoc of_nat_add [symmetric], intro offset_neq, simp_all)
  then have "load32 ?m 0x8000 = Inr (of_nat k)"
    using assms(1) by (intro load32_join) (simp add: probed_def)
  moreover have "mapped ?m 0x8000 4" using all by (intro mapped_written mapped_mono [OF all]) simp_all
  ultimately have "incl 0x8000 ?m = Inr (written 0x8000 4 (\<lambda>j. Some (word_byte (of_nat (Suc k)) j)) ?m)"
    by (simp add: incl_def store32_written add.commute)
  then show ?thesis using probed_Suc [OF assms(1,3)] store unfolding di by auto
qed

lemma start_probe_collects:
  assumes bios: "reports bios cont es" and room: "mapped m0 0x8000 (4 + 20 * length es)" "4 + 20 * length es \<le> 0x8000"
  shows "probed k es m0 m \<Longrightarrow> k < length es \<Longrightarrow>
    \<exists>m'. start_probe bios k (cont k) (0x8004 + of_nat (20 * k)) m = Some (Inr m') \<and> probed (length es) es m0 m'"
proof (induction "length es - k" arbitrary: k m)
  case (Suc d)
  let ?next = "if Suc k < length es then cont (Suc k) else 0"
  let ?f = "\<lambda>m. if ?next \<noteq> 0 then start_probe bios (Suc k) ?next (0x8004 + of_nat (20 * k) + 20) m else Some (Inr m)"
  have call: "bios k 0xE820 (cont k) 20 SMAP = (False, ?next, entry_bytes (es ! k))"
    using bios Suc.prems(2) by (simp add: reports_def)
  have "mapped m0 0x8000 (4 + 20 * Suc k)" using mapped_mono [OF room(1)] Suc.prems(2) by simp
  moreover have "4 + 20 * Suc k \<le> 0x8000" using room(2) Suc.prems(2) by simp
  ultimately obtain m1 where
    m1: "bind_run (Some (store_bytes (ucast (0x8004 + of_nat (20 * k) :: u16)) (entry_bytes (es ! k)) m))
      (\<lambda>m. bind_run (Some (incl 0x8000 m)) ?f) = ?f m1" "probed (Suc k) es m0 m1"
    using probe_step [OF Suc.prems(1), of ?f] by blast
  from m1(1) have step: "start_probe bios k (cont k) (0x8004 + of_nat (20 * k)) m = ?f m1"
    by (subst start_probe.simps) (simp add: call)
  show ?case
  proof (cases "Suc k < length es")
    case True
    then have "cont (Suc k) \<noteq> 0" using bios by (simp add: reports_def)
    moreover have "\<exists>m'. start_probe bios (Suc k) (cont (Suc k)) (0x8004 + of_nat (20 * Suc k)) m1 = Some (Inr m')
        \<and> probed (length es) es m0 m'"
      using Suc.hyps True m1(2) by (intro Suc.hyps(1)) simp_all
    ultimately show ?thesis using step True by (simp add: algebra_simps)
  next
    case False
    then have "Suc k = length es" using Suc.prems(2) by simp
    then show ?thesis using step m1(2) by auto
  qed
qed simp

lemma probe_memory_collects:
  assumes bios: "reports bios cont es" "es \<noteq> []"
    and room: "mapped m 0x8000 (4 + 20 * length es)" "4 + 20 * length es \<le> 0x8000"
  shows "\<exists>m'. probe_memory bios m = Some (Inr m') \<and> probed (length es) es m m'"
proof -
  let ?m = "written 0x8000 4 (\<lambda>k. Some (word_byte 0 k)) m"
  have "store32 0x8000 0 m = Inr ?m" by (intro store32_written mapped_mono [OF room(1)]) linarith
  moreover have "probed 0 es m ?m"
    unfolding probed_def
  proof (intro conjI allI impI)
    fix p :: u64 assume "\<forall>j<4 + 20 * 0. p \<noteq> 0x8000 + of_nat j"
    then show "?m p = m p" by (intro written_other) force
  qed (auto simp: written_at)
  moreover have "cont 0 = 0" using bios(1) by (simp add: reports_def)
  ultimately show ?thesis
    using start_probe_collects [OF bios(1) room, of 0 ?m] bios(2) by (simp add: probe_memory_def)
qed

subsection \<open>What the kernel reads\<close>

text \<open>\<open>memblock_init\<close> reads the map at \<open>KERNBASE + ARDSOFFSET\<close>: a count that it ignores, then 32 entries.\<close>

definition ARDSOFFSET :: u64 where "ARDSOFFSET = 0x8000"

definition read_entry :: "bytes \<Rightarrow> u64 \<Rightarrow> kerror + e820" where
  "read_entry m a = bind_ok (load64 m a) (\<lambda>addr. bind_ok (load64 m (a + 8)) (\<lambda>len.
     bind_ok (load32 m (a + 16)) (\<lambda>ty. Inr (addr, len, ty))))"

primrec read_entries :: "nat \<Rightarrow> u64 \<Rightarrow> bytes \<Rightarrow> kerror + e820 list" where
  "read_entries 0 a m = Inr []"
| "read_entries (Suc n) a m =
     bind_ok (read_entry m a) (\<lambda>e. bind_ok (read_entries n (a + 20) m) (\<lambda>es. Inr (e # es)))"

definition memory_map :: "bytes \<Rightarrow> kerror + e820 list" where
  "memory_map m = read_entries 32 (KERNBASE + ARDSOFFSET + 4) m"

lemma load_le_at:
  fixes w :: "'a::len word"
  assumes "\<And>j. j < n \<Longrightarrow> m (a + of_nat j) = Some (le_bytes n w ! j)" "LENGTH('a) \<le> 64"
  shows "load_le n m a = Inr (take_bit (8 * n) (ucast w))"
proof (rule load_le_bytes)
  fix k assume "k < n"
  have "(ucast (drop_bit (8 * k) w) :: u8) = ucast (drop_bit (8 * k) (ucast w :: u64))"
    using assms(2) by (intro bit_word_eqI) (auto simp: bit_simps dest: bit_imp_le_length)
  then show "m (a + of_nat k) = Some (ucast (drop_bit (8 * k) (ucast w :: u64)))"
    using assms(1) [OF \<open>k < n\<close>] \<open>k < n\<close> by (simp add: le_bytes_def)
qed

lemma read_entry_bytes:
  assumes "\<And>j. j < 20 \<Longrightarrow> m (a + of_nat j) = Some (entry_bytes e ! j)"
  shows "read_entry m a = Inr e"
proof -
  obtain x l ty where e: "e = (x, l, ty)" by (cases e)
  have at: "m (a + of_nat (b + j)) = Some (entry_bytes e ! (b + j))" if "b + j < 20" for b j
    using assms that by blast
  have "load_le 8 m a = Inr (take_bit (8 * 8) (ucast x))"
    using at [of 0] by (intro load_le_at) (simp_all add: e entry_bytes_def nth_append)
  moreover have "load_le 8 m (a + 8) = Inr (take_bit (8 * 8) (ucast l))"
    using at [of 8] by (intro load_le_at) (simp_all add: e entry_bytes_def nth_append add.assoc)
  moreover have "load_le 4 m (a + 16) = Inr (take_bit (8 * 4) (ucast ty))"
    using at [of 16] by (intro load_le_at) (simp_all add: e entry_bytes_def nth_append add.assoc)
  moreover have "ucast (take_bit 32 (ucast ty :: u64)) = ty"
    by (intro bit_word_eqI) (auto simp: bit_simps)
  moreover have "take_bit 64 w = w" for w :: u64
    by (intro bit_word_eqI) (auto simp: bit_simps)
  ultimately show ?thesis
    by (simp add: read_entry_def load64_def load32_def e)
qed

lemma read_entries_ok: "mapped m a (20 * n) \<Longrightarrow> \<exists>es. read_entries n a m = Inr es \<and> length es = n"
proof (induction n arbitrary: a)
  case (Suc n)
  have "mapped m a (20 + 20 * n)" using Suc.prems by simp
  from mapped_drop [OF this] obtain es where "read_entries n (a + 20) m = Inr es" "length es = n"
    using Suc.IH by auto
  moreover have "\<exists>e. read_entry m a = Inr e"
    using load_ok(3) [of m a 0 8] load_ok(3) [of m a 8 8] load_ok(2) [of m a 16 4]
      mapped_mono [OF Suc.prems, of 8] mapped_mono [OF Suc.prems, of 16] mapped_mono [OF Suc.prems, of 20]
    by (auto simp: read_entry_def bind_ok_Inr_iff)
  ultimately show ?case by auto
qed simp

lemma read_entries_prefix:
  "length es \<le> n \<Longrightarrow> (\<And>i j. i < length es \<Longrightarrow> j < 20 \<Longrightarrow> m (a + of_nat (20 * i + j)) = Some (entry_bytes (es ! i) ! j)) \<Longrightarrow>
    mapped m a (20 * n) \<Longrightarrow>
    \<exists>rest. read_entries n a m = Inr (es @ rest) \<and> length rest = n - length es
      \<and> (length es < n \<longrightarrow> read_entry m (a + of_nat (20 * length es)) = Inr (hd rest))"
proof (induction es arbitrary: n a)
  case Nil
  then obtain es where es: "read_entries n a m = Inr es" "length es = n" using read_entries_ok by blast
  moreover have "read_entry m a = Inr (hd es)" if "0 < n"
    using es that by (cases n) (auto simp: bind_ok_Inr_iff)
  ultimately show ?case by auto
next
  case (Cons e es)
  then obtain n' where n: "n = Suc n'" by (cases n) auto
  have "m (a + 20 + of_nat (20 * i + j)) = Some (entry_bytes (es ! i) ! j)" if "i < length es" "j < 20" for i j
    using Cons.prems(2) [of "Suc i" j] that by (simp add: algebra_simps)
  moreover have "mapped m a (20 + 20 * n')" using Cons.prems(3) n by simp
  note mapped_drop [OF this]
  ultimately obtain rest where rest: "read_entries n' (a + 20) m = Inr (es @ rest)" "length rest = n' - length es"
    "length es < n' \<longrightarrow> read_entry m (a + 20 + of_nat (20 * length es)) = Inr (hd rest)"
    using Cons.IH [of n' "a + 20"] Cons.prems(1) n by auto
  have "read_entry m a = Inr e" using Cons.prems(2) [of 0] by (intro read_entry_bytes) simp
  then show ?case using rest n by (auto simp: algebra_simps)
qed

end
