(* ===== verification/Entry.thy ===== *)
theory Entry
  imports BootMap
begin

text \<open>
  The kernel's entry \<open>src/kernel/entry64.S\<close>: the multiboot header, the first page tables, the switch
  to 64-bit mode and the jump to \<open>main\<close>. Addresses that the linker chooses are parameters.
\<close>

subsection \<open>The multiboot header\<close>

definition mboot_header :: "u32 \<Rightarrow> u32 \<Rightarrow> u32 \<Rightarrow> u32 \<Rightarrow> u32 list" where
  "mboot_header load load_end bss_end start =
     [0x1BADB002, 0x00010000, - 0x1BADB002 - 0x00010000, load, load, load_end, bss_end, start]"

subsection \<open>The first page tables\<close>

primrec ptbl_loop :: "nat \<Rightarrow> u32 \<Rightarrow> u32 \<Rightarrow> bytes \<Rightarrow> kerror + bytes" where
  "ptbl_loop 0 eax ebx m = Inr m"
| "ptbl_loop (Suc ecx) eax ebx m =
     bind_ok (store32 (ucast ebx) eax m) (ptbl_loop ecx (eax + 0x200000) (ebx + 8))"

definition bootstrap_tables :: "bytes \<Rightarrow> kerror + bytes" where
  "bootstrap_tables m =
     bind_ok (stosb 0x1000 0 0x5000 m) (\<lambda>m.
     bind_ok (store32 0x1000 (0x2000 OR 3) m) (\<lambda>m.
     bind_ok (store32 0x1FF8 (0x3000 OR 3) m) (\<lambda>m.
     bind_ok (store32 0x2000 (0x4000 OR 3) m) (\<lambda>m.
     bind_ok (store32 0x3FF0 (0x4000 OR 3) m) (\<lambda>m.
     ptbl_loop 512 0x83 0x4000 m)))))"

subsection \<open>The switch to 64-bit mode\<close>

definition IA32_EFER :: u32 where "IA32_EFER = 0xC0000080"

record entry_cpu =
  e_cr0 :: u64
  e_cr3 :: u64
  e_cr4 :: u64
  e_msr :: "u32 \<Rightarrow> u64"
  e_gdt :: "u64 \<times> u16"    \<comment> \<open>base and limit\<close>
  e_cs :: u16
  e_data :: "u16 list"     \<comment> \<open>ss, ds, es, fs and gs\<close>
  e_rbx :: u64
  e_rsp :: u64
  e_rdi :: u64
  e_rsi :: u64
  e_rip :: u64

definition bts :: "nat \<Rightarrow> u64 \<Rightarrow> u64" where "bts n w = w OR push_bit n 1"

definition gdt64 :: "u64 list" where
  "gdt64 = [0, 0x0020980000000000, 0x0000900000000000]"

definition entry32mp :: "u64 \<Rightarrow> entry_cpu \<Rightarrow> entry_cpu" where
  "entry32mp gdt c =
     c\<lparr>e_cr3 := 0x1000, e_gdt := (gdt, of_nat (8 * length gdt64) - 1), e_cr4 := bts 5 (e_cr4 c),
       e_msr := (e_msr c)(IA32_EFER := bts 8 (e_msr c IA32_EFER)), e_cr0 := bts 31 (e_cr0 c), e_cs := 8\<rparr>"

text \<open>\<open>wrmsr\<close>: the number in \<open>rdi\<close>, the value in \<open>rsi\<close>, split into \<open>edx:eax\<close>; then it returns.\<close>

definition wrmsr :: "bytes \<Rightarrow> entry_cpu \<Rightarrow> kerror + entry_cpu" where
  "wrmsr m c =
     (let ecx = ucast (e_rdi c); eax = ucast (e_rsi c) :: u32; c = c\<lparr>e_rsi := drop_bit 32 (e_rsi c)\<rparr>;
          edx = ucast (e_rsi c) :: u32;
          c = c\<lparr>e_msr := (e_msr c)(ecx := push_bit 32 (ucast edx) OR ucast eax)\<rparr> in
      bind_ok (load64 m (e_rsp c)) (\<lambda>ret. Inr (c\<lparr>e_rip := ret, e_rsp := e_rsp c + 8\<rparr>)))"

text \<open>A secondary processor takes its stack from the block below 0x7000 and then runs on into
  \<open>wrmsr\<close>.\<close>

definition entry64mp :: "bytes \<Rightarrow> entry_cpu \<Rightarrow> kerror + entry_cpu" where
  "entry64mp m c = bind_ok (load64 m (0x7000 - 16)) (\<lambda>sp. wrmsr m (c\<lparr>e_rsp := sp\<rparr>))"

definition entry64high :: "u64 \<Rightarrow> bytes \<Rightarrow> entry_cpu \<Rightarrow> kerror + entry_cpu" where
  "entry64high main m c =
     (let c = c\<lparr>e_data := replicate 5 0\<rparr> in
      if (ucast (e_rbx c) :: u32) \<noteq> 0 then entry64mp m c
      else Inr (c\<lparr>e_rsp := 0xFFFFFFFF80010000, e_rip := main\<rparr>))"

definition mboot_entry :: "u64 \<Rightarrow> u64 \<Rightarrow> entry_cpu \<Rightarrow> bytes \<Rightarrow> kerror + entry_cpu \<times> bytes" where
  "mboot_entry gdt main c m =
     bind_ok (bootstrap_tables m) (\<lambda>m.
     bind_ok (entry64high main m (entry32mp gdt (c\<lparr>e_rbx := 0\<rparr>))) (\<lambda>c. Inr (c, m)))"

text \<open>When the processor runs 64-bit code: protection, paging, address extension and long mode are
  enabled and the code segment has the present bit, the code bits and the long bit.\<close>

definition in_long_mode :: "entry_cpu \<Rightarrow> bool" where
  "in_long_mode c \<longleftrightarrow> bit (e_cr0 c) 0 \<and> bit (e_cr0 c) 31 \<and> bit (e_cr4 c) 5 \<and> bit (e_msr c IA32_EFER) 8
     \<and> e_cs c = 8 \<and> snd (e_gdt c) = 23
     \<and> bit (gdt64 ! 1) 43 \<and> bit (gdt64 ! 1) 44 \<and> bit (gdt64 ! 1) 47 \<and> bit (gdt64 ! 1) 53"

subsection \<open>The processor's address translation\<close>

definition walk_entry :: "bytes \<Rightarrow> u64 \<Rightarrow> u64 \<Rightarrow> u64 option" where
  "walk_entry m t i = (case load64 m (t + 8 * i) of
     Inl _ \<Rightarrow> None | Inr e \<Rightarrow> if bit e 0 then Some e else None)"

definition frame_of :: "u64 \<Rightarrow> u64" where "frame_of e = e AND 0x000FFFFFFFFFF000"

definition canonical :: "u64 \<Rightarrow> bool" where
  "canonical va \<longleftrightarrow> va < 0x0000800000000000 \<or> 0xFFFF800000000000 \<le> va"

text \<open>Four levels; bit 7 marks a page of 1GB in the second and of 2MB in the third.\<close>

definition cpu_walk :: "bytes \<Rightarrow> u64 \<Rightarrow> u64 \<Rightarrow> u64 option" where
  "cpu_walk m cr3 va =
     (if \<not> canonical va then None else
      Option.bind (walk_entry m (frame_of cr3) (PML4X va)) (\<lambda>e4.
      Option.bind (walk_entry m (frame_of e4) (PDPTX va)) (\<lambda>e3.
      if bit e3 7 then Some ((e3 AND 0x000FFFFFC0000000) + (va AND 0x3FFFFFFF)) else
      Option.bind (walk_entry m (frame_of e3) (PDX va)) (\<lambda>e2.
      if bit e2 7 then Some ((e2 AND 0x000FFFFFFFE00000) + (va AND 0x1FFFFF)) else
      Option.bind (walk_entry m (frame_of e2) (PTX va)) (\<lambda>e1.
      Some (frame_of e1 + OFFSET va))))))"

text \<open>Memory as 64-bit code sees it.\<close>

definition seen :: "bytes \<Rightarrow> u64 \<Rightarrow> bytes" where
  "seen m cr3 = (\<lambda>va. Option.bind (cpu_walk m cr3 va) m)"

end
