(* ===== verification/EntryProps.thy ===== *)
theory EntryProps
  imports Entry
begin

text \<open>
  The first page tables, and the path from the boot sector to \<open>main\<close>.
\<close>

subsection \<open>A block of 32-bit words\<close>

definition dwords_at :: "u64 \<Rightarrow> nat \<Rightarrow> (nat \<Rightarrow> u32) \<Rightarrow> bytes \<Rightarrow> bytes \<Rightarrow> bool" where
  "dwords_at a n tbl m0 m \<longleftrightarrow> (\<forall>w<n. \<forall>k<4. m (a + of_nat (4 * w + k)) = Some (word_byte (tbl w) k))
     \<and> (\<forall>p. (\<forall>j<4 * n. p \<noteq> a + of_nat j) \<longrightarrow> m p = m0 p)"

lemma dwords_atD:
  "dwords_at a n tbl m0 m \<Longrightarrow> w < n \<Longrightarrow> k < 4 \<Longrightarrow> m (a + of_nat (4 * w + k)) = Some (word_byte (tbl w) k)"
  unfolding dwords_at_def by blast

lemma dwords_at_mapped:
  assumes "dwords_at a n tbl m0 m" "w < n"
  shows "mapped m (a + of_nat (4 * w)) 4"
  unfolding mapped_def
proof (intro allI impI)
  fix k :: nat assume "k < 4"
  have "a + of_nat (4 * w) + of_nat k = a + of_nat (4 * w + k)" by simp
  then show "a + of_nat (4 * w) + of_nat k \<in> dom m"
    using dwords_atD [OF assms \<open>k < 4\<close>] by (simp only: domI)
qed

lemma dwords_at_store:
  assumes m: "dwords_at a n tbl m0 m" and w: "w < n" "4 * n < 2 ^ 64"
  shows "\<exists>m'. store32 (a + of_nat (4 * w)) v m = Inr m' \<and> dwords_at a n (tbl(w := v)) m0 m'"
proof -
  let ?a = "a + of_nat (4 * w)" and ?f = "\<lambda>k. Some (word_byte v k)"
  have at: "?a + of_nat j = a + of_nat (4 * w + j)" for j by (simp add: add.assoc)
  have "store32 ?a v m = Inr (written ?a 4 ?f m)" using dwords_at_mapped [OF m w(1)] by (rule store32_written)
  moreover have "dwords_at a n (tbl(w := v)) m0 (written ?a 4 ?f m)"
    unfolding dwords_at_def
  proof (intro conjI allI impI)
    fix w' k :: nat assume k: "w' < n" "k < 4"
    show "written ?a 4 ?f m (a + of_nat (4 * w' + k)) = Some (word_byte ((tbl(w := v)) w') k)"
    proof (cases "w' = w")
      case True
      then show ?thesis using k written_at [of k 4 ?a ?f m] unfolding at by simp
    next
      case False
      have "4 * w + i \<noteq> 4 * w' + k" if "i < 4" for i using False that k(2) by presburger
      then have "?a + of_nat i \<noteq> a + of_nat (4 * w' + k)" if "i < 4" for i
        unfolding at using that k w by (intro offset_neq) simp_all
      then have "written ?a 4 ?f m (a + of_nat (4 * w' + k)) = m (a + of_nat (4 * w' + k))"
        by (rule written_other)
      then show ?thesis using m k False by (simp add: dwords_at_def)
    qed
  next
    fix p assume p: "\<forall>j<4 * n. p \<noteq> a + of_nat j"
    then have neq: "a + of_nat j \<noteq> p" if "j < 4 * n" for j using that by metis
    have "written ?a 4 ?f m p = m p" using w by (intro written_other) (unfold at, intro neq, simp)
    then show "written ?a 4 ?f m p = m0 p" using m p by (simp add: dwords_at_def)
  qed
  ultimately show ?thesis by blast
qed

lemma dwords_at_load64:
  assumes m: "dwords_at a n tbl m0 m" and q: "Suc (2 * q) < n"
  shows "load64 m (a + of_nat (8 * q)) = Inr (ucast (tbl (2 * q)) OR push_bit 32 (ucast (tbl (Suc (2 * q)))))"
proof -
  let ?w = "ucast (tbl (2 * q)) OR push_bit 32 (ucast (tbl (Suc (2 * q)))) :: u64"
  have "m (a + of_nat (8 * q) + of_nat k) = Some (ucast (drop_bit (8 * k) ?w))" if k: "k < 8" for k
  proof (cases "k < 4")
    case True
    have "(ucast (drop_bit (8 * k) ?w) :: u8) = word_byte (tbl (2 * q)) k"
      using True by (intro bit_word_eqI) (auto simp: word_byte_def bit_simps)
    moreover have "m (a + of_nat (4 * (2 * q) + k)) = Some (word_byte (tbl (2 * q)) k)"
      using q True by (intro dwords_atD [OF m]) simp_all
    ultimately show ?thesis by (simp add: add.assoc)
  next
    case False
    have shift: "8 * (k - 4) + n = 8 * k + n - 32" for n using False by simp
    have "(ucast (drop_bit (8 * k) ?w) :: u8) = word_byte (tbl (Suc (2 * q))) (k - 4)"
      using False k
      by (intro bit_word_eqI) (auto simp: word_byte_def bit_simps shift dest: bit_imp_le_length)
    moreover have "m (a + of_nat (4 * Suc (2 * q) + (k - 4))) = Some (word_byte (tbl (Suc (2 * q))) (k - 4))"
      using q k by (intro dwords_atD [OF m]) simp_all
    moreover have "4 * Suc (2 * q) + (k - 4) = 8 * q + k" using False by simp
    ultimately show ?thesis by (simp add: add.assoc)
  qed
  then have "load_le 8 m (a + of_nat (8 * q)) = Inr (take_bit (8 * 8) ?w)" by (rule load_le_bytes)
  moreover have "take_bit (8 * 8) ?w = ?w" by (intro bit_word_eqI) (auto simp: bit_simps)
  ultimately show ?thesis by (simp add: load64_def)
qed

subsection \<open>The tables\<close>

text \<open>The 32-bit words from 0x1000 on.\<close>

definition boot_words :: "nat \<Rightarrow> nat \<Rightarrow> u32" where
  "boot_words n w =
     (if 0xC00 \<le> w \<and> w < 0xC00 + 2 * n \<and> even w then 0x83 + 0x200000 * of_nat ((w - 0xC00) div 2)
      else if w = 0 then 0x2003 else if w = 0x3FE then 0x3003
      else if w = 0x400 \<or> w = 0xBFC then 0x4003 else 0)"

lemma ptbl_loop_fills:
  "dwords_at 0x1000 0x1400 (boot_words i) m0 m \<Longrightarrow> i + n \<le> 512 \<Longrightarrow>
    \<exists>m'. ptbl_loop n (0x83 + 0x200000 * of_nat i) (0x4000 + 8 * of_nat i) m = Inr m'
      \<and> dwords_at 0x1000 0x1400 (boot_words (i + n)) m0 m'"
proof (induction n arbitrary: i m)
  case (Suc n)
  let ?w = "0xC00 + 2 * i" and ?v = "0x83 + 0x200000 * of_nat i"
  have "(ucast (0x4000 + of_nat (8 * i) :: u32) :: u64) = 0x4000 + of_nat (8 * i)"
    using ucast_plus(1) [of "0x4000 :: u32" "8 * i"] Suc.prems(2) by simp
  then have addr: "(ucast (0x4000 + 8 * of_nat i :: u32) :: u64) = 0x1000 + of_nat (4 * ?w)" by simp
  obtain m1 where m1: "store32 (0x1000 + of_nat (4 * ?w)) ?v m = Inr m1"
      "dwords_at 0x1000 0x1400 ((boot_words i)(?w := ?v)) m0 m1"
    using dwords_at_store [OF Suc.prems(1), of ?w ?v] Suc.prems(2) by auto
  have "(boot_words i)(?w := ?v) = boot_words (Suc i)"
  proof
    fix w
    have "even w \<Longrightarrow> ?w < w \<Longrightarrow> \<not> w < 0xC00 + 2 * Suc i" by presburger
    moreover have "w = ?w \<or> w < ?w \<or> ?w < w" by linarith
    ultimately show "((boot_words i)(?w := ?v)) w = boot_words (Suc i) w"
      by (auto simp: boot_words_def)
  qed
  with m1(2) have "dwords_at 0x1000 0x1400 (boot_words (Suc i)) m0 m1" by simp
  from Suc.IH [OF this] Suc.prems(2) obtain m' where
    "ptbl_loop n (0x83 + 0x200000 * of_nat (Suc i)) (0x4000 + 8 * of_nat (Suc i)) m1 = Inr m'"
    "dwords_at 0x1000 0x1400 (boot_words (Suc i + n)) m0 m'" by auto
  moreover have "ptbl_loop (Suc n) ?v (0x4000 + 8 * of_nat i) m
      = ptbl_loop n (?v + 0x200000) (0x4000 + 8 * of_nat i + 8) m1"
    by (simp only: ptbl_loop.simps addr m1(1) bind_ok_simps)
  moreover have "?v + 0x200000 = 0x83 + 0x200000 * of_nat (Suc i)"
    "(0x4000 + 8 * of_nat i + 8 :: u32) = 0x4000 + 8 * of_nat (Suc i)" by (simp_all add: algebra_simps)
  ultimately show ?case by simp
qed simp

lemma bootstrap_tables_words:
  assumes "mapped m 0x1000 0x5000"
  shows "\<exists>m'. bootstrap_tables m = Inr m' \<and> dwords_at 0x1000 0x1400 (boot_words 512) m m'"
proof -
  let ?z = "written 0x1000 0x5000 (\<lambda>_. Some 0) m"
  have z: "stosb 0x1000 0 0x5000 m = Inr ?z" using stosb_written [OF assms, of 0] by simp
  have w0: "dwords_at 0x1000 0x1400 (\<lambda>_. 0) m ?z"
    unfolding dwords_at_def
  proof (intro conjI allI impI)
    fix w k :: nat assume "w < 0x1400" "k < 4"
    then show "?z (0x1000 + of_nat (4 * w + k)) = Some (word_byte 0 k)"
      by (subst written_at) (simp_all add: word_byte_def)
  next
    fix p :: u64 assume p: "\<forall>j<4 * 0x1400. p \<noteq> 0x1000 + of_nat j"
    then have "0x1000 + of_nat j \<noteq> p" if "j < 0x5000" for j using that by simp metis
    then show "?z p = m p" by (rule written_other)
  qed
  obtain m1 where m1: "store32 0x1000 0x2003 ?z = Inr m1" "dwords_at 0x1000 0x1400 ((\<lambda>_. 0)(0 := 0x2003)) m m1"
    using dwords_at_store [OF w0, of 0 "0x2003"] by auto
  obtain m2 where m2: "store32 0x1FF8 0x3003 m1 = Inr m2"
      "dwords_at 0x1000 0x1400 ((\<lambda>_. 0)(0 := 0x2003, 0x3FE := 0x3003)) m m2"
    using dwords_at_store [OF m1(2), of "0x3FE" "0x3003"] by auto
  obtain m3 where m3: "store32 0x2000 0x4003 m2 = Inr m3"
      "dwords_at 0x1000 0x1400 ((\<lambda>_. 0)(0 := 0x2003, 0x3FE := 0x3003, 0x400 := 0x4003)) m m3"
    using dwords_at_store [OF m2(2), of "0x400" "0x4003"] by auto
  obtain m4 where m4: "store32 0x3FF0 0x4003 m3 = Inr m4"
      "dwords_at 0x1000 0x1400 ((\<lambda>_. 0)(0 := 0x2003, 0x3FE := 0x3003, 0x400 := 0x4003, 0xBFC := 0x4003)) m m4"
    using dwords_at_store [OF m3(2), of "0xBFC" "0x4003"] by auto
  have "(\<lambda>_. 0)(0 := 0x2003, 0x3FE := 0x3003, 0x400 := 0x4003, 0xBFC := 0x4003) = boot_words 0"
    by (auto simp: boot_words_def fun_eq_iff)
  with m4(2) have "dwords_at 0x1000 0x1400 (boot_words 0) m m4" by simp
  from ptbl_loop_fills [OF this, of 512] show ?thesis
    using z m1(1) m2(1) m3(1) m4(1) by (simp add: bootstrap_tables_def)
qed

subsection \<open>The translation\<close>

definition boot_entry :: "nat \<Rightarrow> u64" where
  "boot_entry q = (if q = 0 then 0x2003 else if q = 0x1FF then 0x3003 else if q = 0x200 \<or> q = 0x5FE then 0x4003
     else if 0x600 \<le> q \<and> q < 0x800 then 0x83 + 0x200000 * of_nat (q - 0x600) else 0)"

lemma boot_entry_words:
  "ucast (boot_words 512 (2 * q)) OR push_bit 32 (ucast (boot_words 512 (Suc (2 * q)))) = boot_entry q"
proof -
  have "2 * q \<noteq> 1021" "2 * q \<noteq> 1023" "2 * q \<noteq> 3067" by presburger+
  then have odd: "boot_words 512 (Suc (2 * q)) = 0" by (auto simp: boot_words_def)
  have "(ucast (0x83 + 0x200000 * of_nat i :: u32) :: u64) = 0x83 + 0x200000 * of_nat i" if "i < 512" for i
    using ucast_plus(1) [of "0x83 :: u32" "0x200000 * i"] that by simp
  then have large: "ucast (boot_words 512 (2 * (0x600 + i))) = boot_entry (0x600 + i)" if "i < 512" for i
    using that by (simp add: boot_words_def boot_entry_def)
  have "ucast (boot_words 512 (2 * q)) = boot_entry q"
  proof (cases "0x600 \<le> q \<and> q < 0x800")
    case True
    then have "q - 0x600 < 512" by linarith
    with True show ?thesis using large [of "q - 0x600"] by simp
  qed (auto simp: boot_words_def boot_entry_def)
  with odd show ?thesis by simp
qed

lemma boot_walk_entry:
  assumes "dwords_at 0x1000 0x1400 (boot_words 512) m0 m" "q < 0x800"
  shows "load64 m (0x1000 + 8 * of_nat q) = Inr (boot_entry q)"
  using dwords_at_load64 [OF assms(1), of q] assms(2) unfolding boot_entry_words by simp

lemma unat_index: "unat (drop_bit n (va :: u64) AND 0x1FF) = unat va div 2 ^ n mod 512"
proof -
  have "drop_bit n va AND 0x1FF = take_bit 9 (drop_bit n va)"
    by (simp add: take_bit_eq_mask mask_eq_exp_minus_1)
  then show ?thesis
    by (simp only: unsigned_take_bit_eq unat_drop_bit_eq) (simp add: drop_bit_eq_div take_bit_eq_mod)
qed

lemma walk_boot:
  assumes m: "dwords_at 0x1000 0x1400 (boot_words 512) m0 m" and "i < 512" "t < 4"
  shows "walk_entry m (0x1000 + 0x1000 * of_nat t) i
    = (if bit (boot_entry (512 * t + unat i)) 0 then Some (boot_entry (512 * t + unat i)) else None)"
proof -
  have "unat i < 512" using assms(2) by (simp add: word_less_nat_alt)
  moreover have "0x1000 + 0x1000 * of_nat t + 8 * i = (0x1000 + 8 * of_nat (512 * t + unat i) :: u64)"
    by (simp add: algebra_simps)
  ultimately show ?thesis using boot_walk_entry [OF m, of "512 * t + unat i"] assms(3)
    by (simp add: walk_entry_def add.assoc)
qed

text \<open>A canonical address by its four indices and the offset in a page of 2MB.\<close>

lemma index_values:
  "unat (PML4X va) = unat va div 2 ^ 39 mod 512" "unat (PDPTX va) = unat va div 2 ^ 30 mod 512"
  "unat (PDX va) = unat va div 2 ^ 21 mod 512"
  by (simp_all only: PML4X_def PDPTX_def PDX_def PXMASK_def PML4XSHIFT_def PDPTXSHIFT_def PDXSHIFT_def unat_index)

lemma low_window:
  assumes "canonical va"
  shows "unat (PML4X va) = 0 \<and> unat (PDPTX va) = 0 \<longleftrightarrow> va < 0x40000000"
    and "unat (PML4X va) = 511 \<and> unat (PDPTX va) = 510 \<longleftrightarrow> KERNBASE \<le> va \<and> va < KERNBASE + 0x40000000"
proof -
  define n h where "n = unat va" and "h = n div 2 ^ 39"
  let ?l = "n div 2 ^ 30 mod 512"
  have "n < 2 ^ 64" unfolding n_def using unsigned_less [of va, where 'a = nat] by simp
  moreover have "n < 2 ^ 47 \<or> 2 ^ 64 - 2 ^ 47 \<le> n"
    using assms by (simp add: canonical_def n_def word_less_nat_alt word_le_nat_alt)
  moreover have n: "n = 2 ^ 39 * h + n mod 2 ^ 39" "n mod 2 ^ 39 < 2 ^ 39" by (simp_all add: h_def)
  ultimately have h: "h < 256 \<or> 33554176 \<le> h \<and> h < 33554432" by (auto simp: h_def)
  have h_mod: "h mod 512 = (if h < 256 then h else h - 33553920)"
  proof (cases "h < 256")
    case False
    then have "33553920 \<le> h" using h by simp
    then obtain r where "h = 33553920 + r" by (auto simp: le_iff_add)
    moreover have "(r + 65535 * 512) mod 512 = r mod 512" by (rule mod_mult_self1)
    ultimately show ?thesis using h False by (simp add: add.commute)
  qed simp
  define l r where "l = n div 2 ^ 30 mod 512" and "r = n mod 2 ^ 30"
  have "n div 2 ^ 30 div 512 = h" unfolding h_def by (simp add: div_mult2_eq [symmetric])
  then have "n = 2 ^ 30 * (512 * h + l) + r"
    unfolding l_def r_def by (metis div_mult_mod_eq mult.commute)
  moreover have "l < 512" "r < 2 ^ 30" by (simp_all add: l_def r_def)
  ultimately have n30: "n = 549755813888 * h + 1073741824 * l + r" "l < 512" "r < 1073741824" by simp_all
  show "unat (PML4X va) = 0 \<and> unat (PDPTX va) = 0 \<longleftrightarrow> va < 0x40000000"
    unfolding index_values word_less_nat_alt n_def [symmetric] h_def [symmetric] h_mod l_def [symmetric]
    using h n30 by simp linarith
  have "h - 33553920 = 511 \<and> l = 510 \<longleftrightarrow> 18446744071562067968 \<le> n \<and> n < 18446744072635809792"
    if "\<not> h < 256"
  proof
    assume n: "18446744071562067968 \<le> n \<and> n < 18446744072635809792"
    then have g: "h = 33554431" using that h n30 by linarith
    have "l = 510" using g n n30 by linarith
    with g show "h - 33553920 = 511 \<and> l = 510" by simp
  qed (use that n30 in linarith)
  moreover have "\<not> 18446744071562067968 \<le> n" if "h < 256" using that n30 by linarith
  ultimately show "unat (PML4X va) = 511 \<and> unat (PDPTX va) = 510 \<longleftrightarrow> KERNBASE \<le> va \<and> va < KERNBASE + 0x40000000"
    unfolding index_values word_less_nat_alt word_le_nat_alt KERNBASE_def n_def [symmetric] h_def [symmetric]
      h_mod l_def [symmetric] by auto
qed

text \<open>An entry for a page of 2MB.\<close>

lemma large_page_entry:
  assumes "i < (512 :: u64)"
  defines "e \<equiv> 0x83 + 0x200000 * i"
  shows "bit e 0" "bit e 7" "e AND 0x000FFFFFFFE00000 = 0x200000 * i"
proof -
  have "unat (take_bit 9 i) = unat i"
    using assms(1) by (simp add: unsigned_take_bit_eq take_bit_nat_eq_self word_less_nat_alt)
  then have i: "take_bit 9 i = i" by (simp add: word_unat_eq_iff)
  have high: "\<not> bit i n" if "9 \<le> n" for n
    using that by (subst i [symmetric]) (simp add: bit_take_bit_iff)
  have low: "\<not> bit (0x83 :: u64) n" if "8 \<le> n" for n
  proof -
    have "(0x83 :: u64) = take_bit 8 0x83" by simp
    then show ?thesis using that by (metis bit_take_bit_iff not_le)
  qed
  have push: "0x200000 * i = push_bit 21 i" by (simp add: push_bit_eq_mult)
  have e: "e = 0x83 OR push_bit 21 i"
    unfolding e_def push using low by (intro disjunctive_add) (auto simp: bit_simps)
  show "bit e 0" "bit e 7" unfolding e by (simp_all add: bit_simps)
  have "(0x000FFFFFFFE00000 :: u64) = push_bit 21 (mask 31)" by (simp add: mask_eq_exp_minus_1 push_bit_eq_mult)
  then have frame: "bit (0x000FFFFFFFE00000 :: u64) n \<longleftrightarrow> 21 \<le> n \<and> n < 52" for n
    by (simp only: bit_push_bit_iff bit_mask_iff) auto
  show "e AND 0x000FFFFFFFE00000 = 0x200000 * i"
    unfolding e push
  proof (rule bit_word_eqI)
    fix n
    show "bit ((0x83 OR push_bit 21 i) AND 0x000FFFFFFFE00000) n \<longleftrightarrow> bit (push_bit 21 i) n"
      unfolding bit_and_iff bit_or_iff frame using low [of n] high [of "n - 21"]
      by (cases "n - 21 < 9") (auto simp: bit_push_bit_iff)
  qed
qed

lemma large_page_address:
  assumes "a < (0x40000000 :: u64)"
  shows "0x200000 * PDX a + (a AND 0x1FFFFF) = a"
proof -
  have "(0x1FFFFF :: u64) = mask 21" by (simp add: mask_eq_exp_minus_1)
  then have "a AND 0x1FFFFF = take_bit 21 a" by (simp add: take_bit_eq_mask)
  then have low: "unat (a AND 0x1FFFFF) = unat a mod 2 ^ 21"
    by (simp only: unsigned_take_bit_eq) (simp add: take_bit_eq_mod)
  have "unat a < 2 ^ 30" using assms by (simp add: word_less_nat_alt)
  then have "unat a div 2 ^ 21 < 512" by (simp add: less_mult_imp_div_less)
  then have i: "unat (PDX a) = unat a div 2 ^ 21" by (simp add: index_values)
  have "unat (0x200000 * PDX a + (a AND 0x1FFFFF)) = (2 ^ 21 * (unat a div 2 ^ 21) + unat a mod 2 ^ 21) mod 2 ^ 64"
    by (simp only: unat_word_ariths low i) (simp add: mod_simps)
  also have "\<dots> = unat a" using unsigned_less [of a, where 'a = nat] by simp
  finally show ?thesis by (simp only: word_unat_eq_iff)
qed

lemma high_page_address:
  assumes "KERNBASE \<le> va" "va < KERNBASE + 0x40000000"
  shows "va - KERNBASE < 0x40000000" "PDX va = PDX (va - KERNBASE)"
    "va AND 0x1FFFFF = (va - KERNBASE) AND 0x1FFFFF"
proof -
  define a where "a = va - KERNBASE"
  have va: "va = KERNBASE + a" by (simp add: a_def)
  have k: "unat KERNBASE = 18446744071562067968" by (simp add: KERNBASE_def)
  have "unat a = unat va - unat KERNBASE" using assms(1) by (simp add: a_def unat_diff word_le_nat_alt)
  moreover have "unat va < unat KERNBASE + 0x40000000"
    using assms(2) by (simp add: word_less_nat_alt KERNBASE_def)
  ultimately have "unat a < 0x40000000" by (simp add: k)
  then show "va - KERNBASE < 0x40000000" by (simp add: a_def [symmetric] word_less_nat_alt)
  have n: "unat va = unat a + 2 ^ 21 * (512 * 17179869182)"
    using \<open>unat a = unat va - unat KERNBASE\<close> assms(1) by (simp add: k word_le_nat_alt)
  have d: "(unat a + 2 ^ 21 * c) div 2 ^ 21 = c + unat a div 2 ^ 21" for c :: nat
    by (rule div_mult_self2) simp
  have "unat va div 2 ^ 21 mod 512 = unat a div 2 ^ 21 mod 512"
    unfolding n d by (rule mod_mult_self4)
  then show "PDX va = PDX (va - KERNBASE)"
    by (simp only: a_def [symmetric] word_unat_eq_iff index_values)
  have "va AND 0x1FFFFF = take_bit 21 va" "a AND 0x1FFFFF = take_bit 21 a"
    by (simp_all add: take_bit_eq_mask mask_eq_exp_minus_1)
  moreover have "unat (take_bit 21 va) = unat (take_bit 21 a)"
    unfolding unsigned_take_bit_eq unfolding take_bit_eq_mod n by (rule mod_mult_self2)
  ultimately show "va AND 0x1FFFFF = (va - KERNBASE) AND 0x1FFFFF"
    by (simp only: a_def [symmetric] word_unat_eq_iff)
qed

lemma boot_walk:
  assumes m: "dwords_at 0x1000 0x1400 (boot_words 512) m0 m"
  shows "cpu_walk m 0x1000 va = (if va < 0x40000000 then Some va
    else if KERNBASE \<le> va \<and> va < KERNBASE + 0x40000000 then Some (va - KERNBASE) else None)"
proof (cases "canonical va")
  case False
  have "canonical va" if "va < 0x40000000 \<or> KERNBASE \<le> va"
    using that by (auto simp: canonical_def KERNBASE_def word_less_nat_alt word_le_nat_alt)
  then show ?thesis using False by (auto simp: cpu_walk_def)
next
  case True
  let ?i4 = "unat (PML4X va)" and ?i3 = "unat (PDPTX va)"
  have small: "?i4 < 512" "?i3 < 512" "unat (PDX va) < 512"
    by (simp_all add: index_values)
  have w4: "walk_entry m 0x1000 (PML4X va) = (if ?i4 = 0 then Some 0x2003 else if ?i4 = 511 then Some 0x3003 else None)"
    using walk_boot [OF m index_bounds(1), of 0] small by (simp add: boot_entry_def)
  have w3: "walk_entry m 0x2000 (PDPTX va) = (if ?i3 = 0 then Some 0x4003 else None)"
    using walk_boot [OF m index_bounds(2), of 1] small by (simp add: boot_entry_def)
  have w3': "walk_entry m 0x3000 (PDPTX va) = (if ?i3 = 510 then Some 0x4003 else None)"
    using walk_boot [OF m index_bounds(2), of 2] small by (simp add: boot_entry_def)
  let ?e = "boot_entry (1536 + unat (PDX va))"
  have "?e = 0x83 + 0x200000 * PDX va" using small by (simp add: boot_entry_def)
  then have page: "bit ?e 0" "bit ?e 7" "?e AND 0x000FFFFFFFE00000 = 0x200000 * PDX va"
    by (simp_all only: large_page_entry [OF index_bounds(3)])
  have w2: "walk_entry m 0x4000 (PDX va) = Some ?e"
    using walk_boot [OF m index_bounds(3), of 3] page(1) by simp
  have low: "?i4 = 0 \<and> ?i3 = 0 \<longleftrightarrow> va < 0x40000000"
    and high: "?i4 = 511 \<and> ?i3 = 510 \<longleftrightarrow> KERNBASE \<le> va \<and> va < KERNBASE + 0x40000000"
    using low_window [OF True] by blast+
  have walk: "cpu_walk m 0x1000 va = (if ?i4 = 0 \<and> ?i3 = 0 \<or> ?i4 = 511 \<and> ?i3 = 510
      then Some (0x200000 * PDX va + (va AND 0x1FFFFF)) else None)"
    using True by (simp add: cpu_walk_def frame_of_def w4 w3 w3' w2 page bit_simps)
  show ?thesis
  proof (cases "va < 0x40000000")
    case True
    then show ?thesis unfolding walk low using large_page_address by simp
  next
    case False
    show ?thesis
    proof (cases "KERNBASE \<le> va \<and> va < KERNBASE + 0x40000000")
      case True
      note a = high_page_address [OF conjunct1 [OF True] conjunct2 [OF True]]
      have "0x200000 * PDX va + (va AND 0x1FFFFF) = va - KERNBASE"
        unfolding a(2,3) by (rule large_page_address [OF a(1)])
      then show ?thesis unfolding walk low high using False True by simp
    qed (use False in \<open>auto simp: walk low high\<close>)
  qed
qed

end
