(* ===== verification/AcpiProps.thy ===== *)
theory AcpiProps
  imports StartProps ConsoleProps
begin

text \<open>
  The kernel's own messages never fail, and what \<open>acpi_config_smp\<close> takes from a well-formed table of
  interrupt controllers.
\<close>

subsection \<open>Messages\<close>

text \<open>A format without \<open>%s\<close>, and the number of its arguments.\<close>

fun string_free :: "string \<Rightarrow> bool" where
  "string_free [] \<longleftrightarrow> True"
| "string_free (c # fmt) \<longleftrightarrow> (if c \<noteq> CHR ''%'' then string_free fmt else
     case fmt of [] \<Rightarrow> True | d # fmt \<Rightarrow> d \<noteq> CHR ''s'' \<and> string_free fmt)"

fun conversions :: "string \<Rightarrow> nat" where
  "conversions [] = 0"
| "conversions (c # fmt) = (if c \<noteq> CHR ''%'' then conversions fmt else
     case fmt of [] \<Rightarrow> 0
     | d # fmt \<Rightarrow> (if d \<in> {CHR ''d'', CHR ''x'', CHR ''l'', CHR ''p''} then 1 else 0) + conversions fmt)"

lemma number_ok:
  "\<exists>cs. printint x 10 True = Inr cs" "\<exists>cs. printint x 16 False = Inr cs" "\<exists>cs. printlong y 16 s = Inr cs"
proof -
  have d: "\<exists>ds. digit_loop 10 z [] = Inr ds \<and> length ds \<le> 10" for z :: u32
  proof -
    have "unat z < unat (10 :: u32) ^ 10" using unsigned_less [of z, where 'a = nat] by simp
    from digit_loop_spec [of 10, OF _ _ this, of "[]"] show ?thesis by auto
  qed
  have "unat x < unat (16 :: u32) ^ 8" using unsigned_less [of x, where 'a = nat] by simp
  from digit_loop_spec [of 16, OF _ _ this, of "[]"] show "\<exists>cs. printint x 16 False = Inr cs"
    by (auto simp: printint_def)
  have "unat y < unat (16 :: u64) ^ 16" using unsigned_less [of y, where 'a = nat] by simp
  from digit_loop_spec [of 16, OF _ _ this, of "[]"] show "\<exists>cs. printlong y 16 s = Inr cs"
    by (auto simp: printlong_def)
  let ?n = "sint x < 0"
  obtain ds where "digit_loop 10 (if ?n then - x else x) [] = Inr ds" "length ds \<le> 10" using d by blast
  then show "\<exists>cs. printint x 10 True = Inr cs"
    by (auto simp: printint_def push_char_def Let_def split: if_splits)
qed

lemma format_ok:
  "string_free fmt \<Longrightarrow> conversions fmt \<le> length args \<Longrightarrow> \<exists>cs. format m fmt args = Some (Inr cs)"
proof (induction fmt arbitrary: args rule: string_free.induct)
  case (2 c fmt)
  show ?case
  proof (cases "c = CHR ''%''")
    case False
    then obtain cs where "format m fmt args = Some (Inr cs)" using 2 by auto
    then show ?thesis using False by (simp add: emit_def)
  next
    case True
    show ?thesis
    proof (cases fmt)
      case (Cons d rest)
      have free: "d \<noteq> CHR ''s''" "string_free rest" using 2(3) True Cons by simp_all
      have IH: "\<exists>cs. format m rest as = Some (Inr cs)" if "conversions rest \<le> length as" for as
        using 2(2) True Cons free that by simp
      show ?thesis
      proof (cases "d \<in> {CHR ''d'', CHR ''x'', CHR ''l'', CHR ''p''}")
        case conv: True
        have len: "Suc (conversions rest) \<le> length args" using 2(4) True Cons conv by (simp split: if_splits)
        then obtain a as where args: "args = a # as" by (cases args) auto
        obtain cs where "format m rest as = Some (Inr cs)" using IH [of as] len args by auto
        moreover obtain u v w where "printint (ucast a) 10 True = Inr u" "printint (ucast a) 16 False = Inr v"
            "printlong a 16 False = Inr w"
          using number_ok(1) [of "ucast a"] number_ok(2) [of "ucast a"] number_ok(3) [of a False] by blast
        ultimately show ?thesis using True Cons args conv by (auto simp: emit_def)
      next
        case False
        have "conversions rest \<le> length args" using 2(4) True Cons False by simp
        then obtain cs where "format m rest args = Some (Inr cs)" using IH by blast
        then show ?thesis using True Cons False free(1) by (simp add: emit_def)
      qed
    qed (use True in simp)
  qed
qed simp

lemma kprintf_ok:
  assumes "string_free fmt" "conversions fmt \<le> length args" "screen_ok (cons M)"
  shows "\<exists>c. kprintf fmt args M = Inr (M\<lparr>cons := c\<rparr>) \<and> screen_ok c"
proof -
  obtain cs where "format (byte_heap (vm M)) fmt args = Some (Inr cs)" using format_ok [OF assms(1,2)] by blast
  moreover obtain c where "fold_ok consputc cs (cons M) = Inr c" "screen_ok c"
    using consputs_on_screen [OF assms(3)] by blast
  ultimately show ?thesis by (auto simp: kprintf_def cprintf_def)
qed

lemma hprintf_ok:
  assumes "string_free fmt" "conversions fmt \<le> length args" "screen_ok (cons (hmach H))"
  shows "\<exists>c. hprintf fmt args H = Inr (H\<lparr>hmach := hmach H\<lparr>cons := c\<rparr>\<rparr>) \<and> screen_ok c"
  using kprintf_ok [OF assms] by (auto simp: hprintf_def)

subsection \<open>Tables of interrupt controllers\<close>

text \<open>An entry is its bytes: the type, the length and the rest.\<close>

definition sound_entry :: "u8 list \<Rightarrow> bool" where
  "sound_entry b \<longleftrightarrow> 2 \<le> length b \<and> length b < 256 \<and> b ! 1 = of_nat (length b)"

definition enabled_cpu :: "u8 list \<Rightarrow> bool" where
  "enabled_cpu b \<longleftrightarrow> b ! 0 = 0 \<and> 8 \<le> length b \<and> bit (b ! 4) 0"

definition is_ioapic :: "u8 list \<Rightarrow> bool" where
  "is_ioapic b \<longleftrightarrow> b ! 0 = 1 \<and> 12 \<le> length b"

definition apic_ids :: "u8 list list \<Rightarrow> u8 list" where
  "apic_ids es = map (\<lambda>b. b ! 3) (filter enabled_cpu es)"

definition first_ioapic :: "u8 list list \<Rightarrow> u8 \<Rightarrow> u8" where
  "first_ioapic es old = (case find is_ioapic es of Some b \<Rightarrow> b ! 2 | None \<Rightarrow> old)"

definition bytes_at :: "bytes \<Rightarrow> u64 \<Rightarrow> u8 list \<Rightarrow> bool" where
  "bytes_at m p bs \<longleftrightarrow> (\<forall>i<length bs. m (p + of_nat i) = Some (bs ! i))"

lemma bytes_at_append:
  "bytes_at m p (bs @ cs) \<longleftrightarrow> bytes_at m p bs \<and> bytes_at m (p + of_nat (length bs)) cs"
proof -
  have "m (p + of_nat (length bs) + of_nat i) = Some (cs ! i)"
    if "\<forall>i<length bs + length cs. m (p + of_nat i) = Some ((bs @ cs) ! i)" "i < length cs" for i
    using that(1) [rule_format, of "length bs + i"] that(2) by (simp add: add.assoc)
  moreover have "m (p + of_nat i) = Some ((bs @ cs) ! i)"
    if "\<forall>i<length bs. m (p + of_nat i) = Some (bs ! i)"
      "\<forall>i<length cs. m (p + of_nat (length bs) + of_nat i) = Some (cs ! i)" "i < length bs + length cs" for i
  proof (cases "i < length bs")
    case False
    then obtain j where "i = length bs + j" by (metis le_Suc_ex not_less)
    then show ?thesis using that(2) [rule_format, of j] that(3) by (simp add: add.assoc)
  qed (use that(1) in \<open>simp add: nth_append\<close>)
  ultimately show ?thesis by (auto simp: bytes_at_def nth_append)
qed

lemma bytes_at_mapped: "bytes_at m p bs \<Longrightarrow> mapped m p (length bs)"
  by (auto simp: bytes_at_def mapped_def)

lemma load32_low:
  assumes "bytes_at m p bs" "k + 4 \<le> length bs"
  shows "\<exists>w. load32 m (p + of_nat k) = Inr w \<and> (w AND 1 = 0 \<longleftrightarrow> \<not> bit (bs ! k) 0)"
proof -
  have b: "m (p + of_nat k) = Some (bs ! k)" using assms by (simp add: bytes_at_def)
  have "mapped m p (k + 4)" using mapped_mono [OF bytes_at_mapped [OF assms(1)] assms(2)] .
  from mapped_drop [OF this] have "mapped m (p + of_nat k + 1) 3" by (simp add: numeral_eq_Suc mapped_Suc)
  then obtain w where w: "load_le 3 m (p + of_nat k + 1) = Inr w" using load_le_ok by blast
  have "load_le 4 m (p + of_nat k) = load_le (Suc 3) m (p + of_nat k)" by simp
  also have "\<dots> = Inr (ucast (bs ! k) OR push_bit 8 w)"
    unfolding load_le.simps using b w by simp
  finally have "load32 m (p + of_nat k) = Inr (ucast (ucast (bs ! k) OR push_bit 8 w))"
    by (simp add: load32_def)
  moreover have "bit (ucast (ucast (bs ! k) OR push_bit 8 w :: u64) :: u32) 0 \<longleftrightarrow> bit (bs ! k) 0"
    by (simp add: bit_simps)
  ultimately show ?thesis by (metis and_one_eq bit_0 even_iff_mod_2_eq_zero odd_iff_mod_2_eq_one zero_neq_one)
qed

text \<open>What one entry does.\<close>

definition took_entry :: "u8 list \<Rightarrow> u32 \<Rightarrow> hw \<Rightarrow> hw \<Rightarrow> bool" where
  "took_entry b n H H' \<longleftrightarrow> hbytes H' = hbytes H \<and> screen_ok (cons (hmach H'))
     \<and> lapic H' = lapic H \<and> ismp H' = ismp H
     \<and> ncpu H' = (if enabled_cpu b then Suc (ncpu H) else ncpu H)
     \<and> cpus H' = (if enabled_cpu b then (cpus H)[ncpu H := (of_nat (ncpu H), b ! 3)] else cpus H)
     \<and> ioapicid H' = (if is_ioapic b \<and> n = 0 then b ! 2 else ioapicid H)"

lemma madt_entry_takes:
  assumes at: "bytes_at (hbytes H) p b" and b: "sound_entry b" and ok: "screen_ok (cons (hmach H))"
    and room: "enabled_cpu b \<Longrightarrow> ncpu H < length (cpus H)"
  shows "\<exists>H'. madt_entry p (of_nat (length b)) n H = Inr (if is_ioapic b then n + 1 else n, H') \<and> took_entry b n H H'"
proof -
  have len: "unat (of_nat (length b) :: u32) = length b" using b by (simp add: sound_entry_def unat_of_nat)
  have byte: "load8 (hbytes H) (p + of_nat i) = Inr (b ! i)" if "i < length b" for i
    using at that by (simp add: bytes_at_def)
  have "0 < length b" using b by (auto simp: sound_entry_def)
  then have ty: "load8 (hbytes H) p = Inr (b ! 0)" using byte [of 0] by simp
  show ?thesis
  proof (cases "b ! 0 = TYPE_LAPIC")
    case lapic: True
    then have no_io: "\<not> is_ioapic b" by (simp add: is_ioapic_def TYPE_LAPIC_def)
    show ?thesis
    proof (cases "length b < 8")
      case True
      then show ?thesis using lapic no_io ok len
        by (intro exI [of _ H]) (simp add: madt_entry_def ty took_entry_def enabled_cpu_def word_less_nat_alt)
    next
      case long: False
      obtain w where w: "load32 (hbytes H) (p + 4) = Inr w" "w AND 1 = 0 \<longleftrightarrow> \<not> bit (b ! 4) 0"
        using load32_low [OF at, of 4] long by auto
      show ?thesis
      proof (cases "bit (b ! 4) 0")
        case False
        then show ?thesis using lapic no_io ok len long w
          by (intro exI [of _ H])
            (simp add: madt_entry_def ty took_entry_def enabled_cpu_def word_less_nat_alt APIC_LAPIC_ENABLED_def)
      next
        case True
        then have en: "enabled_cpu b" using lapic long by (simp add: enabled_cpu_def TYPE_LAPIC_def)
        have "string_free (''acpi: cpu#%d apicid %d'' @ newline)" "conversions (''acpi: cpu#%d apicid %d'' @ newline) = 2"
          by (simp_all add: newline_def)
        then obtain c where c: "hprintf (''acpi: cpu#%d apicid %d'' @ newline) [of_nat (ncpu H), ucast (b ! 3)] H
            = Inr (H\<lparr>hmach := hmach H\<lparr>cons := c\<rparr>\<rparr>)" "screen_ok c"
          using hprintf_ok [of "''acpi: cpu#%d apicid %d'' @ newline" "[of_nat (ncpu H), ucast (b ! 3)]" H] ok by auto
        show ?thesis using lapic no_io len long w True en room byte [of 3] c
          by (simp add: madt_entry_def ty took_entry_def word_less_nat_alt APIC_LAPIC_ENABLED_def)
      qed
    qed
  next
    case not_lapic: False
    then have no_cpu: "\<not> enabled_cpu b" by (simp add: enabled_cpu_def TYPE_LAPIC_def)
    show ?thesis
    proof (cases "b ! 0 = TYPE_IOAPIC \<and> 12 \<le> length b")
      case False
      then show ?thesis using not_lapic no_cpu ok len
        by (intro exI [of _ H]) (auto simp: madt_entry_def ty took_entry_def is_ioapic_def TYPE_IOAPIC_def word_less_nat_alt)
    next
      case True
      then have io: "is_ioapic b" by (simp add: is_ioapic_def TYPE_IOAPIC_def)
      let ?fmt = "''acpi: ioapic#%d @%x id=%d base=%d'' @ newline"
      obtain a where a: "load32 (hbytes H) (p + 4) = Inr a" using load32_low [OF at, of 4] True by auto
      obtain g where g: "load32 (hbytes H) (p + 8) = Inr g" using load32_low [OF at, of 8] True by auto
      have "string_free ?fmt" "conversions ?fmt = 4" by (simp_all add: newline_def)
      then obtain c where c: "hprintf ?fmt [ucast n, ucast a, ucast (b ! 2), ucast g] H
            = Inr (H\<lparr>hmach := hmach H\<lparr>cons := c\<rparr>\<rparr>)" "screen_ok c"
        using hprintf_ok [of ?fmt "[ucast n, ucast a, ucast (b ! 2), ucast g]" H] ok by auto
      have "string_free ''warning: multiple ioapics are not supported''"
        "conversions ''warning: multiple ioapics are not supported'' = 0" by simp_all
      then obtain d where d: "hprintf ''warning: multiple ioapics are not supported'' [] (H\<lparr>hmach := hmach H\<lparr>cons := c\<rparr>\<rparr>)
            = Inr (H\<lparr>hmach := hmach H\<lparr>cons := d\<rparr>\<rparr>)" "screen_ok d"
        using hprintf_ok [of "''warning: multiple ioapics are not supported''" "[]" "H\<lparr>hmach := hmach H\<lparr>cons := c\<rparr>\<rparr>"] c(2)
        by auto
      show ?thesis using not_lapic no_cpu io True len a g byte [of 2] c d
        by (auto simp: madt_entry_def ty took_entry_def word_less_nat_alt)
    qed
  qed
qed

subsection \<open>The loop over the entries\<close>

text \<open>The processors that are added are numbered in order.\<close>

definition added_cpus :: "u8 list list \<Rightarrow> hw \<Rightarrow> hw \<Rightarrow> bool" where
  "added_cpus es H H' \<longleftrightarrow> ncpu H' = ncpu H + length (apic_ids es) \<and> length (cpus H') = length (cpus H)
     \<and> (\<forall>i<length (apic_ids es). cpus H' ! (ncpu H + i) = (of_nat (ncpu H + i), apic_ids es ! i))
     \<and> (\<forall>i<ncpu H. cpus H' ! i = cpus H ! i)"

lemma added_cpus_Cons:
  assumes "took_entry b n H H1" "added_cpus es H1 H'" "ncpu H + length (apic_ids (b # es)) \<le> length (cpus H)"
  shows "added_cpus (b # es) H H'"
proof (cases "enabled_cpu b")
  case True
  have "cpus H' ! (ncpu H + i) = (of_nat (ncpu H + i), apic_ids (b # es) ! i)"
    if "i < length (apic_ids (b # es))" for i
  proof (cases i)
    case 0
    then show ?thesis using assms True by (simp add: added_cpus_def took_entry_def apic_ids_def)
  next
    case (Suc j)
    then have "cpus H' ! (ncpu H1 + j) = (of_nat (ncpu H1 + j), apic_ids es ! j)"
      using assms(2) that True by (simp add: added_cpus_def apic_ids_def)
    then show ?thesis using Suc assms(1) True by (simp add: took_entry_def apic_ids_def)
  qed
  then show ?thesis using assms True by (simp add: added_cpus_def took_entry_def apic_ids_def)
next
  case False
  then show ?thesis using assms by (simp add: added_cpus_def took_entry_def apic_ids_def)
qed

lemma signed_distance: "n < 2 ^ 63 \<Longrightarrow> sint (of_nat n :: u64) = int n"
  by (simp add: sint_uint uint_nat unat_of_nat signed_take_bit_int_eq_self)

lemma madt_loop_takes:
  "(\<forall>b\<in>set es. sound_entry b) \<Longrightarrow> bytes_at (hbytes H) p (concat es) \<Longrightarrow>
    unat p + length (concat es) < 2 ^ 64 \<Longrightarrow> length (concat es) < 2 ^ 63 \<Longrightarrow> screen_ok (cons (hmach H)) \<Longrightarrow>
    ncpu H + length (apic_ids es) \<le> length (cpus H) \<Longrightarrow> unat n + length (filter is_ioapic es) < 2 ^ 32 \<Longrightarrow>
    \<exists>H'. madt_loop p (p + of_nat (length (concat es))) n H = Some (Inr H') \<and> added_cpus es H H'
      \<and> ioapicid H' = (if n = 0 then first_ioapic es (ioapicid H) else ioapicid H)
      \<and> lapic H' = lapic H \<and> ismp H' = ismp H"
proof (induction es arbitrary: p n H)
  case Nil
  then show ?case
    by (subst madt_loop.simps) (simp add: added_cpus_def apic_ids_def first_ioapic_def)
next
  case (Cons b es)
  let ?l = "length b" and ?k = "length (concat (b # es))"
  let ?p = "p + of_nat ?l"
  have b: "sound_entry b" "2 \<le> ?l" "?l < 256" using Cons.prems(1) by (simp_all add: sound_entry_def)
  have at: "bytes_at (hbytes H) p b" "bytes_at (hbytes H) ?p (concat es)"
    using Cons.prems(2) by (simp_all add: bytes_at_append)
  have k: "?k = ?l + length (concat es)" by simp
  have pk: "unat (p + of_nat ?k) = unat p + ?k" "unat ?p = unat p + ?l"
  proof -
    have "unat p + ?k < 2 ^ LENGTH(64)" "unat p + ?l < 2 ^ LENGTH(64)" using Cons.prems(3) by simp_all
    then show "unat (p + of_nat ?k) = unat p + ?k" "unat ?p = unat p + ?l"
      using ucast_plus(2) [of p ?k] ucast_plus(2) [of p ?l] by simp_all
  qed
  have "unat p < unat p + ?k" using b(2) unfolding k by linarith
  then have "p < p + of_nat ?k" by (simp only: word_less_nat_alt pk(1))
  moreover have "sint (p + of_nat ?k - p) = int ?k" using signed_distance [OF Cons.prems(4)] by simp
  moreover have "uint (b ! 1) = int ?l"
    using b(1) by (simp add: sound_entry_def uint_nat unat_of_nat)
  then have "\<not> int ?k < 2" "\<not> int ?k < uint (b ! 1)" using b(2) unfolding k by linarith+
  moreover have "load8 (hbytes H) (p + 1) = Inr (b ! 1)"
    using at(1) b(2) unfolding bytes_at_def by (metis load8_Some of_nat_1 one_less_numeral_iff less_le_trans semiring_norm(76))
  moreover have len: "b ! 1 = of_nat ?l" using b(1) by (simp add: sound_entry_def)
  moreover have "(ucast (of_nat ?l :: u8) :: u32) = of_nat ?l" "(ucast (of_nat ?l :: u8) :: u64) = of_nat ?l"
    using b(3) by (simp_all add: word_unat_eq_iff unsigned_ucast_eq unat_of_nat take_bit_nat_eq_self)
  ultimately have step: "madt_loop p (p + of_nat ?k) n H
      = bind_run (Some (madt_entry p (of_nat ?l) n H)) (\<lambda>(n, H). madt_loop ?p (p + of_nat ?k) n H)"
    by (subst madt_loop.simps) (simp only: if_True if_False bind_run_simps simp_thms)
  have "ncpu H < length (cpus H)" if "enabled_cpu b" using Cons.prems(6) that by (simp add: apic_ids_def)
  from madt_entry_takes [OF at(1) b(1) Cons.prems(5) this] obtain H1 where
    H1: "madt_entry p (of_nat ?l) n H = Inr (if is_ioapic b then n + 1 else n, H1)" "took_entry b n H H1"
    by blast
  let ?n = "if is_ioapic b then n + 1 else n"
  have n: "unat ?n + length (filter is_ioapic es) < 2 ^ 32" "is_ioapic b \<Longrightarrow> ?n \<noteq> 0"
  proof -
    have "unat (n + 1) = unat n + 1" if "is_ioapic b" using Cons.prems(7) that by (simp add: unat_word_ariths)
    then show "unat ?n + length (filter is_ioapic es) < 2 ^ 32" "is_ioapic b \<Longrightarrow> ?n \<noteq> 0"
      using Cons.prems(7) by (auto simp: word_unat_eq_iff)
  qed
  have "\<exists>H'. madt_loop ?p (?p + of_nat (length (concat es))) ?n H1 = Some (Inr H') \<and> added_cpus es H1 H'
      \<and> ioapicid H' = (if ?n = 0 then first_ioapic es (ioapicid H1) else ioapicid H1)
      \<and> lapic H' = lapic H1 \<and> ismp H' = ismp H1"
    using Cons.prems H1(2) at(2) pk(2) n(1)
    by (intro Cons.IH) (auto simp: took_entry_def apic_ids_def split: if_splits)
  then obtain H' where H': "madt_loop ?p (p + of_nat ?k) ?n H1 = Some (Inr H')" "added_cpus es H1 H'"
    "ioapicid H' = (if ?n = 0 then first_ioapic es (ioapicid H1) else ioapicid H1)"
    "lapic H' = lapic H1" "ismp H' = ismp H1"
    by (auto simp: k add.assoc)
  have "ioapicid H' = (if n = 0 then first_ioapic (b # es) (ioapicid H) else ioapicid H)"
    using H'(3) H1(2) n(2) by (auto simp: took_entry_def first_ioapic_def)
  then show ?case
    using step H1 H' added_cpus_Cons [OF H1(2) H'(2) Cons.prems(6)] by (auto simp: took_entry_def)
qed

subsection \<open>Properties\<close>

text \<open>C33: Formatted output always succeeds: with a format that has no \<open>%s\<close> and at least as many arguments as
  it consumes, \<open>cprintf\<close> returns whatever the arguments are, no number overflows its buffer, only the
  video memory of 25 rows changes, and the cursor stays above the last row.\<close>

theorem cprintf_total:
  assumes "string_free fmt" "conversions fmt \<le> length args" "screen_ok st"
  shows "\<exists>st'. cprintf m (Some fmt) args st = Some (Inr st') \<and> screen_ok st'
    \<and> (\<forall>p. \<not> unat (p - crt) < 4000 \<longrightarrow> crt_mem st' p = crt_mem st p)"
proof -
  obtain cs where "format m fmt args = Some (Inr cs)" using format_ok [OF assms(1,2)] by blast
  moreover obtain st' where "fold_ok consputc cs st = Inr st'" "screen_ok st'"
    "\<forall>p. \<not> unat (p - crt) < 4000 \<longrightarrow> crt_mem st' p = crt_mem st p"
    using consputs_on_screen [OF assms(3)] by blast
  ultimately show ?thesis by (simp add: cprintf_def)
qed

definition blank_screen :: console where
  "blank_screen = \<lparr>crtc_index = 0, crtc_regs = (\<lambda>_. 0)(14 := 7, 15 := 127), crt_mem = (\<lambda>_. Some 0)\<rparr>"

lemma blank_screen_ok: "screen_ok blank_screen"
  by (simp add: blank_screen_def screen_ok_def cursor_def mapped_def)

theorem cprintf_total_witness:
  "\<exists>st'. cprintf (\<lambda>_. None) (Some ''100%% of %d MB, %x%'') [2147483648, 255] blank_screen = Some (Inr st')
    \<and> screen_ok st'"
  using cprintf_total [OF _ _ blank_screen_ok, of "''100%% of %d MB, %x%''" "[2147483648, 255]" "\<lambda>_. None"]
  by auto

lemma entries_count: "(\<forall>b\<in>set es. sound_entry b) \<Longrightarrow> 2 * length es \<le> length (concat es)"
  by (induction es) (auto simp: sound_entry_def)

text \<open>C34: What start-up takes from a well-formed table of interrupt controllers: \<open>acpi_config_smp\<close> returns,
  the enabled processors are entered in order with their APIC numbers, the first I/O APIC is chosen, and
  the local APIC's address is taken from the header; a table without an enabled processor gives -1 and
  leaves the machine a uniprocessor.\<close>

theorem madt_configures:
  assumes table: "\<forall>b\<in>set es. sound_entry b" "bytes_at (hbytes H) (madt + 44) (concat es)"
    and header: "madt \<noteq> 0" "load32 (hbytes H) (madt + 4) = Inr len" "load32 (hbytes H) (madt + 36) = Inr addr"
    and len: "unat len = 44 + length (concat es)" "unat madt + unat len < 2 ^ 64"
    and start: "screen_ok (cons (hmach H))" "ncpu H = 0" "length (apic_ids es) \<le> length (cpus H)"
  shows "\<exists>r H'. acpi_config_smp madt H = Some (Inr (r, H')) \<and> ncpu H' = length (apic_ids es)
    \<and> (\<forall>i<length (apic_ids es). cpus H' ! i = (of_nat i, apic_ids es ! i))
    \<and> ioapicid H' = first_ioapic es (ioapicid H)
    \<and> (if apic_ids es = [] then r = - 1 \<and> ismp H' = ismp H \<and> lapic H' = lapic H
       else r = 0 \<and> ismp H' \<and> lapic H' = IO2V (ucast addr))"
proof -
  let ?n = "length (concat es)"
  have n: "44 + ?n < 2 ^ 32" using unsigned_less [of len, where 'a = nat] len(1) by simp
  have stop: "madt + 44 + ucast len - 44 = madt + 44 + of_nat ?n"
  proof -
    have "unat (ucast len :: u64) = unat (of_nat (44 + ?n) :: u64)"
      using n len(1) by (simp add: unat_ucast_32 unat_of_nat del: of_nat_add)
    then have "(ucast len :: u64) = of_nat (44 + ?n)" by (simp only: word_unat_eq_iff)
    then show ?thesis by simp
  qed
  have "unat (madt + 44) + ?n < 2 ^ 64"
    using len ucast_plus(2) [of madt 44] by simp
  moreover have "unat (0 :: u32) + length (filter is_ioapic es) < 2 ^ 32"
    using entries_count [OF table(1)] n length_filter_le [of is_ioapic es] unfolding unat_0 by linarith
  moreover have "?n < 2 ^ 63" using n by simp
  ultimately obtain H' where H': "madt_loop (madt + 44) (madt + 44 + of_nat ?n) 0 H = Some (Inr H')"
    "added_cpus es H H'" "ioapicid H' = first_ioapic es (ioapicid H)" "lapic H' = lapic H" "ismp H' = ismp H"
    using madt_loop_takes [OF table _ _ start(1), of 0] start(2,3) by auto
  have "\<not> len < 44" using len(1) by (simp add: word_less_nat_alt)
  then have "acpi_config_smp madt H = (if ncpu H' \<noteq> 0
      then Some (Inr (0, H'\<lparr>ismp := True, lapic := IO2V (ucast addr)\<rparr>)) else Some (Inr (- 1, H')))"
    using header H'(1) stop by (simp add: acpi_config_smp_def Let_def)
  then show ?thesis using H' start(2) by (auto simp: added_cpus_def)
qed

text \<open>A table with two processors, one of them disabled, and an I/O APIC.\<close>

definition some_entries :: "u8 list list" where
  "some_entries = [[0, 8, 0, 0, 0, 0, 0, 0], [0, 8, 1, 4, 1, 0, 0, 0], [1, 12, 9, 0, 0, 0, 0xC0, 0xFE, 0, 0, 0, 0]]"

definition some_madt :: "u8 list" where
  "some_madt = [65, 80, 73, 67, 72, 0, 0, 0] @ replicate 28 0 @ [0, 0, 0xE0, 0xFE, 1, 0, 0, 0] @ concat some_entries"

lemma load32_four:
  assumes "m a = Some (word_byte w 0)" "m (a + 1) = Some (word_byte w 1)" "m (a + 2) = Some (word_byte w 2)"
    "m (a + 3) = Some (word_byte w 3)"
  shows "load32 m a = Inr w"
proof (rule load32_join)
  fix k :: nat assume "k < 4"
  then have "k = 0 \<or> k = 1 \<or> k = 2 \<or> k = 3" by linarith
  then show "m (a + of_nat k) = Some (word_byte w k)" using assms by auto
qed

definition hw_with :: "u8 list \<Rightarrow> hw" where
  "hw_with bs = bare_hw\<lparr>cpus := replicate 8 (0, 0), hmach := (hmach bare_hw)\<lparr>cons := blank_screen,
     vm := (vm (hmach bare_hw))\<lparr>byte_heap := (\<lambda>p. if unat (p - 0xFFFFFFFF80000100) < length bs
       then Some (bs ! unat (p - 0xFFFFFFFF80000100)) else None)\<rparr>\<rparr>\<rparr>"

lemma hw_with_simps:
  "cons (hmach (hw_with bs)) = blank_screen" "cpus (hw_with bs) = replicate 8 (0, 0)"
  "ncpu (hw_with bs) = ncpu bare_hw" "ioapicid (hw_with bs) = ioapicid bare_hw"
  "length bs < 256 \<Longrightarrow> i < length bs \<Longrightarrow> hbytes (hw_with bs) (0xFFFFFFFF80000100 + of_nat i) = Some (bs ! i)"
  by (simp_all add: hw_with_def unat_of_nat)

theorem madt_configures_witness:
  "\<exists>H'. acpi_config_smp 0xFFFFFFFF80000100 (hw_with some_madt) = Some (Inr (0, H')) \<and> ncpu H' = 1
    \<and> cpus H' ! 0 = (0, 4) \<and> ioapicid H' = 9 \<and> lapic H' = IO2V 0xFEE00000"
proof -
  let ?H = "hw_with some_madt"
  have cat: "concat some_entries = [0, 8, 0, 0, 0, 0, 0, 0, 0, 8, 1, 4, 1, 0, 0, 0, 1, 12, 9, 0, 0, 0, 0xC0, 0xFE, 0, 0, 0, 0]"
    by (simp add: some_entries_def)
  have len: "length some_madt = 72" by (simp add: some_madt_def cat)
  note at = hw_with_simps(5) [of some_madt, unfolded len]
  have tbl: "bytes_at (hbytes ?H) (0xFFFFFFFF80000100 + 44) (concat some_entries)"
    unfolding bytes_at_def
  proof (intro allI impI)
    fix i assume i: "i < length (concat some_entries)"
    then have "44 + i < 72" by (simp add: cat)
    from at [OF _ this] have "hbytes ?H (0xFFFFFFFF80000100 + 44 + of_nat i) = Some (some_madt ! (44 + i))" by simp
    then show "hbytes ?H (0xFFFFFFFF80000100 + 44 + of_nat i) = Some (concat some_entries ! i)"
      by (simp add: some_madt_def nth_append)
  qed
  have vals: "some_madt ! 4 = 72" "some_madt ! 5 = 0" "some_madt ! 6 = 0" "some_madt ! 7 = 0"
    "some_madt ! 36 = 0" "some_madt ! 37 = 0" "some_madt ! 38 = 0xE0" "some_madt ! 39 = 0xFE"
    by (simp_all add: some_madt_def, simp_all add: nth_append)
  note byte = at [of 4] at [of 5] at [of 6] at [of 7] at [of 36] at [of 37] at [of 38] at [of 39]
  note byte = byte [simplified, unfolded vals]
  have "load32 (hbytes ?H) (0xFFFFFFFF80000100 + 4) = Inr 72"
    by (rule load32_four) (simp_all add: byte word_byte_def)
  moreover have "load32 (hbytes ?H) (0xFFFFFFFF80000100 + 36) = Inr 0xFEE00000"
    by (rule load32_four) (simp_all add: byte word_byte_def)
  moreover have "\<forall>b\<in>set some_entries. sound_entry b" by (simp add: some_entries_def sound_entry_def)
  ultimately show ?thesis
    using madt_configures [OF _ tbl, of 72 "0xFEE00000"]
    by (auto simp: hw_with_simps blank_screen_ok bare_hw_def cat apic_ids_def first_ioapic_def some_entries_def
        enabled_cpu_def is_ioapic_def)
qed

end
