(* ===== verification/MemReport.thy ===== *)
theory MemReport
  imports AcpiProps BootMap MemProps
begin

text \<open>
  \<open>memblock_init\<close> as \<open>main\<close> calls it: it reads the memory map from memory, fills the allocator's tables and
  prints the amount of memory and the table.
\<close>

text \<open>The loop over the entries also adds their lengths, in 32 bits.\<close>

primrec mem_total :: "e820 list \<Rightarrow> u32 \<Rightarrow> u32" where
  "mem_total [] acc = acc"
| "mem_total (e # es) acc = (case e of (addr, len, ty) \<Rightarrow>
     if ty < 1 \<or> 4 < ty then acc else mem_total es (acc + ucast len))"

definition print_memblock :: "memblock_type \<Rightarrow> machine \<Rightarrow> kerror + machine" where
  "print_memblock t M =
     bind_ok (kprintf (''memblock_init'' @ newline) [] M) (\<lambda>M.
     fold_ok (\<lambda>i M. if i < length (mt_regions t) then
         let r = mt_regions t ! i in
         kprintf (''start : %l  end : %l'' @ newline) [mr_base r, mr_base r + mr_size r] M
       else Inl (OutOfBounds i)) [0..<unat (mt_cnt t)] M)"

definition memblock_start :: "bytes \<Rightarrow> machine \<Rightarrow> kerror + machine" where
  "memblock_start v M =
     bind_ok (memory_map v) (\<lambda>ards.
     bind_ok (memblock_init ards (boot_mem (vm M))) (\<lambda>mb.
     bind_ok (kprintf (''%dMB'' @ newline) [ucast (mem_total ards 0 div 1048576 + 1)]
                (M\<lparr>vm := (vm M)\<lparr>boot_mem := mb\<rparr>\<rparr>)) (\<lambda>M.
     print_memblock (mb_memory mb) M)))"

text \<open>\<open>memblock_test\<close>, with fuel for the removal; \<open>None\<close> is a removal that has not ended.\<close>

definition boot_alloc :: "machine \<Rightarrow> kerror + u64 \<times> machine" where
  "boot_alloc M = bind_ok (memblock_alloc PGSIZE PGSIZE (boot_mem (vm M))) (\<lambda>(a, mb).
     Inr (a, M\<lparr>vm := (vm M)\<lparr>boot_mem := mb\<rparr>\<rparr>))"

definition print_reserved :: "machine \<Rightarrow> kerror + machine" where
  "print_reserved M = print_memblock (mb_reserved (boot_mem (vm M))) M"

definition memblock_test :: "nat \<Rightarrow> machine \<Rightarrow> kerror + machine option" where
  "memblock_test fuel M =
     bind_ok (boot_alloc M) (\<lambda>(_, M).
     bind_ok (print_reserved M) (\<lambda>M.
     bind_ok (boot_alloc M) (\<lambda>(pphys, M).
     bind_ok (print_reserved M) (\<lambda>M.
     bind_ok (boot_alloc M) (\<lambda>(_, M).
     bind_ok (print_reserved M) (\<lambda>M.
     bind_ok (memblock_free fuel pphys PGSIZE (boot_mem (vm M))) (\<lambda>r. case r of
       None \<Rightarrow> Inr None
     | Some mb \<Rightarrow> bind_ok (print_reserved (M\<lparr>vm := (vm M)\<lparr>boot_mem := mb\<rparr>\<rparr>)) (\<lambda>M. Inr (Some M)))))))))"

lemma print_memblock_ok:
  assumes "unat (mt_cnt t) \<le> length (mt_regions t)" "screen_ok (cons M)"
  shows "\<exists>c. print_memblock t M = Inr (M\<lparr>cons := c\<rparr>) \<and> screen_ok c"
proof -
  let ?f = "\<lambda>i M. if i < length (mt_regions t) then
         let r = mt_regions t ! i in
         kprintf (''start : %l  end : %l'' @ newline) [mr_base r, mr_base r + mr_size r] M
       else Inl (OutOfBounds i)"
  have line: "string_free (''start : %l  end : %l'' @ newline)" "conversions (''start : %l  end : %l'' @ newline) = 2"
    "string_free (''memblock_init'' @ newline)" "conversions (''memblock_init'' @ newline) = 0"
    by (simp_all add: newline_def)
  have loop: "\<exists>c. fold_ok ?f is M = Inr (M\<lparr>cons := c\<rparr>) \<and> screen_ok c"
    if "screen_ok (cons M)" "\<forall>i\<in>set is. i < length (mt_regions t)" for "is" M
    using that
  proof (induction "is" arbitrary: M)
    case Nil
    then show ?case by (intro exI [of _ "cons M"]) simp
  next
    case (Cons i "is")
    let ?r = "mt_regions t ! i"
    obtain c where c: "kprintf (''start : %l  end : %l'' @ newline) [mr_base ?r, mr_base ?r + mr_size ?r] M
        = Inr (M\<lparr>cons := c\<rparr>)" "screen_ok c"
      using kprintf_ok [OF line(1) _ Cons.prems(1), of "[mr_base ?r, mr_base ?r + mr_size ?r]"] line(2) by auto
    from Cons.IH [of "M\<lparr>cons := c\<rparr>"] c Cons.prems(2) show ?case by auto
  qed
  obtain c where c: "kprintf (''memblock_init'' @ newline) [] M = Inr (M\<lparr>cons := c\<rparr>)" "screen_ok c"
    using kprintf_ok [OF line(3) _ assms(2), of "[]"] line(4) by auto
  obtain d where "fold_ok ?f [0..<unat (mt_cnt t)] (M\<lparr>cons := c\<rparr>) = Inr (M\<lparr>cons := c\<rparr>\<lparr>cons := d\<rparr>)" "screen_ok d"
    using loop [of "M\<lparr>cons := c\<rparr>" "[0..<unat (mt_cnt t)]"] c(2) assms(1) by auto
  then show ?thesis using c(1) by (auto simp: print_memblock_def)
qed

lemma memblock_start_ok:
  assumes "memory_map v = Inr ards" "memblock_init ards (boot_mem (vm M)) = Inr mb" "mt_ok (mb_memory mb)"
    and "screen_ok (cons M)"
  shows "\<exists>c. memblock_start v M = Inr (M\<lparr>vm := (vm M)\<lparr>boot_mem := mb\<rparr>, cons := c\<rparr>) \<and> screen_ok c"
proof -
  let ?M = "M\<lparr>vm := (vm M)\<lparr>boot_mem := mb\<rparr>\<rparr>" and ?n = "ucast (mem_total ards 0 div 1048576 + 1)"
  have "string_free (''%dMB'' @ newline)" "conversions (''%dMB'' @ newline) = 1" by (simp_all add: newline_def)
  then obtain c where c: "kprintf (''%dMB'' @ newline) [?n] ?M = Inr (?M\<lparr>cons := c\<rparr>)" "screen_ok c"
    using kprintf_ok [of "''%dMB'' @ newline" "[?n]" ?M] assms(4) by auto
  have "unat (mt_cnt (mb_memory mb)) \<le> length (mt_regions (mb_memory mb))"
    using mt_ok_shape [OF assms(3)] by (simp add: mt_shape_def)
  then obtain d where "print_memblock (mb_memory mb) (?M\<lparr>cons := c\<rparr>) = Inr (?M\<lparr>cons := c\<rparr>\<lparr>cons := d\<rparr>)" "screen_ok d"
    using print_memblock_ok [of "mb_memory mb" "?M\<lparr>cons := c\<rparr>"] c(2) by auto
  then show ?thesis using assms(1,2) c(1) by (auto simp: memblock_start_def)
qed

end
