(* ===== verification/BootChain.thy ===== *)
theory BootChain
  imports EntryProps MemReport
begin

text \<open>
  From power-on to \<open>main\<close>: the boot sector, the boot loader, the kernel's entry and the kernel's view of
  the memory map, put together.
\<close>

subsection \<open>The boot sector\<close>

definition controller_ready :: "(nat \<Rightarrow> u8) \<Rightarrow> bool" where
  "controller_ready status \<longleftrightarrow> (\<forall>n. \<exists>k\<ge>n. status k AND 2 = 0)"

lemma wait_8042_returns:
  assumes "controller_ready status"
  shows "\<exists>k'. wait_8042 status k = Some k'"
proof -
  obtain j where "k \<le> j" "status j AND 2 = 0" using assms by (auto simp: controller_ready_def)
  then show ?thesis
  proof (induction "j - k" arbitrary: k)
    case 0
    then show ?case by (subst wait_8042.simps) simp
  next
    case (Suc d)
    then have "\<exists>k'. wait_8042 status (Suc k) = Some k'" by simp
    then show ?case by (subst wait_8042.simps) simp
  qed
qed

lemma seta20_returns:
  assumes "controller_ready status"
  shows "\<exists>r. seta20 status = Some r"
proof -
  obtain j where j: "wait_8042 status 0 = Some j" using wait_8042_returns [OF assms] by blast
  obtain k where "wait_8042 status j = Some k" using wait_8042_returns [OF assms] by blast
  with j show ?thesis by (simp add: seta20_def)
qed

definition boot_cpu_ready :: "boot_cpu \<Rightarrow> bool" where
  "boot_cpu_ready c \<longleftrightarrow> bit (b_cr0 c) 0 \<and> b_gdt c = boot_gdt \<and> b_cs c = 8 \<and> b_ds c = 16 \<and> b_es c = 16
     \<and> b_ss c = 16 \<and> b_esp c = 0x7C00"

lemma bootable_dom:
  assumes "bootable img n m" "\<And>a. a \<in> dom m \<Longrightarrow> a \<in> dom m'"
  shows "bootable img n m'"
  using assms unfolding bootable_def load_room_def Let_def mapped_def by blast

lemma boot_sector_enters:
  assumes status: "controller_ready status"
    and bios: "reports bios cont es" "es \<noteq> []" "length es < 32" "mapped m 0x8000 (4 + 20 * length es)"
    and drive: "drive_ready d" "serves d 0xE0 img" and boot: "bootable img n m"
  shows "\<exists>c' io' m'. boot_sector status bios d c (io, m)
      = Some (Inr (Enters (entry_addr (mb_header img n)) c' io' m'))
    \<and> boot_cpu_ready c' \<and> kernel_loaded img n (mb_header img n) m'
    \<and> (\<exists>m1. probed (length es) es m m1 \<and> (\<forall>p. unat p < 0x10000 \<longrightarrow> m' p = m1 p))"
proof -
  have "4 + 20 * length es \<le> 0x8000" using bios(3) by simp
  then obtain m1 where m1: "probe_memory bios m = Some (Inr m1)" "probed (length es) es m m1"
    using probe_memory_collects [OF bios(1,2,4)] by blast
  have "bootable img n m1" using bootable_dom [OF boot probed_dom [OF m1(2)]] .
  then obtain io' m' where m': "bootmain d (io, m1)
      = Some (Inr (Boot_enters (entry_addr (mb_header img n)), io', m'))"
    "kernel_loaded img n (mb_header img n) m'" "\<forall>p. unat p < 0x10000 \<longrightarrow> m' p = m1 p"
    using bootmain_spec [OF drive] by blast
  let ?c = "start32 (enter_protected (real_start c))"
  obtain r where "seta20 status = Some r" using seta20_returns [OF status] by blast
  then have "boot_sector status bios d c (io, m) = Some (Inr (Enters (entry_addr (mb_header img n)) ?c io' m'))"
    using m1(1) m'(1) by (simp add: boot_sector_def Let_def)
  moreover have "boot_cpu_ready ?c"
    by (simp add: boot_cpu_ready_def start32_def enter_protected_def real_start_def CR0_PE_def boot_start_def
        bit_or_iff)
  ultimately show ?thesis using m1(2) m'(2,3) by blast
qed

subsection \<open>The entry\<close>

lemma mboot_entry_spec:
  assumes "mapped m 0x1000 0x5000" "bit (e_cr0 e) 0"
  shows "\<exists>c m'. mboot_entry gdt main e m = Inr (c, m') \<and> in_long_mode c \<and> e_rip c = main
    \<and> e_rsp c = KERNBASE + 0x10000 \<and> e_cr3 c = 0x1000
    \<and> dwords_at 0x1000 0x1400 (boot_words 512) m m'"
proof -
  obtain m' where m': "bootstrap_tables m = Inr m'" "dwords_at 0x1000 0x1400 (boot_words 512) m m'"
    using bootstrap_tables_words [OF assms(1)] by blast
  let ?c = "(entry32mp gdt (e\<lparr>e_rbx := 0\<rparr>))\<lparr>e_data := replicate 5 0, e_rsp := 0xFFFFFFFF80010000, e_rip := main\<rparr>"
  have "mboot_entry gdt main e m = Inr (?c, m')"
    using m'(1) by (simp add: mboot_entry_def entry64high_def entry32mp_def Let_def)
  moreover have "in_long_mode ?c"
    using assms(2) by (simp add: in_long_mode_def entry32mp_def bts_def gdt64_def bit_or_iff bit_push_bit_iff)
  ultimately show ?thesis using m'(2) by (auto simp: entry32mp_def KERNBASE_def)
qed

text \<open>The kernel's view of low memory.\<close>

lemma seen_high:
  assumes m: "dwords_at 0x1000 0x1400 (boot_words 512) m0 m" and p: "p < 0x40000000"
  shows "seen m 0x1000 (KERNBASE + p) = m p"
proof -
  have n: "unat p < 0x40000000" using p by (simp add: word_less_nat_alt)
  then have "unat (KERNBASE + p) = unat KERNBASE + unat p"
    by (simp add: KERNBASE_def unat_word_ariths)
  then have "KERNBASE \<le> KERNBASE + p" "KERNBASE + p < KERNBASE + 0x40000000" "\<not> KERNBASE + p < 0x40000000"
    using n by (simp_all add: word_le_nat_alt word_less_nat_alt KERNBASE_def)
  then show ?thesis by (simp add: seen_def boot_walk [OF m])
qed

lemma outside_tables:
  assumes "dwords_at 0x1000 0x1400 tbl m0 m" "0x6000 \<le> unat p"
  shows "m p = m0 p"
proof -
  have "p \<noteq> 0x1000 + of_nat j" if "j < 0x5000" for j
  proof
    assume "p = 0x1000 + of_nat j"
    then have "unat p = 0x1000 + j" using that ucast_plus(2) [of "0x1000 :: u64" j] by simp
    then show False using that assms(2) by simp
  qed
  then show ?thesis using assms(1) by (simp add: dwords_at_def)
qed

subsection \<open>The memory map\<close>

lemma init_loop_stops:
  "entries_ok es \<Longrightarrow> \<not> (1 \<le> snd (snd r) \<and> snd (snd r) \<le> 4) \<Longrightarrow>
    memblock_init_loop (es @ r # rest) mb = memblock_init_loop es mb"
proof (induction es arbitrary: mb)
  case Nil
  then show ?case by (auto simp: not_le split: prod.split)
next
  case (Cons e es)
  then show ?case by (cases e) auto
qed

lemma memblock_init_prefix:
  assumes "entries_ok es" "length es < 32" "length rest = 32 - length es"
    and "\<not> (1 \<le> snd (snd (hd rest)) \<and> snd (snd (hd rest)) \<le> 4)"
  shows "memblock_init (es @ rest) mb = memblock_init es mb"
proof -
  obtain r rs where rest: "rest = r # rs" using assms(2,3) by (cases rest) auto
  show ?thesis
    using assms init_loop_stops [OF assms(1), of r rs] by (simp add: memblock_init_def rest)
qed

lemma memory_map_read:
  assumes m: "\<And>j. j < 640 \<Longrightarrow> v (KERNBASE + ARDSOFFSET + 4 + of_nat j) = m (0x8004 + of_nat j)"
    and p: "probed (length es) es m0 m" and es: "length es < 32" and room: "mapped m0 0x8000 644"
    and zero: "\<forall>j<20. m0 (0x8000 + of_nat (4 + 20 * length es + j)) = Some 0"
  shows "\<exists>rest. memory_map v = Inr (es @ rest) \<and> length rest = 32 - length es \<and> hd rest = (0, 0, 0)"
proof -
  let ?a = "KERNBASE + ARDSOFFSET + 4"
  have low: "(0x8004 + of_nat j :: u64) = 0x8000 + of_nat (4 + j)" for j by simp
  have "mapped v ?a (20 * 32)"
    unfolding mapped_def
  proof (intro allI impI)
    fix j :: nat assume j: "j < 20 * 32"
    then have "4 + j < 644" by simp
    then have "0x8000 + of_nat (4 + j) \<in> dom m"
      using probed_mapped [OF p room] unfolding mapped_def by blast
    then show "?a + of_nat j \<in> dom v" using m [of j] j unfolding low dom_def by simp
  qed
  moreover have "v (?a + of_nat (20 * i + j)) = Some (entry_bytes (es ! i) ! j)" if "i < length es" "j < 20" for i j
  proof -
    have "v (?a + of_nat (20 * i + j)) = m (0x8000 + of_nat (4 + 20 * i + j))"
      using m [of "20 * i + j"] that es unfolding low by (simp add: add.assoc)
    then show ?thesis using p that unfolding probed_def by simp
  qed
  ultimately obtain rest where rest: "memory_map v = Inr (es @ rest)" "length rest = 32 - length es"
    "read_entry v (?a + of_nat (20 * length es)) = Inr (hd rest)"
    using read_entries_prefix [of es 32 v ?a] es unfolding memory_map_def by auto
  have "v (?a + of_nat (20 * length es) + of_nat j) = Some (entry_bytes (0, 0, 0) ! j)" if j: "j < 20" for j
  proof -
    have "entry_bytes (0, 0, 0) = replicate 20 0"
      by (simp add: entry_bytes_def le_bytes_def map_replicate_const flip: replicate_add)
    moreover have "v (?a + of_nat (20 * length es) + of_nat j) = m (0x8000 + of_nat (4 + 20 * length es + j))"
      using m [of "20 * length es + j"] j es unfolding low by (simp add: add.assoc)
    moreover have "m (0x8000 + of_nat (4 + 20 * length es + j)) = m0 (0x8000 + of_nat (4 + 20 * length es + j))"
    proof -
      have "0x8000 + of_nat (4 + 20 * length es + j) \<noteq> (0x8000 + of_nat i :: u64)" if "i < 4 + 20 * length es" for i
        using that j es by (intro offset_neq) simp_all
      then show ?thesis using p unfolding probed_def by blast
    qed
    ultimately show ?thesis using zero j by simp
  qed
  then have "read_entry v (?a + of_nat (20 * length es)) = Inr (0, 0, 0)" by (rule read_entry_bytes)
  then show ?thesis using rest by auto
qed

subsection \<open>The kernel's own image\<close>

text \<open>An image with the header of \<open>entry64.S\<close> at word \<open>n\<close>, and no other header before it. The linker script
  loads the kernel at 1MB.\<close>

definition kernel_image :: "(nat \<Rightarrow> u8) \<Rightarrow> nat \<Rightarrow> u32 \<Rightarrow> u32 \<Rightarrow> u32 \<Rightarrow> bool" where
  "kernel_image img n load_end bss_end start \<longleftrightarrow> n + 7 < 2048
     \<and> (\<forall>i<8. disk_word img (n + i) = mboot_header 0x100000 load_end bss_end start ! i)
     \<and> (\<forall>j<n. \<not> header_index img j) \<and> 0x100000 \<le> load_end \<and> load_end \<le> bss_end"

lemma mapped_sub:
  assumes "mapped m 0 sz" "unat a + k \<le> sz"
  shows "mapped m a k"
  using mapped_drop [of m 0 "unat a" k] mapped_mono [OF assms] by simp

lemma kernel_image_bootable:
  assumes img: "kernel_image img n load_end bss_end start"
    and ram: "mapped m 0 sz" "unat bss_end + 1024 \<le> sz" "sz \<le> 0x40000000"
  shows "bootable img n m" "mb_header img n = \<lparr>h_flags = 0x10000, header_addr = 0x100000,
    load_addr = 0x100000, load_end_addr = load_end, bss_end_addr = bss_end, entry_addr = start\<rparr>"
proof -
  have word: "disk_word img (n + i) = mboot_header 0x100000 load_end bss_end start ! i" if "i < 8" for i
    using img that by (simp add: kernel_image_def)
  have w0: "disk_word img n = 0x1BADB002" using word [of 0] by (simp add: mboot_header_def)
  have w1: "disk_word img (n + 1) = 0x10000"
    using word [of 1] by (simp add: mboot_header_def del: add_Suc_right add_Suc One_nat_def)
  have w: "disk_word img (n + 2) = - 0x1BADB002 - 0x10000"
    "disk_word img (n + 3) = 0x100000" "disk_word img (n + 4) = 0x100000"
    "disk_word img (n + 5) = load_end" "disk_word img (n + 6) = bss_end" "disk_word img (n + 7) = start"
    using word [of 2] word [of 3] word [of 4] word [of 5] word [of 6] word [of 7]
    by (simp_all add: mboot_header_def)
  show h: "mb_header img n = \<lparr>h_flags = 0x10000, header_addr = 0x100000,
    load_addr = 0x100000, load_end_addr = load_end, bss_end_addr = bss_end, entry_addr = start\<rparr>"
    by (simp add: mb_header_def w w1 del: add_Suc_right One_nat_def)
  have le: "0x100000 \<le> unat load_end" "unat load_end \<le> unat bss_end"
    using img by (simp_all add: kernel_image_def word_le_nat_alt)
  let ?k = "4 * n mod 512" and ?s = "unat load_end - 0x100000"
  let ?len = "512 * ((?s + ?k + 511) div 512)"
  have k: "?k < 512" by simp
  have len: "?len \<le> ?s + ?k + 511" by simp
  have base: "unat (0x100000 - of_nat ?k :: u64) = 0x100000 - ?k"
    using k by (simp add: unat_diff word_le_nat_alt unat_of_nat)
  have room: "mapped m (0x100000 - of_nat ?k) ?len"
    using le ram(2) len k by (intro mapped_sub [OF ram(1)]) (unfold base, linarith)
  have bss: "mapped m (ucast load_end) (unat bss_end - unat load_end)"
    using le ram(2) by (intro mapped_sub [OF ram(1)]) (simp add: unat_ucast_32)
  have "0x12000 \<le> 0x100000 - ?k" "0x100000 - ?k + ?len < 0x100000000" using k le ram(2,3) len by linarith+
  then have "load_room n (mb_header img n) m"
    using room bss by (simp add: load_room_def Let_def h load_offset_def load_size_def)
  moreover have "header_index img n" unfolding header_index_def w0 w1 w(1) by simp
  moreover have "mapped m 0x10000 8192" using ram(2) le by (intro mapped_sub [OF ram(1)]) simp
  moreover have "accepted n (mb_header img n)" using le by (simp add: accepted_def h word_le_nat_alt)
  ultimately show "bootable img n m" using img by (simp add: bootable_def kernel_image_def)
qed

text \<open>What the processor keeps when the loader jumps to the kernel.\<close>

definition handover :: "boot_cpu \<Rightarrow> entry_cpu \<Rightarrow> entry_cpu" where
  "handover c e = e\<lparr>e_cr0 := ucast (b_cr0 c), e_cs := b_cs c, e_rsp := ucast (b_esp c),
     e_data := [b_ss c, b_ds c, b_es c, b_fs c, b_gs c]\<rparr>"

lemma kernel_seen:
  assumes loaded: "kernel_loaded img n (mb_header img n) m" and image: "kernel_image img n load_end bss_end start"
    and tables: "dwords_at 0x1000 0x1400 (boot_words 512) m m2" and top: "unat bss_end \<le> 0x40000000"
    and h: "load_addr (mb_header img n) = 0x100000" "load_offset n (mb_header img n) = 4 * n"
      "load_size (mb_header img n) = unat load_end - 0x100000"
    and i: "i < unat load_end - 0x100000"
  shows "seen m2 0x1000 (KERNBASE + 0x100000 + of_nat i) = Some (img (512 + 4 * n + i))"
proof -
  have "unat load_end \<le> unat bss_end" using image by (simp add: kernel_image_def word_le_nat_alt)
  then have small: "0x100000 + i < 0x40000000" using i top by simp
  then have a: "unat (0x100000 + of_nat i :: u64) = 0x100000 + i"
    using ucast_plus(2) [of "0x100000 :: u64" i] by simp
  have "seen m2 0x1000 (KERNBASE + (0x100000 + of_nat i)) = m2 (0x100000 + of_nat i)"
    using small by (intro seen_high [OF tables]) (simp add: word_less_nat_alt a)
  also have "\<dots> = m (0x100000 + of_nat i)" by (rule outside_tables [OF tables]) (simp add: a)
  also have "\<dots> = Some (img (512 + 4 * n + i))"
    using loaded i by (simp add: kernel_loaded_def h)
  finally show ?thesis by (simp add: add.assoc)
qed

subsection \<open>Properties\<close>

text \<open>C16: The page tables that the kernel's entry builds in a memory that is present from 0x1000 to
  0x6000: the processor then translates the first gigabyte of addresses to itself and the first
  gigabyte from \<open>KERNBASE\<close> on to the same physical memory; every other address faults. Memory outside
  the tables is unchanged.\<close>

theorem boot_tables_translate:
  assumes "mapped m 0x1000 0x5000"
  shows "\<exists>m'. bootstrap_tables m = Inr m'
    \<and> (\<forall>va. cpu_walk m' 0x1000 va = (if va < 0x40000000 then Some va
        else if KERNBASE \<le> va \<and> va < KERNBASE + 0x40000000 then Some (va - KERNBASE) else None))
    \<and> (\<forall>p. (\<forall>j<0x5000. p \<noteq> 0x1000 + of_nat j) \<longrightarrow> m' p = m p)"
proof -
  obtain m' where m': "bootstrap_tables m = Inr m'" "dwords_at 0x1000 0x1400 (boot_words 512) m m'"
    using bootstrap_tables_words [OF assms] by blast
  have "m' p = m p" if "\<forall>j<0x5000. p \<noteq> 0x1000 + of_nat j" for p
    using m'(2) that by (simp add: dwords_at_def)
  then show ?thesis using m'(1) boot_walk [OF m'(2)] by blast
qed

theorem boot_tables_translate_witness:
  "\<exists>m'. bootstrap_tables (\<lambda>_. Some 0xAA) = Inr m' \<and> cpu_walk m' 0x1000 0xFFFFFFFF80100020 = Some 0x100020
    \<and> cpu_walk m' 0x1000 0x7C00 = Some 0x7C00 \<and> cpu_walk m' 0x1000 0xFFFFFFFF40000000 = None"
proof -
  obtain m' where m': "bootstrap_tables (\<lambda>_. Some 0xAA) = Inr m'"
    "\<And>va. cpu_walk m' 0x1000 va = (if va < 0x40000000 then Some va
        else if KERNBASE \<le> va \<and> va < KERNBASE + 0x40000000 then Some (va - KERNBASE) else None)"
    using boot_tables_translate [of "\<lambda>_. Some 0xAA"] by (auto simp: mapped_def)
  show ?thesis using m'(1) by (simp add: m'(2) KERNBASE_def)
qed

text \<open>C5: From power-on to \<open>main\<close>: the keyboard controller and the drive become ready again and again, the
  BIOS reports a memory map of 1 to 31 sound entries, the disk holds the kernel image and memory
  below 1GB has room for it, with zeros behind the place for the map. Then the boot sector enters the
  kernel, the entry reaches \<open>main\<close> in 64-bit mode on the kernel stack, every byte of the kernel is seen
  at its link address, and \<open>memblock_init\<close>, which reads the map through the new page tables and prints
  it, makes exactly the usable memory known.\<close>

theorem boot_reaches_main:
  assumes status: "controller_ready status"
    and bios: "reports bios cont es" "es \<noteq> []" "length es < 32" "entries_ok es"
    and drive: "drive_ready d" "serves d 0xE0 img"
    and image: "kernel_image img n load_end bss_end start"
    and ram: "mapped m 0 sz" "unat bss_end + 1024 \<le> sz" "sz \<le> 0x40000000"
    and zero: "\<forall>j<20. m (0x8000 + of_nat (4 + 20 * length es + j)) = Some 0"
    and kern: "length (mt_regions (mb_memory (boot_mem (vm M)))) = 128"
      "length (mt_regions (mb_reserved (boot_mem (vm M)))) = 128" "screen_ok (cons M)"
  shows "\<exists>c' io' m1 c2 m2 M'. boot_sector status bios d c (io, m) = Some (Inr (Enters start c' io' m1))
    \<and> mboot_entry gdt main (handover c' e) m1 = Inr (c2, m2)
    \<and> in_long_mode c2 \<and> e_rip c2 = main \<and> e_rsp c2 = KERNBASE + 0x10000
    \<and> (\<forall>i<unat load_end - 0x100000.
         seen m2 (e_cr3 c2) (KERNBASE + 0x100000 + of_nat i) = Some (img (512 + 4 * n + i)))
    \<and> memblock_start (seen m2 (e_cr3 c2)) M = Inr M'
    \<and> all_memory (boot_mem (vm M')) = usable es \<and> in_use (boot_mem (vm M')) = {}"
proof -
  note boot = kernel_image_bootable [OF image ram]
  have stop: "0x100000 \<le> unat load_end" "unat load_end \<le> unat bss_end"
    using image by (simp_all add: kernel_image_def word_le_nat_alt)
  have low: "mapped m 0x8000 644" "mapped m 0x8000 (4 + 20 * length es)" "mapped m 0x1000 0x5000"
    using stop ram(2) bios(3) by (auto intro: mapped_sub [OF ram(1)])
  obtain c' io' m1 p where enters: "boot_sector status bios d c (io, m)
      = Some (Inr (Enters (entry_addr (mb_header img n)) c' io' m1))"
    "boot_cpu_ready c'" "kernel_loaded img n (mb_header img n) m1"
    "probed (length es) es m p" "\<forall>a. unat a < 0x10000 \<longrightarrow> m1 a = p a"
    using boot_sector_enters [OF status bios(1-3) low(2) drive boot(1)] by blast
  have "mapped p 0x1000 0x5000" using probed_mapped [OF enters(4) low(3)] .
  moreover have below: "m1 (0x1000 + of_nat j) = p (0x1000 + of_nat j)" if "j < 0xF000" for j
    using enters(5) that ucast_plus(2) [of "0x1000 :: u64" j] by simp
  ultimately have "mapped m1 0x1000 0x5000" by (simp add: mapped_def dom_def)
  moreover have "bit (e_cr0 (handover c' e)) 0"
    using enters(2) by (simp add: handover_def boot_cpu_ready_def bit_ucast_iff)
  ultimately obtain c2 m2 where main: "mboot_entry gdt main (handover c' e) m1 = Inr (c2, m2)"
    "in_long_mode c2" "e_rip c2 = main" "e_rsp c2 = KERNBASE + 0x10000" "e_cr3 c2 = 0x1000"
    "dwords_at 0x1000 0x1400 (boot_words 512) m1 m2"
    using mboot_entry_spec by blast
  have kernel: "seen m2 0x1000 (KERNBASE + 0x100000 + of_nat i) = Some (img (512 + 4 * n + i))"
    if "i < unat load_end - 0x100000" for i
    using that ram(2,3) by (intro kernel_seen [OF enters(3) image main(6)])
      (simp_all add: boot(2) load_offset_def load_size_def)
  have map: "seen m2 0x1000 (KERNBASE + ARDSOFFSET + 4 + of_nat j) = p (0x8004 + of_nat j)" if j: "j < 640" for j
  proof -
    have a: "unat (0x8004 + of_nat j :: u64) = 0x8004 + j" using j ucast_plus(2) [of "0x8004 :: u64" j] by simp
    have "seen m2 0x1000 (KERNBASE + (0x8004 + of_nat j)) = m2 (0x8004 + of_nat j)"
      using j by (intro seen_high [OF main(6)]) (simp add: word_less_nat_alt a)
    also have "\<dots> = m1 (0x8004 + of_nat j)" by (rule outside_tables [OF main(6)]) (simp add: a)
    also have "\<dots> = p (0x8004 + of_nat j)" using enters(5) j by (simp add: a)
    finally show ?thesis by (simp add: ARDSOFFSET_def add.assoc)
  qed
  obtain rest where rest: "memory_map (seen m2 0x1000) = Inr (es @ rest)" "length rest = 32 - length es"
    "hd rest = (0, 0, 0)"
    using memory_map_read [OF map enters(4) bios(3) low(1) zero] by blast
  then have "memblock_init (es @ rest) (boot_mem (vm M)) = memblock_init es (boot_mem (vm M))"
    using bios(3,4) by (intro memblock_init_prefix) simp_all
  moreover obtain mb where mb: "memblock_init es (boot_mem (vm M)) = Inr mb" "mt_ok (mb_memory mb)"
    "all_memory mb = usable es" "in_use mb = {}"
    using memblock_init_spec [OF _ bios(4) kern(1,2)] bios(3) by auto
  ultimately obtain d where "memblock_start (seen m2 0x1000) M = Inr (M\<lparr>vm := (vm M)\<lparr>boot_mem := mb\<rparr>, cons := d\<rparr>)"
    using memblock_start_ok [OF rest(1) _ mb(2) kern(3)] by auto
  then show ?thesis using enters(1) main kernel mb(3,4) by (auto simp: boot(2))
qed

text \<open>A machine with two usable areas and the one-sector kernel.\<close>

definition two_areas :: "e820 list" where
  "two_areas = [(0, 0x9F000, 1), (0x100000, 0x7F00000, 1)]"

definition two_areas_bios :: bios where
  "two_areas_bios k eax ebx ecx edx = (False, if ebx = 0 then 1 else 0, entry_bytes (two_areas ! unat ebx))"

definition first_machine :: machine where
  "first_machine = boot_machine\<lparr>vm := (vm boot_machine)\<lparr>boot_mem := boot_memory\<rparr>, cons := blank_screen\<rparr>"

definition reset_cpu :: boot_cpu where
  "reset_cpu = \<lparr>b_cr0 = 0x10, b_gdt = [], b_cs = 0, b_ds = 0, b_es = 0, b_ss = 0, b_fs = 0, b_gs = 0, b_esp = 0,
     b_out = []\<rparr>"

definition some_entry_cpu :: entry_cpu where
  "some_entry_cpu = \<lparr>e_cr0 = 0, e_cr3 = 0, e_cr4 = 0, e_msr = (\<lambda>_. 0), e_gdt = (0, 0), e_cs = 0, e_data = [],
     e_rbx = 0, e_rsp = 0, e_rdi = 0, e_rsi = 0, e_rip = 0\<rparr>"

theorem boot_reaches_main_witness:
  "\<exists>c' io' m1 c2 m2 M'. boot_sector (\<lambda>_. 0x1C) two_areas_bios (drive_of kernel_disk) reset_cpu (idle_ide, \<lambda>_. Some 0)
      = Some (Inr (Enters 0x100020 c' io' m1))
    \<and> mboot_entry 0x100080 0xFFFFFFFF80100100 (handover c' some_entry_cpu) m1 = Inr (c2, m2)
    \<and> in_long_mode c2 \<and> e_rip c2 = 0xFFFFFFFF80100100
    \<and> seen m2 (e_cr3 c2) 0xFFFFFFFF80100000 = Some 0x02
    \<and> memblock_start (seen m2 (e_cr3 c2)) first_machine = Inr M'
    \<and> all_memory (boot_mem (vm M')) = {0..<0x9F000} \<union> {0x100000..<0x8000000}"
proof -
  have bios: "reports two_areas_bios of_nat two_areas"
    unfolding reports_def
  proof (intro conjI allI impI)
    fix k assume "k < length two_areas"
    then have "k = 0 \<or> k = 1" by (auto simp: two_areas_def)
    then show "two_areas_bios k 0xE820 (of_nat k) 20 SMAP
        = (False, if Suc k < length two_areas then of_nat (Suc k) else 0, entry_bytes (two_areas ! k))"
      and "0 < k \<Longrightarrow> (of_nat k :: u32) \<noteq> 0"
      by (auto simp: two_areas_bios_def two_areas_def)
  qed simp
  have image: "kernel_image kernel_disk 0 0x100200 0x100400 0x100020"
  proof -
    have "kernel_words = mboot_header 0x100000 0x100200 0x100400 0x100020"
      by (simp add: kernel_words_def mboot_header_def)
    then show ?thesis by (simp add: kernel_image_def kernel_disk_word)
  qed
  have "controller_ready (\<lambda>_. 0x1C)" by (auto simp: controller_ready_def)
  from boot_reaches_main [OF this bios _ _ _ drive_of image, of "\<lambda>_. Some 0" "0x40000000" first_machine
      reset_cpu idle_ide "0x100080" "0xFFFFFFFF80100100" some_entry_cpu]
  obtain c' io' m1 c2 m2 M' where r:
    "boot_sector (\<lambda>_. 0x1C) two_areas_bios (drive_of kernel_disk) reset_cpu (idle_ide, \<lambda>_. Some 0)
      = Some (Inr (Enters 0x100020 c' io' m1))"
    "mboot_entry 0x100080 0xFFFFFFFF80100100 (handover c' some_entry_cpu) m1 = Inr (c2, m2)"
    "in_long_mode c2" "e_rip c2 = 0xFFFFFFFF80100100"
    "\<forall>i<512. seen m2 (e_cr3 c2) (KERNBASE + 0x100000 + of_nat i) = Some (kernel_disk (512 + i))"
    "memblock_start (seen m2 (e_cr3 c2)) first_machine = Inr M'"
    "all_memory (boot_mem (vm M')) = {0..<0x9F000} \<union> {0x100000..<0x8000000}"
    by (simp add: two_areas_def mapped_def block_def first_machine_def blank_screen_ok boot_memory_def table_def) blast
  have "kernel_disk 512 = 0x02" by (simp add: kernel_disk_def kernel_words_def word_byte_def)
  then have "seen m2 (e_cr3 c2) 0xFFFFFFFF80100000 = Some 0x02"
    using r(5) [rule_format, of 0] by (simp add: KERNBASE_def)
  then show ?thesis using r by blast
qed

end
