(* ===== verification/X86.thy ===== *)
theory X86
  imports Arch StartProps Cpu
begin

text \<open>
  The instructions that \<open>include/kernel/x86.h\<close> and
  \<open>include/arch/x86/arch/64/mode/machine/cpu_registers.h\<close> wrap in functions, as far as other theories do not
  model them where they are used: port output, flags, control registers, and the exchange of a register
  with memory.
\<close>

record x86 =
  eflags :: u64
  sel_gs :: u16
  reg_cr0 :: u64
  reg_cr2 :: u64
  reg_cr3 :: u64
  reg_cr4 :: u64
  halted :: bool
  sent16 :: "(u16 \<times> u16) list"   \<comment> \<open>writes to ports, in order\<close>
  sent32 :: "(u16 \<times> u32) list"
  ram :: bytes

subsection \<open>Output\<close>

definition outw :: "u16 \<Rightarrow> u16 \<Rightarrow> x86 \<Rightarrow> x86" where
  "outw port data c = c\<lparr>sent16 := sent16 c @ [(port, data)]\<rparr>"

text \<open>\<open>cld; rep outsl\<close>: \<open>cnt\<close> words of memory to the port that the low half of \<open>port\<close> names.\<close>

primrec rep_outsl :: "u16 \<Rightarrow> u64 \<Rightarrow> nat \<Rightarrow> x86 \<Rightarrow> kerror + x86" where
  "rep_outsl port addr 0 c = Inr c"
| "rep_outsl port addr (Suc cnt) c =
     bind_ok (load32 (ram c) addr) (\<lambda>w. rep_outsl port (addr + 4) cnt (c\<lparr>sent32 := sent32 c @ [(port, w)]\<rparr>))"

definition outsl :: "u32 \<Rightarrow> u64 \<Rightarrow> u32 \<Rightarrow> x86 \<Rightarrow> kerror + x86" where
  "outsl port addr cnt c = rep_outsl (ucast port) addr (unat cnt) (c\<lparr>eflags := eflags c AND NOT FL_DF\<rparr>)"

subsection \<open>Flags and segments\<close>

definition readeflags :: "x86 \<Rightarrow> u64" where "readeflags c = eflags c"

definition cli :: "x86 \<Rightarrow> x86" where "cli c = c\<lparr>eflags := eflags c AND NOT FL_IF\<rparr>"

definition sti :: "x86 \<Rightarrow> x86" where "sti c = c\<lparr>eflags := eflags c OR FL_IF\<rparr>"

definition hlt :: "x86 \<Rightarrow> x86" where "hlt c = c\<lparr>halted := True\<rparr>"

definition loadgs :: "u16 \<Rightarrow> x86 \<Rightarrow> x86" where "loadgs v c = c\<lparr>sel_gs := v\<rparr>"

subsection \<open>Control registers\<close>

definition rcr2 :: "x86 \<Rightarrow> u64" where "rcr2 c = reg_cr2 c"
definition lcr3 :: "u64 \<Rightarrow> x86 \<Rightarrow> x86" where "lcr3 val c = c\<lparr>reg_cr3 := val\<rparr>"

definition read_cr3 :: "x86 \<Rightarrow> u64" where "read_cr3 c = reg_cr3 c"
definition write_cr3 :: "u64 \<Rightarrow> x86 \<Rightarrow> x86" where "write_cr3 val c = c\<lparr>reg_cr3 := val\<rparr>"
definition read_cr0 :: "x86 \<Rightarrow> u64" where "read_cr0 c = reg_cr0 c"
definition write_cr0 :: "u64 \<Rightarrow> x86 \<Rightarrow> x86" where "write_cr0 val c = c\<lparr>reg_cr0 := val\<rparr>"
definition read_cr2 :: "x86 \<Rightarrow> u64" where "read_cr2 c = reg_cr2 c"
definition read_cr4 :: "x86 \<Rightarrow> u64" where "read_cr4 c = reg_cr4 c"
definition write_cr4 :: "u64 \<Rightarrow> x86 \<Rightarrow> x86" where "write_cr4 val c = c\<lparr>reg_cr4 := val\<rparr>"

subsection \<open>Exchange\<close>

text \<open>\<open>xchgq\<close> works on eight bytes, although \<open>addr\<close> points to a word of four; the result is cut to its
  low half.\<close>

definition xchg :: "u64 \<Rightarrow> u64 \<Rightarrow> x86 \<Rightarrow> kerror + u32 \<times> x86" where
  "xchg addr newval c =
     bind_ok (load64 (ram c) addr) (\<lambda>result.
     bind_ok (store64 addr newval (ram c)) (\<lambda>m. Inr (ucast result, c\<lparr>ram := m\<rparr>)))"

subsection \<open>What they do\<close>

text \<open>\<open>cli\<close> and \<open>sti\<close> change the interrupt flag and no other.\<close>

lemma FL_IF_bit: "bit FL_IF n \<longleftrightarrow> n = 9"
proof -
  have *: "FL_IF = push_bit 9 1" by (simp only: register_names_agree(7) [symmetric] FLAGS_IF_def BIT_def)
  show ?thesis unfolding * by (simp only: bit_push_bit_iff bit_1_iff) auto
qed

lemma interrupt_flag_only:
  "bit (readeflags (cli c)) n \<longleftrightarrow> bit (eflags c) n \<and> n \<noteq> 9"
  "bit (readeflags (sti c)) n \<longleftrightarrow> bit (eflags c) n \<or> n = 9"
  by (auto simp: readeflags_def cli_def sti_def bit_simps FL_IF_bit dest: bit_imp_le_length)

text \<open>Words that go out.\<close>

lemma rep_outsl_sends:
  assumes "\<And>i. i < n \<Longrightarrow> load32 (ram c) (addr + 4 * of_nat i) = Inr (w i)"
  shows "rep_outsl port addr n c = Inr (c\<lparr>sent32 := sent32 c @ map (\<lambda>i. (port, w i)) [0..<n]\<rparr>)"
  using assms
proof (induction n arbitrary: addr c w)
  case (Suc n)
  let ?c = "c\<lparr>sent32 := sent32 c @ [(port, w 0)]\<rparr>"
  have "load32 (ram ?c) (addr + 4 + 4 * of_nat i) = Inr (w (Suc i))" if "i < n" for i
    using Suc.prems [of "Suc i"] that by (simp add: algebra_simps)
  then have "rep_outsl port (addr + 4) n ?c = Inr (?c\<lparr>sent32 := sent32 ?c @ map (\<lambda>i. (port, w (Suc i))) [0..<n]\<rparr>)"
    by (rule Suc.IH)
  moreover have "[0..<Suc n] = 0 # map Suc [0..<n]" by (simp only: upt_conv_Cons map_Suc_upt)
  ultimately show ?case using Suc.prems [of 0] by (simp del: upt_Suc add: comp_def)
qed simp

lemma load_le_append:
  "load_le (j + k) m a = bind_ok (load_le j m a) (\<lambda>u. bind_ok (load_le k m (a + of_nat j)) (\<lambda>v.
     Inr (u OR push_bit (8 * j) v)))"
proof (induction j arbitrary: a)
  case (Suc j)
  have "push_bit 8 (u OR push_bit (8 * j) v) = push_bit 8 u OR push_bit (8 * Suc j) v" for u v :: u64
    by (rule bit_word_eqI) (auto simp: bit_simps)
  then show ?case
    by (auto simp: Suc.IH bind_ok_def add.assoc or.assoc split: sum.splits)
qed (simp add: bind_ok_def split: sum.split)

lemma load32_load64:
  assumes "load64 m a = Inr w"
  shows "load32 m a = Inr (ucast w)"
proof -
  have "load_le (4 + 4) m a = Inr w" using assms by (simp add: load64_def)
  then obtain u v where "load_le 4 m a = Inr u" "w = u OR push_bit 32 v"
    unfolding load_le_append by (auto simp only: bind_ok_Inr_iff sum.inject) simp
  moreover have "ucast u = (ucast (u OR push_bit 32 v) :: u32)"
    by (rule bit_word_eqI) (auto simp: bit_simps)
  ultimately show ?thesis by (simp add: load32_def)
qed

text \<open>\<open>xchg\<close> on a variable of 32 bits writes over the four bytes behind it: on memory whose next word holds
  something else than the upper half of \<open>newval\<close>, that word is changed.\<close>

theorem xchg_overwrites_neighbour:
  assumes "mapped (ram c) addr 8"
  shows "\<exists>old c'. xchg addr newval c = Inr (old, c') \<and> load32 (ram c) addr = Inr old
    \<and> load32 (ram c') addr = Inr (ucast newval)
    \<and> load32 (ram c') (addr + 4) = Inr (ucast (drop_bit 32 newval))
    \<and> (\<forall>p. 8 \<le> unat (p - addr) \<longrightarrow> ram c' p = ram c p)"
proof -
  let ?f = "\<lambda>k. ucast (drop_bit (8 * k) newval) :: u8"
  let ?m = "written addr 8 (\<lambda>k. Some (?f k)) (ram c)"
  have store: "store64 addr newval (ram c) = Inr ?m"
    unfolding store64_def by (rule store_le_written) (use assms in simp_all)
  obtain w where w: "load64 (ram c) addr = Inr w"
    using load_le_ok [OF assms] by (auto simp: load64_def)
  have "load32 (ram c) addr = Inr (ucast w)" using w by (rule load32_load64)
  moreover have at: "?m (addr + of_nat k) = Some (?f k)" if "k < 8" for k
    using that by (simp add: written_def unat_of_nat)
  have "load32 ?m addr = Inr (ucast newval)"
    using at by (intro load32_join) (auto simp: word_byte_def intro!: bit_word_eqI, auto simp: bit_simps)
  moreover have "load32 ?m (addr + 4) = Inr (ucast (drop_bit 32 newval))"
  proof (rule load32_join)
    fix k :: nat assume "k < 4"
    then show "?m (addr + 4 + of_nat k) = Some (word_byte (ucast (drop_bit 32 newval)) k)"
      using at [of "4 + k"] by (auto simp: word_byte_def add.assoc intro!: bit_word_eqI) (auto simp: bit_simps add.assoc)
  qed
  moreover have "?m p = ram c p" if "8 \<le> unat (p - addr)" for p using that by (simp add: written_def)
  ultimately show ?thesis using w store by (simp add: xchg_def)
qed

definition some_x86 :: x86 where
  "some_x86 = \<lparr>eflags = 0x202, sel_gs = 0, reg_cr0 = 0, reg_cr2 = 0, reg_cr3 = 0, reg_cr4 = 0,
     halted = False, sent16 = [], sent32 = [], ram = (\<lambda>_. Some 7)\<rparr>"

theorem xchg_overwrites_neighbour_witness:
  "\<exists>old c'. xchg 0x1000 1 some_x86 = Inr (old, c') \<and> load32 (ram c') 0x1004 = Inr 0"
  using xchg_overwrites_neighbour [of some_x86 "0x1000" 1] by (auto simp: some_x86_def mapped_def)

text \<open>The vectors for which the processor pushes an error code, by name.\<close>

lemma has_error_named:
  "has_error n \<longleftrightarrow> n \<in> unat ` {T_DBLFLT, T_TSS, T_SEGNP, T_STACK, T_GPFLT, T_PGFLT, T_ALIGN}"
  by (auto simp: has_error_def T_DBLFLT_def T_TSS_def T_SEGNP_def T_STACK_def T_GPFLT_def T_PGFLT_def T_ALIGN_def)

text \<open>The selectors that \<open>arch_init_context\<close> gives to a user context are, in the table that \<open>seg_init\<close> builds,
  the user's data segment for code and the task state segment for data.\<close>

lemma context_selectors:
  "OS_CS_3 = push_bit 3 SEG_UDATA OR DPL_USER" "OS_DS_3 = push_bit 3 SEG_TSS OR DPL_USER"
  by (simp_all add: selector_defs SEG_UDATA_def SEG_TSS_def DPL_USER_def)

end
