(* ===== verification/VmInit.thy ===== *)
theory VmInit
  imports VmProps EntryProps
begin

text \<open>
  The kernel's own address space: \<open>vm_init\<close> of \<open>src/kernel/vm.c\<close>. It takes 259 pages, which the
  allocator cuts from the top of memory, and maps the first 512MB at \<open>KERNBASE\<close> with 256 page tables.
\<close>

subsection \<open>Building tables\<close>

text \<open>From \<open>s\<close> to \<open>s'\<close> tables were added, and of the entries of old tables only those in \<open>X\<close> were written.\<close>

definition builds :: "(u64 \<times> u64) set \<Rightarrow> tables \<Rightarrow> vmstate \<Rightarrow> tables \<Rightarrow> vmstate \<Rightarrow> bool" where
  "builds X own s own' s' \<longleftrightarrow> pt_inv own' s' \<and> own \<subseteq>\<^sub>m own' \<and> bytes_kept s s'
     \<and> (\<forall>b l i. own b = Some l \<longrightarrow> i < 512 \<longrightarrow> (b, i) \<notin> X \<longrightarrow> pt_heap s' (entry b i) = pt_heap s (entry b i))"

lemma builds_refl: "pt_inv own s \<Longrightarrow> builds {} own s own s"
  by (simp add: builds_def)

lemma builds_trans:
  assumes "builds X own s own1 s1" and "builds Y own1 s1 own2 s2"
  shows "builds (X \<union> Y) own s own2 s2"
proof -
  have sub: "own1 b = Some l" if "own b = Some l" for b l
    using assms(1) that by (auto simp: builds_def map_le_def dom_def)
  show ?thesis
    using assms sub map_le_trans [of own own1 own2] bytes_kept_trans [of s s1 s2] by (simp add: builds_def)
qed

lemma builds_own: "builds X own s own' s' \<Longrightarrow> own b = Some l \<Longrightarrow> own' b = Some l"
  by (auto simp: builds_def map_le_def dom_def)

lemma builds_entry:
  "builds X own s own' s' \<Longrightarrow> own b = Some l \<Longrightarrow> i < 512 \<Longrightarrow> (b, i) \<notin> X \<Longrightarrow>
    pt_heap s' (entry b i) = pt_heap s (entry b i)"
  by (simp add: builds_def)

lemma builds_inv: "builds X own s own' s' \<Longrightarrow> pt_inv own' s'"
  by (simp add: builds_def)

lemma builds_mono: "builds X own s own' s' \<Longrightarrow> X \<subseteq> Y \<Longrightarrow> builds Y own s own' s'"
  by (auto simp: builds_def)

text \<open>Only the entries of old tables count.\<close>

lemma builds_old:
  assumes "builds X own s own' s'" and "\<And>b i. own b \<noteq> None \<Longrightarrow> (b, i) \<in> X \<Longrightarrow> (b, i) \<in> Y"
  shows "builds Y own s own' s'"
proof -
  have "(b, i) \<notin> X" if "own b = Some l" "(b, i) \<notin> Y" for b i l using assms(2) [of b i] that by auto
  then show ?thesis using assms(1) by (simp add: builds_def)
qed

text \<open>The globals are not part of it.\<close>

lemma pt_inv_globals [simp]:
  "pt_inv own (s\<lparr>vm_kernPt := p\<rparr>) = pt_inv own s" "pt_inv own (s\<lparr>vm_kernPd := p\<rparr>) = pt_inv own s"
  "pt_inv own (s\<lparr>vm_kernPdpt := p\<rparr>) = pt_inv own s" "pt_inv own (s\<lparr>vm_kernPml4 := p\<rparr>) = pt_inv own s"
  "pt_inv own (s\<lparr>kernelHasMappedEnd := p, kernelSize := q\<rparr>) = pt_inv own s"
  "pt_inv own (s\<lparr>vm_cr3 := p\<rparr>) = pt_inv own s"
  by (simp_all add: pt_inv_def mem_ok_def table_ok_def used_page_def)

lemma builds_globals [simp]:
  "builds X own (s\<lparr>vm_kernPt := p\<rparr>) own' s' = builds X own s own' s'"
  "builds X own (s\<lparr>vm_kernPd := p\<rparr>) own' s' = builds X own s own' s'"
  "builds X own (s\<lparr>vm_kernPdpt := p\<rparr>) own' s' = builds X own s own' s'"
  "builds X own (s\<lparr>vm_kernPml4 := p\<rparr>) own' s' = builds X own s own' s'"
  "builds X own (s\<lparr>kernelHasMappedEnd := p, kernelSize := q\<rparr>) own' s' = builds X own s own' s'"
  "builds X own s own' (s'\<lparr>vm_kernPt := p\<rparr>) = builds X own s own' s'"
  "builds X own s own' (s'\<lparr>vm_kernPd := p\<rparr>) = builds X own s own' s'"
  "builds X own s own' (s'\<lparr>vm_kernPdpt := p\<rparr>) = builds X own s own' s'"
  "builds X own s own' (s'\<lparr>vm_cr3 := p\<rparr>) = builds X own s own' s'"
  by (simp_all add: builds_def bytes_kept_def)

text \<open>A page from the top of memory becomes a table.\<close>

lemma top_run_room: "top_run mb a n \<Longrightarrow> k \<le> n \<Longrightarrow> k \<le> slots mb \<Longrightarrow> k \<le> room mb"
  unfolding le_room by (cases k) (auto simp: top_run_def intro: free_run_mono)

lemma top_page:
  assumes inv: "mem_ok s" and top: "top_run (boot_mem s) a n" "0 < n"
  obtains s' where "vm_alloc PGSIZE PGSIZE s = Inr (of_nat (a + 4096 * (n - 1)), s')"
    "page_allocated s (p2v (of_nat (a + 4096 * (n - 1)))) s'" "top_run (boot_mem s') a (n - 1)"
    "slots (boot_mem s) \<le> slots (boot_mem s')"
proof -
  let ?mb = "boot_mem s"
  have ok: "mb_ok ?mb" using inv by (simp add: mem_ok_def)
  have "1 \<le> room ?mb" using top by (intro top_run_room [OF top(1)]) (auto simp: top_run_def)
  then obtain c s' where c: "vm_alloc PGSIZE PGSIZE s = Inr (c, s')" "page_allocated s (p2v c) s'"
    using alloc_page_result [OF inv] by auto
  have "unat PGSIZE = 4096 * 1" by (simp add: PGSIZE_def)
  from alloc_top [OF ok this _ _ top(1)] top(2) obtain c' mb' where
    top': "memblock_alloc_base PGSIZE PGSIZE MEMBLOCK_ALLOC_ACCESSIBLE ?mb = Inr (c', mb')"
      "unat c' = a + 4096 * (n - 1)" "top_run mb' a (n - 1)" "slots ?mb \<le> slots mb'"
    by (auto simp: Suc_le_eq)
  have "c = c'" "boot_mem s' = mb'"
    using c(1) top'(1) by (auto simp: vm_alloc_def memblock_alloc_def clear_mem_def)
  moreover have "of_nat (unat c') = c'" by simp
  then have "c' = of_nat (a + 4096 * (n - 1))" by (simp only: top'(2))
  ultimately show ?thesis using that [of s'] c top' by simp
qed

abbreviation top_table :: "nat \<Rightarrow> nat \<Rightarrow> u64" where "top_table a n \<equiv> p2v (of_nat (a + 4096 * (n - 1)))"

lemma top_table_built:
  assumes inv: "pt_inv own s" and top: "top_run (boot_mem s) a n" "0 < n"
  obtains s' where "vm_alloc_kernel PGSIZE PGSIZE s = Inr (top_table a n, s')" "own (top_table a n) = None"
    "page_base (top_table a n)" "builds {} own s (own(top_table a n \<mapsto> l)) s'"
    "\<forall>i<512. pt_heap s' (entry (top_table a n) i) = Some 0"
    "same_regs s s'" "top_run (boot_mem s') a (n - 1)" "slots (boot_mem s) \<le> slots (boot_mem s')"
proof -
  let ?c = "top_table a n"
  have "mem_ok s" using inv by (simp add: pt_inv_def)
  then obtain s' where s': "vm_alloc PGSIZE PGSIZE s = Inr (of_nat (a + 4096 * (n - 1)), s')"
    "page_allocated s ?c s'" "top_run (boot_mem s') a (n - 1)" "slots (boot_mem s) \<le> slots (boot_mem s')"
    using top by (rule top_page)
  note facts = allocated_tables [OF inv s'(2)] and new = new_table [OF inv s'(2), of l]
  have "own \<subseteq>\<^sub>m own(?c \<mapsto> l)" using facts(1) by (auto simp: map_le_def)
  then have "builds {} own s (own(?c \<mapsto> l)) s'"
    using new facts(3) allocated_bytes [OF s'(2)] by (simp add: builds_def)
  moreover have "page_base ?c" using s'(2) unfolding page_allocated_def by blast
  ultimately show ?thesis
    using that [of s'] s' facts allocated_regs [OF s'(2)] by (simp add: vm_alloc_kernel_def)
qed

text \<open>Writing an empty entry.\<close>

lemma entry_built:
  assumes "pt_inv own s" "own b = Some l" "i < 512" "pt_heap s (entry b i) = Some 0"
    and "1 < l \<Longrightarrow> present v \<Longrightarrow> own (table_of v) = Some (l - 1)"
  shows "mod_pte (entry b i) (\<lambda>_. v) s = Inr (s\<lparr>pt_heap := (pt_heap s)(entry b i \<mapsto> v)\<rparr>)"
    and "builds {(b, i)} own s own (s\<lparr>pt_heap := (pt_heap s)(entry b i \<mapsto> v)\<rparr>)"
proof -
  note set = set_entry [OF assms(1-3) _ assms(5)]
  show "mod_pte (entry b i) (\<lambda>_. v) s = Inr (s\<lparr>pt_heap := (pt_heap s)(entry b i \<mapsto> v)\<rparr>)"
    using set(1) assms(4) by (simp add: present_bit)
  have "entry d j = entry b i \<longleftrightarrow> d = b \<and> j = i" if "own d = Some k" "j < 512" for d j k
    using entry_inj that assms(3) pt_inv_table [OF assms(1,2)] pt_inv_table [OF assms(1) that(1)]
    by (simp add: table_ok_def)
  then show "builds {(b, i)} own s own (s\<lparr>pt_heap := (pt_heap s)(entry b i \<mapsto> v)\<rparr>)"
    using set(2) assms(4) by (auto simp: builds_def bytes_kept_def present_bit)
qed

subsection \<open>One page table\<close>

text \<open>The entry for the frame \<open>j\<close> of the two megabytes \<open>d\<close>.\<close>

definition frame_pte :: "u64 \<Rightarrow> u64 \<Rightarrow> u64" where
  "frame_pte d j = (0x200000 * d + 0x1000 * j) OR PTE_W OR PTE_P"

lemma index_less: "i < 512 \<Longrightarrow> (of_nat i :: u64) < 512"
  by (simp add: word_less_nat_alt unat_of_nat)

lemma index_inj: "i < 512 \<Longrightarrow> j < 512 \<Longrightarrow> of_nat i = (of_nat j :: u64) \<longleftrightarrow> i = j"
  by (simp add: word_unat_eq_iff unat_of_nat)

lemma fill_table:
  assumes inv: "pt_inv own s" "own pt = Some 1" and zero: "\<And>i. i < 512 \<Longrightarrow> pt_heap s (entry pt i) = Some 0"
  shows "k \<le> 512 \<Longrightarrow> \<exists>h. fold_ok (\<lambda>i. mod_pte (entry pt (of_nat i)) (\<lambda>_. v (of_nat i))) [0..<k] s = Inr (s\<lparr>pt_heap := h\<rparr>)
      \<and> builds {(pt, i) | i. i < 512} own s own (s\<lparr>pt_heap := h\<rparr>)
      \<and> (\<forall>i<512. h (entry pt (of_nat i)) = Some (if i < k then v (of_nat i) else 0))"
proof (induction k)
  case 0
  have "builds {(pt, i) | i. i < 512} own s own s" using builds_mono [OF builds_refl [OF inv(1)]] by blast
  then show ?case using zero index_less by (intro exI [of _ "pt_heap s"]) simp
next
  case (Suc k)
  then obtain h where h: "fold_ok (\<lambda>i. mod_pte (entry pt (of_nat i)) (\<lambda>_. v (of_nat i))) [0..<k] s = Inr (s\<lparr>pt_heap := h\<rparr>)"
    "builds {(pt, i) | i. i < 512} own s own (s\<lparr>pt_heap := h\<rparr>)"
    "\<forall>i<512. h (entry pt (of_nat i)) = Some (if i < k then v (of_nat i) else 0)" by auto
  let ?h = "h(entry pt (of_nat k) \<mapsto> v (of_nat k))"
  have k: "k < 512" using Suc.prems by simp
  have "pt_heap (s\<lparr>pt_heap := h\<rparr>) (entry pt (of_nat k)) = Some 0" using h(3) k by simp
  note set = entry_built [OF builds_inv [OF h(2)] inv(2) index_less [OF k] this, of "v (of_nat k)"]
  have "page_base pt" using pt_inv_table [OF inv] by (simp add: table_ok_def)
  then have "entry pt (of_nat i) = entry pt (of_nat k) \<longleftrightarrow> i = k" if "i < 512" for i
    using entry_inj [of pt pt "of_nat i" "of_nat k"] index_less [OF that] index_less [OF k] index_inj [OF that k] by simp
  then have "\<forall>i<512. ?h (entry pt (of_nat i)) = Some (if i < Suc k then v (of_nat i) else 0)"
    using h(3) by (auto simp: less_Suc_eq)
  moreover have "builds {(pt, i) | i. i < 512} own s own (s\<lparr>pt_heap := ?h\<rparr>)"
    using builds_mono [OF builds_trans [OF h(2) set(2)], of "{(pt, i) | i. i < 512}"] index_less [OF k] by auto
  moreover have "fold_ok (\<lambda>i. mod_pte (entry pt (of_nat i)) (\<lambda>_. v (of_nat i))) [0..<Suc k] s = Inr (s\<lparr>pt_heap := ?h\<rparr>)"
    using h(1) set(1) by (simp add: fold_ok_append)
  ultimately show ?case by blast
qed

text \<open>What entry \<open>d\<close> of the page directory leads to.\<close>

definition maps_2mb :: "tables \<Rightarrow> vmstate \<Rightarrow> u64 \<Rightarrow> u64 \<Rightarrow> bool" where
  "maps_2mb own s pd d \<longleftrightarrow> (\<exists>pt. pt_heap s (entry pd d) = Some (v2p pt OR PTE_W OR PTE_P)
     \<and> page_base pt \<and> own pt = Some 1 \<and> (\<forall>i<512. pt_heap s (entry pt (of_nat i)) = Some (frame_pte d (of_nat i))))"

lemma link_pte:
  assumes "page_base c"
  shows "table_of (v2p c OR PTE_W OR PTE_P) = c" "present (v2p c OR PTE_W OR PTE_P)"
proof -
  have "v2p c OR PTE_W OR PTE_P = v2p c OR 3" by (simp add: PTE_P_def PTE_W_def or.assoc)
  then show "table_of (v2p c OR PTE_W OR PTE_P) = c" using table_of_entry [OF assms, of 3] by simp
  show "present (v2p c OR PTE_W OR PTE_P)" by (simp add: present_bit PTE_P_def bit_simps)
qed

lemma maps_2mb_kept:
  assumes "maps_2mb own s pd d" and "builds X own s own' s'" and "own pd = Some l" "d < 512"
    and "(pd, d) \<notin> X" and "\<And>b i. (b, i) \<in> X \<Longrightarrow> own b \<noteq> Some 1"
  shows "maps_2mb own' s' pd d"
proof -
  obtain pt where pt: "pt_heap s (entry pd d) = Some (v2p pt OR PTE_W OR PTE_P)" "page_base pt" "own pt = Some 1"
    "\<forall>i<512. pt_heap s (entry pt (of_nat i)) = Some (frame_pte d (of_nat i))"
    using assms(1) by (auto simp: maps_2mb_def)
  have "pt_heap s' (entry pd d) = Some (v2p pt OR PTE_W OR PTE_P)"
    using builds_entry [OF assms(2-5)] pt(1) by simp
  moreover have "pt_heap s' (entry pt (of_nat i)) = Some (frame_pte d (of_nat i))" if "i < 512" for i
    using builds_entry [OF assms(2) pt(3) index_less [OF that]] assms(6) pt(3,4) that by metis
  ultimately show ?thesis using builds_own [OF assms(2) pt(3)] pt(2) by (auto simp: maps_2mb_def)
qed

definition same_roots :: "vmstate \<Rightarrow> vmstate \<Rightarrow> bool" where
  "same_roots s s' \<longleftrightarrow> vm_kernPml4 s' = vm_kernPml4 s \<and> vm_kernPdpt s' = vm_kernPdpt s \<and> vm_kernPd s' = vm_kernPd s
     \<and> kernelHasMappedEnd s' = kernelHasMappedEnd s \<and> kernelSize s' = kernelSize s"

text \<open>A new table is allocated and entered in entry \<open>i\<close> of the table \<open>b\<close>. The assignment of a global comes
  between the two.\<close>

lemma mod_pte_globals [simp]:
  "mod_pte p f (s\<lparr>vm_kernPt := c\<rparr>) = bind_ok (mod_pte p f s) (\<lambda>s. Inr (s\<lparr>vm_kernPt := c\<rparr>))"
  "mod_pte p f (s\<lparr>vm_kernPd := c\<rparr>) = bind_ok (mod_pte p f s) (\<lambda>s. Inr (s\<lparr>vm_kernPd := c\<rparr>))"
  "mod_pte p f (s\<lparr>vm_kernPdpt := c\<rparr>) = bind_ok (mod_pte p f s) (\<lambda>s. Inr (s\<lparr>vm_kernPdpt := c\<rparr>))"
  by (auto simp: mod_pte_def get_pte_def bind_ok_def read_at_def split: option.splits)

abbreviation kernel_pte :: "u64 \<Rightarrow> u64" where "kernel_pte c \<equiv> v2p c OR PTE_W OR PTE_P"

lemma linked_table:
  assumes inv: "pt_inv own s" "own b = Some (Suc l)" "i < 512" "pt_heap s (entry b i) = Some 0"
    and top: "top_run (boot_mem s) a n" "0 < n"
  defines "c \<equiv> top_table a n"
  obtains s1 s2 where "vm_alloc_kernel PGSIZE PGSIZE s = Inr (c, s1)"
    "mod_pte (entry b i) (\<lambda>_. kernel_pte c) s1 = Inr s2" "own c = None" "page_base c"
    "builds {(b, i)} own s (own(c \<mapsto> l)) s2" "pt_heap s2 (entry b i) = Some (kernel_pte c)"
    "\<forall>j<512. pt_heap s2 (entry c j) = Some 0" "same_regs s s1" "same_regs s s2" "top_run (boot_mem s2) a (n - 1)"
    "slots (boot_mem s) \<le> slots (boot_mem s2)"
proof -
  obtain s1 where s1: "vm_alloc_kernel PGSIZE PGSIZE s = Inr (c, s1)" "own c = None" "page_base c"
    "builds {} own s (own(c \<mapsto> l)) s1" "\<forall>i<512. pt_heap s1 (entry c i) = Some 0"
    "same_regs s s1" "top_run (boot_mem s1) a (n - 1)" "slots (boot_mem s) \<le> slots (boot_mem s1)"
    unfolding c_def by (rule top_table_built [OF inv(1) top, where l = l])
  let ?own = "own(c \<mapsto> l)" and ?s2 = "s1\<lparr>pt_heap := (pt_heap s1)(entry b i \<mapsto> kernel_pte c)\<rparr>"
  have own: "?own b = Some (Suc l)" "?own c = Some l" using builds_own [OF s1(4) inv(2)] by simp_all
  have "pt_heap s1 (entry b i) = Some 0" using builds_entry [OF s1(4) inv(2,3)] inv(4) by simp
  moreover have "?own (table_of (kernel_pte c)) = Some (Suc l - 1)" using link_pte(1) [OF s1(3)] by simp
  ultimately have set: "mod_pte (entry b i) (\<lambda>_. kernel_pte c) s1 = Inr ?s2" "builds {(b, i)} ?own s1 ?own ?s2"
    using entry_built [OF builds_inv [OF s1(4)] own(1) inv(3), of "kernel_pte c"] by blast+
  have "builds {(b, i)} own s ?own ?s2" using builds_trans [OF s1(4) set(2)] by simp
  moreover have "\<forall>j<512. pt_heap ?s2 (entry c j) = Some 0"
  proof (intro allI impI)
    fix j :: u64 assume "j < 512"
    moreover have "(c, j) \<notin> {(b, i)}" using inv(2) s1(2) by auto
    ultimately show "pt_heap ?s2 (entry c j) = Some 0" using builds_entry [OF set(2) own(2)] s1(5) by metis
  qed
  moreover have "same_regs s ?s2" using s1(6) by (simp add: same_regs_def)
  ultimately show ?thesis using that [OF s1(1) set(1)] s1 by simp
qed

lemma init_table_spec:
  assumes inv: "pt_inv own s" "own (vm_kernPd s) = Some 2" "d < 512" "pt_heap s (entry (vm_kernPd s) d) = Some 0"
    and top: "top_run (boot_mem s) a n" "0 < n"
  obtains own' s' where "init_table d s = Inr s'" "builds {(vm_kernPd s, d)} own s own' s'" "same_roots s s'"
    "top_run (boot_mem s') a (n - 1)" "slots (boot_mem s) \<le> slots (boot_mem s')" "maps_2mb own' s' (vm_kernPd s) d"
proof -
  let ?pd = "vm_kernPd s" and ?pt = "top_table a n"
  have "own ?pd = Some (Suc 1)" using inv(2) by simp
  from linked_table [OF inv(1) this inv(3,4) top] obtain s1 s2 where new:
    "vm_alloc_kernel PGSIZE PGSIZE s = Inr (?pt, s1)" "mod_pte (entry ?pd d) (\<lambda>_. kernel_pte ?pt) s1 = Inr s2"
    "own ?pt = None" "page_base ?pt" "builds {(?pd, d)} own s (own(?pt \<mapsto> 1)) s2"
    "pt_heap s2 (entry ?pd d) = Some (kernel_pte ?pt)" "\<forall>j<512. pt_heap s2 (entry ?pt j) = Some 0"
    "same_regs s s1" "same_regs s s2" "top_run (boot_mem s2) a (n - 1)" "slots (boot_mem s) \<le> slots (boot_mem s2)" .
  let ?own = "own(?pt \<mapsto> 1)" and ?s2 = "s2\<lparr>vm_kernPt := ?pt\<rparr>"
  have own: "?own ?pt = Some 1" "?own ?pd = Some 2" using builds_own [OF new(5) inv(2)] by simp_all
  have inv2: "pt_inv ?own ?s2" using builds_inv [OF new(5)] by simp
  have zero: "pt_heap ?s2 (entry ?pt i) = Some 0" if "i < 512" for i using new(7) that by simp
  from fill_table [OF inv2 own(1) zero, of 512 "frame_pte d"] obtain h where h:
    "fold_ok (\<lambda>i. mod_pte (entry ?pt (of_nat i)) (\<lambda>_. frame_pte d (of_nat i))) [0..<512] ?s2 = Inr (?s2\<lparr>pt_heap := h\<rparr>)"
    "builds {(?pt, i) | i. i < 512} ?own ?s2 ?own (?s2\<lparr>pt_heap := h\<rparr>)"
    "\<forall>i<512. h (entry ?pt (of_nat i)) = Some (if i < 512 then frame_pte d (of_nat i) else 0)" by blast
  let ?s3 = "?s2\<lparr>pt_heap := h\<rparr>"
  have pd: "vm_kernPd s1 = ?pd" using new(8) by (simp add: same_regs_def)
  have run: "init_table d s = Inr ?s3" using h(1) pd new(2) by (simp add: init_table_def new(1) frame_pte_def Let_def)
  have both: "builds ({(?pd, d)} \<union> {(?pt, i) | i. i < 512}) own s ?own ?s3"
    using builds_trans [OF new(5)] h(2) by simp
  have "own b \<noteq> None \<Longrightarrow> (b, i) \<in> {(?pd, d)} \<union> {(?pt, i) | i. i < 512} \<Longrightarrow> (b, i) \<in> {(?pd, d)}" for b i
    using new(3) by auto
  then have built: "builds {(?pd, d)} own s ?own ?s3" by (rule builds_old [OF both])
  have "?pd \<noteq> ?pt" using inv(2) new(3) by auto
  then have "h (entry ?pd d) = Some (kernel_pte ?pt)" using builds_entry [OF h(2) own(2) inv(3)] new(6) by simp
  then have "maps_2mb ?own ?s3 ?pd d" using h(3) new(4) own(1) by (auto simp: maps_2mb_def)
  then show ?thesis using that [OF run built] new(9-11) by (simp add: same_roots_def same_regs_def)
qed

subsection \<open>The whole window\<close>

lemma same_roots_trans: "same_roots s s1 \<Longrightarrow> same_roots s1 s2 \<Longrightarrow> same_roots s s2"
  by (simp add: same_roots_def)

lemma init_tables_spec:
  assumes inv: "pt_inv own s" "own (vm_kernPd s) = Some 2" "\<forall>i<512. pt_heap s (entry (vm_kernPd s) i) = Some 0"
    and top: "top_run (boot_mem s) a n"
  shows "k \<le> 512 \<Longrightarrow> k \<le> n \<Longrightarrow> \<exists>own' s'. fold_ok (\<lambda>i. init_table (of_nat i)) [0..<k] s = Inr s'
      \<and> builds {(vm_kernPd s, of_nat i) | i. i < k} own s own' s' \<and> same_roots s s'
      \<and> top_run (boot_mem s') a (n - k) \<and> slots (boot_mem s) \<le> slots (boot_mem s')
      \<and> (\<forall>i<k. maps_2mb own' s' (vm_kernPd s) (of_nat i))"
proof (induction k)
  case 0
  have "builds {(vm_kernPd s, of_nat i) | i. i < 0} own s own s" using builds_refl [OF inv(1)] by simp
  then show ?case using top by (intro exI [of _ own] exI [of _ s]) (simp add: same_roots_def)
next
  case (Suc k)
  let ?pd = "vm_kernPd s" and ?X = "\<lambda>k. {(vm_kernPd s, of_nat i :: u64) | i. i < k}"
  obtain own1 s1 where 1: "fold_ok (\<lambda>i. init_table (of_nat i)) [0..<k] s = Inr s1" "builds (?X k) own s own1 s1"
    "same_roots s s1" "top_run (boot_mem s1) a (n - k)" "slots (boot_mem s) \<le> slots (boot_mem s1)"
    "\<forall>i<k. maps_2mb own1 s1 ?pd (of_nat i)"
    using Suc by auto
  have k: "k < 512" "0 < n - k" using Suc.prems by simp_all
  have pd: "vm_kernPd s1 = ?pd" using 1(3) by (simp add: same_roots_def)
  have own1: "own1 ?pd = Some 2" using builds_own [OF 1(2) inv(2)] .
  have "of_nat i \<noteq> (of_nat k :: u64)" if "i < k" for i using index_inj [of i k] that k(1) by simp
  then have fresh: "(?pd, of_nat k) \<notin> ?X k" by (auto simp: eq_commute)
  then have "pt_heap s1 (entry ?pd (of_nat k)) = Some 0"
    using builds_entry [OF 1(2) inv(2) index_less [OF k(1)]] inv(3) index_less [OF k(1)] by simp
  from init_table_spec [of own1 s1 "of_nat k" a "n - k", unfolded pd, OF builds_inv [OF 1(2)] own1 index_less [OF k(1)]
      this 1(4) k(2)]
  obtain own2 s2 where 2: "init_table (of_nat k) s1 = Inr s2" "builds {(?pd, of_nat k)} own1 s1 own2 s2"
    "same_roots s1 s2" "top_run (boot_mem s2) a (n - k - 1)" "slots (boot_mem s1) \<le> slots (boot_mem s2)"
    "maps_2mb own2 s2 ?pd (of_nat k)" .
  have "builds (?X (Suc k)) own s own2 s2"
    by (rule builds_mono [OF builds_trans [OF 1(2) 2(2)]]) (auto simp: less_Suc_eq)
  moreover have "maps_2mb own2 s2 ?pd (of_nat i)" if i: "i < Suc k" for i
  proof (cases "i = k")
    case False
    then have "i < k" using i by simp
    then show ?thesis
      using maps_2mb_kept [OF _ 2(2) own1 index_less, of i] 1(6) index_inj [of i k] k(1) own1 by auto
  qed (use 2(6) in simp)
  moreover have "fold_ok (\<lambda>i. init_table (of_nat i)) [0..<Suc k] s = Inr s2" using 1(1) 2(1) by (simp add: fold_ok_append)
  ultimately show ?case using same_roots_trans [OF 1(3) 2(3)] 2(4,5) 1(5) by (intro exI [of _ own2] exI [of _ s2]) simp
qed

text \<open>The upper two tables of the kernel's address space, and all of it, as \<open>vm_init\<close> leaves them.\<close>

definition kernel_roots :: "tables \<Rightarrow> vmstate \<Rightarrow> bool" where
  "kernel_roots own s \<longleftrightarrow>
     (\<forall>i<512. pt_heap s (entry (vm_kernPml4 s) i) = Some (if i = 511 then kernel_pte (vm_kernPdpt s) else 0))
   \<and> (\<forall>i<512. pt_heap s (entry (vm_kernPdpt s) i) = Some (if i = 510 then kernel_pte (vm_kernPd s) else 0))
   \<and> own (vm_kernPml4 s) = Some 4 \<and> own (vm_kernPdpt s) = Some 3 \<and> own (vm_kernPd s) = Some 2
   \<and> page_base (vm_kernPdpt s) \<and> page_base (vm_kernPd s)"

definition kernel_window :: "tables \<Rightarrow> vmstate \<Rightarrow> bool" where
  "kernel_window own s \<longleftrightarrow> kernel_roots own s
   \<and> (\<forall>i<256. maps_2mb own s (vm_kernPd s) (of_nat i))
   \<and> (\<forall>i. 256 \<le> i \<longrightarrow> i < 512 \<longrightarrow> pt_heap s (entry (vm_kernPd s) i) = Some 0)"

lemma kernel_roots_kept:
  assumes "kernel_roots own s" and "builds X own s own' s'" and "same_roots s s'"
    and "\<And>b i. (b, i) \<in> X \<Longrightarrow> b = vm_kernPd s"
  shows "kernel_roots own' s'"
proof -
  note roots = assms(1) [unfolded kernel_roots_def]
  have "pt_heap s' (entry b i) = pt_heap s (entry b i)" if "own b = Some l" "l \<noteq> 2" "i < 512" for b l i
  proof -
    have "b \<noteq> vm_kernPd s" using that(1,2) roots by auto
    then show ?thesis using builds_entry [OF assms(2) that(1,3)] assms(4) by blast
  qed
  from this [of "vm_kernPml4 s" 4] this [of "vm_kernPdpt s" 3] show ?thesis
    using roots assms(3) builds_own [OF assms(2)] by (simp add: kernel_roots_def same_roots_def)
qed

lemma vm_init_roots:
  assumes inv: "pt_inv own s" and top: "top_run (boot_mem s) a n" "3 \<le> n"
  obtains own' s' where
    "vm_init s = bind_ok (fold_ok (\<lambda>i. init_table (of_nat i)) [0..<256] s') (\<lambda>s. Inr (s\<lparr>vm_cr3 := v2p (vm_kernPml4 s)\<rparr>))"
    "builds {} own s own' s'" "kernel_roots own' s'" "\<forall>i<512. pt_heap s' (entry (vm_kernPd s') i) = Some 0"
    "vm_kernPml4 s' = top_table a n" "top_run (boot_mem s') a (n - 3)" "slots (boot_mem s) \<le> slots (boot_mem s')"
    "own (vm_kernPd s') = None"
proof -
  let ?s0 = "s\<lparr>kernelHasMappedEnd := KernelFirstHasMappedEnd, kernelSize := kernelFirstSize\<rparr>"
  let ?t4 = "top_table a n" and ?t3 = "top_table a (n - 1)" and ?t2 = "top_table a (n - 1 - 1)"
  have inv0: "pt_inv own ?s0" "top_run (boot_mem ?s0) a n" "0 < n" using inv top by simp_all
  obtain s1 where 1: "vm_alloc_kernel PGSIZE PGSIZE ?s0 = Inr (?t4, s1)" "own ?t4 = None" "page_base ?t4"
    "builds {} own ?s0 (own(?t4 \<mapsto> 4)) s1" "\<forall>i<512. pt_heap s1 (entry ?t4 i) = Some 0" "same_regs ?s0 s1"
    "top_run (boot_mem s1) a (n - 1)" "slots (boot_mem ?s0) \<le> slots (boot_mem s1)"
    by (rule top_table_built [OF inv0, where l = 4])
  let ?own1 = "own(?t4 \<mapsto> 4)" and ?s1 = "s1\<lparr>vm_kernPml4 := ?t4\<rparr>"
  have lim: "(511 :: u64) < 512" "(510 :: u64) < 512" by simp_all
  have own1: "?own1 ?t4 = Some (Suc 3)" by simp
  have inv1: "pt_inv ?own1 ?s1" "top_run (boot_mem ?s1) a (n - 1)" "0 < n - 1"
    using builds_inv [OF 1(4)] 1(7) top by simp_all
  have "pt_heap ?s1 (entry ?t4 511) = Some 0" using 1(5) by simp
  from linked_table [OF inv1(1) own1 lim(1) this inv1(2,3)] obtain s2 s3 where 2:
    "vm_alloc_kernel PGSIZE PGSIZE ?s1 = Inr (?t3, s2)" "mod_pte (entry ?t4 511) (\<lambda>_. kernel_pte ?t3) s2 = Inr s3"
    "?own1 ?t3 = None" "page_base ?t3" "builds {(?t4, 511)} ?own1 ?s1 (?own1(?t3 \<mapsto> 3)) s3"
    "pt_heap s3 (entry ?t4 511) = Some (kernel_pte ?t3)" "\<forall>j<512. pt_heap s3 (entry ?t3 j) = Some 0"
    "same_regs ?s1 s2" "same_regs ?s1 s3" "top_run (boot_mem s3) a (n - 1 - 1)"
    "slots (boot_mem ?s1) \<le> slots (boot_mem s3)" .
  let ?own2 = "?own1(?t3 \<mapsto> 3)" and ?s3 = "s3\<lparr>vm_kernPdpt := ?t3\<rparr>"
  have own2: "?own2 ?t3 = Some (Suc 2)" "?own2 ?t4 = Some 4" using builds_own [OF 2(5), of ?t4 4] by simp_all
  have inv2: "pt_inv ?own2 ?s3" "top_run (boot_mem ?s3) a (n - 1 - 1)" "0 < n - 1 - 1"
    using builds_inv [OF 2(5)] 2(10) top by simp_all
  have "pt_heap ?s3 (entry ?t3 510) = Some 0" using 2(7) by simp
  from linked_table [OF inv2(1) own2(1) lim(2) this inv2(2,3)] obtain s4 s5 where 3:
    "vm_alloc_kernel PGSIZE PGSIZE ?s3 = Inr (?t2, s4)" "mod_pte (entry ?t3 510) (\<lambda>_. kernel_pte ?t2) s4 = Inr s5"
    "?own2 ?t2 = None" "page_base ?t2" "builds {(?t3, 510)} ?own2 ?s3 (?own2(?t2 \<mapsto> 2)) s5"
    "pt_heap s5 (entry ?t3 510) = Some (kernel_pte ?t2)" "\<forall>j<512. pt_heap s5 (entry ?t2 j) = Some 0"
    "same_regs ?s3 s4" "same_regs ?s3 s5" "top_run (boot_mem s5) a (n - 1 - 1 - 1)"
    "slots (boot_mem ?s3) \<le> slots (boot_mem s5)" .
  let ?own3 = "?own2(?t2 \<mapsto> 2)" and ?s5 = "s5\<lparr>vm_kernPd := ?t2\<rparr>"
  have own3: "?own3 ?t2 = Some 2" "?own3 ?t3 = Some 3" "?own3 ?t4 = Some 4"
    using builds_own [OF 3(5), of ?t3 3] builds_own [OF 3(5) own2(2)] by simp_all
  have ne: "?t4 \<noteq> ?t3" "?t4 \<noteq> ?t2" "?t3 \<noteq> ?t2" using 2(3) 3(3) own2 by (auto simp del: fun_upd_apply)
  have b1: "builds {(?t4, 511)} own ?s0 ?own2 s3" using builds_trans [OF 1(4)] 2(5) by simp
  have b2: "builds {(?t3, 510)} ?own2 s3 ?own3 ?s5" using 3(5) by simp
  note both = builds_trans [OF b1 b2]
  have "own ?t3 = None" using 2(3) ne(1) by (metis fun_upd_apply)
  then have "own b \<noteq> None \<Longrightarrow> (b, i) \<in> {(?t4, 511)} \<union> {(?t3, 510)} \<Longrightarrow> (b, i) \<in> {}" for b i
    using 1(2) by auto
  then have all: "builds {} own ?s0 ?own3 ?s5" by (rule builds_old [OF both])
  have e4: "pt_heap ?s5 (entry ?t4 i) = Some (if i = 511 then kernel_pte ?t3 else 0)" if "i < 512" for i
    using builds_entry [OF 3(5) own2(2) that] builds_entry [OF 2(5), of ?t4 4 i] 1(5) 2(6) that ne(1) by auto
  have e3: "pt_heap ?s5 (entry ?t3 i) = Some (if i = 510 then kernel_pte ?t2 else 0)" if "i < 512" for i
    using builds_entry [OF 3(5) own2(1) that] 2(7) 3(6) that by auto
  have regs: "vm_kernPml4 ?s5 = ?t4" "vm_kernPdpt ?s5 = ?t3" using 2(9) 3(9) by (simp_all add: same_regs_def)
  have run: "vm_init s = bind_ok (fold_ok (\<lambda>i. init_table (of_nat i)) [0..<256] ?s5)
      (\<lambda>s. Inr (s\<lparr>vm_cr3 := v2p (vm_kernPml4 s)\<rparr>))"
    unfolding vm_init_def Let_def using 1(1) 2(1,2) 3(1,2) by simp
  show ?thesis
  proof (rule that [OF run])
    show "builds {} own s ?own3 ?s5" using all by simp
    show "kernel_roots ?own3 ?s5" using e4 e3 regs own3 2(4) 3(4) by (simp add: kernel_roots_def del: fun_upd_apply)
    show "\<forall>i<512. pt_heap ?s5 (entry (vm_kernPd ?s5) i) = Some 0" using 3(7) by simp
    show "top_run (boot_mem ?s5) a (n - 3)" using 3(10) by (simp add: numeral_3_eq_3)
    show "slots (boot_mem s) \<le> slots (boot_mem ?s5)" using 1(8) 2(11) 3(11) by simp
    show "own (vm_kernPd ?s5) = None" using 3(3) ne by (simp split: if_splits)
  qed (use regs in simp)
qed

lemma vm_init_spec:
  assumes inv: "pt_inv own s" and top: "top_run (boot_mem s) a n" "259 \<le> n"
  obtains own' s' where "vm_init s = Inr s'" "builds {} own s own' s'" "kernel_window own' s'"
    "vm_kernPml4 s' = top_table a n" "vm_cr3 s' = v2p (vm_kernPml4 s')"
    "top_run (boot_mem s') a (n - 259)" "slots (boot_mem s) \<le> slots (boot_mem s')"
proof -
  have "3 \<le> n" using top(2) by simp
  from vm_init_roots [OF inv top(1) this] obtain own1 s1 where 1:
    "vm_init s = bind_ok (fold_ok (\<lambda>i. init_table (of_nat i)) [0..<256] s1) (\<lambda>s. Inr (s\<lparr>vm_cr3 := v2p (vm_kernPml4 s)\<rparr>))"
    "builds {} own s own1 s1" "kernel_roots own1 s1" "\<forall>i<512. pt_heap s1 (entry (vm_kernPd s1) i) = Some 0"
    "vm_kernPml4 s1 = top_table a n" "top_run (boot_mem s1) a (n - 3)" "slots (boot_mem s) \<le> slots (boot_mem s1)"
    "own (vm_kernPd s1) = None" .
  let ?pd = "vm_kernPd s1" and ?X = "{(vm_kernPd s1, of_nat i :: u64) | i. i < 256}"
  have pd: "own1 ?pd = Some 2" using 1(3) by (simp add: kernel_roots_def)
  have k: "256 \<le> (512 :: nat)" "256 \<le> n - 3" using top(2) by simp_all
  from init_tables_spec [OF builds_inv [OF 1(2)] pd 1(4,6) k] obtain own' s' where 2:
    "fold_ok (\<lambda>i. init_table (of_nat i)) [0..<256] s1 = Inr s'" "builds ?X own1 s1 own' s'" "same_roots s1 s'"
    "top_run (boot_mem s') a (n - 3 - 256)" "slots (boot_mem s1) \<le> slots (boot_mem s')"
    "\<forall>i<256. maps_2mb own' s' ?pd (of_nat i)" by blast
  have pds: "vm_kernPd s' = ?pd" using 2(3) by (simp add: same_roots_def)
  have "pt_heap s' (entry ?pd i) = Some 0" if i: "256 \<le> i" "i < 512" for i
  proof -
    have "(?pd, i) \<notin> ?X" using i(1) by (auto simp: word_le_nat_alt unat_of_nat)
    then show ?thesis using builds_entry [OF 2(2) pd i(2)] 1(4) i(2) by simp
  qed
  moreover have "kernel_roots own' s'" by (rule kernel_roots_kept [OF 1(3) 2(2,3)]) auto
  ultimately have "kernel_window own' s'" using 2(6) pds by (simp add: kernel_window_def)
  then have window: "kernel_window own' (s'\<lparr>vm_cr3 := v2p (vm_kernPml4 s')\<rparr>)"
    by (simp add: kernel_window_def kernel_roots_def maps_2mb_def)
  have "own b \<noteq> None \<Longrightarrow> (b, i) \<in> {} \<union> ?X \<Longrightarrow> (b, i) \<in> {}" for b i using 1(8) by auto
  then have all: "builds {} own s own' s'" by (rule builds_old [OF builds_trans [OF 1(2) 2(2)]])
  have "vm_init s = Inr (s'\<lparr>vm_cr3 := v2p (vm_kernPml4 s')\<rparr>)" using 1(1) 2(1) by simp
  then show ?thesis
    by (rule that) (use all window 1(5,7) 2(3-5) in \<open>simp_all add: same_roots_def\<close>)
qed

subsection \<open>What is translated\<close>

lemma window_maps:
  assumes "kernel_window own s"
  shows "maps s (vm_kernPml4 s) va e \<longleftrightarrow>
    PML4X va = 511 \<and> PDPTX va = 510 \<and> PDX va < 256 \<and> e = frame_pte (PDX va) (PTX va)"
proof -
  let ?p4 = "vm_kernPml4 s" and ?p3 = "vm_kernPdpt s" and ?p2 = "vm_kernPd s"
  note w = assms [unfolded kernel_window_def kernel_roots_def]
  have e4: "pt_heap s (entry ?p4 (PML4X va)) = Some (if PML4X va = 511 then kernel_pte ?p3 else 0)"
    and e3: "pt_heap s (entry ?p3 (PDPTX va)) = Some (if PDPTX va = 510 then kernel_pte ?p2 else 0)"
    using w index_bounds by blast+
  have link: "table_of (kernel_pte ?p3) = ?p3" "table_of (kernel_pte ?p2) = ?p2" "present (kernel_pte ?p3)"
    "present (kernel_pte ?p2)" "\<not> present 0"
    using w link_pte by (simp_all add: present_bit)
  have two: "PDX va < 256 \<Longrightarrow> maps_2mb own s ?p2 (PDX va)"
  proof -
    assume "PDX va < 256"
    then have "unat (PDX va) < 256" by (simp add: word_less_nat_alt)
    then have "maps_2mb own s ?p2 (of_nat (unat (PDX va)))" using w by blast
    then show ?thesis by simp
  qed
  have leaf: "pt_heap s (entry pt (PTX va)) = Some (frame_pte (PDX va) (PTX va))"
    if "\<forall>i<512. pt_heap s (entry pt (of_nat i)) = Some (frame_pte (PDX va) (of_nat i))" for pt
  proof -
    have "unat (PTX va) < 512" using index_bounds(4) [of va] by (simp add: word_less_nat_alt)
    then have "pt_heap s (entry pt (of_nat (unat (PTX va)))) = Some (frame_pte (PDX va) (of_nat (unat (PTX va))))"
      using that by blast
    then show ?thesis by simp
  qed
  have frame: "present (frame_pte (PDX va) (PTX va))" by (simp add: frame_pte_def present_bit PTE_P_def bit_simps)
  have high: "pt_heap s (entry ?p2 (PDX va)) = Some 0" if "\<not> PDX va < 256"
    using w index_bounds(3) [of va] that by (simp add: not_less)
  show ?thesis
  proof (cases "PML4X va = 511 \<and> PDPTX va = 510 \<and> PDX va < 256")
    case True
    then obtain pt where pt: "pt_heap s (entry ?p2 (PDX va)) = Some (kernel_pte pt)" "page_base pt"
      "\<forall>i<512. pt_heap s (entry pt (of_nat i)) = Some (frame_pte (PDX va) (of_nat i))"
      using two by (auto simp: maps_2mb_def)
    then show ?thesis
      using True e4 e3 link link_pte [OF pt(2)] leaf [OF pt(3)] frame by (auto simp: maps_def path_def)
  next
    case False
    then show ?thesis using e4 e3 link high by (auto simp: maps_def path_def split: if_splits)
  qed
qed

lemma index_of_kernel:
  assumes "KERNBASE \<le> va"
  defines "p \<equiv> unat (va - KERNBASE)"
  shows "unat (PDX va) = p div 2 ^ 21 mod 512" and "unat (PTX va) = p div 2 ^ 12 mod 512"
    and "q < 2 ^ 31 \<Longrightarrow> va < KERNBASE + of_nat q \<longleftrightarrow> p < q"
proof -
  have va: "unat va = 2 ^ 64 - 2 ^ 31 + p"
    using assms(1) by (simp add: p_def KERNBASE_def unat_diff word_le_nat_alt)
  have "(2 ^ 64 - 2 ^ 31 + p) div 2 ^ 21 = 512 * 0x3FFFFFFFE + p div 2 ^ 21"
    "(2 ^ 64 - 2 ^ 31 + p) div 2 ^ 12 = 512 * 0x7FFFFFFFC00 + p div 2 ^ 12" by simp_all
  then show "unat (PDX va) = p div 2 ^ 21 mod 512" "unat (PTX va) = p div 2 ^ 12 mod 512"
    using va by (simp_all only: index_values(3) PTX_def PXMASK_def PTXSHIFT_def unat_index mod_mult_self2 mod_mult_self4)
  assume "q < 2 ^ 31"
  then have "unat (KERNBASE + of_nat q) = 2 ^ 64 - 2 ^ 31 + q"
    by (simp add: KERNBASE_def unat_word_ariths unat_of_nat)
  then show "va < KERNBASE + of_nat q \<longleftrightarrow> p < q" using va by (simp only: word_less_nat_alt) simp
qed

lemma window_indices:
  assumes "canonical va"
  shows "PML4X va = 511 \<and> PDPTX va = 510 \<and> PDX va < 256 \<longleftrightarrow> KERNBASE \<le> va \<and> va < KERNBASE + 0x20000000"
proof (cases "KERNBASE \<le> va")
  case True
  note k = index_of_kernel [OF True]
  have "unat (PDX va) < 256 \<longleftrightarrow> unat (va - KERNBASE) < 2 ^ 29" if "unat (va - KERNBASE) < 2 ^ 30"
    unfolding k(1) using that by (simp add: div_less_iff_less_mult)
  then show ?thesis
    using low_window(2) [OF assms] True k(3) [of "0x40000000"] k(3) [of "0x20000000"]
    by (auto simp: word_unat_eq_iff word_less_nat_alt [of _ 256])
qed (use low_window(2) [OF assms] in \<open>auto simp: word_unat_eq_iff\<close>)

lemma unat_page_offset: "unat (va AND 0xFFF :: u64) = unat va mod 4096"
  by (simp add: mask12 unsigned_take_bit_eq flip: take_bit_eq_mask) (simp add: take_bit_eq_mod)

lemma window_frame:
  assumes "KERNBASE \<le> va" "va < KERNBASE + 0x20000000"
  shows "frame_pte (PDX va) (PTX va) = PGROUNDDOWN (va - KERNBASE) OR PTE_W OR PTE_P"
proof -
  let ?p = "unat (va - KERNBASE)"
  note k = index_of_kernel [OF assms(1)]
  have p: "?p < 2 ^ 29" using k(3) [of "0x20000000"] assms(2) by simp
  have "unat (0x200000 * PDX va + 0x1000 * PTX va) = 2 ^ 21 * (?p div 2 ^ 21) + 2 ^ 12 * (?p div 2 ^ 12 mod 512)"
    using k(1,2) p by (simp add: unat_word_ariths)
  also have "\<dots> = ?p - ?p mod 4096"
  proof -
    have "2097152 * (y div 512) + 4096 * (y mod 512) = 4096 * y" for y :: nat
      using mult_div_mod_eq [of 512 y] by linarith
    then have *: "2 ^ 21 * (y div 512) + 2 ^ 12 * (y mod 512) = 4096 * y" for y :: nat by simp
    have "?p div 2 ^ 21 = ?p div 2 ^ 12 div 512" by (simp flip: div_mult2_eq)
    then show ?thesis by (simp only: *) (simp add: minus_mod_eq_mult_div)
  qed
  also have "\<dots> = unat (PGROUNDDOWN (va - KERNBASE))"
  proof -
    have "unat (va - KERNBASE - PGROUNDDOWN (va - KERNBASE)) = ?p mod 4096"
      unfolding page_offset by (rule unat_page_offset)
    moreover have "PGROUNDDOWN (va - KERNBASE) \<le> va - KERNBASE" by (simp add: PGROUNDDOWN_def word_and_le2)
    ultimately show ?thesis by (simp add: unat_diff word_le_nat_alt)
  qed
  finally have "0x200000 * PDX va + 0x1000 * PTX va = PGROUNDDOWN (va - KERNBASE)" by (simp only: word_unat_eq_iff)
  then show ?thesis by (simp only: frame_pte_def)
qed

lemma OFFSET_minus:
  assumes "page_base b"
  shows "OFFSET (va - b) = OFFSET va"
proof -
  have "va - b = (PGROUNDDOWN va - b) + (va AND 0xFFF)"
    using PGROUNDDOWN_offset [of va] by (metis add_diff_eq add.commute)
  moreover have "page_base (PGROUNDDOWN va - b)" using assms by (intro page_base_diff) simp_all
  ultimately show ?thesis using in_page(3) [OF _ offset_less] unfolding OFFSET_def by metis
qed

lemma kernel_pte_frame: "(PGROUNDDOWN pa OR PTE_W OR PTE_P) AND 0xFFFFFFFFFFFFF000 OR OFFSET pa = pa"
proof -
  have b: "page_base (PGROUNDDOWN pa)" by simp
  have "(0xFFFFFFFFFFFFF000 :: u64) = NOT 0xFFF" "PGROUNDDOWN pa OR PTE_W OR PTE_P = PGROUNDDOWN pa + 3"
    using in_page(1) [OF b, of 3] by (simp_all add: PTE_W_def PTE_P_def or.assoc)
  then have "(PGROUNDDOWN pa OR PTE_W OR PTE_P) AND 0xFFFFFFFFFFFFF000 = PGROUNDDOWN pa"
    using in_page(2) [OF b, of 3] by (simp only:) simp
  then show ?thesis
    using in_page(1) [OF b offset_less] PGROUNDDOWN_offset [of pa] by (simp add: OFFSET_def)
qed

text \<open>C17: The kernel's own address space: with 259 pages at the top of memory, \<open>vm_init\<close> returns and has
  loaded the address of its new root. Below it, the 512MB from \<open>KERNBASE\<close> on are translated to the first
  512MB of memory, with writable entries that user programs cannot use, and no other canonical address is
  translated. What memory held stays as it was.\<close>

theorem vm_init_maps_window:
  assumes "mem_ok s" and "top_run (boot_mem s) a n" and "259 \<le> n"
  shows "\<exists>own s'. vm_init s = Inr s' \<and> pt_inv own s' \<and> own (vm_kernPml4 s') = Some 4
    \<and> vm_cr3 s' = v2p (vm_kernPml4 s') \<and> bytes_kept s s'
    \<and> (\<forall>va. canonical va \<longrightarrow> KERNBASE \<le> va \<and> va < KERNBASE + 0x20000000 \<longrightarrow>
         maps s' (vm_kernPml4 s') va (PGROUNDDOWN (va - KERNBASE) OR PTE_W OR PTE_P)
         \<and> page_walk (vm_kernPml4 s') va False s' = Inr (va - KERNBASE, s'))
    \<and> (\<forall>va e. canonical va \<longrightarrow> maps s' (vm_kernPml4 s') va e \<longrightarrow> KERNBASE \<le> va \<and> va < KERNBASE + 0x20000000)"
proof -
  have "pt_inv Map.empty s" using assms(1) by (simp add: pt_inv_def)
  from vm_init_spec [OF this assms(2,3)] obtain own s' where v: "vm_init s = Inr s'" "builds {} Map.empty s own s'"
    "kernel_window own s'" "vm_cr3 s' = v2p (vm_kernPml4 s')" by metis
  have "maps s' (vm_kernPml4 s') va (PGROUNDDOWN (va - KERNBASE) OR PTE_W OR PTE_P)
      \<and> page_walk (vm_kernPml4 s') va False s' = Inr (va - KERNBASE, s')"
    if "canonical va" "KERNBASE \<le> va \<and> va < KERNBASE + 0x20000000" for va
  proof -
    have m: "maps s' (vm_kernPml4 s') va (PGROUNDDOWN (va - KERNBASE) OR PTE_W OR PTE_P)"
      using window_maps [OF v(3)] window_indices [OF that(1)] window_frame that(2) by metis
    from maps_walk [OF m] kernel_pte_frame [of "va - KERNBASE"] m show ?thesis by (simp add: OFFSET_minus)
  qed
  moreover have "maps s' (vm_kernPml4 s') va e \<longrightarrow> KERNBASE \<le> va \<and> va < KERNBASE + 0x20000000" if "canonical va" for va e
    using window_maps [OF v(3)] window_indices [OF that] by blast
  ultimately show ?thesis
    using v by (intro exI [of _ own] exI [of _ s']) (auto simp: builds_def kernel_window_def kernel_roots_def)
qed

text \<open>A machine whose memory is one block of \<open>n\<close> pages, none of them in use.\<close>

definition block_memory :: "u64 \<Rightarrow> u64 \<Rightarrow> memblock" where
  "block_memory b sz = \<lparr>current_limit = b + sz, mb_memory = table [\<lparr>mr_base = b, mr_size = sz\<rparr>],
     mb_reserved = table [\<lparr>mr_base = 0, mr_size = 0\<rparr>]\<rparr>"

definition block_space :: "u64 \<Rightarrow> u64 \<Rightarrow> vmstate" where
  "block_space b sz = kernel_space\<lparr>boot_mem := block_memory b sz\<rparr>"

lemma block_space_ok:
  assumes b: "unat b = 4096 * k" "0 < k" and sz: "unat sz = 4096 * n" "0 < n" and lim: "4096 * (k + n) \<le> 2 ^ 31"
  shows "mem_ok (block_space b sz)" "top_run (boot_mem (block_space b sz)) (4096 * k) n"
    "slots (boot_mem (block_space b sz)) = 127"
proof -
  let ?mb = "block_memory b sz" and ?r = "\<lparr>mr_base = b, mr_size = sz\<rparr>"
  have fin: "unat (b + sz) = 4096 * (k + n)" using b sz lim by (simp add: unat_word_ariths)
  have live: "live (mb_memory ?mb) = [?r]" by (simp add: block_memory_def table_live)
  have empty: "mt_empty (mb_reserved ?mb)" "live (mb_reserved ?mb) = [\<lparr>mr_base = 0, mr_size = 0\<rparr>]"
    by (simp_all add: block_memory_def table_empty table_live)
  have mem: "all_memory ?mb = {4096 * k..<4096 * (k + n)}" "in_use ?mb = {}"
    using b sz empty by (simp_all add: all_memory_def in_use_def live cover_def)
  have "mt_wf (mb_memory ?mb)" unfolding block_memory_def using sz b lim by (simp add: table_wf good_def)
  then have ok: "mb_ok ?mb" using empty by (simp add: mb_ok_def mt_ok_def)
  then show "mem_ok (block_space b sz)" using mem lim by (simp add: mem_ok_def block_space_def)
  have slots: "slots ?mb = 127" by (simp add: slots_def block_memory_def table_def)
  then show "slots (boot_mem (block_space b sz)) = 127" by (simp add: block_space_def)
  have "free_run ?mb (4096 * k) n"
    using b sz fin empty(2) by (simp add: free_run_def live) (simp add: block_memory_def)
  moreover have "\<not> page_free ?mb p" if "4096 * k + 4096 * n \<le> p" for p
  proof
    assume "page_free ?mb p"
    then have "{p..<p + 4096} \<subseteq> all_memory ?mb" by (simp add: page_free_def)
    moreover have "p \<in> {p..<p + 4096}" by simp
    ultimately show False using that mem(1) by auto
  qed
  ultimately show "top_run (boot_mem (block_space b sz)) (4096 * k) n"
    using slots empty(1) by (simp add: top_run_def block_space_def)
qed

theorem vm_init_maps_window_witness:
  "\<exists>own s'. vm_init (block_space 0x100000 0x400000) = Inr s' \<and> pt_inv own s' \<and> own (vm_kernPml4 s') = Some 4
    \<and> page_walk (vm_kernPml4 s') 0xFFFFFFFF80101234 False s' = Inr (0x101234, s')"
proof -
  have ok: "mem_ok (block_space 0x100000 0x400000)" "top_run (boot_mem (block_space 0x100000 0x400000)) (4096 * 0x100) 0x400"
    using block_space_ok [of "0x100000" "0x100" "0x400000" "0x400"] by simp_all
  have va: "canonical 0xFFFFFFFF80101234" "KERNBASE \<le> 0xFFFFFFFF80101234 \<and> 0xFFFFFFFF80101234 < KERNBASE + 0x20000000"
    "(0xFFFFFFFF80101234 :: u64) - KERNBASE = 0x101234"
    by (simp_all add: canonical_def KERNBASE_def)
  have "259 \<le> (0x400 :: nat)" by simp
  from vm_init_maps_window [OF ok this] obtain own s' where s': "vm_init (block_space 0x100000 0x400000) = Inr s'"
    "pt_inv own s'" "own (vm_kernPml4 s') = Some 4"
    "\<forall>va. canonical va \<longrightarrow> KERNBASE \<le> va \<and> va < KERNBASE + 0x20000000 \<longrightarrow>
         maps s' (vm_kernPml4 s') va (PGROUNDDOWN (va - KERNBASE) OR PTE_W OR PTE_P)
         \<and> page_walk (vm_kernPml4 s') va False s' = Inr (va - KERNBASE, s')" by blast
  have "page_walk (vm_kernPml4 s') 0xFFFFFFFF80101234 False s' = Inr (0x101234, s')"
    using s'(4) [rule_format, OF va(1,2), THEN conjunct2] unfolding va(3) .
  then show ?thesis using s'(1-3) by blast
qed

lemma unat_small: "n < 2 ^ 64 \<Longrightarrow> unat (of_nat n :: u64) = n"
  by (simp add: unat_of_nat)

text \<open>C40: Memory above 512MB: the allocator takes the pages for the tables from the top of all memory, but
  \<open>vm_init\<close> maps only the first 512MB. The root of the new address space is then not mapped in it, and the
  first access to it through \<open>kernPml4\<close> faults.\<close>

theorem root_outside_window:
  assumes "mem_ok s" and "top_run (boot_mem s) a n" and "259 \<le> n" and "2 ^ 29 < a + 4096 * n"
  shows "\<exists>s'. vm_init s = Inr s' \<and> vm_kernPml4 s' = p2v (of_nat (a + 4096 * (n - 1)))
    \<and> vm_cr3 s' = v2p (vm_kernPml4 s') \<and> (\<forall>e. \<not> maps s' (vm_kernPml4 s') (vm_kernPml4 s') e)"
proof -
  have "pt_inv Map.empty s" using assms(1) by (simp add: pt_inv_def)
  from vm_init_spec [OF this assms(2,3)] obtain own s' where v: "vm_init s = Inr s'"
    "kernel_window own s'" "vm_kernPml4 s' = top_table a n" "vm_cr3 s' = v2p (vm_kernPml4 s')" by metis
  let ?x = "a + 4096 * (n - 1)"
  have run: "free_run (boot_mem s) a n" using assms(2,3) by (simp add: top_run_def)
  then obtain q where q: "a = 4096 * q" by (auto simp: free_run_def)
  have "131072 < q + n" using assms(4) unfolding q by simp
  then have "131072 \<le> q + (n - 1)" using assms(3) by simp
  then have low: "2 ^ 29 \<le> ?x" unfolding q by simp
  obtain r where r: "r \<in> set (live (mb_memory (boot_mem s)))" "lo r \<le> a" "a + 4096 * n \<le> hi r"
    using run by (auto simp: free_run_def)
  have "?x \<in> all_memory (boot_mem s)"
    using r assms(3) by (auto simp: all_memory_def cover_def intro!: bexI [of _ r])
  then have high: "?x < 2 ^ 31" using assms(1) by (auto simp: mem_ok_def)
  let ?va = "top_table a n"
  have x: "unat (of_nat ?x :: u64) = ?x" using high by (intro unat_small) simp
  then have va: "unat ?va = 2 ^ 64 - 2 ^ 31 + ?x"
    using p2v_low [of "of_nat ?x"] high unfolding x by (simp add: KERNBASE_def)
  then have kern: "KERNBASE \<le> ?va" "canonical ?va" "\<not> ?va < KERNBASE + 0x20000000"
    using low by (simp_all add: canonical_def KERNBASE_def word_le_nat_alt word_less_nat_alt)
  then have "\<not> maps s' ?va ?va e" for e
    using window_maps [OF v(2), of ?va e, unfolded v(3)] window_indices [OF kern(2)] kern(3) by blast
  then show ?thesis using v by auto
qed

theorem root_outside_window_witness:
  "\<exists>s'. vm_init (block_space 0x1FF00000 0x400000) = Inr s' \<and> vm_kernPml4 s' = 0xFFFFFFFFA02FF000
    \<and> (\<forall>e. \<not> maps s' 0xFFFFFFFFA02FF000 0xFFFFFFFFA02FF000 e)"
proof -
  have ok: "mem_ok (block_space 0x1FF00000 0x400000)"
    "top_run (boot_mem (block_space 0x1FF00000 0x400000)) (4096 * 0x1FF00) 0x400"
    using block_space_ok [of "0x1FF00000" "0x1FF00" "0x400000" "0x400"] by simp_all
  show ?thesis using root_outside_window [OF ok] by (auto simp: p2v_def KERNBASE_def)
qed

end
