(* ===== verification/Turns.thy ===== *)
theory Turns
  imports Exchange TrapProps AcpiProps
begin

text \<open>
  The scheduler over the whole machine: \<open>switch_to_thread\<close> and \<open>sched\<close> of \<open>src/kernel/thread.c\<close> with their
  calls of \<open>swtch\<close>, and the loop of \<open>main\<close>. Where \<open>Sched\<close> leaves open what happens between a switch to a thread
  and the switch back, here the saved stack pointers decide it.
\<close>

subsection \<open>The loop\<close>

definition switch_thread_on :: "(machine \<Rightarrow> kerror + machine) \<Rightarrow> u64 \<Rightarrow> machine \<Rightarrow> kerror + machine" where
  "switch_thread_on run thread M =
     bind_ok (on_kern (switch_in thread) M) (\<lambda>M.
     bind_ok (run M) (\<lambda>M. Inr (M\<lparr>kern := kernel_switch_vm (kern M)\<rparr>)))"

definition choose_on :: "(machine \<Rightarrow> kerror + machine) \<Rightarrow> machine \<Rightarrow> kerror + machine" where
  "choose_on run M =
     (let thread = q_head (ksReadyQueues (kern M))
      in if thread = 0 then Inr M else switch_thread_on run thread M)"

definition set_action :: "u64 \<Rightarrow> machine \<Rightarrow> machine" where
  "set_action a M = M\<lparr>kern := (kern M)\<lparr>ksSchedulerAction := a\<rparr>\<rparr>"

definition schedule_on :: "(machine \<Rightarrow> kerror + machine) \<Rightarrow> machine \<Rightarrow> kerror + machine" where
  "schedule_on run M =
     bind_ok
       (if ksSchedulerAction (kern M) \<noteq> SchedulerAction_ResumeCurrentThread
        then (if ksSchedulerAction (kern M) = SchedulerAction_ChooseNewThread
              then choose_on run M else choose_on run M)
        else Inr M) (\<lambda>M.
     Inr (set_action SchedulerAction_ResumeCurrentThread M))"

definition turn_on :: "(machine \<Rightarrow> kerror + machine) \<Rightarrow> machine \<Rightarrow> kerror + machine" where
  "turn_on run M = schedule_on run (set_action SchedulerAction_ChooseNewThread M)"

text \<open>It is the loop of \<open>Sched\<close> when the threads only work on the kernel's objects.\<close>

lemma turn_on_kern: "turn_on (on_kern run) M = on_kern (main_loop_body run) M"
proof -
  have switch: "switch_thread_on (on_kern run) t M = on_kern (switch_to_thread run t) M" for t M
    by (cases "switch_in t (kern M)"; cases "run (projr (switch_in t (kern M)))")
      (simp_all add: switch_thread_on_def on_kern_def switch_to_thread_def)
  then have choose: "choose_on (on_kern run) M = on_kern (choose_thread run) M" for M
    by (simp add: choose_on_def choose_thread_def on_kern_def Let_def)
  show ?thesis
    by (cases "choose_thread run ((kern M)\<lparr>ksSchedulerAction := SchedulerAction_ChooseNewThread\<rparr>)")
      (simp_all add: turn_on_def set_action_def schedule_on_def choose on_kern_def main_loop_body_def
        schedule_def sched_action_defs)
qed

subsection \<open>The two calls of \<open>swtch\<close>\<close>

text \<open>\<open>swtch(&oldThread->context, thread->context)\<close> in \<open>switch_to_thread\<close> and the \<open>swtch\<close> in \<open>sched\<close> by
  which the thread gives up the processor. The loop always comes to its \<open>swtch\<close> at the same depth of the stack:
  \<open>own\<close> is the stack pointer it saves there; \<open>saved\<close> is the one a thread saves in \<open>sched\<close>. \<open>go c\<close> is what the
  processor does from the saved context \<open>c\<close> on. The context that is switched to is read before the
  other one is stored. A thread whose main function returns goes on at the address that \<open>fill_ustack\<close> left.\<close>

definition swtch_run ::
    "u64 \<Rightarrow> (u64 \<Rightarrow> u64) \<Rightarrow> (u64 \<Rightarrow> machine \<Rightarrow> kerror + unit outcome) \<Rightarrow> machine \<Rightarrow> kerror + machine" where
  "swtch_run own saved go M =
     (let thread = ksCurThread (kern M) in
     bind_ok (get_tcb (kern M) thread) (\<lambda>t.
     bind_ok (on_kern (mod_tcb (oldThread (kern M)) (\<lambda>o'. o'\<lparr>tcb_context := own\<rparr>)) M) (\<lambda>M.
     if tcb_context t = own then Inr M else
     bind_ok (go (tcb_context t) M) (\<lambda>r. case r of
       Returns _ M \<Rightarrow> Inl (BadPtr 0xFFFFFFFF)
     | Switches back M \<Rightarrow>
         bind_ok (on_kern (mod_tcb (ksCurThread (kern M)) (\<lambda>t. t\<lparr>tcb_context := saved thread\<rparr>)) M) (\<lambda>M.
         if back = own then Inr M else Inl (BadPtr back))))))"

definition machine_turn ::
    "u64 \<Rightarrow> (u64 \<Rightarrow> u64) \<Rightarrow> (u64 \<Rightarrow> machine \<Rightarrow> kerror + unit outcome) \<Rightarrow> machine \<Rightarrow> kerror + machine" where
  "machine_turn own saved go = turn_on (swtch_run own saved go)"

text \<open>A thread that runs for the first time.\<close>

definition first_run :: "(machine \<Rightarrow> kerror + unit outcome) \<Rightarrow> machine \<Rightarrow> kerror + unit outcome" where
  "first_run prog M = bind_ok (forkret M) prog"

text \<open>Why a saved context that is \<open>own\<close> means a return at once: a \<open>swtch\<close> to the stack pointer that it saves
  itself pops what it has pushed.\<close>

lemma swtch_own_frame:
  assumes room: "block_at (cpu_rsp c - 56) 8 \<subseteq> dom (mem c)" "mem c (cpu_rsp c) = Some ret"
    and rsi: "gpr c Rsi = cpu_rsp c - 56"
    and rdi: "gpr c Rdi \<in> dom (mem c)" "gpr c Rdi \<notin> block_at (cpu_rsp c - 56) 8"
  shows "\<exists>m. exec swtch c = Inr (c\<lparr>mem := m, cpu_rsp := cpu_rsp c + 8, cpu_rip := ret\<rparr>)
    \<and> m (gpr c Rdi) = Some (cpu_rsp c - 56)"
proof -
  let ?sp = "cpu_rsp c - 56" and ?ws = "map (gpr c) (rev callee_saved)"
  have len: "length ?ws = 7" by (simp add: callee_saved_def)
  have sub: "block_at ?sp 7 \<subseteq> block_at ?sp 8" by (rule block_at_bound) simp
  obtain m where m: "exec (map PUSH (rev callee_saved)) c = Inr (c\<lparr>mem := m, cpu_rsp := ?sp\<rparr>)"
    "holds m ?sp (rev ?ws @ [ret])" "dom m = dom (mem c)"
    using pushes [of c ?ws "[ret]"] room sub unfolding exec_pushes len by (auto simp: holds_Cons)
  let ?m = "m(gpr c Rdi \<mapsto> ?sp)"
  define vs where "vs = rev ?ws @ [ret]"
  have "length vs = 8" using len by (simp add: vs_def)
  then have "holds ?m ?sp vs = holds m ?sp vs" using rdi(2) by (intro holds_cong) auto
  then have keep: "holds ?m ?sp (rev ?ws @ [ret])" using m(2) by (simp add: vs_def)
  then have words: "holds ?m ?sp (map (gpr c) callee_saved)" "?m (?sp + 56) = Some ret"
    by (simp_all add: rev_map holds_append holds_Cons callee_saved_def del: fun_upd_apply)
  let ?c = "c\<lparr>mem := ?m, cpu_rsp := ?sp\<rparr>"
  have seven: "length callee_saved = 7" by (simp add: callee_saved_def)
  have "load_regs callee_saved (map (gpr c) callee_saved) (gpr c) = gpr c"
    by (auto simp: callee_saved_def fun_eq_iff)
  moreover have "exec (map POP callee_saved) ?c = Inr (?c\<lparr>gpr := load_regs callee_saved (map (gpr c) callee_saved) (gpr ?c),
      cpu_rsp := cpu_rsp ?c + 8 * of_nat (length callee_saved)\<rparr>)"
    using words(1) by (intro exec_pops) simp_all
  ultimately have "exec (map POP callee_saved @ [RET]) ?c = Inr (c\<lparr>mem := ?m, cpu_rsp := cpu_rsp c + 8, cpu_rip := ret\<rparr>)"
    using words(2) by (simp add: fold_ok_append pop_word_def seven del: fun_upd_apply)
  moreover have "mem (c\<lparr>mem := m, cpu_rsp := ?sp\<rparr>) (gpr c Rdi) \<noteq> None" using rdi(1) m(3) by auto
  ultimately have "exec swtch c = Inr (c\<lparr>mem := ?m, cpu_rsp := cpu_rsp c + 8, cpu_rip := ret\<rparr>)"
    unfolding swtch_parts by (simp add: fold_ok_append m(1) store_word64_def rsi del: fun_upd_apply)
  then show ?thesis by (intro exI [of _ ?m]) simp
qed

text \<open>The stack pointer that the processor loads from the task state segment.\<close>

definition tss_rsp0 :: "kstate \<Rightarrow> u64" where
  "tss_rsp0 s = ucast (hw_tss s 1) OR push_bit 32 (ucast (hw_tss s 2))"

lemma tss_rsp0_set [simp]: "tss_rsp0 (s\<lparr>hw_tss := tss_set_rsp 0 w f\<rparr>) = w"
  by (rule bit_word_eqI) (auto simp: tss_rsp0_def tss_set_rsp_def bit_simps)

lemma kprintf_terminal:
  assumes "format (byte_heap (vm M)) fmt args = Some (Inr cs)" and "screen_ok (cons M)"
  obtains c where "kprintf fmt args M = Inr (M\<lparr>cons := c\<rparr>)" "screen_ok c"
    "terminal_of c = fold put_char cs (terminal_of (cons M))"
  using consputs_on_screen [OF assms(2), of cs] assms(1) by (auto simp: kprintf_def cprintf_def)


subsection \<open>Turns of the loop\<close>

lemma context_fields [simp]:
  "send_fields (t\<lparr>tcb_context := c\<rparr>) = send_fields t" "tsType (tcbState (t\<lparr>tcb_context := c\<rparr>)) = tsType (tcbState t)"
  by (simp_all add: send_fields_def talk_fields_def)

lemma owned_erase [simp]: "owned (erase_sched t) = owned t"
  by (simp add: owned_def erase_sched_def)


lemma turn_start:
  assumes "ready_rep (kern M) (t # xs)"
  obtains k x where "ready_rep k xs" "turn_frame (kern M) k" "ksCurThread k = t" "oldThread k = ksCurThread (kern M)"
    "ksSchedulerAction k = SchedulerAction_ChooseNewThread" "tcb_heap k t = Some x"
    "tss_rsp0 k = kStack x + PGSIZE" "hw_cr3 k = v2p (tcb_pml4 x)"
    "\<forall>run. turn_on run M = bind_ok (run (M\<lparr>kern := k\<rparr>)) (\<lambda>M. Inr (M\<lparr>kern := (kern M)\<lparr>hw_cr3 := v2p (kernPml4 (kern M)),
          ksSchedulerAction := SchedulerAction_ResumeCurrentThread\<rparr>\<rparr>))"
proof -
  obtain k x where k: "switch_in t ((kern M)\<lparr>ksSchedulerAction := SchedulerAction_ChooseNewThread\<rparr>) = Inr k"
    "ready_rep k xs" "turn_frame (kern M) k" "ksCurThread k = t" "oldThread k = ksCurThread (kern M)"
    "ksSchedulerAction k = SchedulerAction_ChooseNewThread" "tcb_heap k t = Some x"
    "hw_tss k = tss_set_rsp 0 (kStack x + PGSIZE) (hw_tss (kern M))" "hw_cr3 k = v2p (tcb_pml4 x)"
    using switch_in_head [OF assms] by blast
  have "tss_rsp0 k = kStack x + PGSIZE"
    using tss_rsp0_set [where s = k and w = "kStack x + PGSIZE" and f = "hw_tss (kern M)"] k(8) by (simp add: tss_rsp0_def)
  moreover have "turn_on run M = bind_ok (run (M\<lparr>kern := k\<rparr>)) (\<lambda>M. Inr (M\<lparr>kern := (kern M)\<lparr>hw_cr3 := v2p (kernPml4 (kern M)),
          ksSchedulerAction := SchedulerAction_ResumeCurrentThread\<rparr>\<rparr>))" for run
    using ready_repD(1) [OF assms] k(1) by (simp add: turn_on_def set_action_def schedule_on_def choose_on_def
        switch_thread_on_def on_kern_def sched_action_defs kernel_switch_vm_def bind_ok_assoc Let_def)
  ultimately show ?thesis using that k(2-7,9) by blast
qed


text \<open>The store of a saved stack pointer.\<close>

definition put_context :: "u64 \<Rightarrow> u64 \<Rightarrow> kstate \<Rightarrow> kstate" where
  "put_context t c s = s\<lparr>tcb_heap := (tcb_heap s)(t := map_option (\<lambda>x. x\<lparr>tcb_context := c\<rparr>) (tcb_heap s t))\<rparr>"

lemma put_context_mod:
  "tcb_heap s t = Some x \<Longrightarrow> mod_tcb t (\<lambda>x. x\<lparr>tcb_context := c\<rparr>) s = Inr (put_context t c s)"
  by (simp add: mod_tcb_def get_tcb_def put_context_def)

lemma put_context_link:
  assumes "\<And>x. fld (x\<lparr>tcb_context := c\<rparr>) = fld x"
  shows "link fld (tcb_heap (put_context t c s)) = link fld (tcb_heap s)"
  using assms by (auto simp: put_context_def link_def fun_eq_iff split: option.splits)

lemma put_context_simps [simp]:
  "tcb_heap (put_context t c s) t' = (if t' = t then map_option (\<lambda>x. x\<lparr>tcb_context := c\<rparr>) (tcb_heap s t) else tcb_heap s t')"
  "ep_heap (put_context t c s) = ep_heap s" "cte_heap (put_context t c s) = cte_heap s"
  "tf_heap (put_context t c s) = tf_heap s" "word_heap (put_context t c s) = word_heap s"
  "excaprefs (put_context t c s) = excaprefs s" "ksCurThread (put_context t c s) = ksCurThread s"
  "oldThread (put_context t c s) = oldThread s" "ksReadyQueues (put_context t c s) = ksReadyQueues s"
  "ksSchedulerAction (put_context t c s) = ksSchedulerAction s" "hw_cr3 (put_context t c s) = hw_cr3 s"
  "tss_rsp0 (put_context t c s) = tss_rsp0 s" "dom (tcb_heap (put_context t c s)) = dom (tcb_heap s)"
  by (auto simp: put_context_def tss_rsp0_def split: option.splits)

lemma put_context_rep [simp]:
  "ready_rep (put_context t c s) xs = ready_rep s xs" "ep_rep (put_context t c s) p ys = ep_rep s p ys"
  "holds_endpoint v (put_context t c s) p u = holds_endpoint v s p u"
  "append_returns un u (put_context t c s) p = append_returns un u s p"
proof -
  show "ep_rep (put_context t c s) p ys = ep_rep s p ys"
    by (rule ep_rep_cong) (simp_all add: put_context_link)
  show "ready_rep (put_context t c s) xs = ready_rep s xs"
    unfolding ready_rep_def by (auto simp: put_context_link split: if_splits)
qed (simp_all add: holds_endpoint_def lookup_slot_def get_cte_def append_returns_def)

lemma swtch_run_thread:
  assumes "ksCurThread (kern M) = t" "tcb_heap (kern M) t = Some x" "tcb_context x \<noteq> own"
    and "tcb_heap (kern M) (oldThread (kern M)) = Some z"
    and "go (tcb_context x) (M\<lparr>kern := put_context (oldThread (kern M)) own (kern M)\<rparr>) = Inr (Switches own M')"
    and "ksCurThread (kern M') = t" "tcb_heap (kern M') t = Some y"
  shows "swtch_run own saved go M = Inr (M'\<lparr>kern := put_context t (saved t) (kern M')\<rparr>)"
  using assms put_context_mod [OF assms(4)] put_context_mod [OF assms(7)]
  by (simp add: swtch_run_def get_tcb_def on_kern_def Let_def)

lemma swtch_run_own:
  assumes "ksCurThread (kern M) = t" "tcb_heap (kern M) t = Some x" "tcb_context x = own"
    and "tcb_heap (kern M) (oldThread (kern M)) = Some z"
  shows "swtch_run own saved go M = Inr (M\<lparr>kern := put_context (oldThread (kern M)) own (kern M)\<rparr>)"
  using assms put_context_mod [OF assms(4)] by (simp add: swtch_run_def get_tcb_def on_kern_def Let_def)


definition end_turn :: "u64 \<Rightarrow> u64 \<Rightarrow> machine \<Rightarrow> machine" where
  "end_turn t c M = M\<lparr>kern := (put_context t c (kern M))\<lparr>hw_cr3 := v2p (kernPml4 (put_context t c (kern M))),
     ksSchedulerAction := SchedulerAction_ResumeCurrentThread\<rparr>\<rparr>"

lemma end_turn_simps [simp]:
  "vm (end_turn t c M) = vm M" "cons (end_turn t c M) = cons M"
  "tcb_heap (kern (end_turn t c M)) = tcb_heap (put_context t c (kern M))"
  "ep_heap (kern (end_turn t c M)) = ep_heap (kern M)" "cte_heap (kern (end_turn t c M)) = cte_heap (kern M)"
  "tf_heap (kern (end_turn t c M)) = tf_heap (kern M)" "word_heap (kern (end_turn t c M)) = word_heap (kern M)"
  "excaprefs (kern (end_turn t c M)) = excaprefs (kern M)"
  "ksCurThread (kern (end_turn t c M)) = ksCurThread (kern M)"
  "ready_rep (kern (end_turn t c M)) xs = ready_rep (kern M) xs" "ep_rep (kern (end_turn t c M)) p ys = ep_rep (kern M) p ys"
proof -
  show "ep_rep (kern (end_turn t c M)) p ys = ep_rep (kern M) p ys"
    unfolding put_context_rep(2) [where t = t and c = c and s = "kern M", symmetric]
    by (simp add: end_turn_def ep_rep_def ep_links_def)
qed (simp_all add: end_turn_def)

definition forkret_text :: string where
  "forkret_text = ''forkret means return to the user mode'' @ [CHR 0x0A]"

lemma forkret_prints:
  assumes "screen_ok (cons M)"
  obtains c where "forkret M = Inr (M\<lparr>cons := c\<rparr>)" "screen_ok c"
    "terminal_of c = fold put_char (codes forkret_text) (terminal_of (cons M))"
proof -
  have "format (byte_heap (vm M)) forkret_text [] = Some (Inr (codes forkret_text))"
    by (simp add: emit_def codes_def forkret_text_def)
  from kprintf_terminal [OF this assms] obtain c where "kprintf forkret_text [] M = Inr (M\<lparr>cons := c\<rparr>)" "screen_ok c"
    "terminal_of c = fold put_char (codes forkret_text) (terminal_of (cons M))" .
  then show ?thesis using that by (simp only: forkret_def forkret_text_def)
qed

text \<open>A thread whose saved context is the loop's own: the switch to it comes back at once.\<close>

lemma stale_turn:
  assumes ready: "ready_rep (kern M) (t # xs)" and x: "tcb_heap (kern M) t = Some x" "tcb_context x = own"
    and cur: "tcb_heap (kern M) (ksCurThread (kern M)) = Some z" "ksCurThread (kern M) \<noteq> t"
  obtains M' y where "machine_turn own saved go M = Inr M'" "cons M' = cons M" "vm M' = vm M" "ready_rep (kern M') xs"
    "word_heap (kern M') = word_heap (kern M)" "tcb_heap (kern M') t = Some y"
    "tsType (tcbState y) = tsType (tcbState x)"
proof -
  obtain k x1 where k: "ready_rep k xs" "turn_frame (kern M) k" "ksCurThread k = t" "oldThread k = ksCurThread (kern M)"
    "ksSchedulerAction k = SchedulerAction_ChooseNewThread" "tcb_heap k t = Some x1"
    "tss_rsp0 k = kStack x1 + PGSIZE" "hw_cr3 k = v2p (tcb_pml4 x1)"
    "\<forall>run. turn_on run M = bind_ok (run (M\<lparr>kern := k\<rparr>)) (\<lambda>M. Inr (M\<lparr>kern := (kern M)\<lparr>hw_cr3 := v2p (kernPml4 (kern M)),
          ksSchedulerAction := SchedulerAction_ResumeCurrentThread\<rparr>\<rparr>))"
    by (rule turn_start [OF ready])
  note objs = turn_frame_objects [OF k(2)]
  have x1: "owned x1 = owned x" "tsType (tcbState x1) = tsType (tcbState x)"
    using objs(7) [OF x(1), of "\<lambda>y. (owned y, tsType (tcbState y))"] k(6) by auto
  obtain z' where z': "tcb_heap k (oldThread k) = Some z'" using objs(7) [OF cur(1), of "\<lambda>_. ()"] k(4) by auto
  have "tcb_context x1 = own" using x(2) x1(1) by (simp add: owned_def)
  then have "swtch_run own saved go (M\<lparr>kern := k\<rparr>) = Inr (M\<lparr>kern := put_context (oldThread k) own k\<rparr>)"
    using swtch_run_own [of "M\<lparr>kern := k\<rparr>" t x1 own z' saved go] k(3,6) z' by simp
  then have "machine_turn own saved go M = Inr (M\<lparr>kern := (put_context (oldThread k) own k)
      \<lparr>hw_cr3 := v2p (kernPml4 (put_context (oldThread k) own k)),
       ksSchedulerAction := SchedulerAction_ResumeCurrentThread\<rparr>\<rparr>)"
    using k(9) by (simp add: machine_turn_def)
  then show ?thesis using that k(1,4,6) x1(2) objs(4) cur(2) by fastforce
qed

end
