(* ===== verification/Plugins.thy ===== *)
theory Plugins
  imports Turns
begin

text \<open>
  The user programs \<open>plugin/sendtest.c\<close> and \<open>plugin/receivetest.c\<close> with the call stubs of \<open>src/kernel/usys.S\<close>,
  and their run under the loop of \<open>Turns\<close>: from the first switch to each of them to their exits.
\<close>

subsection \<open>User programs\<close>

text \<open>The address of a byte of the running program's memory in the kernel's address space: the page tables
  of the current address space as the processor reads them, but for the permission bits.\<close>

definition user_addr :: "u64 \<Rightarrow> machine \<Rightarrow> kerror + u64" where
  "user_addr va M =
     bind_ok (walk_tables False (p2v (hw_cr3 (kern M))) va (vm M)) (\<lambda>(pt, _). case pt of
       None \<Rightarrow> Inl (BadPtr va)
     | Some pt \<Rightarrow> bind_ok (get_pte (vm M) (entry pt (PTX va))) (\<lambda>e.
         if e AND PTE_P = 0 then Inl (BadPtr va) else Inr (p2v ((e AND 0xFFFFFFFFFFFFF000) OR OFFSET va))))"

definition user_read :: "u64 \<Rightarrow> machine \<Rightarrow> kerror + u64" where
  "user_read va M = bind_ok (user_addr va M) (get_word (kern M))"

definition user_write :: "u64 \<Rightarrow> u64 \<Rightarrow> machine \<Rightarrow> kerror + machine" where
  "user_write va w M = bind_ok (user_addr va M) (\<lambda>a. on_kern (mod_word a (\<lambda>_. w)) M)"

text \<open>The message registers of \<open>lib/include/os/function.h\<close>, which the plug-ins have in comments: the argument \<open>b\<close>
  is the thread-local pointer \<open>__osIPCBuffer\<close>; the words of the message follow the tag.\<close>

definition os_set_ipcBuffer :: "u64 \<Rightarrow> u64 \<Rightarrow> u64" where "os_set_ipcBuffer ipcBuffer b = ipcBuffer"

definition os_get_ipcBuffer :: "u64 \<Rightarrow> u64" where "os_get_ipcBuffer b = b"

definition os_get_mr :: "u32 \<Rightarrow> u64 \<Rightarrow> machine \<Rightarrow> kerror + u64" where
  "os_get_mr i b M = user_read (os_get_ipcBuffer b + 8 + 8 * scast i) M"

definition os_set_mr :: "u32 \<Rightarrow> u64 \<Rightarrow> u64 \<Rightarrow> machine \<Rightarrow> kerror + machine" where
  "os_set_mr i mr b M = user_write (os_get_ipcBuffer b + 8 + 8 * scast i) mr M"

lemma os_mr_set_get:
  assumes "os_set_mr i w b M = Inr M'"
  shows "os_get_mr i b M' = Inr w"
proof -
  let ?va = "os_get_ipcBuffer b + 8 + 8 * scast i"
  obtain a v where a: "user_addr ?va M = Inr a" "word_heap (kern M) a = Some v"
    "M' = M\<lparr>kern := (kern M)\<lparr>word_heap := (word_heap (kern M))(a \<mapsto> w)\<rparr>\<rparr>"
    using assms by (auto simp: os_set_mr_def user_write_def bind_ok_Inr_iff on_kern_def mod_word_def
        get_word_def read_at_Inr_iff)
  have "user_addr ?va M' = user_addr ?va M" by (simp add: user_addr_def a(3) cong: option.case_cong)
  with a(1) have "user_addr ?va M' = Inr a" by simp
  then show ?thesis by (simp add: os_get_mr_def user_read_def get_word_def read_at_def a(3))
qed

text \<open>A call stub of \<open>src/kernel/usys.S\<close>, with the registers \<open>f\<close> at its call: the number goes to \<open>rax\<close>, and the
  trap builds the frame that \<open>trap\<close> gets.\<close>

definition call_frame :: "Trapframe \<Rightarrow> u32 \<Rightarrow> Trapframe" where
  "call_frame f n = f\<lparr>tf_rax := ucast n, tf_trapno := T_SYSCALL, tf_err := 0\<rparr>"

definition user_call :: "Uninit \<Rightarrow> u32 \<Rightarrow> Trapframe \<Rightarrow> u32 \<Rightarrow> machine \<Rightarrow> kerror + unit outcome" where
  "user_call un u f n M =
     (let a = (tss_rsp0 (kern M) AND NOT 15) - sizeof_Trapframe in
      trap un u a (with_frame a (call_frame f n) M))"

text \<open>The stubs, with the arguments in the registers of the calling convention.\<close>

definition stub_send :: "Uninit \<Rightarrow> u32 \<Rightarrow> u64 \<Rightarrow> OsMessageInfo \<Rightarrow> Trapframe \<Rightarrow> machine \<Rightarrow> kerror + unit outcome" where
  "stub_send un u dest msg f = user_call un u (f\<lparr>tf_rdi := dest, tf_rsi := u64_from_messageinfo msg\<rparr>) 2"

definition stub_receive :: "Uninit \<Rightarrow> u32 \<Rightarrow> u64 \<Rightarrow> u64 \<Rightarrow> Trapframe \<Rightarrow> machine \<Rightarrow> kerror + unit outcome" where
  "stub_receive un u dest msg f = user_call un u (f\<lparr>tf_rdi := dest, tf_rsi := msg\<rparr>) 3"

definition stub_test :: "Uninit \<Rightarrow> u32 \<Rightarrow> Trapframe \<Rightarrow> machine \<Rightarrow> kerror + unit outcome" where
  "stub_test un u f = user_call un u f 1"

definition stub_print :: "Uninit \<Rightarrow> u32 \<Rightarrow> u64 \<Rightarrow> Trapframe \<Rightarrow> machine \<Rightarrow> kerror + unit outcome" where
  "stub_print un u num f = user_call un u (f\<lparr>tf_rdi := num\<rparr>) 4"

definition stub_exit :: "Uninit \<Rightarrow> u32 \<Rightarrow> Trapframe \<Rightarrow> machine \<Rightarrow> kerror + unit outcome" where
  "stub_exit un u f = user_call un u f 5"

definition stub_brk :: "Uninit \<Rightarrow> u32 \<Rightarrow> u64 \<Rightarrow> Trapframe \<Rightarrow> machine \<Rightarrow> kerror + unit outcome" where
  "stub_brk un u num f = user_call un u (f\<lparr>tf_rdi := num\<rparr>) 6"

lemmas stub_defs = stub_send_def stub_receive_def stub_test_def stub_print_def stub_exit_def stub_brk_def

text \<open>The stub in the assembly of \<open>Cpu\<close> leads to the same call of \<open>trap\<close>.\<close>

lemma user_call_stub:
  assumes "exec (usys n) c = Inr c'" and "a = (tss_rsp0 (kern M) AND NOT 15) - sizeof_Trapframe"
  shows "user_call un u (trap_frame c k err) n M = trap un u a (with_frame a (trap_frame c' 64 []) M)"
  using assms
  by (auto simp: user_call_def usys_def call_frame_def trap_frame_def set_gpr_def has_error_def T_SYSCALL_def Let_def)

text \<open>A call after which the program goes on.\<close>

definition and_then :: "kerror + unit outcome \<Rightarrow> (machine \<Rightarrow> kerror + unit outcome) \<Rightarrow> kerror + unit outcome" where
  "and_then m f = bind_ok m (\<lambda>r. case r of Returns _ M \<Rightarrow> f M | Switches c M \<Rightarrow> Inr (Switches c M))"

lemma and_then_simps [simp]:
  "and_then (Inr (Returns x M)) f = f M" "and_then (Inr (Switches c M)) f = Inr (Switches c M)"
  by (simp_all add: and_then_def)

text \<open>The plug-ins \<open>plugin/sendtest.c\<close> and \<open>plugin/receivetest.c\<close>. The compiler chooses what the registers
  without an argument hold at a call: parameters of the model. \<open>bufferPoint\<close> is 0x2000, and the words of
  the message follow the tag.\<close>

definition bufferPoint :: u64 where "bufferPoint = 0x2000"

definition msg_addr :: "nat \<Rightarrow> u64" where "msg_addr i = bufferPoint + 8 + 8 * of_nat i"

lemma msg_addr_mr:
  "user_read (msg_addr 0) M = os_get_mr 0 (os_set_ipcBuffer bufferPoint b) M"
  "user_write (msg_addr 0) w M = os_set_mr 0 w (os_set_ipcBuffer bufferPoint b) M"
  by (simp_all add: msg_addr_def os_get_mr_def os_set_mr_def os_get_ipcBuffer_def os_set_ipcBuffer_def)

definition sendtest_main :: "Uninit \<Rightarrow> u32 \<Rightarrow> Trapframe \<Rightarrow> Trapframe \<Rightarrow> Trapframe \<Rightarrow> machine \<Rightarrow> kerror + unit outcome" where
  "sendtest_main un u f1 f2 f3 M =
     (let msg = \<lparr>mi_label = 1, capsUnwrapped = 0, extraCaps = 0, mi_length = 1\<rparr>; id = 155 in
     bind_ok (user_write (msg_addr 0) id M) (\<lambda>M.
     and_then (stub_send un u 0 msg f1 M) (\<lambda>M.
     and_then (stub_test un u f2 M)
     (stub_exit un u f3))))"

definition receivetest_main ::
    "Uninit \<Rightarrow> u32 \<Rightarrow> u64 \<Rightarrow> Trapframe \<Rightarrow> Trapframe \<Rightarrow> Trapframe \<Rightarrow> machine \<Rightarrow> kerror + unit outcome" where
  "receivetest_main un u msg f1 f2 f3 M =
     and_then (stub_receive un u 0 msg f1 M) (\<lambda>M.
     bind_ok (user_read (msg_addr 0) M) (\<lambda>id.
     and_then (stub_print un u id f2 M)
     (stub_exit un u f3)))"

subsection \<open>Single calls\<close>

text \<open>A thread that runs, with its trap frame where a trap from user mode puts it.\<close>

definition at_trap :: "kstate \<Rightarrow> u64 \<Rightarrow> Tcb \<Rightarrow> bool" where
  "at_trap s t x \<longleftrightarrow> ksCurThread s = t \<and> tcb_heap s t = Some x
     \<and> tcb_tf x = (tss_rsp0 s AND NOT 15) - sizeof_Trapframe"

lemma with_frame_simps [simp]:
  "with_frame a f (with_frame a g M) = with_frame a f M"
  "vm (with_frame a f M) = vm M" "cons (with_frame a f M) = cons M"
  "kern (with_frame a f M) = (kern M)\<lparr>tf_heap := (tf_heap (kern M))(a \<mapsto> f)\<rparr>"
  "with_frame a f (M\<lparr>cons := c\<rparr>) = (with_frame a f M)\<lparr>cons := c\<rparr>"
  by (simp_all add: with_frame_def)

lemma at_trap_with_frame [simp]: "at_trap (s\<lparr>tf_heap := h\<rparr>) t x = at_trap s t x"
  by (simp add: at_trap_def tss_rsp0_def)

lemma user_call_syscall:
  assumes "at_trap (kern M) t x"
  shows "user_call un u f n M = syscall un u (with_frame (tcb_tf x) (call_frame f n) M)"
proof -
  define a where "a = (tss_rsp0 (kern M) AND NOT 15) - sizeof_Trapframe"
  have tf: "tcb_tf x = a" using assms by (simp add: at_trap_def a_def)
  then have x: "x\<lparr>tcb_tf := a\<rparr> = x" by (cases x) simp
  let ?M = "with_frame a (call_frame f n) M"
  have "mod_tcb t (\<lambda>t. t\<lparr>tcb_tf := a\<rparr>) (kern ?M) = Inr (kern ?M)"
    using assms x by (cases "kern M") (simp add: mod_tcb_def get_tcb_def at_trap_def fun_upd_idem)
  moreover have "ksCurThread (kern ?M) = t" using assms by (simp add: at_trap_def)
  moreover have "get_tf (kern ?M) a = Inr (call_frame f n)" by (simp add: get_tf_def)
  moreover have "tf_trapno (call_frame f n) = T_SYSCALL" by (simp add: call_frame_def)
  ultimately show ?thesis
    unfolding user_call_def trap_def Let_def a_def [symmetric] tf by (simp add: on_kern_def with_frame_def)
qed

lemma cur_tf_at:
  "at_trap s t x \<Longrightarrow> cur_tf (s\<lparr>tf_heap := (tf_heap s)(tcb_tf x \<mapsto> f)\<rparr>) = Inr f"
  by (simp add: cur_tf_def at_trap_def get_tcb_def get_tf_def)

lemma set_result_at:
  assumes "at_trap (kern M) t x" and "tf_heap (kern M) (tcb_tf x) = Some f"
  shows "set_result r M = Inr (with_frame (tcb_tf x) (f\<lparr>tf_rax := scast r\<rparr>) M)"
  using assms by (simp add: set_result_def on_kern_def at_trap_def get_tcb_def mod_tf_def get_tf_def with_frame_def)

text \<open>The calls that print.\<close>

lemma test_call:
  assumes "at_trap (kern M) t x" and "screen_ok (cons M)"
  obtains c where "user_call un u f 1 M
      = Inr (Returns () (with_frame (tcb_tf x) ((call_frame f 1)\<lparr>tf_rax := 0\<rparr>) (M\<lparr>cons := c\<rparr>)))"
    "screen_ok c" "terminal_of c = fold put_char (codes (''test!!!'' @ [CHR 0x0A])) (terminal_of (cons M))"
proof -
  let ?M = "with_frame (tcb_tf x) (call_frame f 1) M"
  have "format (byte_heap (vm ?M)) (''test!!!'' @ [CHR 0x0A]) [] = Some (Inr (codes (''test!!!'' @ [CHR 0x0A])))"
    by (simp add: emit_def codes_def)
  from kprintf_terminal [OF this, of] assms(2) obtain c where c:
    "kprintf (''test!!!'' @ [CHR 0x0A]) [] ?M = Inr (?M\<lparr>cons := c\<rparr>)" "screen_ok c"
    "terminal_of c = fold put_char (codes (''test!!!'' @ [CHR 0x0A])) (terminal_of (cons M))" by auto
  have "tf_rax (call_frame f 1) = 1" by (simp add: call_frame_def)
  then have "user_call un u f 1 M = bind_ok (set_result 0 (?M\<lparr>cons := c\<rparr>)) (\<lambda>M. Inr (Returns () M))"
    using cur_tf_at [OF assms(1), of "call_frame f 1"] c(1)
    by (simp add: user_call_syscall [OF assms(1)] syscall_def syscalls_len_def syscalls_def syscall_numbers
        sys_test_def test_def del: append_Cons append_Nil)
  also have "\<dots> = Inr (Returns () (with_frame (tcb_tf x) ((call_frame f 1)\<lparr>tf_rax := 0\<rparr>) (M\<lparr>cons := c\<rparr>)))"
    using set_result_at [of "?M\<lparr>cons := c\<rparr>" t x "call_frame f 1" 0] assms(1) by simp
  finally show ?thesis using that c(2,3) by blast
qed

lemma print_call:
  assumes "at_trap (kern M) t x" and "screen_ok (cons M)" and "printint (ucast (tf_rdi f)) 10 True = Inr ds"
  obtains c where "user_call un u f 4 M
      = Inr (Returns () (with_frame (tcb_tf x) ((call_frame f 4)\<lparr>tf_rax := scast u\<rparr>) (M\<lparr>cons := c\<rparr>)))"
    "screen_ok c"
    "terminal_of c = fold put_char (codes (''num is '' @ ds @ [CHR 0x0A])) (terminal_of (cons M))"
proof -
  let ?M = "with_frame (tcb_tf x) (call_frame f 4) M"
  have "format (byte_heap (vm ?M)) (''num is %d'' @ [CHR 0x0A]) [tf_rdi f]
      = Some (Inr (codes (''num is '' @ ds @ [CHR 0x0A])))"
    using assms(3) by (simp add: emit_def codes_def)
  from kprintf_terminal [OF this] assms(2) obtain c where c:
    "kprintf (''num is %d'' @ [CHR 0x0A]) [tf_rdi f] ?M = Inr (?M\<lparr>cons := c\<rparr>)" "screen_ok c"
    "terminal_of c = fold put_char (codes (''num is '' @ ds @ [CHR 0x0A])) (terminal_of (cons M))" by auto
  have rax: "tf_rax (call_frame f 4) = 4" "tf_rdi (call_frame f 4) = tf_rdi f" by (simp_all add: call_frame_def)
  then have "user_call un u f 4 M = bind_ok (set_result u (?M\<lparr>cons := c\<rparr>)) (\<lambda>M. Inr (Returns () M))"
    using cur_tf_at [OF assms(1), of "call_frame f 4"] c(1)
    by (simp add: user_call_syscall [OF assms(1)] syscall_def syscalls_len_def syscalls_def syscall_numbers
        sys_print_def arg_uint64_def print_def del: append_Cons append_Nil)
  also have "\<dots> = Inr (Returns () (with_frame (tcb_tf x) ((call_frame f 4)\<lparr>tf_rax := scast u\<rparr>) (M\<lparr>cons := c\<rparr>)))"
    using set_result_at [of "?M\<lparr>cons := c\<rparr>" t x "call_frame f 4" u] assms(1) by simp
  finally show ?thesis using that c(2,3) by blast
qed

lemma exit_call:
  assumes "at_trap (kern M) t x" and "tcb_heap (kern M) (oldThread (kern M)) = Some o'"
  shows "user_call un u f 5 M = Inr (Switches (tcb_context o') (with_frame (tcb_tf x) (call_frame f 5) M))"
proof -
  have "tf_rax (call_frame f 5) = 5" by (simp add: call_frame_def)
  then show ?thesis
    using cur_tf_at [OF assms(1), of "call_frame f 5"] assms
    by (simp add: user_call_syscall [OF assms(1)] syscall_def syscalls_len_def syscalls_def syscall_numbers
        sys_exit_def exit_def sched_def get_tcb_def at_trap_def)
qed


subsection \<open>The calls that communicate\<close>

lemma kframe_frame: "kframe s s' \<Longrightarrow> kframe (s\<lparr>tf_heap := h\<rparr>) (s'\<lparr>tf_heap := h\<rparr>)"
  by (simp add: kframe_def)

lemma at_trap_kframe:
  assumes "kframe s s'" "at_trap s t x"
  obtains y where "at_trap s' t y" "owned y = owned x" "tcb_tf y = tcb_tf x"
proof -
  obtain y where y: "tcb_heap s' t = Some y" "owned y = owned x"
    using kframe_owned [OF assms(1)] assms(2) by (auto simp: at_trap_def)
  then have "tcb_tf y = tcb_tf x" by (simp add: owned_def)
  with y show ?thesis using that assms by (simp add: at_trap_def kframe_def tss_rsp0_def)
qed

lemma frame_irrelevant [simp]:
  "holds_endpoint v (s\<lparr>tf_heap := h\<rparr>) p t = holds_endpoint v s p t"
  "ep_rep (s\<lparr>tf_heap := h\<rparr>) p xs = ep_rep s p xs" "ready_rep (s\<lparr>tf_heap := h\<rparr>) xs = ready_rep s xs"
  "append_returns un t (s\<lparr>tf_heap := h\<rparr>) p = append_returns un t s p"
  by (simp_all add: holds_endpoint_def lookup_slot_def get_cte_def ep_rep_def ep_links_def ready_rep_def
      append_returns_def)

lemma send_trap:
  assumes at: "at_trap (kern M) t x" "t \<noteq> 0" "tf_rdi f = 0" and hold: "holds_endpoint v (kern M) p t"
    and ep: "ep_rep (kern M) p []" and ready: "ready_rep (kern M) xs"
    and un: "un_slot_status un 0 = v" "append_returns un t (kern M) p"
  obtains k y g where "user_call un u f 2 M = Inr (Returns () (M\<lparr>kern := k\<rparr>))"
    "kframe ((kern M)\<lparr>tf_heap := (tf_heap (kern M))(tcb_tf x \<mapsto> g)\<rparr>) k"
    "ep_rep k p [t]" "ready_rep k xs" "cte_heap k = cte_heap (kern M)" "word_heap k = word_heap (kern M)"
    "excaprefs k = excaprefs (kern M)" "tcb_heap k t = Some y" "send_fields y = (talk_fields x, False, True, 0)"
    "\<forall>t' z. t' \<noteq> t \<longrightarrow> tcb_heap (kern M) t' = Some z \<longrightarrow>
         (\<exists>z'. tcb_heap k t' = Some z' \<and> talk_fields z' = talk_fields z)"
proof -
  let ?f = "call_frame f 2"
  let ?M = "with_frame (tcb_tf x) ?f M"
  have cur: "ksCurThread (kern ?M) = t" "tcb_heap (kern ?M) t = Some x" using at(1) by (simp_all add: at_trap_def)
  obtain s y where s: "send un 0 (kern ?M) = Inr s" "ep_rep s p [t]" "ready_rep s xs" "kframe (kern ?M) s"
    "cte_heap s = cte_heap (kern M)" "word_heap s = word_heap (kern M)" "excaprefs s = excaprefs (kern M)"
    "tcb_heap s t = Some y" "talk_fields y = talk_fields x"
    "\<not> blockingIPCIscall (tcbState y)" "blockingIPCCanGrant (tcbState y)" "blockingIPCBadge (tcbState y) = 0"
    "\<forall>t' z. t' \<noteq> t \<longrightarrow> tcb_heap (kern M) t' = Some z \<longrightarrow>
         (\<exists>z'. tcb_heap s t' = Some z' \<and> talk_fields z' = talk_fields z)"
    using send_effect [OF cur(1) at(2) cur(2), of v p xs un] hold ep ready un by auto
  obtain y' where y': "at_trap s t y'" "tcb_tf y' = tcb_tf x"
    using at_trap_kframe [OF s(4), of t x] at(1) by auto
  have tf: "tf_heap s (tcb_tf x) = Some ?f" using s(4) by (simp add: kframe_def)
  let ?g = "?f\<lparr>tf_rax := 0\<rparr>"
  let ?k = "s\<lparr>tf_heap := (tf_heap (kern M))(tcb_tf x \<mapsto> ?g)\<rparr>"
  have "tf_rax ?f = 2" "tf_rdi ?f = 0" using at(3) by (simp_all add: call_frame_def)
  then have "user_call un u f 2 M = bind_ok (set_result 0 (?M\<lparr>kern := s\<rparr>)) (\<lambda>M. Inr (Returns () M))"
    using cur_tf_at [OF at(1), of ?f] s(1)
    by (simp add: user_call_syscall [OF at(1)] syscall_def syscalls_len_def syscalls_def syscall_numbers
        sys_send_def arg_uint64_def on_kern_def)
  also have "\<dots> = Inr (Returns () (M\<lparr>kern := ?k\<rparr>))"
    using set_result_at [of "?M\<lparr>kern := s\<rparr>" t y' ?f 0] y' tf s(4) by (simp add: kframe_def with_frame_def)
  finally have "user_call un u f 2 M = Inr (Returns () (M\<lparr>kern := ?k\<rparr>))" .
  moreover have "kframe ((kern M)\<lparr>tf_heap := (tf_heap (kern M))(tcb_tf x \<mapsto> ?g)\<rparr>) ?k"
    using kframe_frame [OF s(4), of "(tf_heap (kern M))(tcb_tf x \<mapsto> ?g)"] by simp
  moreover have "send_fields y = (talk_fields x, False, True, 0)" using s(9-12) by (simp add: send_fields_def)
  ultimately show ?thesis using that [of ?k ?g y] s(2-8,13) by simp
qed


lemma can_talk_frame:
  "tcb_tf st \<noteq> a \<Longrightarrow> can_talk (s\<lparr>tf_heap := (tf_heap s)(a \<mapsto> f)\<rparr>) st tf rt = can_talk s st tf rt"
  by (simp add: can_talk_def can_transfer_def words_at_def)

lemma receive_trap:
  assumes at: "at_trap (kern M) t1 rt" "t1 \<noteq> t0" "tf_rdi f = 0" and hold: "holds_endpoint v (kern M) p t1"
    and act: "ksSchedulerAction (kern M) = SchedulerAction_ChooseNewThread"
    and t0: "tcb_heap (kern M) t0 = Some st" "send_fields st = (w, False, True, b)"
      "t0 \<noteq> SchedulerAction_ChooseNewThread" "tcb_tf st \<noteq> tcb_tf rt"
    and ep: "ep_rep (kern M) p [t0]" and ready: "ready_rep (kern M) []" and talk: "can_talk (kern M) st tf rt"
    and un: "un_slot_status un 0 = v"
  obtains k g x where "user_call un u f 3 M = Inr (Returns () (M\<lparr>kern := k\<rparr>))"
    "kframe ((kern M)\<lparr>tf_heap := (tf_heap (kern M))(tcb_tf rt \<mapsto> g)\<rparr>) k"
    "ep_rep k p []" "ready_rep k [t0]" "word_heap k = message_words st tf rt (word_heap (kern M))"
    "tcb_heap k t0 = Some x" "tsType (tcbState x) = ThreadState_Running"
proof -
  let ?f = "call_frame f 3"
  let ?M = "with_frame (tcb_tf rt) ?f M"
  have cur: "ksCurThread (kern ?M) = t1" "tcb_heap (kern ?M) t1 = Some rt" using at(1) by (simp_all add: at_trap_def)
  have snd: "\<not> blockingIPCIscall (tcbState st)" "blockingIPCCanGrant (tcbState st)"
    using t0(2) by (simp_all add: send_fields_def)
  obtain s x where s: "receive un 0 (kern ?M) = Inr s" "ep_rep s p []" "ready_rep s [t0]" "kframe (kern ?M) s"
    "word_heap s = message_words st tf rt (word_heap (kern M))" "tcb_heap s t0 = Some x"
    "tsType (tcbState x) = ThreadState_Running"
    using receive_effect [OF cur at(2) _ _ _ snd t0(3) _ _ _ un, of p tf] act hold ep ready t0(1) talk
      can_talk_frame [OF t0(4)] by auto
  obtain y where y: "at_trap s t1 y" "tcb_tf y = tcb_tf rt"
    using at_trap_kframe [OF s(4), of t1 rt] at(1) by auto
  have tf: "tf_heap s (tcb_tf rt) = Some ?f" using s(4) by (simp add: kframe_def)
  let ?g = "?f\<lparr>tf_rax := 0\<rparr>"
  let ?k = "s\<lparr>tf_heap := (tf_heap (kern M))(tcb_tf rt \<mapsto> ?g)\<rparr>"
  have "tf_rax ?f = 3" "tf_rdi ?f = 0" using at(3) by (simp_all add: call_frame_def)
  then have "user_call un u f 3 M = bind_ok (set_result 0 (?M\<lparr>kern := s\<rparr>)) (\<lambda>M. Inr (Returns () M))"
    using cur_tf_at [OF at(1), of ?f] s(1)
    by (simp add: user_call_syscall [OF at(1)] syscall_def syscalls_len_def syscalls_def syscall_numbers
        sys_receive_def arg_uint64_def on_kern_def)
  also have "\<dots> = Inr (Returns () (M\<lparr>kern := ?k\<rparr>))"
    using set_result_at [of "?M\<lparr>kern := s\<rparr>" t1 y ?f 0] y tf s(4) by (simp add: kframe_def with_frame_def)
  finally have "user_call un u f 3 M = Inr (Returns () (M\<lparr>kern := ?k\<rparr>))" .
  moreover have "kframe ((kern M)\<lparr>tf_heap := (tf_heap (kern M))(tcb_tf rt \<mapsto> ?g)\<rparr>) ?k"
    using kframe_frame [OF s(4), of "(tf_heap (kern M))(tcb_tf rt \<mapsto> ?g)"] by simp
  ultimately show ?thesis using that [of ?k ?g x] s(2,3,5-7) by simp
qed

subsection \<open>The programs' memory\<close>

text \<open>The page at \<open>bufferPoint\<close> is the frame that the kernel knows as the thread's buffer, as \<open>load_one\<close> sets it.\<close>

definition buffer_mapped :: "machine \<Rightarrow> Tcb \<Rightarrow> bool" where
  "buffer_mapped M x \<longleftrightarrow> (\<exists>e. maps (vm M) (tcb_pml4 x) bufferPoint e
     \<and> tcbIPCBuffer x = p2v ((e AND 0xFFFFFFFFFFFFF000) OR OFFSET bufferPoint))"

lemma msg_addr_user:
  assumes "buffer_mapped M x" and "hw_cr3 (kern M) = v2p (tcb_pml4 x)"
  shows "user_addr (msg_addr 0) M = Inr (word_addr (word_addr (tcbIPCBuffer x) 1) 0)"
proof -
  obtain e pt where e: "path (vm M) (tcb_pml4 x) bufferPoint pt" "pt_heap (vm M) (entry pt (PTX bufferPoint)) = Some e"
    "present e" "tcbIPCBuffer x = p2v ((e AND 0xFFFFFFFFFFFFF000) OR OFFSET bufferPoint)"
    using assms(1) by (auto simp: buffer_mapped_def maps_def)
  have same: "PML4X (msg_addr 0) = PML4X bufferPoint" "PDPTX (msg_addr 0) = PDPTX bufferPoint"
    "PDX (msg_addr 0) = PDX bufferPoint" "PTX (msg_addr 0) = PTX bufferPoint" "OFFSET (msg_addr 0) = 8"
    "OFFSET bufferPoint = 0"
    by (simp_all add: msg_addr_def bufferPoint_def PML4X_def PDPTX_def PDX_def PTX_def OFFSET_def PXMASK_def
        PML4XSHIFT_def PDPTXSHIFT_def PDXSHIFT_def PTXSHIFT_def)
  then have "path (vm M) (tcb_pml4 x) (msg_addr 0) pt" using e(1) by (simp add: path_def)
  then have walk: "walk_tables False (tcb_pml4 x) (msg_addr 0) (vm M) = Inr (Some pt, vm M)" by (rule path_walk)
  have pte: "get_pte (vm M) (entry pt (PTX (msg_addr 0))) = Inr e" unfolding same using e(2) by (simp add: get_pte_def)
  have off: "(e AND 0xFFFFFFFFFFFFF000) OR 8 = (e AND 0xFFFFFFFFFFFFF000) + 8"
  proof (subst disjunctive_add)
    have "bit (8 :: u64) i = (i = 3)" for i
      using bit_exp_iff [where 'a = "64 word", of 3 i] by auto
    moreover have "\<not> bit (0xFFFFFFFFFFFFF000 :: u64) 3" by simp
    ultimately show "\<not> bit (e AND 0xFFFFFFFFFFFFF000) i \<or> \<not> bit (8 :: u64) i" for i
      by (metis bit_and_iff)
  qed simp
  have "p2v (hw_cr3 (kern M)) = tcb_pml4 x" using assms(2) by (simp add: p2v_def v2p_def)
  then have "user_addr (msg_addr 0) M = Inr (p2v ((e AND 0xFFFFFFFFFFFFF000) OR 8))"
    using e(3) unfolding user_addr_def present_def by (simp only: walk pte same(5) bind_ok_simps prod.case option.case if_False)
  moreover have "word_addr (word_addr b 1) 0 = b + 8" for b by (simp add: word_addr_def)
  moreover have "p2v (a + 8) = p2v (a OR 0) + 8" for a :: u64 by (simp add: p2v_def)
  ultimately show ?thesis unfolding e(4) same(6) off by metis
qed


text \<open>The address of the first word of a thread's message.\<close>

definition msg_word :: "Tcb \<Rightarrow> u64" where
  "msg_word x = word_addr (word_addr (tcbIPCBuffer x) 1) 0"

definition running :: "machine \<Rightarrow> u64 \<Rightarrow> Tcb \<Rightarrow> Tcb \<Rightarrow> bool" where
  "running M t x o' \<longleftrightarrow> at_trap (kern M) t x \<and> tcb_heap (kern M) (oldThread (kern M)) = Some o'
     \<and> hw_cr3 (kern M) = v2p (tcb_pml4 x) \<and> buffer_mapped M x \<and> screen_ok (cons M)"

lemma word_irrelevant [simp]:
  "at_trap (s\<lparr>word_heap := h\<rparr>) t x = at_trap s t x" "holds_endpoint v (s\<lparr>word_heap := h\<rparr>) p t = holds_endpoint v s p t"
  "ep_rep (s\<lparr>word_heap := h\<rparr>) p xs = ep_rep s p xs" "ready_rep (s\<lparr>word_heap := h\<rparr>) xs = ready_rep s xs"
  "append_returns un t (s\<lparr>word_heap := h\<rparr>) p = append_returns un t s p"
  by (simp_all add: at_trap_def tss_rsp0_def holds_endpoint_def lookup_slot_def get_cte_def ep_rep_def
      ep_links_def ready_rep_def append_returns_def)

lemma kframe_word_eq:
  "dom h = dom (word_heap s) \<Longrightarrow> kframe (s\<lparr>word_heap := h\<rparr>) s' \<Longrightarrow> kframe s s'"
  by (simp add: kframe_def)

lemma sendtest_run:
  assumes run: "running M t x o'" "t \<noteq> 0" and word: "word_heap (kern M) (msg_word x) \<noteq> None"
    and hold: "holds_endpoint v (kern M) p t" and ep: "ep_rep (kern M) p []" and ready: "ready_rep (kern M) xs"
    and un: "un_slot_status un 0 = v" "append_returns un t (kern M) p"
  obtains M' y where "sendtest_main un u f1 f2 f3 M = Inr (Switches (tcb_context o') M')" "vm M' = vm M"
    "screen_ok (cons M')"
    "terminal_of (cons M') = fold put_char (codes (''test!!!'' @ [CHR 0x0A])) (terminal_of (cons M))"
    "kframe ((kern M)\<lparr>tf_heap := (tf_heap (kern M))(tcb_tf x \<mapsto> call_frame f3 5)\<rparr>) (kern M')"
    "ep_rep (kern M') p [t]" "ready_rep (kern M') xs" "cte_heap (kern M') = cte_heap (kern M)"
    "word_heap (kern M') = (word_heap (kern M))(msg_word x \<mapsto> 155)" "excaprefs (kern M') = excaprefs (kern M)"
    "tcb_heap (kern M') t = Some y" "send_fields y = (talk_fields x, False, True, 0)"
    "\<forall>t' z. t' \<noteq> t \<longrightarrow> tcb_heap (kern M) t' = Some z \<longrightarrow>
         (\<exists>z'. tcb_heap (kern M') t' = Some z' \<and> talk_fields z' = talk_fields z)"
proof -
  note r = run(1) [unfolded running_def]
  let ?a = "tcb_tf x"
  let ?h = "(word_heap (kern M))(msg_word x \<mapsto> 155)"
  let ?M1 = "M\<lparr>kern := (kern M)\<lparr>word_heap := ?h\<rparr>\<rparr>"
  have "user_addr (msg_addr 0) M = Inr (msg_word x)" unfolding msg_word_def using r by (intro msg_addr_user) auto
  then have wrote: "user_write (msg_addr 0) 155 M = Inr ?M1"
    using word by (auto simp: user_write_def on_kern_def mod_word_def get_word_def read_at_def)
  let ?tag = "u64_from_messageinfo \<lparr>mi_label = 1, capsUnwrapped = 0, extraCaps = 0, mi_length = 1\<rparr>"
  have at1: "at_trap (kern ?M1) t x" using r by simp
  have pre: "holds_endpoint v (kern ?M1) p t" "ep_rep (kern ?M1) p []" "ready_rep (kern ?M1) xs"
    "append_returns un t (kern ?M1) p" using hold ep ready un(2) by simp_all
  let ?f = "f1\<lparr>tf_rdi := 0, tf_rsi := ?tag\<rparr>"
  have "tf_rdi ?f = 0" by simp
  from send_trap [OF at1 run(2) this pre(1-3) un(1) pre(4), of u]
  obtain k y g where k: "user_call un u ?f 2 ?M1 = Inr (Returns () (?M1\<lparr>kern := k\<rparr>))"
    "kframe ((kern ?M1)\<lparr>tf_heap := (tf_heap (kern ?M1))(?a \<mapsto> g)\<rparr>) k"
    "ep_rep k p [t]" "ready_rep k xs" "cte_heap k = cte_heap (kern ?M1)" "word_heap k = word_heap (kern ?M1)"
    "excaprefs k = excaprefs (kern ?M1)" "tcb_heap k t = Some y" "send_fields y = (talk_fields x, False, True, 0)"
    "\<forall>t' z. t' \<noteq> t \<longrightarrow> tcb_heap (kern ?M1) t' = Some z \<longrightarrow>
         (\<exists>z'. tcb_heap k t' = Some z' \<and> talk_fields z' = talk_fields z)" .
  let ?M2 = "M\<lparr>kern := k\<rparr>"
  obtain y' where "at_trap k t y'" "tcb_tf y' = ?a"
    using at_trap_kframe [OF k(2), of t x] at1 by auto
  then have at2: "at_trap (kern ?M2) t y" and tf: "tcb_tf y = ?a" using k(8) by (auto simp: at_trap_def)
  have "tcb_heap (kern ?M1) (oldThread (kern ?M1)) = Some o'" using r by simp
  then obtain o2 where o2: "tcb_heap k (oldThread k) = Some o2" "tcb_context o2 = tcb_context o'"
    using kframe_owned [OF k(2), of "oldThread (kern M)" o'] k(2) by (auto simp: owned_def kframe_def)
  have "screen_ok (cons ?M2)" using r by simp
  then obtain c where c: "user_call un u f2 1 ?M2
      = Inr (Returns () (with_frame ?a ((call_frame f2 1)\<lparr>tf_rax := 0\<rparr>) (?M2\<lparr>cons := c\<rparr>)))"
    "screen_ok c" "terminal_of c = fold put_char (codes (''test!!!'' @ [CHR 0x0A])) (terminal_of (cons M))"
    using test_call [OF at2, of un u f2] unfolding tf by auto
  let ?M3 = "with_frame ?a ((call_frame f2 1)\<lparr>tf_rax := 0\<rparr>) (?M2\<lparr>cons := c\<rparr>)"
  let ?M4 = "with_frame ?a (call_frame f3 5) (?M2\<lparr>cons := c\<rparr>)"
  have "at_trap (kern ?M3) t y" using at2 by simp
  from exit_call [OF this, of o2 un u f3]
  have leave: "user_call un u f3 5 ?M3 = Inr (Switches (tcb_context o') ?M4)" using o2 unfolding tf by simp
  have "kframe ((kern M)\<lparr>tf_heap := (tf_heap (kern M))(?a \<mapsto> call_frame f3 5)\<rparr>) (kern ?M4)"
  proof (rule kframe_word_eq [where h = ?h])
    show "dom ?h = dom (word_heap ((kern M)\<lparr>tf_heap := (tf_heap (kern M))(?a \<mapsto> call_frame f3 5)\<rparr>))" using word by auto
    have "tf_heap k = (tf_heap (kern M))(?a \<mapsto> g)" using k(2) by (simp add: kframe_def)
    then show "kframe ((kern M)\<lparr>tf_heap := (tf_heap (kern M))(?a \<mapsto> call_frame f3 5), word_heap := ?h\<rparr>) (kern ?M4)"
      using kframe_frame [OF k(2), of "(tf_heap (kern M))(?a \<mapsto> call_frame f3 5)"]
      by (cases "kern M") simp
  qed
  moreover have "sendtest_main un u f1 f2 f3 M = Inr (Switches (tcb_context o') ?M4)"
    unfolding sendtest_main_def stub_defs Let_def wrote bind_ok_simps k(1) and_then_simps
    using c(1) leave by simp
  ultimately show ?thesis using that [of ?M4 y] c(2,3) k(3-10) by simp
qed


lemma one_word:
  assumes "mi_length (sender_tag tf) = 1"
  shows "message_words st tf rt h = h(msg_word rt := h (msg_word st))"
  using assms by (simp add: message_words_def copied_def msg_word_def)

lemma can_talk_one:
  assumes "osFaultType (tcbFault st) = NullFault" "tf_heap s (tcb_tf st) = Some tf" "2 \<le> length (registers rt)"
    "excaprefs s \<noteq> []" "tcbBoundNotification rt = 0" "mi_length (sender_tag tf) = 1"
    "word_heap s (msg_word st) \<noteq> None" "word_heap s (msg_word rt) \<noteq> None" "msg_word rt \<noteq> msg_word st"
  shows "can_talk s st tf rt"
  using assms by (auto simp: can_talk_def can_transfer_def words_at_def msg_word_def)

lemma receivetest_run:
  assumes run: "running M t1 rt o'" "t1 \<noteq> t0" and hold: "holds_endpoint v (kern M) p t1"
    and act: "ksSchedulerAction (kern M) = SchedulerAction_ChooseNewThread"
    and t0: "tcb_heap (kern M) t0 = Some st" "send_fields st = (w, False, True, b)"
      "t0 \<noteq> SchedulerAction_ChooseNewThread" "tcb_tf st \<noteq> tcb_tf rt"
    and ep: "ep_rep (kern M) p [t0]" and ready: "ready_rep (kern M) []"
    and talk: "can_talk (kern M) st tf rt" "mi_length (sender_tag tf) = 1"
    and word: "word_heap (kern M) (msg_word st) = Some num" "printint (ucast num) 10 True = Inr ds"
    and un: "un_slot_status un 0 = v"
  obtains M' x where "receivetest_main un u m f1 f2 f3 M = Inr (Switches (tcb_context o') M')" "vm M' = vm M"
    "screen_ok (cons M')"
    "terminal_of (cons M') = fold put_char (codes (''num is '' @ ds @ [CHR 0x0A])) (terminal_of (cons M))"
    "kframe ((kern M)\<lparr>tf_heap := (tf_heap (kern M))(tcb_tf rt \<mapsto> call_frame f3 5)\<rparr>) (kern M')"
    "ep_rep (kern M') p []" "ready_rep (kern M') [t0]"
    "tcb_heap (kern M') t0 = Some x" "tsType (tcbState x) = ThreadState_Running"
proof -
  note r = run(1) [unfolded running_def]
  let ?a = "tcb_tf rt" and ?f = "f1\<lparr>tf_rdi := 0, tf_rsi := m\<rparr>"
  have at: "at_trap (kern M) t1 rt" and "tf_rdi ?f = 0" using r by simp_all
  from receive_trap [OF at run(2) this(2) hold act t0 ep ready talk(1) un, of u]
  obtain k g x where k: "user_call un u ?f 3 M = Inr (Returns () (M\<lparr>kern := k\<rparr>))"
    "kframe ((kern M)\<lparr>tf_heap := (tf_heap (kern M))(?a \<mapsto> g)\<rparr>) k"
    "ep_rep k p []" "ready_rep k [t0]" "word_heap k = message_words st tf rt (word_heap (kern M))"
    "tcb_heap k t0 = Some x" "tsType (tcbState x) = ThreadState_Running" .
  let ?M2 = "M\<lparr>kern := k\<rparr>"
  have "buffer_mapped ?M2 rt" "hw_cr3 (kern ?M2) = v2p (tcb_pml4 rt)"
    using r k(2) by (simp_all add: buffer_mapped_def kframe_def)
  from msg_addr_user [OF this] have "user_addr (msg_addr 0) ?M2 = Inr (msg_word rt)" by (simp add: msg_word_def)
  then have read: "user_read (msg_addr 0) ?M2 = Inr num"
    using word(1) k(5) one_word [OF talk(2)] by (simp add: user_read_def get_word_def read_at_def)
  have "at_trap ((kern M)\<lparr>tf_heap := (tf_heap (kern M))(?a \<mapsto> g)\<rparr>) t1 rt" using at by simp
  from at_trap_kframe [OF k(2) this] obtain y where y: "at_trap (kern ?M2) t1 y" "tcb_tf y = ?a" by auto
  have "tcb_heap ((kern M)\<lparr>tf_heap := (tf_heap (kern M))(?a \<mapsto> g)\<rparr>) (oldThread (kern M)) = Some o'" using r by simp
  from kframe_owned [OF k(2) this] obtain o2 where o2: "tcb_heap k (oldThread k) = Some o2"
    "tcb_context o2 = tcb_context o'" using k(2) by (auto simp: owned_def kframe_def)
  have scr: "screen_ok (cons ?M2)" and "printint (ucast (tf_rdi (f2\<lparr>tf_rdi := num\<rparr>))) 10 True = Inr ds"
    using r word(2) by simp_all
  from print_call [OF y(1) this, of un u] obtain c where c: "user_call un u (f2\<lparr>tf_rdi := num\<rparr>) 4 ?M2
      = Inr (Returns () (with_frame ?a ((call_frame (f2\<lparr>tf_rdi := num\<rparr>) 4)\<lparr>tf_rax := scast u\<rparr>) (?M2\<lparr>cons := c\<rparr>)))"
    "screen_ok c" "terminal_of c = fold put_char (codes (''num is '' @ ds @ [CHR 0x0A])) (terminal_of (cons ?M2))"
    unfolding y(2) .
  let ?M3 = "with_frame ?a ((call_frame (f2\<lparr>tf_rdi := num\<rparr>) 4)\<lparr>tf_rax := scast u\<rparr>) (?M2\<lparr>cons := c\<rparr>)"
  let ?M4 = "with_frame ?a (call_frame f3 5) (?M2\<lparr>cons := c\<rparr>)"
  have "at_trap (kern ?M3) t1 y" using y(1) by simp
  from exit_call [OF this, of o2 un u f3]
  have leave: "user_call un u f3 5 ?M3 = Inr (Switches (tcb_context o') ?M4)" using o2 unfolding y(2) by simp
  have "tf_heap k = (tf_heap (kern M))(?a \<mapsto> g)" using k(2) by (simp add: kframe_def)
  then have "kframe ((kern M)\<lparr>tf_heap := (tf_heap (kern M))(?a \<mapsto> call_frame f3 5)\<rparr>) (kern ?M4)"
    using kframe_frame [OF k(2), of "(tf_heap (kern M))(?a \<mapsto> call_frame f3 5)"] by simp
  moreover have "receivetest_main un u m f1 f2 f3 M = Inr (Switches (tcb_context o') ?M4)"
    unfolding receivetest_main_def stub_defs k(1) and_then_simps read bind_ok_simps
    using c(1) leave by simp
  ultimately show ?thesis using that [of ?M4 x] c(2,3) k(3,4,6,7) by simp
qed

text \<open>A loaded thread that has not run yet: with a context of its own on its kernel stack, its trap frame at
  the top of that, and its buffer.\<close>

definition prepared :: "machine \<Rightarrow> u64 \<Rightarrow> u64 \<Rightarrow> Tcb \<Rightarrow> bool" where
  "prepared M own t x \<longleftrightarrow> tcb_heap (kern M) t = Some x \<and> tcb_context x \<noteq> own
     \<and> tcb_tf x = ((kStack x + PGSIZE) AND NOT 15) - sizeof_Trapframe \<and> buffer_mapped M x"

lemma run_turn:
  assumes ready: "ready_rep (kern M) (t # xs)" and x: "prepared M own t x"
    and cur: "ksCurThread (kern M) \<noteq> t" "tcb_heap (kern M) (ksCurThread (kern M)) = Some z"
    and scr: "screen_ok (cons M)" and prog: "go (tcb_context x) = first_run prog"
  obtains M1 x1 z1 where "running M1 t x1 z1" "tcb_context z1 = own" "vm M1 = vm M"
    "oldThread (kern M1) = ksCurThread (kern M)"
    "terminal_of (cons M1) = fold put_char (codes forkret_text) (terminal_of (cons M))"
    "ready_rep (kern M1) xs" "\<forall>p ys. ep_rep (kern M1) p ys = ep_rep (kern M) p ys"
    "ep_heap (kern M1) = ep_heap (kern M)" "cte_heap (kern M1) = cte_heap (kern M)"
    "tf_heap (kern M1) = tf_heap (kern M)" "word_heap (kern M1) = word_heap (kern M)"
    "excaprefs (kern M1) = excaprefs (kern M)" "ksSchedulerAction (kern M1) = SchedulerAction_ChooseNewThread"
    "\<forall>t' y. tcb_heap (kern M) t' = Some y \<longrightarrow> (\<exists>y'. tcb_heap (kern M1) t' = Some y' \<and> send_fields y' = send_fields y
       \<and> (t' \<noteq> ksCurThread (kern M) \<longrightarrow> owned y' = owned y))"
    "send_fields x1 = send_fields x" "owned x1 = owned x"
    "\<forall>M2 y. prog M1 = Inr (Switches own M2) \<longrightarrow> ksCurThread (kern M2) = t \<longrightarrow> tcb_heap (kern M2) t = Some y \<longrightarrow>
       machine_turn own saved go M = Inr (end_turn t (saved t) M2)"
proof -
  obtain k x1 where k: "ready_rep k xs" "turn_frame (kern M) k" "ksCurThread k = t" "oldThread k = ksCurThread (kern M)"
    "ksSchedulerAction k = SchedulerAction_ChooseNewThread" "tcb_heap k t = Some x1"
    "tss_rsp0 k = kStack x1 + PGSIZE" "hw_cr3 k = v2p (tcb_pml4 x1)"
    "\<forall>run. turn_on run M = bind_ok (run (M\<lparr>kern := k\<rparr>)) (\<lambda>M. Inr (M\<lparr>kern := (kern M)\<lparr>hw_cr3 := v2p (kernPml4 (kern M)),
          ksSchedulerAction := SchedulerAction_ResumeCurrentThread\<rparr>\<rparr>))"
    by (rule turn_start [OF ready])
  note objs = turn_frame_objects [OF k(2)]
  have keep: "\<exists>y'. tcb_heap k t' = Some y' \<and> send_fields y' = send_fields y \<and> owned y' = owned y"
    if "tcb_heap (kern M) t' = Some y" for t' y
    using objs(7) [OF that, of "\<lambda>y. (send_fields y, owned y)"] by simp
  have x1: "send_fields x1 = send_fields x" "owned x1 = owned x"
    using keep [of t x] x k(6) by (auto simp: prepared_def)
  obtain z' where z': "tcb_heap k (oldThread k) = Some z'" using keep [OF cur(2)] k(4) by auto
  let ?k = "put_context (oldThread k) own k"
  obtain c where c: "forkret (M\<lparr>kern := ?k\<rparr>) = Inr (M\<lparr>kern := ?k\<rparr>\<lparr>cons := c\<rparr>)" "screen_ok c"
    "terminal_of c = fold put_char (codes forkret_text) (terminal_of (cons M))"
    using forkret_prints [of "M\<lparr>kern := ?k\<rparr>"] scr by auto
  let ?M1 = "M\<lparr>kern := ?k, cons := c\<rparr>"
  have "buffer_mapped ?M1 x1"
    using x x1 by (simp add: prepared_def buffer_mapped_def send_fields_def talk_fields_def owned_def)
  then have run: "running ?M1 t x1 (z'\<lparr>tcb_context := own\<rparr>)"
    using x x1(2) k(3,4,6-8) z' cur(1) c(2) by (simp add: running_def at_trap_def prepared_def owned_def)
  have ctx: "tcb_context x1 = tcb_context x" "tcb_context x \<noteq> own" using x x1(2) by (simp_all add: prepared_def owned_def)
  have "machine_turn own saved go M = Inr (end_turn t (saved t) M2)"
    if "prog ?M1 = Inr (Switches own M2)" "ksCurThread (kern M2) = t" "tcb_heap (kern M2) t = Some y" for M2 y
  proof -
    have "go (tcb_context x1) (M\<lparr>kern := k\<rparr>\<lparr>kern := ?k\<rparr>) = Inr (Switches own M2)"
      using prog ctx(1) c(1) that(1) by (simp add: first_run_def)
    then have "swtch_run own saved go (M\<lparr>kern := k\<rparr>) = Inr (M2\<lparr>kern := put_context t (saved t) (kern M2)\<rparr>)"
      using swtch_run_thread [of "M\<lparr>kern := k\<rparr>" t x1 own z' go M2 y saved] k(3,6) ctx z' that(2,3) by simp
    then show ?thesis using k(9) by (simp add: machine_turn_def end_turn_def)
  qed
  moreover have "\<exists>y'. tcb_heap (kern ?M1) t' = Some y' \<and> send_fields y' = send_fields y
      \<and> (t' \<noteq> ksCurThread (kern M) \<longrightarrow> owned y' = owned y)" if "tcb_heap (kern M) t' = Some y" for t' y
    using keep [OF that] k(4) by auto
  ultimately show ?thesis
    using that [of ?M1 x1 "z'\<lparr>tcb_context := own\<rparr>"] run c(3) k(1,4,5) objs(1-6) x1 by simp
qed


subsection \<open>The demonstration\<close>

text \<open>The turn of the sender.\<close>

lemma first_turn:
  assumes ready: "ready_rep (kern M) [t0, t1]" and ep: "ep_rep (kern M) p []" and hold: "holds_endpoint v (kern M) p t0"
    and loop: "ksCurThread (kern M) \<notin> {t0, t1}" "tcb_heap (kern M) (ksCurThread (kern M)) = Some z" "screen_ok (cons M)"
    and threads: "prepared M own t0 st" "prepared M own t1 rt" and word: "word_heap (kern M) (msg_word st) \<noteq> None"
    and go: "go (tcb_context st) = first_run (sendtest_main un u f1 f2 f3)"
    and un: "un_slot_status un 0 = v" "append_returns un t0 (kern M) p"
  obtains C y rb where "machine_turn own saved go M = Inr C" "vm C = vm M" "screen_ok (cons C)"
    "terminal_of (cons C) = fold put_char (codes (forkret_text @ ''test!!!'' @ [CHR 0x0A])) (terminal_of (cons M))"
    "ready_rep (kern C) [t1]" "ep_rep (kern C) p [t0]" "cte_heap (kern C) = cte_heap (kern M)"
    "word_heap (kern C) = (word_heap (kern M))(msg_word st \<mapsto> 155)" "excaprefs (kern C) = excaprefs (kern M)"
    "ksCurThread (kern C) = t0" "tcb_heap (kern C) t0 = Some y" "send_fields y = (talk_fields st, False, True, 0)"
    "tf_heap (kern C) (tcb_tf st) = Some (call_frame f3 5)" "prepared C own t1 rb" "talk_fields rb = talk_fields rt"
    "owned rb = owned rt"
proof -
  let ?i = "ksCurThread (kern M)"
  have ne: "t1 \<noteq> t0" "t0 \<noteq> 0" "?i \<noteq> t0" "?i \<noteq> t1"
    using ready ready_repD(1) [OF ready] loop(1) by (auto simp: ready_rep_def)
  obtain A a z1 where A: "running A t0 a z1" "tcb_context z1 = own" "vm A = vm M" "oldThread (kern A) = ?i"
    "terminal_of (cons A) = fold put_char (codes forkret_text) (terminal_of (cons M))"
    "ready_rep (kern A) [t1]" "\<forall>p ys. ep_rep (kern A) p ys = ep_rep (kern M) p ys"
    "ep_heap (kern A) = ep_heap (kern M)" "cte_heap (kern A) = cte_heap (kern M)"
    "tf_heap (kern A) = tf_heap (kern M)" "word_heap (kern A) = word_heap (kern M)"
    "excaprefs (kern A) = excaprefs (kern M)" "ksSchedulerAction (kern A) = SchedulerAction_ChooseNewThread"
    "\<forall>t' y. tcb_heap (kern M) t' = Some y \<longrightarrow> (\<exists>y'. tcb_heap (kern A) t' = Some y' \<and> send_fields y' = send_fields y
       \<and> (t' \<noteq> ?i \<longrightarrow> owned y' = owned y))"
    "send_fields a = send_fields st" "owned a = owned st"
    "\<forall>M2 y. sendtest_main un u f1 f2 f3 A = Inr (Switches own M2) \<longrightarrow> ksCurThread (kern M2) = t0 \<longrightarrow>
       tcb_heap (kern M2) t0 = Some y \<longrightarrow> machine_turn own saved go M = Inr (end_turn t0 (saved t0) M2)"
    by (rule run_turn [where go = go and saved = saved, OF ready threads(1) ne(3) loop(2,3) go])
  have a: "msg_word a = msg_word st" "tcb_tf a = tcb_tf st" "talk_fields a = talk_fields st"
    using A(15,16) by (simp_all add: msg_word_def owned_def send_fields_def)
  have pre: "word_heap (kern A) (msg_word a) \<noteq> None" "holds_endpoint v (kern A) p t0" "ep_rep (kern A) p []"
    "append_returns un t0 (kern A) p"
    using word a(1) A(7,8,9,11) holds_endpoint_cong [OF A(9)] hold ep un(2)
    by (simp_all add: append_returns_def)
  obtain B y where B: "sendtest_main un u f1 f2 f3 A = Inr (Switches (tcb_context z1) B)" "vm B = vm A"
    "screen_ok (cons B)"
    "terminal_of (cons B) = fold put_char (codes (''test!!!'' @ [CHR 0x0A])) (terminal_of (cons A))"
    "kframe ((kern A)\<lparr>tf_heap := (tf_heap (kern A))(tcb_tf a \<mapsto> call_frame f3 5)\<rparr>) (kern B)"
    "ep_rep (kern B) p [t0]" "ready_rep (kern B) [t1]" "cte_heap (kern B) = cte_heap (kern A)"
    "word_heap (kern B) = (word_heap (kern A))(msg_word a \<mapsto> 155)" "excaprefs (kern B) = excaprefs (kern A)"
    "tcb_heap (kern B) t0 = Some y" "send_fields y = (talk_fields a, False, True, 0)"
    "\<forall>t' z. t' \<noteq> t0 \<longrightarrow> tcb_heap (kern A) t' = Some z \<longrightarrow>
         (\<exists>z'. tcb_heap (kern B) t' = Some z' \<and> talk_fields z' = talk_fields z)"
    by (rule sendtest_run [OF A(1) ne(2) pre(1-3) A(6) un(1) pre(4)])
  have cur: "ksCurThread (kern B) = t0" using B(5) A(1) by (simp add: kframe_def running_def at_trap_def)
  let ?C = "end_turn t0 (saved t0) B"
  have turn: "machine_turn own saved go M = Inr ?C" using A(17) B(1,11) cur A(2) by simp
  have "tcb_heap (kern M) t1 = Some rt" using threads(2) by (simp add: prepared_def)
  then obtain ra where ra: "tcb_heap (kern A) t1 = Some ra" "send_fields ra = send_fields rt" "owned ra = owned rt"
    using A(14) ne(4) by metis
  obtain rb where rb: "tcb_heap (kern B) t1 = Some rb" "owned rb = owned ra" "talk_fields rb = talk_fields ra"
    using kframe_owned [OF B(5), of t1 ra] B(13) ra(1) ne(1) by auto
  have "prepared ?C own t1 rb"
    using threads(2) ne(1) rb(1,2) ra(3) B(2) A(3) by (simp add: prepared_def buffer_mapped_def owned_def)
  moreover have "talk_fields rb = talk_fields rt" using rb(3) ra(2) by (simp add: send_fields_def)
  moreover have "tf_heap (kern B) (tcb_tf st) = Some (call_frame f3 5)"
    using B(5) a(2) by (simp add: kframe_def)
  moreover have "terminal_of (cons B)
      = fold put_char (codes (forkret_text @ ''test!!!'' @ [CHR 0x0A])) (terminal_of (cons M))"
    using B(4) A(5) by (simp add: codes_append)
  ultimately show ?thesis
    using that [of ?C "y\<lparr>tcb_context := saved t0\<rparr>" rb] turn B(2,3,6-12) A(3,9,11,12) a cur rb(2) ra(3) by simp
qed


text \<open>The turn of the receiver.\<close>

lemma printint_155: "printint (ucast (155 :: u64)) 10 True = Inr ''155''"
  by code_simp

lemma second_turn:
  assumes ready: "ready_rep (kern C) [t1]" and ep: "ep_rep (kern C) p [t0]" and hold: "holds_endpoint v (kern C) p t1"
    and loop: "ksCurThread (kern C) = t0" "tcb_heap (kern C) t0 = Some y" "screen_ok (cons C)" "t0 \<noteq> t1"
      "t0 \<noteq> SchedulerAction_ChooseNewThread"
    and threads: "prepared C own t1 rt" "send_fields y = (talk_fields st, False, True, 0)" "tcb_tf st \<noteq> tcb_tf rt"
    and fit: "osFaultType (tcbFault st) = NullFault" "2 \<le> length (registers rt)" "excaprefs (kern C) \<noteq> []"
      "tcbBoundNotification rt = 0"
    and words: "word_heap (kern C) (msg_word st) = Some 155" "word_heap (kern C) (msg_word rt) \<noteq> None"
      "msg_word rt \<noteq> msg_word st"
    and frame: "tf_heap (kern C) (tcb_tf st) = Some tf" "mi_length (sender_tag tf) = 1"
    and go: "go (tcb_context rt) = first_run (receivetest_main un u m g1 g2 g3)"
    and un: "un_slot_status un 0 = v"
  obtains F x r where "machine_turn own saved go C = Inr F" "ready_rep (kern F) [t0]" "ep_rep (kern F) p []"
    "terminal_of (cons F) = fold put_char (codes (forkret_text @ ''num is '' @ ''155'' @ [CHR 0x0A])) (terminal_of (cons C))"
    "ksCurThread (kern F) = t1" "tcb_heap (kern F) t1 = Some r"
    "tcb_heap (kern F) t0 = Some x" "tcb_context x = own" "tsType (tcbState x) = ThreadState_Running"
proof -
  have cur: "ksCurThread (kern C) \<noteq> t1" "tcb_heap (kern C) (ksCurThread (kern C)) = Some y" using loop by simp_all
  obtain A a z where A: "running A t1 a z" "tcb_context z = own" "vm A = vm C" "oldThread (kern A) = ksCurThread (kern C)"
    "terminal_of (cons A) = fold put_char (codes forkret_text) (terminal_of (cons C))"
    "ready_rep (kern A) []" "\<forall>p ys. ep_rep (kern A) p ys = ep_rep (kern C) p ys"
    "ep_heap (kern A) = ep_heap (kern C)" "cte_heap (kern A) = cte_heap (kern C)"
    "tf_heap (kern A) = tf_heap (kern C)" "word_heap (kern A) = word_heap (kern C)"
    "excaprefs (kern A) = excaprefs (kern C)" "ksSchedulerAction (kern A) = SchedulerAction_ChooseNewThread"
    "\<forall>t' y. tcb_heap (kern C) t' = Some y \<longrightarrow> (\<exists>y'. tcb_heap (kern A) t' = Some y' \<and> send_fields y' = send_fields y
       \<and> (t' \<noteq> ksCurThread (kern C) \<longrightarrow> owned y' = owned y))"
    "send_fields a = send_fields rt" "owned a = owned rt"
    "\<forall>M2 y. receivetest_main un u m g1 g2 g3 A = Inr (Switches own M2) \<longrightarrow> ksCurThread (kern M2) = t1 \<longrightarrow>
       tcb_heap (kern M2) t1 = Some y \<longrightarrow> machine_turn own saved go C = Inr (end_turn t1 (saved t1) M2)"
    by (rule run_turn [where go = go and saved = saved, OF ready threads(1) cur loop(3) go])
  have a: "msg_word a = msg_word rt" "tcb_tf a = tcb_tf rt" "talk_fields a = talk_fields rt"
    using A(15,16) by (simp_all add: msg_word_def owned_def send_fields_def)
  have z: "tcb_heap (kern A) t0 = Some z" using A(1,4) loop(1) by (simp add: running_def)
  then have sz: "send_fields z = (talk_fields st, False, True, 0)" using A(14) loop(2) threads(2) by fastforce
  then have tz: "talk_fields z = talk_fields st" by (simp add: send_fields_def)
  then have st: "tcb_tf z = tcb_tf st" "msg_word z = msg_word st"
    by (simp_all add: talk_fields_def msg_word_def)
  have talk: "can_talk (kern A) z tf a"
    using tz a(3) st(2) a(1) fit words frame A(10-12) by (intro can_talk_one) (simp_all add: talk_fields_def)
  have pre: "holds_endpoint v (kern A) p t1" "ep_rep (kern A) p [t0]" "tcb_tf z \<noteq> tcb_tf a"
    "word_heap (kern A) (msg_word z) = Some 155"
    using hold holds_endpoint_cong [OF A(9)] ep A(7,11) threads(3) st a(2) words(1) by simp_all
  obtain B x where B: "receivetest_main un u m g1 g2 g3 A = Inr (Switches (tcb_context z) B)" "vm B = vm A" "screen_ok (cons B)"
    "terminal_of (cons B) = fold put_char (codes (''num is '' @ ''155'' @ [CHR 0x0A])) (terminal_of (cons A))"
    "kframe ((kern A)\<lparr>tf_heap := (tf_heap (kern A))(tcb_tf a \<mapsto> call_frame g3 5)\<rparr>) (kern B)"
    "ep_rep (kern B) p []" "ready_rep (kern B) [t0]"
    "tcb_heap (kern B) t0 = Some x" "tsType (tcbState x) = ThreadState_Running"
    by (rule receivetest_run [OF A(1) loop(4) [symmetric] pre(1) A(13) z sz loop(5) pre(3,2) A(6) talk frame(2) pre(4) printint_155 un])
  have curB: "ksCurThread (kern B) = t1" using B(5) A(1) by (simp add: kframe_def running_def at_trap_def)
  obtain r where r: "tcb_heap (kern B) t1 = Some r"
    using kframe_owned [OF B(5), of t1 a] A(1) by (auto simp: running_def at_trap_def)
  have "tcb_context x = own" using kframe_owned [OF B(5), of t0 z] z B(8) A(2) by (simp add: owned_def)
  moreover have "machine_turn own saved go C = Inr (end_turn t1 (saved t1) B)" using A(17) B(1) curB r A(2) by simp
  moreover have "terminal_of (cons B)
      = fold put_char (codes (forkret_text @ ''num is '' @ ''155'' @ [CHR 0x0A])) (terminal_of (cons C))"
    using B(4) A(5) by (simp add: codes_append)
  ultimately show ?thesis
    using that [of "end_turn t1 (saved t1) B" "r\<lparr>tcb_context := saved t1\<rparr>" x] B(6-9) curB r loop(4) by simp
qed



text \<open>The two threads of \<open>talk_state\<close> with their kernel stacks at 0x30000 and 0x40000, an address space each, whose
  one table page leads to itself on the upper levels, and the loop's own thread.\<close>

definition demo_sender :: Tcb where
  "demo_sender = talk_sender\<lparr>kStack := 0x30000, tcb_tf := 0x30F50, tcb_context := 0x30F08,
     tcb_pml4 := 0xFFFFFFFF80010000, tcbIPCBuffer := 0xFFFFFFFF80020000\<rparr>"

definition demo_receiver :: Tcb where
  "demo_receiver = talk_receiver\<lparr>kStack := 0x40000, tcb_tf := 0x40F50, tcb_context := 0x40F08,
     tcb_pml4 := 0xFFFFFFFF80011000, tcbIPCBuffer := 0xFFFFFFFF80021000\<rparr>"

definition demo_state :: kstate where
  "demo_state = talk_state\<lparr>
     tcb_heap := [0x400 \<mapsto> demo_sender, 0xC00 \<mapsto> demo_receiver, 0x7000 \<mapsto> blank_tcb], ksCurThread := 0x7000,
     word_heap := [0xFFFFFFFF80020008 \<mapsto> 0, 0xFFFFFFFF80021008 \<mapsto> 0]\<rparr>"

definition demo_machine :: machine where
  "demo_machine = (call_machine zero_trapframe)\<lparr>kern := demo_state, cons := blank_screen,
     vm := (vm (call_machine zero_trapframe))\<lparr>pt_heap :=
       [0xFFFFFFFF80010000 \<mapsto> 0x10007, 0xFFFFFFFF80010010 \<mapsto> 0x20007,
        0xFFFFFFFF80011000 \<mapsto> 0x11007, 0xFFFFFFFF80011010 \<mapsto> 0x21007]\<rparr>\<rparr>"

definition demo_frame :: Trapframe where
  "demo_frame = zero_trapframe\<lparr>tf_rsi :=
     u64_from_messageinfo \<lparr>mi_label = 1, capsUnwrapped = 0, extraCaps = 0, mi_length = 1\<rparr>\<rparr>"

lemma demo_heaps [simp]:
  "tcb_heap demo_state = [0x400 \<mapsto> demo_sender, 0xC00 \<mapsto> demo_receiver, 0x7000 \<mapsto> blank_tcb]"
  "ksCurThread demo_state = 0x7000" "word_heap demo_state = [0xFFFFFFFF80020008 \<mapsto> 0, 0xFFFFFFFF80021008 \<mapsto> 0]"
  "ep_heap demo_state = ep_heap talk_state" "cte_heap demo_state = cte_heap talk_state"
  "excaprefs demo_state = [0, 0, 0]" "ksReadyQueues demo_state = ksReadyQueues talk_state"
  "kern demo_machine = demo_state" "cons demo_machine = blank_screen"
  by (simp_all add: demo_state_def demo_machine_def)

lemma demo_prepared:
  "prepared demo_machine 0x90000 0x400 demo_sender" "prepared demo_machine 0x90000 0xC00 demo_receiver"
proof -
  have "buffer_mapped demo_machine demo_sender"
    unfolding buffer_mapped_def
    by (rule exI [of _ "0x20007"])
      (simp add: maps_def path_def present_def table_of_def PTE_ADDR_def PTE_P_def entry_def p2v_def KERNBASE_def
        demo_machine_def demo_sender_def bufferPoint_def PML4X_def PDPTX_def PDX_def PTX_def OFFSET_def PXMASK_def
        PML4XSHIFT_def PDPTXSHIFT_def PDXSHIFT_def PTXSHIFT_def)
  moreover have "buffer_mapped demo_machine demo_receiver"
    unfolding buffer_mapped_def
    by (rule exI [of _ "0x21007"])
      (simp add: maps_def path_def present_def table_of_def PTE_ADDR_def PTE_P_def entry_def p2v_def KERNBASE_def
        demo_machine_def demo_receiver_def bufferPoint_def PML4X_def PDPTX_def PDX_def PTX_def OFFSET_def PXMASK_def
        PML4XSHIFT_def PDPTXSHIFT_def PDXSHIFT_def PTXSHIFT_def)
  ultimately show "prepared demo_machine 0x90000 0x400 demo_sender" "prepared demo_machine 0x90000 0xC00 demo_receiver"
    by (simp_all add: prepared_def) (simp_all add: demo_sender_def demo_receiver_def PGSIZE_def sizeof_Trapframe_def)
qed


end
