(* ===== verification/Spec2Isabelle.thy ===== *)
theory Spec2Isabelle
  imports ThreadProps SpaceProps IpcProps MemProps VmProps ByteProps ConsoleProps SyscallProps BootProps LoadProps StartProps Arch Exchange PluginStart FieldProps BootChain X86 VmInit Plugins
begin

text \<open>
  A small x86-64 kernel with seL4-like objects: threads that exchange messages over endpoints and
  notifications, capabilities in slots, a boot memory allocator, page tables, a loader for user programs
  (``plug-ins'') and the assembly around all this. The theories model the program from the first
  instruction of the boot sector to a user program that runs and traps back into the kernel.

  \<^bold>\<open>The parts and how they interact.\<close> The firmware loads the boot sector (\<open>bootasm.S\<close>), which asks the
  BIOS for the memory map, enters protected mode and calls \<open>bootmain\<close>. That reads the kernel image from
  an IDE disk, loads its segments and calls the kernel's entry (\<open>entry64.S\<close>), which builds the first page tables,
  enters 64-bit mode and calls \<open>main\<close>. \<open>main\<close> initialises the boot allocator from the memory map, the
  kernel's own page tables and descriptor tables and the interrupt controllers, loads the plug-ins from the disk and
  enters the scheduler. A thread is entered by \<open>swtch\<close> and \<open>trapret\<close>; its system calls come back
  through \<open>alltraps\<close> to \<open>trap\<close>, which runs the IPC operations on the kernel objects and gives the
  processor to the next thread of the ready queue.

  \<^bold>\<open>Theories and sources.\<close> Foundations:
  \<^item> \<open>Prelude\<close>: integer types, \<open>kerror\<close> and \<open>bind_ok\<close>, fixed-width bit-fields, list segments
    (\<open>dseg\<close>) of doubly linked queues, word arithmetic.
  \<^item> \<open>Layout\<close>, \<open>KState\<close>: the structures of \<open>include/object/structures.h\<close>, \<open>include/kernel/thread.h\<close> and
    \<open>proc.h\<close> as records, constructors of the capability words, and the state \<open>kstate\<close>: one partial map from
    addresses to values per C type, the scheduler's globals and the processor registers that a switch writes.
  \<^item> \<open>Constants\<close>: the constants and small macros of the headers that no single component owns.
    \<open>BitFields\<close>, \<open>FieldProps\<close>: the same structures as declared, placed bit by bit by the rules of the ABI;
    the records agree with them.
  Kernel objects (\<open>src/object\<close>, \<open>src/kernel/thread.c\<close>, \<open>cspace.c\<close>):
  \<^item> \<open>TcbQueues\<close>, \<open>EpQueues\<close>: the ready queue and the queues of endpoints (\<open>tcb.c\<close>). \<open>Sched\<close>: thread
    states, the scheduler action, choosing and switching (\<open>thread.c\<close>).
  \<^item> \<open>CSpace\<close>, \<open>Objects\<close>: slots and lookups (\<open>cspace.c\<close>, \<open>cnode.c\<close>), new objects (\<open>objecttype.c\<close>, \<open>untyped.c\<close>).
  \<^item> \<open>MsgTransfer\<close>, \<open>EndpointIPC\<close>, \<open>Notif\<close>: message registers and transfers, \<open>send_ipc\<close>,
    \<open>receive_ipc\<close>, signals. \<open>Frames\<close>: the step relation \<open>ipc_step\<close> of all these operations, what each of
    them leaves alone, and what holds in every reachable state.
  Memory:
  \<^item> \<open>Memblock\<close>, \<open>MemblockSpec\<close>, \<open>MemReport\<close>: \<open>memblock.c\<close> as operations on two tables of 128 regions, the
    sets of addresses they stand for, and the start-up with its messages. \<open>MemblockFind\<close>: when an
    allocation succeeds; \<open>room\<close> is the number of pages that can still be had.
  \<^item> \<open>Vm\<close>, \<open>VmSpec\<close>, \<open>VmUser\<close>, \<open>VmSetup\<close>: page walks and mappings of \<open>vm.c\<close>; the invariant \<open>pt_inv\<close> and the
    translation \<open>vtrans\<close>; user memory; a new address space. \<open>VmInit\<close>: the kernel's own address space. \<open>ByteOps\<close>: \<open>string.c\<close>.
  System calls and processes:
  \<^item> \<open>Machine\<close>, \<open>Syscall\<close>, \<open>Boot\<close>: \<open>proc.c\<close>, \<open>trap.c\<close>, \<open>syscall.c\<close>, \<open>sysproc.c\<close> and \<open>ipc_test\<close> of \<open>main.c\<close>.
  \<^item> \<open>Cpu\<close>: \<open>trapasm.S\<close>, the vectors, \<open>swtch.S\<close> and \<open>forkret\<close> as lists of instructions; \<open>TrapProps\<close>: a trap
    from user mode and back, and the switch of kernel stacks.
  \<^item> \<open>Console\<close>: \<open>console.c\<close>. \<open>Arch\<close>: the \<open>src/arch\<close> layer. \<open>X86\<close>: the functions of \<open>x86.h\<close> and the machine
    headers that wrap single instructions.
  \<^item> \<open>Turns\<close>: the loop of \<open>main\<close> over the whole machine, with its calls of \<open>swtch\<close>. \<open>Plugins\<close>: the user programs
    under \<open>plugin/\<close>, the call stubs, and their run from the first switch to their exits.
  Loading and starting:
  \<^item> \<open>BootSector\<close>, \<open>BootMap\<close>: \<open>bootasm.S\<close> and the memory map it leaves at 0x4000. \<open>Disk\<close>,
    \<open>BootLoader\<close>: \<open>disk.c\<close>, \<open>bootmain.c\<close>. \<open>Entry\<close>, \<open>EntryProps\<close>: \<open>entry64.S\<close>.
  \<^item> \<open>LoadPlugin\<close>, \<open>PluginStart\<close>: \<open>loadplugin.c\<close> and the first steps of a loaded thread.
  \<^item> \<open>SegInit\<close>, \<open>Startup\<close>: \<open>seg_init\<close>, the ACPI tables, both interrupt controllers, and \<open>main\<close>'s calls.
  The remaining theories hold properties (\<open>ThreadProps\<close>, \<open>SpaceProps\<close>, \<open>IpcProps\<close>, \<open>MemProps\<close>, \<open>VmProps\<close>,
  \<open>ByteProps\<close>, \<open>ConsoleProps\<close>, \<open>SyscallProps\<close>, \<open>BootProps\<close>, \<open>LoadProps\<close>, \<open>StartProps\<close>, \<open>AcpiProps\<close>), those that span
  components (\<open>Exchange\<close>: two turns of the loop carry a message; \<open>BootChain\<close>: from the boot sector to
  \<open>main\<close>), and concrete states for witnesses (\<open>Fixtures\<close>, \<open>VmFixture\<close>).

  \<^bold>\<open>State and operations.\<close> A C function is a HOL function of its arguments and of the state. Its result is
  \<open>kerror + 'a\<close>: \<open>Inl\<close> is a bad pointer, an index outside an array or a \<open>panic\<close>, \<open>Inr\<close> a
  normal return. Where a loop may not end the result is an \<open>option\<close>, \<open>None\<close> for a run that does not
  return (or, with fuel, has not yet returned). Pointers are 64-bit words; a 48-bit or 46-bit pointer field of the source is kept at that
  width, so that storing into it truncates. Integers have the width the source
  gives them. A variable that the source reads before setting it, a missing \<open>return\<close> and an uninitialised
  part of a structure are parameters (\<open>Uninit\<close>, \<open>junk\<close>): a property holds for every value.
  The heaps are typed: writing an object of one type leaves those of the others. Pages are the exception, since
  cleared memory appears both as words of tables and as bytes, and the boot code works on bytes only.

  \<^bold>\<open>Interfaces.\<close> \<open>typed_heap\<close> states what reading and updating an object promise, and is interpreted by
  the heaps of threads, endpoints, notifications, slots, trap frames, message words, bytes and table entries.
  \<open>block_allocator\<close> states what the page tables rely on: while there is room, an allocation returns, with
  a page that was free, is in use from then on and takes one from the room; the boot allocator interprets it (\<open>pages\<close>). \<open>ready_queue\<close> states the
  queue as a list with three operations; \<open>tcb.c\<close> interprets it (\<open>rq\<close>).

  \<^bold>\<open>What the lemmas show.\<close>
  \<^item> Refinement: the ready queue and the endpoint queues are lists; the region tables are sets of addresses; the page tables are
    a partial function on addresses; the video memory and the cursor registers are a terminal; a segment that was loaded, page by page, reads back through them.
  \<^item> Invariants: the shape of the region tables, \<open>pt_inv\<close>, the links of the queues, the kinds of objects under
    every system call, the endpoint states in every reachable state.
  \<^item> Functional behaviour of send, receive, signal, the transfer of messages, object creation, the system calls, the two loaders,
    the parsers of ACPI tables and memory maps, number formatting.
  \<^item> Composition: two turns of the main loop carry a message from one thread to another; a thread that the plug-in loader has prepared
    reaches its user program; the boot sector, the loader and the kernel entry together reach \<open>main\<close> with the
    kernel image, the memory map and the first page tables in place.
    The two plug-ins, run by the loop, put out what they are written to, and no more.
  \<^item> Failures: which branches of the source dereference a null pointer, never return or leave a table out of shape.

  \<^bold>\<open>Bounds and fuel.\<close> \<open>alloc_uvm\<close>, \<open>cancel_allSignals\<close> and the loader's calls of them take fuel; the
  properties show that the number of pages of the range, or the length of the queue, is enough. The other loops that may run for ever
  (waiting for the disk, for the keyboard controller, for the delivery of an interrupt, scanning for a file header, printing a string
  without an end, walking a table of interrupt controllers, asking the BIOS again) are partial functions, and
  the properties about them say that they return. All other loops are total functions with a measure.

  \<^bold>\<open>Parameters.\<close> The disk drive (its status at each poll and the words it serves), the BIOS and the keyboard
  controller, values read from the registers of interrupt controllers, the addresses that the linker or a generated file fixes (\<open>forkret\<close>,
  \<open>trapret\<close>, the vectors, the ends of sections), the address of local arrays, and and, in \<open>Sched\<close>, what threads do between a
  switch and their return. \<open>Turns\<close> fills that in: what runs is what the saved stack pointer says; the two stack pointers that
  \<open>swtch\<close> saves are parameters, and so are the registers that the compiler leaves at a system call of a plug-in.

  \<^bold>\<open>Not modelled.\<close> \<open>buddy.c\<close> and \<open>fastpath.c\<close> are not in the Makefile and do not compile (\<open>buddy.c\<close> uses
  types that are commented out; \<open>fastpath.c\<close> tests an empty condition), nor does the library under \<open>oslibs\<close>, which nothing includes. The Rust plug-ins are
  separate user programs in another language. The permission bits of page table entries are kept but not
  checked when a user program accesses memory. Interrupts do not occur while the kernel runs, and there is one processor.
\<close>

end
